(* ===== verification/Prelude.thy ===== *)
theory Prelude
  imports
    Complex_Main
    "HOL-Library.Word"
    "HOL-Library.Sublist"
    "HOL-Library.Char_ord"
    "HOL-Library.List_Lexorder"
begin

text \<open>
  The part of C++ and of its standard library that the components share, and the generic lemmas on
  it. \<open>std::string\<close> is a list of bytes (\<^typ>\<open>string\<close>; a \<^typ>\<open>char\<close> is one byte, and
  \<open>byte c\<close> is the source's \<open>static_cast<unsigned char>(c)\<close>); \<open>int\<close> and \<open>long\<close> are
  \<^typ>\<open>int\<close> (the values of these components are far inside 32 bits and signed overflow is
  undefined behaviour in the source); \<open>uint64_t\<close> is \<^typ>\<open>64 word\<close>; \<open>double\<close> seconds
  are \<^typ>\<open>real\<close> (rounding is not modelled). Three locales state the contracts that several
  components share: a machine with an invariant, a printer with its parser, and a comparison that
  a scan for the best element uses.
\<close>

section \<open>Types and collections\<close>

type_synonym u64 = "64 word"
type_synonym seconds = real

named_theorems text_simps
  \<open>bytes, prefixes and searches of strings\<close>

named_theorems bounds_intro
  \<open>bounds of clamped and counted values\<close>

section \<open>Integers\<close>

definition clamp :: "int \<Rightarrow> int \<Rightarrow> int \<Rightarrow> int" where
  "clamp v lo hi = (if v < lo then lo else if hi < v then hi else v)"

lemma clamp_bounds [bounds_intro]:
  "lo \<le> hi \<Longrightarrow> lo \<le> clamp v lo hi" "lo \<le> hi \<Longrightarrow> clamp v lo hi \<le> hi"
  by (simp_all add: clamp_def)

lemma clamp_id [simp]: "lo \<le> v \<Longrightarrow> v \<le> hi \<Longrightarrow> clamp v lo hi = v"
  by (simp add: clamp_def)

lemma clamp_idem [simp]: "lo \<le> hi \<Longrightarrow> clamp (clamp v lo hi) lo hi = clamp v lo hi"
  by (simp add: clamp_def)

text \<open>\<open>a / b\<close> and \<open>a % b\<close> of C++: the quotient truncates towards zero.\<close>

definition cdiv :: "int \<Rightarrow> int \<Rightarrow> int" where
  "cdiv a b = sgn a * sgn b * (\<bar>a\<bar> div \<bar>b\<bar>)"

definition cmod :: "int \<Rightarrow> int \<Rightarrow> int" where
  "cmod a b = a - cdiv a b * b"

lemma cdiv_nonneg [simp]: "0 \<le> a \<Longrightarrow> 0 \<le> b \<Longrightarrow> cdiv a b = a div b"
  by (auto simp: cdiv_def sgn_if)

lemma cmod_nonneg [simp]: "0 \<le> a \<Longrightarrow> 0 \<le> b \<Longrightarrow> cmod a b = a mod b"
  by (simp add: cmod_def minus_div_mult_eq_mod)

section \<open>Bytes\<close>

abbreviation byte :: "char \<Rightarrow> nat" where
  "byte c \<equiv> of_char c"

definition isdigit :: "char \<Rightarrow> bool" where
  "isdigit c \<longleftrightarrow> 48 \<le> byte c \<and> byte c \<le> 57"

definition isupper :: "char \<Rightarrow> bool" where
  "isupper c \<longleftrightarrow> 65 \<le> byte c \<and> byte c \<le> 90"

definition islower :: "char \<Rightarrow> bool" where
  "islower c \<longleftrightarrow> 97 \<le> byte c \<and> byte c \<le> 122"

definition isalnum :: "char \<Rightarrow> bool" where
  "isalnum c \<longleftrightarrow> isdigit c \<or> isupper c \<or> islower c"

definition isspace :: "char \<Rightarrow> bool" where
  "isspace c \<longleftrightarrow> byte c = 32 \<or> (9 \<le> byte c \<and> byte c \<le> 13)"

definition tolower :: "char \<Rightarrow> char" where
  "tolower c = (if isupper c then char_of (byte c + 32) else c)"

definition toupper :: "char \<Rightarrow> char" where
  "toupper c = (if islower c then char_of (byte c - 32) else c)"

definition Lower :: "string \<Rightarrow> string" where
  "Lower s = map tolower s"

text \<open>A UTF-8 continuation byte: \<open>(c & 0xC0) == 0x80\<close>.\<close>

definition utf8_cont :: "char \<Rightarrow> bool" where
  "utf8_cont c \<longleftrightarrow> 128 \<le> byte c \<and> byte c < 192"

abbreviation quote_char :: char where "quote_char \<equiv> CHR 0x22"
abbreviation newline_char :: char where "newline_char \<equiv> CHR 0x0A"
abbreviation space_char :: char where "space_char \<equiv> CHR 0x20"

lemma byte_less_256 [simp]: "byte c < 256"
  using of_char_mod_256 [of c, where 'a = nat] by (metis mod_less_divisor zero_less_numeral)

lemma byte_tolower: "byte (tolower c) = (if isupper c then byte c + 32 else byte c)"
  by (auto simp: tolower_def isupper_def of_char_of)

lemma not_isupper_tolower [simp]: "\<not> isupper (tolower c)"
  by (auto simp: isupper_def byte_tolower)

lemma tolower_idem [simp]: "tolower (tolower c) = tolower c"
  by (simp add: tolower_def [of "tolower c"])

lemma Lower_idem [simp]: "Lower (Lower s) = Lower s"
  by (simp add: Lower_def)

lemma length_Lower [simp]: "length (Lower s) = length s"
  by (simp add: Lower_def)

lemma Lower_eq_Nil [simp]: "Lower s = [] \<longleftrightarrow> s = []"
  by (simp add: Lower_def)

section \<open>Strings\<close>

text \<open>\<open>s.rfind(p, 0) == 0\<close> and \<open>s.compare(0, p.size(), p) == 0\<close>.\<close>

definition starts_with :: "string \<Rightarrow> string \<Rightarrow> bool" where
  "starts_with p s \<longleftrightarrow> take (length p) s = p"

definition ends_with :: "string \<Rightarrow> string \<Rightarrow> bool" where
  "ends_with p s \<longleftrightarrow> length p \<le> length s \<and> drop (length s - length p) s = p"

text \<open>\<open>s.find(p)\<close>: the index of the first occurrence.\<close>

fun find_sub :: "string \<Rightarrow> string \<Rightarrow> nat option" where
  "find_sub p [] = (if p = [] then Some 0 else None)"
| "find_sub p (c # cs) = (if starts_with p (c # cs) then Some 0 else map_option Suc (find_sub p cs))"

text \<open>\<open>s.find(p, from)\<close>.\<close>

definition find_from :: "string \<Rightarrow> string \<Rightarrow> nat \<Rightarrow> nat option" where
  "find_from p s i = (if i \<le> length s then map_option ((+) i) (find_sub p (drop i s)) else None)"

definition contains :: "string \<Rightarrow> string \<Rightarrow> bool" where
  "contains p s \<longleftrightarrow> find_sub p s \<noteq> None"

definition trim_by :: "(char \<Rightarrow> bool) \<Rightarrow> string \<Rightarrow> string" where
  "trim_by P s = rev (dropWhile P (rev (dropWhile P s)))"

definition Trim :: "string \<Rightarrow> string" where
  "Trim s = trim_by isspace s"

lemma starts_with_prefix [text_simps]: "starts_with p s \<longleftrightarrow> prefix p s"
  unfolding starts_with_def
  by (metis append_eq_conv_conj prefix_def)

lemma starts_with_append [simp]: "starts_with p (p @ s)"
  by (simp add: starts_with_def)

lemma ends_with_suffix [text_simps]: "ends_with p s \<longleftrightarrow> suffix p s"
proof
  assume "ends_with p s"
  then show "suffix p s" unfolding ends_with_def by (metis suffix_drop)
next
  assume "suffix p s"
  then show "ends_with p s" by (auto simp: ends_with_def suffix_def)
qed

lemma find_sub_Some:
  "find_sub p s = Some i \<Longrightarrow> i \<le> length s \<and> starts_with p (drop i s)"
  by (induction p s arbitrary: i rule: find_sub.induct) (auto split: if_splits simp: starts_with_def)

lemma find_sub_least:
  "find_sub p s = Some i \<Longrightarrow> j < i \<Longrightarrow> \<not> starts_with p (drop j s)"
proof (induction p s arbitrary: i j rule: find_sub.induct)
  case (1 p)
  then show ?case by (auto split: if_splits)
next
  case (2 p c cs)
  then show ?case by (cases j) (auto split: if_splits)
qed

lemma find_sub_None: "find_sub p s = None \<Longrightarrow> \<not> starts_with p (drop i s)"
proof (induction p s arbitrary: i rule: find_sub.induct)
  case (1 p)
  then show ?case by (auto split: if_splits simp: starts_with_def)
next
  case (2 p c cs)
  then show ?case by (cases i) (auto split: if_splits)
qed

lemma contains_iff_sublist: "contains p s \<longleftrightarrow> sublist p s"
proof
  assume "contains p s"
  then obtain i where "starts_with p (drop i s)"
    unfolding contains_def using find_sub_Some by blast
  then show "sublist p s"
    by (metis sublist_order.order_trans prefix_imp_sublist starts_with_prefix suffix_drop suffix_imp_sublist)
next
  assume "sublist p s"
  then obtain xs ys where "s = xs @ p @ ys" by (auto simp: sublist_def)
  then have "starts_with p (drop (length xs) s)" by simp
  then show "contains p s" unfolding contains_def using find_sub_None by blast
qed

lemma set_trim_by: "set (trim_by P s) \<subseteq> set s"
  unfolding trim_by_def by (auto dest!: set_dropWhileD)

lemma length_trim_by: "length (trim_by P s) \<le> length s"
  unfolding trim_by_def by (metis length_dropWhile_le length_rev order_trans)

lemma trim_by_prefix: "prefix (trim_by P s) (dropWhile P s)"
  unfolding trim_by_def by (metis rev_rev_ident suffix_dropWhile suffix_to_prefix)

lemma trim_by_hd:
  assumes ne: "trim_by P s \<noteq> []"
  shows "\<not> P (hd (trim_by P s))"
proof -
  obtain r where r: "dropWhile P s = trim_by P s @ r" using trim_by_prefix prefixE by blast
  then have "\<not> P (hd (dropWhile P s))" using ne by (intro hd_dropWhile) simp
  with r ne show ?thesis by (simp add: hd_append)
qed

lemma trim_by_last: "trim_by P s \<noteq> [] \<Longrightarrow> \<not> P (last (trim_by P s))"
  unfolding trim_by_def by (metis hd_dropWhile last_rev rev_is_Nil_conv)

lemma trim_by_Nil: "trim_by P s = [] \<longleftrightarrow> list_all P s"
proof -
  have "trim_by P s = [] \<longleftrightarrow> (\<forall>x \<in> set (dropWhile P s). P x)"
    by (simp add: trim_by_def)
  also have "\<dots> \<longleftrightarrow> dropWhile P s = []"
    by (metis empty_iff empty_set hd_dropWhile hd_in_set)
  finally show ?thesis by (simp add: list_all_iff)
qed

lemma dropWhile_hd_id: "\<not> P (hd s) \<Longrightarrow> dropWhile P s = s"
  by (cases s) auto

lemma trim_by_id: "\<not> P (hd s) \<Longrightarrow> \<not> P (last s) \<Longrightarrow> trim_by P s = s"
  by (cases "s = []") (simp_all add: trim_by_def dropWhile_hd_id hd_rev)

text \<open>
  Cutting a byte string without splitting a UTF-8 character:
  \<open>cut = n; while (cut > 0 && (s[cut] & 0xC0) == 0x80) --cut;\<close> for a string longer than \<open>n\<close>.
\<close>

fun back_off :: "string \<Rightarrow> nat \<Rightarrow> nat" where
  "back_off s 0 = 0"
| "back_off s (Suc n) = (if utf8_cont (s ! Suc n) then back_off s n else Suc n)"

definition utf8_cut :: "string \<Rightarrow> nat \<Rightarrow> nat" where
  "utf8_cut s n = (if length s \<le> n then length s else back_off s n)"

lemma back_off_le [simp]: "back_off s n \<le> n"
  by (induction n) (auto simp: le_Suc_eq)

lemma back_off_boundary: "0 < back_off s n \<Longrightarrow> \<not> utf8_cont (s ! back_off s n)"
  by (induction n) (auto split: if_splits)

lemma back_off_dropped: "back_off s n < i \<Longrightarrow> i \<le> n \<Longrightarrow> utf8_cont (s ! i)"
  by (induction n) (auto split: if_splits simp: le_Suc_eq)

lemma utf8_cut_le: "utf8_cut s n \<le> n" "utf8_cut s n \<le> length s"
  by (auto simp: utf8_cut_def intro: order_trans [OF back_off_le])

text \<open>What is kept ends where a character ends: the first dropped byte starts one.\<close>

lemma utf8_cut_boundary:
  assumes "take (utf8_cut s n) s \<noteq> []" and "drop (utf8_cut s n) s \<noteq> []"
  shows "\<not> utf8_cont (hd (drop (utf8_cut s n) s))"
  using assms back_off_boundary [of s n]
  by (auto simp: utf8_cut_def hd_drop_conv_nth split: if_splits)

section \<open>Decimal numbers\<close>

text \<open>\<open>std::to_string\<close> of an unsigned value, of an \<open>int\<close> and of a \<open>uint64_t\<close>.\<close>

fun dec_nat :: "nat \<Rightarrow> string" where
  "dec_nat n =
     (if n < 10 then [char_of (48 + n)] else dec_nat (n div 10) @ [char_of (48 + n mod 10)])"

declare dec_nat.simps [simp del]

definition to_string :: "int \<Rightarrow> string" where
  "to_string i = (if i < 0 then CHR ''-'' # dec_nat (nat (- i)) else dec_nat (nat i))"

definition u64_string :: "u64 \<Rightarrow> string" where
  "u64_string w = dec_nat (unat w)"

text \<open>
  The value of a run of digits, and \<open>std::atoi\<close>.
\<close>

definition dec_value :: "string \<Rightarrow> nat" where
  "dec_value s = foldl (\<lambda>v c. v * 10 + (byte c - 48)) 0 s"

definition atoi :: "string \<Rightarrow> int" where
  "atoi s =
     (let t = dropWhile isspace s
      in case t of
           [] \<Rightarrow> 0
         | c # cs \<Rightarrow>
             if c = CHR ''-'' then - int (dec_value (takeWhile isdigit cs))
             else if c = CHR ''+'' then int (dec_value (takeWhile isdigit cs))
             else int (dec_value (takeWhile isdigit t)))"

definition IsDigits :: "string \<Rightarrow> bool" where
  "IsDigits s \<longleftrightarrow> s \<noteq> [] \<and> list_all isdigit s"

lemma digit_char: "n < 10 \<Longrightarrow> isdigit (char_of (48 + n)) \<and> byte (char_of (48 + n) :: char) = 48 + n"
  by (simp add: isdigit_def of_char_of)

lemma dec_value_Nil [simp]: "dec_value [] = 0"
  by (simp add: dec_value_def)

lemma dec_value_snoc [simp]: "dec_value (s @ [c]) = dec_value s * 10 + (byte c - 48)"
  by (simp add: dec_value_def)

lemma dec_value_dec_nat [simp]: "dec_value (dec_nat n) = n"
proof (induction n rule: dec_nat.induct)
  case (1 n)
  show ?case
  proof (cases "n < 10")
    case True
    then show ?thesis
      using digit_char [OF True] by (simp add: dec_nat.simps [of n] dec_value_def)
  next
    case False
    with "1.IH" show ?thesis
      using digit_char [of "n mod 10"] by (simp add: dec_nat.simps [of n])
  qed
qed

lemma list_all_isdigit_dec_nat [simp]: "list_all isdigit (dec_nat n)"
proof (induction n rule: dec_nat.induct)
  case (1 n)
  then show ?case
    using digit_char [of n] digit_char [of "n mod 10"] by (simp add: dec_nat.simps [of n])
qed

lemma dec_nat_not_Nil [simp]: "dec_nat n \<noteq> []"
  by (simp add: dec_nat.simps [of n])

lemma IsDigits_dec_nat [simp]: "IsDigits (dec_nat n)"
  by (simp add: IsDigits_def)

lemma length_dec_nat: "0 < k \<Longrightarrow> n < 10 ^ k \<Longrightarrow> length (dec_nat n) \<le> k"
proof (induction n arbitrary: k rule: dec_nat.induct)
  case (1 n)
  show ?case
  proof (cases "n < 10")
    case True
    with "1.prems" show ?thesis by (simp add: dec_nat.simps [of n])
  next
    case False
    with "1.prems" obtain j where k: "k = Suc j" and j: "0 < j"
      by (cases k; cases "k - 1") auto
    with "1.prems" have "n div 10 < 10 ^ j" by (simp add: less_mult_imp_div_less mult.commute)
    with False j have "length (dec_nat (n div 10)) \<le> j" by (intro "1.IH")
    with False k show ?thesis by (simp add: dec_nat.simps [of n])
  qed
qed

lemma inj_dec_nat [simp]: "dec_nat m = dec_nat n \<longleftrightarrow> m = n"
  by (metis dec_value_dec_nat)

lemma inj_u64_string [simp]: "u64_string v = u64_string w \<longleftrightarrow> v = w"
  by (simp add: u64_string_def word_unat_eq_iff)

lemma length_u64_string: "length (u64_string w) \<le> 20"
proof -
  have "unat w < 2 ^ 64" using unsigned_less [of w, where 'a = nat] by simp
  then have "unat w < 10 ^ 20" by (rule less_trans) simp
  then show ?thesis unfolding u64_string_def by (intro length_dec_nat) simp_all
qed

lemma takeWhile_isdigit_all: "list_all isdigit s \<Longrightarrow> takeWhile isdigit s = s"
  by (simp add: list_all_iff)

lemma digit_not_sign: "isdigit c \<Longrightarrow> c \<noteq> CHR ''-'' \<and> c \<noteq> CHR ''+'' \<and> \<not> isspace c"
  by (auto simp: isdigit_def isspace_def)

lemma atoi_digits: "list_all isdigit s \<Longrightarrow> atoi s = int (dec_value s)"
  by (cases s) (auto simp: atoi_def digit_not_sign takeWhile_isdigit_all list_all_iff)

lemma atoi_dec_nat [simp]: "atoi (dec_nat n) = int n"
  by (simp add: atoi_digits)

section \<open>Contracts that several components share\<close>

text \<open>
  A machine: a step function over events, an invariant that every admitted event keeps. The client
  gets the invariant for whole runs, from any state that has it.
\<close>

locale machine =
  fixes step :: "'e \<Rightarrow> 's \<Rightarrow> 's"
    and ok :: "'e \<Rightarrow> bool"
    and inv :: "'s \<Rightarrow> bool"
  assumes inv_step: "inv s \<Longrightarrow> ok e \<Longrightarrow> inv (step e s)"
begin

lemma inv_run: "inv s \<Longrightarrow> list_all ok es \<Longrightarrow> inv (fold step es s)"
  by (induction es arbitrary: s) (auto intro: inv_step)

lemma inv_prefix: "inv s \<Longrightarrow> list_all ok (es @ fs) \<Longrightarrow> inv (fold step es s)"
  by (auto intro: inv_run)

end

text \<open>
  A printer and its parser on the values \<open>dom_ok\<close> admits: parsing what was printed gives the value
  back, so the printer keeps different values apart.
\<close>

locale codec =
  fixes enc :: "'a \<Rightarrow> 'b"
    and dec :: "'b \<Rightarrow> 'a option"
    and dom_ok :: "'a \<Rightarrow> bool"
  assumes dec_enc: "dom_ok x \<Longrightarrow> dec (enc x) = Some x"
begin

lemma enc_inj: "dom_ok x \<Longrightarrow> dom_ok y \<Longrightarrow> enc x = enc y \<Longrightarrow> x = y"
  using dec_enc by (metis option.inject)

lemma enc_distinct: "\<forall>x \<in> set xs. dom_ok x \<Longrightarrow> distinct (map enc xs) \<longleftrightarrow> distinct xs"
  by (induction xs) (auto dest: enc_inj)

end

text \<open>
  The loop \<open>for (x : xs) if (!best || better(x, *best)) best = &x;\<close> of several components. For a
  strict weak order the result is an element nothing in the list beats, and the first such.
\<close>

fun scan_best :: "('a \<Rightarrow> 'a \<Rightarrow> bool) \<Rightarrow> 'a option \<Rightarrow> 'a list \<Rightarrow> 'a option" where
  "scan_best better best [] = best"
| "scan_best better None (x # xs) = scan_best better (Some x) xs"
| "scan_best better (Some y) (x # xs) = scan_best better (Some (if better x y then x else y)) xs"

lemma scan_best_Some_eq: "\<exists>z. scan_best better (Some y) xs = Some z"
  by (induction xs arbitrary: y) auto

lemma scan_best_None [simp]: "scan_best better None xs = None \<longleftrightarrow> xs = []"
proof (cases xs)
  case (Cons x ys)
  then show ?thesis using scan_best_Some_eq [of better x ys] by auto
qed simp

lemma scan_best_in:
  "scan_best better acc xs = Some z \<Longrightarrow> z \<in> set xs \<or> acc = Some z"
  by (induction better acc xs rule: scan_best.induct) (auto split: if_splits)

locale strict_weak =
  fixes better :: "'a \<Rightarrow> 'a \<Rightarrow> bool"
  assumes irrefl: "\<not> better x x"
    and trans: "better x y \<Longrightarrow> better y z \<Longrightarrow> better x z"
    and neg_trans: "\<not> better x y \<Longrightarrow> \<not> better y z \<Longrightarrow> \<not> better x z"
begin

lemma asym: "better x y \<Longrightarrow> \<not> better y x"
  using irrefl trans by blast

lemma scan_best_max:
  "scan_best better (Some y) xs = Some z \<Longrightarrow> (\<forall>x \<in> set xs. \<not> better x z) \<and> \<not> better y z"
proof (induction xs arbitrary: y)
  case Nil
  then show ?case by (simp add: irrefl)
next
  case (Cons x xs)
  show ?case
  proof (cases "better x y")
    case True
    with Cons have "(\<forall>w \<in> set xs. \<not> better w z) \<and> \<not> better x z" by simp
    with True show ?thesis using trans by auto
  next
    case False
    with Cons have "(\<forall>w \<in> set xs. \<not> better w z) \<and> \<not> better y z" by simp
    with False show ?thesis using neg_trans by auto
  qed
qed

lemma scan_best_top:
  assumes "scan_best better None xs = Some z"
  shows "z \<in> set xs" and "x \<in> set xs \<Longrightarrow> \<not> better x z"
proof -
  from assms scan_best_in show "z \<in> set xs" by fastforce
  from assms obtain y ys where "xs = y # ys" by (cases xs) auto
  with assms scan_best_max [of y ys z] show "x \<in> set xs \<Longrightarrow> \<not> better x z" by auto
qed

end

end
