(* ===== verification/Match_Rules.thy ===== *)
theory Match_Rules
  imports Prelude
begin

text \<open>
  The pause, ready and forfeit rules of a match (plugins/match/readyup/match_rules.h and
  match_rules.cpp): where each rule's value comes from, technical pauses, the automatic 5v5 pause,
  \<open>.forceready\<close>, the go-live ready gate, playout, team names and the forfeit countdown of an absent
  team. \<open>ForfeitTimer\<close> is the one object with state.
\<close>

section \<open>Messages (text.h)\<close>

type_synonym Args = "(string \<times> string) list"

record Msg =
  msg_key :: string
  msg_args :: Args

section \<open>The rules and where they come from\<close>

text \<open>\<open>-1\<close> in a field: not set, take the next source.\<close>

record MatchRules =
  tech_pauses_per_team :: int
  tech_pause_max_seconds :: int
  disconnect_pause_max_seconds :: int
  both_teams_unpause :: int
  allow_force_ready :: int
  team_ready :: int
  min_players_to_ready :: int
  min_spectators_to_ready :: int
  forfeit_after_seconds :: int
  gg_enabled :: int
  gg_threshold_pct :: int
  gg_min_score_diff :: int
  stop_command_available :: int
  stop_command_no_damage :: int
  stop_vote_seconds :: int
  pause_after_restore :: int

definition UnsetRules :: MatchRules where
  "UnsetRules =
     \<lparr>tech_pauses_per_team = -1, tech_pause_max_seconds = -1, disconnect_pause_max_seconds = -1,
      both_teams_unpause = -1, allow_force_ready = -1, team_ready = -1, min_players_to_ready = -1,
      min_spectators_to_ready = -1, forfeit_after_seconds = -1, gg_enabled = -1,
      gg_threshold_pct = -1, gg_min_score_diff = -1, stop_command_available = -1,
      stop_command_no_damage = -1, stop_vote_seconds = -1, pause_after_restore = -1\<rparr>"

definition BuiltinDefaultRules :: MatchRules where
  "BuiltinDefaultRules =
     \<lparr>tech_pauses_per_team = 3, tech_pause_max_seconds = 300, disconnect_pause_max_seconds = 300,
      both_teams_unpause = 1, allow_force_ready = 1, team_ready = 0, min_players_to_ready = 0,
      min_spectators_to_ready = 0, forfeit_after_seconds = 240, gg_enabled = 0,
      gg_threshold_pct = 80, gg_min_score_diff = 8, stop_command_available = 0,
      stop_command_no_damage = 0, stop_vote_seconds = 30, pause_after_restore = 1\<rparr>"

definition pick_rule :: "int \<Rightarrow> int \<Rightarrow> int \<Rightarrow> int" where
  "pick_rule a b c = (if 0 \<le> a then a else if 0 \<le> b then b else c)"

definition as_flag :: "int \<Rightarrow> int" where
  "as_flag v = (if v \<noteq> 0 then 1 else 0)"

definition ResolveRules :: "MatchRules \<Rightarrow> MatchRules \<Rightarrow> MatchRules" where
  "ResolveRules m b =
     (let d = BuiltinDefaultRules; pick = (\<lambda>f. pick_rule (f m) (f b) (f d))
      in \<lparr>tech_pauses_per_team = pick tech_pauses_per_team,
          tech_pause_max_seconds = pick tech_pause_max_seconds,
          disconnect_pause_max_seconds = pick disconnect_pause_max_seconds,
          both_teams_unpause = as_flag (pick both_teams_unpause),
          allow_force_ready = as_flag (pick allow_force_ready),
          team_ready = as_flag (pick team_ready),
          min_players_to_ready = pick min_players_to_ready,
          min_spectators_to_ready = pick min_spectators_to_ready,
          forfeit_after_seconds = pick forfeit_after_seconds,
          gg_enabled = as_flag (pick gg_enabled),
          gg_threshold_pct = clamp (pick gg_threshold_pct) 1 100,
          gg_min_score_diff = pick gg_min_score_diff,
          stop_command_available = as_flag (pick stop_command_available),
          stop_command_no_damage = as_flag (pick stop_command_no_damage),
          stop_vote_seconds = clamp (pick stop_vote_seconds) 5 300,
          pause_after_restore = as_flag (pick pause_after_restore)\<rparr>)"

section \<open>Chat lines\<close>

definition GoLiveRulesLines ::
  "int \<Rightarrow> int \<Rightarrow> string \<Rightarrow> int \<Rightarrow> bool \<Rightarrow> int \<Rightarrow> int \<Rightarrow> bool \<Rightarrow> Msg list" where
  "GoLiveRulesLines mapNumber numMaps map_name maxRounds overtime overtimeHalfRounds maxOvertimes damageTiebreak =
     (let base = (if starts_with ''de_'' map_name \<or> starts_with ''cs_'' map_name
                  then drop 3 map_name else map_name);
          name = (case base of [] \<Rightarrow> [] | c # cs \<Rightarrow> toupper c # cs);
          n = to_string;
          first = (if numMaps > 1 then ''golive.map_of'' else ''golive.one_map'');
          head = \<lparr>msg_key = first @ (if name = [] then ''_noname'' else []),
                  msg_args = [(''map_number'', n mapNumber), (''num_maps'', n numMaps),
                              (''to_win'', n (cdiv numMaps 2 + 1)), (''map'', name)]\<rparr>
      in if maxRounds \<le> 0 then [head]
         else
           (let half = cdiv maxRounds 2;
                tie = [(''half'', n half)];
                ot = tie @ [(''ot_rounds'', n (overtimeHalfRounds * 2)),
                            (''ot_to_win'', n (overtimeHalfRounds + 1)), (''max_ot'', n maxOvertimes)];
                last_line =
                  (if overtime \<and> overtimeHalfRounds > 0
                   then \<lparr>msg_key = (if maxOvertimes \<le> 0 then ''golive.tie_overtime''
                                    else if damageTiebreak then ''golive.tie_overtime_damage''
                                    else ''golive.tie_overtime_draw''),
                         msg_args = ot\<rparr>
                   else \<lparr>msg_key = (if damageTiebreak then ''golive.tie_damage'' else ''golive.tie_draw''),
                         msg_args = tie\<rparr>)
            in [head,
                \<lparr>msg_key = ''golive.rounds'', msg_args = [(''rounds'', n maxRounds), (''to_win'', n (half + 1))]\<rparr>,
                \<lparr>msg_key = ''golive.sides_switch'', msg_args = [(''half'', n half)]\<rparr>,
                last_line]))"

definition PlayerLeftChatLine :: "string \<Rightarrow> string \<Rightarrow> bool \<Rightarrow> int \<Rightarrow> Msg" where
  "PlayerLeftChatLine name team autoPause maxSeconds =
     (let args = [(''name'', name), (''team'', team),
                  (''minutes'', to_string (max 1 (cdiv maxSeconds 60)))]
      in if \<not> autoPause then \<lparr>msg_key = ''player.left_goes_on'', msg_args = args\<rparr>
         else \<lparr>msg_key = (if maxSeconds > 0 then ''player.left_pauses_max'' else ''player.left_pauses''),
               msg_args = args\<rparr>)"

section \<open>Pauses\<close>

definition TechPauseAllowed :: "int \<Rightarrow> int \<Rightarrow> bool" where
  "TechPauseAllowed used limit \<longleftrightarrow> limit \<le> 0 \<or> used < limit"

definition TechPausesLeft :: "int \<Rightarrow> int \<Rightarrow> int" where
  "TechPausesLeft used limit = (if limit \<le> 0 then -1 else max 0 (limit - used))"

definition TechPauseSecondsLeft :: "int \<Rightarrow> int \<Rightarrow> int" where
  "TechPauseSecondsLeft elapsedSeconds maxSeconds =
     (if maxSeconds \<le> 0 then -1 else max 0 (maxSeconds - max 0 elapsedSeconds))"

definition UnpauseSatisfied :: "bool \<Rightarrow> bool \<Rightarrow> bool \<Rightarrow> int \<Rightarrow> bool" where
  "UnpauseSatisfied team1Confirmed team2Confirmed bothRequired pauserTeam =
     (if bothRequired then team1Confirmed \<and> team2Confirmed
      else if pauserTeam = 1 then team1Confirmed
      else if pauserTeam = 2 then team2Confirmed
      else team1Confirmed \<or> team2Confirmed)"

abbreviation kFullTeamPlayers :: int where "kFullTeamPlayers \<equiv> 5"

text \<open>The short side: 3 is CT, 2 is T, 0 when both sides are full.\<close>

definition Auto5v5ShortSide :: "int \<Rightarrow> int \<Rightarrow> int" where
  "Auto5v5ShortSide ctPlayers tPlayers =
     (if ctPlayers \<ge> kFullTeamPlayers \<and> tPlayers \<ge> kFullTeamPlayers then 0
      else if ctPlayers \<le> tPlayers then 3 else 2)"

definition Auto5v5PauseExpected :: "bool \<Rightarrow> bool \<Rightarrow> bool \<Rightarrow> int \<Rightarrow> int \<Rightarrow> bool" where
  "Auto5v5PauseExpected ruleOn liveMap alreadyPaused ctPlayers tPlayers =
     (if \<not> ruleOn \<or> \<not> liveMap \<or> alreadyPaused then False
      else Auto5v5ShortSide ctPlayers tPlayers \<noteq> 0)"

datatype Auto5v5Check = Check_Done | Check_Wait | Check_Mark

definition Auto5v5Decide :: "bool \<Rightarrow> bool \<Rightarrow> bool \<Rightarrow> int \<Rightarrow> int \<Rightarrow> int \<Rightarrow> Auto5v5Check" where
  "Auto5v5Decide ruleOn liveMap alreadyPaused enginePaused ctPlayers tPlayers =
     (if \<not> ruleOn \<or> \<not> liveMap \<or> alreadyPaused then Check_Done
      else if enginePaused = 1
        then (if Auto5v5ShortSide ctPlayers tPlayers \<noteq> 0 then Check_Mark else Check_Done)
      else if enginePaused = 0 then Check_Wait
      else if Auto5v5ShortSide ctPlayers tPlayers \<noteq> 0 then Check_Mark else Check_Done)"

datatype EnginePauseAction = Pause_None | Pause_Clear | Pause_MarkAuto5v5 | Pause_MarkEngine

abbreviation kEnginePauseMarkHoldSeconds :: seconds where "kEnginePauseMarkHoldSeconds \<equiv> 3"

definition DecideEnginePause ::
  "int \<Rightarrow> bool \<Rightarrow> bool \<Rightarrow> bool \<Rightarrow> bool \<Rightarrow> int \<Rightarrow> int \<Rightarrow> int \<Rightarrow> seconds \<Rightarrow> EnginePauseAction" where
  "DecideEnginePause enginePaused readyUpPause playing goLiveWindow autoRuleOn ct t fullTeam unmarkedForSeconds =
     (if enginePaused \<noteq> 1 \<or> readyUpPause \<or> \<not> playing then Pause_None
      else
        (let full = (if fullTeam > 0 then fullTeam else kFullTeamPlayers);
             shortSide = (ct < full \<or> t < full);
             mark = (if shortSide \<and> autoRuleOn then Pause_MarkAuto5v5 else Pause_MarkEngine)
         in if goLiveWindow then (if shortSide then mark else Pause_Clear)
            else if unmarkedForSeconds \<ge> kEnginePauseMarkHoldSeconds then mark else Pause_None))"

abbreviation kAuto5v5FullHoldSeconds :: seconds where "kAuto5v5FullHoldSeconds \<equiv> 5"

definition Auto5v5UnpauseReason :: "int \<Rightarrow> int \<Rightarrow> seconds \<Rightarrow> seconds \<Rightarrow> int \<Rightarrow> string" where
  "Auto5v5UnpauseReason ctPlayers tPlayers fullForSeconds pausedSeconds maxSeconds =
     (if Auto5v5ShortSide ctPlayers tPlayers = 0 \<and> fullForSeconds \<ge> kAuto5v5FullHoldSeconds then ''full''
      else if maxSeconds > 0 \<and> pausedSeconds \<ge> of_int maxSeconds then ''timeout''
      else [])"

section \<open>Ready-up\<close>

definition FullTeamSize :: "int \<Rightarrow> int \<Rightarrow> int" where
  "FullTeamSize rosterSize playersPerTeam =
     (if rosterSize \<le> 0 then 0
      else min rosterSize (if playersPerTeam > 0 then playersPerTeam else kFullTeamPlayers))"

definition ForceReadyRequired :: "int \<Rightarrow> int \<Rightarrow> int \<Rightarrow> int" where
  "ForceReadyRequired rosterSize minPlayers playersPerTeam =
     (if rosterSize \<le> 0 then 0
      else if minPlayers \<le> 0 then FullTeamSize rosterSize playersPerTeam
      else min minPlayers rosterSize)"

definition ForceReadyAllowed :: "int \<Rightarrow> int \<Rightarrow> int \<Rightarrow> int \<Rightarrow> bool" where
  "ForceReadyAllowed conn rosterSize minPlayers playersPerTeam =
     (if rosterSize \<le> 0 then False
      else conn \<ge> ForceReadyRequired rosterSize minPlayers playersPerTeam)"

datatype TeamReadyAction = Ready_Single | Ready_Team | Ready_NotEnough

definition DecideTeamReady :: "bool \<Rightarrow> bool \<Rightarrow> int \<Rightarrow> int \<Rightarrow> int \<Rightarrow> int \<Rightarrow> TeamReadyAction" where
  "DecideTeamReady teamReadyRule ready conn rosterSize minPlayers playersPerTeam =
     (if \<not> teamReadyRule then Ready_Single
      else if \<not> ready then Ready_Team
      else if ForceReadyAllowed conn rosterSize minPlayers playersPerTeam then Ready_Team
      else Ready_NotEnough)"

definition TeamReadyNeeded :: "int \<Rightarrow> int \<Rightarrow> int \<Rightarrow> int \<Rightarrow> int" where
  "TeamReadyNeeded rosterSize conn minPlayers playersPerTeam =
     (if rosterSize \<le> 0 then 0
      else
        (let full = FullTeamSize rosterSize playersPerTeam
         in max (ForceReadyRequired rosterSize minPlayers playersPerTeam) (min (max 0 conn) full)))"

definition TeamReadyToGoLive :: "int \<Rightarrow> int \<Rightarrow> int \<Rightarrow> int \<Rightarrow> int \<Rightarrow> bool" where
  "TeamReadyToGoLive rosterSize conn ready minPlayers playersPerTeam =
     (if rosterSize \<le> 0 then True
      else ready \<ge> TeamReadyNeeded rosterSize conn minPlayers playersPerTeam)"

record ReadyTally =
  tally_ready :: int
  tally_total :: int

definition TeamReadyTally :: "int \<Rightarrow> int \<Rightarrow> int \<Rightarrow> ReadyTally" where
  "TeamReadyTally rosterSize ready playersPerTeam =
     (let total = FullTeamSize rosterSize playersPerTeam
      in \<lparr>tally_ready = min (max 0 ready) total, tally_total = total\<rparr>)"

record TeamHudState =
  hud_here :: int
  hud_total :: int
  hud_allHere :: bool
  hud_ready :: bool

definition TeamHudStatus :: "int \<Rightarrow> int \<Rightarrow> int \<Rightarrow> int \<Rightarrow> TeamHudState" where
  "TeamHudStatus rosterSize conn readyConnected playersPerTeam =
     (let total = FullTeamSize rosterSize playersPerTeam; here = min (max 0 conn) total
      in \<lparr>hud_here = here, hud_total = total, hud_allHere = (total > 0 \<and> here \<ge> total),
          hud_ready = (total > 0 \<and> min (max 0 readyConnected) total \<ge> total)\<rparr>)"

definition BotFillTeamReady :: "int \<Rightarrow> int \<Rightarrow> bool" where
  "BotFillTeamReady conn readyConnected \<longleftrightarrow> max 0 readyConnected \<ge> max 0 conn"

definition ResumeMayGoLive :: "int \<Rightarrow> int \<Rightarrow> bool" where
  "ResumeMayGoLive rosterTotal presentTotal \<longleftrightarrow> presentTotal > 0 \<and> presentTotal \<ge> rosterTotal"

record ResumeHeadcount =
  resume_needed :: int
  resume_back :: int

text \<open>The two-element arrays \<open>roster\<close> and \<open>present\<close> are pairs; the loop adds up both teams.\<close>

definition ResumeCount :: "int \<times> int \<Rightarrow> int \<times> int \<Rightarrow> int \<Rightarrow> ResumeHeadcount" where
  "ResumeCount roster present playersPerTeam =
     fold (\<lambda>(ros, pres) c.
             let full = FullTeamSize ros playersPerTeam
             in \<lparr>resume_needed = resume_needed c + full,
                 resume_back = resume_back c + min (max 0 pres) full\<rparr>)
       [(fst roster, fst present), (snd roster, snd present)]
       \<lparr>resume_needed = 0, resume_back = 0\<rparr>"

abbreviation kBotFillEmptyGraceSeconds :: seconds where "kBotFillEmptyGraceSeconds \<equiv> 60"

definition BotFillEmptyMayGoLive :: "seconds \<Rightarrow> bool" where
  "BotFillEmptyMayGoLive secondsEmpty \<longleftrightarrow> secondsEmpty \<ge> kBotFillEmptyGraceSeconds"

definition BotFillReadyTally :: "int \<Rightarrow> int \<Rightarrow> ReadyTally" where
  "BotFillReadyTally conn readyConnected =
     (let total = max 0 conn
      in \<lparr>tally_ready = min (max 0 readyConnected) total, tally_total = total\<rparr>)"

definition SpectatorsReadyToGoLive :: "int \<Rightarrow> int \<Rightarrow> bool" where
  "SpectatorsReadyToGoLive required readySpectators \<longleftrightarrow> required \<le> 0 \<or> readySpectators \<ge> required"

definition SpecCommandAllowed :: "bool \<Rightarrow> bool" where
  "SpecCommandAllowed onLoadedMatchRoster \<longleftrightarrow> \<not> onLoadedMatchRoster"

section \<open>Playout\<close>

definition PlayoutRoundsLeft :: "int \<Rightarrow> bool \<Rightarrow> int \<Rightarrow> int \<Rightarrow> int \<Rightarrow> int \<Rightarrow> bool" where
  "PlayoutRoundsLeft maxRounds0 overtimeEnabled overtimeSegments maxOvertimes team1Score team2Score =
     (let maxRounds = max 1 maxRounds0;
          total = max 0 team1Score + max 0 team2Score
      in if total < maxRounds then True
         else if total = maxRounds \<or> \<not> overtimeEnabled then False
         else
           (let block = 2 * max 1 overtimeSegments; past = total - maxRounds
            in if maxOvertimes \<ge> 0 \<and> past \<ge> maxOvertimes * block then False
               else cmod past block \<noteq> 0))"

section \<open>Team names\<close>

text \<open>A byte \<open>SanitizeTeamName\<close> drops: control bytes, the quote, \<open>;\<close> and the backslash.\<close>

definition name_byte_dropped :: "char \<Rightarrow> bool" where
  "name_byte_dropped c \<longleftrightarrow>
     byte c < 32 \<or> c = quote_char \<or> c = CHR '';'' \<or> c = CHR 0x5C \<or> byte c = 127"

definition SanitizeTeamName :: "string \<Rightarrow> string" where
  "SanitizeTeamName s0 =
     (let s = filter (\<lambda>c. \<not> name_byte_dropped c) s0
      in if list_all (\<lambda>c. c = space_char) s then []
         else
           (let t = trim_by (\<lambda>c. c = space_char) s
            in if length t > 32 then take (back_off t 32) t else t))"

section \<open>The forfeit countdown\<close>

datatype ForfeitAction = Forfeit_None | Forfeit_Started | Forfeit_Cancelled | Forfeit_Expired

record ForfeitResult =
  ff_action :: ForfeitAction
  ff_absentTeam :: int
  ff_secondsLeft :: int

record ForfeitTimer =
  ft_absent :: int
  ft_deadline :: seconds
  ft_fired :: bool

definition ForfeitTimer_Reset :: "ForfeitTimer \<Rightarrow> ForfeitTimer" where
  "ForfeitTimer_Reset t = t\<lparr>ft_absent := 0, ft_deadline := 0, ft_fired := False\<rparr>"

definition ForfeitTimer_init :: ForfeitTimer where
  "ForfeitTimer_init = \<lparr>ft_absent = 0, ft_deadline = 0, ft_fired = False\<rparr>"

definition ForfeitTimer_Running :: "ForfeitTimer \<Rightarrow> bool" where
  "ForfeitTimer_Running t \<longleftrightarrow> ft_absent t \<noteq> 0 \<and> \<not> ft_fired t"

definition ForfeitTimer_SecondsLeft :: "ForfeitTimer \<Rightarrow> seconds \<Rightarrow> int" where
  "ForfeitTimer_SecondsLeft t now =
     (if ft_absent t = 0 then 0 else max 0 \<lceil>ft_deadline t - now - 1 / 10 ^ 9\<rceil>)"

text \<open>One call of \<open>Update\<close>: the arguments of a tick.\<close>

record ForfeitTick =
  tick_now :: seconds
  tick_active :: bool
  tick_limitSeconds :: int
  tick_team1Present :: bool
  tick_team2Present :: bool

text \<open>The team that is absent in a tick (0: no countdown), the local \<open>absent\<close> of \<open>Update\<close>.\<close>

definition tick_absent :: "ForfeitTick \<Rightarrow> int" where
  "tick_absent e =
     (if tick_active e \<and> tick_limitSeconds e > 0 \<and> tick_team1Present e \<noteq> tick_team2Present e
      then (if tick_team1Present e then 2 else 1) else 0)"

definition ForfeitTimer_Update :: "ForfeitTick \<Rightarrow> ForfeitTimer \<Rightarrow> ForfeitResult \<times> ForfeitTimer" where
  "ForfeitTimer_Update e t =
     (let now = tick_now e; absent = tick_absent e
      in if absent = 0 then
           (\<lparr>ff_action = (if ft_absent t \<noteq> 0 \<and> \<not> ft_fired t then Forfeit_Cancelled else Forfeit_None),
             ff_absentTeam = (if ft_absent t \<noteq> 0 then ft_absent t else 0), ff_secondsLeft = 0\<rparr>,
            ForfeitTimer_Reset t)
         else if ft_fired t then
           (\<lparr>ff_action = Forfeit_None, ff_absentTeam = ft_absent t, ff_secondsLeft = 0\<rparr>, t)
         else
           (let started = ft_absent t \<noteq> absent;
                t1 = (if started
                      then t\<lparr>ft_absent := absent, ft_deadline := now + of_int (tick_limitSeconds e)\<rparr> else t)
            in if now \<ge> ft_deadline t1 then
                 (\<lparr>ff_action = Forfeit_Expired, ff_absentTeam = ft_absent t1, ff_secondsLeft = 0\<rparr>,
                  t1\<lparr>ft_fired := True\<rparr>)
               else
                 (\<lparr>ff_action = (if started then Forfeit_Started else Forfeit_None),
                   ff_absentTeam = ft_absent t1, ff_secondsLeft = ForfeitTimer_SecondsLeft t1 now\<rparr>,
                  t1)))"

text \<open>A run: the results of the ticks in order, and the timer after them.\<close>

fun ForfeitTimer_run :: "ForfeitTick list \<Rightarrow> ForfeitTimer \<Rightarrow> ForfeitResult list \<times> ForfeitTimer" where
  "ForfeitTimer_run [] t = ([], t)"
| "ForfeitTimer_run (e # es) t =
     (let (r, t1) = ForfeitTimer_Update e t; (rs, t2) = ForfeitTimer_run es t1 in (r # rs, t2))"

section \<open>Lemmas: resolved rules\<close>

lemmas pick_simps = pick_rule_def as_flag_def

definition RulesResolved :: "MatchRules \<Rightarrow> bool" where
  "RulesResolved r \<longleftrightarrow>
     (\<forall>f \<in> {tech_pauses_per_team, tech_pause_max_seconds, disconnect_pause_max_seconds,
             min_players_to_ready, min_spectators_to_ready, forfeit_after_seconds, gg_min_score_diff}. 0 \<le> f r) \<and>
     (\<forall>f \<in> {both_teams_unpause, allow_force_ready, team_ready, gg_enabled, stop_command_available,
             stop_command_no_damage, pause_after_restore}. f r = 0 \<or> f r = 1) \<and>
     1 \<le> gg_threshold_pct r \<and> gg_threshold_pct r \<le> 100 \<and>
     5 \<le> stop_vote_seconds r \<and> stop_vote_seconds r \<le> 300"

lemma pick_rule_nonneg: "0 \<le> c \<Longrightarrow> 0 \<le> pick_rule a b c"
  by (simp add: pick_rule_def)

lemma as_flag_cases: "as_flag v = 0 \<or> as_flag v = 1"
  by (simp add: as_flag_def)

lemma ResolveRules_resolved: "RulesResolved (ResolveRules m b)"
  by (simp add: RulesResolved_def ResolveRules_def BuiltinDefaultRules_def Let_def
      pick_rule_nonneg as_flag_cases clamp_bounds)

lemma pick_rule_id: "0 \<le> a \<Longrightarrow> pick_rule a b c = a"
  by (simp add: pick_rule_def)

lemma as_flag_pick: "a = 0 \<or> a = 1 \<Longrightarrow> as_flag (pick_rule a b c) = a"
  by (auto simp: pick_simps)

lemma ResolveRules_fixed: "RulesResolved r \<Longrightarrow> ResolveRules r b = r"
  by (cases r) (simp add: RulesResolved_def ResolveRules_def Let_def pick_rule_id as_flag_pick)

lemma ResolveRules_default: "ResolveRules UnsetRules UnsetRules = BuiltinDefaultRules"
  by (simp add: ResolveRules_def UnsetRules_def BuiltinDefaultRules_def pick_simps Let_def)

text \<open>
  A resolved rule set has no unset value left, its flags are 0 or 1 and its percentages and
  vote windows are in range, whatever the match config and readyup.cfg hold; resolving it again over
  any other base changes nothing, and with nothing set the built-in defaults come out.
\<close>

theorem ResolveRules_complete:
  "RulesResolved (ResolveRules m b) \<and> ResolveRules (ResolveRules m b) b' = ResolveRules m b \<and>
   ResolveRules UnsetRules UnsetRules = BuiltinDefaultRules"
  using ResolveRules_resolved ResolveRules_fixed ResolveRules_default by blast

section \<open>Lemmas: the ready gate\<close>

lemma FullTeamSize_bounds:
  "0 \<le> FullTeamSize roster ppt" "0 < roster \<Longrightarrow> 0 < FullTeamSize roster ppt"
  "0 < roster \<Longrightarrow> FullTeamSize roster ppt \<le> roster"
  by (auto simp: FullTeamSize_def)

lemma ForceReadyRequired_bounds:
  "0 < roster \<Longrightarrow> 0 < ForceReadyRequired roster minP ppt"
  "0 < roster \<Longrightarrow> ForceReadyRequired roster minP ppt \<le> roster"
  by (auto simp: ForceReadyRequired_def FullTeamSize_def)

text \<open>
  The go-live gate of a team. A team with a roster may go live exactly when the forced-ready
  minimum is met and either a full team is ready or everybody of it who is on the server is: a
  connected substitute beyond the full team never holds the match up.
\<close>

theorem TeamReadyToGoLive_iff:
  "TeamReadyToGoLive roster conn ready minP ppt \<longleftrightarrow>
     roster \<le> 0 \<or>
     (ForceReadyRequired roster minP ppt \<le> ready \<and>
      (FullTeamSize roster ppt \<le> ready \<or> max 0 conn \<le> ready))"
  by (auto simp: TeamReadyToGoLive_def TeamReadyNeeded_def Let_def)

text \<open>
  \<open>team_ready\<close> and \<open>.forceready\<close> agree with the gate. For a team with a roster, a player's
  \<open>.ready\<close> readies the whole team exactly when readying everybody connected opens the gate; when the
  answer is "not enough", no number of ready players among the connected ones opens it.
\<close>

theorem DecideTeamReady_opens_gate:
  assumes "0 < roster"
  shows "(DecideTeamReady True True conn roster minP ppt = Ready_Team \<longleftrightarrow>
            TeamReadyToGoLive roster conn conn minP ppt) \<and>
         (DecideTeamReady True True conn roster minP ppt = Ready_NotEnough \<longrightarrow>
            (\<forall>ready \<le> conn. \<not> TeamReadyToGoLive roster conn ready minP ppt))"
  using assms ForceReadyRequired_bounds(1) [OF assms, of minP ppt]
  by (auto simp: DecideTeamReady_def ForceReadyAllowed_def TeamReadyToGoLive_def TeamReadyNeeded_def Let_def
      split: if_splits)

theorem DecideTeamReady_opens_gate_witness:
  "DecideTeamReady True True 4 7 0 5 = Ready_NotEnough \<and>
   \<not> TeamReadyToGoLive 7 4 4 0 5 \<and>
   DecideTeamReady True True 5 7 0 5 = Ready_Team \<and> TeamReadyToGoLive 7 5 5 0 5"
  using DecideTeamReady_opens_gate [of 7 4 0 5] DecideTeamReady_opens_gate [of 7 5 0 5]
  by (simp add: DecideTeamReady_def ForceReadyAllowed_def ForceReadyRequired_def FullTeamSize_def)

text \<open>
  A failover resume goes live exactly when each team has its full team back (substitutes do
  not count) and at least one roster player is there.
\<close>

theorem ResumeCount_may_go_live:
  "(let c = ResumeCount (r1, r2) (p1, p2) ppt in ResumeMayGoLive (resume_needed c) (resume_back c)) \<longleftrightarrow>
     FullTeamSize r1 ppt \<le> max 0 p1 \<and> FullTeamSize r2 ppt \<le> max 0 p2 \<and> (0 < r1 \<or> 0 < r2)"
  using FullTeamSize_bounds(1) [of r1 ppt] FullTeamSize_bounds(1) [of r2 ppt]
    FullTeamSize_bounds(2) [of r1 ppt] FullTeamSize_bounds(2) [of r2 ppt]
  by (auto simp: ResumeCount_def ResumeMayGoLive_def Let_def FullTeamSize_def min_def max_def
      split: if_splits)

section \<open>Lemmas: pauses\<close>

text \<open>
  The automatic 5v5 pause is marked only where it is expected. The freeze-time check marks a
  pause exactly when the rule, the map and the player counts expect one and the engine is not known
  to be running; an engine pause is cleared exactly at go-live with both sides full; and it is marked
  exactly when Ready Up has no pause of its own and either a side is short at go-live or the pause
  has stayed unmarked for the hold time.
\<close>

theorem Auto5v5_marks_expected:
  "(Auto5v5Decide ruleOn liveMap paused ep ct t = Check_Mark \<longleftrightarrow>
      ep \<noteq> 0 \<and> Auto5v5PauseExpected ruleOn liveMap paused ct t) \<and>
   (DecideEnginePause ep readyUp playing window autoRule ct t full since = Pause_Clear \<longleftrightarrow>
      ep = 1 \<and> \<not> readyUp \<and> playing \<and> window \<and>
      (if full > 0 then full else kFullTeamPlayers) \<le> min ct t) \<and>
   (DecideEnginePause ep readyUp playing window autoRule ct t full since \<in> {Pause_MarkAuto5v5, Pause_MarkEngine} \<longleftrightarrow>
      ep = 1 \<and> \<not> readyUp \<and> playing \<and>
      (if window then min ct t < (if full > 0 then full else kFullTeamPlayers)
       else kEnginePauseMarkHoldSeconds \<le> since))"
  by (auto simp: Auto5v5Decide_def Auto5v5PauseExpected_def DecideEnginePause_def Let_def)

section \<open>Lemmas: playout\<close>

text \<open>
  Playout holds a map open through regulation and through each overtime block, and never past
  a block's end. With \<open>k\<close> overtimes completed and \<open>j\<close> rounds into the next, the map is held exactly
  when overtime is on, the block has started and the overtime cap is not reached.
\<close>

theorem PlayoutRoundsLeft_blocks:
  assumes "1 \<le> maxRounds" and "1 \<le> segs" and "0 \<le> s1" and "0 \<le> s2" and "0 \<le> k"
    and "0 \<le> j" and "j < 2 * segs" and "s1 + s2 = maxRounds + k * (2 * segs) + j"
  shows "PlayoutRoundsLeft maxRounds ot segs cap s1 s2 \<longleftrightarrow> ot \<and> 0 < j \<and> (cap < 0 \<or> k < cap)"
proof -
  let ?past = "k * (2 * segs) + j"
  have past: "s1 + s2 - maxRounds = ?past" using assms by simp
  have nn: "0 \<le> ?past" using assms by simp
  have md: "?past mod (2 * segs) = j" using assms by simp
  have cap: "cap * (2 * segs) \<le> ?past \<longleftrightarrow> cap \<le> k"
  proof
    assume le: "cap * (2 * segs) \<le> ?past"
    show "cap \<le> k"
    proof (rule ccontr)
      assume "\<not> cap \<le> k"
      then have "(k + 1) * (2 * segs) \<le> cap * (2 * segs)" using assms by (intro mult_right_mono) auto
      with le assms show False by (simp add: algebra_simps)
    qed
  next
    assume "cap \<le> k"
    then have "cap * (2 * segs) \<le> k * (2 * segs)" using assms by (intro mult_right_mono) auto
    with assms(6) show "cap * (2 * segs) \<le> ?past" by linarith
  qed
  have mx: "max 1 maxRounds = maxRounds" "max 0 s1 + max 0 s2 = s1 + s2" "2 * max 1 segs = 2 * segs"
    using assms by simp_all
  have nlt: "\<not> s1 + s2 < maxRounds" using past nn by linarith
  have zero: "s1 + s2 = maxRounds \<longleftrightarrow> ?past = 0" using past by linarith
  have m2: "cmod ?past (2 * segs) = j" using nn md assms by simp
  have "?past = 0 \<Longrightarrow> j = 0" using md by simp
  then show ?thesis
    unfolding PlayoutRoundsLeft_def Let_def mx past m2 cap
    using nlt zero assms(6) by auto
qed

theorem PlayoutRoundsLeft_blocks_witness:
  "PlayoutRoundsLeft 24 True 3 2 14 13 \<longleftrightarrow> True \<and> (0::int) < 3 \<and> ((2::int) < 0 \<or> (0::int) < 2)"
  by (rule PlayoutRoundsLeft_blocks [of 24 3 14 13 0 3 True 2]) simp_all

section \<open>Lemmas: team names\<close>

lemma SanitizeTeamName_cut:
  "SanitizeTeamName s =
     (let t = trim_by (\<lambda>c. c = space_char) (filter (\<lambda>c. \<not> name_byte_dropped c) s)
      in take (utf8_cut t 32) t)"
  using trim_by_Nil [of "\<lambda>c. c = space_char" "filter (\<lambda>c. \<not> name_byte_dropped c) s"]
  by (auto simp: SanitizeTeamName_def utf8_cut_def Let_def)

text \<open>
  A team name that goes into the quoted \<open>mp_teamname_N\<close> command cannot break out of it. The
  result holds no control byte, quote, semicolon or backslash, is at most 32 bytes, does not start
  with a blank, and where it was cut the first byte left out starts a UTF-8 character.
\<close>

theorem SanitizeTeamName_safe:
  "list_all (\<lambda>c. \<not> name_byte_dropped c) (SanitizeTeamName s) \<and>
   length (SanitizeTeamName s) \<le> 32 \<and>
   (SanitizeTeamName s \<noteq> [] \<longrightarrow>
      hd (SanitizeTeamName s) \<noteq> space_char \<and>
      (\<exists>rest. trim_by (\<lambda>c. c = space_char) (filter (\<lambda>c. \<not> name_byte_dropped c) s) = SanitizeTeamName s @ rest \<and>
              (rest = [] \<or> \<not> utf8_cont (hd rest))))"
proof -
  let ?t = "trim_by (\<lambda>c. c = space_char) (filter (\<lambda>c. \<not> name_byte_dropped c) s)"
  let ?r = "SanitizeTeamName s"
  note r = SanitizeTeamName_cut [of s, unfolded Let_def]
  have sub: "set ?t \<subseteq> {c. \<not> name_byte_dropped c}" using set_trim_by by fastforce
  have "set ?r \<subseteq> set ?t" unfolding r by (rule set_take_subset)
  with sub have "list_all (\<lambda>c. \<not> name_byte_dropped c) ?r" by (auto simp: list_all_iff)
  moreover have "length ?r \<le> 32" unfolding r using utf8_cut_le(1) [of ?t 32] by simp
  moreover have "?r \<noteq> [] \<Longrightarrow> hd ?r \<noteq> space_char"
    unfolding r using trim_by_hd [of "\<lambda>c. c = space_char"] by fastforce
  moreover have "?r \<noteq> [] \<Longrightarrow> ?t = ?r @ drop (utf8_cut ?t 32) ?t \<and>
      (drop (utf8_cut ?t 32) ?t = [] \<or> \<not> utf8_cont (hd (drop (utf8_cut ?t 32) ?t)))"
    unfolding r using utf8_cut_boundary [of ?t 32] by auto
  ultimately show ?thesis by blast
qed

theorem SanitizeTeamName_safe_witness:
  "hd (SanitizeTeamName '' Team;A'') \<noteq> space_char \<and> SanitizeTeamName '' Team;A'' = ''TeamA''"
  using SanitizeTeamName_safe [of "'' Team;A''"]
  by (simp add: SanitizeTeamName_def name_byte_dropped_def trim_by_def Let_def)

text \<open>
  The name is trimmed before it is cut, so a name whose 32nd byte is a blank keeps it, and
  sanitizing it again gives another name.
\<close>

lemma SanitizeTeamName_trailing_blank:
  "let s = replicate 31 CHR ''a'' @ '' bc''
   in last (SanitizeTeamName s) = space_char \<and> SanitizeTeamName (SanitizeTeamName s) \<noteq> SanitizeTeamName s"
  by code_simp

section \<open>Lemmas: the forfeit countdown\<close>

text \<open>
  While a countdown runs, the ticks seen so far end with an unbroken stretch in which the same team
  was absent, and the deadline is the limit after the stretch began.
\<close>

definition counting_since :: "ForfeitTick list \<Rightarrow> ForfeitTimer \<Rightarrow> bool" where
  "counting_since es t \<longleftrightarrow>
     (\<exists>ys e zs. es = ys @ e # zs \<and> list_all (\<lambda>x. tick_absent x = ft_absent t) (e # zs) \<and>
                ft_deadline t = tick_now e + of_int (tick_limitSeconds e))"

definition ForfeitTimer_inv :: "ForfeitTick list \<Rightarrow> ForfeitTimer \<Rightarrow> bool" where
  "ForfeitTimer_inv es t \<longleftrightarrow> (ft_absent t \<noteq> 0 \<longrightarrow> \<not> ft_fired t \<longrightarrow> counting_since es t) \<and> (ft_fired t \<longrightarrow> ft_absent t \<noteq> 0)"

lemma counting_since_start:
  "tick_absent e = a \<Longrightarrow> ft_absent t = a \<Longrightarrow> ft_deadline t = tick_now e + of_int (tick_limitSeconds e) \<Longrightarrow>
     counting_since (es @ [e]) t"
  unfolding counting_since_def by (intro exI [of _ es] exI [of _ e] exI [of _ "[]"]) simp

lemma counting_since_snoc:
  assumes "counting_since es t" and "tick_absent e = ft_absent t" and "ft_absent t' = ft_absent t"
    and "ft_deadline t' = ft_deadline t"
  shows "counting_since (es @ [e]) t'"
proof -
  from assms(1) obtain ys x zs where "es = ys @ x # zs"
    and "list_all (\<lambda>x. tick_absent x = ft_absent t) (x # zs)"
    and "ft_deadline t = tick_now x + of_int (tick_limitSeconds x)"
    unfolding counting_since_def by blast
  with assms show ?thesis
    unfolding counting_since_def
    by (intro exI [of _ ys] exI [of _ x] exI [of _ "zs @ [e]"]) (simp add: list_all_iff)
qed

lemma ForfeitTimer_Update_inv:
  "ForfeitTimer_inv es t \<Longrightarrow> ForfeitTimer_inv (es @ [e]) (snd (ForfeitTimer_Update e t))"
  unfolding ForfeitTimer_inv_def ForfeitTimer_Update_def ForfeitTimer_Reset_def Let_def
  by (auto intro: counting_since_start counting_since_snoc)

text \<open>The machine of the countdown carries the ticks seen so far beside the timer.\<close>

definition forfeit_step :: "ForfeitTick \<Rightarrow> ForfeitTick list \<times> ForfeitTimer \<Rightarrow> ForfeitTick list \<times> ForfeitTimer" where
  "forfeit_step e = (\<lambda>(es, t). (es @ [e], snd (ForfeitTimer_Update e t)))"

interpretation forfeit: machine forfeit_step "\<lambda>_. True" "\<lambda>(es, t). ForfeitTimer_inv es t"
  by unfold_locales (auto simp: forfeit_step_def ForfeitTimer_Update_inv)

lemma forfeit_fold:
  "fold forfeit_step es (es0, t) = (es0 @ es, snd (ForfeitTimer_run es t))"
  by (induction es arbitrary: es0 t) (simp_all add: forfeit_step_def case_prod_beta Let_def)

lemma ForfeitTimer_run_inv: "ForfeitTimer_inv es (snd (ForfeitTimer_run es ForfeitTimer_init))"
  using forfeit.inv_run [of "([], ForfeitTimer_init)" es]
  by (simp add: forfeit_fold list_all_iff ForfeitTimer_inv_def ForfeitTimer_init_def)

lemma tick_limit_pos: "tick_absent e \<noteq> 0 \<Longrightarrow> 0 < tick_limitSeconds e"
  by (auto simp: tick_absent_def split: if_splits)

lemma Update_expired:
  assumes "ff_action (fst (ForfeitTimer_Update e t)) = Forfeit_Expired"
  shows "tick_absent e = ft_absent t \<and> ft_absent t \<noteq> 0 \<and> \<not> ft_fired t \<and> ft_deadline t \<le> tick_now e \<and>
         ff_absentTeam (fst (ForfeitTimer_Update e t)) = ft_absent t"
  using assms tick_limit_pos [of e]
  by (auto simp: ForfeitTimer_Update_def Let_def split: if_splits)



text \<open>The number of times a run announces the forfeit.\<close>

definition expirations :: "ForfeitResult list \<Rightarrow> nat" where
  "expirations rs = length (filter (\<lambda>r. ff_action r = Forfeit_Expired) rs)"

lemma expirations_fired:
  "ft_fired t \<Longrightarrow> list_all (\<lambda>e. tick_absent e \<noteq> 0) es \<Longrightarrow> expirations (fst (ForfeitTimer_run es t)) = 0"
proof (induction es)
  case (Cons e es)
  then have "ForfeitTimer_Update e t = (\<lparr>ff_action = Forfeit_None, ff_absentTeam = ft_absent t, ff_secondsLeft = 0\<rparr>, t)"
    by (simp add: ForfeitTimer_Update_def Let_def)
  with Cons show ?case by (simp add: expirations_def case_prod_beta)
qed (simp add: expirations_def)

lemma expirations_counting:
  assumes "\<not> ft_fired t" and "ft_absent t = a" and "a \<noteq> 0" and "list_all (\<lambda>e. tick_absent e = a) es"
  shows "expirations (fst (ForfeitTimer_run es t)) = (if list_ex (\<lambda>e. ft_deadline t \<le> tick_now e) es then 1 else 0)"
  using assms
proof (induction es arbitrary: t)
  case (Cons e es)
  show ?case
  proof (cases "ft_deadline t \<le> tick_now e")
    case True
    with Cons.prems have "snd (ForfeitTimer_Update e t) = t\<lparr>ft_fired := True\<rparr>"
      and "ff_action (fst (ForfeitTimer_Update e t)) = Forfeit_Expired"
      by (simp_all add: ForfeitTimer_Update_def Let_def)
    with True Cons.prems show ?thesis
      using expirations_fired [of "t\<lparr>ft_fired := True\<rparr>" es]
      by (simp add: expirations_def case_prod_beta list_all_iff)
  next
    case False
    with Cons.prems have "snd (ForfeitTimer_Update e t) = t"
      and "ff_action (fst (ForfeitTimer_Update e t)) = Forfeit_None"
      by (simp_all add: ForfeitTimer_Update_def Let_def)
    with False Cons show ?thesis by (simp add: expirations_def case_prod_beta)
  qed
qed (simp add: expirations_def)

text \<open>
  A team that stays away does forfeit, and once. From a fresh timer, while the same team is
  absent in every tick, the forfeit is announced exactly once if some tick comes at the limit or
  later after the first one, and not at all before; the countdown never fires a second time while
  the team stays away.
\<close>

theorem forfeit_fires_once:
  assumes "tick_absent x \<noteq> 0" and "list_all (\<lambda>e. tick_absent e = tick_absent x) zs"
  shows "expirations (fst (ForfeitTimer_run (x # zs) ForfeitTimer_init)) =
           (if list_ex (\<lambda>e. tick_now x + of_int (tick_limitSeconds x) \<le> tick_now e) zs then 1 else 0)"
proof -
  let ?t = "\<lparr>ft_absent = tick_absent x, ft_deadline = tick_now x + of_int (tick_limitSeconds x), ft_fired = False\<rparr>"
  have "snd (ForfeitTimer_Update x ForfeitTimer_init) = ?t"
    and "ff_action (fst (ForfeitTimer_Update x ForfeitTimer_init)) = Forfeit_Started"
    using assms(1) tick_limit_pos [OF assms(1)]
    by (simp_all add: ForfeitTimer_Update_def ForfeitTimer_init_def Let_def)
  then show ?thesis
    using expirations_counting [of ?t "tick_absent x" zs] assms
    by (simp add: expirations_def case_prod_beta)
qed

theorem forfeit_fires_once_witness:
  "expirations (fst (ForfeitTimer_run
     (map (\<lambda>n. \<lparr>tick_now = n, tick_active = True, tick_limitSeconds = 240, tick_team1Present = False,
                tick_team2Present = True\<rparr>) [10, 100, 250, 251]) ForfeitTimer_init)) = 1"
  using forfeit_fires_once
    [of "\<lparr>tick_now = 10, tick_active = True, tick_limitSeconds = 240, tick_team1Present = False,
          tick_team2Present = True\<rparr>"
        "map (\<lambda>n. \<lparr>tick_now = n, tick_active = True, tick_limitSeconds = 240, tick_team1Present = False,
                tick_team2Present = True\<rparr>) [100, 250, 251]"]
  by (simp add: tick_absent_def del: ForfeitTimer_run.simps)

end
