(* ===== verification/Votes.thy ===== *)
theory Votes
  imports Prelude
begin

text \<open>
  The \<open>.gg\<close> surrender vote of a team and the \<open>.stop\<close> round-restore vote of both teams
  (plugins/match/readyup/vote_logic.h and vote_logic.cpp). Both are votes with a deadline: the locale
  \<open>timed_vote\<close> states what the server's tick may rely on, and both classes interpret it.
\<close>

section \<open>The surrender vote\<close>

definition GgVotesNeeded :: "int \<Rightarrow> int \<Rightarrow> int" where
  "GgVotesNeeded eligible thresholdPct =
     (if eligible \<le> 0 then 0
      else
        (let pct = clamp thresholdPct 1 100; need = cdiv (eligible * pct + 99) 100
         in clamp need 1 eligible))"

definition GgScoreAllowed :: "int \<Rightarrow> int \<Rightarrow> int \<Rightarrow> bool" where
  "GgScoreAllowed teamScore otherScore minScoreDiff \<longleftrightarrow>
     minScoreDiff \<le> 0 \<or> otherScore - teamScore \<ge> minScoreDiff"

record GgVote =
  gg_voters :: "u64 set"
  gg_deadline :: seconds

datatype GgResult = Gg_Counted | Gg_AlreadyVoted | Gg_Passed

definition GgVote_init :: GgVote where
  "GgVote_init = \<lparr>gg_voters = {}, gg_deadline = 0\<rparr>"

definition GgVote_Reset :: "GgVote \<Rightarrow> GgVote" where
  "GgVote_Reset v = v\<lparr>gg_voters := {}, gg_deadline := 0\<rparr>"

definition GgVote_Expire :: "seconds \<Rightarrow> GgVote \<Rightarrow> bool \<times> GgVote" where
  "GgVote_Expire now v =
     (if gg_voters v = {} \<or> now < gg_deadline v then (False, v) else (True, GgVote_Reset v))"

definition GgVote_Running :: "GgVote \<Rightarrow> bool" where
  "GgVote_Running v \<longleftrightarrow> gg_voters v \<noteq> {}"

definition GgVote_Count :: "GgVote \<Rightarrow> int" where
  "GgVote_Count v = int (card (gg_voters v))"

definition GgVote_Voted :: "u64 \<Rightarrow> GgVote \<Rightarrow> bool" where
  "GgVote_Voted voter v \<longleftrightarrow> voter \<in> gg_voters v"

definition GgVote_Add :: "u64 \<Rightarrow> seconds \<Rightarrow> int \<Rightarrow> int \<Rightarrow> seconds \<Rightarrow> GgVote \<Rightarrow> GgResult \<times> GgVote" where
  "GgVote_Add voter now eligible thresholdPct windowSeconds v =
     (let v1 = snd (GgVote_Expire now v);
          v2 = (if gg_voters v1 = {} then v1\<lparr>gg_deadline := now + windowSeconds\<rparr> else v1)
      in if voter \<in> gg_voters v2 then (Gg_AlreadyVoted, v2)
         else
           (let v3 = v2\<lparr>gg_voters := insert voter (gg_voters v2)\<rparr>;
                need = GgVotesNeeded eligible thresholdPct
            in if need > 0 \<and> GgVote_Count v3 \<ge> need then (Gg_Passed, GgVote_Reset v3)
               else (Gg_Counted, v3)))"

section \<open>The restore vote\<close>

record StopVote =
  stop_at1 :: seconds
  stop_at2 :: seconds
  stop_window :: seconds

datatype StopResult = Stop_Waiting | Stop_AlreadyRequested | Stop_Passed

definition StopVote_init :: StopVote where
  "StopVote_init = \<lparr>stop_at1 = 0, stop_at2 = 0, stop_window = 0\<rparr>"

definition stop_at :: "int \<Rightarrow> StopVote \<Rightarrow> seconds" where
  "stop_at team v = (if team = 1 then stop_at1 v else stop_at2 v)"

definition set_stop_at :: "int \<Rightarrow> seconds \<Rightarrow> StopVote \<Rightarrow> StopVote" where
  "set_stop_at team x v = (if team = 1 then v\<lparr>stop_at1 := x\<rparr> else v\<lparr>stop_at2 := x\<rparr>)"

text \<open>The team whose request timed out, if one did: the loop over \<open>t = 1, 2\<close> returns at the first.\<close>

definition StopVote_Expire :: "seconds \<Rightarrow> StopVote \<Rightarrow> int option \<times> StopVote" where
  "StopVote_Expire now v =
     (if stop_at1 v > 0 \<and> now - stop_at1 v \<ge> stop_window v then (Some 1, v\<lparr>stop_at1 := 0\<rparr>)
      else if stop_at2 v > 0 \<and> now - stop_at2 v \<ge> stop_window v then (Some 2, v\<lparr>stop_at2 := 0\<rparr>)
      else (None, v))"

definition StopVote_Reset :: "StopVote \<Rightarrow> StopVote" where
  "StopVote_Reset v = v\<lparr>stop_at1 := 0, stop_at2 := 0\<rparr>"

definition StopVote_Pending :: "StopVote \<Rightarrow> int" where
  "StopVote_Pending v = (if stop_at1 v > 0 then 1 else if stop_at2 v > 0 then 2 else 0)"

definition StopVote_Deadline :: "StopVote \<Rightarrow> seconds" where
  "StopVote_Deadline v =
     (let t = StopVote_Pending v in if t \<noteq> 0 then stop_at t v + stop_window v else 0)"

definition request_time :: "seconds \<Rightarrow> seconds" where
  "request_time now = (if now > 0 then now else 1 / 10 ^ 9)"

definition StopVote_Request :: "int \<Rightarrow> seconds \<Rightarrow> seconds \<Rightarrow> StopVote \<Rightarrow> StopResult \<times> StopVote" where
  "StopVote_Request team now windowSeconds v =
     (if team \<noteq> 1 \<and> team \<noteq> 2 then (Stop_Waiting, v)
      else
        (let v1 = snd (StopVote_Expire now v); other = (if team = 1 then 2 else 1)
         in if stop_at other v1 > 0 then (Stop_Passed, StopVote_Reset v1)
            else if stop_at team v1 > 0 then (Stop_AlreadyRequested, v1)
            else (Stop_Waiting, (set_stop_at team (request_time now) v1)\<lparr>stop_window := windowSeconds\<rparr>)))"

section \<open>A vote with a deadline\<close>

text \<open>The tick calls \<open>Expire\<close> again and again: what the calls report, and the vote after them.\<close>

fun poll :: "(seconds \<Rightarrow> 'v \<Rightarrow> bool \<times> 'v) \<Rightarrow> seconds list \<Rightarrow> 'v \<Rightarrow> bool list \<times> 'v" where
  "poll expire [] v = ([], v)"
| "poll expire (t # ts) v = (let (b, v1) = expire t v; (bs, v2) = poll expire ts v1 in (b # bs, v2))"

text \<open>
  What a tick that polls \<open>Expire\<close> relies on: it reports a timeout exactly when a vote is running past
  its deadline, and the vote no longer runs after that.
\<close>

locale timed_vote =
  fixes expire :: "seconds \<Rightarrow> 'v \<Rightarrow> bool \<times> 'v"
    and running :: "'v \<Rightarrow> bool"
    and deadline :: "'v \<Rightarrow> seconds"
    and inv :: "'v \<Rightarrow> bool"
  assumes reports: "inv v \<Longrightarrow> fst (expire now v) \<longleftrightarrow> running v \<and> deadline v \<le> now"
    and stops: "inv v \<Longrightarrow> fst (expire now v) \<Longrightarrow> \<not> running (snd (expire now v))"
    and keeps: "inv v \<Longrightarrow> \<not> fst (expire now v) \<Longrightarrow> snd (expire now v) = v"
    and keeps_inv: "inv v \<Longrightarrow> inv (snd (expire now v))"
begin

lemma poll_idle: "inv v \<Longrightarrow> \<not> running v \<Longrightarrow> poll expire ts v = (replicate (length ts) False, v)"
proof (induction ts)
  case (Cons t ts)
  then have "expire t v = (False, v)" using reports keeps by (metis prod.collapse)
  with Cons show ?case by simp
qed simp

text \<open>A running vote times out at the first poll at or after its deadline, once, and stays over.\<close>

lemma poll_running:
  assumes "inv v" and "running v"
  shows "fst (poll expire ts v) =
     (let early = takeWhile (\<lambda>t. t < deadline v) ts; late = length ts - length early
      in replicate (length early) False @ (if late = 0 then [] else True # replicate (late - 1) False))"
proof (induction ts)
  case (Cons t ts)
  show ?case
  proof (cases "t < deadline v")
    case True
    with assms have "expire t v = (False, v)" using reports keeps by (metis linorder_not_le prod.collapse)
    with True Cons show ?thesis by (simp add: case_prod_beta Let_def)
  next
    case False
    with assms have "fst (expire t v)" using reports by auto
    moreover from this assms have "poll expire ts (snd (expire t v)) = (replicate (length ts) False, snd (expire t v))"
      using stops keeps_inv by (intro poll_idle)
    ultimately show ?thesis using False by (simp add: case_prod_beta)
  qed
qed simp

lemma poll_reports:
  assumes "inv v"
  shows "list_ex id (fst (poll expire ts v)) \<longleftrightarrow> running v \<and> list_ex (\<lambda>t. deadline v \<le> t) ts"
proof (cases "running v")
  case True
  then show ?thesis
  proof (induction ts)
    case (Cons t ts)
    then show ?case
      using reports [OF assms, of t] keeps [OF assms, of t]
      by (cases "deadline v \<le> t") (simp_all add: case_prod_beta)
  qed simp
qed (use poll_idle [OF assms] in \<open>simp add: list_ex_iff\<close>)

lemma poll_once: "inv v \<Longrightarrow> length (filter id (fst (poll expire ts v))) \<le> 1"
  by (cases "running v") (simp_all add: poll_running poll_idle Let_def)

end

interpretation gg: timed_vote GgVote_Expire GgVote_Running gg_deadline "\<lambda>_. True"
  by unfold_locales (auto simp: GgVote_Expire_def GgVote_Running_def GgVote_Reset_def split: if_splits)

text \<open>At most one team's request is pending.\<close>

definition StopVote_inv :: "StopVote \<Rightarrow> bool" where
  "StopVote_inv v \<longleftrightarrow> 0 \<le> stop_at1 v \<and> 0 \<le> stop_at2 v \<and> (stop_at1 v = 0 \<or> stop_at2 v = 0)"

lemmas stop_defs = StopVote_Expire_def StopVote_Pending_def StopVote_Deadline_def StopVote_Reset_def
  stop_at_def set_stop_at_def StopVote_inv_def

definition stop_expired :: "seconds \<Rightarrow> StopVote \<Rightarrow> bool \<times> StopVote" where
  "stop_expired now v = (let (team, w) = StopVote_Expire now v in (team \<noteq> None, w))"

interpretation stop: timed_vote stop_expired "\<lambda>v. StopVote_Pending v \<noteq> 0" StopVote_Deadline StopVote_inv
  by unfold_locales (auto simp: stop_expired_def stop_defs Let_def algebra_simps)

section \<open>Runs of the votes\<close>

datatype GgEvent =
  Ev_Add (ev_voter: u64) (ev_now: seconds) (ev_eligible: int) (ev_pct: int) (ev_window: seconds)
| Ev_Expire (ev_now: seconds)
| Ev_Reset

fun gg_apply :: "GgEvent \<Rightarrow> GgVote \<Rightarrow> GgVote" where
  "gg_apply (Ev_Add voter now eligible pct window) v = snd (GgVote_Add voter now eligible pct window v)"
| "gg_apply (Ev_Expire now) v = snd (GgVote_Expire now v)"
| "gg_apply Ev_Reset v = GgVote_Reset v"

definition gg_step :: "GgEvent \<Rightarrow> GgEvent list \<times> GgVote \<Rightarrow> GgEvent list \<times> GgVote" where
  "gg_step e = (\<lambda>(es, v). (es @ [e], gg_apply e v))"

text \<open>The voters of the votes in a stretch of events.\<close>

fun voters_of :: "GgEvent list \<Rightarrow> u64 set" where
  "voters_of [] = {}"
| "voters_of (Ev_Add voter now eligible pct window # es) = insert voter (voters_of es)"
| "voters_of (Ev_Expire now # es) = voters_of es"
| "voters_of (Ev_Reset # es) = voters_of es"

lemma voters_of_append [simp]: "voters_of (xs @ ys) = voters_of xs \<union> voters_of ys"
  by (induction xs rule: voters_of.induct) auto

fun timed_before :: "seconds \<Rightarrow> GgEvent \<Rightarrow> bool" where
  "timed_before d Ev_Reset = False"
| "timed_before d e = (ev_now e < d)"

text \<open>
  The recorded voters are exactly those who voted in the stretch of events since the vote began, and
  every event of the stretch came before the deadline the first vote set.
\<close>

definition gg_since :: "GgEvent list \<Rightarrow> GgVote \<Rightarrow> bool" where
  "gg_since es v \<longleftrightarrow>
     (\<exists>ys voter now eligible pct window zs.
        es = ys @ Ev_Add voter now eligible pct window # zs \<and>
        gg_deadline v = now + window \<and> list_all (timed_before (now + window)) zs \<and>
        gg_voters v = insert voter (voters_of zs))"

definition gg_inv :: "GgEvent list \<Rightarrow> GgVote \<Rightarrow> bool" where
  "gg_inv es v \<longleftrightarrow> finite (gg_voters v) \<and> (gg_voters v = {} \<or> gg_since es v)"

lemma gg_since_start:
  "gg_voters v = {voter} \<Longrightarrow> gg_deadline v = now + window \<Longrightarrow>
     gg_since (es @ [Ev_Add voter now eligible pct window]) v"
  unfolding gg_since_def
  by (intro exI [of _ es] exI [of _ voter] exI [of _ now] exI [of _ eligible] exI [of _ pct]
      exI [of _ window] exI [of _ "[]"]) simp

lemma gg_since_snoc:
  assumes "gg_since es v" and "timed_before (gg_deadline v) e"
    and "gg_deadline w = gg_deadline v" and "gg_voters w = gg_voters v \<union> voters_of [e]"
  shows "gg_since (es @ [e]) w"
proof -
  from assms(1) obtain ys voter now eligible pct window zs where
    "es = ys @ Ev_Add voter now eligible pct window # zs" and "gg_deadline v = now + window"
    and "list_all (timed_before (now + window)) zs" and "gg_voters v = insert voter (voters_of zs)"
    unfolding gg_since_def by blast
  with assms show ?thesis
    unfolding gg_since_def
    by (intro exI [of _ ys] exI [of _ voter] exI [of _ now] exI [of _ eligible] exI [of _ pct]
        exI [of _ window] exI [of _ "zs @ [e]"]) simp
qed

text \<open>The vote inside \<open>Add\<close> after the voter was inserted, before the quorum is checked.\<close>

definition gg_ballot :: "u64 \<Rightarrow> seconds \<Rightarrow> seconds \<Rightarrow> GgVote \<Rightarrow> GgVote" where
  "gg_ballot voter now window v =
     (let v1 = snd (GgVote_Expire now v);
          v2 = (if gg_voters v1 = {} then v1\<lparr>gg_deadline := now + window\<rparr> else v1)
      in v2\<lparr>gg_voters := insert voter (gg_voters v2)\<rparr>)"

lemma GgVote_Add_ballot:
  "GgVote_Add voter now eligible pct window v =
     (let w = gg_ballot voter now window v
      in if voter \<in> gg_voters (snd (GgVote_Expire now v)) then (Gg_AlreadyVoted, w)
         else if GgVotesNeeded eligible pct > 0 \<and> GgVote_Count w \<ge> GgVotesNeeded eligible pct
           then (Gg_Passed, GgVote_Reset w)
         else (Gg_Counted, w))"
  by (auto simp: GgVote_Add_def gg_ballot_def Let_def insert_absorb)

lemma gg_ballot_inv:
  assumes "gg_inv es v"
  shows "gg_inv (es @ [Ev_Add voter now eligible pct window]) (gg_ballot voter now window v)"
    and "gg_since (es @ [Ev_Add voter now eligible pct window]) (gg_ballot voter now window v)"
proof -
  let ?e = "Ev_Add voter now eligible pct window" and ?w = "gg_ballot voter now window v"
  show since: "gg_since (es @ [?e]) ?w"
  proof (cases "gg_voters v = {} \<or> gg_deadline v \<le> now")
    case True
    then show ?thesis
      by (intro gg_since_start) (auto simp: gg_ballot_def GgVote_Expire_def GgVote_Reset_def Let_def)
  next
    case False
    with assms show ?thesis
      by (intro gg_since_snoc [of es v]) (auto simp: gg_inv_def gg_ballot_def GgVote_Expire_def Let_def)
  qed
  from assms have "finite (gg_voters ?w)"
    by (auto simp: gg_inv_def gg_ballot_def GgVote_Expire_def GgVote_Reset_def Let_def)
  with since show "gg_inv (es @ [?e]) ?w" by (simp add: gg_inv_def)
qed

lemma gg_inv_reset: "gg_inv es (GgVote_Reset v)"
  by (simp add: gg_inv_def GgVote_Reset_def)

lemma gg_apply_inv: "gg_inv es v \<Longrightarrow> gg_inv (es @ [e]) (gg_apply e v)"
proof (cases e)
  case (Ev_Add voter now eligible pct window)
  assume "gg_inv es v"
  then show ?thesis
    using gg_ballot_inv(1) [of es v voter now eligible pct window]
    by (simp add: Ev_Add GgVote_Add_ballot Let_def gg_inv_reset)
next
  case (Ev_Expire now)
  assume "gg_inv es v"
  then show ?thesis
    by (auto simp: Ev_Expire GgVote_Expire_def GgVote_Reset_def gg_inv_def intro: gg_since_snoc)
qed (simp add: gg_inv_reset)

interpretation gg_run: machine gg_step "\<lambda>_. True" "\<lambda>(es, v). gg_inv es v"
  by unfold_locales (auto simp: gg_step_def gg_apply_inv)

lemma gg_fold: "fold gg_step es (es0, v) = (es0 @ es, fold gg_apply es v)"
  by (induction es arbitrary: es0 v) (simp_all add: gg_step_def)

lemma gg_reachable_inv: "gg_inv es (fold gg_apply es GgVote_init)"
  using gg_run.inv_run [of "([], GgVote_init)" es]
  by (simp add: gg_fold list_all_iff gg_inv_def GgVote_init_def)

text \<open>
  C8: a surrender passes only with a real quorum. After any sequence of votes, polls and resets, a
  vote that passes closes a stretch of events that began with a vote, in which everything after that
  vote came before its deadline and nothing reset it, and in which at least the needed number of
  different players voted.
\<close>

theorem gg_passes_with_quorum:
  assumes "fst (GgVote_Add voter now eligible pct window (fold gg_apply es GgVote_init)) = Gg_Passed"
  shows "\<exists>ys voter0 t0 eligible0 pct0 window0 zs.
     es @ [Ev_Add voter now eligible pct window] = ys @ Ev_Add voter0 t0 eligible0 pct0 window0 # zs \<and>
     list_all (timed_before (t0 + window0)) zs \<and>
     0 < GgVotesNeeded eligible pct \<and>
     GgVotesNeeded eligible pct \<le> int (card (insert voter0 (voters_of zs)))"
proof -
  let ?v = "fold gg_apply es GgVote_init"
  from assms have "0 < GgVotesNeeded eligible pct"
    and "GgVotesNeeded eligible pct \<le> GgVote_Count (gg_ballot voter now window ?v)"
    by (auto simp: GgVote_Add_ballot Let_def split: if_splits)
  with gg_ballot_inv(2) [OF gg_reachable_inv [of es], of voter now eligible pct window]
  show ?thesis unfolding gg_since_def GgVote_Count_def by fastforce
qed

theorem gg_passes_with_quorum_witness:
  "\<exists>ys voter0 t0 eligible0 pct0 window0 zs.
     [Ev_Add 1 10 2 80 30] @ [Ev_Add 2 20 2 80 30] = ys @ Ev_Add voter0 t0 eligible0 pct0 window0 # zs \<and>
     list_all (timed_before (t0 + window0)) zs \<and>
     0 < GgVotesNeeded 2 80 \<and> GgVotesNeeded 2 80 \<le> int (card (insert voter0 (voters_of zs)))"
  by (rule gg_passes_with_quorum)
    (simp add: GgVote_Add_def GgVote_Expire_def GgVote_init_def GgVote_Count_def GgVotesNeeded_def clamp_def Let_def)

section \<open>The quorum\<close>

lemma GgVotesNeeded_bounds:
  "0 < eligible \<Longrightarrow> 1 \<le> GgVotesNeeded eligible pct" "0 < eligible \<Longrightarrow> GgVotesNeeded eligible pct \<le> eligible"
  by (simp_all add: GgVotesNeeded_def Let_def clamp_def)

text \<open>
  The quorum is the percentage rounded up. For an eligible team and a threshold in range, a
  number of votes reaches it exactly when it is at least one and at least that percentage of the
  team; so it never exceeds the team, and a unanimous threshold needs everybody.
\<close>

theorem GgVotesNeeded_least:
  assumes "0 < eligible" and "1 \<le> pct" and "pct \<le> 100"
  shows "(GgVotesNeeded eligible pct \<le> n \<longleftrightarrow> eligible * pct \<le> n * 100) \<and>
         1 \<le> GgVotesNeeded eligible pct \<and> GgVotesNeeded eligible pct \<le> eligible"
proof -
  have pos: "0 < eligible * pct" using assms by simp
  have le: "eligible * pct \<le> eligible * 100" using assms by (intro mult_left_mono) auto
  let ?q = "(eligible * pct + 99) div 100"
  have q: "1 \<le> ?q" "?q \<le> eligible" using pos le by linarith+
  then have need: "GgVotesNeeded eligible pct = ?q"
    using assms pos by (simp add: GgVotesNeeded_def Let_def)
  have "?q \<le> n \<longleftrightarrow> eligible * pct \<le> n * 100" by linarith
  with need q show ?thesis by simp
qed

theorem GgVotesNeeded_least_witness:
  "(GgVotesNeeded 5 80 \<le> 4 \<longleftrightarrow> (5::int) * 80 \<le> 4 * 100) \<and> 1 \<le> GgVotesNeeded 5 80 \<and> GgVotesNeeded 5 80 \<le> 5"
  using GgVotesNeeded_least [of 5 80 4] by simp

text \<open>The votes of a list of players, each with the time of the vote: the results, in order.\<close>

fun gg_votes :: "int \<Rightarrow> int \<Rightarrow> seconds \<Rightarrow> (u64 \<times> seconds) list \<Rightarrow> GgVote \<Rightarrow> GgResult list" where
  "gg_votes eligible pct window [] v = []"
| "gg_votes eligible pct window ((p, t) # vs) v =
     (let (r, w) = GgVote_Add p t eligible pct window v in r # gg_votes eligible pct window vs w)"

text \<open>What the votes up to the quorum answer: counted, then passed.\<close>

definition up_to_quorum :: "nat \<Rightarrow> nat \<Rightarrow> GgResult list" where
  "up_to_quorum n missing = (if n < missing then replicate n Gg_Counted else replicate (missing - 1) Gg_Counted @ [Gg_Passed])"

lemma gg_votes_running:
  assumes "finite (gg_voters v)" and "gg_voters v \<noteq> {}"
    and "distinct (map fst vs)" and "set (map fst vs) \<inter> gg_voters v = {}"
    and "list_all (\<lambda>(_, t). t < gg_deadline v) vs"
    and "GgVotesNeeded eligible pct = GgVote_Count v + int m" and "0 < m" and "length vs \<le> m"
  shows "gg_votes eligible pct window vs v = up_to_quorum (length vs) m"
  using assms
proof (induction vs arbitrary: v m)
  case Nil
  then show ?case by (simp add: up_to_quorum_def)
next
  case (Cons pt vs)
  obtain p t where pt: "pt = (p, t)" by (cases pt)
  let ?v = "v\<lparr>gg_voters := insert p (gg_voters v)\<rparr>"
  have add: "GgVote_Add p t eligible pct window v =
      (if m = 1 then (Gg_Passed, GgVote_Reset ?v) else (Gg_Counted, ?v))"
    using Cons.prems by (auto simp: pt GgVote_Add_def GgVote_Expire_def GgVote_Count_def Let_def)
  show ?case
  proof (cases "m = 1")
    case True
    with add Cons.prems show ?thesis by (simp add: pt up_to_quorum_def)
  next
    case False
    have "gg_votes eligible pct window vs ?v = up_to_quorum (length vs) (m - 1)"
      using False Cons.prems by (intro Cons.IH) (auto simp: pt GgVote_Count_def)
    moreover from False Cons.prems obtain k where "m = Suc (Suc k)"
      by (metis One_nat_def gr0_conv_Suc not_gr_zero)
    ultimately show ?thesis using add by (simp add: pt up_to_quorum_def)
  qed
qed

text \<open>
  A surrender passes as soon as the quorum is there. From an empty vote, different players
  voting within the window are counted one by one, and the vote that reaches the needed number, not
  an earlier one, passes.
\<close>

theorem gg_passes_at_quorum:
  assumes "0 < eligible" and "distinct (p # map fst vs)" and "list_all (\<lambda>(_, t). t < t0 + window) vs"
    and "int (length ((p, t0) # vs)) \<le> GgVotesNeeded eligible pct"
  shows "gg_votes eligible pct window ((p, t0) # vs) GgVote_init =
           up_to_quorum (length ((p, t0) # vs)) (nat (GgVotesNeeded eligible pct))"
proof -
  let ?n = "nat (GgVotesNeeded eligible pct)"
  let ?v = "\<lparr>gg_voters = {p}, gg_deadline = t0 + window\<rparr>"
  have n: "0 < ?n" "GgVotesNeeded eligible pct = int ?n"
    using GgVotesNeeded_bounds(1) [OF assms(1), of pct] by simp_all
  have add: "GgVote_Add p t0 eligible pct window GgVote_init =
      (if ?n = 1 then (Gg_Passed, GgVote_Reset ?v) else (Gg_Counted, ?v))"
    using n by (auto simp: GgVote_Add_def GgVote_Expire_def GgVote_init_def GgVote_Count_def Let_def)
  show ?thesis
  proof (cases "?n = 1")
    case True
    with add assms(4) n show ?thesis by (simp add: up_to_quorum_def)
  next
    case False
    with n obtain k where k: "?n = Suc (Suc k)" by (metis One_nat_def gr0_conv_Suc not_gr_zero)
    have "gg_votes eligible pct window vs ?v = up_to_quorum (length vs) (Suc k)"
      using assms n k by (intro gg_votes_running) (auto simp: GgVote_Count_def)
    with add k show ?thesis by (simp add: up_to_quorum_def)
  qed
qed

theorem gg_passes_at_quorum_witness:
  "gg_votes 5 80 30 ((1, 10) # [(2, 12), (3, 14), (4, 39)]) GgVote_init =
     up_to_quorum (length ((1::u64, 10::seconds) # [(2, 12), (3, 14), (4, 39)])) (nat (GgVotesNeeded 5 80))"
proof -
  have "GgVotesNeeded 5 80 = 4" by (simp add: GgVotesNeeded_def clamp_def)
  moreover have "distinct ((1::u64) # map fst [(2, 12::seconds), (3, 14), (4, 39)])" by simp
  moreover have "list_all (\<lambda>(_, t). t < 10 + 30) [(2::u64, 12::seconds), (3, 14), (4, 39)]" by simp
  ultimately show ?thesis by (intro gg_passes_at_quorum) simp_all
qed

section \<open>The restore vote needs both teams\<close>

datatype StopEvent =
  Sv_Request (sv_team: int) (sv_now: seconds) (sv_window: seconds)
| Sv_Expire (sv_now: seconds)
| Sv_Reset

fun stop_apply :: "StopEvent \<Rightarrow> StopVote \<Rightarrow> StopVote" where
  "stop_apply (Sv_Request team now window) v = snd (StopVote_Request team now window v)"
| "stop_apply (Sv_Expire now) v = snd (StopVote_Expire now v)"
| "stop_apply Sv_Reset v = StopVote_Reset v"

definition stop_step :: "StopEvent \<Rightarrow> StopEvent list \<times> StopVote \<Rightarrow> StopEvent list \<times> StopVote" where
  "stop_step e = (\<lambda>(es, v). (es @ [e], stop_apply e v))"

text \<open>A pending request was really made by that team, at the recorded time, with the recorded window.\<close>

definition requested :: "StopEvent list \<Rightarrow> StopVote \<Rightarrow> int \<Rightarrow> bool" where
  "requested es v team \<longleftrightarrow>
     (\<exists>now. Sv_Request team now (stop_window v) \<in> set es \<and> stop_at team v = request_time now)"

definition stop_inv :: "StopEvent list \<Rightarrow> StopVote \<Rightarrow> bool" where
  "stop_inv es v \<longleftrightarrow> StopVote_inv v \<and> (stop_at1 v > 0 \<longrightarrow> requested es v 1) \<and> (stop_at2 v > 0 \<longrightarrow> requested es v 2)"

lemma request_time_pos [simp]: "0 < request_time now" "\<not> request_time now \<le> 0"
  by (simp_all add: request_time_def)

lemma stop_apply_inv: "stop_inv es v \<Longrightarrow> stop_inv (es @ [e]) (stop_apply e v)"
  by (cases e)
    (auto simp: stop_inv_def requested_def StopVote_Request_def stop_defs Let_def less_imp_le split: if_splits)

interpretation stop_run: machine stop_step "\<lambda>_. True" "\<lambda>(es, v). stop_inv es v"
  by unfold_locales (auto simp: stop_step_def stop_apply_inv)

lemma stop_fold: "fold stop_step es (es0, v) = (es0 @ es, fold stop_apply es v)"
  by (induction es arbitrary: es0 v) (simp_all add: stop_step_def)

lemma stop_reachable_inv: "stop_inv es (fold stop_apply es StopVote_init)"
  using stop_run.inv_run [of "([], StopVote_init)" es]
  by (simp add: stop_fold list_all_iff stop_inv_def StopVote_init_def StopVote_inv_def)

text \<open>
  A round is restored only when both teams asked for it close together. After any sequence of
  requests, polls and resets, a team's request passes exactly when the other team's request is
  pending within its window, and then the other team really made such a request before.
\<close>

theorem stop_passes_with_both_teams:
  assumes "team = 1 \<or> team = 2"
  shows "fst (StopVote_Request team now window (fold stop_apply es StopVote_init)) = Stop_Passed \<longleftrightarrow>
     (let v = fold stop_apply es StopVote_init
      in StopVote_Pending v = 3 - team \<and> now < StopVote_Deadline v \<and>
         (\<exists>t0 w0. Sv_Request (3 - team) t0 w0 \<in> set es \<and> StopVote_Deadline v = request_time t0 + w0))"
proof -
  let ?v = "fold stop_apply es StopVote_init"
  have inv: "stop_inv es ?v" by (rule stop_reachable_inv)
  then have "StopVote_inv ?v" by (simp add: stop_inv_def)
  then have "fst (StopVote_Request team now window ?v) = Stop_Passed \<longleftrightarrow>
      StopVote_Pending ?v = 3 - team \<and> now < StopVote_Deadline ?v"
    using assms by (auto simp: StopVote_Request_def stop_defs Let_def split: if_splits)
  moreover have "StopVote_Pending ?v = 3 - team \<Longrightarrow>
      \<exists>t0 w0. Sv_Request (3 - team) t0 w0 \<in> set es \<and> StopVote_Deadline ?v = request_time t0 + w0"
    using assms inv unfolding stop_inv_def requested_def
    by (auto simp: stop_defs Let_def split: if_splits) metis+
  ultimately show ?thesis by (auto simp: Let_def)
qed

theorem stop_passes_with_both_teams_witness:
  "fst (StopVote_Request 2 20 30 (fold stop_apply [Sv_Request 1 10 30] StopVote_init)) = Stop_Passed \<longleftrightarrow>
     (let v = fold stop_apply [Sv_Request 1 10 30] StopVote_init
      in StopVote_Pending v = 3 - 2 \<and> 20 < StopVote_Deadline v \<and>
         (\<exists>t0 w0. Sv_Request (3 - 2) t0 w0 \<in> set [Sv_Request 1 10 30] \<and> StopVote_Deadline v = request_time t0 + w0))"
  by (rule stop_passes_with_both_teams) simp

text \<open>
  A vote times out once. Polling \<open>Expire\<close> at any times reports a timeout exactly when a vote
  is running and some poll comes at its deadline or later, and never twice; for the surrender vote and
  for every restore vote a sequence of calls leads to.
\<close>

theorem votes_time_out_once:
  "(let v = fold stop_apply es StopVote_init; reported = fst (poll stop_expired ts v)
    in length (filter id reported) \<le> 1 \<and>
       (list_ex id reported \<longleftrightarrow> StopVote_Pending v \<noteq> 0 \<and> list_ex (\<lambda>t. StopVote_Deadline v \<le> t) ts)) \<and>
   (let reported = fst (poll GgVote_Expire ts g)
    in length (filter id reported) \<le> 1 \<and>
       (list_ex id reported \<longleftrightarrow> GgVote_Running g \<and> list_ex (\<lambda>t. gg_deadline g \<le> t) ts))"
proof -
  have inv: "StopVote_inv (fold stop_apply es StopVote_init)"
    using stop_reachable_inv [of es] by (simp add: stop_inv_def)
  show ?thesis
    unfolding Let_def
    using stop.poll_once [OF inv] stop.poll_reports [OF inv] gg.poll_once gg.poll_reports by blast
qed

end
