(* ===== verification/Pause_State.thy ===== *)
theory Pause_State
  imports Match_Rules
begin

text \<open>
  Pauses of a match: the pause state with its usage counters and its save/restore over a plugin
  reload (plugins/match/readyup/pause_state.h and pause_state.cpp), and the chat handlers that drive
  it, \<open>.tech\<close>, \<open>.pause\<close> and \<open>.unpause\<close> (match_features.cpp). What a handler reads of the server (the
  loaded match, the live phase, the clock, the connected players, whether the engine takes a command)
  is the record \<open>PauseEnv\<close>; webhooks, prints and HUD cards are left out. A mutex guards every
  operation of pause_state.cpp, so each is one atomic step.
\<close>

section \<open>The pause state\<close>

datatype WebhookTeam = Team_Unknown | Team1 | Team2

record PauseSnapshot =
  snap_paused :: bool
  snap_team1_ready :: bool
  snap_team2_ready :: bool
  snap_type :: string
  snap_by :: string
  snap_team :: WebhookTeam

record PauseState =
  g_paused :: bool
  g_t1 :: bool
  g_t2 :: bool
  g_type :: string
  g_by :: string
  g_team :: WebhookTeam
  g_pauseStart :: int
  g_used :: "int list list"

definition PauseState_init :: PauseState where
  "PauseState_init =
     \<lparr>g_paused = False, g_t1 = False, g_t2 = False, g_type = [], g_by = [], g_team = Team_Unknown,
      g_pauseStart = 0, g_used = [[0, 0], [0, 0]]\<rparr>"

definition SnapshotLocked :: "PauseState \<Rightarrow> PauseSnapshot" where
  "SnapshotLocked s =
     \<lparr>snap_paused = g_paused s, snap_team1_ready = g_t1 s, snap_team2_ready = g_t2 s,
      snap_type = (if g_paused s then g_type s else []), snap_by = (if g_paused s then g_by s else []),
      snap_team = (if g_paused s then g_team s else Team_Unknown)\<rparr>"

text \<open>\<open>now\<close> is the steady clock in ticks; a null \<open>type\<close> and an empty one are the same case.\<close>

definition PauseStateOnPaused :: "string \<Rightarrow> string \<Rightarrow> WebhookTeam \<Rightarrow> int \<Rightarrow> PauseState \<Rightarrow> PauseState" where
  "PauseStateOnPaused type by team now s =
     s\<lparr>g_paused := True, g_type := (if type \<noteq> [] then type else ''tactical''), g_by := by,
       g_team := team, g_t1 := False, g_t2 := False, g_pauseStart := now\<rparr>"

definition PauseStateOnUnpaused :: "PauseState \<Rightarrow> PauseState" where
  "PauseStateOnUnpaused s = s\<lparr>g_paused := False, g_t1 := False, g_t2 := False, g_pauseStart := 0\<rparr>"

definition PauseStateRequestUnpause :: "WebhookTeam \<Rightarrow> PauseState \<Rightarrow> PauseSnapshot \<times> PauseState" where
  "PauseStateRequestUnpause team s =
     (let s1 = (if team = Team1 then s\<lparr>g_t1 := True\<rparr> else if team = Team2 then s\<lparr>g_t2 := True\<rparr> else s)
      in (SnapshotLocked s1, s1))"

definition PauseStateGet :: "PauseState \<Rightarrow> PauseSnapshot" where
  "PauseStateGet s = SnapshotLocked s"

definition PauseStateSave :: "PauseState \<Rightarrow> PauseSnapshot \<times> int" where
  "PauseStateSave s = (SnapshotLocked s, g_pauseStart s)"

definition PauseStateRestore :: "PauseSnapshot \<Rightarrow> int \<Rightarrow> PauseState \<Rightarrow> PauseState" where
  "PauseStateRestore snap startTicks s =
     s\<lparr>g_paused := snap_paused snap, g_type := snap_type snap, g_by := snap_by snap,
       g_team := snap_team snap, g_t1 := snap_team1_ready snap, g_t2 := snap_team2_ready snap,
       g_pauseStart := startTicks\<rparr>"

definition UsedIndex :: "WebhookTeam \<Rightarrow> int" where
  "UsedIndex team = (if team = Team1 then 0 else if team = Team2 then 1 else -1)"

definition TypeIndex :: "string \<Rightarrow> int" where
  "TypeIndex type = (if type = ''tactical'' then 0 else if type = ''technical'' then 1 else -1)"

definition PauseStateCountUse :: "WebhookTeam \<Rightarrow> string \<Rightarrow> PauseState \<Rightarrow> PauseState" where
  "PauseStateCountUse team type s =
     (let t = UsedIndex team; k = TypeIndex type; u = g_used s
      in if t < 0 \<or> k < 0 then s
         else s\<lparr>g_used := u[nat t := (u ! nat t)[nat k := u ! nat t ! nat k + 1]]\<rparr>)"

definition PauseStateUsed :: "WebhookTeam \<Rightarrow> string \<Rightarrow> PauseState \<Rightarrow> int" where
  "PauseStateUsed team type s =
     (let t = UsedIndex team; k = TypeIndex type
      in if t < 0 \<or> k < 0 then 0 else g_used s ! nat t ! nat k)"

definition PauseStateResetUsage :: "PauseState \<Rightarrow> PauseState" where
  "PauseStateResetUsage s = s\<lparr>g_used := map (\<lambda>row. row[0 := 0, 1 := 0]) (g_used s)\<rparr>"

definition PauseStateUsageSave :: "PauseState \<Rightarrow> int list" where
  "PauseStateUsageSave s =
     (let u = g_used s in [u ! 0 ! 0, u ! 0 ! 1, u ! 1 ! 0, u ! 1 ! 1])"

definition PauseStateUsageRestore :: "int list \<Rightarrow> PauseState \<Rightarrow> PauseState" where
  "PauseStateUsageRestore xs s =
     (let u = g_used s
      in s\<lparr>g_used := u[0 := (u ! 0)[0 := xs ! 0, 1 := xs ! 1], 1 := (u ! 1)[0 := xs ! 2, 1 := xs ! 3]]\<rparr>)"

text \<open>\<open>tps\<close>: ticks of the steady clock per second.\<close>

definition PauseStatePauseDurationSeconds :: "int \<Rightarrow> int \<Rightarrow> PauseState \<Rightarrow> int" where
  "PauseStatePauseDurationSeconds tps now s =
     (if \<not> g_paused s then 0
      else if g_pauseStart s = 0 then 0
      else
        (let sec = cdiv (now - g_pauseStart s) tps
         in if sec < 0 then 0 else if sec > 24 * 3600 then 24 * 3600 else sec))"

section \<open>The chat handlers\<close>

record PauseEnv =
  env_ctx :: bool
  env_team1_name :: string
  env_team2_name :: string
  env_cvars :: "(string \<times> string) list"
  env_roster :: "(u64 \<times> WebhookTeam) list"
  env_live :: bool
  env_inFreeze :: bool
  env_enqueue :: bool
  env_rules :: MatchRules
  env_now :: int
  env_humans :: "(u64 \<times> int) list"
  env_botsConfirm :: bool
  env_csSide :: "WebhookTeam \<Rightarrow> int"

datatype PauseAnswer = Reply_To Msg | Chat_All Msg

record PauseOutcome =
  out_answer :: PauseAnswer
  out_command :: "string option"

definition reply :: "string \<Rightarrow> Args \<Rightarrow> PauseOutcome" where
  "reply key args = \<lparr>out_answer = Reply_To \<lparr>msg_key = key, msg_args = args\<rparr>, out_command = None\<rparr>"

definition chat_all :: "string option \<Rightarrow> string \<Rightarrow> Args \<Rightarrow> PauseOutcome" where
  "chat_all cmd key args = \<lparr>out_answer = Chat_All \<lparr>msg_key = key, msg_args = args\<rparr>, out_command = cmd\<rparr>"

definition TeamNum :: "WebhookTeam \<Rightarrow> int" where
  "TeamNum t = (if t = Team1 then 1 else if t = Team2 then 2 else 0)"

definition TeamName :: "PauseEnv \<Rightarrow> WebhookTeam \<Rightarrow> string" where
  "TeamName env t =
     (let n = (if t = Team1 then env_team1_name env else env_team2_name env)
      in if n \<noteq> [] then n else if t = Team1 then ''Team1'' else ''Team2'')"

definition paused_by :: "u64 \<Rightarrow> string" where
  "paused_by steamid64 = (if steamid64 \<noteq> 0 then u64_string steamid64 else ''Console'')"

definition MatchFeaturesTechPause ::
  "PauseEnv \<Rightarrow> WebhookTeam \<Rightarrow> u64 \<Rightarrow> PauseState \<Rightarrow> PauseOutcome \<times> PauseState" where
  "MatchFeaturesTechPause env team steamid64 s =
     (let limit = tech_pauses_per_team (env_rules env);
          used = PauseStateUsed team ''technical'' s;
          tn = TeamName env team
      in if \<not> env_ctx env then (reply ''reply.no_match'' [], s)
         else if \<not> env_live env then (reply ''pause.live_only'' [], s)
         else if snap_paused (PauseStateGet s) then (reply ''reply.already_paused'' [], s)
         else if \<not> TechPauseAllowed used limit then
           (reply ''pause.tech_none_left'' [(''team'', tn), (''count'', to_string limit)], s)
         else if \<not> env_enqueue env then (reply ''reply.pause_unavailable'' [], s)
         else
           (let left = TechPausesLeft (used + 1) limit
            in (chat_all (Some ''mp_pause_match'')
                  ((if env_inFreeze env then ''pause.tech_by'' else ''pause.tech_by_freeze'')
                     @ (if left \<ge> 0 then ''_left'' else []))
                  [(''team'', tn), (''count'', to_string left)],
                PauseStateCountUse team ''technical''
                  (PauseStateOnPaused ''technical'' (paused_by steamid64) team (env_now env) s))))"

text \<open>The side of the caller: the last entry of the player list with that id, else the team's side.\<close>

definition timeout_side :: "PauseEnv \<Rightarrow> WebhookTeam \<Rightarrow> u64 \<Rightarrow> int" where
  "timeout_side env team steamid64 =
     (let side = (if steamid64 \<noteq> 0
                  then fold (\<lambda>(sid, t) acc. if sid = steamid64 then t else acc) (env_humans env) 0 else 0)
      in if side \<noteq> 2 \<and> side \<noteq> 3 then env_csSide env team else side)"

definition timeouts_used_up :: "PauseEnv \<Rightarrow> WebhookTeam \<Rightarrow> PauseState \<Rightarrow> bool" where
  "timeouts_used_up env team s =
     (case map_of (env_cvars env) ''mp_team_timeout_max'' of
        None \<Rightarrow> False
      | Some v \<Rightarrow> PauseStateUsed team ''tactical'' s \<ge> atoi v)"

definition MatchFeaturesTacticalTimeout ::
  "PauseEnv \<Rightarrow> WebhookTeam \<Rightarrow> u64 \<Rightarrow> PauseState \<Rightarrow> PauseOutcome \<times> PauseState" where
  "MatchFeaturesTacticalTimeout env team steamid64 s =
     (if \<not> env_ctx env then (reply ''reply.no_match'' [], s)
      else if \<not> env_live env then (reply ''pause.timeout_live_only'' [], s)
      else if snap_paused (PauseStateGet s) then (reply ''reply.already_paused'' [], s)
      else if timeouts_used_up env team s then
        (reply ''pause.tac_none_left'' [(''team'', TeamName env team)], s)
      else if \<not> env_enqueue env then (reply ''pause.timeout_unavailable'' [], s)
      else
        (chat_all (Some (if timeout_side env team steamid64 = 3 then ''timeout_ct_start'' else ''timeout_terrorist_start''))
           (if env_inFreeze env then ''pause.tac_for'' else ''pause.tac_for_freeze'') [(''team'', TeamName env team)],
         PauseStateCountUse team ''tactical''
           (PauseStateOnPaused ''tactical'' (paused_by steamid64) team (env_now env) s)))"

text \<open>\<open>botOnly\<close>: no roster player of the team is connected.\<close>

definition botOnly :: "PauseEnv \<Rightarrow> WebhookTeam \<Rightarrow> bool" where
  "botOnly env t = (\<not> list_ex (\<lambda>(sid, u). u = t \<and> sid \<in> set (map fst (env_humans env))) (env_roster env))"

definition confirm_bots :: "PauseEnv \<Rightarrow> PauseSnapshot \<times> PauseState \<Rightarrow> PauseSnapshot \<times> PauseState" where
  "confirm_bots env = (\<lambda>(snap, s).
     if env_botsConfirm env
     then fold (\<lambda>(t, confirmed) (sn, st).
                  if confirmed \<or> \<not> botOnly env t then (sn, st) else PauseStateRequestUnpause t st)
            [(Team1, snap_team1_ready snap), (Team2, snap_team2_ready snap)] (snap, s)
     else (snap, s))"

definition both_required :: "MatchRules \<Rightarrow> string \<Rightarrow> bool" where
  "both_required rules type \<longleftrightarrow>
     both_teams_unpause rules \<noteq> 0 \<or> type = ''halftime'' \<or> type = ''auto_5v5'' \<or> type = ''restore'' \<or> type = ''engine''"

definition MatchFeaturesUnpause ::
  "PauseEnv \<Rightarrow> WebhookTeam \<Rightarrow> PauseState \<Rightarrow> PauseOutcome \<times> PauseState" where
  "MatchFeaturesUnpause env team s =
     (let cur = PauseStateGet s
      in if \<not> env_ctx env then (reply ''reply.no_match'' [], s)
         else if \<not> snap_paused cur then (reply ''pause.not_paused'' [], s)
         else if snap_type cur = ''tactical'' then (reply ''pause.tac_ends_itself'' [], s)
         else if snap_type cur = ''admin'' then (reply ''pause.admin_only'' [], s)
         else
           (let (snap, s1) = confirm_bots env (PauseStateRequestUnpause team s);
                both = both_required (env_rules env) (snap_type cur)
            in if UnpauseSatisfied (snap_team1_ready snap) (snap_team2_ready snap) both (TeamNum (snap_team cur))
               then (if \<not> env_enqueue env then (reply ''reply.unpause_unavailable'' [], s1)
                     else (chat_all (Some ''mp_unpause_match'') ''pause.unpause_accepted'' [], PauseStateOnUnpaused s1))
               else if both then (chat_all None ''pause.wants_unpause'' [(''team'', TeamName env team)], s1)
               else (chat_all None ''pause.waiting_pauser'' [(''team'', TeamName env (snap_team cur))], s1)))"

section \<open>Sequences of pause operations\<close>

text \<open>A plugin reload: the old plugin saves, the new one starts from its initial state and restores.\<close>

definition reload :: "PauseState \<Rightarrow> PauseState" where
  "reload s =
     (let (snap, startTicks) = PauseStateSave s; used = PauseStateUsageSave s
      in PauseStateUsageRestore used (PauseStateRestore snap startTicks PauseState_init))"

datatype PauseEvent =
  Pe_Tech PauseEnv WebhookTeam u64
| Pe_Tactical PauseEnv WebhookTeam u64
| Pe_Unpause PauseEnv WebhookTeam
| Pe_OnPaused string string WebhookTeam int
| Pe_OnUnpaused
| Pe_ResetUsage
| Pe_Reload

fun pause_step :: "PauseEvent \<Rightarrow> PauseState \<Rightarrow> PauseOutcome option \<times> PauseState" where
  "pause_step (Pe_Tech env team sid) s = map_prod Some id (MatchFeaturesTechPause env team sid s)"
| "pause_step (Pe_Tactical env team sid) s = map_prod Some id (MatchFeaturesTacticalTimeout env team sid s)"
| "pause_step (Pe_Unpause env team) s = map_prod Some id (MatchFeaturesUnpause env team s)"
| "pause_step (Pe_OnPaused type by team now) s = (None, PauseStateOnPaused type by team now s)"
| "pause_step Pe_OnUnpaused s = (None, PauseStateOnUnpaused s)"
| "pause_step Pe_ResetUsage s = (None, PauseStateResetUsage s)"
| "pause_step Pe_Reload s = (None, reload s)"

definition pause_apply :: "PauseEvent \<Rightarrow> PauseState \<Rightarrow> PauseState" where
  "pause_apply e s = snd (pause_step e s)"

fun pause_outputs :: "PauseEvent list \<Rightarrow> PauseState \<Rightarrow> PauseOutcome option list" where
  "pause_outputs [] s = []"
| "pause_outputs (e # es) s = (let (out, s1) = pause_step e s in out # pause_outputs es s1)"

section \<open>Lemmas: the usage counters\<close>

definition used_ok :: "PauseState \<Rightarrow> bool" where
  "used_ok s \<longleftrightarrow> (\<exists>a b c d. g_used s = [[a, b], [c, d]] \<and> 0 \<le> a \<and> 0 \<le> b \<and> 0 \<le> c \<and> 0 \<le> d)"

lemmas pause_defs = PauseStateOnPaused_def PauseStateOnUnpaused_def PauseStateRequestUnpause_def
  PauseStateGet_def SnapshotLocked_def Let_def

lemmas usage_defs = PauseStateUsed_def PauseStateCountUse_def PauseStateResetUsage_def
  PauseStateUsageSave_def PauseStateUsageRestore_def UsedIndex_def TypeIndex_def Let_def

lemma used_OnPaused [simp]: "g_used (PauseStateOnPaused type by team now s) = g_used s"
  by (simp add: PauseStateOnPaused_def)

lemma used_OnUnpaused [simp]: "g_used (PauseStateOnUnpaused s) = g_used s"
  by (simp add: PauseStateOnUnpaused_def)

lemma used_RequestUnpause [simp]: "g_used (snd (PauseStateRequestUnpause team s)) = g_used s"
  by (simp add: PauseStateRequestUnpause_def Let_def)

lemma used_confirm_bots [simp]: "g_used (snd (confirm_bots env p)) = g_used (snd p)"
  by (cases p) (auto simp: confirm_bots_def case_prod_beta)

lemma used_Unpause [simp]: "g_used (snd (MatchFeaturesUnpause env team s)) = g_used s"
  by (simp add: MatchFeaturesUnpause_def Let_def case_prod_beta)

lemma used_reload: "used_ok s \<Longrightarrow> g_used (reload s) = g_used s"
  by (auto simp: used_ok_def reload_def usage_defs PauseStateSave_def PauseStateRestore_def PauseState_init_def)

lemma CountUse_ok: "used_ok s \<Longrightarrow> used_ok (PauseStateCountUse team type s)"
  by (auto simp: used_ok_def usage_defs)

lemma ResetUsage_ok: "used_ok s \<Longrightarrow> used_ok (PauseStateResetUsage s)"
  by (auto simp: used_ok_def usage_defs)

lemma used_ok_cong: "g_used s = g_used t \<Longrightarrow> used_ok s \<longleftrightarrow> used_ok t"
  by (simp add: used_ok_def)

lemma Used_cong: "g_used s = g_used t \<Longrightarrow> PauseStateUsed team type s = PauseStateUsed team type t"
  by (simp add: PauseStateUsed_def Let_def)

lemma Used_CountUse:
  assumes "used_ok s"
  shows "PauseStateUsed team2 type2 (PauseStateCountUse team type s) =
     PauseStateUsed team2 type2 s +
     (if UsedIndex team2 = UsedIndex team \<and> TypeIndex type2 = TypeIndex type \<and>
         0 \<le> UsedIndex team \<and> 0 \<le> TypeIndex type then 1 else 0)"
proof -
  from assms obtain a b c d where u: "g_used s = [[a, b], [c, d]]" by (auto simp: used_ok_def)
  have t: "UsedIndex x = 0 \<or> UsedIndex x = 1 \<or> UsedIndex x = -1" for x by (simp add: UsedIndex_def)
  have k: "TypeIndex x = 0 \<or> TypeIndex x = 1 \<or> TypeIndex x = -1" for x by (simp add: TypeIndex_def)
  show ?thesis
    using t [of team] t [of team2] k [of type] k [of type2]
    by (elim disjE) (simp_all add: PauseStateUsed_def PauseStateCountUse_def Let_def u)
qed

lemma Used_nonneg: "used_ok s \<Longrightarrow> 0 \<le> PauseStateUsed team type s"
  by (auto simp: used_ok_def usage_defs)

lemma Used_ResetUsage: "used_ok s \<Longrightarrow> PauseStateUsed team type (PauseStateResetUsage s) = 0"
  by (auto simp: used_ok_def usage_defs)

lemma TechPause_used:
  "g_used (snd (MatchFeaturesTechPause env team sid s)) = g_used s \<or>
   g_used (snd (MatchFeaturesTechPause env team sid s)) = g_used (PauseStateCountUse team ''technical'' s)"
  by (simp add: MatchFeaturesTechPause_def PauseStateCountUse_def Let_def)

lemma Tactical_used:
  "g_used (snd (MatchFeaturesTacticalTimeout env team sid s)) = g_used s \<or>
   g_used (snd (MatchFeaturesTacticalTimeout env team sid s)) = g_used (PauseStateCountUse team ''tactical'' s)"
  by (simp add: MatchFeaturesTacticalTimeout_def PauseStateCountUse_def Let_def)

text \<open>What an operation does to the counters: nothing, a reset, or one use more.\<close>

lemma pause_apply_used:
  "used_ok s \<Longrightarrow>
     g_used (pause_apply e s) = g_used s \<or> g_used (pause_apply e s) = g_used (PauseStateResetUsage s) \<or>
     (\<exists>team type. g_used (pause_apply e s) = g_used (PauseStateCountUse team type s))"
proof (cases e)
  case (Pe_Tech env team sid)
  then show ?thesis using TechPause_used [of env team sid s] unfolding pause_apply_def by auto
next
  case (Pe_Tactical env team sid)
  then show ?thesis using Tactical_used [of env team sid s] unfolding pause_apply_def by auto
qed (simp_all add: pause_apply_def used_reload)

lemma pause_apply_used_ok: "used_ok s \<Longrightarrow> used_ok (pause_apply e s)"
  using pause_apply_used [of s e] CountUse_ok ResetUsage_ok used_ok_cong by metis

section \<open>Lemmas: a reload is not noticed\<close>

text \<open>
  Two states no caller can tell apart: they differ at most in the type, author and team a match that
  is not paused still remembers.
\<close>

definition pause_eq :: "PauseState \<Rightarrow> PauseState \<Rightarrow> bool" where
  "pause_eq s t \<longleftrightarrow>
     g_paused s = g_paused t \<and> g_t1 s = g_t1 t \<and> g_t2 s = g_t2 t \<and> g_pauseStart s = g_pauseStart t \<and>
     g_used s = g_used t \<and> (g_paused s \<longrightarrow> g_type s = g_type t \<and> g_by s = g_by t \<and> g_team s = g_team t)"

lemma pause_eq_snapshot: "pause_eq s t \<Longrightarrow> PauseStateGet s = PauseStateGet t"
  by (simp add: pause_eq_def PauseStateGet_def SnapshotLocked_def)

lemma pause_eq_used: "pause_eq s t \<Longrightarrow> PauseStateUsed team type s = PauseStateUsed team type t"
  by (rule Used_cong) (simp add: pause_eq_def)

lemma pause_eq_RequestUnpause:
  "pause_eq s t \<Longrightarrow> fst (PauseStateRequestUnpause team s) = fst (PauseStateRequestUnpause team t) \<and>
     pause_eq (snd (PauseStateRequestUnpause team s)) (snd (PauseStateRequestUnpause team t))"
  by (simp add: pause_eq_def PauseStateRequestUnpause_def SnapshotLocked_def Let_def)

lemma pause_eq_confirm_bots:
  "pause_eq s t \<Longrightarrow> fst (confirm_bots env (snap, s)) = fst (confirm_bots env (snap, t)) \<and>
     pause_eq (snd (confirm_bots env (snap, s))) (snd (confirm_bots env (snap, t)))"
  using pause_eq_RequestUnpause [of s t] pause_eq_RequestUnpause
    [of "snd (PauseStateRequestUnpause Team1 s)" "snd (PauseStateRequestUnpause Team1 t)" Team2]
  by (auto simp: confirm_bots_def case_prod_beta)

lemma pause_eq_reload: "used_ok s \<Longrightarrow> pause_eq s (reload s)"
  using used_reload [of s]
  by (simp add: pause_eq_def reload_def Let_def PauseStateSave_def SnapshotLocked_def
      PauseStateUsageRestore_def PauseStateRestore_def)

lemma pause_eq_trans: "pause_eq s t \<Longrightarrow> pause_eq t u \<Longrightarrow> pause_eq s u"
  by (simp add: pause_eq_def)

lemma pause_eq_sym: "pause_eq s t \<Longrightarrow> pause_eq t s"
  by (simp add: pause_eq_def)

lemma pause_eq_OnPaused: "pause_eq s t \<Longrightarrow> pause_eq (PauseStateOnPaused ty by tm now s) (PauseStateOnPaused ty by tm now t)"
  by (simp add: pause_eq_def PauseStateOnPaused_def)

lemma pause_eq_OnUnpaused: "pause_eq s t \<Longrightarrow> pause_eq (PauseStateOnUnpaused s) (PauseStateOnUnpaused t)"
  by (simp add: pause_eq_def PauseStateOnUnpaused_def)

lemma pause_eq_CountUse: "pause_eq s t \<Longrightarrow> pause_eq (PauseStateCountUse tm ty s) (PauseStateCountUse tm ty t)"
  by (simp add: pause_eq_def PauseStateCountUse_def Let_def)

lemma pause_eq_ResetUsage: "pause_eq s t \<Longrightarrow> pause_eq (PauseStateResetUsage s) (PauseStateResetUsage t)"
  by (simp add: pause_eq_def PauseStateResetUsage_def)

lemmas pause_eq_intros = pause_eq_OnPaused pause_eq_OnUnpaused pause_eq_CountUse pause_eq_ResetUsage

lemma pause_eq_Tech:
  assumes "pause_eq s t"
  shows "fst (MatchFeaturesTechPause env team sid s) = fst (MatchFeaturesTechPause env team sid t) \<and>
         pause_eq (snd (MatchFeaturesTechPause env team sid s)) (snd (MatchFeaturesTechPause env team sid t))"
  using assms pause_eq_used [OF assms, of team "''technical''"] pause_eq_snapshot [OF assms]
  by (simp add: MatchFeaturesTechPause_def Let_def pause_eq_intros)

lemma pause_eq_Tactical:
  assumes "pause_eq s t"
  shows "fst (MatchFeaturesTacticalTimeout env team sid s) = fst (MatchFeaturesTacticalTimeout env team sid t) \<and>
         pause_eq (snd (MatchFeaturesTacticalTimeout env team sid s)) (snd (MatchFeaturesTacticalTimeout env team sid t))"
proof -
  have "timeouts_used_up env team s = timeouts_used_up env team t"
    using pause_eq_used [OF assms] by (simp add: timeouts_used_up_def split: option.split)
  with assms pause_eq_snapshot [OF assms] show ?thesis
    by (simp add: MatchFeaturesTacticalTimeout_def Let_def pause_eq_intros)
qed

lemma pause_eq_Unpause:
  assumes "pause_eq s t"
  shows "fst (MatchFeaturesUnpause env team s) = fst (MatchFeaturesUnpause env team t) \<and>
         pause_eq (snd (MatchFeaturesUnpause env team s)) (snd (MatchFeaturesUnpause env team t))"
proof -
  obtain snap s1 where p: "PauseStateRequestUnpause team s = (snap, s1)" by (cases "PauseStateRequestUnpause team s")
  with pause_eq_RequestUnpause [OF assms, of team] obtain t1
    where q: "PauseStateRequestUnpause team t = (snap, t1)" and e1: "pause_eq s1 t1"
    by (cases "PauseStateRequestUnpause team t") auto
  obtain snap2 s2 where p2: "confirm_bots env (snap, s1) = (snap2, s2)" by (cases "confirm_bots env (snap, s1)")
  with pause_eq_confirm_bots [OF e1, of env snap] obtain t2
    where q2: "confirm_bots env (snap, t1) = (snap2, t2)" and e2: "pause_eq s2 t2"
    by (cases "confirm_bots env (snap, t1)") auto
  show ?thesis
    using assms e2 pause_eq_snapshot [OF assms]
    by (simp add: MatchFeaturesUnpause_def Let_def p q p2 q2 pause_eq_intros)
qed

lemma pause_eq_step:
  assumes "pause_eq s t" and "used_ok s"
  shows "fst (pause_step e s) = fst (pause_step e t) \<and> pause_eq (snd (pause_step e s)) (snd (pause_step e t))"
proof -
  from assms have "used_ok t" by (simp add: used_ok_def pause_eq_def)
  then have "pause_eq (reload s) (reload t)"
    using assms pause_eq_reload pause_eq_trans pause_eq_sym by blast
  with assms(1) show ?thesis
    by (cases e) (simp_all add: pause_eq_Tech pause_eq_Tactical pause_eq_Unpause pause_eq_intros)
qed

lemma pause_eq_outputs:
  "pause_eq s t \<Longrightarrow> used_ok s \<Longrightarrow> pause_outputs es s = pause_outputs es t \<and> pause_eq (fold pause_apply es s) (fold pause_apply es t)"
proof (induction es arbitrary: s t)
  case (Cons e es)
  note step = pause_eq_step [OF Cons.prems, of e]
  have "pause_outputs es (snd (pause_step e s)) = pause_outputs es (snd (pause_step e t)) \<and>
        pause_eq (fold pause_apply es (snd (pause_step e s))) (fold pause_apply es (snd (pause_step e t)))"
    using step pause_apply_used_ok [OF Cons.prems(2), of e] by (intro Cons.IH) (simp_all add: pause_apply_def)
  with step show ?case by (simp add: case_prod_beta pause_apply_def [of e])
qed simp

interpretation pause_run: machine pause_apply "\<lambda>_. True" used_ok
  by unfold_locales (rule pause_apply_used_ok)

lemma used_ok_init: "used_ok PauseState_init"
  by (simp add: used_ok_def PauseState_init_def)

lemma used_ok_reachable: "used_ok (fold pause_apply es PauseState_init)"
  using pause_run.inv_run [OF used_ok_init, of es] by (simp add: list_all_iff)

text \<open>
  C11: a plugin reload in the middle of a match is not noticed. Whatever led to the state and
  whatever follows, a match whose plugin saved its pause state and restored it in a fresh plugin
  answers every later command the same way, and its pause snapshot, pause length and usage counters
  stay the same.
\<close>

theorem reload_is_invisible:
  "let s = fold pause_apply es PauseState_init
   in pause_outputs fs (reload s) = pause_outputs fs s \<and>
      PauseStateGet (fold pause_apply fs (reload s)) = PauseStateGet (fold pause_apply fs s) \<and>
      PauseStatePauseDurationSeconds tps now (fold pause_apply fs (reload s)) =
        PauseStatePauseDurationSeconds tps now (fold pause_apply fs s) \<and>
      PauseStateUsed team type (fold pause_apply fs (reload s)) = PauseStateUsed team type (fold pause_apply fs s)"
proof -
  let ?s = "fold pause_apply es PauseState_init"
  have ok: "used_ok ?s" by (rule used_ok_reachable)
  note eqs = pause_eq_outputs [OF pause_eq_reload [OF ok] ok, of fs]
  then have "pause_eq (fold pause_apply fs ?s) (fold pause_apply fs (reload ?s))" by simp
  then have "PauseStatePauseDurationSeconds tps now (fold pause_apply fs (reload ?s)) =
      PauseStatePauseDurationSeconds tps now (fold pause_apply fs ?s)"
    by (simp add: pause_eq_def PauseStatePauseDurationSeconds_def)
  with eqs show ?thesis unfolding Let_def by (metis pause_eq_snapshot pause_eq_used)
qed

section \<open>Lemmas: the limit of technical pauses\<close>

fun limited :: "int \<Rightarrow> PauseEvent \<Rightarrow> bool" where
  "limited limit (Pe_Tech env team sid) = (tech_pauses_per_team (env_rules env) = limit)"
| "limited limit e = True"

definition within_limit :: "int \<Rightarrow> PauseState \<Rightarrow> bool" where
  "within_limit limit s \<longleftrightarrow> used_ok s \<and> (\<forall>team. PauseStateUsed team ''technical'' s \<le> limit)"

lemma TechPause_granted:
  "out_command (fst (MatchFeaturesTechPause env team sid s)) = Some ''mp_pause_match'' \<longleftrightarrow>
     env_ctx env \<and> env_live env \<and> \<not> g_paused s \<and>
     TechPauseAllowed (PauseStateUsed team ''technical'' s) (tech_pauses_per_team (env_rules env)) \<and> env_enqueue env"
  by (simp add: MatchFeaturesTechPause_def Let_def reply_def chat_all_def PauseStateGet_def SnapshotLocked_def)

lemma TechPause_used_iff:
  "g_used (snd (MatchFeaturesTechPause env team sid s)) =
     (if out_command (fst (MatchFeaturesTechPause env team sid s)) = Some ''mp_pause_match''
      then g_used (PauseStateCountUse team ''technical'' s) else g_used s)"
  by (simp add: MatchFeaturesTechPause_def PauseStateCountUse_def reply_def chat_all_def Let_def)

lemma technical_index: "TypeIndex ''tactical'' \<noteq> TypeIndex ''technical''"
  by (simp add: TypeIndex_def)

lemma within_limit_cong: "g_used s = g_used t \<Longrightarrow> within_limit limit s \<longleftrightarrow> within_limit limit t"
  by (simp add: within_limit_def used_ok_def PauseStateUsed_def Let_def)

lemma CountTechnical_within_limit:
  assumes "within_limit limit s" and "PauseStateUsed team ''technical'' s < limit"
  shows "within_limit limit (PauseStateCountUse team ''technical'' s)"
proof -
  have ok: "used_ok s" using assms by (simp add: within_limit_def)
  have "PauseStateUsed team2 ''technical'' (PauseStateCountUse team ''technical'' s) \<le> limit" for team2
  proof (cases "UsedIndex team2 = UsedIndex team")
    case True
    then have "PauseStateUsed team2 ''technical'' s = PauseStateUsed team ''technical'' s"
      by (simp add: PauseStateUsed_def)
    with assms(2) show ?thesis by (simp add: Used_CountUse [OF ok])
  qed (use assms(1) in \<open>simp add: Used_CountUse [OF ok] within_limit_def\<close>)
  with ok show ?thesis by (simp add: within_limit_def CountUse_ok)
qed

lemma Tech_within_limit:
  assumes "within_limit limit s" and "0 < limit" and "tech_pauses_per_team (env_rules env) = limit"
  shows "within_limit limit (snd (MatchFeaturesTechPause env team sid s))"
proof (cases "out_command (fst (MatchFeaturesTechPause env team sid s)) = Some ''mp_pause_match''")
  case True
  then have "PauseStateUsed team ''technical'' s < limit"
    using assms TechPause_granted [of env team sid s] by (simp add: TechPauseAllowed_def)
  with True assms show ?thesis
    using CountTechnical_within_limit within_limit_cong [OF TechPause_used_iff [of env team sid s, unfolded if_P [OF True]]]
    by blast
next
  case False
  with assms(1) show ?thesis
    using within_limit_cong [OF TechPause_used_iff [of env team sid s, unfolded if_not_P [OF False]]] by blast
qed

lemma CountTactical_within_limit:
  assumes "within_limit limit s"
  shows "within_limit limit (PauseStateCountUse team ''tactical'' s)"
  using assms unfolding within_limit_def
  by (simp add: CountUse_ok Used_CountUse technical_index [symmetric])

lemma Tactical_within_limit:
  assumes "within_limit limit s"
  shows "within_limit limit (snd (MatchFeaturesTacticalTimeout env team sid s))"
  using Tactical_used [of env team sid s] CountTactical_within_limit [OF assms, of team]
    within_limit_cong [of "snd (MatchFeaturesTacticalTimeout env team sid s)" s limit]
    within_limit_cong [of "snd (MatchFeaturesTacticalTimeout env team sid s)" "PauseStateCountUse team ''tactical'' s" limit]
    assms by argo

lemma ResetUsage_within_limit:
  "within_limit limit s \<Longrightarrow> 0 < limit \<Longrightarrow> within_limit limit (PauseStateResetUsage s)"
  by (simp add: within_limit_def ResetUsage_ok Used_ResetUsage)

lemma pause_apply_limit:
  assumes w: "within_limit limit s" and "0 < limit" and "limited limit e"
  shows "within_limit limit (pause_apply e s)"
proof (cases e)
  case (Pe_Unpause env team)
  then show ?thesis using w within_limit_cong [OF used_Unpause] by (simp add: pause_apply_def)
next
  case (Pe_OnPaused ty b tm now)
  then show ?thesis using w within_limit_cong [OF used_OnPaused] by (simp add: pause_apply_def)
next
  case Pe_OnUnpaused
  then show ?thesis using w within_limit_cong [OF used_OnUnpaused] by (simp add: pause_apply_def)
next
  case Pe_Reload
  have "used_ok s" using w by (simp add: within_limit_def)
  then show ?thesis
    using w within_limit_cong [OF used_reload, of s limit] by (simp add: Pe_Reload pause_apply_def)
qed (use assms in \<open>simp_all add: pause_apply_def Tech_within_limit Tactical_within_limit ResetUsage_within_limit\<close>)

interpretation tech_limit: machine pause_apply "\<lambda>e. 0 < limit \<and> limited limit e" "within_limit limit" for limit
  by unfold_locales (simp add: pause_apply_limit)

lemma within_limit_init: "0 < limit \<Longrightarrow> within_limit limit PauseState_init"
  using used_ok_init Used_ResetUsage [OF used_ok_init]
  by (simp add: within_limit_def PauseStateResetUsage_def PauseState_init_def)

text \<open>
  C9: no team gets more technical pauses on a map than the rule allows. Whatever mix of pause
  commands, pauses by others, unpauses, map starts and reloads runs under a positive limit, the
  counter of each team stays within it, and the next \<open>.tech\<close> is granted exactly when the match is
  loaded, live and not paused, the engine takes the command and the counter is below the limit.
\<close>

theorem tech_pauses_limited:
  assumes "0 < limit" and "list_all (limited limit) es" and "tech_pauses_per_team (env_rules env) = limit"
  shows "let s = fold pause_apply es PauseState_init
         in 0 \<le> PauseStateUsed team ''technical'' s \<and> PauseStateUsed team ''technical'' s \<le> limit \<and>
            (out_command (fst (MatchFeaturesTechPause env team sid s)) = Some ''mp_pause_match'' \<longleftrightarrow>
               env_ctx env \<and> env_live env \<and> \<not> snap_paused (PauseStateGet s) \<and> env_enqueue env \<and>
               PauseStateUsed team ''technical'' s < limit)"
proof -
  have "within_limit limit (fold pause_apply es PauseState_init)"
    using assms by (intro tech_limit.inv_run within_limit_init) (auto simp: list_all_iff)
  then show ?thesis
    using assms Used_nonneg
    by (simp add: Let_def within_limit_def TechPause_granted TechPauseAllowed_def PauseStateGet_def SnapshotLocked_def conj_commute)
qed

definition sample_env :: PauseEnv where
  "sample_env =
     \<lparr>env_ctx = True, env_team1_name = ''A'', env_team2_name = ''B'', env_cvars = [], env_roster = [],
      env_live = True, env_inFreeze = True, env_enqueue = True,
      env_rules = BuiltinDefaultRules\<lparr>tech_pauses_per_team := 1\<rparr>, env_now = 5, env_humans = [],
      env_botsConfirm = False, env_csSide = (\<lambda>_. 3)\<rparr>"

lemmas pause_eval = pause_apply_def MatchFeaturesTechPause_def MatchFeaturesUnpause_def confirm_bots_def
  both_required_def UnpauseSatisfied_def TeamNum_def sample_env_def BuiltinDefaultRules_def
  PauseState_init_def TechPauseAllowed_def TechPausesLeft_def usage_defs pause_defs

theorem tech_pauses_limited_witness:
  "let s = fold pause_apply [Pe_Tech sample_env Team1 7, Pe_OnUnpaused] PauseState_init
   in PauseStateUsed Team1 ''technical'' s = 1 \<and>
      out_command (fst (MatchFeaturesTechPause sample_env Team1 7 s)) \<noteq> Some ''mp_pause_match'' \<and>
      out_command (fst (MatchFeaturesTechPause sample_env Team2 7 s)) = Some ''mp_pause_match''"
proof -
  let ?es = "[Pe_Tech sample_env Team1 7, Pe_OnUnpaused]"
  have "list_all (limited 1) ?es" and lim: "tech_pauses_per_team (env_rules sample_env) = 1"
    by (simp_all add: sample_env_def)
  then show ?thesis
    using tech_pauses_limited [of 1 ?es sample_env Team1 7] tech_pauses_limited [of 1 ?es sample_env Team2 7]
    by (simp add: pause_eval)
qed

section \<open>Lemmas: both teams unpause\<close>

lemma Unpause_step:
  assumes "env_ctx env" and "env_enqueue env" and "\<not> env_botsConfirm env"
    and "g_paused s" and "g_type s \<noteq> ''tactical''" and "g_type s \<noteq> ''admin''"
  shows "snd (MatchFeaturesUnpause env team s) =
     (let s1 = snd (PauseStateRequestUnpause team s)
      in if UnpauseSatisfied (g_t1 s1) (g_t2 s1) (both_required (env_rules env) (g_type s)) (TeamNum (g_team s))
         then PauseStateOnUnpaused s1 else s1)"
  using assms by (simp add: MatchFeaturesUnpause_def confirm_bots_def pause_defs)

lemma Unpause_not_paused: "\<not> g_paused s \<Longrightarrow> snd (MatchFeaturesUnpause env team s) = s"
  by (simp add: MatchFeaturesUnpause_def Let_def PauseStateGet_def SnapshotLocked_def)

lemma Unpause_run_over:
  "\<not> g_paused s \<Longrightarrow> fold (\<lambda>team s. snd (MatchFeaturesUnpause env team s)) teams s = s"
  by (induction teams) (simp_all add: Unpause_not_paused)

text \<open>Who has to confirm before a pause ends.\<close>

definition confirmed :: "bool \<Rightarrow> int \<Rightarrow> bool \<Rightarrow> bool \<Rightarrow> bool" where
  "confirmed both pauser one two =
     (if both then one \<and> two else if pauser = 1 then one else if pauser = 2 then two else one \<or> two)"

lemma Unpause_run:
  assumes "env_ctx env" and "env_enqueue env" and "\<not> env_botsConfirm env"
    and "g_paused s" and "g_type s \<noteq> ''tactical''" and "g_type s \<noteq> ''admin''"
    and "\<not> UnpauseSatisfied (g_t1 s) (g_t2 s) (both_required (env_rules env) (g_type s)) (TeamNum (g_team s))"
  shows "g_paused (fold (\<lambda>team s. snd (MatchFeaturesUnpause env team s)) teams s) \<longleftrightarrow>
     \<not> UnpauseSatisfied (g_t1 s \<or> Team1 \<in> set teams) (g_t2 s \<or> Team2 \<in> set teams)
         (both_required (env_rules env) (g_type s)) (TeamNum (g_team s))"
  using assms
proof (induction teams arbitrary: s)
  case (Cons team teams)
  let ?s1 = "snd (PauseStateRequestUnpause team s)"
  let ?sat = "\<lambda>x y. UnpauseSatisfied x y (both_required (env_rules env) (g_type s)) (TeamNum (g_team s))"
  have f1: "g_paused ?s1" "g_type ?s1 = g_type s" "g_team ?s1 = g_team s"
    "g_t1 ?s1 = (g_t1 s \<or> team = Team1)" "g_t2 ?s1 = (g_t2 s \<or> team = Team2)"
    using Cons.prems by (auto simp: PauseStateRequestUnpause_def Let_def)
  have mono: "?sat x y \<Longrightarrow> x \<le> x' \<Longrightarrow> y \<le> y' \<Longrightarrow> ?sat x' y'" for x y x' y'
    by (auto simp: UnpauseSatisfied_def split: if_splits)
  show ?case
  proof (cases "?sat (g_t1 ?s1) (g_t2 ?s1)")
    case True
    with Cons.prems f1 have st: "snd (MatchFeaturesUnpause env team s) = PauseStateOnUnpaused ?s1"
      by (subst Unpause_step) (simp_all add: Let_def)
    have "\<not> g_paused (PauseStateOnUnpaused ?s1)" by (simp add: PauseStateOnUnpaused_def)
    then have "\<not> g_paused (fold (\<lambda>team s. snd (MatchFeaturesUnpause env team s)) (team # teams) s)"
      using st by (simp add: Unpause_run_over)
    moreover from True f1 have "?sat (g_t1 s \<or> Team1 \<in> set (team # teams)) (g_t2 s \<or> Team2 \<in> set (team # teams))"
      by (intro mono [OF True]) auto
    ultimately show ?thesis by blast
  next
    case False
    with Cons.prems f1 have st: "snd (MatchFeaturesUnpause env team s) = ?s1"
      by (subst Unpause_step) (simp_all add: Let_def)
    have "g_paused (fold (\<lambda>team s. snd (MatchFeaturesUnpause env team s)) teams ?s1) \<longleftrightarrow>
       \<not> ?sat (g_t1 ?s1 \<or> Team1 \<in> set teams) (g_t2 ?s1 \<or> Team2 \<in> set teams)"
      using Cons.IH [of ?s1] Cons.prems False f1 by simp
    then show ?thesis
      using f1(4,5) by (simp add: st disj_assoc eq_commute [of Team1] eq_commute [of Team2])
  qed
qed simp

text \<open>
  A pause that players can end stays until the right teams asked. After a pause that is neither
  tactical nor an admin's, with the engine taking commands and no bot team, a sequence of \<open>.unpause\<close>
  calls leaves the match unpaused exactly when both teams are among the callers, where both are
  needed (the rule, or a pause that belongs to nobody), else when the pausing team is.
\<close>

theorem unpause_needs_teams:
  assumes "env_ctx env" and "env_enqueue env" and "\<not> env_botsConfirm env"
    and "type \<notin> {[], ''tactical'', ''admin''}"
  shows "snap_paused (PauseStateGet (fold (\<lambda>t s. snd (MatchFeaturesUnpause env t s)) teams
             (PauseStateOnPaused type by team now s))) \<longleftrightarrow>
    (if both_required (env_rules env) type then \<not> {Team1, Team2} \<subseteq> set teams
     else if team = Team_Unknown then {Team1, Team2} \<inter> set teams = {} else team \<notin> set teams)"
proof -
  let ?s = "PauseStateOnPaused type by team now s"
  have s: "g_paused ?s" "g_type ?s = type" "g_team ?s = team" "\<not> g_t1 ?s" "\<not> g_t2 ?s"
    using assms(4) by (simp_all add: PauseStateOnPaused_def)
  have "g_paused (fold (\<lambda>t s. snd (MatchFeaturesUnpause env t s)) teams ?s) \<longleftrightarrow>
      \<not> UnpauseSatisfied (Team1 \<in> set teams) (Team2 \<in> set teams) (both_required (env_rules env) type) (TeamNum team)"
    using assms s Unpause_run [of env ?s teams] by (simp add: UnpauseSatisfied_def)
  then show ?thesis
    by (cases team) (auto simp: UnpauseSatisfied_def TeamNum_def PauseStateGet_def SnapshotLocked_def)
qed

theorem unpause_needs_teams_witness:
  "snap_paused (PauseStateGet (fold (\<lambda>t s. snd (MatchFeaturesUnpause sample_env t s)) [Team1, Team1]
      (PauseStateOnPaused ''technical'' ''7'' Team1 5 PauseState_init))) \<and>
   \<not> snap_paused (PauseStateGet (fold (\<lambda>t s. snd (MatchFeaturesUnpause sample_env t s)) [Team1, Team2]
      (PauseStateOnPaused ''technical'' ''7'' Team1 5 PauseState_init)))"
proof -
  have e: "env_ctx sample_env" "env_enqueue sample_env" "\<not> env_botsConfirm sample_env"
    "both_required (env_rules sample_env) ''technical''"
    by (simp_all add: sample_env_def both_required_def BuiltinDefaultRules_def)
  then show ?thesis
    using unpause_needs_teams [of sample_env "''technical''" "[Team1, Team1]" "''7''" Team1 5 PauseState_init]
      unpause_needs_teams [of sample_env "''technical''" "[Team1, Team2]" "''7''" Team1 5 PauseState_init]
    by simp
qed

end
