(* ===== verification/Match_End.thy ===== *)
theory Match_End
  imports Pause_State "HOL-Library.Multiset"
begin

text \<open>
  The end of a map and of a series: when a map is decided (\<open>DetermineMapWinnerIfComplete\<close>), how its
  result enters the series score (\<open>OnMatchRoundEnded\<close>, \<open>FinishMapLocked\<close>, \<open>ForfeitCurrentMap\<close> of
  plugins/match/readyup/modes.cpp), the delays and the series rules of match_end_logic.cpp, and the
  timers that lead to the next map or unload the match (match_end.cpp). What the flow hands to other
  parts (server commands, match-flow events, chat lines, the demo stop) is a list of outputs; the result
  cards on the screen and the log lines are left out. Whether playout is on, the damage totals, the demo
  settings and the cvars to restore come in as arguments.
\<close>

section \<open>When a map is decided (modes.cpp)\<close>

datatype Winner = Win_Team1 | Win_Team2 | Win_None

text \<open>What the functions below read of \<open>WebhookMatchContext\<close>.\<close>

record MatchContext =
  ctx_maxRounds :: int
  ctx_overtime_enabled :: bool
  ctx_overtimeSegments :: int
  ctx_maxOvertimes :: int
  ctx_damageTiebreakEnabled :: bool
  ctx_suddenDeathOnDamageTie :: bool
  ctx_playout :: bool
  ctx_num_maps :: int
  ctx_maplist :: "string list"
  ctx_clinch_series :: bool

definition winnerByDamage :: "MatchContext \<Rightarrow> int \<times> int \<Rightarrow> Winner option" where
  "winnerByDamage ctx dmg =
     (if \<not> ctx_damageTiebreakEnabled ctx then None
      else if fst dmg > snd dmg then Some Win_Team1
      else if snd dmg > fst dmg then Some Win_Team2 else None)"

text \<open>A tie with no more rounds: damage, else sudden death (undecided), else a draw.\<close>

definition resolve_tie :: "MatchContext \<Rightarrow> int \<times> int \<Rightarrow> Winner option" where
  "resolve_tie ctx dmg =
     (case winnerByDamage ctx dmg of
        Some w \<Rightarrow> Some w
      | None \<Rightarrow> if ctx_damageTiebreakEnabled ctx \<and> ctx_suddenDeathOnDamageTie ctx then None else Some Win_None)"

definition leader :: "int \<Rightarrow> int \<Rightarrow> Winner" where
  "leader s1 s2 = (if s1 > s2 then Win_Team1 else Win_Team2)"

definition DetermineMapWinnerIfComplete :: "MatchContext \<Rightarrow> int \<times> int \<Rightarrow> int \<Rightarrow> int \<Rightarrow> Winner option" where
  "DetermineMapWinnerIfComplete ctx dmg score1 score2 =
     (let s1 = max 0 score1; s2 = max 0 score2;
          maxRounds = max 1 (ctx_maxRounds ctx);
          winTargetReg = cdiv maxRounds 2 + 1;
          sum = s1 + s2
      in if ctx_playout ctx \<and>
            PlayoutRoundsLeft maxRounds (ctx_overtime_enabled ctx) (ctx_overtimeSegments ctx)
              (ctx_maxOvertimes ctx) s1 s2
         then None
         else if sum \<le> maxRounds \<and> s1 \<ge> winTargetReg \<and> s1 \<noteq> s2 then Some Win_Team1
         else if sum \<le> maxRounds \<and> s2 \<ge> winTargetReg \<and> s1 \<noteq> s2 then Some Win_Team2
         else if sum < maxRounds then None
         else if \<not> ctx_overtime_enabled ctx then
           (if s1 \<noteq> s2 then Some (leader s1 s2) else resolve_tie ctx dmg)
         else
           (let seg = max 1 (ctx_overtimeSegments ctx);
                roundsPastReg = max 0 (sum - maxRounds);
                blockSize = 2 * seg
            in if ctx_maxOvertimes ctx \<ge> 0 \<and> roundsPastReg \<ge> ctx_maxOvertimes ctx * blockSize then
                 (if s1 \<noteq> s2 then Some (leader s1 s2) else resolve_tie ctx dmg)
               else if s1 \<noteq> s2 then
                 (let blockIndex = (if roundsPastReg > 0 then cdiv (roundsPastReg - 1) blockSize else 0);
                      tieStart = cdiv maxRounds 2 + blockIndex * seg;
                      winTargetOt = tieStart + seg + 1
                  in if s1 \<ge> winTargetOt then Some Win_Team1
                     else if s2 \<ge> winTargetOt then Some Win_Team2 else None)
               else None))"

section \<open>Series rules and delays (match_end_logic.cpp)\<close>

record MapEndPlan =
  plan_restartDelay :: int
  plan_tvFlushDelay :: int
  plan_kickDelay :: int

abbreviation kFlushMargin :: int where "kFlushMargin \<equiv> 15"
abbreviation kTvDelayMargin :: int where "kTvDelayMargin \<equiv> 10"
abbreviation kNoDemoRestartDelay :: int where "kNoDemoRestartDelay \<equiv> 10"

definition ComputeMapEndPlan :: "bool \<Rightarrow> bool \<Rightarrow> int \<Rightarrow> int \<Rightarrow> int \<Rightarrow> int \<Rightarrow> MapEndPlan" where
  "ComputeMapEndPlan demoRecording hasUploadUrl tvDelay0 kickExtraNoDemo kickExtraDemoNoUpload kickExtraDemoUpload =
     (let tvDelay = max 0 tvDelay0
      in if \<not> demoRecording then
           \<lparr>plan_restartDelay = kNoDemoRestartDelay, plan_tvFlushDelay = 0,
            plan_kickDelay = (kNoDemoRestartDelay - 1) + max 0 kickExtraNoDemo\<rparr>
         else
           (let flush = tvDelay + kFlushMargin;
                restart = (if tvDelay > 0 then flush + kTvDelayMargin else flush)
            in \<lparr>plan_restartDelay = restart, plan_tvFlushDelay = flush,
                plan_kickDelay = (restart - 1) + max 0 (if hasUploadUrl then kickExtraDemoUpload else kickExtraDemoNoUpload)\<rparr>))"

definition RemainingMaps :: "int \<Rightarrow> int \<Rightarrow> int \<Rightarrow> int" where
  "RemainingMaps numMaps maplistCount mapNumber =
     (let total = (if maplistCount > 0 then min numMaps maplistCount else numMaps)
      in max 0 (total - mapNumber))"

definition IsSeriesOver :: "int \<Rightarrow> int \<Rightarrow> int \<Rightarrow> int \<Rightarrow> bool \<Rightarrow> bool" where
  "IsSeriesOver numMaps remainingMaps team1SeriesScore team2SeriesScore canClinch =
     (if remainingMaps \<le> 0 then True
      else if \<not> canClinch then False
      else
        (let mapsToWin = cdiv numMaps 2 + 1
         in team1SeriesScore \<ge> mapsToWin \<or> team2SeriesScore \<ge> mapsToWin))"

section \<open>A finished map (modes.cpp)\<close>

datatype ReadyUpMode =
  Mode_Idle | Mode_Practice | Mode_MatchWarmup | Mode_MatchKnife | Mode_MatchLive | Mode_Postgame | Mode_ScrimWarmup
| Mode_External

datatype KnifePhase = Knife_None | Knife_Starting | Knife_Running | Knife_Picking

text \<open>The knife fields of \<open>State\<close>; a clear time stamp is 0.\<close>

record KnifeState =
  kn_mapNumber :: int
  kn_rulesApplied :: bool
  kn_startedSent :: bool
  kn_endedSent :: bool
  kn_winner :: WebhookTeam
  kn_awaitingPick :: bool
  kn_pickDeadline :: seconds
  kn_phase :: KnifePhase
  kn_triggeredAt :: seconds
  kn_winnerCs :: int
  kn_reasonShort :: string
  kn_reminderSent :: bool
  kn_logdetailSet :: bool

definition knife_clear :: "int \<Rightarrow> KnifeState" where
  "knife_clear mapNumber =
     \<lparr>kn_mapNumber = mapNumber, kn_rulesApplied = False, kn_startedSent = False, kn_endedSent = False,
      kn_winner = Team_Unknown, kn_awaitingPick = False, kn_pickDeadline = 0, kn_phase = Knife_None,
      kn_triggeredAt = 0, kn_winnerCs = 0, kn_reasonShort = [], kn_reminderSent = False, kn_logdetailSet = False\<rparr>"

text \<open>The commands for the server, and the state (the knife tracker's own reset is a call to it).\<close>

definition ResetKnifeState :: "int \<Rightarrow> KnifeState \<Rightarrow> string list \<times> KnifeState" where
  "ResetKnifeState mapNumber k =
     (if kn_logdetailSet k then [''mp_logdetail 0''] else [], knife_clear mapNumber)"

text \<open>The fields of \<open>State\<close> a finished map, the next warmup and the return to idle touch.\<close>

record SeriesState =
  st_mode :: ReadyUpMode
  st_seriesWinsTeam1 :: int
  st_seriesWinsTeam2 :: int
  st_mapResultEmittedForMapNumber :: int
  st_ready :: "u64 \<rightharpoonup> bool"
  st_lastUi :: "u64 \<rightharpoonup> seconds"
  st_idleCfgExecuted :: bool
  st_warmupRulesApplied :: bool
  st_startTriggered :: bool
  st_demoRecording :: bool
  st_practiceRulesApplied :: bool
  st_practiceResetPending :: bool
  st_lifecycleMapNumber :: int
  st_warmupEndedSent :: bool
  st_goingLiveSent :: bool
  st_recoveryGate :: bool
  st_knife :: KnifeState

record MapEndInput =
  in_mapNumber :: int
  in_mapName :: string
  in_winner :: Winner
  in_team1Score :: int
  in_team2Score :: int
  in_team1SeriesScore :: int
  in_team2SeriesScore :: int
  in_seriesOver :: bool
  in_nextMap :: string
  in_seriesWinner :: "Winner option"
  in_decidedByDamage :: bool
  in_damage :: "int \<times> int"

definition FinishMapLocked ::
  "MatchContext \<Rightarrow> int \<times> int \<Rightarrow> int \<Rightarrow> string \<Rightarrow> int \<Rightarrow> int \<Rightarrow> Winner \<Rightarrow> bool \<Rightarrow> SeriesState \<Rightarrow>
     MapEndInput \<times> SeriesState" where
  "FinishMapLocked ctx dmg map_number map_name team1_score team2_score winner forfeit st =
     (let w1 = st_seriesWinsTeam1 st + (if winner = Win_Team1 then 1 else 0);
          w2 = st_seriesWinsTeam2 st + (if winner = Win_Team2 then 1 else 0);
          count = int (length (ctx_maplist ctx));
          totalMaps = (if ctx_num_maps ctx > 0 then ctx_num_maps ctx else count);
          remaining = RemainingMaps totalMaps count map_number;
          over1 = (forfeit \<or> IsSeriesOver totalMaps remaining w1 w2 (ctx_clinch_series ctx));
          next_map = (if over1 then []
                      else if nat map_number < length (ctx_maplist ctx) then ctx_maplist ctx ! nat map_number else []);
          over = (over1 \<or> next_map = []);
          t1 = max 0 team1_score; t2 = max 0 team2_score;
          won = (winner = Win_Team1 \<or> winner = Win_Team2);
          byDamage = (\<not> forfeit \<and> won \<and> t1 = t2)
      in (\<lparr>in_mapNumber = map_number, in_mapName = map_name, in_winner = winner, in_team1Score = t1, in_team2Score = t2,
           in_team1SeriesScore = w1, in_team2SeriesScore = w2, in_seriesOver = over, in_nextMap = next_map,
           in_seriesWinner = (if forfeit then Some winner else None), in_decidedByDamage = byDamage,
           in_damage = (if byDamage then dmg else (0, 0))\<rparr>,
          st\<lparr>st_mode := Mode_Postgame, st_seriesWinsTeam1 := w1, st_seriesWinsTeam2 := w2,
             st_mapResultEmittedForMapNumber := map_number, st_startTriggered := False,
             st_warmupRulesApplied := False, st_demoRecording := False\<rparr>))"

text \<open>The map's name: the given one, else the map list's entry.\<close>

definition map_name_for :: "MatchContext \<Rightarrow> string \<Rightarrow> int \<Rightarrow> string" where
  "map_name_for ctx given map_number =
     (if given = [] \<and> 1 \<le> map_number \<and> map_number \<le> int (length (ctx_maplist ctx))
      then ctx_maplist ctx ! nat (map_number - 1) else given)"

definition OnMatchRoundEnded ::
  "MatchContext option \<Rightarrow> int \<times> int \<Rightarrow> int \<Rightarrow> int \<Rightarrow> int \<Rightarrow> string \<Rightarrow> SeriesState \<Rightarrow>
     MapEndInput option \<times> SeriesState" where
  "OnMatchRoundEnded ctxOpt dmg map_number0 team1_score team2_score map_name st =
     (case ctxOpt of
        None \<Rightarrow> (None, st)
      | Some ctx \<Rightarrow>
          (let map_number = (if map_number0 \<le> 0 then 1 else map_number0)
           in if st_mapResultEmittedForMapNumber st = map_number then (None, st)
              else
                (case DetermineMapWinnerIfComplete ctx dmg team1_score team2_score of
                   None \<Rightarrow> (None, st)
                 | Some winner \<Rightarrow>
                     map_prod Some id
                       (FinishMapLocked ctx dmg map_number (map_name_for ctx map_name map_number)
                          team1_score team2_score winner False st))))"

text \<open>What \<open>ForfeitCurrentMap\<close> reads of \<open>MatchStateGet()\<close>.\<close>

record MatchScore =
  ms_map_number :: int
  ms_current_map :: string
  ms_team1_score :: int
  ms_team2_score :: int

definition ForfeitCurrentMap ::
  "MatchContext option \<Rightarrow> int \<times> int \<Rightarrow> MatchScore \<Rightarrow> WebhookTeam \<Rightarrow> PauseState \<Rightarrow> SeriesState \<Rightarrow>
     MapEndInput option \<times> PauseState \<times> SeriesState" where
  "ForfeitCurrentMap ctxOpt dmg ms loser pause st =
     (case ctxOpt of
        None \<Rightarrow> (None, pause, st)
      | Some ctx \<Rightarrow>
          (let mapNumber = (if ms_map_number ms \<le> 0 then 1 else ms_map_number ms)
           in if loser \<noteq> Team1 \<and> loser \<noteq> Team2 then (None, pause, st)
              else if st_mode st \<noteq> Mode_MatchLive then (None, pause, st)
              else if st_mapResultEmittedForMapNumber st = mapNumber then (None, pause, st)
              else
                (let winner = (if loser = Team1 then Win_Team2 else Win_Team1);
                     pause1 = (if snap_paused (PauseStateGet pause) then PauseStateOnUnpaused pause else pause);
                     (inp, st1) = FinishMapLocked ctx dmg mapNumber (map_name_for ctx (ms_current_map ms) mapNumber)
                                    (ms_team1_score ms) (ms_team2_score ms) winner True st
                 in (Some inp, pause1, st1))))"

definition ModesBeginNextMapWarmup :: "PauseState \<times> SeriesState \<Rightarrow> PauseState \<times> SeriesState" where
  "ModesBeginNextMapWarmup = (\<lambda>(pause, st).
     if st_mode st \<noteq> Mode_Postgame then (pause, st)
     else (PauseStateResetUsage pause,
           st\<lparr>st_mode := Mode_MatchWarmup, st_idleCfgExecuted := False, st_ready := Map.empty, st_lastUi := Map.empty,
              st_warmupRulesApplied := False, st_startTriggered := False, st_lifecycleMapNumber := 0,
              st_warmupEndedSent := False, st_goingLiveSent := False\<rparr>))"

text \<open>
  The commands of \<open>ResetServerRulesAndRestartLocked\<close>; \<open>restore\<close> are the cvar snapshot's restore
  commands.
\<close>

definition ResetServerRulesCommands :: "bool \<Rightarrow> string list \<Rightarrow> string list" where
  "ResetServerRulesCommands resetCvars restore =
     [''mp_respawn_on_death_ct 0'', ''mp_respawn_on_death_t 0'', ''mp_ignore_round_win_conditions 0'',
      ''mp_buy_anywhere 0'', ''mp_respawn_immunitytime 0'', ''mp_buy_during_immunity 0'', ''mp_buytime 20'',
      ''sv_infinite_ammo 0'', ''sv_cheats 0'',
      ''mp_teamname_1 '' @ [quote_char, quote_char], ''mp_teamname_2 '' @ [quote_char, quote_char],
      ''mp_teamflag_1 '' @ [quote_char, quote_char], ''mp_teamflag_2 '' @ [quote_char, quote_char]]
     @ (if resetCvars then restore else [])
     @ [''mp_restartgame 1'']"

definition ResetToIdleAfterSeriesLocked :: "bool \<Rightarrow> string list \<Rightarrow> SeriesState \<Rightarrow> string list \<times> SeriesState" where
  "ResetToIdleAfterSeriesLocked resetCvars restore st =
     (let cmds = (if resetCvars then ResetServerRulesCommands resetCvars restore
                  else [''mp_teamname_1 '' @ [quote_char, quote_char], ''mp_teamname_2 '' @ [quote_char, quote_char],
                        ''mp_teamflag_1 '' @ [quote_char, quote_char], ''mp_teamflag_2 '' @ [quote_char, quote_char],
                        ''mp_restartgame 1'']);
          (knifeCmds, knife) = ResetKnifeState 0 (st_knife st)
      in (cmds @ knifeCmds,
          st\<lparr>st_mode := Mode_Idle, st_idleCfgExecuted := False, st_ready := Map.empty, st_lastUi := Map.empty,
             st_warmupRulesApplied := False, st_startTriggered := False, st_practiceRulesApplied := False,
             st_practiceResetPending := False, st_lifecycleMapNumber := 0, st_warmupEndedSent := False,
             st_goingLiveSent := False, st_mapResultEmittedForMapNumber := 0, st_seriesWinsTeam1 := 0,
             st_seriesWinsTeam2 := 0, st_demoRecording := False, st_knife := knife, st_recoveryGate := False\<rparr>))"

section \<open>After the map (match_end.cpp)\<close>

datatype FlowTask =
  Task_NextMap string
| Task_Reset
| Task_KickThenReset "string"

record FlowTimer =
  tm_due :: seconds
  tm_task :: FlowTask
  tm_gen :: "32 word"

record FlowState =
  fl_generation :: "32 word"
  fl_pending :: int
  fl_plan :: "(FlowTask \<times> seconds) option"
  fl_timers :: "FlowTimer list"

text \<open>\<open>ScheduleNextMap\<close>, \<open>ScheduleReset\<close> and \<open>ScheduleKickThenReset\<close>: note the plan, start a timer.\<close>

definition Schedule :: "seconds \<Rightarrow> seconds \<Rightarrow> FlowTask \<Rightarrow> 32 word \<Rightarrow> FlowState \<Rightarrow> FlowState" where
  "Schedule now delay task gen f =
     f\<lparr>fl_pending := fl_pending f + 1, fl_plan := Some (task, now + delay),
       fl_timers := fl_timers f @ [\<lparr>tm_due = now + delay, tm_task = task, tm_gen = gen\<rparr>]\<rparr>"

datatype FlowAction = Act_LoadMap string | Act_Kick string | Act_ServerReset | Act_Command string

text \<open>
  A timer fires (the game thread runs its callback): the actions it takes, and the flow, pause and series
  state after it. A timer of an older generation only counts itself off. \<open>resetCvars\<close> and \<open>restore\<close> are
  what the reset to idle reads.
\<close>

definition FireTimer ::
  "bool \<Rightarrow> string list \<Rightarrow> seconds \<Rightarrow> FlowTimer \<Rightarrow> FlowState \<times> PauseState \<times> SeriesState \<Rightarrow>
     FlowAction list \<times> FlowState \<times> PauseState \<times> SeriesState" where
  "FireTimer resetCvars restore now tm = (\<lambda>(f0, pause, st).
     let f = f0\<lparr>fl_pending := fl_pending f0 - 1, fl_timers := remove1 tm (fl_timers f0)\<rparr>
     in if fl_generation f \<noteq> tm_gen tm then ([], f, pause, st)
        else
          (case tm_task tm of
             Task_NextMap next_map \<Rightarrow>
               (if next_map \<noteq> [] then [Act_LoadMap next_map] else [], f\<lparr>fl_plan := None\<rparr>,
                ModesBeginNextMapWarmup (pause, st))
           | Task_Reset \<Rightarrow>
               (let (cmds, st1) = ResetToIdleAfterSeriesLocked resetCvars restore st
                in (Act_ServerReset # map Act_Command cmds, f\<lparr>fl_plan := None\<rparr>, pause, st1))
           | Task_KickThenReset reason \<Rightarrow>
               ([Act_Kick reason], Schedule now 2 Task_Reset (tm_gen tm) f, pause, st)))"

definition MatchEndCancelPending :: "FlowState \<Rightarrow> FlowState" where
  "MatchEndCancelPending f = f\<lparr>fl_generation := fl_generation f + 1, fl_plan := None\<rparr>"

definition SeriesWinner :: "MapEndInput \<Rightarrow> Winner" where
  "SeriesWinner inp =
     (case in_seriesWinner inp of
        Some w \<Rightarrow> w
      | None \<Rightarrow>
          if in_team1SeriesScore inp > in_team2SeriesScore inp then Win_Team1
          else if in_team2SeriesScore inp > in_team1SeriesScore inp then Win_Team2 else Win_None)"

definition winner_name :: "string \<Rightarrow> string \<Rightarrow> Winner \<Rightarrow> string" where
  "winner_name team1 team2 w = (case w of Win_Team1 \<Rightarrow> team1 | Win_Team2 \<Rightarrow> team2 | Win_None \<Rightarrow> [])"

text \<open>
  The seconds until the next map is loaded, and until the recording is stopped
  (\<open>demo::StopAfterDelayAndUpload\<close>).
\<close>

definition next_map_delay :: "MapEndPlan \<Rightarrow> int" where
  "next_map_delay plan = max 1 (plan_restartDelay plan - 1)"

definition demo_stop_delay :: "MapEndPlan \<Rightarrow> seconds" where
  "demo_stop_delay plan = max 0 (of_int (plan_tvFlushDelay plan) - 1 / 2)"

text \<open>What \<open>MatchEndOnMapComplete\<close> reads of the recorder, the settings and the match.\<close>

record FlowEnv =
  fe_recording :: bool
  fe_hasUpload :: bool
  fe_tvDelay :: int
  fe_kickNoDemo :: int
  fe_kickDemoNoUpload :: int
  fe_kickDemoUpload :: int
  fe_team1Name :: string
  fe_team2Name :: string
  fe_scrim :: bool

datatype FlowOutput =
  Out_MapResult MapEndInput
| Out_Command string
| Out_DemoStop seconds int int int
| Out_SeriesEnd int Winner int
| Out_SeriesEndWebhook int int Winner int
| Out_Chat Msg

definition series_end_chat :: "string \<Rightarrow> MapEndInput \<Rightarrow> Msg" where
  "series_end_chat winnerName inp =
     (if winnerName \<noteq> [] \<and> in_seriesWinner inp \<noteq> None
      then \<lparr>msg_key = ''end.series_forfeit'', msg_args = [(''team'', winnerName)]\<rparr>
      else if winnerName \<noteq> []
      then \<lparr>msg_key = ''end.series_won'',
            msg_args = [(''team'', winnerName),
                        (''score'', to_string (max (in_team1SeriesScore inp) (in_team2SeriesScore inp)) @ ''-'' @
                                    to_string (min (in_team1SeriesScore inp) (in_team2SeriesScore inp)))]\<rparr>
      else \<lparr>msg_key = ''end.series_draw'', msg_args = []\<rparr>)"

text \<open>The flow after a map: the result goes out, and the plan's task is scheduled on the current generation.\<close>

definition MatchEndOnMapComplete ::
  "FlowEnv \<Rightarrow> seconds \<Rightarrow> MapEndInput \<Rightarrow> FlowState \<Rightarrow> MapEndPlan \<times> FlowOutput list \<times> FlowState" where
  "MatchEndOnMapComplete env now inp f =
     (let plan = ComputeMapEndPlan (fe_recording env) (fe_hasUpload env) (fe_tvDelay env) (fe_kickNoDemo env)
                   (fe_kickDemoNoUpload env) (fe_kickDemoUpload env);
          gen = fl_generation f;
          shortDelay = next_map_delay plan;
          outs = [Out_MapResult inp, Out_Command (''mp_match_restart_delay '' @ to_string (plan_restartDelay plan + 1))]
                 @ (if fe_recording env
                    then [Out_DemoStop (demo_stop_delay plan) (in_team1Score inp + in_team2Score inp)
                            (in_team1Score inp) (in_team2Score inp)]
                    else [])
      in if \<not> in_seriesOver inp
         then (plan, outs, Schedule now (of_int shortDelay) (Task_NextMap (in_nextMap inp)) gen f)
         else
           (let winner = SeriesWinner inp;
                winnerName = winner_name (fe_team1Name env) (fe_team2Name env) winner;
                resetIn = (if fe_scrim env then shortDelay else plan_kickDelay plan);
                outs1 = outs @ [Out_SeriesEnd (in_mapNumber inp) winner resetIn,
                                Out_SeriesEndWebhook (in_team1SeriesScore inp) (in_team2SeriesScore inp) winner resetIn,
                                Out_Chat (series_end_chat winnerName inp)]
            in if fe_scrim env then (plan, outs1, Schedule now (of_int resetIn) Task_Reset gen f)
               else
                 (plan,
                  outs1 @ [Out_Chat \<lparr>msg_key = ''end.next_match'', msg_args = []\<rparr>,
                           Out_Chat \<lparr>msg_key = ''end.disconnect_in'', msg_args = [(''seconds'', to_string resetIn)]\<rparr>],
                  Schedule now (of_int resetIn)
                    (Task_KickThenReset (if winnerName = [] then ''Series over. Thanks for playing!''
                                         else winnerName @ '' won the match'')) gen f)))"

section \<open>Lemmas: when a map is decided\<close>

text \<open>
  The round after which the current part of a map ends: regulation, or the overtime block the last
  round belongs to.
\<close>

definition segment_end :: "int \<Rightarrow> int \<Rightarrow> int \<Rightarrow> int" where
  "segment_end maxRounds seg played =
     (if played \<le> maxRounds then maxRounds
      else maxRounds + ((played - maxRounds - 1) div (2 * seg) + 1) * (2 * seg))"

lemma segment_end_ge:
  assumes "0 < seg"
  shows "played \<le> segment_end maxRounds seg played"
proof -
  have "p < (p div (2 * seg) + 1) * (2 * seg)" for p :: int
  proof -
    have "p = p div (2 * seg) * (2 * seg) + p mod (2 * seg)" by (simp only: div_mult_mod_eq)
    moreover have "p mod (2 * seg) < 2 * seg" using assms by simp
    ultimately show ?thesis by (simp add: distrib_right)
  qed
  from this [of "played - maxRounds - 1"] show ?thesis by (simp add: segment_end_def)
qed

text \<open>The plain case of a map: an even number of rounds, overtime on and its cap not reached.\<close>

definition in_play :: "MatchContext \<Rightarrow> int \<Rightarrow> bool" where
  "in_play ctx played \<longleftrightarrow>
     2 \<le> ctx_maxRounds ctx \<and> even (ctx_maxRounds ctx) \<and> 1 \<le> ctx_overtimeSegments ctx \<and>
     ctx_overtime_enabled ctx \<and>
     (ctx_maxOvertimes ctx < 0 \<or>
      max 0 (played - ctx_maxRounds ctx) < ctx_maxOvertimes ctx * (2 * ctx_overtimeSegments ctx))"

lemma decided_in_play:
  assumes "in_play ctx (s1 + s2)" and "0 \<le> s1" and "0 \<le> s2" and "\<not> ctx_playout ctx"
  defines "e \<equiv> segment_end (ctx_maxRounds ctx) (ctx_overtimeSegments ctx) (s1 + s2)"
  shows "DetermineMapWinnerIfComplete ctx dmg s1 s2 =
     (if e < 2 * s1 then Some Win_Team1 else if e < 2 * s2 then Some Win_Team2 else None)"
proof -
  let ?m = "ctx_maxRounds ctx" and ?g = "ctx_overtimeSegments ctx"
  obtain h where h: "?m = 2 * h" using assms(1) by (auto simp: in_play_def)
  from assms h have h1: "1 \<le> h" and g1: "1 \<le> ?g" by (simp_all add: in_play_def)
  have mx: "max 0 s1 = s1" "max 0 s2 = s2" "max 1 ?m = ?m" "cdiv ?m 2 = h" "max 1 ?g = ?g"
    using assms h h1 g1 by simp_all
  note D = DetermineMapWinnerIfComplete_def [of ctx dmg s1 s2, unfolded Let_def mx]
  show ?thesis
  proof (cases "s1 + s2 \<le> ?m")
    case True
    then have e: "e = 2 * h" by (simp add: e_def segment_end_def h)
    have cap: "\<not> (ctx_maxOvertimes ctx \<ge> 0 \<and> max 0 (s1 + s2 - ?m) \<ge> ctx_maxOvertimes ctx * (2 * ?g))"
      using assms(1) by (auto simp: in_play_def)
    have past: "max 0 (s1 + s2 - ?m) = 0" using True by simp
    show ?thesis
      using True h assms(1,4) g1 cap past unfolding D e
      by (auto simp: in_play_def leader_def)
  next
    case False
    let ?p = "s1 + s2 - ?m"
    have past: "max 0 ?p = ?p" "0 < ?p" using False by simp_all
    have bi: "cdiv (?p - 1) (2 * ?g) = (?p - 1) div (2 * ?g)" using False g1 by simp
    have e: "e = 2 * (h + ((?p - 1) div (2 * ?g) * ?g + ?g))"
      using False h by (simp add: e_def segment_end_def algebra_simps)
    have cap: "\<not> (ctx_maxOvertimes ctx \<ge> 0 \<and> ?p \<ge> ctx_maxOvertimes ctx * (2 * ?g))"
      using assms(1) past by (auto simp: in_play_def)
    have ge: "s1 + s2 \<le> e" unfolding e_def using g1 by (intro segment_end_ge) simp
    show ?thesis
    proof (cases "s1 = s2")
      case True
      with ge have "\<not> e < 2 * s1" "\<not> e < 2 * s2" by simp_all
      with True False assms(1,4) cap show ?thesis unfolding D past(1) by (auto simp: in_play_def)
    next
      case ne: False
      let ?t = "h + (?p - 1) div (2 * ?g) * ?g + ?g + 1"
      obtain kg where kg: "kg = (?p - 1) div (2 * ?g) * ?g" by simp
      have t: "e < 2 * x \<longleftrightarrow> ?t \<le> x" for x unfolding e kg [symmetric] by arith
      show ?thesis
        using ne False assms(1,4) past(2) unfolding D past(1) bi t if_not_P [OF cap] by (simp add: in_play_def)
    qed
  qed
qed



definition sample_match :: MatchContext where
  "sample_match =
     \<lparr>ctx_maxRounds = 24, ctx_overtime_enabled = True, ctx_overtimeSegments = 3, ctx_maxOvertimes = -1,
      ctx_damageTiebreakEnabled = False, ctx_suddenDeathOnDamageTie = False, ctx_playout = False,
      ctx_num_maps = 3, ctx_maplist = [''de_mirage'', ''de_nuke'', ''de_inferno''], ctx_clinch_series = True\<rparr>"


lemma overtime_target_leads:
  fixes s1 s2 m g :: int
  assumes "0 < g" and "m \<le> s1 + s2"
    and "m div 2 + (if 0 < s1 + s2 - m then (s1 + s2 - m - 1) div (2 * g) else 0) * g + g + 1 \<le> s1"
  shows "s2 < s1"
proof -
  define k where "k = (if 0 < s1 + s2 - m then (s1 + s2 - m - 1) div (2 * g) else 0)"
  define c where "c = k * g + g"
  have "s1 + s2 \<le> m + (k + 1) * (2 * g)"
    using segment_end_ge [OF assms(1), of "s1 + s2" m] assms(1,2) by (auto simp: k_def segment_end_def split: if_splits)
  then have "s1 + s2 \<le> m + 2 * c" by (simp add: c_def algebra_simps)
  moreover have "m div 2 + c + 1 \<le> s1" using assms(3) unfolding k_def [symmetric] by (simp add: c_def)
  ultimately show ?thesis by linarith
qed

lemma resolve_tie_cases:
  "(resolve_tie ctx dmg = Some Win_Team1 \<longleftrightarrow> ctx_damageTiebreakEnabled ctx \<and> snd dmg < fst dmg) \<and>
   (resolve_tie ctx dmg = Some Win_Team2 \<longleftrightarrow> ctx_damageTiebreakEnabled ctx \<and> fst dmg < snd dmg) \<and>
   (resolve_tie ctx dmg = Some Win_None \<longleftrightarrow>
      (ctx_damageTiebreakEnabled ctx \<longrightarrow> fst dmg = snd dmg \<and> \<not> ctx_suddenDeathOnDamageTie ctx))"
  by (auto simp: resolve_tie_def winnerByDamage_def)

text \<open>The ways \<open>DetermineMapWinnerIfComplete\<close> decides a map.\<close>

lemma decided_cases:
  assumes "DetermineMapWinnerIfComplete ctx dmg x1 x2 = Some w"
  defines "s1 \<equiv> max 0 x1" and "s2 \<equiv> max 0 x2" and "m \<equiv> max 1 (ctx_maxRounds ctx)"
  shows "(w = Win_Team1 \<and> s2 < s1) \<or> (w = Win_Team2 \<and> s1 < s2) \<or>
         (s1 = s2 \<and> m \<le> s1 + s2 \<and> resolve_tie ctx dmg = Some w)"
proof -
  let ?g = "max 1 (ctx_overtimeSegments ctx)" and ?p = "max 0 (s1 + s2 - m)"
  let ?b = "if ?p > 0 then cdiv (?p - 1) (2 * ?g) else 0"
  let ?t = "cdiv m 2 + ?b * ?g + ?g + 1"
  have m: "1 \<le> m" and g: "0 < ?g" by (simp_all add: m_def)
  have t: "?t \<le> s \<Longrightarrow> s + s' = s1 + s2 \<Longrightarrow> m \<le> s + s' \<Longrightarrow> s' < s" for s s'
    using m g by (intro overtime_target_leads [OF g, of m]) (auto split: if_splits)
  note D = assms(1) [unfolded DetermineMapWinnerIfComplete_def Let_def, folded s1_def s2_def m_def]
  have "(s1 + s2 \<le> m \<and> s1 \<ge> cdiv m 2 + 1 \<and> w = Win_Team1) \<or> (s1 + s2 \<le> m \<and> s2 \<ge> cdiv m 2 + 1 \<and> w = Win_Team2) \<or>
    (s1 \<noteq> s2 \<and> w = leader s1 s2) \<or> (s1 = s2 \<and> m \<le> s1 + s2 \<and> resolve_tie ctx dmg = Some w) \<or>
    (m \<le> s1 + s2 \<and> ?t \<le> s1 \<and> w = Win_Team1) \<or> (m \<le> s1 + s2 \<and> ?t \<le> s2 \<and> w = Win_Team2)"
    using D unfolding not_less [symmetric] by (simp only: split: if_split_asm) auto
  then show ?thesis
    using m t [of s1 s2] t [of s2 s1] by (elim disjE) (auto simp: leader_def)
qed

text \<open>
  Who wins a decided map. Under every setting, the winner leads on rounds, or the score is tied
  and the damage tiebreak is on and its team did more damage; a draw is declared only on a tied score
  that the tiebreak does not separate and that sudden death does not continue.
\<close>

theorem map_winner_leads:
  "(DetermineMapWinnerIfComplete ctx dmg s1 s2 = Some Win_Team1 \<longrightarrow>
      max 0 s2 < max 0 s1 \<or> (max 0 s1 = max 0 s2 \<and> ctx_damageTiebreakEnabled ctx \<and> snd dmg < fst dmg)) \<and>
   (DetermineMapWinnerIfComplete ctx dmg s1 s2 = Some Win_Team2 \<longrightarrow>
      max 0 s1 < max 0 s2 \<or> (max 0 s1 = max 0 s2 \<and> ctx_damageTiebreakEnabled ctx \<and> fst dmg < snd dmg)) \<and>
   (DetermineMapWinnerIfComplete ctx dmg s1 s2 = Some Win_None \<longrightarrow>
      max 0 s1 = max 0 s2 \<and> ctx_maxRounds ctx \<le> max 0 s1 + max 0 s2 \<and>
      (ctx_damageTiebreakEnabled ctx \<longrightarrow> fst dmg = snd dmg \<and> \<not> ctx_suddenDeathOnDamageTie ctx))"
  using decided_cases [of ctx dmg s1 s2] resolve_tie_cases [of ctx dmg] by force

theorem map_winner_leads_witness:
  "DetermineMapWinnerIfComplete
     (sample_match\<lparr>ctx_maxOvertimes := 0, ctx_damageTiebreakEnabled := True\<rparr>) (900, 800) 12 12 = Some Win_Team1 \<and>
   ((12::int) < 12 \<or> ((12::int) = 12 \<and> (800::int) < 900))"
  using map_winner_leads
    [of "sample_match\<lparr>ctx_maxOvertimes := 0, ctx_damageTiebreakEnabled := True\<rparr>" "(900, 800)" 12 12]
  by (simp add: DetermineMapWinnerIfComplete_def sample_match_def resolve_tie_def winnerByDamage_def Let_def)
section \<open>Lemmas: the series\<close>

lemma map_prod_Some_id: "map_prod Some id p = (Some x, y) \<longleftrightarrow> p = (x, y)"
  by (cases p) simp

text \<open>
  A map's result is counted once. After a map's result, further round ends with the same map
  number, whatever their score, neither report a result again nor touch the series.
\<close>

theorem map_result_once:
  assumes "OnMatchRoundEnded ctxOpt dmg n s1 s2 name st = (Some inp, st1)"
  shows "OnMatchRoundEnded ctxOpt' dmg' n s1' s2' name' st1 = (None, st1) \<and> st_mode st1 = Mode_Postgame \<and>
         st_seriesWinsTeam1 st1 + st_seriesWinsTeam2 st1 =
           st_seriesWinsTeam1 st + st_seriesWinsTeam2 st + (if in_winner inp = Win_None then 0 else 1) \<and>
         fst (ForfeitCurrentMap ctxOpt' dmg' ms loser pause st1) = None"
proof -
  let ?n = "if n \<le> 0 then 1 else n"
  from assms obtain ctx name1 w where f: "FinishMapLocked ctx dmg ?n name1 s1 s2 w False st = (inp, st1)"
    by (auto simp: OnMatchRoundEnded_def Let_def map_prod_Some_id split: option.splits if_splits)
  then have st1: "st_mapResultEmittedForMapNumber st1 = ?n" "st_mode st1 = Mode_Postgame" and w: "in_winner inp = w"
    and sc: "st_seriesWinsTeam1 st1 = st_seriesWinsTeam1 st + (if w = Win_Team1 then 1 else 0)"
      "st_seriesWinsTeam2 st1 = st_seriesWinsTeam2 st + (if w = Win_Team2 then 1 else 0)"
    by (auto simp: FinishMapLocked_def Let_def)
  from st1 have "OnMatchRoundEnded ctxOpt' dmg' n s1' s2' name' st1 = (None, st1)"
    by (simp add: OnMatchRoundEnded_def Let_def split: option.split)
  moreover from st1 have "fst (ForfeitCurrentMap ctxOpt' dmg' ms loser pause st1) = None" for ms
    by (simp add: ForfeitCurrentMap_def Let_def split: option.split)
  moreover have "st_seriesWinsTeam1 st1 + st_seriesWinsTeam2 st1 =
      st_seriesWinsTeam1 st + st_seriesWinsTeam2 st + (if in_winner inp = Win_None then 0 else 1)"
    by (cases w) (simp_all add: sc w)
  ultimately show ?thesis using st1 by simp
qed

definition fresh_series :: SeriesState where
  "fresh_series =
     \<lparr>st_mode = Mode_MatchLive, st_seriesWinsTeam1 = 0, st_seriesWinsTeam2 = 0, st_mapResultEmittedForMapNumber = 0,
      st_ready = Map.empty, st_lastUi = Map.empty, st_idleCfgExecuted = False, st_warmupRulesApplied = False,
      st_startTriggered = False, st_demoRecording = False, st_practiceRulesApplied = False,
      st_practiceResetPending = False, st_lifecycleMapNumber = 0, st_warmupEndedSent = False,
      st_goingLiveSent = False, st_recoveryGate = False,
      st_knife = knife_clear 0\<rparr>"

theorem map_result_once_witness:
  "\<exists>inp st1. OnMatchRoundEnded (Some sample_match) (0, 0) 1 13 7 [] fresh_series = (Some inp, st1) \<and>
     OnMatchRoundEnded (Some sample_match) (0, 0) 1 13 8 [] st1 = (None, st1)"
proof -
  let ?r = "OnMatchRoundEnded (Some sample_match) (0, 0) 1 13 7 [] fresh_series"
  have "DetermineMapWinnerIfComplete sample_match (0, 0) 13 7 = Some Win_Team1"
    by (simp add: DetermineMapWinnerIfComplete_def sample_match_def Let_def)
  then obtain inp st1 where r: "?r = (Some inp, st1)"
    by (cases "FinishMapLocked sample_match (0, 0) 1 (map_name_for sample_match [] 1) 13 7 Win_Team1 False fresh_series")
      (simp add: OnMatchRoundEnded_def fresh_series_def Let_def)
  from map_result_once [OF r] r show ?thesis by blast
qed

text \<open>The maps of a series, one result after the other, until the series is over.\<close>

fun play_series :: "MatchContext \<Rightarrow> int \<Rightarrow> Winner list \<Rightarrow> SeriesState \<Rightarrow> MapEndInput list" where
  "play_series ctx n [] st = []"
| "play_series ctx n (w # ws) st =
     (let (inp, st1) = FinishMapLocked ctx (0, 0) n [] 0 0 w False st
      in inp # (if in_seriesOver inp then [] else play_series ctx (n + 1) ws st1))"

definition wins :: "Winner \<Rightarrow> Winner list \<Rightarrow> int" where
  "wins w ws = int (length (filter ((=) w) ws))"

definition series_ctx :: "MatchContext \<Rightarrow> bool" where
  "series_ctx ctx \<longleftrightarrow>
     1 \<le> ctx_num_maps ctx \<and> ctx_num_maps ctx \<le> int (length (ctx_maplist ctx)) \<and> list_all (\<lambda>m. m \<noteq> []) (ctx_maplist ctx)"

definition majority :: "MatchContext \<Rightarrow> int \<Rightarrow> bool" where
  "majority ctx w \<longleftrightarrow> ctx_clinch_series ctx \<and> ctx_num_maps ctx div 2 + 1 \<le> w"

lemma FinishMap_over:
  assumes "series_ctx ctx" and "1 \<le> n"
  shows "in_seriesOver (fst (FinishMapLocked ctx dmg n name s1 s2 w False st)) \<longleftrightarrow>
     ctx_num_maps ctx \<le> n \<or>
     majority ctx (st_seriesWinsTeam1 st + (if w = Win_Team1 then 1 else 0)) \<or>
     majority ctx (st_seriesWinsTeam2 st + (if w = Win_Team2 then 1 else 0))"
proof -
  have "n < ctx_num_maps ctx \<Longrightarrow> nat n < length (ctx_maplist ctx) \<and> ctx_maplist ctx ! nat n \<noteq> []"
    using assms by (auto simp: series_ctx_def list_all_length nat_less_iff)
  with assms show ?thesis
    by (auto simp: FinishMapLocked_def Let_def IsSeriesOver_def RemainingMaps_def series_ctx_def majority_def)
qed

lemma FinishMap_series:
  "in_team1SeriesScore (fst (FinishMapLocked ctx dmg n name s1 s2 w False st)) = st_seriesWinsTeam1 st + wins Win_Team1 [w]"
  "in_team2SeriesScore (fst (FinishMapLocked ctx dmg n name s1 s2 w False st)) = st_seriesWinsTeam2 st + wins Win_Team2 [w]"
  "st_seriesWinsTeam1 (snd (FinishMapLocked ctx dmg n name s1 s2 w False st)) = st_seriesWinsTeam1 st + wins Win_Team1 [w]"
  "st_seriesWinsTeam2 (snd (FinishMapLocked ctx dmg n name s1 s2 w False st)) = st_seriesWinsTeam2 st + wins Win_Team2 [w]"
  by (auto simp: FinishMapLocked_def Let_def wins_def)

text \<open>What is true of the maps played from map \<open>n\<close> on, with results \<open>ws\<close> and a series score so far.\<close>

definition series_played :: "MatchContext \<Rightarrow> int \<Rightarrow> Winner list \<Rightarrow> int \<Rightarrow> int \<Rightarrow> MapEndInput list \<Rightarrow> bool" where
  "series_played ctx n ws a b ps \<longleftrightarrow>
     ps \<noteq> [] \<and> n + int (length ps) - 1 \<le> ctx_num_maps ctx \<and>
     in_seriesOver (last ps) \<and> list_all (\<lambda>p. \<not> in_seriesOver p) (butlast ps) \<and>
     in_team1SeriesScore (last ps) = a + wins Win_Team1 (take (length ps) ws) \<and>
     in_team2SeriesScore (last ps) = b + wins Win_Team2 (take (length ps) ws) \<and>
     in_seriesWinner (last ps) = None \<and>
     (n + int (length ps) - 1 = ctx_num_maps ctx \<or>
      majority ctx (in_team1SeriesScore (last ps)) \<or> majority ctx (in_team2SeriesScore (last ps)))"

lemma wins_Cons: "wins v (w # ws) = wins v [w] + wins v ws"
  by (simp add: wins_def)

lemma play_series_played:
  assumes "series_ctx ctx" and "1 \<le> n" and "n \<le> ctx_num_maps ctx" and "ctx_num_maps ctx - n < int (length ws)"
  shows "series_played ctx n ws (st_seriesWinsTeam1 st) (st_seriesWinsTeam2 st) (play_series ctx n ws st)"
  using assms
proof (induction ctx n ws st rule: play_series.induct)
  case (2 ctx n w ws st)
  obtain inp st1 where f: "FinishMapLocked ctx (0, 0) n [] 0 0 w False st = (inp, st1)"
    by (cases "FinishMapLocked ctx (0, 0) n [] 0 0 w False st")
  note over = FinishMap_over [OF "2.prems"(1,2), of "(0, 0)" "[]" 0 0 w st, unfolded f fst_conv]
  note sc = FinishMap_series [of ctx "(0, 0)" n "[]" 0 0 w st, unfolded f fst_conv snd_conv]
  have sw: "in_seriesWinner inp = None" using f by (auto simp: FinishMapLocked_def Let_def)
  show ?case
  proof (cases "in_seriesOver inp")
    case True
    with over "2.prems"(3) have "n = ctx_num_maps ctx \<or> majority ctx (in_team1SeriesScore inp) \<or> majority ctx (in_team2SeriesScore inp)"
      by (auto simp: sc wins_def split: if_splits)
    with True f sc sw "2.prems" show ?thesis by (simp add: series_played_def)
  next
    case False
    with over have n: "n < ctx_num_maps ctx" by auto
    have "series_played ctx (n + 1) ws (st_seriesWinsTeam1 st1) (st_seriesWinsTeam2 st1) (play_series ctx (n + 1) ws st1)"
      using "2.prems" n f False by (intro "2.IH" [of "(inp, st1)" inp st1]) auto
    then show ?thesis
      using False f sc by (auto simp: series_played_def wins_Cons [of _ w "take k ws" for k] algebra_simps)
  qed
qed simp

lemma wins_le: "wins Win_Team1 ws + wins Win_Team2 ws \<le> int (length ws)"
  by (induction ws) (auto simp: wins_def)



section \<open>Lemmas: after the map\<close>

lemmas plan_simps = ComputeMapEndPlan_def next_map_delay_def demo_stop_delay_def Let_def

text \<open>
  The demo is complete before the players leave. While a demo is recorded with a TV delay, the
  recording is stopped after the delay has passed and before the next map is loaded; at a series end
  the players are kicked after that too, the configured extra seconds later.
\<close>

theorem demo_flushed_in_time:
  assumes "0 < tvDelay"
  shows "let p = ComputeMapEndPlan True upload tvDelay k1 k2 k3
         in of_int tvDelay < demo_stop_delay p \<and> demo_stop_delay p < of_int (next_map_delay p) \<and>
            demo_stop_delay p < of_int (plan_kickDelay p) \<and>
            plan_kickDelay p = next_map_delay p + max 0 (if upload then k3 else k2)"
  using assms by (auto simp: plan_simps max_def)

theorem demo_flushed_in_time_witness:
  "let p = ComputeMapEndPlan True True 105 90 90 90
   in (105::real) < demo_stop_delay p \<and> demo_stop_delay p < of_int (next_map_delay p)"
  using demo_flushed_in_time [of 105 True 90 90 90] by (simp add: Let_def)

text \<open>Without a TV delay the next map is loaded half a second before the recording is stopped.\<close>

lemma next_map_before_demo_stop:
  "let p = ComputeMapEndPlan True upload 0 k1 k2 k3 in of_int (next_map_delay p) + 1 / 2 = demo_stop_delay p"
  by (simp add: plan_simps)

text \<open>The timers fire one after the other.\<close>

fun fire_list ::
  "bool \<Rightarrow> string list \<Rightarrow> seconds \<Rightarrow> FlowTimer list \<Rightarrow> FlowState \<times> PauseState \<times> SeriesState \<Rightarrow>
     FlowAction list \<times> FlowState \<times> PauseState \<times> SeriesState" where
  "fire_list rc cmds now [] s = ([], s)"
| "fire_list rc cmds now (tm # tms) s =
     (let (acts, s1) = FireTimer rc cmds now tm s; (acts2, s2) = fire_list rc cmds now tms s1 in (acts @ acts2, s2))"

definition flow_ok :: "FlowState \<Rightarrow> bool" where
  "flow_ok f \<longleftrightarrow> fl_pending f = int (length (fl_timers f))"

lemma Schedule_ok: "flow_ok f \<Longrightarrow> flow_ok (Schedule now d task gen f)"
  by (simp add: flow_ok_def Schedule_def)

lemma int_length_remove1: "x \<in> set xs \<Longrightarrow> int (length (remove1 x xs)) = int (length xs) - 1"
  by (induction xs) auto

lemma FireTimer_ok:
  "flow_ok f \<Longrightarrow> tm \<in> set (fl_timers f) \<Longrightarrow> flow_ok (fst (snd (FireTimer rc cmds now tm (f, pause, st))))"
  using int_length_remove1 [of tm "fl_timers f"]
  by (cases "tm_task tm") (simp_all add: FireTimer_def Let_def flow_ok_def Schedule_def split_def del: length_remove1)

lemma fire_list_stale:
  assumes "flow_ok f" and "mset tms \<subseteq># mset (fl_timers f)"
    and "list_all (\<lambda>tm. tm_gen tm \<noteq> fl_generation f) tms"
  shows "\<exists>f1. fire_list rc cmds now tms (f, pause, st) = ([], f1, pause, st) \<and> flow_ok f1 \<and> fl_generation f1 = fl_generation f \<and>
              mset (fl_timers f1) = mset (fl_timers f) - mset tms \<and> fl_plan f1 = fl_plan f"
  using assms
proof (induction tms arbitrary: f)
  case (Cons tm tms)
  let ?f = "f\<lparr>fl_pending := fl_pending f - 1, fl_timers := remove1 tm (fl_timers f)\<rparr>"
  from Cons.prems have fire: "FireTimer rc cmds now tm (f, pause, st) = ([], ?f, pause, st)"
    by (auto simp: FireTimer_def Let_def)
  have in_tms: "tm \<in> set (fl_timers f)"
    using set_mset_mono [OF Cons.prems(2)] by simp
  have ok: "flow_ok ?f" using FireTimer_ok [OF Cons.prems(1) in_tms, of rc cmds now pause st] fire by simp
  have sub: "mset tms \<subseteq># mset (fl_timers ?f)"
    using Cons.prems(2) in_tms by (simp add: insert_subset_eq_iff)
  from Cons.IH [OF ok sub] Cons.prems(3) obtain f1 where
    "fire_list rc cmds now tms (?f, pause, st) = ([], f1, pause, st)" "flow_ok f1" "fl_generation f1 = fl_generation f"
    "mset (fl_timers f1) = mset (fl_timers ?f) - mset tms" "fl_plan f1 = fl_plan f"
    by auto
  then show ?case using fire by simp
qed simp

text \<open>
  A cancelled flow does nothing. When a new match cancels what was pending, every timer the old
  map had started still fires, in any order, but loads no map, kicks nobody and leaves the series
  state alone; afterwards nothing is pending.
\<close>

theorem cancelled_timers_do_nothing:
  assumes "flow_ok f" and "list_all (\<lambda>tm. tm_gen tm = fl_generation f) (fl_timers f)"
    and "mset tms = mset (fl_timers f)"
  shows "\<exists>f1. fire_list rc cmds now tms (MatchEndCancelPending f, pause, st) = ([], f1, pause, st) \<and>
              fl_timers f1 = [] \<and> fl_pending f1 = 0 \<and> fl_plan f1 = None"
proof -
  let ?f = "MatchEndCancelPending f"
  have "set tms = set (fl_timers f)" using assms(3) by (rule mset_eq_setD)
  then have "list_all (\<lambda>tm. tm_gen tm \<noteq> fl_generation ?f) tms"
    using assms(2) by (auto simp: list_all_iff MatchEndCancelPending_def)
  moreover have "flow_ok ?f" using assms(1) by (simp add: flow_ok_def MatchEndCancelPending_def)
  ultimately obtain f1 where "fire_list rc cmds now tms (?f, pause, st) = ([], f1, pause, st)" "flow_ok f1" "fl_plan f1 = fl_plan ?f"
    "mset (fl_timers f1) = mset (fl_timers ?f) - mset tms"
    using fire_list_stale [of ?f tms rc cmds now pause st] assms(3) by (auto simp: MatchEndCancelPending_def)
  then show ?thesis using assms(3) by (auto simp: MatchEndCancelPending_def flow_ok_def)
qed

theorem cancelled_timers_do_nothing_witness:
  "let env = \<lparr>fe_recording = False, fe_hasUpload = False, fe_tvDelay = 0, fe_kickNoDemo = 90, fe_kickDemoNoUpload = 90,
              fe_kickDemoUpload = 90, fe_team1Name = ''A'', fe_team2Name = ''B'', fe_scrim = False\<rparr>;
       inp = fst (FinishMapLocked sample_match (0, 0) 1 ''de_mirage'' 13 7 Win_Team1 False fresh_series);
       f = snd (snd (MatchEndOnMapComplete env 2 inp \<lparr>fl_generation = 4, fl_pending = 0, fl_plan = None, fl_timers = []\<rparr>))
   in \<exists>f1. fire_list True [] 12 [\<lparr>tm_due = 11, tm_task = Task_NextMap ''de_nuke'', tm_gen = 4\<rparr>]
        (MatchEndCancelPending f, PauseState_init, fresh_series) = ([], f1, PauseState_init, fresh_series) \<and>
        fl_timers f1 = [] \<and> fl_pending f1 = 0 \<and> fl_plan f1 = None"
  unfolding Let_def
  by (rule cancelled_timers_do_nothing)
    (simp_all add: MatchEndOnMapComplete_def FinishMapLocked_def sample_match_def fresh_series_def plan_simps
      Schedule_def flow_ok_def IsSeriesOver_def RemainingMaps_def)

end
