(* ===== verification/Match_Stats.thy ===== *)
theory Match_Stats
  imports Prelude "HOL-Library.Product_Lexorder" "HOL-Library.Multiset"
begin

text \<open>
  The match statistics (plugins/match/readyup/match_stats.h and match_stats.cpp): the accumulator that
  turns game events into per-player totals and per-round records, its snapshot, and \<open>RewindTo\<close>, which
  takes the rounds a restore voids out of the totals again. The hash maps are association lists with
  distinct keys; what the code does with them does not depend on their order. The JSON form is not part
  of this theory.
\<close>

section \<open>Association lists with a default\<close>

text \<open>\<open>m[k]\<close> of C++: the value, a default one if there is none; \<open>alter\<close> changes it in place.\<close>

definition get :: "'v \<Rightarrow> ('k \<times> 'v) list \<Rightarrow> 'k \<Rightarrow> 'v" where
  "get d m k = (case map_of m k of None \<Rightarrow> d | Some v \<Rightarrow> v)"

fun alter :: "'v \<Rightarrow> 'k \<Rightarrow> ('v \<Rightarrow> 'v) \<Rightarrow> ('k \<times> 'v) list \<Rightarrow> ('k \<times> 'v) list" where
  "alter d k f [] = [(k, f d)]"
| "alter d k f ((j, v) # m) = (if j = k then (k, f v) # m else (j, v) # alter d k f m)"

definition keys :: "('k \<times> 'v) list \<Rightarrow> 'k set" where
  "keys m = set (map fst m)"

lemma map_of_alter: "map_of (alter d k f m) x = (if x = k then Some (f (get d m k)) else map_of m x)"
  by (induction m) (auto simp: get_def)

lemma get_alter [simp]: "get d (alter d k f m) x = (if x = k then f (get d m k) else get d m x)"
  by (simp add: get_def map_of_alter)

lemma get_Nil [simp]: "get d [] k = d"
  by (simp add: get_def)

lemma keys_Nil [simp]: "keys [] = {}"
  by (simp add: keys_def)

lemma keys_alter [simp]: "keys (alter d k f m) = insert k (keys m)"
proof (induction m)
  case (Cons p m)
  then show ?case by (cases p; cases "fst p = k") (simp_all add: keys_def insert_commute)
qed (simp add: keys_def)

lemma distinct_alter [simp]: "distinct (map fst (alter d k f m)) \<longleftrightarrow> distinct (map fst m)"
proof (induction m)
  case (Cons p m)
  have "set (map fst (alter d k f m)) = insert k (set (map fst m))" using keys_alter [of d k f m] by (simp add: keys_def)
  with Cons show ?case by (cases p) auto
qed simp

lemma keys_map_of: "k \<in> keys m \<longleftrightarrow> map_of m k \<noteq> None"
  by (simp add: keys_def map_of_eq_None_iff)

lemma get_default: "k \<notin> keys m \<Longrightarrow> get d m k = d"
  by (simp add: get_def keys_map_of)

lemma get_in: "distinct (map fst m) \<Longrightarrow> (k, v) \<in> set m \<Longrightarrow> get d m k = v"
  by (simp add: get_def)

section \<open>Data\<close>

record PlayerStats =
  ps_kills :: int
  ps_deaths :: int
  ps_assists :: int
  ps_flash_assists :: int
  ps_team_kills :: int
  ps_suicides :: int
  ps_headshot_kills :: int
  ps_knife_kills :: int
  ps_damage :: int
  ps_utility_damage :: int
  ps_enemies_flashed :: int
  ps_friendlies_flashed :: int
  ps_bomb_plants :: int
  ps_bomb_defuses :: int
  ps_entry_kills_t :: int
  ps_entry_kills_ct :: int
  ps_entry_deaths_t :: int
  ps_entry_deaths_ct :: int
  ps_trade_kills :: int
  ps_traded_deaths :: int
  ps_kast_rounds :: int
  ps_rounds_played :: int
  ps_mvp :: int
  ps_score :: int
  ps_multi_kills :: "int list"
  ps_clutches_won :: "int list"

definition no_stats :: PlayerStats where
  "no_stats =
     \<lparr>ps_kills = 0, ps_deaths = 0, ps_assists = 0, ps_flash_assists = 0, ps_team_kills = 0, ps_suicides = 0,
      ps_headshot_kills = 0, ps_knife_kills = 0, ps_damage = 0, ps_utility_damage = 0, ps_enemies_flashed = 0,
      ps_friendlies_flashed = 0, ps_bomb_plants = 0, ps_bomb_defuses = 0, ps_entry_kills_t = 0, ps_entry_kills_ct = 0,
      ps_entry_deaths_t = 0, ps_entry_deaths_ct = 0, ps_trade_kills = 0, ps_traded_deaths = 0, ps_kast_rounds = 0,
      ps_rounds_played = 0, ps_mvp = 0, ps_score = 0, ps_multi_kills = [0, 0, 0, 0, 0], ps_clutches_won = [0, 0, 0, 0, 0]\<rparr>"

record PlayerRound =
  pr_id :: u64
  pr_team :: int
  pr_side :: int
  pr_kills :: int
  pr_assists :: int
  pr_flash_assists :: int
  pr_damage :: int
  pr_utility_damage :: int
  pr_headshot_kills :: int
  pr_died :: bool
  pr_survived :: bool
  pr_traded :: bool
  pr_kast :: bool
  pr_entry_kill :: bool
  pr_entry_death :: bool
  pr_mvp :: bool
  pr_clutch_vs :: int
  pr_clutch_won :: bool
  pr_money_start :: int
  pr_money_after_buy :: int
  pr_armor :: int
  pr_helmet :: bool
  pr_defuser :: bool
  pr_loadout :: "string list"

definition no_round :: PlayerRound where
  "no_round =
     \<lparr>pr_id = 0, pr_team = 0, pr_side = 0, pr_kills = 0, pr_assists = 0, pr_flash_assists = 0, pr_damage = 0,
      pr_utility_damage = 0, pr_headshot_kills = 0, pr_died = False, pr_survived = False, pr_traded = False,
      pr_kast = False, pr_entry_kill = False, pr_entry_death = False, pr_mvp = False, pr_clutch_vs = 0,
      pr_clutch_won = False, pr_money_start = -1, pr_money_after_buy = -1, pr_armor = -1, pr_helmet = False,
      pr_defuser = False, pr_loadout = []\<rparr>"

lemma no_round_sel [simp]:
  "pr_id no_round = 0" "pr_team no_round = 0" "pr_side no_round = 0" "pr_kills no_round = 0" "pr_assists no_round = 0"
  "pr_flash_assists no_round = 0" "pr_damage no_round = 0" "pr_utility_damage no_round = 0" "pr_headshot_kills no_round = 0"
  "\<not> pr_died no_round" "\<not> pr_traded no_round" "\<not> pr_kast no_round" "\<not> pr_entry_kill no_round"
  "\<not> pr_entry_death no_round" "\<not> pr_mvp no_round" "pr_clutch_vs no_round = 0" "\<not> pr_clutch_won no_round"
  by (simp_all add: no_round_def)

record RoundSummary =
  rs_round_number :: int
  rs_winner_side :: int
  rs_winner_team :: int
  rs_reason :: int
  rs_team1_score :: int
  rs_team2_score :: int
  rs_team1_was_ct :: bool
  rs_players :: "PlayerRound list"

record TeamLine =
  tl_score :: int
  tl_score_ct :: int
  tl_score_t :: int

definition no_team :: TeamLine where
  "no_team = \<lparr>tl_score = 0, tl_score_ct = 0, tl_score_t = 0\<rparr>"

record PlayerLine =
  ln_id :: u64
  ln_name :: string
  ln_team :: int
  ln_last_side :: int
  ln_bot :: bool
  ln_stats :: PlayerStats

record MapStats =
  mp_live :: bool
  mp_team1_is_ct :: bool
  mp_team1 :: TeamLine
  mp_team2 :: TeamLine
  mp_players :: "PlayerLine list"
  mp_rounds :: "RoundSummary list"

record Player =
  py_name :: string
  py_team :: int
  py_lastSide :: int
  py_bot :: bool
  py_s :: PlayerStats

definition no_player :: Player where
  "no_player = \<lparr>py_name = [], py_team = 0, py_lastSide = 0, py_bot = False, py_s = no_stats\<rparr>"

record Round =
  rd_side :: "(u64 \<times> int) list"
  rd_dead :: "u64 set"
  rd_pr :: "(u64 \<times> PlayerRound) list"
  rd_health :: "(u64 \<times> int) list"
  rd_deathBy :: "(u64 \<times> (u64 \<times> seconds)) list"
  rd_entryDone :: bool
  rd_clutch :: "(int \<times> (u64 \<times> int)) list"

definition new_round :: Round where
  "new_round = \<lparr>rd_side = [], rd_dead = {}, rd_pr = [], rd_health = [], rd_deathBy = [], rd_entryDone = False, rd_clutch = []\<rparr>"

record StatsAccumulator =
  sa_live :: bool
  sa_team1IsCt :: bool
  sa_players :: "(u64 \<times> Player) list"
  sa_round :: Round
  sa_t1 :: TeamLine
  sa_t2 :: TeamLine
  sa_rounds :: "RoundSummary list"

section \<open>The accumulator\<close>

definition IsUtilityWeapon :: "string \<Rightarrow> bool" where
  "IsUtilityWeapon w \<longleftrightarrow>
     w = ''hegrenade'' \<or> w = ''inferno'' \<or> w = ''molotov'' \<or> w = ''incgrenade'' \<or> w = ''weapon_hegrenade'' \<or>
     w = ''weapon_molotov'' \<or> w = ''weapon_incgrenade''"

definition IsKnifeWeapon :: "string \<Rightarrow> bool" where
  "IsKnifeWeapon w \<longleftrightarrow> contains ''knife'' w \<or> contains ''bayonet'' w"

definition Clear :: "StatsAccumulator \<Rightarrow> StatsAccumulator" where
  "Clear a = a\<lparr>sa_live := False, sa_players := [], sa_round := new_round, sa_t1 := no_team, sa_t2 := no_team, sa_rounds := []\<rparr>"

definition BeginMap :: "bool \<Rightarrow> StatsAccumulator \<Rightarrow> StatsAccumulator" where
  "BeginMap team1IsCt a = (Clear a)\<lparr>sa_team1IsCt := team1IsCt, sa_live := True\<rparr>"

definition EndMap :: "StatsAccumulator \<Rightarrow> StatsAccumulator" where
  "EndMap a = a\<lparr>sa_live := False\<rparr>"

definition SetTeam1IsCt :: "bool \<Rightarrow> StatsAccumulator \<Rightarrow> StatsAccumulator" where
  "SetTeam1IsCt b a = a\<lparr>sa_team1IsCt := b\<rparr>"

definition SlotForSide :: "StatsAccumulator \<Rightarrow> int \<Rightarrow> int" where
  "SlotForSide a side =
     (if side = 3 then (if sa_team1IsCt a then 1 else 2)
      else if side = 2 then (if sa_team1IsCt a then 2 else 1) else 0)"

definition SideOf :: "StatsAccumulator \<Rightarrow> u64 \<Rightarrow> int" where
  "SideOf a i =
     (case map_of (rd_side (sa_round a)) i of
        Some s \<Rightarrow> s
      | None \<Rightarrow> (case map_of (sa_players a) i of None \<Rightarrow> 0 | Some p \<Rightarrow> py_lastSide p))"

text \<open>\<open>P(id)\<close> and its \<open>.s\<close>, \<open>R(id)\<close> and \<open>round_\<close>, changed in place.\<close>

definition modPlayer :: "u64 \<Rightarrow> (Player \<Rightarrow> Player) \<Rightarrow> StatsAccumulator \<Rightarrow> StatsAccumulator" where
  "modPlayer i f a = a\<lparr>sa_players := alter no_player i f (sa_players a)\<rparr>"

definition modP :: "u64 \<Rightarrow> (PlayerStats \<Rightarrow> PlayerStats) \<Rightarrow> StatsAccumulator \<Rightarrow> StatsAccumulator" where
  "modP i f = modPlayer i (\<lambda>p. p\<lparr>py_s := f (py_s p)\<rparr>)"

definition modRound :: "(Round \<Rightarrow> Round) \<Rightarrow> StatsAccumulator \<Rightarrow> StatsAccumulator" where
  "modRound f a = a\<lparr>sa_round := f (sa_round a)\<rparr>"

definition modR :: "u64 \<Rightarrow> (PlayerRound \<Rightarrow> PlayerRound) \<Rightarrow> StatsAccumulator \<Rightarrow> StatsAccumulator" where
  "modR i f = modRound (\<lambda>r. r\<lparr>rd_pr := alter no_round i (\<lambda>x. f (x\<lparr>pr_id := i\<rparr>)) (rd_pr r)\<rparr>)"

definition ObservePlayer :: "u64 \<Rightarrow> string \<Rightarrow> int \<Rightarrow> int \<Rightarrow> bool \<Rightarrow> StatsAccumulator \<Rightarrow> StatsAccumulator" where
  "ObservePlayer i name side teamSlot isBot a =
     (if i = 0 then a
      else
        (let named = (\<lambda>p :: Player. if name \<noteq> [] then p\<lparr>py_name := name\<rparr> else p);
             botted = (\<lambda>p :: Player. if isBot then p\<lparr>py_bot := True\<rparr> else p);
             sided = (\<lambda>p :: Player. if side = 2 \<or> side = 3 then p\<lparr>py_lastSide := side\<rparr> else p);
             slotted = (\<lambda>p :: Player. if teamSlot = 1 \<or> teamSlot = 2 then p\<lparr>py_team := teamSlot\<rparr>
                            else if py_team p = 0 then p\<lparr>py_team := SlotForSide a (py_lastSide p)\<rparr> else p);
             a1 = modPlayer i (slotted \<circ> sided \<circ> botted \<circ> named) a
         in if sa_live a \<and> (side = 2 \<or> side = 3)
            then modR i (\<lambda>r. r\<lparr>pr_side := side, pr_team := py_team (get no_player (sa_players a1) i)\<rparr>)
                   (modRound (\<lambda>r. r\<lparr>rd_side := alter 0 i (\<lambda>_. side) (rd_side r)\<rparr>) a1)
            else a1))"

definition OnRoundStart :: "StatsAccumulator \<Rightarrow> StatsAccumulator" where
  "OnRoundStart a = a\<lparr>sa_round := new_round\<rparr>"

text \<open>The parts of \<open>OnPlayerDeath\<close> in its order: the kill itself, the entry, the trades.\<close>

definition kill_stats :: "u64 \<Rightarrow> bool \<Rightarrow> string \<Rightarrow> StatsAccumulator \<Rightarrow> StatsAccumulator" where
  "kill_stats attacker headshot weapon a =
     modP attacker (\<lambda>s. let s1 = s\<lparr>ps_kills := ps_kills s + 1\<rparr>;
                            s2 = (if headshot then s1\<lparr>ps_headshot_kills := ps_headshot_kills s1 + 1\<rparr> else s1)
                        in if IsKnifeWeapon weapon then s2\<lparr>ps_knife_kills := ps_knife_kills s2 + 1\<rparr> else s2)
       (modR attacker (\<lambda>r. let r1 = r\<lparr>pr_kills := pr_kills r + 1, pr_kast := True\<rparr>
                           in if headshot then r1\<lparr>pr_headshot_kills := pr_headshot_kills r1 + 1\<rparr> else r1) a)"

definition entry_stats :: "u64 \<Rightarrow> u64 \<Rightarrow> int \<Rightarrow> int \<Rightarrow> StatsAccumulator \<Rightarrow> StatsAccumulator" where
  "entry_stats attacker victim attackerSide victimSide a =
     (if rd_entryDone (sa_round a) then a
      else
        (let a1 = modRound (\<lambda>r. r\<lparr>rd_entryDone := True\<rparr>) a;
             a2 = modR victim (\<lambda>r. r\<lparr>pr_entry_death := True\<rparr>) (modR attacker (\<lambda>r. r\<lparr>pr_entry_kill := True\<rparr>) a1);
             a3 = modP attacker (\<lambda>s. if attackerSide = 2 then s\<lparr>ps_entry_kills_t := ps_entry_kills_t s + 1\<rparr>
                                     else if attackerSide = 3 then s\<lparr>ps_entry_kills_ct := ps_entry_kills_ct s + 1\<rparr> else s) a2
         in modP victim (\<lambda>s. if victimSide = 2 then s\<lparr>ps_entry_deaths_t := ps_entry_deaths_t s + 1\<rparr>
                             else if victimSide = 3 then s\<lparr>ps_entry_deaths_ct := ps_entry_deaths_ct s + 1\<rparr> else s) a3))"

abbreviation kTradeWindowSeconds :: real where "kTradeWindowSeconds \<equiv> 5"

definition trade_one ::
  "u64 \<Rightarrow> u64 \<Rightarrow> int \<Rightarrow> seconds \<Rightarrow> u64 \<times> (u64 \<times> seconds) \<Rightarrow> bool \<times> StatsAccumulator \<Rightarrow> bool \<times> StatsAccumulator" where
  "trade_one attacker victim attackerSide time = (\<lambda>(mate, killer, t) (traded, a).
     if killer \<noteq> victim \<or> mate = attacker \<or> time - t > kTradeWindowSeconds \<or> SideOf a mate \<noteq> attackerSide then (traded, a)
     else if pr_traded (get no_round (rd_pr (sa_round a)) mate) then (True, modR mate (\<lambda>r. r) a)
     else (True, modP mate (\<lambda>s. s\<lparr>ps_traded_deaths := ps_traded_deaths s + 1\<rparr>)
                   (modR mate (\<lambda>r. r\<lparr>pr_traded := True, pr_kast := True\<rparr>) a)))"

definition trade_stats :: "u64 \<Rightarrow> u64 \<Rightarrow> int \<Rightarrow> seconds \<Rightarrow> StatsAccumulator \<Rightarrow> StatsAccumulator" where
  "trade_stats attacker victim attackerSide time a =
     (let (traded, a1) = fold (trade_one attacker victim attackerSide time) (rd_deathBy (sa_round a)) (False, a)
      in if traded then modP attacker (\<lambda>s. s\<lparr>ps_trade_kills := ps_trade_kills s + 1\<rparr>) a1 else a1)"

definition assist_stats :: "u64 \<Rightarrow> u64 \<Rightarrow> u64 \<Rightarrow> bool \<Rightarrow> int \<Rightarrow> StatsAccumulator \<Rightarrow> StatsAccumulator" where
  "assist_stats assister attacker victim assistedFlash victimSide a =
     (if assister \<noteq> 0 \<and> assister \<noteq> attacker \<and> assister \<noteq> victim \<and>
         (SideOf a assister = 0 \<or> SideOf a assister \<noteq> victimSide) then
        (if assistedFlash
         then modP assister (\<lambda>s. s\<lparr>ps_flash_assists := ps_flash_assists s + 1\<rparr>)
                (modR assister (\<lambda>r. r\<lparr>pr_flash_assists := pr_flash_assists r + 1, pr_kast := True\<rparr>) a)
         else modP assister (\<lambda>s. s\<lparr>ps_assists := ps_assists s + 1\<rparr>)
                (modR assister (\<lambda>r. r\<lparr>pr_assists := pr_assists r + 1, pr_kast := True\<rparr>) a))
      else a)"

definition alive_on :: "Round \<Rightarrow> int \<Rightarrow> u64 list" where
  "alive_on r s = map fst (filter (\<lambda>(i, s'). i \<notin> rd_dead r \<and> s' = s) (rd_side r))"

definition enemies_of :: "Round \<Rightarrow> int \<Rightarrow> int" where
  "enemies_of r s = int (length (filter (\<lambda>(i, s'). i \<notin> rd_dead r \<and> s' \<noteq> s \<and> (s' = 2 \<or> s' = 3)) (rd_side r)))"

definition clutch_stats :: "int \<Rightarrow> StatsAccumulator \<Rightarrow> StatsAccumulator" where
  "clutch_stats victimSide a =
     (let r = sa_round a
      in if (victimSide = 2 \<or> victimSide = 3) \<and> map_of (rd_clutch r) victimSide = None \<and>
            length (alive_on r victimSide) = 1 \<and> enemies_of r victimSide \<ge> 1 then
           (let lst = last (alive_on r victimSide); n = min (enemies_of r victimSide) 5
            in modR lst (\<lambda>x. x\<lparr>pr_clutch_vs := n\<rparr>)
                 (modRound (\<lambda>r. r\<lparr>rd_clutch := alter (0, 0) victimSide (\<lambda>_. (lst, n)) (rd_clutch r)\<rparr>) a))
         else a)"

definition OnPlayerDeath ::
  "u64 \<Rightarrow> u64 \<Rightarrow> u64 \<Rightarrow> bool \<Rightarrow> bool \<Rightarrow> string \<Rightarrow> seconds \<Rightarrow> StatsAccumulator \<Rightarrow> StatsAccumulator" where
  "OnPlayerDeath victim attacker assister assistedFlash headshot weapon time a =
     (if \<not> sa_live a \<or> victim = 0 then a
      else
        (let victimSide = SideOf a victim;
             a1 = (if victimSide = 2 \<or> victimSide = 3
                   then modRound (\<lambda>r. r\<lparr>rd_side := alter victimSide victim (\<lambda>s. s) (rd_side r)\<rparr>) a else a);
             a2 = modP victim (\<lambda>s. s\<lparr>ps_deaths := ps_deaths s + 1\<rparr>) a1;
             a3 = modR victim (\<lambda>r. r\<lparr>pr_died := True\<rparr>) (modRound (\<lambda>r. r\<lparr>rd_dead := insert victim (rd_dead r)\<rparr>) a2);
             suicide = (attacker = 0 \<or> attacker = victim);
             attackerSide = (if suicide then 0 else SideOf a3 attacker);
             teamKill = (\<not> suicide \<and> attackerSide \<noteq> 0 \<and> attackerSide = victimSide);
             a4 = (if suicide then modP victim (\<lambda>s. s\<lparr>ps_suicides := ps_suicides s + 1\<rparr>) a3
                   else if teamKill then modP attacker (\<lambda>s. s\<lparr>ps_team_kills := ps_team_kills s + 1\<rparr>) a3
                   else trade_stats attacker victim attackerSide time
                          (entry_stats attacker victim attackerSide victimSide (kill_stats attacker headshot weapon a3)));
             a5 = (if suicide then a4
                   else modRound (\<lambda>r. r\<lparr>rd_deathBy := alter (0, 0) victim (\<lambda>_. (attacker, time)) (rd_deathBy r)\<rparr>) a4)
         in clutch_stats victimSide (assist_stats assister attacker victim assistedFlash victimSide a5)))"

definition OnPlayerHurt :: "u64 \<Rightarrow> u64 \<Rightarrow> int \<Rightarrow> int \<Rightarrow> string \<Rightarrow> StatsAccumulator \<Rightarrow> StatsAccumulator" where
  "OnPlayerHurt victim attacker dmgHealth healthAfter weapon a =
     (if \<not> sa_live a \<or> victim = 0 then a
      else
        (let before = max 0 (get 100 (rd_health (sa_round a)) victim);
             after = clamp healthAfter 0 before;
             actual = (if dmgHealth > 0 then before - after else 0);
             a1 = modRound (\<lambda>r. r\<lparr>rd_health := alter 100 victim (\<lambda>_. after) (rd_health r)\<rparr>) a
         in if attacker = 0 \<or> attacker = victim then a1
            else if SideOf a1 attacker \<noteq> 0 \<and> SideOf a1 attacker = SideOf a1 victim then a1
            else
              modP attacker (\<lambda>s. let s1 = s\<lparr>ps_damage := ps_damage s + actual\<rparr>
                                 in if IsUtilityWeapon weapon then s1\<lparr>ps_utility_damage := ps_utility_damage s1 + actual\<rparr> else s1)
                (modR attacker (\<lambda>r. let r1 = r\<lparr>pr_damage := pr_damage r + actual\<rparr>
                                    in if IsUtilityWeapon weapon then r1\<lparr>pr_utility_damage := pr_utility_damage r1 + actual\<rparr> else r1) a1)))"

definition OnPlayerBlind :: "u64 \<Rightarrow> u64 \<Rightarrow> real \<Rightarrow> StatsAccumulator \<Rightarrow> StatsAccumulator" where
  "OnPlayerBlind victim attacker duration a =
     (if \<not> sa_live a \<or> victim = 0 \<or> attacker = 0 \<or> attacker = victim \<or> duration \<le> 0 then a
      else modP attacker (\<lambda>s. if SideOf a attacker \<noteq> 0 \<and> SideOf a attacker = SideOf a victim
                              then s\<lparr>ps_friendlies_flashed := ps_friendlies_flashed s + 1\<rparr>
                              else s\<lparr>ps_enemies_flashed := ps_enemies_flashed s + 1\<rparr>) a)"

definition OnBombPlanted :: "u64 \<Rightarrow> StatsAccumulator \<Rightarrow> StatsAccumulator" where
  "OnBombPlanted i a =
     (if sa_live a \<and> i \<noteq> 0 then modP i (\<lambda>s. s\<lparr>ps_bomb_plants := ps_bomb_plants s + 1\<rparr>) a else a)"

definition OnBombDefused :: "u64 \<Rightarrow> StatsAccumulator \<Rightarrow> StatsAccumulator" where
  "OnBombDefused i a =
     (if sa_live a \<and> i \<noteq> 0 then modP i (\<lambda>s. s\<lparr>ps_bomb_defuses := ps_bomb_defuses s + 1\<rparr>) a else a)"

definition OnRoundMvp :: "u64 \<Rightarrow> StatsAccumulator \<Rightarrow> StatsAccumulator" where
  "OnRoundMvp i a =
     (if \<not> sa_live a \<or> i = 0 then a
      else modR i (\<lambda>r. r\<lparr>pr_mvp := True\<rparr>) (modP i (\<lambda>s. s\<lparr>ps_mvp := ps_mvp s + 1\<rparr>) a))"

definition SetScore :: "u64 \<Rightarrow> int \<Rightarrow> StatsAccumulator \<Rightarrow> StatsAccumulator" where
  "SetScore i score a = (if i \<noteq> 0 \<and> score \<ge> 0 then modP i (\<lambda>s. s\<lparr>ps_score := score\<rparr>) a else a)"

definition SetMoneyStart :: "u64 \<Rightarrow> int \<Rightarrow> StatsAccumulator \<Rightarrow> StatsAccumulator" where
  "SetMoneyStart i money a = (if \<not> sa_live a \<or> i = 0 then a else modR i (\<lambda>r. r\<lparr>pr_money_start := money\<rparr>) a)"

definition SetLoadout :: "u64 \<Rightarrow> int \<Rightarrow> int \<Rightarrow> bool \<Rightarrow> bool \<Rightarrow> string list \<Rightarrow> StatsAccumulator \<Rightarrow> StatsAccumulator" where
  "SetLoadout i moneyAfterBuy armor helmet defuser loadout a =
     (if \<not> sa_live a \<or> i = 0 then a
      else modR i (\<lambda>r. r\<lparr>pr_money_after_buy := moneyAfterBuy, pr_armor := armor, pr_helmet := helmet,
                        pr_defuser := defuser, pr_loadout := loadout\<rparr>) a)"

section \<open>The end of a round\<close>

definition add_win :: "int \<Rightarrow> TeamLine \<Rightarrow> TeamLine" where
  "add_win winnerSide t =
     (let t1 = t\<lparr>tl_score := tl_score t + 1\<rparr>
      in if winnerSide = 3 then t1\<lparr>tl_score_ct := tl_score_ct t1 + 1\<rparr> else t1\<lparr>tl_score_t := tl_score_t t1 + 1\<rparr>)"

text \<open>The first loop, over the participants: survival, KAST and rounds played.\<close>

definition close_participant :: "u64 \<times> int \<Rightarrow> StatsAccumulator \<Rightarrow> StatsAccumulator" where
  "close_participant = (\<lambda>(i, side) a.
     let survived = (i \<notin> rd_dead (sa_round a));
         team = py_team (get no_player (sa_players a) i);
         a1 = modR i (\<lambda>r. r\<lparr>pr_side := side, pr_team := (if pr_team r = 0 then team else pr_team r),
                           pr_survived := survived, pr_kast := (pr_kast r \<or> survived)\<rparr>) a;
         kast = pr_kast (get no_round (rd_pr (sa_round a1)) i)
     in modP i (\<lambda>s. s\<lparr>ps_rounds_played := ps_rounds_played s + 1,
                      ps_kast_rounds := (if kast then ps_kast_rounds s + 1 else ps_kast_rounds s)\<rparr>) a1)"

definition bump :: "nat \<Rightarrow> int list \<Rightarrow> int list" where
  "bump n xs = xs[n := xs ! n + 1]"

text \<open>The second loop, over the round's records: multi-kills and the clutch.\<close>

definition close_record :: "int \<Rightarrow> u64 \<Rightarrow> StatsAccumulator \<Rightarrow> StatsAccumulator" where
  "close_record winnerSide i a =
     (let r = get no_round (rd_pr (sa_round a)) i;
          won = (pr_clutch_vs r > 0 \<and> map_option fst (map_of (rd_clutch (sa_round a)) winnerSide) = Some i);
          a1 = modP i (\<lambda>s. let s1 = (if pr_kills r > 0
                                     then s\<lparr>ps_multi_kills := bump (nat (min (pr_kills r) 5 - 1)) (ps_multi_kills s)\<rparr> else s)
                           in if won then s1\<lparr>ps_clutches_won := bump (nat (pr_clutch_vs r - 1)) (ps_clutches_won s1)\<rparr> else s1) a;
          team = py_team (get no_player (sa_players a1) i)
      in modR i (\<lambda>x. x\<lparr>pr_clutch_won := (if won then True else pr_clutch_won x),
                      pr_team := (if pr_team x = 0 then team else pr_team x)\<rparr>) a1)"

definition OnRoundEnd :: "int \<Rightarrow> int \<Rightarrow> StatsAccumulator \<Rightarrow> StatsAccumulator" where
  "OnRoundEnd winnerSide reason a =
     (if \<not> sa_live a then a
      else
        (let slot = SlotForSide a winnerSide;
             a1 = (if slot = 1 then a\<lparr>sa_t1 := add_win winnerSide (sa_t1 a)\<rparr>
                   else if slot = 2 then a\<lparr>sa_t2 := add_win winnerSide (sa_t2 a)\<rparr> else a);
             a2 = fold close_participant (rd_side (sa_round a1)) a1;
             a3 = fold (close_record winnerSide) (map fst (rd_pr (sa_round a2))) a2;
             summary = \<lparr>rs_round_number = int (length (sa_rounds a)) + 1,
                        rs_winner_side = (if winnerSide = 2 \<or> winnerSide = 3 then winnerSide else 0),
                        rs_winner_team = slot, rs_reason = reason, rs_team1_score = tl_score (sa_t1 a1),
                        rs_team2_score = tl_score (sa_t2 a1), rs_team1_was_ct = sa_team1IsCt a,
                        rs_players = sort_key (\<lambda>r. (pr_team r, pr_id r)) (map snd (rd_pr (sa_round a3)))\<rparr>
         in a3\<lparr>sa_rounds := sa_rounds a3 @ [summary], sa_round := new_round\<rparr>))"

section \<open>Snapshot, restore and rewind\<close>

definition player_line :: "u64 \<times> Player \<Rightarrow> PlayerLine" where
  "player_line = (\<lambda>(i, p).
     \<lparr>ln_id = i, ln_name = py_name p, ln_team = py_team p, ln_last_side = py_lastSide p, ln_bot = py_bot p, ln_stats = py_s p\<rparr>)"

definition Snapshot_stats :: "StatsAccumulator \<Rightarrow> MapStats" where
  "Snapshot_stats a =
     \<lparr>mp_live = sa_live a, mp_team1_is_ct = sa_team1IsCt a, mp_team1 = sa_t1 a, mp_team2 = sa_t2 a,
      mp_players = sort_key (\<lambda>l. (ln_team l, ln_id l)) (map player_line (sa_players a)),
      mp_rounds = sa_rounds a\<rparr>"

definition Restore_stats :: "MapStats \<Rightarrow> StatsAccumulator \<Rightarrow> StatsAccumulator" where
  "Restore_stats m a =
     (let a1 = (Clear a)\<lparr>sa_live := mp_live m, sa_team1IsCt := mp_team1_is_ct m, sa_t1 := mp_team1 m, sa_t2 := mp_team2 m\<rparr>;
          a2 = fold (\<lambda>l. modPlayer (ln_id l)
                 (\<lambda>p. p\<lparr>py_name := ln_name l, py_team := ln_team l, py_lastSide := ln_last_side l, py_bot := ln_bot l,
                        py_s := ln_stats l\<rparr>)) (mp_players m) a1
      in a2\<lparr>sa_rounds := mp_rounds m\<rparr>)"

definition dec :: "int \<Rightarrow> int \<Rightarrow> int" where
  "dec by v = (if v - by < 0 then 0 else v - by)"

definition dec_at :: "nat \<Rightarrow> int list \<Rightarrow> int list" where
  "dec_at n xs = xs[n := dec 1 (xs ! n)]"

text \<open>What a voided round takes back from a player.\<close>

definition take_back :: "PlayerRound \<Rightarrow> PlayerStats \<Rightarrow> PlayerStats" where
  "take_back r s =
     s\<lparr>ps_kills := dec (pr_kills r) (ps_kills s),
       ps_assists := dec (pr_assists r) (ps_assists s),
       ps_flash_assists := dec (pr_flash_assists r) (ps_flash_assists s),
       ps_damage := dec (pr_damage r) (ps_damage s),
       ps_utility_damage := dec (pr_utility_damage r) (ps_utility_damage s),
       ps_headshot_kills := dec (pr_headshot_kills r) (ps_headshot_kills s),
       ps_deaths := (if pr_died r then dec 1 (ps_deaths s) else ps_deaths s),
       ps_kast_rounds := (if pr_kast r then dec 1 (ps_kast_rounds s) else ps_kast_rounds s),
       ps_rounds_played := dec 1 (ps_rounds_played s),
       ps_mvp := (if pr_mvp r then dec 1 (ps_mvp s) else ps_mvp s),
       ps_entry_kills_t := (if pr_entry_kill r \<and> pr_side r = 2 then dec 1 (ps_entry_kills_t s) else ps_entry_kills_t s),
       ps_entry_kills_ct := (if pr_entry_kill r \<and> pr_side r \<noteq> 2 then dec 1 (ps_entry_kills_ct s) else ps_entry_kills_ct s),
       ps_entry_deaths_t := (if pr_entry_death r \<and> pr_side r = 2 then dec 1 (ps_entry_deaths_t s) else ps_entry_deaths_t s),
       ps_entry_deaths_ct := (if pr_entry_death r \<and> pr_side r \<noteq> 2 then dec 1 (ps_entry_deaths_ct s) else ps_entry_deaths_ct s),
       ps_traded_deaths := (if pr_traded r then dec 1 (ps_traded_deaths s) else ps_traded_deaths s),
       ps_multi_kills := (if pr_kills r > 0 then dec_at (nat (min (pr_kills r) 5 - 1)) (ps_multi_kills s) else ps_multi_kills s),
       ps_clutches_won := (if pr_clutch_won r \<and> pr_clutch_vs r \<ge> 1 \<and> pr_clutch_vs r \<le> 5
                           then dec_at (nat (pr_clutch_vs r - 1)) (ps_clutches_won s) else ps_clutches_won s)\<rparr>"

text \<open>\<open>find_if\<close> by id: the first line of that player.\<close>

fun take_back_from :: "PlayerRound \<Rightarrow> PlayerLine list \<Rightarrow> PlayerLine list" where
  "take_back_from r [] = []"
| "take_back_from r (l # ls) =
     (if ln_id l = pr_id r then l\<lparr>ln_stats := take_back r (ln_stats l)\<rparr> # ls else l # take_back_from r ls)"

definition lose_win :: "bool \<Rightarrow> TeamLine \<Rightarrow> TeamLine" where
  "lose_win winnerCt t =
     (let t1 = t\<lparr>tl_score := dec 1 (tl_score t)\<rparr>
      in if winnerCt then t1\<lparr>tl_score_ct := dec 1 (tl_score_ct t1)\<rparr> else t1\<lparr>tl_score_t := dec 1 (tl_score_t t1)\<rparr>)"

definition void_round :: "RoundSummary \<Rightarrow> MapStats \<Rightarrow> MapStats" where
  "void_round r m =
     (let m1 = (if rs_winner_team r = 1 then m\<lparr>mp_team1 := lose_win (rs_team1_was_ct r) (mp_team1 m)\<rparr>
                else if rs_winner_team r = 2 then m\<lparr>mp_team2 := lose_win (\<not> rs_team1_was_ct r) (mp_team2 m)\<rparr> else m)
      in m1\<lparr>mp_players := fold take_back_from (rs_players r) (mp_players m1)\<rparr>)"

text \<open>The number of rounds dropped, and the map without them.\<close>

definition RewindTo :: "MapStats \<Rightarrow> int \<Rightarrow> int \<times> MapStats" where
  "RewindTo m fromRound =
     (if fromRound < 1 then (0, m)
      else
        (let gone = filter (\<lambda>r. \<not> rs_round_number r < fromRound) (mp_rounds m);
             m1 = (case gone of [] \<Rightarrow> m | r # _ \<Rightarrow> m\<lparr>mp_team1_is_ct := rs_team1_was_ct r\<rparr>);
             m2 = fold void_round gone m1
         in (int (length gone), m2\<lparr>mp_rounds := filter (\<lambda>r. rs_round_number r < fromRound) (mp_rounds m)\<rparr>)))"

section \<open>The books\<close>

text \<open>
  The totals a round record carries, as an enumeration: \<open>tot\<close> reads one from a player's totals and
  \<open>part\<close> from a round record; \<open>cur\<close> is the part that is already in the totals while the round runs.
\<close>

datatype Field =
  F_kills | F_deaths | F_assists | F_flash_assists | F_headshots | F_damage | F_utility
| F_entry_kills_t | F_entry_kills_ct | F_entry_deaths_t | F_entry_deaths_ct | F_traded | F_mvp
| F_kast | F_rounds | F_multi nat | F_clutch nat

abbreviation one_if :: "bool \<Rightarrow> int" where
  "one_if b \<equiv> (if b then 1 else 0)"

fun tot :: "Field \<Rightarrow> PlayerStats \<Rightarrow> int" where
  "tot F_kills s = ps_kills s"
| "tot F_deaths s = ps_deaths s"
| "tot F_assists s = ps_assists s"
| "tot F_flash_assists s = ps_flash_assists s"
| "tot F_headshots s = ps_headshot_kills s"
| "tot F_damage s = ps_damage s"
| "tot F_utility s = ps_utility_damage s"
| "tot F_entry_kills_t s = ps_entry_kills_t s"
| "tot F_entry_kills_ct s = ps_entry_kills_ct s"
| "tot F_entry_deaths_t s = ps_entry_deaths_t s"
| "tot F_entry_deaths_ct s = ps_entry_deaths_ct s"
| "tot F_traded s = ps_traded_deaths s"
| "tot F_mvp s = ps_mvp s"
| "tot F_kast s = ps_kast_rounds s"
| "tot F_rounds s = ps_rounds_played s"
| "tot (F_multi n) s = (if n < length (ps_multi_kills s) then ps_multi_kills s ! n else 0)"
| "tot (F_clutch n) s = (if n < length (ps_clutches_won s) then ps_clutches_won s ! n else 0)"

fun part :: "Field \<Rightarrow> PlayerRound \<Rightarrow> int" where
  "part F_kills r = pr_kills r"
| "part F_deaths r = one_if (pr_died r)"
| "part F_assists r = pr_assists r"
| "part F_flash_assists r = pr_flash_assists r"
| "part F_headshots r = pr_headshot_kills r"
| "part F_damage r = pr_damage r"
| "part F_utility r = pr_utility_damage r"
| "part F_entry_kills_t r = one_if (pr_entry_kill r \<and> pr_side r = 2)"
| "part F_entry_kills_ct r = one_if (pr_entry_kill r \<and> pr_side r \<noteq> 2)"
| "part F_entry_deaths_t r = one_if (pr_entry_death r \<and> pr_side r = 2)"
| "part F_entry_deaths_ct r = one_if (pr_entry_death r \<and> pr_side r \<noteq> 2)"
| "part F_traded r = one_if (pr_traded r)"
| "part F_mvp r = one_if (pr_mvp r)"
| "part F_kast r = one_if (pr_kast r)"
| "part F_rounds r = 1"
| "part (F_multi n) r = one_if (pr_kills r > 0 \<and> nat (min (pr_kills r) 5 - 1) = n)"
| "part (F_clutch n) r = one_if (pr_clutch_won r \<and> 1 \<le> pr_clutch_vs r \<and> pr_clutch_vs r \<le> 5 \<and> nat (pr_clutch_vs r - 1) = n)"

fun at_end :: "Field \<Rightarrow> bool" where
  "at_end F_kast = True"
| "at_end F_rounds = True"
| "at_end (F_multi n) = True"
| "at_end (F_clutch n) = True"
| "at_end _ = False"

definition cur :: "Field \<Rightarrow> PlayerRound \<Rightarrow> int" where
  "cur c r = (if at_end c then 0 else part c r)"

abbreviation stats_of :: "StatsAccumulator \<Rightarrow> u64 \<Rightarrow> PlayerStats" where
  "stats_of a i \<equiv> py_s (get no_player (sa_players a) i)"

abbreviation record_of :: "StatsAccumulator \<Rightarrow> u64 \<Rightarrow> PlayerRound" where
  "record_of a i \<equiv> get no_round (rd_pr (sa_round a)) i"

abbreviation participants :: "StatsAccumulator \<Rightarrow> u64 set" where
  "participants a \<equiv> keys (rd_side (sa_round a))"

definition bal :: "StatsAccumulator \<Rightarrow> u64 \<Rightarrow> Field \<Rightarrow> int" where
  "bal a i c = tot c (stats_of a i) - cur c (record_of a i)"

text \<open>What the rounds on record hold of a player.\<close>

definition share :: "Field \<Rightarrow> u64 \<Rightarrow> RoundSummary \<Rightarrow> int" where
  "share c i r = sum_list (map (part c) (filter (\<lambda>p. pr_id p = i) (rs_players r)))"

definition booked :: "Field \<Rightarrow> u64 \<Rightarrow> RoundSummary list \<Rightarrow> int" where
  "booked c i rs = sum_list (map (share c i) rs)"

text \<open>A record of the running round.\<close>

definition rec_ok :: "PlayerRound \<Rightarrow> bool" where
  "rec_ok r \<longleftrightarrow>
     0 \<le> pr_kills r \<and> 0 \<le> pr_assists r \<and> 0 \<le> pr_flash_assists r \<and> 0 \<le> pr_headshot_kills r \<and> 0 \<le> pr_damage r \<and>
     0 \<le> pr_utility_damage r \<and> 0 \<le> pr_clutch_vs r \<and> pr_clutch_vs r \<le> 5 \<and> \<not> pr_clutch_won r"

text \<open>The running round: who has a record takes part in it, on the side the record says.\<close>

definition rnd_ok :: "StatsAccumulator \<Rightarrow> bool" where
  "rnd_ok a \<longleftrightarrow>
     (let r = sa_round a in
      distinct (map fst (sa_players a)) \<and> distinct (map fst (rd_side r)) \<and> distinct (map fst (rd_pr r)) \<and>
      keys (rd_pr r) \<subseteq> participants a \<and> keys (rd_deathBy r) \<subseteq> participants a \<and>
      (\<forall>i s. map_of (rd_side r) i = Some s \<longrightarrow> (s = 2 \<or> s = 3) \<and> pr_side (record_of a i) = s) \<and>
      (\<forall>i. pr_died (record_of a i) \<longleftrightarrow> i \<in> rd_dead r) \<and>
      (\<not> rd_entryDone r \<longrightarrow> (\<forall>i. \<not> pr_entry_kill (record_of a i) \<and> \<not> pr_entry_death (record_of a i))) \<and>
      (\<forall>i. rec_ok (record_of a i)) \<and> (\<forall>i \<in> keys (rd_pr r). pr_id (record_of a i) = i) \<and>
      (\<forall>i. length (ps_multi_kills (stats_of a i)) = 5 \<and> length (ps_clutches_won (stats_of a i)) = 5))"

lemma stats_mod [simp]:
  "stats_of (modP j f a) i = (if i = j then f (stats_of a j) else stats_of a i)"
  "stats_of (modRound h a) i = stats_of a i" "stats_of (modR j g a) i = stats_of a i"
  by (simp_all add: modP_def modPlayer_def modR_def modRound_def)

lemma record_mod [simp]:
  "record_of (modP j f a) i = record_of a i" "record_of (modPlayer j k a) i = record_of a i"
  "record_of (modR j g a) i = (if i = j then g ((record_of a j)\<lparr>pr_id := j\<rparr>) else record_of a i)"
  by (simp_all add: modP_def modPlayer_def modR_def modRound_def)

lemma modP_sel [simp]:
  "sa_round (modP j f a) = sa_round a" "sa_rounds (modP j f a) = sa_rounds a" "sa_live (modP j f a) = sa_live a"
  "sa_t1 (modP j f a) = sa_t1 a" "sa_t2 (modP j f a) = sa_t2 a" "sa_team1IsCt (modP j f a) = sa_team1IsCt a"
  by (simp_all add: modP_def modPlayer_def)

lemma modRound_sel [simp]:
  "sa_round (modRound h a) = h (sa_round a)" "sa_rounds (modRound h a) = sa_rounds a" "sa_live (modRound h a) = sa_live a"
  "sa_t1 (modRound h a) = sa_t1 a" "sa_t2 (modRound h a) = sa_t2 a" "sa_team1IsCt (modRound h a) = sa_team1IsCt a"
  "sa_players (modRound h a) = sa_players a"
  by (simp_all add: modRound_def)

lemma modR_sel [simp]:
  "sa_rounds (modR j g a) = sa_rounds a" "sa_live (modR j g a) = sa_live a"
  "sa_t1 (modR j g a) = sa_t1 a" "sa_t2 (modR j g a) = sa_t2 a" "sa_team1IsCt (modR j g a) = sa_team1IsCt a"
  "sa_players (modR j g a) = sa_players a" "rd_side (sa_round (modR j g a)) = rd_side (sa_round a)"
  "rd_dead (sa_round (modR j g a)) = rd_dead (sa_round a)" "rd_entryDone (sa_round (modR j g a)) = rd_entryDone (sa_round a)"
  "rd_deathBy (sa_round (modR j g a)) = rd_deathBy (sa_round a)" "rd_clutch (sa_round (modR j g a)) = rd_clutch (sa_round a)"
  "rd_health (sa_round (modR j g a)) = rd_health (sa_round a)"
  "keys (rd_pr (sa_round (modR j g a))) = insert j (keys (rd_pr (sa_round a)))"
  "distinct (map fst (rd_pr (sa_round (modR j g a)))) = distinct (map fst (rd_pr (sa_round a)))"
  by (simp_all add: modR_def)

lemma distinct_players_modP [simp]: "distinct (map fst (sa_players (modP j f a))) = distinct (map fst (sa_players a))"
  by (simp add: modP_def modPlayer_def)

lemma cur_id [simp]: "cur c (r\<lparr>pr_id := j\<rparr>) = cur c r"
  by (cases c) (simp_all add: cur_def)

lemma rec_ok_id [simp]: "rec_ok (r\<lparr>pr_id := j\<rparr>) = rec_ok r"
  by (simp add: rec_ok_def)

lemma bal_modP: "bal (modP j f a) i c = bal a i c + (if i = j then tot c (f (stats_of a j)) - tot c (stats_of a j) else 0)"
  by (simp add: bal_def)

lemma bal_modR:
  "bal (modR j g a) i c =
     bal a i c - (if i = j then cur c (g ((record_of a j)\<lparr>pr_id := j\<rparr>)) - cur c (record_of a j) else 0)"
  by (simp add: bal_def)

lemma bal_modRound: "rd_pr (h (sa_round a)) = rd_pr (sa_round a) \<Longrightarrow> bal (modRound h a) i c = bal a i c"
  by (simp add: bal_def)

text \<open>A step that keeps the balance, the participants and the scores.\<close>

definition keeps :: "StatsAccumulator \<Rightarrow> StatsAccumulator \<Rightarrow> bool" where
  "keeps a b \<longleftrightarrow>
     rnd_ok b \<and> (\<forall>i c. bal b i c = bal a i c) \<and> sa_rounds b = sa_rounds a \<and> sa_t1 b = sa_t1 a \<and> sa_t2 b = sa_t2 a \<and>
     sa_live b = sa_live a \<and> sa_team1IsCt b = sa_team1IsCt a \<and> rd_side (sa_round b) = rd_side (sa_round a) \<and>
     keys (rd_pr (sa_round a)) \<subseteq> keys (rd_pr (sa_round b))"

lemma keeps_refl [simp]: "rnd_ok a \<Longrightarrow> keeps a a"
  by (simp add: keeps_def)

lemma keeps_trans: "keeps a b \<Longrightarrow> keeps b c \<Longrightarrow> keeps a c"
  by (auto simp: keeps_def)

lemma keeps_ok: "keeps a b \<Longrightarrow> rnd_ok b"
  by (simp add: keeps_def)

lemma keeps_participants: "keeps a b \<Longrightarrow> participants b = participants a"
  by (simp add: keeps_def)

definition lens_ok :: "PlayerStats \<Rightarrow> bool" where
  "lens_ok s \<longleftrightarrow> length (ps_multi_kills s) = 5 \<and> length (ps_clutches_won s) = 5"

definition rec_step :: "(PlayerRound \<Rightarrow> PlayerRound) \<Rightarrow> PlayerRound \<Rightarrow> bool" where
  "rec_step g r \<longleftrightarrow>
     rec_ok (g r) \<and> pr_id (g r) = pr_id r \<and> pr_side (g r) = pr_side r \<and> pr_died (g r) = pr_died r \<and>
     pr_entry_kill (g r) = pr_entry_kill r \<and> pr_entry_death (g r) = pr_entry_death r"

lemma rnd_ok_lens: "rnd_ok a \<Longrightarrow> lens_ok (stats_of a i)"
  by (simp add: rnd_ok_def lens_ok_def Let_def)

lemma rnd_ok_rec: "rnd_ok a \<Longrightarrow> rec_ok (record_of a i)"
  by (simp add: rnd_ok_def Let_def)

lemma rnd_ok_modP: "rnd_ok a \<Longrightarrow> lens_ok (f (stats_of a j)) \<Longrightarrow> rnd_ok (modP j f a)"
  by (simp add: rnd_ok_def lens_ok_def Let_def)

lemma rnd_ok_modR:
  assumes "rnd_ok a" "j \<in> participants a" "rec_step g ((record_of a j)\<lparr>pr_id := j\<rparr>)"
  shows "rnd_ok (modR j g a)"
  using assms by (auto simp: rnd_ok_def rec_step_def Let_def)

lemma modP_keeps:
  "rnd_ok a \<Longrightarrow> lens_ok (f (stats_of a j)) \<Longrightarrow> (\<And>c. tot c (f (stats_of a j)) = tot c (stats_of a j)) \<Longrightarrow> keeps a (modP j f a)"
  by (simp add: keeps_def rnd_ok_modP bal_modP)

lemma modR_keeps:
  assumes "rnd_ok a" "j \<in> participants a" "rec_step g ((record_of a j)\<lparr>pr_id := j\<rparr>)"
    and "\<And>c. cur c (g ((record_of a j)\<lparr>pr_id := j\<rparr>)) = cur c (record_of a j)"
  shows "keeps a (modR j g a)"
  using assms rnd_ok_modR [OF assms(1-3)] by (auto simp: keeps_def bal_modR)

text \<open>The pair of a total and its record changed by the same amount.\<close>

lemma pair_keeps:
  assumes "rnd_ok a" "j \<in> participants a" "rec_step g ((record_of a j)\<lparr>pr_id := j\<rparr>)" "lens_ok (f (stats_of a j))"
    and "\<And>c. tot c (f (stats_of a j)) - tot c (stats_of a j) =
              cur c (g ((record_of a j)\<lparr>pr_id := j\<rparr>)) - cur c (record_of a j)"
  shows "keeps a (modP j f (modR j g a))"
  using assms rnd_ok_modR [OF assms(1-3)] by (auto simp: keeps_def bal_modR bal_modP intro!: rnd_ok_modP)

lemma modP_modR: "modP j f (modR i g a) = modR i g (modP j f a)"
  by (simp add: modP_def modPlayer_def modR_def modRound_def)

lemma modP_modRound: "modP j f (modRound h a) = modRound h (modP j f a)"
  by (simp add: modP_def modPlayer_def modRound_def)

lemmas field_simps_all = cur_def rec_step_def rec_ok_def lens_ok_def Let_def

lemma kill_stats_keeps:
  assumes "rnd_ok a" "attacker \<in> participants a"
  shows "keeps a (kill_stats attacker headshot weapon a)"
  unfolding kill_stats_def
proof (rule pair_keeps [OF assms], goal_cases)
  case 1
  then show ?case using rnd_ok_rec [OF assms(1), of attacker] by (simp add: field_simps_all)
next
  case 2
  then show ?case using rnd_ok_lens [OF assms(1), of attacker] by (simp add: field_simps_all)
next
  case (3 c)
  then show ?case by (cases c) (simp_all add: field_simps_all)
qed

lemma assist_stats_keeps:
  assumes "rnd_ok a" "assister = 0 \<or> assister \<in> participants a"
  shows "keeps a (assist_stats assister attacker victim flash vs a)"
proof (cases "assister \<noteq> 0 \<and> assister \<noteq> attacker \<and> assister \<noteq> victim \<and> (SideOf a assister = 0 \<or> SideOf a assister \<noteq> vs)")
  case True
  then have m: "assister \<in> participants a" using assms(2) by simp
  have "keeps a (modP assister (\<lambda>s. s\<lparr>ps_flash_assists := ps_flash_assists s + 1\<rparr>)
          (modR assister (\<lambda>r. r\<lparr>pr_flash_assists := pr_flash_assists r + 1, pr_kast := True\<rparr>) a))"
    and "keeps a (modP assister (\<lambda>s. s\<lparr>ps_assists := ps_assists s + 1\<rparr>)
          (modR assister (\<lambda>r. r\<lparr>pr_assists := pr_assists r + 1, pr_kast := True\<rparr>) a))"
    by (rule pair_keeps [OF assms(1) m], use rnd_ok_rec [OF assms(1), of assister] rnd_ok_lens [OF assms(1), of assister]
        in \<open>simp_all add: field_simps_all\<close>; case_tac c; simp)+
  with True show ?thesis by (simp add: assist_stats_def)
next
  case False
  then show ?thesis unfolding assist_stats_def by (simp only: if_False keeps_refl [OF assms(1)])
qed

lemma SideOf_participant:
  assumes "rnd_ok a" "i \<in> participants a"
  shows "(SideOf a i = 2 \<or> SideOf a i = 3) \<and> pr_side (record_of a i) = SideOf a i"
proof -
  obtain s where "map_of (rd_side (sa_round a)) i = Some s" using assms(2) by (auto simp: keys_map_of)
  with assms(1) show ?thesis by (auto simp: rnd_ok_def SideOf_def Let_def)
qed

lemma entry_stats_keeps:
  assumes "rnd_ok a" "attacker \<in> participants a" "victim \<in> participants a" "attacker \<noteq> victim"
  shows "keeps a (entry_stats attacker victim (SideOf a attacker) (SideOf a victim) a)"
proof (cases "rd_entryDone (sa_round a)")
  case True
  with assms(1) show ?thesis by (simp add: entry_stats_def)
next
  case False
  note sides = SideOf_participant [OF assms(1,2)] SideOf_participant [OF assms(1,3)]
  have none: "\<not> pr_entry_kill (record_of a i)" "\<not> pr_entry_death (record_of a i)" for i
    using assms(1) False by (auto simp: rnd_ok_def Let_def)
  let ?b = "entry_stats attacker victim (SideOf a attacker) (SideOf a victim) a"
  have b: "bal ?b i c = bal a i c" for i c
    using sides none assms(4) False
    by (cases c) (auto simp: entry_stats_def Let_def bal_def cur_def)
  moreover have "rnd_ok ?b"
    using assms False by (auto simp: entry_stats_def rnd_ok_def Let_def rec_ok_def)
  ultimately show ?thesis using False by (auto simp: keeps_def entry_stats_def Let_def)
qed

lemma trade_one_keeps:
  assumes "rnd_ok a" "mate \<in> participants a"
  shows "keeps a (snd (trade_one attacker victim as time (mate, killer, t) (traded, a)))"
proof -
  let ?r = "(record_of a mate)\<lparr>pr_id := mate\<rparr>"
  have id: "keeps a (modR mate (\<lambda>r. r) a)"
    using rnd_ok_rec [OF assms(1), of mate] by (intro modR_keeps [OF assms]) (simp_all add: rec_step_def)
  have "keeps a (modP mate (\<lambda>s. s\<lparr>ps_traded_deaths := ps_traded_deaths s + 1\<rparr>)
          (modR mate (\<lambda>r. r\<lparr>pr_traded := True, pr_kast := True\<rparr>) a))" if "\<not> pr_traded (record_of a mate)"
  proof (rule pair_keeps [OF assms], goal_cases)
    case 1
    then show ?case using rnd_ok_rec [OF assms(1), of mate] by (simp add: field_simps_all)
  next
    case 2
    then show ?case using rnd_ok_lens [OF assms(1), of mate] by (simp add: field_simps_all)
  next
    case (3 c)
    then show ?case using that by (cases c) (simp_all add: field_simps_all)
  qed
  with id assms(1) show ?thesis by (auto simp: trade_one_def)
qed

lemma trade_fold_keeps:
  assumes "rnd_ok a" "fst ` set ds \<subseteq> participants a"
  shows "keeps a (snd (fold (trade_one attacker victim as time) ds (traded, a)))"
  using assms
proof (induction ds arbitrary: traded a)
  case (Cons d ds)
  obtain mate killer t where d: "d = (mate, killer, t)" by (metis prod.exhaust)
  obtain tr b where tb: "trade_one attacker victim as time d (traded, a) = (tr, b)" by fastforce
  have k: "keeps a b" using trade_one_keeps [OF Cons.prems(1), of mate attacker victim as time killer t traded] Cons.prems(2) d tb
    by simp
  have "keeps b (snd (fold (trade_one attacker victim as time) ds (tr, b)))"
    using Cons.prems(2) keeps_participants [OF k] by (intro Cons.IH keeps_ok [OF k]) auto
  with k tb show ?case by (simp add: keeps_trans)
qed simp

lemma trade_stats_keeps:
  assumes "rnd_ok a"
  shows "keeps a (trade_stats attacker victim as time a)"
proof -
  obtain traded b where f: "fold (trade_one attacker victim as time) (rd_deathBy (sa_round a)) (False, a) = (traded, b)" by fastforce
  have "fst ` set (rd_deathBy (sa_round a)) \<subseteq> participants a"
    using assms by (simp add: rnd_ok_def Let_def keys_def)
  then have k: "keeps a b" using trade_fold_keeps [OF assms, of "rd_deathBy (sa_round a)"] f by (metis snd_conv)
  have "keeps b (modP attacker (\<lambda>s. s\<lparr>ps_trade_kills := ps_trade_kills s + 1\<rparr>) b)"
    using rnd_ok_lens [OF keeps_ok [OF k], of attacker]
    by (intro modP_keeps keeps_ok [OF k]) (auto simp: lens_ok_def split: if_splits, case_tac c, simp_all)
  with k f show ?thesis by (auto simp: trade_stats_def intro: keeps_trans)
qed

lemma deathBy_keeps:
  "rnd_ok a \<Longrightarrow> victim \<in> participants a \<Longrightarrow>
     keeps a (modRound (\<lambda>r. r\<lparr>rd_deathBy := alter d victim f (rd_deathBy r)\<rparr>) a)"
  by (auto simp: keeps_def bal_modRound rnd_ok_def Let_def)

lemma alive_on_participants: "set (alive_on (sa_round a) s) \<subseteq> participants a"
  by (auto simp: alive_on_def keys_def)

lemma clutch_stats_keeps:
  assumes "rnd_ok a"
  shows "keeps a (clutch_stats vs a)"
proof (cases "length (alive_on (sa_round a) vs) = 1 \<and> enemies_of (sa_round a) vs \<ge> 1")
  case False
  with assms show ?thesis by (auto simp: clutch_stats_def Let_def)
next
  case True
  define l n where "l = last (alive_on (sa_round a) vs)" and "n = min (enemies_of (sa_round a) vs) 5"
  define b where "b = modRound (\<lambda>r. r\<lparr>rd_clutch := alter (0, 0) vs (\<lambda>_. (l, n)) (rd_clutch r)\<rparr>) a"
  have l: "l \<in> participants a"
    using True alive_on_participants [of a vs] unfolding l_def by (metis last_in_set length_0_conv subset_iff zero_neq_one)
  have kb: "keeps a b" using assms by (auto simp: b_def keeps_def bal_modRound rnd_ok_def Let_def)
  have "keeps b (modR l (\<lambda>x. x\<lparr>pr_clutch_vs := n\<rparr>) b)"
  proof (rule modR_keeps [OF keeps_ok [OF kb]], goal_cases)
    case 1
    then show ?case using l keeps_participants [OF kb] by simp
  next
    case 2
    then show ?case using rnd_ok_rec [OF keeps_ok [OF kb], of l] True by (simp add: field_simps_all n_def)
  next
    case (3 c)
    then show ?case by (cases c) (simp_all add: cur_def)
  qed
  with kb have "keeps a (modR l (\<lambda>x. x\<lparr>pr_clutch_vs := n\<rparr>) b)" by (rule keeps_trans)
  with assms show ?thesis by (simp add: clutch_stats_def Let_def l_def n_def b_def)
qed

lemma alter_same: "k \<in> keys m \<Longrightarrow> alter d k (\<lambda>x. x) m = m"
  by (induction m) (auto simp: keys_map_of split: if_splits)

definition dies :: "u64 \<Rightarrow> StatsAccumulator \<Rightarrow> StatsAccumulator" where
  "dies v a = modR v (\<lambda>r. r\<lparr>pr_died := True\<rparr>) (modRound (\<lambda>r. r\<lparr>rd_dead := insert v (rd_dead r)\<rparr>)
                (modP v (\<lambda>s. s\<lparr>ps_deaths := ps_deaths s + 1\<rparr>) a))"

lemma dies_keeps:
  assumes "rnd_ok a" "v \<in> participants a" "v \<notin> rd_dead (sa_round a)"
  shows "keeps a (dies v a)"
proof -
  have "\<not> pr_died (record_of a v)" using assms(1,3) by (simp add: rnd_ok_def Let_def)
  then have "bal (dies v a) i c = bal a i c" for i c
    by (cases c) (simp_all add: dies_def bal_def cur_def)
  moreover have "rnd_ok (dies v a)"
    using assms by (auto simp: dies_def rnd_ok_def Let_def rec_ok_def)
  ultimately show ?thesis by (auto simp: keeps_def dies_def)
qed

lemma OnPlayerDeath_keeps:
  assumes ok: "rnd_ok a" and v: "victim \<in> participants a" "victim \<notin> rd_dead (sa_round a)"
    and at: "attacker = 0 \<or> attacker \<in> participants a" and as: "assister = 0 \<or> assister \<in> participants a"
  shows "keeps a (OnPlayerDeath victim attacker assister flash hs weapon time a)"
proof (cases "\<not> sa_live a \<or> victim = 0")
  case True
  with ok show ?thesis by (simp add: OnPlayerDeath_def)
next
  case False
  define vs where "vs = SideOf a victim"
  have vs: "vs = 2 \<or> vs = 3" using SideOf_participant [OF ok v(1)] by (simp add: vs_def)
  have same: "modRound (\<lambda>r. r\<lparr>rd_side := alter vs victim (\<lambda>s. s) (rd_side r)\<rparr>) a = a"
    using v(1) by (simp add: modRound_def alter_same)
  define b where "b = dies victim a"
  have kb: "keeps a b" unfolding b_def by (rule dies_keeps [OF ok v])
  note okb = keeps_ok [OF kb] and pb = keeps_participants [OF kb]
  have sideb: "SideOf b i = SideOf a i" if "i \<in> participants a" for i
    using that kb by (auto simp: keeps_def SideOf_def keys_map_of)
  define su where "su \<longleftrightarrow> attacker = 0 \<or> attacker = victim"
  define sd where "sd = (if su then 0 else SideOf b attacker)"
  define tk where "tk \<longleftrightarrow> \<not> su \<and> sd \<noteq> 0 \<and> sd = vs"
  define c where "c = (if su then modP victim (\<lambda>s. s\<lparr>ps_suicides := ps_suicides s + 1\<rparr>) b
                   else if tk then modP attacker (\<lambda>s. s\<lparr>ps_team_kills := ps_team_kills s + 1\<rparr>) b
                   else trade_stats attacker victim sd time (entry_stats attacker victim sd vs (kill_stats attacker hs weapon b)))"
  have plain: "keeps b (modP j f b)" if "\<And>s. lens_ok s \<Longrightarrow> lens_ok (f s)" "\<And>d s. tot d (f s) = tot d s" for j f
    using that rnd_ok_lens [OF okb] by (intro modP_keeps okb) auto
  have "keeps b c"
  proof (cases "su \<or> tk")
    case True
    have "keeps b (modP victim (\<lambda>s. s\<lparr>ps_suicides := ps_suicides s + 1\<rparr>) b)"
      and "keeps b (modP attacker (\<lambda>s. s\<lparr>ps_team_kills := ps_team_kills s + 1\<rparr>) b)"
      by (rule plain, simp add: lens_ok_def, case_tac d, simp_all)+
    with True show ?thesis by (auto simp: c_def tk_def)
  next
    case no: False
    then have m: "attacker \<in> participants b" "victim \<in> participants b" "attacker \<noteq> victim"
      using at v pb by (auto simp: su_def)
    define e where "e = kill_stats attacker hs weapon b"
    have ke: "keeps b e" unfolding e_def by (rule kill_stats_keeps [OF okb m(1)])
    have se: "SideOf e i = SideOf b i" if "i \<in> participants b" for i
      using that ke by (auto simp: keeps_def SideOf_def keys_map_of)
    have "sd = SideOf e attacker" "vs = SideOf e victim"
      using no se m sideb v(1) by (simp_all add: sd_def vs_def)
    then have "keeps e (entry_stats attacker victim sd vs e)"
      using entry_stats_keeps [OF keeps_ok [OF ke], of attacker victim] m keeps_participants [OF ke] by simp
    then have "keeps b (entry_stats attacker victim sd vs e)" using ke keeps_trans by blast
    then have "keeps b (trade_stats attacker victim sd time (entry_stats attacker victim sd vs e))"
      using trade_stats_keeps keeps_ok keeps_trans by blast
    with no show ?thesis by (auto simp: c_def e_def)
  qed
  then have kc: "keeps a c" using kb keeps_trans by blast
  define g where "g = (if su then c
                   else modRound (\<lambda>r. r\<lparr>rd_deathBy := alter (0, 0) victim (\<lambda>_. (attacker, time)) (rd_deathBy r)\<rparr>) c)"
  have kg: "keeps a g"
    using kc deathBy_keeps [OF keeps_ok [OF kc], of victim] v(1) keeps_participants [OF kc] keeps_trans
    by (auto simp: g_def)
  have kh: "keeps a (assist_stats assister attacker victim flash vs g)"
    using assist_stats_keeps [OF keeps_ok [OF kg]] as keeps_participants [OF kg] keeps_trans [OF kg] by blast
  have "OnPlayerDeath victim attacker assister flash hs weapon time a =
        clutch_stats vs (assist_stats assister attacker victim flash vs g)"
    unfolding OnPlayerDeath_def Let_def vs_def [symmetric] same
    using False vs by (simp add: g_def c_def su_def sd_def tk_def b_def dies_def same)
  then show ?thesis using clutch_stats_keeps [OF keeps_ok [OF kh]] kh keeps_trans by simp
qed

lemma OnPlayerHurt_keeps:
  assumes "rnd_ok a" "attacker = 0 \<or> attacker \<in> participants a"
  shows "keeps a (OnPlayerHurt victim attacker dmg health weapon a)"
proof -
  define before where "before = max 0 (get 100 (rd_health (sa_round a)) victim)"
  define actual where "actual = (if dmg > 0 then before - clamp health 0 before else 0)"
  define b where "b = modRound (\<lambda>r. r\<lparr>rd_health := alter 100 victim (\<lambda>_. clamp health 0 before) (rd_health r)\<rparr>) a"
  have pos: "0 \<le> actual" using clamp_bounds(2) [of 0 before health] by (simp add: actual_def before_def)
  have kb: "keeps a b" using assms(1) by (auto simp: b_def keeps_def bal_modRound rnd_ok_def Let_def)
  have "keeps b (modP attacker (\<lambda>s. let s1 = s\<lparr>ps_damage := ps_damage s + actual\<rparr>
                                 in if IsUtilityWeapon weapon then s1\<lparr>ps_utility_damage := ps_utility_damage s1 + actual\<rparr> else s1)
                (modR attacker (\<lambda>r. let r1 = r\<lparr>pr_damage := pr_damage r + actual\<rparr>
                                    in if IsUtilityWeapon weapon then r1\<lparr>pr_utility_damage := pr_utility_damage r1 + actual\<rparr> else r1) b))"
    if "attacker \<in> participants a"
  proof (rule pair_keeps [OF keeps_ok [OF kb]], goal_cases)
    case 1
    then show ?case using that keeps_participants [OF kb] by simp
  next
    case 2
    then show ?case using rnd_ok_rec [OF keeps_ok [OF kb], of attacker] pos by (simp add: field_simps_all)
  next
    case 3
    then show ?case using rnd_ok_lens [OF keeps_ok [OF kb], of attacker] by (simp add: field_simps_all)
  next
    case (4 c)
    then show ?case by (cases c) (simp_all add: cur_def Let_def)
  qed
  with assms kb show ?thesis
    unfolding OnPlayerHurt_def Let_def before_def [symmetric] actual_def [symmetric] b_def [symmetric]
    by (auto intro: keeps_trans)
qed

lemma OnRoundMvp_keeps:
  assumes "rnd_ok a" "i \<in> participants a" "\<not> pr_mvp (record_of a i)"
  shows "keeps a (OnRoundMvp i a)"
proof -
  have "keeps a (modP i (\<lambda>s. s\<lparr>ps_mvp := ps_mvp s + 1\<rparr>) (modR i (\<lambda>r. r\<lparr>pr_mvp := True\<rparr>) a))"
  proof (rule pair_keeps [OF assms(1,2)], goal_cases)
    case 1
    then show ?case using rnd_ok_rec [OF assms(1), of i] by (simp add: field_simps_all)
  next
    case 2
    then show ?case using rnd_ok_lens [OF assms(1), of i] by (simp add: field_simps_all)
  next
    case (3 c)
    then show ?case using assms(3) by (cases c) (simp_all add: cur_def)
  qed
  with assms(1) show ?thesis by (simp add: OnRoundMvp_def modP_modR)
qed

text \<open>A step of the running round as a whole: the participants may grow.\<close>

definition in_round :: "StatsAccumulator \<Rightarrow> StatsAccumulator \<Rightarrow> bool" where
  "in_round a b \<longleftrightarrow>
     rnd_ok b \<and> (\<forall>i c. bal b i c = bal a i c) \<and> sa_rounds b = sa_rounds a \<and> sa_t1 b = sa_t1 a \<and> sa_t2 b = sa_t2 a"

lemma keeps_in_round: "keeps a b \<Longrightarrow> in_round a b"
  by (simp add: keeps_def in_round_def)

lemma in_round_refl: "rnd_ok a \<Longrightarrow> in_round a a"
  by (simp add: in_round_def)

lemma ObservePlayer_in_round:
  assumes "rnd_ok a" "i \<in> participants a \<Longrightarrow> side = 2 \<or> side = 3 \<Longrightarrow> SideOf a i = side"
  shows "in_round a (ObservePlayer i name side teamSlot isBot a)"
proof -
  define f where "f = (\<lambda>p :: Player. if teamSlot = 1 \<or> teamSlot = 2 then p\<lparr>py_team := teamSlot\<rparr>
                            else if py_team p = 0 then p\<lparr>py_team := SlotForSide a (py_lastSide p)\<rparr> else p)
       \<circ> (\<lambda>p. if side = 2 \<or> side = 3 then p\<lparr>py_lastSide := side\<rparr> else p)
       \<circ> (\<lambda>p. if isBot then p\<lparr>py_bot := True\<rparr> else p) \<circ> (\<lambda>p. if name \<noteq> [] then p\<lparr>py_name := name\<rparr> else p)"
  have f: "py_s (f p) = py_s p" for p by (simp add: f_def)
  define b where "b = modPlayer i f a"
  have st: "stats_of b j = stats_of a j" for j by (simp add: b_def modPlayer_def f)
  have rec: "sa_round b = sa_round a" by (simp add: b_def modPlayer_def)
  have okb: "rnd_ok b"
    using assms(1) st rec by (simp add: rnd_ok_def Let_def) (simp add: b_def modPlayer_def)
  have inb: "in_round a b" using okb st rec by (simp add: in_round_def bal_def) (simp add: b_def modPlayer_def)
  define t where "t = py_team (get no_player (sa_players b) i)"
  define d where "d = modR i (\<lambda>r. r\<lparr>pr_side := side, pr_team := t\<rparr>)
                       (modRound (\<lambda>r. r\<lparr>rd_side := alter 0 i (\<lambda>_. side) (rd_side r)\<rparr>) b)"
  have "in_round a d" if s: "side = 2 \<or> side = 3"
  proof -
    have new: "record_of b i = no_round" if "i \<notin> participants a"
      using that okb rec by (auto simp: rnd_ok_def Let_def intro!: get_default)
    have old: "pr_side (record_of b i) = side" if "i \<in> participants a"
      using SideOf_participant [OF assms(1) that] assms(2) [OF that s] rec by simp
    have alive: "i \<notin> rd_dead (sa_round a)" if "i \<notin> participants a"
      using okb new [OF that] rec by (auto simp: rnd_ok_def Let_def dest: spec [of _ i])
    have "bal d j c = bal b j c" for j c
      using new old by (cases "i \<in> participants a"; cases c) (auto simp: d_def bal_def cur_def)
    moreover have "rnd_ok d"
      using okb new old s rec alive
      by (cases "i \<in> participants a")
        (auto simp: d_def rnd_ok_def Let_def rec_ok_def map_of_alter)
    ultimately show ?thesis using inb by (auto simp: in_round_def d_def)
  qed
  moreover have "ObservePlayer i name side teamSlot isBot a =
      (if i = 0 then a else if sa_live a \<and> (side = 2 \<or> side = 3) then d else b)"
    by (simp only: ObservePlayer_def Let_def f_def b_def t_def d_def)
  ultimately show ?thesis using inb assms(1) by (simp add: in_round_refl)
qed

section \<open>Closing a round\<close>

definition closed_stats :: "bool \<Rightarrow> PlayerRound \<Rightarrow> PlayerStats \<Rightarrow> PlayerStats" where
  "closed_stats survived r s =
     s\<lparr>ps_rounds_played := ps_rounds_played s + 1,
       ps_kast_rounds := (if pr_kast r \<or> survived then ps_kast_rounds s + 1 else ps_kast_rounds s)\<rparr>"

definition closed_rec :: "u64 \<Rightarrow> bool \<Rightarrow> int \<Rightarrow> int \<Rightarrow> PlayerRound \<Rightarrow> PlayerRound" where
  "closed_rec i survived team side r =
     r\<lparr>pr_id := i, pr_side := side, pr_team := (if pr_team r = 0 then team else pr_team r), pr_survived := survived,
       pr_kast := (pr_kast r \<or> survived)\<rparr>"

lemma modR_cong:
  "(\<And>r. g (r\<lparr>pr_id := j\<rparr>) = g' (r\<lparr>pr_id := j\<rparr>)) \<Longrightarrow> modR j g a = modR j g' a"
  by (simp add: modR_def)

lemma close_participant_eq:
  "close_participant (j, s) a =
     modP j (closed_stats (j \<notin> rd_dead (sa_round a)) (record_of a j))
       (modR j (\<lambda>r. closed_rec j (j \<notin> rd_dead (sa_round a)) (py_team (get no_player (sa_players a) j)) s r) a)"
  unfolding close_participant_def Let_def prod.case
  by (rule arg_cong2 [of _ _ _ _ "modP j"]; (rule modR_cong)?; simp add: closed_stats_def closed_rec_def fun_eq_iff)

lemma closed_rec_id [simp]: "closed_rec i sv t s (r\<lparr>pr_id := j\<rparr>) = closed_rec i sv t s r"
  by (simp add: closed_rec_def)

lemma close_participants:
  assumes "distinct (map fst xs)"
  shows "stats_of (fold close_participant xs a) i =
           (if i \<in> keys xs then closed_stats (i \<notin> rd_dead (sa_round a)) (record_of a i) (stats_of a i) else stats_of a i) \<and>
         (i \<notin> keys xs \<longrightarrow> record_of (fold close_participant xs a) i = record_of a i) \<and>
         (\<forall>s. map_of xs i = Some s \<longrightarrow>
            (\<exists>t. record_of (fold close_participant xs a) i = closed_rec i (i \<notin> rd_dead (sa_round a)) t s (record_of a i)))"
  using assms
proof (induction xs arbitrary: a)
  case (Cons x xs)
  obtain j s where x: "x = (j, s)" by fastforce
  let ?b = "close_participant x a"
  have d: "rd_dead (sa_round ?b) = rd_dead (sa_round a)" by (simp add: x close_participant_eq)
  have j: "j \<notin> keys xs" "map_of xs j = None" using Cons.prems x by (simp_all add: keys_def map_of_eq_None_iff)
  note IH = Cons.IH [of ?b]
  show ?case
  proof (cases "i = j")
    case True
    have "stats_of ?b j = closed_stats (j \<notin> rd_dead (sa_round a)) (record_of a j) (stats_of a j)"
      and "\<exists>t. record_of ?b j = closed_rec j (j \<notin> rd_dead (sa_round a)) t s (record_of a j)"
      by (auto simp: x close_participant_eq)
    then show ?thesis using True x j IH Cons.prems by (simp add: keys_def)
  next
    case False
    have "stats_of ?b i = stats_of a i" "record_of ?b i = record_of a i"
      using False by (simp_all add: x close_participant_eq)
    then show ?thesis using False x j IH Cons.prems d by (simp add: keys_def)
  qed
qed (simp add: keys_def)

lemma fold_sel: "(\<And>x a. f (step x a) = f a) \<Longrightarrow> f (fold step xs a) = f a"
  by (induction xs arbitrary: a) simp_all

lemma close_participant_sel:
  "sa_rounds (close_participant x a) = sa_rounds a" "sa_t1 (close_participant x a) = sa_t1 a"
  "sa_t2 (close_participant x a) = sa_t2 a" "rd_clutch (sa_round (close_participant x a)) = rd_clutch (sa_round a)"
  "keys (rd_pr (sa_round (close_participant x a))) = insert (fst x) (keys (rd_pr (sa_round a)))"
  "distinct (map fst (rd_pr (sa_round (close_participant x a)))) = distinct (map fst (rd_pr (sa_round a)))"
  "distinct (map fst (sa_players (close_participant x a))) = distinct (map fst (sa_players a))"
  by (cases x; simp add: close_participant_eq)+

lemma close_participants_sel:
  "sa_rounds (fold close_participant xs a) = sa_rounds a" "sa_t1 (fold close_participant xs a) = sa_t1 a"
  "sa_t2 (fold close_participant xs a) = sa_t2 a"
  "rd_clutch (sa_round (fold close_participant xs a)) = rd_clutch (sa_round a)"
  "distinct (map fst (rd_pr (sa_round (fold close_participant xs a)))) = distinct (map fst (rd_pr (sa_round a)))"
  "distinct (map fst (sa_players (fold close_participant xs a))) = distinct (map fst (sa_players a))"
  by (rule fold_sel, simp add: close_participant_sel)+

lemma close_participants_keys:
  "keys (rd_pr (sa_round (fold close_participant xs a))) = keys xs \<union> keys (rd_pr (sa_round a))"
proof (induction xs arbitrary: a)
  case (Cons x xs)
  have "keys (x # xs) = insert (fst x) (keys xs)" by (simp add: keys_def)
  with Cons show ?case by (simp add: close_participant_sel)
qed simp

definition clutch_win :: "int \<Rightarrow> StatsAccumulator \<Rightarrow> u64 \<Rightarrow> bool" where
  "clutch_win w a i \<longleftrightarrow> pr_clutch_vs (record_of a i) > 0 \<and> map_option fst (map_of (rd_clutch (sa_round a)) w) = Some i"

definition booked_stats :: "bool \<Rightarrow> PlayerRound \<Rightarrow> PlayerStats \<Rightarrow> PlayerStats" where
  "booked_stats won r s =
     (let s1 = (if pr_kills r > 0 then s\<lparr>ps_multi_kills := bump (nat (min (pr_kills r) 5 - 1)) (ps_multi_kills s)\<rparr> else s)
      in if won then s1\<lparr>ps_clutches_won := bump (nat (pr_clutch_vs r - 1)) (ps_clutches_won s1)\<rparr> else s1)"

definition booked_rec :: "u64 \<Rightarrow> bool \<Rightarrow> int \<Rightarrow> PlayerRound \<Rightarrow> PlayerRound" where
  "booked_rec i won team r =
     r\<lparr>pr_id := i, pr_clutch_won := (if won then True else pr_clutch_won r), pr_team := (if pr_team r = 0 then team else pr_team r)\<rparr>"

lemma close_record_eq:
  "\<exists>t. close_record w j a =
     modR j (\<lambda>r. booked_rec j (clutch_win w a j) t r) (modP j (booked_stats (clutch_win w a j) (record_of a j)) a)"
proof -
  have "booked_stats (clutch_win w a j) (record_of a j) =
     (\<lambda>s. let s1 = (if pr_kills (record_of a j) > 0
                    then s\<lparr>ps_multi_kills := bump (nat (min (pr_kills (record_of a j)) 5 - 1)) (ps_multi_kills s)\<rparr> else s)
          in if clutch_win w a j then s1\<lparr>ps_clutches_won := bump (nat (pr_clutch_vs (record_of a j) - 1)) (ps_clutches_won s1)\<rparr> else s1)"
    by (simp add: booked_stats_def fun_eq_iff)
  then show ?thesis
    unfolding close_record_def Let_def clutch_win_def [symmetric]
    by (intro exI, simp only:, intro modR_cong) (simp add: booked_rec_def)
qed

lemma booked_rec_id [simp]: "booked_rec i w t (r\<lparr>pr_id := j\<rparr>) = booked_rec i w t r"
  by (simp add: booked_rec_def)

lemma booked_rec_own [simp]: "pr_id (booked_rec i w t r) = i"
  by (simp add: booked_rec_def)

lemma close_record_sel:
  "sa_rounds (close_record w j a) = sa_rounds a" "sa_t1 (close_record w j a) = sa_t1 a" "sa_t2 (close_record w j a) = sa_t2 a"
  "rd_clutch (sa_round (close_record w j a)) = rd_clutch (sa_round a)"
  "keys (rd_pr (sa_round (close_record w j a))) = insert j (keys (rd_pr (sa_round a)))"
  "distinct (map fst (rd_pr (sa_round (close_record w j a)))) = distinct (map fst (rd_pr (sa_round a)))"
  "distinct (map fst (sa_players (close_record w j a))) = distinct (map fst (sa_players a))"
  "stats_of (close_record w j a) i =
     (if i = j then booked_stats (clutch_win w a j) (record_of a j) (stats_of a j) else stats_of a i)"
  using close_record_eq [of w j a] by auto

lemma close_record_rec:
  "i \<noteq> j \<Longrightarrow> record_of (close_record w j a) i = record_of a i"
  "\<exists>t. record_of (close_record w j a) j = booked_rec j (clutch_win w a j) t (record_of a j)"
  using close_record_eq [of w j a] by auto

lemma close_records:
  assumes "distinct js"
  shows "stats_of (fold (close_record w) js a) i =
           (if i \<in> set js then booked_stats (clutch_win w a i) (record_of a i) (stats_of a i) else stats_of a i) \<and>
         (if i \<in> set js then \<exists>t. record_of (fold (close_record w) js a) i = booked_rec i (clutch_win w a i) t (record_of a i)
          else record_of (fold (close_record w) js a) i = record_of a i)"
  using assms
proof (induction js arbitrary: a)
  case (Cons j js)
  let ?b = "close_record w j a"
  have c: "clutch_win w ?b i = clutch_win w a i" if "i \<noteq> j"
    using that by (simp add: clutch_win_def close_record_sel close_record_rec)
  note IH = Cons.IH [of ?b]
  show ?case
  proof (cases "i = j")
    case True
    then show ?thesis using IH Cons.prems close_record_rec(2) [of w j a] by (simp add: close_record_sel)
  next
    case False
    then show ?thesis using IH Cons.prems c by (cases "i \<in> set js") (simp_all add: close_record_sel close_record_rec)
  qed
qed simp

lemma close_records_sel:
  "sa_rounds (fold (close_record w) js a) = sa_rounds a" "sa_t1 (fold (close_record w) js a) = sa_t1 a"
  "sa_t2 (fold (close_record w) js a) = sa_t2 a"
  "distinct (map fst (rd_pr (sa_round (fold (close_record w) js a)))) = distinct (map fst (rd_pr (sa_round a)))"
  "distinct (map fst (sa_players (fold (close_record w) js a))) = distinct (map fst (sa_players a))"
  by (rule fold_sel, simp add: close_record_sel)+

lemma close_records_keys: "keys (rd_pr (sa_round (fold (close_record w) js a))) = set js \<union> keys (rd_pr (sa_round a))"
  by (induction js arbitrary: a) (simp_all add: close_record_sel)

lemma bump_nth: "n < length xs \<Longrightarrow> m < length xs \<Longrightarrow> bump n xs ! m = xs ! m + one_if (m = n)"
  by (simp add: bump_def nth_list_update)

lemma length_bump [simp]: "length (bump n xs) = length xs"
  by (simp add: bump_def)

text \<open>What closing adds to a total is what the closed record holds and the running one did not.\<close>

lemma closed_total:
  fixes r :: PlayerRound
  assumes "lens_ok s" "rec_ok r" "pr_side r = sd" "won \<Longrightarrow> 0 < pr_clutch_vs r"
  shows "tot c (booked_stats won (closed_rec i sv t sd r) (closed_stats sv r s)) =
           tot c s + part c (booked_rec i won t' (closed_rec i sv t sd r)) - cur c r"
proof (cases c)
  case (F_multi n)
  have "nat (min (pr_kills r) 5 - 1) < 5" by simp
  with assms F_multi show ?thesis
    by (auto simp: booked_stats_def closed_stats_def closed_rec_def booked_rec_def cur_def lens_ok_def rec_ok_def bump_nth Let_def)
next
  case (F_clutch n)
  have "nat (pr_clutch_vs r - 1) < 5" using assms(2) by (auto simp: rec_ok_def)
  with assms F_clutch show ?thesis
    by (auto simp: booked_stats_def closed_stats_def closed_rec_def booked_rec_def cur_def lens_ok_def rec_ok_def bump_nth Let_def)
qed (use assms in \<open>auto simp: booked_stats_def closed_stats_def closed_rec_def booked_rec_def cur_def Let_def\<close>)

lemma closed_lens: "lens_ok s \<Longrightarrow> lens_ok (booked_stats won r (closed_stats sv r' s))"
  by (simp add: lens_ok_def booked_stats_def closed_stats_def Let_def)

definition rec_nonneg :: "PlayerRound \<Rightarrow> bool" where
  "rec_nonneg r \<longleftrightarrow> (\<forall>c. 0 \<le> part c r)"

lemma booked_nonneg: "rec_ok r \<Longrightarrow> rec_nonneg (booked_rec i won t' (closed_rec i sv t sd r))"
proof -
  assume "rec_ok r"
  then have "0 \<le> part c (booked_rec i won t' (closed_rec i sv t sd r))" for c
    by (cases c) (simp_all add: rec_ok_def booked_rec_def closed_rec_def)
  then show ?thesis by (simp add: rec_nonneg_def)
qed

lemma filter_own:
  assumes "distinct (map fst m)" "\<forall>(k, v) \<in> set m. key v = k"
  shows "filter (\<lambda>v. key v = i) (map snd m) = (case map_of m i of None \<Rightarrow> [] | Some v \<Rightarrow> [v])"
  using assms
proof (induction m)
  case (Cons p m)
  obtain k v where p: "p = (k, v)" by fastforce
  have "map_of m k = None" using Cons.prems(1) p by (simp add: map_of_eq_None_iff)
  with Cons p show ?case by (auto split: option.split)
qed simp

lemma sum_sort_key: "sum_list (map f (filter P (sort_key k xs))) = sum_list (map f (filter P xs))" for f :: "'a \<Rightarrow> int"
proof -
  have "mset (map f (filter P (sort_key k xs))) = mset (map f (filter P xs))" by (simp add: mset_filter)
  then show ?thesis by (metis sum_mset_sum_list)
qed

text \<open>
  The closed round: every total has grown by what the summary holds beyond the running record.
\<close>

lemma OnRoundEnd_totals:
  assumes ok: "rnd_ok a" and live: "sa_live a"
  obtains sm where "sa_rounds (OnRoundEnd w reason a) = sa_rounds a @ [sm]"
    and "\<And>i c. tot c (stats_of (OnRoundEnd w reason a) i) = bal a i c + share c i sm"
    and "\<And>p. p \<in> set (rs_players sm) \<Longrightarrow> rec_nonneg p"
    and "rnd_ok (OnRoundEnd w reason a)" "sa_round (OnRoundEnd w reason a) = new_round"
    and "rs_round_number sm = int (length (sa_rounds a)) + 1"
    and "rs_winner_team sm = SlotForSide a w" "rs_team1_was_ct sm = sa_team1IsCt a"
    and "rs_team1_score sm = tl_score (sa_t1 (OnRoundEnd w reason a))" "rs_team2_score sm = tl_score (sa_t2 (OnRoundEnd w reason a))"
proof -
  define slot where "slot = SlotForSide a w"
  define a1 where "a1 = (if slot = 1 then a\<lparr>sa_t1 := add_win w (sa_t1 a)\<rparr>
                   else if slot = 2 then a\<lparr>sa_t2 := add_win w (sa_t2 a)\<rparr> else a)"
  have a1: "sa_round a1 = sa_round a" "sa_players a1 = sa_players a" "sa_rounds a1 = sa_rounds a" by (simp_all add: a1_def)
  define xs where "xs = rd_side (sa_round a)"
  define a2 where "a2 = fold close_participant xs a1"
  define js where "js = map fst (rd_pr (sa_round a2))"
  define a3 where "a3 = fold (close_record w) js a2"
  define sm where "sm = \<lparr>rs_round_number = int (length (sa_rounds a)) + 1,
                        rs_winner_side = (if w = 2 \<or> w = 3 then w else 0),
                        rs_winner_team = slot, rs_reason = reason, rs_team1_score = tl_score (sa_t1 a1),
                        rs_team2_score = tl_score (sa_t2 a1), rs_team1_was_ct = sa_team1IsCt a,
                        rs_players = sort_key (\<lambda>r. (pr_team r, pr_id r)) (map snd (rd_pr (sa_round a3)))\<rparr>"
  have fin: "OnRoundEnd w reason a = a3\<lparr>sa_rounds := sa_rounds a3 @ [sm], sa_round := new_round\<rparr>"
    using live by (simp add: OnRoundEnd_def Let_def slot_def a1_def [symmetric, unfolded slot_def] a1 xs_def [symmetric]
        a2_def [symmetric] js_def [symmetric] a3_def [symmetric] sm_def)
  have dx: "distinct (map fst xs)" and dpr: "distinct (map fst (rd_pr (sa_round a)))"
    and sub: "keys (rd_pr (sa_round a)) \<subseteq> keys xs" and dpl: "distinct (map fst (sa_players a))"
    using ok by (simp_all add: rnd_ok_def Let_def xs_def)
  have dj: "distinct js" using dpr a1 by (simp add: js_def a2_def close_participants_sel)
  have sj: "set js = keys xs" using sub a1 close_participants_keys [of xs a1] by (auto simp: js_def a2_def keys_def)
  have "keys (rd_pr (sa_round a2)) = set js" by (simp add: js_def keys_def)
  then have k3: "keys (rd_pr (sa_round a3)) = keys xs" using sj by (simp add: a3_def close_records_keys)
  have d3: "distinct (map fst (rd_pr (sa_round a3)))" using dj by (simp add: a3_def close_records_sel js_def)
  have P: "stats_of a2 i = closed_stats (i \<notin> rd_dead (sa_round a)) (record_of a i) (stats_of a i) \<and>
           (\<exists>t. record_of a2 i = closed_rec i (i \<notin> rd_dead (sa_round a)) t s (record_of a i))"
    if "map_of xs i = Some s" for i s
    using close_participants [OF dx, of a1 i] that a1 by (simp add: a2_def keys_map_of)
  have in_rec: "\<exists>sv t t' sd won. pr_side (record_of a i) = sd \<and> (won \<longrightarrow> 0 < pr_clutch_vs (record_of a i)) \<and>
      record_of a3 i = booked_rec i won t' (closed_rec i sv t sd (record_of a i)) \<and>
      stats_of a3 i = booked_stats won (closed_rec i sv t sd (record_of a i)) (closed_stats sv (record_of a i) (stats_of a i))"
    if "i \<in> keys xs" for i
  proof -
    obtain s where s: "map_of xs i = Some s" using \<open>i \<in> keys xs\<close> by (auto simp: keys_map_of)
    then obtain t where p: "stats_of a2 i = closed_stats (i \<notin> rd_dead (sa_round a)) (record_of a i) (stats_of a i)"
      "record_of a2 i = closed_rec i (i \<notin> rd_dead (sa_round a)) t s (record_of a i)" using P by blast
    moreover have "pr_side (record_of a i) = s" using ok s by (simp add: rnd_ok_def Let_def xs_def)
    moreover have "clutch_win w a2 i \<Longrightarrow> 0 < pr_clutch_vs (record_of a i)" using p(2) by (simp add: clutch_win_def closed_rec_def)
    ultimately show ?thesis using close_records [OF dj, of w a2 i] sj that unfolding a3_def [symmetric] by metis
  qed
  have out: "stats_of a3 i = stats_of a i \<and> record_of a i = no_round" if "i \<notin> keys xs" for i
  proof -
    have "stats_of a3 i = stats_of a2 i" using close_records [OF dj, of w a2 i] sj that by (simp add: a3_def)
    moreover have "stats_of a2 i = stats_of a i" using close_participants [OF dx, of a1 i] that a1 by (simp add: a2_def)
    moreover have "record_of a i = no_round" using that sub by (intro get_default) auto
    ultimately show ?thesis by simp
  qed
  have own: "\<forall>(k, v) \<in> set (rd_pr (sa_round a3)). pr_id v = k \<and> rec_nonneg v"
  proof clarify
    fix k v assume kv: "(k, v) \<in> set (rd_pr (sa_round a3))"
    then have "k \<in> keys (rd_pr (sa_round a3))" by (force simp: keys_def)
    then have "k \<in> keys xs" by (simp add: k3)
    moreover have "record_of a3 k = v" by (rule get_in [OF d3 kv])
    ultimately show "pr_id v = k \<and> rec_nonneg v"
      using in_rec [of k] booked_nonneg [OF rnd_ok_rec [OF ok, of k]] by auto
  qed
  have share: "share c i sm = (if i \<in> keys xs then part c (record_of a3 i) else 0)" for c i
  proof -
    have "share c i sm = sum_list (map (part c) (filter (\<lambda>p. pr_id p = i) (map snd (rd_pr (sa_round a3)))))"
      by (simp add: share_def sm_def sum_sort_key)
    also have "\<dots> = (case map_of (rd_pr (sa_round a3)) i of None \<Rightarrow> 0 | Some v \<Rightarrow> part c v)"
      using filter_own [OF d3, of pr_id i] own by (fastforce split: option.split)
    finally show ?thesis using k3 keys_map_of [of i "rd_pr (sa_round a3)"] by (auto simp: get_def split: option.splits)
  qed
  have T: "tot c (stats_of a3 i) = bal a i c + share c i sm" for i c
  proof (cases "i \<in> keys xs")
    case True
    from in_rec [OF True] obtain sv t t' sd won where r: "pr_side (record_of a i) = sd" "won \<longrightarrow> 0 < pr_clutch_vs (record_of a i)"
      "record_of a3 i = booked_rec i won t' (closed_rec i sv t sd (record_of a i))"
      "stats_of a3 i = booked_stats won (closed_rec i sv t sd (record_of a i)) (closed_stats sv (record_of a i) (stats_of a i))"
      by blast
    show ?thesis
      using closed_total [OF rnd_ok_lens [OF ok, of i] rnd_ok_rec [OF ok, of i] r(1), of won c i sv t t'] r True share [of c i]
      by (simp add: bal_def)
  next
    case False
    then show ?thesis using out [OF False] share [of c i] by (cases c) (simp_all add: bal_def cur_def)
  qed
  have lens: "lens_ok (stats_of a3 i)" for i
    using in_rec [of i] out [of i] rnd_ok_lens [OF ok, of i] closed_lens by (cases "i \<in> keys xs") fastforce+
  have "rnd_ok (OnRoundEnd w reason a)"
    using lens dpl a1 by (auto simp: fin rnd_ok_def Let_def new_round_def lens_ok_def rec_ok_def a3_def a2_def
        close_records_sel close_participants_sel)
  moreover have "\<And>p. p \<in> set (rs_players sm) \<Longrightarrow> rec_nonneg p" using own by (auto simp: sm_def)
  ultimately show thesis
    using T a1 by (intro that [of sm]) (simp_all add: fin a3_def a2_def close_records_sel close_participants_sel sm_def slot_def)
qed

section \<open>Runs\<close>

datatype StatsEvent =
  Ev_Observe u64 string int int bool
| Ev_RoundStart
| Ev_Death u64 u64 u64 bool bool string seconds
| Ev_Hurt u64 u64 int int string
| Ev_Blind u64 u64 real
| Ev_Planted u64
| Ev_Defused u64
| Ev_Mvp u64
| Ev_Score u64 int
| Ev_MoneyStart u64 int
| Ev_Loadout u64 int int bool bool "string list"
| Ev_RoundEnd int int
| Ev_Swap bool
| Ev_EndMap

fun stats_apply :: "StatsEvent \<Rightarrow> StatsAccumulator \<Rightarrow> StatsAccumulator" where
  "stats_apply (Ev_Observe i n s t b) a = ObservePlayer i n s t b a"
| "stats_apply Ev_RoundStart a = OnRoundStart a"
| "stats_apply (Ev_Death v k s f h w t) a = OnPlayerDeath v k s f h w t a"
| "stats_apply (Ev_Hurt v k d h w) a = OnPlayerHurt v k d h w a"
| "stats_apply (Ev_Blind v k d) a = OnPlayerBlind v k d a"
| "stats_apply (Ev_Planted i) a = OnBombPlanted i a"
| "stats_apply (Ev_Defused i) a = OnBombDefused i a"
| "stats_apply (Ev_Mvp i) a = OnRoundMvp i a"
| "stats_apply (Ev_Score i n) a = SetScore i n a"
| "stats_apply (Ev_MoneyStart i m) a = SetMoneyStart i m a"
| "stats_apply (Ev_Loadout i m ar h d l) a = SetLoadout i m ar h d l a"
| "stats_apply (Ev_RoundEnd w r) a = OnRoundEnd w r a"
| "stats_apply (Ev_Swap b) a = SetTeam1IsCt b a"
| "stats_apply Ev_EndMap a = EndMap a"

text \<open>
  What the feeder (game_events.cpp) keeps to: a death, a kill, an assist, damage, an award and a buy
  belong to players who were seen on a side in the running round; nobody dies twice in it, changes the
  side in it or gets its award twice; and what a round start clears away (everything since the last round
  end) is empty.
\<close>

definition idle_rec :: "PlayerRound \<Rightarrow> bool" where
  "idle_rec r \<longleftrightarrow>
     pr_kills r = 0 \<and> pr_assists r = 0 \<and> pr_flash_assists r = 0 \<and> pr_damage r = 0 \<and> pr_utility_damage r = 0 \<and>
     pr_headshot_kills r = 0 \<and> \<not> pr_died r \<and> \<not> pr_traded r \<and> \<not> pr_entry_kill r \<and> \<not> pr_entry_death r \<and> \<not> pr_mvp r"

fun event_ok :: "StatsEvent \<Rightarrow> StatsAccumulator \<Rightarrow> bool" where
  "event_ok (Ev_Observe i n s t b) a \<longleftrightarrow> i \<in> participants a \<and> (s = 2 \<or> s = 3) \<longrightarrow> SideOf a i = s"
| "event_ok Ev_RoundStart a \<longleftrightarrow> list_all (\<lambda>(i, r). idle_rec r) (rd_pr (sa_round a))"
| "event_ok (Ev_Death v k s f h w t) a \<longleftrightarrow>
     v \<in> participants a \<and> v \<notin> rd_dead (sa_round a) \<and> (k = 0 \<or> k \<in> participants a) \<and> (s = 0 \<or> s \<in> participants a)"
| "event_ok (Ev_Hurt v k d h w) a \<longleftrightarrow> k = 0 \<or> k \<in> participants a"
| "event_ok (Ev_Mvp i) a \<longleftrightarrow> i \<in> participants a \<and> \<not> pr_mvp (record_of a i)"
| "event_ok (Ev_MoneyStart i m) a \<longleftrightarrow> i \<in> participants a"
| "event_ok (Ev_Loadout i m ar h d l) a \<longleftrightarrow> i \<in> participants a"
| "event_ok _ a \<longleftrightarrow> True"

fun run_ok :: "StatsEvent list \<Rightarrow> StatsAccumulator \<Rightarrow> bool" where
  "run_ok [] a \<longleftrightarrow> True"
| "run_ok (e # es) a \<longleftrightarrow> event_ok e a \<and> run_ok es (stats_apply e a)"

lemma run_ok_append: "run_ok (es @ fs) a \<longleftrightarrow> run_ok es a \<and> run_ok fs (fold stats_apply es a)"
  by (induction es arbitrary: a) simp_all

definition won_rounds :: "(RoundSummary \<Rightarrow> bool) \<Rightarrow> RoundSummary list \<Rightarrow> int" where
  "won_rounds P rs = int (length (filter P rs))"

text \<open>The team lines as the recorded rounds give them.\<close>

definition line_of :: "int \<Rightarrow> RoundSummary list \<Rightarrow> TeamLine" where
  "line_of k rs =
     (let ct = (\<lambda>r. if k = 1 then rs_team1_was_ct r else \<not> rs_team1_was_ct r)
      in \<lparr>tl_score = won_rounds (\<lambda>r. rs_winner_team r = k) rs,
          tl_score_ct = won_rounds (\<lambda>r. rs_winner_team r = k \<and> ct r) rs,
          tl_score_t = won_rounds (\<lambda>r. rs_winner_team r = k \<and> \<not> ct r) rs\<rparr>)"

definition books :: "StatsAccumulator \<Rightarrow> bool" where
  "books a \<longleftrightarrow>
     rnd_ok a \<and> (\<forall>i c. bal a i c = booked c i (sa_rounds a)) \<and>
     sa_t1 a = line_of 1 (sa_rounds a) \<and> sa_t2 a = line_of 2 (sa_rounds a) \<and>
     map rs_round_number (sa_rounds a) = [1..int (length (sa_rounds a))] \<and>
     (\<forall>r \<in> set (sa_rounds a). \<forall>p \<in> set (rs_players r). rec_nonneg p) \<and>
     (\<forall>j < length (sa_rounds a). rs_team1_score (sa_rounds a ! j) = tl_score (line_of 1 (take (Suc j) (sa_rounds a))) \<and>
        rs_team2_score (sa_rounds a ! j) = tl_score (line_of 2 (take (Suc j) (sa_rounds a))))"

lemma books_in_round: "books a \<Longrightarrow> in_round a b \<Longrightarrow> books b"
  by (auto simp: books_def in_round_def)

lemma OnRoundEnd_lines:
  "sa_live a \<Longrightarrow> SlotForSide a w = 1 \<Longrightarrow> sa_t1 (OnRoundEnd w reason a) = add_win w (sa_t1 a) \<and> sa_t2 (OnRoundEnd w reason a) = sa_t2 a"
  "sa_live a \<Longrightarrow> SlotForSide a w = 2 \<Longrightarrow> sa_t2 (OnRoundEnd w reason a) = add_win w (sa_t2 a) \<and> sa_t1 (OnRoundEnd w reason a) = sa_t1 a"
  "sa_live a \<Longrightarrow> SlotForSide a w = 0 \<Longrightarrow> sa_t1 (OnRoundEnd w reason a) = sa_t1 a \<and> sa_t2 (OnRoundEnd w reason a) = sa_t2 a"
  by (simp_all add: OnRoundEnd_def Let_def close_records_sel close_participants_sel)

lemma SlotForSide_cases: "SlotForSide a w = 1 \<and> (w = 3 \<longleftrightarrow> sa_team1IsCt a) \<and> (w = 2 \<or> w = 3) \<or>
   SlotForSide a w = 2 \<and> (w = 3 \<longleftrightarrow> \<not> sa_team1IsCt a) \<and> (w = 2 \<or> w = 3) \<or> SlotForSide a w = 0"
  by (auto simp: SlotForSide_def)

lemma won_rounds_snoc: "won_rounds P (rs @ [r]) = won_rounds P rs + one_if (P r)"
  by (simp add: won_rounds_def)

lemma OnRoundEnd_books:
  assumes "books a"
  shows "books (OnRoundEnd w reason a)"
proof (cases "sa_live a")
  case True
  have ok: "rnd_ok a" using assms by (simp add: books_def)
  let ?b = "OnRoundEnd w reason a"
  obtain sm where sm: "sa_rounds ?b = sa_rounds a @ [sm]" "\<And>i c. tot c (stats_of ?b i) = bal a i c + share c i sm"
    "\<And>p. p \<in> set (rs_players sm) \<Longrightarrow> rec_nonneg p" "rnd_ok ?b" "sa_round ?b = new_round"
    "rs_round_number sm = int (length (sa_rounds a)) + 1" "rs_winner_team sm = SlotForSide a w" "rs_team1_was_ct sm = sa_team1IsCt a"
    "rs_team1_score sm = tl_score (sa_t1 ?b)" "rs_team2_score sm = tl_score (sa_t2 ?b)"
    using OnRoundEnd_totals [OF ok True, of w reason] by metis
  have "cur c no_round = 0" for c by (cases c) (simp_all add: cur_def)
  then have "bal ?b i c = booked c i (sa_rounds ?b)" for i c
    using assms sm(1,2,5) by (simp add: bal_def [of ?b] books_def booked_def new_round_def)
  moreover have lines: "sa_t1 ?b = line_of 1 (sa_rounds ?b) \<and> sa_t2 ?b = line_of 2 (sa_rounds ?b)"
    using assms sm(1,7,8) SlotForSide_cases [of a w] OnRoundEnd_lines [OF True, of w reason]
    by (auto simp: books_def line_of_def won_rounds_snoc add_win_def Let_def)
  moreover have "map rs_round_number (sa_rounds ?b) = [1..int (length (sa_rounds ?b))]"
  proof -
    have "[1..int (length (sa_rounds a)) + 1] = [1..int (length (sa_rounds a))] @ [int (length (sa_rounds a)) + 1]"
      using upto_rec2 [of 1 "int (length (sa_rounds a)) + 1"] by simp
    then show ?thesis using assms sm(1,6) by (simp add: books_def add.commute)
  qed
  moreover have "rs_team1_score (sa_rounds ?b ! j) = tl_score (line_of 1 (take (Suc j) (sa_rounds ?b))) \<and>
        rs_team2_score (sa_rounds ?b ! j) = tl_score (line_of 2 (take (Suc j) (sa_rounds ?b)))"
    if "j < length (sa_rounds ?b)" for j
    using that assms sm(1,9,10) lines by (auto simp: books_def nth_append less_Suc_eq)
  ultimately show ?thesis using assms sm(1,3,4) by (auto simp: books_def)
qed (use assms in \<open>simp add: OnRoundEnd_def\<close>)

lemma plain_in_round:
  assumes "rnd_ok a" "\<And>s. lens_ok s \<Longrightarrow> lens_ok (f s)" "\<And>c s. tot c (f s) = tot c s"
  shows "in_round a (modP j f a)"
  by (rule keeps_in_round, rule modP_keeps) (use assms rnd_ok_lens in auto)

lemma record_in_round:
  assumes "rnd_ok a" "j \<in> participants a" "\<And>r. rec_ok r \<Longrightarrow> rec_step g r" "\<And>c r. cur c (g r) = cur c r"
  shows "in_round a (modR j g a)"
  by (rule keeps_in_round, rule modR_keeps) (use assms rnd_ok_rec in auto)

lemma tot_blind:
  "tot c (s\<lparr>ps_friendlies_flashed := n\<rparr>) = tot c s" "tot c (s\<lparr>ps_enemies_flashed := n\<rparr>) = tot c s"
  "tot c (s\<lparr>ps_bomb_plants := n\<rparr>) = tot c s" "tot c (s\<lparr>ps_bomb_defuses := n\<rparr>) = tot c s" "tot c (s\<lparr>ps_score := n\<rparr>) = tot c s"
  by (cases c; simp)+

lemma cur_money: "cur c (r\<lparr>pr_money_start := m\<rparr>) = cur c r"
  "cur c (r\<lparr>pr_money_after_buy := m, pr_armor := ar, pr_helmet := h, pr_defuser := d, pr_loadout := l\<rparr>) = cur c r"
  by (cases c; simp add: cur_def)+

lemma idle_cur: "idle_rec r \<Longrightarrow> cur c r = 0"
  by (cases c) (simp_all add: idle_rec_def cur_def)

lemma OnRoundStart_in_round:
  assumes "rnd_ok a" "list_all (\<lambda>(i, r). idle_rec r) (rd_pr (sa_round a))"
  shows "in_round a (OnRoundStart a)"
proof -
  have "idle_rec (record_of a i)" for i
  proof (cases "map_of (rd_pr (sa_round a)) i")
    case None
    then show ?thesis by (simp add: get_def idle_rec_def)
  next
    case (Some r)
    then show ?thesis using assms(2) map_of_SomeD [OF Some] by (auto simp: get_def list_all_iff)
  qed
  then have "cur c (record_of a i) = 0" "cur c no_round = 0" for c i
    by (simp add: idle_cur, simp add: idle_cur idle_rec_def)
  then show ?thesis using assms(1)
    by (auto simp: in_round_def OnRoundStart_def bal_def new_round_def rnd_ok_def Let_def rec_ok_def)
qed

lemma event_in_round:
  assumes ok: "rnd_ok a" and "event_ok e a"
  shows "in_round a (stats_apply e a) \<or> (\<exists>w r. e = Ev_RoundEnd w r)"
proof (cases e)
  case (Ev_Observe i n s t b)
  then show ?thesis using ObservePlayer_in_round [OF ok] assms(2) by simp
next
  case Ev_RoundStart
  then show ?thesis using OnRoundStart_in_round [OF ok] assms(2) by simp
next
  case (Ev_Death v k s f h w t)
  then show ?thesis using OnPlayerDeath_keeps [OF ok] assms(2) by (simp add: keeps_in_round)
next
  case (Ev_Hurt v k d h w)
  then show ?thesis using OnPlayerHurt_keeps [OF ok] assms(2) by (simp add: keeps_in_round)
next
  case (Ev_Mvp i)
  then show ?thesis using OnRoundMvp_keeps [OF ok] assms(2) by (simp add: keeps_in_round)
next
  case (Ev_MoneyStart i m)
  then show ?thesis using assms(2) in_round_refl [OF ok]
    by (auto simp: SetMoneyStart_def rec_step_def rec_ok_def cur_money intro!: record_in_round [OF ok])
next
  case (Ev_Loadout i m ar h d l)
  then show ?thesis using assms(2) in_round_refl [OF ok]
    by (auto simp: SetLoadout_def rec_step_def rec_ok_def cur_money intro!: record_in_round [OF ok])
next
  case (Ev_Swap b)
  then show ?thesis using ok by (simp add: SetTeam1IsCt_def in_round_def rnd_ok_def bal_def)
next
  case Ev_EndMap
  then show ?thesis using ok by (simp add: EndMap_def in_round_def rnd_ok_def bal_def)
qed (use in_round_refl [OF ok] in \<open>auto simp: OnPlayerBlind_def OnBombPlanted_def OnBombDefused_def SetScore_def lens_ok_def tot_blind
    intro!: plain_in_round [OF ok]\<close>)

lemma event_books:
  assumes "books a" "event_ok e a"
  shows "books (stats_apply e a)"
proof -
  have ok: "rnd_ok a" using assms(1) by (simp add: books_def)
  show ?thesis
    using event_in_round [OF ok assms(2)] books_in_round [OF assms(1)] OnRoundEnd_books [OF assms(1)] by auto
qed

lemma run_books: "books a \<Longrightarrow> run_ok es a \<Longrightarrow> books (fold stats_apply es a)"
  by (induction es arbitrary: a) (auto intro: event_books)

lemma BeginMap_books: "books (BeginMap b a)"
proof -
  have "cur c no_round = 0" "tot c no_stats = 0" for c
    by (cases c; simp add: cur_def no_stats_def nth_Cons' )+
  then show ?thesis
    by (auto simp: books_def rnd_ok_def BeginMap_def Clear_def new_round_def no_player_def no_stats_def rec_ok_def bal_def
        booked_def line_of_def no_team_def won_rounds_def)
qed

lemma rounds_grow:
  assumes "books a" "event_ok e a"
  shows "prefix (sa_rounds a) (sa_rounds (stats_apply e a))"
proof -
  have ok: "rnd_ok a" using assms(1) by (simp add: books_def)
  have "prefix (sa_rounds a) (sa_rounds (OnRoundEnd w r a))" for w r
  proof (cases "sa_live a")
    case True
    then obtain sm where "sa_rounds (OnRoundEnd w r a) = sa_rounds a @ [sm]"
      by (rule OnRoundEnd_totals [OF ok])
    then show ?thesis by simp
  qed (simp add: OnRoundEnd_def)
  then show ?thesis using event_in_round [OF ok assms(2)] by (auto simp: in_round_def)
qed

lemma run_rounds_grow: "books a \<Longrightarrow> run_ok es a \<Longrightarrow> prefix (sa_rounds a) (sa_rounds (fold stats_apply es a))"
  by (induction es arbitrary: a) (auto intro: prefix_order.order_trans rounds_grow event_books)

section \<open>Rewinding\<close>

lemma dec_exact: "0 \<le> v - by \<Longrightarrow> dec by v = v - by"
  by (simp add: dec_def)

lemma take_back_lens: "lens_ok s \<Longrightarrow> lens_ok (take_back r s)"
  by (simp add: lens_ok_def take_back_def dec_at_def)

lemma take_back_tot:
  assumes "lens_ok s" "rec_nonneg r" "\<And>c. part c r \<le> tot c s"
  shows "tot c (take_back r s) = tot c s - part c r"
proof -
  have le: "0 \<le> tot d s - part d r" for d using assms(3) [of d] by simp
  show ?thesis
  proof (cases c)
    case (F_multi n)
    have "nat (min (pr_kills r) 5 - 1) < 5" by simp
    then show ?thesis
      using assms(1) F_multi le [of "F_multi n"]
      by (auto simp: take_back_def dec_at_def lens_ok_def nth_list_update dec_exact split: if_splits)
  next
    case (F_clutch n)
    then show ?thesis
      using assms(1) le [of "F_clutch n"]
      by (auto simp: take_back_def dec_at_def lens_ok_def nth_list_update dec_exact split: if_splits)
  qed (use le [of c] in \<open>auto simp: take_back_def dec_exact split: if_splits\<close>)
qed

lemma take_back_all:
  assumes "lens_ok s" "\<forall>p \<in> set ps. rec_nonneg p" "\<And>c. sum_list (map (part c) ps) \<le> tot c s"
  shows "lens_ok (fold take_back ps s) \<and> (\<forall>c. tot c (fold take_back ps s) = tot c s - sum_list (map (part c) ps))"
  using assms
proof (induction ps arbitrary: s)
  case (Cons p ps)
  have pos: "0 \<le> sum_list (map (part c) ps)" for c
    using Cons.prems(2) by (intro sum_list_nonneg) (auto simp: rec_nonneg_def)
  have le: "part c p \<le> tot c s" for c using Cons.prems(3) [of c] pos [of c] by simp
  have t: "tot c (take_back p s) = tot c s - part c p" for c
    using Cons.prems(1,2) le by (intro take_back_tot) auto
  have "lens_ok (take_back p s)" using Cons.prems(1) by (rule take_back_lens)
  moreover have "sum_list (map (part c) ps) \<le> tot c (take_back p s)" for c using Cons.prems(3) [of c] t [of c] by simp
  ultimately show ?case using Cons.IH [of "take_back p s"] Cons.prems(2) t by simp
qed simp

definition own_records :: "u64 \<Rightarrow> RoundSummary list \<Rightarrow> PlayerRound list" where
  "own_records i rs = concat (map (\<lambda>r. filter (\<lambda>p. pr_id p = i) (rs_players r)) rs)"

lemma booked_own: "booked c i rs = sum_list (map (part c) (own_records i rs))"
  by (induction rs) (simp_all add: booked_def own_records_def share_def)

lemma booked_append: "booked c i (rs @ qs) = booked c i rs + booked c i qs"
  by (simp add: booked_def)

lemma take_back_from_eq:
  "distinct (map ln_id ls) \<Longrightarrow>
     take_back_from r ls = map (\<lambda>l. if ln_id l = pr_id r then l\<lparr>ln_stats := take_back r (ln_stats l)\<rparr> else l) ls"
proof (induction ls)
  case (Cons l ls)
  then have "\<forall>k \<in> set ls. ln_id k \<noteq> ln_id l" by (force simp: image_iff)
  with Cons show ?case by (auto intro!: map_idI [symmetric])
qed simp

lemma fold_take_back_from:
  assumes "distinct (map ln_id ls)"
  shows "fold take_back_from ps ls =
     map (\<lambda>l. l\<lparr>ln_stats := fold take_back (filter (\<lambda>p. pr_id p = ln_id l) ps) (ln_stats l)\<rparr>) ls"
  using assms
proof (induction ps arbitrary: ls)
  case (Cons p ps)
  let ?ks = "map (\<lambda>l. if ln_id l = pr_id p then l\<lparr>ln_stats := take_back p (ln_stats l)\<rparr> else l) ls"
  have ids: "map ln_id ?ks = map ln_id ls" by simp
  then have "distinct (map ln_id ?ks)" using Cons.prems by (simp only:)
  from Cons.IH [OF this] show ?case using take_back_from_eq [OF Cons.prems, of p] by (auto simp: comp_def)
qed simp

lemma void_rounds_players:
  assumes "distinct (map ln_id (mp_players m))"
  shows "mp_players (fold void_round gone m) =
     map (\<lambda>l. l\<lparr>ln_stats := fold take_back (own_records (ln_id l) gone) (ln_stats l)\<rparr>) (mp_players m)"
  using assms
proof (induction gone arbitrary: m)
  case (Cons r gone)
  let ?n = "void_round r m"
  have p: "mp_players ?n = map (\<lambda>l. l\<lparr>ln_stats := fold take_back (filter (\<lambda>p. pr_id p = ln_id l) (rs_players r)) (ln_stats l)\<rparr>) (mp_players m)"
    using fold_take_back_from [OF Cons.prems] by (simp add: void_round_def Let_def)
  then have "map ln_id (mp_players ?n) = map ln_id (mp_players m)" by simp
  then have "distinct (map ln_id (mp_players ?n))" using Cons.prems by (simp only:)
  from Cons.IH [OF this] show ?case by (simp add: p own_records_def)
qed (simp add: own_records_def)

lemma lose_win_line:
  assumes "rs_winner_team r = k" "ct = (if k = 1 then rs_team1_was_ct r else \<not> rs_team1_was_ct r)"
  shows "lose_win ct (line_of k (rs @ r # qs)) = line_of k (rs @ qs)"
  using assms by (auto simp: lose_win_def line_of_def won_rounds_def Let_def dec_def)

lemma line_of_skip: "rs_winner_team r \<noteq> k \<Longrightarrow> line_of k (rs @ r # qs) = line_of k (rs @ qs)"
  by (simp add: line_of_def won_rounds_def Let_def)

lemma void_rounds_lines:
  assumes "mp_team1 m = line_of 1 (rs @ gone)" "mp_team2 m = line_of 2 (rs @ gone)"
  shows "mp_team1 (fold void_round gone m) = line_of 1 rs \<and> mp_team2 (fold void_round gone m) = line_of 2 rs"
  using assms
proof (induction gone arbitrary: m)
  case (Cons r gone)
  have "mp_team1 (void_round r m) = line_of 1 (rs @ gone)" "mp_team2 (void_round r m) = line_of 2 (rs @ gone)"
    using Cons.prems lose_win_line [of r 1 _ rs gone] lose_win_line [of r 2 _ rs gone] line_of_skip [of r _ rs gone]
    by (auto simp: void_round_def Let_def)
  then show ?case using Cons.IH by simp
qed simp

lemma numbered_split:
  assumes "map rs_round_number rs = [1..int (length rs)]" "k \<le> length rs"
  shows "filter (\<lambda>r. rs_round_number r < int k + 1) rs = take k rs"
    "filter (\<lambda>r. \<not> rs_round_number r < int k + 1) rs = drop k rs"
proof -
  have n: "rs_round_number (rs ! j) = int j + 1" if "j < length rs" for j
    using arg_cong [OF assms(1), of "\<lambda>xs. xs ! j"] that by simp
  have lo: "\<forall>r \<in> set (take k rs). rs_round_number r < int k + 1"
    using assms(2) n by (auto simp: in_set_conv_nth)
  have hi: "\<forall>r \<in> set (drop k rs). \<not> rs_round_number r < int k + 1"
    using assms(2) n by (auto simp: in_set_conv_nth)
  have "filter P rs = filter P (take k rs) @ filter P (drop k rs)" for P
    by (metis append_take_drop_id filter_append)
  then show "filter (\<lambda>r. rs_round_number r < int k + 1) rs = take k rs"
    "filter (\<lambda>r. \<not> rs_round_number r < int k + 1) rs = drop k rs"
    using lo hi by (simp_all add: filter_id_conv [THEN iffD2] filter_empty_conv [THEN iffD2])
qed

lemma Snapshot_lines:
  assumes "rnd_ok a"
  shows "distinct (map ln_id (mp_players (Snapshot_stats a)))"
    "l \<in> set (mp_players (Snapshot_stats a)) \<Longrightarrow> ln_stats l = stats_of a (ln_id l)"
proof -
  have d: "distinct (map fst (sa_players a))" using assms by (simp add: rnd_ok_def Let_def)
  have "map ln_id (map player_line (sa_players a)) = map fst (sa_players a)" by (simp add: player_line_def split_def)
  moreover have "mset (map ln_id (mp_players (Snapshot_stats a))) = mset (map ln_id (map player_line (sa_players a)))"
    by (simp add: Snapshot_stats_def multiset.map_comp)
  then have "distinct (map ln_id (mp_players (Snapshot_stats a))) \<longleftrightarrow> distinct (map ln_id (map player_line (sa_players a)))"
    by (rule mset_eq_imp_distinct_iff)
  ultimately show "distinct (map ln_id (mp_players (Snapshot_stats a)))" using d by (simp only:)
  assume "l \<in> set (mp_players (Snapshot_stats a))"
  then obtain i p where "(i, p) \<in> set (sa_players a)" "l = player_line (i, p)" by (auto simp: Snapshot_stats_def)
  then show "ln_stats l = stats_of a (ln_id l)" using get_in [OF d, of i p no_player] by (simp add: player_line_def)
qed


definition StatsAccumulator_init :: StatsAccumulator where
  "StatsAccumulator_init =
     \<lparr>sa_live = False, sa_team1IsCt = True, sa_players = [], sa_round = new_round, sa_t1 = no_team, sa_t2 = no_team, sa_rounds = []\<rparr>"

definition sample_round1 :: "StatsEvent list" where
  "sample_round1 =
     [Ev_Observe 1 ''ann'' 3 1 False, Ev_Observe 2 ''bob'' 2 2 False, Ev_Hurt 2 1 60 40 ''ak47'',
      Ev_Death 2 1 0 False True ''ak47'' 10, Ev_RoundEnd 3 8]"

definition sample_round2 :: "StatsEvent list" where
  "sample_round2 =
     [Ev_RoundStart, Ev_Observe 1 ''ann'' 3 1 False, Ev_Observe 2 ''bob'' 2 2 False, Ev_Mvp 2,
      Ev_Death 1 2 0 False False ''knife'' 20, Ev_RoundEnd 2 9]"


text \<open>
  A kill between a round's end and the next round start counts in the totals but in no round record:
  \<open>OnRoundStart\<close> throws its record away. Voiding every round then leaves that kill in the totals.
\<close>

lemma late_kill_survives_rewind:
  "let a = fold stats_apply
             (sample_round1 @ [Ev_Observe 1 ''ann'' 3 1 False, Ev_Observe 2 ''bob'' 2 2 False,
                               Ev_Death 1 2 0 False False ''ak47'' 12, Ev_RoundStart])
             (BeginMap True StatsAccumulator_init)
   in map (\<lambda>l. (ps_kills (ln_stats l), ps_deaths (ln_stats l))) (mp_players (snd (RewindTo (Snapshot_stats a) 1))) = [(0, 1), (1, 0)]"
  by code_simp

section \<open>Reload\<close>

lemma fold_restore_players:
  assumes "distinct (map ln_id ls)" "set (map ln_id ls) \<inter> keys (sa_players a) = {}"
  shows "sa_players (fold (\<lambda>l. modPlayer (ln_id l)
           (\<lambda>p. p\<lparr>py_name := ln_name l, py_team := ln_team l, py_lastSide := ln_last_side l, py_bot := ln_bot l, py_s := ln_stats l\<rparr>)) ls a) =
         sa_players a @ map (\<lambda>l. (ln_id l, \<lparr>py_name = ln_name l, py_team = ln_team l, py_lastSide = ln_last_side l,
                                             py_bot = ln_bot l, py_s = ln_stats l\<rparr>)) ls"
  using assms
proof (induction ls arbitrary: a)
  case (Cons l ls)
  have new: "k \<notin> keys m \<Longrightarrow> alter d k f m = m @ [(k, f d)]" for k m and d :: Player and f
    by (induction m) (auto simp: keys_def)
  have "ln_id l \<notin> keys (sa_players a)" using Cons.prems by simp
  with Cons show ?case by (simp add: modPlayer_def new no_player_def keys_def)
qed simp

lemma Restore_stats_players:
  assumes "distinct (map ln_id (mp_players m))"
  shows "map player_line (sa_players (Restore_stats m a)) = mp_players m"
proof -
  have "sa_players (Restore_stats m a) =
      map (\<lambda>l. (ln_id l, \<lparr>py_name = ln_name l, py_team = ln_team l, py_lastSide = ln_last_side l,
                          py_bot = ln_bot l, py_s = ln_stats l\<rparr>)) (mp_players m)"
    unfolding Restore_stats_def Let_def
    using fold_restore_players [OF assms, of "(Clear a)\<lparr>sa_live := mp_live m, sa_team1IsCt := mp_team1_is_ct m, sa_t1 := mp_team1 m, sa_t2 := mp_team2 m\<rparr>"]
    by (simp add: Clear_def)
  then show ?thesis by (auto simp: player_line_def comp_def intro!: map_idI PlayerLine.equality)
qed

lemma modPlayer_sel:
  "sa_live (modPlayer i f a) = sa_live a" "sa_team1IsCt (modPlayer i f a) = sa_team1IsCt a"
  "sa_t1 (modPlayer i f a) = sa_t1 a" "sa_t2 (modPlayer i f a) = sa_t2 a"
  by (simp_all add: modPlayer_def)

lemma Restore_stats_sel:
  "sa_live (Restore_stats m a) = mp_live m" "sa_team1IsCt (Restore_stats m a) = mp_team1_is_ct m"
  "sa_t1 (Restore_stats m a) = mp_team1 m" "sa_t2 (Restore_stats m a) = mp_team2 m" "sa_rounds (Restore_stats m a) = mp_rounds m"
  unfolding Restore_stats_def Let_def by (simp_all add: fold_sel modPlayer_sel)

text \<open>
  The statistics survive a plugin reload. At any moment of a map, the snapshot restored in another
  accumulator gives the same snapshot again.
\<close>

theorem snapshot_restore_snapshot:
  assumes "run_ok es (BeginMap b a0)" "a = fold stats_apply es (BeginMap b a0)"
  shows "Snapshot_stats (Restore_stats (Snapshot_stats a) a1) = Snapshot_stats a"
proof -
  have "rnd_ok a" using run_books [OF BeginMap_books assms(1)] assms(2) by (simp add: books_def)
  note d = Snapshot_lines(1) [OF this]
  have "sort_key (\<lambda>l. (ln_team l, ln_id l)) (mp_players (Snapshot_stats a)) = mp_players (Snapshot_stats a)"
    by (rule sort_key_id_if_sorted) (simp add: Snapshot_stats_def)
  then show ?thesis
    unfolding Snapshot_stats_def [of "Restore_stats _ _"] Restore_stats_sel Restore_stats_players [OF d]
    by (simp add: Snapshot_stats_def)
qed

theorem snapshot_restore_snapshot_witness:
  "let m = Snapshot_stats (fold stats_apply sample_round1 (BeginMap True StatsAccumulator_init))
   in Snapshot_stats (Restore_stats m StatsAccumulator_init) = m"
proof -
  have "run_ok sample_round1 (BeginMap True StatsAccumulator_init)" by code_simp
  from snapshot_restore_snapshot [OF this refl] show ?thesis by (simp only: Let_def)
qed

end
