(* ===== verification/Round_Restore.thy ===== *)
theory Round_Restore
  imports Match_End Match_Stats
begin

text \<open>
  Round backups and crash recovery (plugins/match/readyup/round_restore_rules.h and
  round_restore_rules.cpp): the names CS2 gives to the backup files, the list of backups, the checks of
  \<open>.restore\<close>, and what a restarted server does with a persisted match. The JSON form of the progress
  record is not modelled.
\<close>

section \<open>Backup files\<close>

definition AllDigits :: "string \<Rightarrow> nat \<Rightarrow> nat \<Rightarrow> bool" where
  "AllDigits s from to \<longleftrightarrow> from < to \<and> list_all isdigit (take (to - from) (drop from s))"

definition backup_head :: "u64 \<Rightarrow> string" where
  "backup_head matchid = ''readyup_backup_'' @ u64_string matchid @ ''_map''"

definition BackupPrefix :: "u64 \<Rightarrow> int \<Rightarrow> string" where
  "BackupPrefix matchid mapNumber = backup_head matchid @ to_string (max 1 mapNumber) @ ''_''"

record BackupInfo =
  b_file :: string
  b_map_number :: int
  b_round :: int
  b_mtime :: int
  b_size :: int

text \<open>The fields the parser fills: the file, the map number and the round.\<close>

definition ParseBackupFileName :: "string \<Rightarrow> u64 \<Rightarrow> (string \<times> int \<times> int) option" where
  "ParseBackupFileName file matchid =
     (let head = backup_head matchid; hl = length head
      in if length file \<le> hl + 4 \<or> \<not> starts_with head file then None
         else if \<not> ends_with ''.txt'' file then None
         else
           (case find_from ''_round'' file hl of
              None \<Rightarrow> None
            | Some roundTag \<Rightarrow>
                (let mapEnd = (if roundTag > hl \<and> file ! (roundTag - 1) = CHR ''_'' then roundTag - 1 else roundTag);
                     roundStart = roundTag + 6;
                     roundEnd = length file - 4
                 in if \<not> AllDigits file hl mapEnd \<or> mapEnd - hl > 3 then None
                    else if \<not> AllDigits file roundStart roundEnd \<or> roundEnd - roundStart > 3 then None
                    else
                      (let mapno = atoi (take (mapEnd - hl) (drop hl file));
                           played = atoi (take (roundEnd - roundStart) (drop roundStart file))
                       in if mapno < 1 then None else Some (file, mapno, played + 1)))))"

text \<open>
  The \<open>std::map\<close> keyed by (map, round): a list sorted by key. An entry is replaced by a newer one, in
  place.
\<close>

abbreviation backup_key :: "BackupInfo \<Rightarrow> int \<times> int" where
  "backup_key b \<equiv> (b_map_number b, b_round b)"

definition key_less :: "int \<times> int \<Rightarrow> int \<times> int \<Rightarrow> bool" where
  "key_less k l \<longleftrightarrow> fst k < fst l \<or> (fst k = fst l \<and> snd k < snd l)"

fun best_insert :: "BackupInfo \<Rightarrow> BackupInfo list \<Rightarrow> BackupInfo list" where
  "best_insert b [] = [b]"
| "best_insert b (x # xs) =
     (if key_less (backup_key b) (backup_key x) then b # x # xs
      else if backup_key b = backup_key x then (if b_mtime b > b_mtime x then b # xs else x # xs)
      else x # best_insert b xs)"

definition SortBackups :: "BackupInfo list \<Rightarrow> BackupInfo list" where
  "SortBackups xs = fold best_insert xs []"

definition later_round :: "BackupInfo \<Rightarrow> BackupInfo \<Rightarrow> bool" where
  "later_round b best \<longleftrightarrow> b_round b > b_round best"

definition LatestForMap :: "BackupInfo list \<Rightarrow> int \<Rightarrow> BackupInfo option" where
  "LatestForMap backups mapNumber = scan_best later_round None (filter (\<lambda>b. b_map_number b = mapNumber) backups)"

definition BackupListLine :: "BackupInfo \<Rightarrow> int \<Rightarrow> int \<Rightarrow> string" where
  "BackupListLine b score1 score2 =
     ''map '' @ to_string (b_map_number b) @ '' round '' @ to_string (b_round b)
       @ (if score1 \<ge> 0 \<and> score2 \<ge> 0 then '' ('' @ to_string score1 @ ''-'' @ to_string score2 @ '')'' else [])
       @ '' '' @ b_file b"

definition ScoreAtRoundStart :: "MapStats \<Rightarrow> int \<Rightarrow> (int \<times> int) option" where
  "ScoreAtRoundStart m roundno =
     (if roundno = 1 then Some (0, 0)
      else map_option (\<lambda>r. (rs_team1_score r, rs_team2_score r)) (List.find (\<lambda>r. rs_round_number r = roundno - 1) (mp_rounds m)))"

section \<open>The restore command\<close>

text \<open>\<open>None\<close>: the usage message.\<close>

definition ParseRestoreRound :: "string \<Rightarrow> int option" where
  "ParseRestoreRound arg =
     (if arg = [] \<or> length arg > 3 \<or> \<not> AllDigits arg 0 (length arg) \<or> atoi arg < 1 then None else Some (atoi arg))"

definition BackupFlagHint :: string where
  "BackupFlagHint =
     ''CS2 writes round backups only when started with -allow_round_backup_files (csm 1.27.4+ adds it; restart the server)''"

definition ExplainRestoreError :: "string \<Rightarrow> string" where
  "ExplainRestoreError err = (if \<not> starts_with ''no backup '' err then err else err @ ''. '' @ BackupFlagHint)"

text \<open>The arguments of a NUL-separated command line, the last part included.\<close>

fun cmdline_parts :: "string \<Rightarrow> string list" where
  "cmdline_parts [] = [[]]"
| "cmdline_parts (c # cs) =
     (if byte c = 0 then [] # cmdline_parts cs
      else (case cmdline_parts cs of [] \<Rightarrow> [[c]] | p # ps \<Rightarrow> (c # p) # ps))"

definition CmdlineHasArg :: "string \<Rightarrow> string \<Rightarrow> bool" where
  "CmdlineHasArg raw arg = list_ex (\<lambda>p. p = arg) (cmdline_parts raw)"

record RestoreCheck =
  rc_match_loaded :: bool
  rc_live :: bool
  rc_rounds_played :: int
  rc_round :: int

definition RestoreRefusal :: "RestoreCheck \<Rightarrow> string" where
  "RestoreRefusal c =
     (if \<not> rc_match_loaded c then ''no match loaded.''
      else if \<not> rc_live c then ''a restore needs a live map.''
      else if rc_round c < 1 then ''the round must be 1 or more.''
      else
        (let current = max 0 (rc_rounds_played c) + 1
         in if rc_round c > current
            then ''round '' @ to_string (rc_round c) @ '' has not been played yet (this is round '' @ to_string current @ '').''
            else []))"

definition PauseAfterRestoreFor :: "int \<Rightarrow> int \<Rightarrow> int \<Rightarrow> int" where
  "PauseAfterRestoreFor matchValue consoleValue cfgValue =
     (if matchValue \<ge> 0 then (if matchValue \<noteq> 0 then 1 else 0)
      else if consoleValue \<ge> 0 then (if consoleValue \<noteq> 0 then 1 else 0)
      else if cfgValue \<ge> 0 then (if cfgValue \<noteq> 0 then 1 else 0)
      else 1)"

section \<open>Crash recovery\<close>

record Progress =
  p_map_number :: int
  p_phase :: string
  p_series_team1 :: int
  p_series_team2 :: int

datatype RecoveryKind = Recover_None | Recover_Warmup | Recover_Live

record RecoveryPlan =
  rp_kind :: RecoveryKind
  rp_map_number :: int
  rp_map_entry :: string
  rp_why :: string

definition recover_at :: "string list \<Rightarrow> int \<Rightarrow> int \<Rightarrow> RecoveryKind \<Rightarrow> string \<Rightarrow> RecoveryPlan" where
  "recover_at maplist totalMaps mapNumber kind why =
     (if mapNumber < 1 \<or> mapNumber > int (length maplist) \<or> mapNumber > max 1 totalMaps
      then \<lparr>rp_kind = Recover_None, rp_map_number = 1, rp_map_entry = [],
            rp_why = ''map '' @ to_string mapNumber @ '' is not in the map list''\<rparr>
      else \<lparr>rp_kind = kind, rp_map_number = mapNumber, rp_map_entry = maplist ! nat (mapNumber - 1), rp_why = why\<rparr>)"

definition PlanRecovery :: "Progress option \<Rightarrow> bool \<Rightarrow> string list \<Rightarrow> int \<Rightarrow> bool \<Rightarrow> RecoveryPlan" where
  "PlanRecovery pOpt legacyLiveFlag maplist numMaps clinchSeries =
     (let total = (if numMaps > 0 then numMaps else int (length maplist)); plan_at = recover_at maplist total
      in case pOpt of
           None \<Rightarrow> plan_at 1 (if legacyLiveFlag then Recover_Live else Recover_Warmup) ''no progress record''
         | Some p \<Rightarrow>
             if p_phase p = ''map_over'' then
               (let remaining = RemainingMaps total (int (length maplist)) (p_map_number p)
                in if IsSeriesOver total remaining (p_series_team1 p) (p_series_team2 p) clinchSeries
                   then \<lparr>rp_kind = Recover_None, rp_map_number = 1, rp_map_entry = [], rp_why = ''the series was over''\<rparr>
                   else plan_at (p_map_number p + 1) Recover_Warmup (''map '' @ to_string (p_map_number p) @ '' was over''))
             else if p_phase p = ''live'' then plan_at (p_map_number p) Recover_Live ''the map was live''
             else plan_at (p_map_number p) Recover_Warmup ''the map was in warmup'')"

section \<open>Lemmas: backup names\<close>

lemma find_sub_skip:
  "p \<noteq> [] \<Longrightarrow> hd p \<notin> set ds \<Longrightarrow> find_sub p (ds @ xs) = map_option ((+) (length ds)) (find_sub p xs)"
proof (induction ds)
  case Nil
  then show ?case by (cases "find_sub p xs") simp_all
next
  case (Cons d ds)
  then have "\<not> starts_with p (d # ds @ xs)" by (cases p) (auto simp: starts_with_def)
  with Cons show ?case by (simp add: option.map_comp comp_def)
qed

lemma digits_no_underscore: "list_all isdigit ds \<Longrightarrow> CHR ''_'' \<notin> set ds"
  by (auto simp: list_all_iff isdigit_def)

lemma AllDigits_take: "to \<le> length s \<Longrightarrow> AllDigits s from to \<longleftrightarrow> IsDigits (take (to - from) (drop from s))"
  by (auto simp: AllDigits_def IsDigits_def)

lemma ends_with_append: "length p \<le> length r \<Longrightarrow> ends_with p (h @ r) \<longleftrightarrow> ends_with p r"
  by (simp add: ends_with_def)

text \<open>The parser after the head: everything is relative to the rest of the name.\<close>

definition map_end :: "string \<Rightarrow> nat \<Rightarrow> nat" where
  "map_end r i = (if i > 0 \<and> r ! (i - 1) = CHR ''_'' then i - 1 else i)"

definition round_part :: "string \<Rightarrow> nat \<Rightarrow> string" where
  "round_part r i = take (length r - 4 - (i + 6)) (drop (i + 6) r)"

lemma map_end_le: "map_end r i \<le> i"
  by (simp add: map_end_def)

lemma ParseBackup_rest:
  "ParseBackupFileName (backup_head matchid @ r) matchid =
     (if length r \<le> 4 \<or> \<not> ends_with ''.txt'' r then None
      else case find_sub ''_round'' r of
             None \<Rightarrow> None
           | Some i \<Rightarrow>
               (if \<not> IsDigits (take (map_end r i) r) \<or> map_end r i > 3 \<or>
                   \<not> IsDigits (round_part r i) \<or> length r - 4 - (i + 6) > 3 \<or> atoi (take (map_end r i) r) < 1
                then None
                else Some (backup_head matchid @ r, atoi (take (map_end r i) r), atoi (round_part r i) + 1)))"
proof -
  let ?h = "backup_head matchid" and ?n = "length (backup_head matchid)"
  have ew: "4 < length r \<Longrightarrow> ends_with ''.txt'' (?h @ r) \<longleftrightarrow> ends_with ''.txt'' r"
    by (rule ends_with_append) simp
  have me: "(if ?n + i > ?n \<and> (?h @ r) ! (?n + i - 1) = CHR ''_'' then ?n + i - 1 else ?n + i) = ?n + map_end r i" for i
    by (cases i) (simp_all add: map_end_def nth_append)
  have ad1: "find_sub ''_round'' r = Some i \<Longrightarrow>
      AllDigits (?h @ r) ?n (?n + map_end r i) \<longleftrightarrow> IsDigits (take (map_end r i) r)" for i
    using find_sub_Some [of "''_round''" r i] map_end_le [of r i] by (subst AllDigits_take) simp_all
  have ad2: "4 < length r \<Longrightarrow> AllDigits (?h @ r) (?n + i + 6) (?n + length r - 4) \<longleftrightarrow> IsDigits (round_part r i)" for i
    by (subst AllDigits_take) (simp_all add: round_part_def add.assoc)
  have rp: "take (?n + length r - 4 - (?n + i + 6)) (drop (?n + i + 6) (?h @ r)) = round_part r i" for i
    by (simp add: round_part_def add.assoc)
  show ?thesis
  proof (cases "length r \<le> 4 \<or> \<not> ends_with ''.txt'' r")
    case True
    then show ?thesis using ew by (auto simp: ParseBackupFileName_def Let_def)
  next
    case False
    show ?thesis
    proof (cases "find_sub ''_round'' r")
      case None
      with False show ?thesis by (simp add: ParseBackupFileName_def Let_def find_from_def)
    next
      case (Some i)
      have ff: "find_from ''_round'' (?h @ r) ?n = Some (?n + i)" by (simp add: find_from_def Some)
      have sub: "?n + length r - 4 - (?n + i + 6) = length r - 4 - (i + 6)" by simp
      from False Some show ?thesis
        unfolding ParseBackupFileName_def Let_def ff option.case me length_append
        using ew ad1 [OF Some] ad2 [of i] rp [of i] sub by (simp del: append_assoc)
    qed
  qed
qed

text \<open>
  The names CS2 writes for a match: the head, the map number, one or two underscores, the number of
  rounds played.
\<close>

definition backup_name :: "u64 \<Rightarrow> string \<Rightarrow> string \<Rightarrow> string \<Rightarrow> string" where
  "backup_name matchid md u rd = backup_head matchid @ md @ u @ ''_round'' @ rd @ ''.txt''"

definition backup_parts :: "string \<Rightarrow> string \<Rightarrow> string \<Rightarrow> bool" where
  "backup_parts md u rd \<longleftrightarrow>
     IsDigits md \<and> length md \<le> 3 \<and> 1 \<le> dec_value md \<and> (u = [] \<or> u = ''_'') \<and> IsDigits rd \<and> length rd \<le> 3"

lemma parse_backup_name:
  assumes "backup_parts md u rd"
  shows "ParseBackupFileName (backup_name matchid md u rd) matchid =
           Some (backup_name matchid md u rd, int (dec_value md), int (dec_value rd) + 1)"
proof -
  let ?r = "md @ u @ ''_round'' @ rd @ ''.txt''" and ?i = "length md + length u"
  have md: "list_all isdigit md" "md \<noteq> []" and rd: "list_all isdigit rd" "rd \<noteq> []"
    using assms by (simp_all add: backup_parts_def IsDigits_def)
  have u: "u = [] \<or> u = ''_''" using assms by (simp add: backup_parts_def)
  have fs: "find_sub ''_round'' ?r = Some ?i"
    using u digits_no_underscore [OF md(1)] by (auto simp: find_sub_skip starts_with_def)
  have last: "md ! (length md - 1) \<noteq> CHR ''_''"
    using digits_no_underscore [OF md(1)] md(2) by (metis diff_less length_greater_0_conv nth_mem zero_less_one)
  have me: "map_end ?r ?i = length md"
    using u md(2) last by (elim disjE) (simp_all add: map_end_def nth_append)
  have rp: "round_part ?r ?i = rd"
    using u by (elim disjE) (simp_all add: round_part_def)
  have len: "length ?r - 4 - (?i + 6) = length rd" by simp
  have ew: "ends_with ''.txt'' ?r" by (simp add: ends_with_suffix suffix_def)
  have tk: "take (length md) ?r = md" by simp
  show ?thesis
    unfolding backup_name_def ParseBackup_rest fs option.case me rp len tk
    using assms md rd ew by (simp add: backup_parts_def atoi_digits)
qed

lemma parse_backup_shape:
  assumes "ParseBackupFileName file matchid = Some res"
  shows "\<exists>md u rd. backup_parts md u rd \<and> file = backup_name matchid md u rd"
proof -
  from assms have "starts_with (backup_head matchid) file"
    by (simp add: ParseBackupFileName_def Let_def split: if_splits)
  then obtain r where f: "file = backup_head matchid @ r" by (auto simp: starts_with_prefix prefix_def)
  note P = assms [unfolded f ParseBackup_rest]
  from P have ew: "ends_with ''.txt'' r" by (simp split: if_splits)
  from P obtain i where i: "find_sub ''_round'' r = Some i"
    and md: "IsDigits (take (map_end r i) r)" "map_end r i \<le> 3" and rd: "IsDigits (round_part r i)"
    and len: "length r - 4 - (i + 6) \<le> 3" and pos: "1 \<le> atoi (take (map_end r i) r)"
    by (auto split: if_splits option.splits)
  let ?md = "take (map_end r i) r" and ?rd = "round_part r i"
  have il: "i \<le> length r" and t6: "take 6 (drop i r) = ''_round''"
    using find_sub_Some [OF i] by (simp_all add: starts_with_def eval_nat_numeral)
  have tag: "drop i r = ''_round'' @ drop (i + 6) r"
    using append_take_drop_id [of 6 "drop i r"] unfolding t6 drop_drop by (simp add: add.commute)
  obtain u where u: "take i r = ?md @ u" "u = [] \<or> u = ''_''"
  proof (cases "i > 0 \<and> r ! (i - 1) = CHR ''_''")
    case True
    then have "i - 1 < length r" using il by linarith
    with True have "take i r = take (i - 1) r @ ''_''" using take_Suc_conv_app_nth [of "i - 1" r] by simp
    with True show ?thesis by (intro that [of "''_''"]) (simp_all add: map_end_def)
  next
    case False
    then show ?thesis by (intro that [of "[]"]) (auto simp: map_end_def)
  qed
  have ne: "i + 6 < length r - 4" using rd by (auto simp: IsDigits_def round_part_def)
  have d4: "drop (length r - 4) r = ''.txt''" using ew by (simp add: ends_with_def eval_nat_numeral)
  have "length r - 4 - (i + 6) + (i + 6) = length r - 4" using ne by simp
  then have tl: "drop (i + 6) r = ?rd @ ''.txt''"
    using append_take_drop_id [of "length r - 4 - (i + 6)" "drop (i + 6) r"]
    unfolding round_part_def drop_drop d4 [symmetric] by simp
  have "r = take i r @ drop i r" by simp
  also have "\<dots> = ?md @ u @ ''_round'' @ ?rd @ ''.txt''" using u(1) tag tl by simp
  finally have "r = ?md @ u @ ''_round'' @ ?rd @ ''.txt''" .
  moreover have "backup_parts ?md u ?rd"
    using md rd len pos u(2) by (auto simp: backup_parts_def IsDigits_def atoi_digits round_part_def)
  ultimately show ?thesis unfolding f backup_name_def by blast
qed

text \<open>
  Exactly the backups of a match are recognised. A file name is read as a backup of a match if
  and only if it is the head with that match's id, one to three digits of a map number from 1, one or
  two underscores and one to three digits of rounds played, and what is read is that map and the round
  after those played; in particular every file CS2 writes for the prefix the match sets is found again.
\<close>

theorem ParseBackupFileName_iff:
  "(ParseBackupFileName file matchid = Some (f, m, r) \<longleftrightarrow>
      f = file \<and> (\<exists>md u rd. backup_parts md u rd \<and> file = backup_name matchid md u rd \<and>
                            m = int (dec_value md) \<and> r = int (dec_value rd) + 1)) \<and>
   (1 \<le> n \<and> n \<le> 999 \<and> IsDigits ds \<and> length ds \<le> 3 \<longrightarrow>
      ParseBackupFileName (BackupPrefix matchid n @ ''_round'' @ ds @ ''.txt'') matchid =
        Some (BackupPrefix matchid n @ ''_round'' @ ds @ ''.txt'', n, int (dec_value ds) + 1))"
proof (intro conjI impI)
  show "ParseBackupFileName file matchid = Some (f, m, r) \<longleftrightarrow>
      f = file \<and> (\<exists>md u rd. backup_parts md u rd \<and> file = backup_name matchid md u rd \<and>
                            m = int (dec_value md) \<and> r = int (dec_value rd) + 1)"
  proof
    assume P: "ParseBackupFileName file matchid = Some (f, m, r)"
    from parse_backup_shape [OF P] obtain md u rd where
      parts: "backup_parts md u rd" and fl: "file = backup_name matchid md u rd" by blast
    from parse_backup_name [OF parts, of matchid] P fl
    have "f = file \<and> m = int (dec_value md) \<and> r = int (dec_value rd) + 1" by simp
    with parts fl show "f = file \<and> (\<exists>md u rd. backup_parts md u rd \<and> file = backup_name matchid md u rd \<and>
                            m = int (dec_value md) \<and> r = int (dec_value rd) + 1)" by blast
  qed (use parse_backup_name in auto)
next
  assume n: "1 \<le> n \<and> n \<le> 999 \<and> IsDigits ds \<and> length ds \<le> 3"
  let ?md = "dec_nat (nat n)"
  have "nat n < 10 ^ 3" using n by (simp add: nat_less_iff)
  then have "length ?md \<le> 3" by (intro length_dec_nat) simp
  with n have "backup_parts ?md ''_'' ds" by (auto simp: backup_parts_def)
  moreover have "BackupPrefix matchid n @ ''_round'' @ ds @ ''.txt'' = backup_name matchid ?md ''_'' ds"
    using n by (simp add: BackupPrefix_def backup_name_def to_string_def)
  ultimately show "ParseBackupFileName (BackupPrefix matchid n @ ''_round'' @ ds @ ''.txt'') matchid =
        Some (BackupPrefix matchid n @ ''_round'' @ ds @ ''.txt'', n, int (dec_value ds) + 1)"
    using n parse_backup_name by simp
qed

theorem ParseBackupFileName_iff_witness:
  "ParseBackupFileName (BackupPrefix 42 1 @ ''_round'' @ ''03'' @ ''.txt'') 42 =
     Some (BackupPrefix 42 1 @ ''_round'' @ ''03'' @ ''.txt'', 1, int (dec_value ''03'') + 1) \<and> dec_value ''03'' = 3"
  using ParseBackupFileName_iff [where n = 1 and ds = "''03''" and matchid = 42]
  by (simp add: IsDigits_def isdigit_def dec_value_def del: append.simps)

section \<open>Lemmas: the list of backups\<close>

definition by_key :: "BackupInfo list \<Rightarrow> bool" where
  "by_key xs \<longleftrightarrow> sorted_wrt (\<lambda>a b. key_less (backup_key a) (backup_key b)) xs"

lemma key_less_trans: "key_less k l \<Longrightarrow> key_less l m \<Longrightarrow> key_less k m"
  by (auto simp: key_less_def)

lemma key_less_cases: "key_less k l \<or> k = l \<or> key_less l k"
  by (cases k; cases l) (auto simp: key_less_def)

lemma key_less_irrefl [simp]: "\<not> key_less k k"
  by (simp add: key_less_def)

lemma keys_best_insert: "backup_key ` set (best_insert b xs) = insert (backup_key b) (backup_key ` set xs)"
  by (induction xs) auto

lemma set_best_insert: "set (best_insert b xs) \<subseteq> insert b (set xs)"
  by (induction xs) auto

lemma best_insert_by_key: "by_key xs \<Longrightarrow> by_key (best_insert b xs)"
proof (induction xs)
  case (Cons x xs)
  have lt: "\<forall>y \<in> set xs. key_less (backup_key x) (backup_key y)" and IH: "by_key (best_insert b xs)"
    using Cons by (simp_all add: by_key_def)
  have keys: "y \<in> set (best_insert b xs) \<Longrightarrow> backup_key y = backup_key b \<or> backup_key y \<in> backup_key ` set xs" for y
    using keys_best_insert [of b xs] by blast
  consider "key_less (backup_key b) (backup_key x)" | "backup_key b = backup_key x" | "key_less (backup_key x) (backup_key b)"
    using key_less_cases by blast
  then show ?case
  proof cases
    case 1
    then have "\<forall>y \<in> set xs. key_less (backup_key b) (backup_key y)" using lt key_less_trans by blast
    with 1 Cons.prems show ?thesis by (simp add: by_key_def)
  next
    case 2
    with Cons.prems show ?thesis by (simp add: by_key_def)
  next
    case 3
    then have "\<not> key_less (backup_key b) (backup_key x)" "backup_key b \<noteq> backup_key x"
      by (auto simp: key_less_def)
    moreover have "\<forall>y \<in> set (best_insert b xs). key_less (backup_key x) (backup_key y)"
      using keys 3 lt by (metis (no_types, lifting) imageE)
    ultimately show ?thesis using IH by (auto simp: by_key_def)
  qed
qed (simp add: by_key_def)

text \<open>For each key the list holds a newest entry of what was inserted.\<close>

definition newest_of :: "BackupInfo list \<Rightarrow> BackupInfo list \<Rightarrow> bool" where
  "newest_of ins xs \<longleftrightarrow>
     by_key xs \<and> set xs \<subseteq> set ins \<and> backup_key ` set xs = backup_key ` set ins \<and>
     (\<forall>x \<in> set xs. \<forall>b \<in> set ins. backup_key b = backup_key x \<longrightarrow> b_mtime b \<le> b_mtime x)"

lemma by_key_same: "by_key xs \<Longrightarrow> x \<in> set xs \<Longrightarrow> y \<in> set xs \<Longrightarrow> backup_key x = backup_key y \<Longrightarrow> x = y"
  by (induction xs) (auto simp: by_key_def)

lemma best_insert_kept:
  "by_key xs \<Longrightarrow> x \<in> set xs \<Longrightarrow> backup_key x \<noteq> backup_key b \<Longrightarrow> x \<in> set (best_insert b xs)"
  by (induction xs) (auto simp: by_key_def)

lemma best_insert_newest:
  "by_key xs \<Longrightarrow> x \<in> set (best_insert b xs) \<Longrightarrow> backup_key x = backup_key b \<Longrightarrow>
     b_mtime b \<le> b_mtime x \<and> (\<forall>y \<in> set xs. backup_key y = backup_key b \<longrightarrow> b_mtime y \<le> b_mtime x)"
proof (induction xs)
  case (Cons y ys)
  have lt: "z \<in> set ys \<Longrightarrow> backup_key z \<noteq> backup_key y" for z
    using Cons.prems(1) by (auto simp: by_key_def key_less_def)
  have lt2: "z \<in> set ys \<Longrightarrow> key_less (backup_key y) (backup_key z)" for z
    using Cons.prems(1) by (simp add: by_key_def)
  show ?case
  proof (cases "backup_key b = backup_key y")
    case True
    then have "\<not> key_less (backup_key b) (backup_key y)" by simp
    with True Cons.prems lt show ?thesis by (auto split: if_splits)
  next
    case False
    show ?thesis
    proof (cases "key_less (backup_key b) (backup_key y)")
      case True
      then have "\<forall>z \<in> set (y # ys). backup_key z \<noteq> backup_key b"
        using False lt2 key_less_trans [OF True] by (metis key_less_irrefl set_ConsD)
      with True False Cons.prems show ?thesis by auto
    next
      case nl: False
      with False Cons show ?thesis by (auto simp: by_key_def)
    qed
  qed
qed simp

lemma newest_insert:
  assumes "newest_of ins xs"
  shows "newest_of (ins @ [b]) (best_insert b xs)"
proof -
  have k: "by_key xs" and s: "set xs \<subseteq> set ins" and im: "backup_key ` set xs = backup_key ` set ins"
    and nw: "\<And>x c. x \<in> set xs \<Longrightarrow> c \<in> set ins \<Longrightarrow> backup_key c = backup_key x \<Longrightarrow> b_mtime c \<le> b_mtime x"
    using assms by (auto simp: newest_of_def)
  have "b_mtime c \<le> b_mtime x"
    if x: "x \<in> set (best_insert b xs)" and c: "c \<in> set (ins @ [b])" and e: "backup_key c = backup_key x" for x c
  proof (cases "backup_key x = backup_key b")
    case True
    note n = best_insert_newest [OF k x True]
    show ?thesis
    proof (cases "c = b")
      case False
      with c have "c \<in> set ins" by simp
      then have "backup_key c \<in> backup_key ` set xs" using im by blast
      then obtain y where "y \<in> set xs" "backup_key y = backup_key c" by auto
      with nw [of y c] n e True \<open>c \<in> set ins\<close> have "b_mtime c \<le> b_mtime y" "b_mtime y \<le> b_mtime x" by auto
      then show ?thesis by simp
    qed (use n in simp)
  next
    case False
    with x set_best_insert have "x \<in> set xs" by fastforce
    moreover from False e c have "c \<in> set ins" by auto
    ultimately show ?thesis using nw e by blast
  qed
  moreover have "backup_key ` set (best_insert b xs) = backup_key ` set (ins @ [b])"
    unfolding keys_best_insert im by simp
  moreover have "set (best_insert b xs) \<subseteq> set (ins @ [b])" using set_best_insert [of b xs] s by auto
  ultimately show ?thesis unfolding newest_of_def using best_insert_by_key [OF k, of b] by blast
qed

lemma SortBackups_newest: "newest_of xs (SortBackups xs)"
proof -
  have "newest_of (ins @ xs) (fold best_insert xs acc)" if "newest_of ins acc" for ins acc
    using that
  proof (induction xs arbitrary: ins acc)
    case (Cons x xs)
    from Cons.IH [OF newest_insert [OF Cons.prems, of x]] show ?case by simp
  qed simp
  from this [of "[]" "[]"] show ?thesis by (simp add: SortBackups_def newest_of_def by_key_def)
qed

interpretation rounds: strict_weak later_round
  by unfold_locales (auto simp: later_round_def)

text \<open>
  A recovery finds the newest backup of the newest round. The list of backups is sorted by map and
  round with one entry each, the entry is one of the files and no file of that map and round is newer;
  the latest backup of a map is in that list and no backup of the map has a later round, and there is
  one exactly when some file is a backup of that map.
\<close>

theorem LatestForMap_newest:
  "(case LatestForMap (SortBackups xs) m of
      None \<Rightarrow> (\<forall>b \<in> set xs. b_map_number b \<noteq> m)
    | Some l \<Rightarrow> l \<in> set xs \<and> b_map_number l = m \<and>
        (\<forall>b \<in> set xs. b_map_number b = m \<longrightarrow>
           b_round b \<le> b_round l \<and> (b_round b = b_round l \<longrightarrow> b_mtime b \<le> b_mtime l))) \<and>
   sorted_wrt (\<lambda>a b. key_less (backup_key a) (backup_key b)) (SortBackups xs)"
proof -
  note N = SortBackups_newest [of xs, unfolded newest_of_def]
  let ?ys = "filter (\<lambda>b. b_map_number b = m) (SortBackups xs)"
  have keyin: "b \<in> set xs \<Longrightarrow> \<exists>y \<in> set (SortBackups xs). backup_key y = backup_key b" for b
    using N by (metis (no_types, lifting) imageE image_eqI)
  have "case LatestForMap (SortBackups xs) m of
      None \<Rightarrow> (\<forall>b \<in> set xs. b_map_number b \<noteq> m)
    | Some l \<Rightarrow> l \<in> set xs \<and> b_map_number l = m \<and>
        (\<forall>b \<in> set xs. b_map_number b = m \<longrightarrow>
           b_round b \<le> b_round l \<and> (b_round b = b_round l \<longrightarrow> b_mtime b \<le> b_mtime l))"
  proof (cases "LatestForMap (SortBackups xs) m")
    case None
    then have "?ys = []" by (simp add: LatestForMap_def)
    with keyin None show ?thesis by (fastforce simp: filter_empty_conv)
  next
    case (Some l)
    note top = rounds.scan_best_top [OF Some [unfolded LatestForMap_def]]
    have l: "l \<in> set (SortBackups xs)" "b_map_number l = m" using top(1) by auto
    have le: "b_round b \<le> b_round l" if "b \<in> set xs" "b_map_number b = m" for b
    proof -
      from keyin [OF that(1)] obtain y where "y \<in> set (SortBackups xs)" "backup_key y = backup_key b" by blast
      with top(2) [of y] that show ?thesis by (auto simp: later_round_def)
    qed
    have "b_mtime b \<le> b_mtime l" if "b \<in> set xs" "b_map_number b = m" "b_round b = b_round l" for b
      using N l that by auto
    with l le N Some show ?thesis by auto
  qed
  with N show ?thesis by (simp add: by_key_def)
qed

definition sample_backup :: "int \<Rightarrow> int \<Rightarrow> BackupInfo" where
  "sample_backup r t = \<lparr>b_file = ''b.txt'', b_map_number = 1, b_round = r, b_mtime = t, b_size = 0\<rparr>"

theorem LatestForMap_newest_witness:
  "LatestForMap (SortBackups [sample_backup 3 10, sample_backup 5 20, sample_backup 5 30]) 1 = Some (sample_backup 5 30) \<and>
   list_all (\<lambda>b. b_round b \<le> 5 \<and> b_mtime b \<le> 30) [sample_backup 3 10, sample_backup 5 20, sample_backup 5 30]"
  using LatestForMap_newest [of "[sample_backup 3 10, sample_backup 5 20, sample_backup 5 30]" 1]
  by (simp add: LatestForMap_def SortBackups_def sample_backup_def key_less_def later_round_def)

section \<open>Lemmas: recovery\<close>



section \<open>Restoring a round\<close>

lemma find_numbered:
  assumes "map rs_round_number rs = [1..int (length rs)]" "0 < k" "k \<le> length rs"
  shows "List.find (\<lambda>r. rs_round_number r = int k) rs = Some (rs ! (k - 1))"
proof -
  have n: "rs_round_number (rs ! j) = int j + 1" if "j < length rs" for j
    using arg_cong [OF assms(1), of "\<lambda>xs. xs ! j"] that by simp
  show ?thesis unfolding find_Some_iff
    using assms(2,3) n by (intro exI [of _ "k - 1"]) (auto simp: of_nat_diff)
qed

text \<open>
  The score that a restore announces is the score the match had. When the first \<open>k\<close> rounds of a
  map are on record and play went on, the score looked up for the start of round \<open>k + 1\<close> in the later
  statistics is the score of both teams at that point, which is also what rewinding to that round leaves.
\<close>

theorem restore_announces_score:
  assumes "run_ok (es @ fs) (BeginMap b a0)"
    and "before = fold stats_apply es (BeginMap b a0)" "after = fold stats_apply fs before"
  shows "ScoreAtRoundStart (Snapshot_stats after) (int (length (sa_rounds before)) + 1) =
     Some (tl_score (sa_t1 before), tl_score (sa_t2 before))"
proof -
  have B: "books before" and r2: "run_ok fs before"
    using run_books [OF BeginMap_books, of es b a0] assms(1,2) by (simp_all add: run_ok_append)
  then have A: "books after" using run_books assms(3) by simp
  have pre: "prefix (sa_rounds before) (sa_rounds after)" using run_rounds_grow [OF B r2] assms(3) by simp
  define k where "k = length (sa_rounds before)"
  have k: "k \<le> length (sa_rounds after)" "take k (sa_rounds after) = sa_rounds before"
    using pre by (auto simp: k_def prefix_def)
  have lines: "sa_t1 before = line_of 1 (sa_rounds before)" "sa_t2 before = line_of 2 (sa_rounds before)"
    using B by (simp_all add: books_def)
  show ?thesis
  proof (cases "k = 0")
    case True
    then show ?thesis using lines by (simp add: ScoreAtRoundStart_def k_def line_of_def won_rounds_def Let_def)
  next
    case False
    then have "List.find (\<lambda>r. rs_round_number r = int k) (sa_rounds after) = Some (sa_rounds after ! (k - 1))"
      using A k by (intro find_numbered) (simp_all add: books_def)
    moreover have "rs_team1_score (sa_rounds after ! (k - 1)) = tl_score (line_of 1 (take (Suc (k - 1)) (sa_rounds after)))"
      "rs_team2_score (sa_rounds after ! (k - 1)) = tl_score (line_of 2 (take (Suc (k - 1)) (sa_rounds after)))"
      using A False k by (simp_all add: books_def)
    ultimately show ?thesis
      using False k lines by (simp add: ScoreAtRoundStart_def Snapshot_stats_def k_def [symmetric])
  qed
qed

theorem restore_announces_score_witness:
  "ScoreAtRoundStart (Snapshot_stats (fold stats_apply (sample_round1 @ sample_round2) (BeginMap True StatsAccumulator_init))) 2 =
     Some (1, 0)"
proof -
  define before where "before = fold stats_apply sample_round1 (BeginMap True StatsAccumulator_init)"
  have ok: "run_ok (sample_round1 @ sample_round2) (BeginMap True StatsAccumulator_init)" by code_simp
  have "length (sa_rounds before) = 1 \<and> tl_score (sa_t1 before) = 1 \<and> tl_score (sa_t2 before) = 0"
    unfolding before_def by code_simp
  then show ?thesis using restore_announces_score [OF ok before_def refl] by (simp add: before_def)
qed

end
