(* ===== verification/Retention.thy ===== *)
theory Retention
  imports Round_Restore
begin

text \<open>
  File retention (plugins/match/readyup/retention_rules.h and retention_rules.cpp): which round
  backups, resume copies and demos the sweep deletes. Both selections are instances of the locale
  \<open>retention_policy\<close>; the files of a protected match survive every sweep.
\<close>

definition Digits :: "string \<Rightarrow> (u64 \<times> string) option" where
  "Digits s =
     (let ds = takeWhile isdigit (take 20 s)
      in if ds = [] then None
         else Some (foldl (\<lambda>v c. v * 10 + of_nat (byte c - 48)) 0 ds, drop (length ds) s))"

definition Literal :: "string \<Rightarrow> string \<Rightarrow> string option" where
  "Literal lit s = (if starts_with lit s then Some (drop (length lit) s) else None)"

definition IsProtected :: "u64 \<Rightarrow> u64 list \<Rightarrow> bool" where
  "IsProtected matchid ids \<longleftrightarrow> matchid \<noteq> 0 \<and> matchid \<in> set ids"

text \<open>The cursor \<open>pos\<close> of the source is the rest of the name that is still to be read.\<close>

definition ParseRetainedBackupName :: "string \<Rightarrow> u64 option" where
  "ParseRetainedBackupName name =
     (if \<not> (starts_with ''readyup_backup_'' name \<or> starts_with ''readyup_resume_'' name) then None
      else
        (case Digits (drop 15 name) of
           None \<Rightarrow> None
         | Some (mid, r1) \<Rightarrow>
             (case Option.bind (Literal ''_map'' r1) Digits of
                None \<Rightarrow> None
              | Some (_, r2) \<Rightarrow>
                  (let r3 = (if starts_with ''__round'' r2 then drop 1 r2 else r2)
                   in case Option.bind (Literal ''_round'' r3) Digits of
                        None \<Rightarrow> None
                      | Some (_, r4) \<Rightarrow> (if Literal ''.txt'' r4 = Some [] then Some mid else None)))))"

definition DemoNameHasMatchId :: "string \<Rightarrow> u64 \<Rightarrow> bool" where
  "DemoNameHasMatchId name matchid =
     (if matchid = 0 then False
      else
        (let idstr = u64_string matchid
         in if starts_with (idstr @ ''_'') name \<or> starts_with (idstr @ ''.'') name then True
            else if contains (''_'' @ idstr @ ''_'') name then True
            else ends_with (''_'' @ idstr @ ''.dem'') name))"

definition Expired :: "int \<Rightarrow> int \<Rightarrow> int \<Rightarrow> bool" where
  "Expired now mtime keepHours = (if keepHours \<le> 0 \<or> mtime > now then False else now - mtime \<ge> keepHours * 3600)"

record FileEntry =
  f_name :: string
  f_mtime :: int

definition BackupsToDelete :: "FileEntry list \<Rightarrow> int \<Rightarrow> int \<Rightarrow> u64 list \<Rightarrow> string list" where
  "BackupsToDelete files now keepHours protectedMatchids =
     (if keepHours \<le> 0 then []
      else
        map f_name
          (filter (\<lambda>f. case ParseRetainedBackupName (f_name f) of
                         None \<Rightarrow> False
                       | Some mid \<Rightarrow> \<not> IsProtected mid protectedMatchids \<and> Expired now (f_mtime f) keepHours) files))"

definition DemosToDelete :: "FileEntry list \<Rightarrow> int \<Rightarrow> int \<Rightarrow> u64 list \<Rightarrow> string list \<Rightarrow> string list" where
  "DemosToDelete files now keepHours protectedMatchids keepNames =
     (if keepHours \<le> 0 then []
      else
        map f_name
          (filter (\<lambda>f. length (f_name f) > 4 \<and> ends_with ''.dem'' (f_name f) \<and> f_name f \<notin> set keepNames \<and>
                       \<not> list_ex (DemoNameHasMatchId (f_name f)) protectedMatchids \<and>
                       Expired now (f_mtime f) keepHours) files))"

section \<open>Lemmas: backup names are read the same way\<close>

lemma word_digits: "foldl (\<lambda>v c. v * 10 + of_nat (byte c - 48)) 0 ds = (of_nat (dec_value ds) :: u64)"
  by (induction ds rule: rev_induct) simp_all

lemma takeWhile_digits_append:
  "list_all isdigit ds \<Longrightarrow> rest = [] \<or> \<not> isdigit (hd rest) \<Longrightarrow> takeWhile isdigit (ds @ rest) = ds"
  by (induction ds) (auto simp: takeWhile_eq_Nil_iff)

lemma takeWhile_take: "length (takeWhile P xs) \<le> n \<Longrightarrow> takeWhile P (take n xs) = takeWhile P xs"
proof (induction xs arbitrary: n)
  case (Cons x xs)
  then show ?case by (cases n) auto
qed simp

lemma Digits_append:
  assumes "IsDigits ds" and "length ds \<le> 20" and "rest = [] \<or> \<not> isdigit (hd rest)"
  shows "Digits (ds @ rest) = Some (of_nat (dec_value ds), rest)"
proof -
  have "takeWhile isdigit (ds @ rest) = ds"
    using assms(1,3) by (intro takeWhile_digits_append) (simp_all add: IsDigits_def)
  then have "takeWhile isdigit (take 20 (ds @ rest)) = ds" using assms(2) takeWhile_take [of isdigit "ds @ rest" 20] by simp
  with assms(1) show ?thesis by (simp add: Digits_def Let_def word_digits IsDigits_def)
qed

lemma Literal_append [simp]: "Literal lit (lit @ s) = Some s"
  by (simp add: Literal_def)

lemma not_digit_underscore: "\<not> isdigit CHR ''_''" "\<not> isdigit CHR ''.''"
  by (simp_all add: isdigit_def)

lemma parse_retained_backup:
  assumes "backup_parts md u rd"
  shows "ParseRetainedBackupName (backup_name matchid md u rd) = Some matchid"
proof -
  have md: "IsDigits md" "length md \<le> 20" and rd: "IsDigits rd" "length rd \<le> 20" and u: "u = [] \<or> u = ''_''"
    using assms by (simp_all add: backup_parts_def)
  let ?r4 = "''.txt''" and ?r3 = "''_round'' @ rd @ ''.txt''"
  let ?r2 = "u @ ?r3" and ?r1 = "''_map'' @ md @ u @ ''_round'' @ rd @ ''.txt''"
  have d1: "Digits (u64_string matchid @ ?r1) = Some (matchid, ?r1)"
    using Digits_append [of "u64_string matchid" ?r1] length_u64_string [of matchid]
    by (simp add: u64_string_def not_digit_underscore)
  have d2: "Option.bind (Literal ''_map'' ?r1) Digits = Some (of_nat (dec_value md), ?r2)"
    using Digits_append [OF md, of ?r2] u by (simp only: Literal_append Option.bind.simps) (auto simp: not_digit_underscore)
  have d3: "(if starts_with ''__round'' ?r2 then drop 1 ?r2 else ?r2) = ?r3"
    using u by (auto simp: starts_with_def)
  have d4: "Option.bind (Literal ''_round'' ?r3) Digits = Some (of_nat (dec_value rd), ?r4)"
    using Digits_append [OF rd, of ?r4] by (simp only: Literal_append Option.bind.simps) (simp add: not_digit_underscore)
  have dr: "drop 15 (backup_name matchid md u rd) = u64_string matchid @ ?r1"
    by (simp add: backup_name_def backup_head_def)
  have st: "starts_with ''readyup_backup_'' (backup_name matchid md u rd)"
    unfolding backup_name_def backup_head_def append_assoc by (rule starts_with_append)
  have tx: "Literal ''.txt'' ?r4 = Some []" by (simp add: Literal_def starts_with_def)
  show ?thesis
    unfolding ParseRetainedBackupName_def dr d1 option.case prod.case d2 Let_def d3 d4
    using st tx by simp
qed

section \<open>The contract of a sweep\<close>

lemma Expired_iff: "Expired now mtime keepHours \<longleftrightarrow> 0 < keepHours \<and> keepHours * 3600 \<le> now - mtime"
  by (auto simp: Expired_def)

text \<open>
  A policy selects names among the files: never when it is off, only files that are old enough, never
  a file it keeps; and it selects each file that none of this holds back.
\<close>

locale retention_policy =
  fixes select :: "FileEntry list \<Rightarrow> int \<Rightarrow> int \<Rightarrow> string list"
    and mine :: "string \<Rightarrow> bool"
    and kept :: "string \<Rightarrow> bool"
  assumes select_eq: "select files now keepHours =
    map f_name (filter (\<lambda>f. mine (f_name f) \<and> \<not> kept (f_name f) \<and> Expired now (f_mtime f) keepHours) files)"
begin

lemma off: "keepHours \<le> 0 \<Longrightarrow> select files now keepHours = []"
  by (simp add: select_eq Expired_iff)

lemma selected_iff: "name \<in> set (select files now keepHours) \<longleftrightarrow>
   (\<exists>f \<in> set files. f_name f = name \<and> mine name \<and> \<not> kept name \<and> Expired now (f_mtime f) keepHours)"
  by (auto simp: select_eq)

lemma kept_survives: "kept name \<Longrightarrow> name \<notin> set (select files now keepHours)"
  by (simp add: selected_iff)

text \<open>A second sweep at the same time, over the files that are left, selects nothing.\<close>

lemma sweep_again: "select (filter (\<lambda>f. f_name f \<notin> set (select files now keepHours)) files) now keepHours = []"
  by (auto simp: select_eq filter_empty_conv)

text \<open>Waiting longer or keeping for less time never spares a file.\<close>

lemma select_mono:
  assumes "now \<le> now2" and "0 < keep2" and "keep2 \<le> keepHours"
  shows "set (select files now keepHours) \<subseteq> set (select files now2 keep2)"
proof
  fix name
  assume "name \<in> set (select files now keepHours)"
  then obtain f where f: "f \<in> set files" "f_name f = name" "mine name" "\<not> kept name"
    and old: "keepHours * 3600 \<le> now - f_mtime f"
    by (auto simp: selected_iff Expired_iff)
  have "keep2 * 3600 \<le> keepHours * 3600" using assms(3) by simp
  with old assms have "Expired now2 (f_mtime f) keep2" by (simp add: Expired_iff)
  with f show "name \<in> set (select files now2 keep2)" by (auto simp: selected_iff)
qed

end

definition backup_kept :: "u64 list \<Rightarrow> string \<Rightarrow> bool" where
  "backup_kept protectedMatchids name =
     (case ParseRetainedBackupName name of None \<Rightarrow> False | Some matchid \<Rightarrow> IsProtected matchid protectedMatchids)"

interpretation backups: retention_policy "\<lambda>files now keepHours. BackupsToDelete files now keepHours prot"
  "\<lambda>name. ParseRetainedBackupName name \<noteq> None" "backup_kept prot" for prot
proof unfold_locales
  fix files :: "FileEntry list" and now keepHours :: int
  have "(case ParseRetainedBackupName (f_name f) of
           None \<Rightarrow> False | Some mid \<Rightarrow> \<not> IsProtected mid prot \<and> Expired now (f_mtime f) keepHours) \<longleftrightarrow>
        ParseRetainedBackupName (f_name f) \<noteq> None \<and> \<not> backup_kept prot (f_name f) \<and> Expired now (f_mtime f) keepHours" for f
    by (simp add: backup_kept_def split: option.split)
  then have "filter (\<lambda>f. case ParseRetainedBackupName (f_name f) of
           None \<Rightarrow> False | Some mid \<Rightarrow> \<not> IsProtected mid prot \<and> Expired now (f_mtime f) keepHours) files =
        filter (\<lambda>f. ParseRetainedBackupName (f_name f) \<noteq> None \<and> \<not> backup_kept prot (f_name f) \<and>
                              Expired now (f_mtime f) keepHours) files"
    by (intro filter_cong refl) blast
  then show "BackupsToDelete files now keepHours prot =
      map f_name (filter (\<lambda>f. ParseRetainedBackupName (f_name f) \<noteq> None \<and> \<not> backup_kept prot (f_name f) \<and>
                              Expired now (f_mtime f) keepHours) files)"
    by (cases "keepHours \<le> 0") (simp add: BackupsToDelete_def Expired_iff, simp add: BackupsToDelete_def)
qed

definition demo_kept :: "u64 list \<Rightarrow> string list \<Rightarrow> string \<Rightarrow> bool" where
  "demo_kept protectedMatchids keepNames name \<longleftrightarrow>
     name \<in> set keepNames \<or> list_ex (DemoNameHasMatchId name) protectedMatchids"

interpretation demos: retention_policy "\<lambda>files now keepHours. DemosToDelete files now keepHours prot names"
  "\<lambda>name. length name > 4 \<and> ends_with ''.dem'' name" "demo_kept prot names" for prot names
  by unfold_locales (auto simp: DemosToDelete_def demo_kept_def Expired_iff intro!: arg_cong [of _ _ "map f_name"] filter_cong)



text \<open>
  A sweep deletes what it should, once. A file is selected exactly when it is a backup (or a demo),
  is not kept and is old enough; a sweep that is off selects nothing; and a second sweep over what the
  first one left selects nothing more.
\<close>

theorem sweep_selects_exactly:
  "(name \<in> set (BackupsToDelete files now keepHours prot) \<longleftrightarrow>
      (\<exists>f \<in> set files. f_name f = name \<and> 0 < keepHours \<and> keepHours * 3600 \<le> now - f_mtime f \<and>
         (\<exists>m. ParseRetainedBackupName name = Some m \<and> \<not> IsProtected m prot))) \<and>
   BackupsToDelete (filter (\<lambda>f. f_name f \<notin> set (BackupsToDelete files now keepHours prot)) files) now keepHours prot = [] \<and>
   DemosToDelete (filter (\<lambda>f. f_name f \<notin> set (DemosToDelete files now keepHours prot names)) files) now keepHours prot names = []"
proof -
  have "name \<in> set (BackupsToDelete files now keepHours prot) \<longleftrightarrow>
      (\<exists>f \<in> set files. f_name f = name \<and> 0 < keepHours \<and> keepHours * 3600 \<le> now - f_mtime f \<and>
         (\<exists>m. ParseRetainedBackupName name = Some m \<and> \<not> IsProtected m prot))"
    unfolding backups.selected_iff
    by (cases "ParseRetainedBackupName name") (auto simp: backup_kept_def Expired_iff)
  then show ?thesis using backups.sweep_again demos.sweep_again by blast
qed

text \<open>The digits are read into 64 bits without a range check: a 20-digit number wraps around.\<close>

lemma ParseRetained_wraps:
  "ParseRetainedBackupName ''readyup_backup_18446744073709551617_map1_round01.txt'' = Some 1"
  by code_simp

end
