(* ===== verification/Roster_Names.thy ===== *)
theory Roster_Names
  imports Prelude
begin

text \<open>
  Roster display names (plugins/match/readyup/roster_names_rules.h and roster_names_rules.cpp): the
  UTF-8 reader, the sanitizer of a name that goes into the controller and into log lines, and the
  check that writes a roster name and gives the player's own name back.
\<close>

section \<open>The sanitizer\<close>

text \<open>Length, and the range of the second byte, of the sequence a lead byte starts.\<close>

definition utf8_lead :: "nat \<Rightarrow> (nat \<times> nat \<times> nat) option" where
  "utf8_lead c =
     (if c \<ge> 0xC2 \<and> c \<le> 0xDF then Some (2, 0x80, 0xBF)
      else if c = 0xE0 then Some (3, 0xA0, 0xBF)
      else if c = 0xED then Some (3, 0x80, 0x9F)
      else if c \<ge> 0xE1 \<and> c \<le> 0xEF then Some (3, 0x80, 0xBF)
      else if c = 0xF0 then Some (4, 0x90, 0xBF)
      else if c \<ge> 0xF1 \<and> c \<le> 0xF3 then Some (4, 0x80, 0xBF)
      else if c = 0xF4 then Some (4, 0x80, 0x8F)
      else None)"

text \<open>\<open>Utf8Len(s, i)\<close> on the rest of the string from \<open>i\<close>.\<close>

definition Utf8Len :: "string \<Rightarrow> nat" where
  "Utf8Len s =
     (case s of
        [] \<Rightarrow> 0
      | c # cs \<Rightarrow>
          if byte c < 0x80 then 1
          else
            (case utf8_lead (byte c) of
               None \<Rightarrow> 0
             | Some (n, lo, hi) \<Rightarrow>
                 if length s < n then 0
                 else if byte (s ! 1) < lo \<or> byte (s ! 1) > hi then 0
                 else if list_all (\<lambda>d. 0x80 \<le> byte d \<and> byte d \<le> 0xBF) (drop 2 (take n s)) then n else 0))"

definition blank_byte :: "char \<Rightarrow> bool" where
  "blank_byte c \<longleftrightarrow> byte c = 32 \<or> byte c = 9 \<or> byte c = 10 \<or> byte c = 13"

definition dropped_byte :: "char \<Rightarrow> bool" where
  "dropped_byte c \<longleftrightarrow> byte c < 0x20 \<or> byte c = 0x7F \<or> c = quote_char \<or> c = CHR ''<'' \<or> c = CHR ''>''"

abbreviation kMaxNameBytes :: nat where "kMaxNameBytes \<equiv> 127"

lemma Utf8Len_le: "Utf8Len s \<le> length s"
  by (auto simp: Utf8Len_def split: list.splits option.splits)

function sanitize_loop :: "nat \<Rightarrow> bool \<Rightarrow> string \<Rightarrow> string \<Rightarrow> string" where
  "sanitize_loop maxBytes pending out [] = out"
| "sanitize_loop maxBytes pending out (c # cs) =
     (let n = Utf8Len (c # cs); need = (if pending then 1 else 0) + n; sp = (if pending then [space_char] else [])
      in if n = 0 then sanitize_loop maxBytes pending out cs
         else if n = 1 then
           (if blank_byte c then sanitize_loop maxBytes (out \<noteq> []) out cs
            else if dropped_byte c then sanitize_loop maxBytes pending out cs
            else if length out + need > maxBytes then out
            else sanitize_loop maxBytes False (out @ sp @ [c]) cs)
         else if length out + need > maxBytes then out
         else sanitize_loop maxBytes False (out @ sp @ take n (c # cs)) (drop n (c # cs)))"
  by pat_completeness auto
termination
  by (relation "measure (\<lambda>(_, _, _, s). length s)") (auto simp: Let_def)

definition Sanitize :: "nat \<Rightarrow> string \<Rightarrow> string" where
  "Sanitize maxBytes s = sanitize_loop maxBytes False [] s"

section \<open>The check\<close>

definition Enabled :: "int \<Rightarrow> bool \<Rightarrow> bool \<Rightarrow> bool" where
  "Enabled matchRule serverSetting matchHasNames =
     (if \<not> matchHasNames then False else if matchRule \<ge> 0 then matchRule \<noteq> 0 else serverSetting)"

definition DesiredName :: "u64 \<Rightarrow> (u64 \<rightharpoonup> string) \<Rightarrow> string option" where
  "DesiredName steamid64 names =
     (if steamid64 = 0 then None
      else
        (case names steamid64 of
           None \<Rightarrow> None
         | Some n \<Rightarrow> (let s = Sanitize kMaxNameBytes n in if s = [] then None else Some s)))"

datatype Action = Act_None | Act_Write | Act_Restore

record PlayerState =
  ps_written :: string
  ps_original :: string

text \<open>The action, the name to write (where there is one) and the player's state after the check.\<close>

definition Decide :: "string \<Rightarrow> string option \<Rightarrow> PlayerState \<Rightarrow> Action \<times> string \<times> PlayerState" where
  "Decide current desired st =
     (case desired of
        Some d \<Rightarrow>
          if current = d then (Act_None, [], st\<lparr>ps_written := d\<rparr>)
          else
            (let st1 = (if current \<noteq> ps_written st \<and> current \<noteq> [] then st\<lparr>ps_original := current\<rparr> else st)
             in (Act_Write, d, st1\<lparr>ps_written := d\<rparr>))
      | None \<Rightarrow>
          if ps_written st = [] then (Act_None, [], st)
          else
            (let ours = (current = ps_written st); st1 = st\<lparr>ps_written := []\<rparr>
             in if \<not> ours \<or> ps_original st1 = [] \<or> ps_original st1 = current then (Act_None, [], st1)
                else (Act_Restore, ps_original st1, st1)))"

section \<open>Lemmas: the sanitizer\<close>

text \<open>
  Where a reader of a clean name stands: at its start, after a blank or after a character. A clean
  name is valid UTF-8 without forbidden bytes, with single blanks between characters only.
\<close>

datatype clean_state = At_Start | After_Blank | After_Char

function clean_from :: "clean_state \<Rightarrow> string \<Rightarrow> bool" where
  "clean_from st [] = (st \<noteq> After_Blank)"
| "clean_from st (c # cs) =
     (let n = Utf8Len (c # cs)
      in if n = 0 then False
         else if n = 1 then (if c = space_char then st = After_Char \<and> clean_from After_Blank cs
                             else \<not> blank_byte c \<and> \<not> dropped_byte c \<and> clean_from After_Char cs)
         else clean_from After_Char (drop n (c # cs)))"
  by pat_completeness auto
termination
  by (relation "measure (\<lambda>(_, s). length s)") (auto simp: Let_def)

definition clean_name :: "string \<Rightarrow> bool" where
  "clean_name s \<longleftrightarrow> clean_from At_Start s"

lemma Utf8Len_one: "Utf8Len (c # cs) = 1 \<longleftrightarrow> byte c < 0x80"
  by (auto simp: Utf8Len_def utf8_lead_def split: option.splits if_splits)

lemma Utf8Len_lead:
  assumes "s \<noteq> []" and "\<not> byte (hd s) < 0x80" and "utf8_lead (byte (hd s)) = Some (n, lo, hi)"
  shows "Utf8Len s =
     (if length s < n \<or> byte (s ! 1) < lo \<or> byte (s ! 1) > hi \<or>
         \<not> list_all (\<lambda>d. 0x80 \<le> byte d \<and> byte d \<le> 0xBF) (drop 2 (take n s)) then 0 else n)"
  using assms by (cases s) (simp_all add: Utf8Len_def)

lemma Utf8Len_prefix:
  assumes "Utf8Len s = n" and "0 < n"
  shows "Utf8Len (take n s @ rest) = n"
proof (cases s)
  case (Cons c cs)
  show ?thesis
  proof (cases "byte c < 0x80")
    case True
    then have "n = 1" using assms Cons by (simp add: Utf8Len_def)
    with True Cons show ?thesis by (simp add: Utf8Len_def)
  next
    case False
    with assms Cons obtain lo hi where lead: "utf8_lead (byte c) = Some (n, lo, hi)"
      and len: "n \<le> length s" and rng: "\<not> byte (s ! 1) < lo" "\<not> byte (s ! 1) > hi"
      and cont: "list_all (\<lambda>d. 0x80 \<le> byte d \<and> byte d \<le> 0xBF) (drop 2 (take n s))"
      by (auto simp: Utf8Len_def split: option.splits if_splits)
    from lead have n2: "2 \<le> n" by (auto simp: utf8_lead_def split: if_splits)
    let ?t = "take n s @ rest"
    have t: "?t \<noteq> []" "hd ?t = c" using Cons n2 by (cases n; simp)+
    have "?t ! 1 = s ! 1" using n2 len by (simp add: nth_append)
    moreover have "take n ?t = take n s" using len by simp
    moreover have "n \<le> length ?t" using len by simp
    ultimately show ?thesis
      using False lead rng cont t len by (subst Utf8Len_lead [of _ n lo hi]) simp_all
  qed
qed (use assms in \<open>simp add: Utf8Len_def\<close>)

lemma clean_nonzero: "clean_from st (c # cs) \<Longrightarrow> Utf8Len (c # cs) \<noteq> 0"
  by (rule notI) simp

lemma clean_token:
  assumes "Utf8Len s = n" and "1 < n"
  shows "clean_from st (take n s @ rest) \<longleftrightarrow> clean_from After_Char rest"
proof -
  from assms Utf8Len_le [of s] obtain c cs where t: "take n s = c # cs" by (cases s; cases n) auto
  have len: "length (take n s) = n" using assms Utf8Len_le [of s] by simp
  have "Utf8Len (take n s @ rest) = n" using assms by (intro Utf8Len_prefix) simp_all
  with t assms(2) have "clean_from st (take n s @ rest) \<longleftrightarrow> clean_from After_Char (drop n (take n s @ rest))"
    by (simp add: Let_def)
  with len show ?thesis by simp
qed

lemma clean_space: "clean_from After_Char (space_char # s) \<longleftrightarrow> clean_from After_Blank s"
  using Utf8Len_one [of space_char s] by simp

lemma clean_char:
  "byte c < 0x80 \<Longrightarrow> \<not> blank_byte c \<Longrightarrow> \<not> dropped_byte c \<Longrightarrow> clean_from st (c # s) \<longleftrightarrow> clean_from After_Char s"
  using Utf8Len_one [of c s] by (auto simp: blank_byte_def)

lemma sanitize_clean:
  "(pending \<longrightarrow> out \<noteq> []) \<Longrightarrow>
     \<exists>e. sanitize_loop m pending out s = out @ e \<and> clean_from (if out = [] then At_Start else After_Char) e"
proof (induction m pending out s rule: sanitize_loop.induct)
  case (2 m pending out c cs)
  let ?s = "c # cs" and ?n = "Utf8Len (c # cs)"
  let ?sp = "if pending then [space_char] else []"
  have stop: "\<exists>e. out = out @ e \<and> clean_from (if out = [] then At_Start else After_Char) e" by simp
  have more: "\<exists>e. R = out @ e \<and> clean_from (if out = [] then At_Start else After_Char) e"
    if tok: "\<And>st rest. clean_from st (t @ rest) \<longleftrightarrow> clean_from After_Char rest" and "t \<noteq> []"
      and R: "\<exists>e. R = (out @ ?sp @ t) @ e \<and> clean_from After_Char e" for R t
  proof -
    from R obtain e where "R = (out @ ?sp @ t) @ e" "clean_from After_Char e" by blast
    with tok 2(6) show ?thesis by (intro exI [of _ "?sp @ t @ e"]) (auto simp: clean_space simp del: clean_from.simps(2))
  qed
  consider "?n = 0" | "?n = 1" "blank_byte c" | "?n = 1" "\<not> blank_byte c" "dropped_byte c"
    | "?n \<noteq> 0" "\<not> (?n = 1 \<and> (blank_byte c \<or> dropped_byte c))" "length out + ((if pending then 1 else 0) + ?n) > m"
    | "?n = 1" "\<not> blank_byte c" "\<not> dropped_byte c" "\<not> length out + ((if pending then 1 else 0) + ?n) > m"
    | "1 < ?n" "\<not> length out + ((if pending then 1 else 0) + ?n) > m"
    by linarith
  then show ?case
  proof cases
    case 1
    with 2 show ?thesis by (simp add: Let_def)
  next
    case a: 2
    then show ?thesis using "2.IH"(2) by (simp add: Let_def)
  next
    case a: 3
    then show ?thesis using "2.IH"(3) "2.prems" by (simp add: Let_def)
  next
    case 4
    then show ?thesis using stop by (auto simp: Let_def)
  next
    case a: 5
    have b: "byte c < 0x80" using a(1) Utf8Len_one by blast
    have "\<exists>e. sanitize_loop m False (out @ ?sp @ [c]) cs = (out @ ?sp @ [c]) @ e \<and> clean_from After_Char e"
      using a "2.IH"(4) by (simp add: Let_def)
    from more [of "[c]", OF _ _ this] clean_char [OF b a(2,3)] a show ?thesis by (simp add: Let_def)
  next
    case a: 6
    have tk: "take ?n ?s \<noteq> []" using a(1) by (cases ?n) simp_all
    have "\<exists>e. sanitize_loop m False (out @ ?sp @ take ?n ?s) (drop ?n ?s) = (out @ ?sp @ take ?n ?s) @ e \<and> clean_from After_Char e"
      using a tk "2.IH"(5) by (simp add: Let_def)
    from more [OF _ tk this] clean_token [OF refl a(1)] a show ?thesis by (simp add: Let_def)
  qed
qed simp

lemma sanitize_length: "length out \<le> m \<Longrightarrow> length (sanitize_loop m pending out s) \<le> m"
proof (induction m pending out s rule: sanitize_loop.induct)
  case (2 m pending out c cs)
  have "length (take (Utf8Len (c # cs)) (c # cs)) = Utf8Len (c # cs)" using Utf8Len_le [of "c # cs"] by simp
  with 2 show ?case by (auto simp: Let_def)
qed simp

lemma sanitize_clean_id:
  "clean_from st s \<Longrightarrow> (out = [] \<longleftrightarrow> st = At_Start) \<Longrightarrow> pending = (st = After_Blank) \<Longrightarrow>
     length out + (if pending then 1 else 0) + length s \<le> m \<Longrightarrow>
     sanitize_loop m pending out s = out @ (if pending \<and> s \<noteq> [] then [space_char] else []) @ s"
proof (induction st s arbitrary: out pending rule: clean_from.induct)
  case (2 st c cs)
  let ?s = "c # cs" and ?n = "Utf8Len (c # cs)" and ?sp = "if pending then [space_char] else []"
  from "2.prems"(1) have n: "?n \<noteq> 0" by (rule clean_nonzero)
  show ?case
  proof (cases "?n = 1")
    case one: True
    show ?thesis
    proof (cases "c = space_char")
      case True
      with one "2.prems" have st: "st = After_Char" and cl: "clean_from After_Blank cs" by (auto simp: Let_def)
      with "2.prems" have "out \<noteq> []" "\<not> pending" by simp_all
      moreover have "cs \<noteq> []" using cl by auto
      ultimately show ?thesis
        using one True "2.IH"(1) [OF refl n one True cl, of out True] "2.prems"(4) by (simp add: Let_def blank_byte_def)
    next
      case False
      with one "2.prems" have nb: "\<not> blank_byte c" "\<not> dropped_byte c" and cl: "clean_from After_Char cs" by (auto simp: Let_def)
      have "sanitize_loop m False (out @ ?sp @ [c]) cs = (out @ ?sp @ [c]) @ cs"
        using "2.IH"(2) [OF refl n one False cl, of "out @ ?sp @ [c]" False] "2.prems"(4) by (simp split: if_splits)
      with one nb "2.prems"(4) show ?thesis by (simp add: Let_def)
    qed
  next
    case False
    with n "2.prems" have cl: "clean_from After_Char (drop ?n ?s)" by (auto simp: Let_def)
    have len: "?n \<le> length ?s" by (rule Utf8Len_le)
    have "sanitize_loop m False (out @ ?sp @ take ?n ?s) (drop ?n ?s) = (out @ ?sp @ take ?n ?s) @ drop ?n ?s"
      using "2.IH"(3) [OF refl n False cl, of "out @ ?sp @ take ?n ?s" False] "2.prems"(4) len n
      by (simp split: if_splits)
    with False n "2.prems"(4) len show ?thesis by (simp add: Let_def)
  qed
qed simp

text \<open>
  A name that goes to the engine and into log lines is clean. The sanitizer returns valid UTF-8
  without control bytes, quotes or angle brackets, with single blanks between characters only, of at
  most the given length; and it changes nothing in a name that is already clean, so sanitizing twice
  gives the same name.
\<close>

theorem Sanitize_clean:
  "clean_name (Sanitize m s) \<and> length (Sanitize m s) \<le> m \<and> Sanitize m (Sanitize m s) = Sanitize m s"
proof -
  have c: "clean_name (Sanitize m s)"
    using sanitize_clean [of False "[]" m s] by (auto simp: Sanitize_def clean_name_def)
  have l: "length (Sanitize m s) \<le> m" by (simp add: Sanitize_def sanitize_length)
  have "Sanitize m (Sanitize m s) = Sanitize m s"
    using sanitize_clean_id [of At_Start "Sanitize m s" "[]" False m] c l
    by (simp add: Sanitize_def clean_name_def)
  with c l show ?thesis by simp
qed

text \<open>What clean means for the bytes of a name.\<close>

lemma high_byte: "0x80 \<le> byte c \<Longrightarrow> \<not> dropped_byte c \<and> \<not> blank_byte c"
  by (auto simp: dropped_byte_def blank_byte_def)

lemma clean_bytes:
  "clean_from st s \<Longrightarrow> c \<in> set s \<Longrightarrow> \<not> dropped_byte c \<and> (blank_byte c \<longrightarrow> c = space_char)"
proof (induction st s rule: clean_from.induct)
  case (2 st d cs)
  let ?n = "Utf8Len (d # cs)"
  from "2.prems"(1) have n: "?n \<noteq> 0" by (rule clean_nonzero)
  show ?case
  proof (cases "?n = 1")
    case True
    have cs: "d = space_char \<and> clean_from After_Blank cs \<or>
        d \<noteq> space_char \<and> \<not> blank_byte d \<and> \<not> dropped_byte d \<and> clean_from After_Char cs"
      using "2.prems"(1) True by (simp split: if_splits)
    show ?thesis
    proof (cases "c = d")
      case False
      with "2.prems"(2) have "c \<in> set cs" by simp
      with cs "2.IH"(1) [OF refl n True] "2.IH"(2) [OF refl n True] show ?thesis by blast
    qed (use cs in \<open>auto simp: dropped_byte_def\<close>)
  next
    case False
    have big: "\<not> byte d < 0x80" using False Utf8Len_one [of d cs] by blast
    then obtain lo hi where lead: "utf8_lead (byte d) = Some (?n, lo, hi)"
      and rng: "lo \<le> byte ((d # cs) ! 1)" and len: "?n \<le> length (d # cs)"
      and cont: "list_all (\<lambda>d. 0x80 \<le> byte d \<and> byte d \<le> 0xBF) (drop 2 (take ?n (d # cs)))"
      using n by (auto simp: Utf8Len_def split: option.splits if_splits)
    from lead have "0x80 \<le> lo" and n2: "2 \<le> ?n" by (auto simp: utf8_lead_def split: if_splits)
    have "0x80 \<le> byte x" if "x \<in> set (take ?n (d # cs))" for x
    proof -
      from that obtain i where i: "i < ?n" "i < length (d # cs)" "x = (d # cs) ! i" by (auto simp: in_set_conv_nth)
      consider "i = 0" | "i = 1" | "2 \<le> i" by linarith
      then show ?thesis
      proof cases
        case 3
        then obtain j where j: "i = Suc (Suc j)" by (metis add_2_eq_Suc le_Suc_ex)
        then have x: "x = drop 2 (take ?n (d # cs)) ! j" using i by simp
        have "j < length (drop 2 (take ?n (d # cs)))" using i j len by simp
        then have "x \<in> set (drop 2 (take ?n (d # cs)))" unfolding x by (rule nth_mem)
        then show ?thesis using cont unfolding list_all_iff by blast
      qed (use i big rng \<open>0x80 \<le> lo\<close> in auto)
    qed
    moreover have "c \<in> set (take ?n (d # cs)) \<or> c \<in> set (drop ?n (d # cs))"
      using "2.prems"(2) by (metis Un_iff append_take_drop_id set_append)
    moreover have "clean_from After_Char (drop ?n (d # cs))" using False n "2.prems"(1) by (auto simp: Let_def)
    ultimately show ?thesis
      using "2.IH"(3) [OF refl n False] high_byte by blast
  qed
qed simp

section \<open>Lemmas: the player's own name\<close>

text \<open>
  The engine and the checks share the controller's name: a check that writes or restores sets it.
\<close>

definition check_step :: "string option \<Rightarrow> string \<times> PlayerState \<Rightarrow> string \<times> PlayerState" where
  "check_step desired = (\<lambda>(current, st).
     let (action, out, st1) = Decide current desired st
     in (if action = Act_None then current else out, st1))"

definition no_player :: PlayerState where
  "no_player = \<lparr>ps_written = [], ps_original = []\<rparr>"

lemma checks_while_on:
  assumes "own \<noteq> []" and "list_all (\<lambda>d. d \<noteq> [] \<and> d \<noteq> own) ds" and "ds \<noteq> []"
  shows "fold (\<lambda>d. check_step (Some d)) ds (own, no_player) =
           (last ds, \<lparr>ps_written = last ds, ps_original = own\<rparr>)"
  using assms(3,2)
proof (induction ds rule: rev_induct)
  case (snoc d ds)
  show ?case
  proof (cases "ds = []")
    case True
    then show ?thesis
      using snoc.prems assms(1) by (auto simp: check_step_def Decide_def no_player_def)
  next
    case False
    with snoc have "fold (\<lambda>d. check_step (Some d)) ds (own, no_player) = (last ds, \<lparr>ps_written = last ds, ps_original = own\<rparr>)"
      by simp
    then show ?thesis by (simp add: check_step_def Decide_def)
  qed
qed simp

text \<open>
  A player gets the own name back. While roster names are on, whatever the roster name changes
  to, each check leaves exactly the roster name on the controller; the first check after they are off
  restores the name the player had before the first write, and further checks leave it alone.
\<close>

theorem own_name_restored:
  assumes "own \<noteq> []" and "list_all (\<lambda>d. d \<noteq> [] \<and> d \<noteq> own) ds" and "ds \<noteq> []"
  shows "let s = fold (\<lambda>d. check_step (Some d)) ds (own, no_player)
         in fst s = last ds \<and> fst (check_step None s) = own \<and>
            fst (Decide (fst (check_step None s)) None (snd (check_step None s))) = Act_None"
proof -
  have "last ds \<noteq> []" "last ds \<noteq> own" using assms by (auto simp: list_all_iff)
  with assms show ?thesis
    unfolding checks_while_on [OF assms] by (simp add: check_step_def Decide_def Let_def)
qed

theorem own_name_restored_witness:
  "let s = fold (\<lambda>d. check_step (Some d)) [''Pro'', ''Pro'', ''Pro2''] (''steam'', no_player)
   in fst s = last [''Pro'', ''Pro'', ''Pro2''] \<and> fst (check_step None s) = ''steam''"
  using own_name_restored [of "''steam''" "[''Pro'', ''Pro'', ''Pro2'']"] by (simp add: Let_def)

text \<open>
  A player who took the roster name as own name in the meantime is given an older name back: the
  remembered name is not updated when the current name already is the roster name.
\<close>

lemma stale_name_restored:
  "let s1 = snd (check_step (Some ''Pro'') (''old'', no_player));
       s2 = snd (check_step (Some ''Pro'') (''Pro'', s1))
   in Decide ''Pro'' None s2 = (Act_Restore, ''old'', \<lparr>ps_written = [], ps_original = ''old''\<rparr>)"
  by (simp add: check_step_def Decide_def no_player_def)

end
