(* ===== verification/Admin_Call.thy ===== *)
theory Admin_Call
  imports Prelude "HOL-Library.AList"
begin

unbundle bit_operations_syntax

text \<open>
  The \<open>.admin\<close> call (plugins/match/readyup/admin_call_logic.h and admin_call_logic.cpp): the cooldown
  of each player, the cleanup of the message, the call id and the team label. The timestamp
  (\<open>gmtime_r\<close>) and the JSON payloads are not modelled.
\<close>

section \<open>The cooldown\<close>

text \<open>
  \<open>last_\<close> is a hash map; a list of pairs with distinct keys stands for it. The result is the seconds
  left of a refused call (\<open>None\<close>: the call is allowed).
\<close>

definition TryCall :: "u64 \<Rightarrow> seconds \<Rightarrow> int \<Rightarrow> (u64 \<times> seconds) list \<Rightarrow> int option \<times> (u64 \<times> seconds) list" where
  "TryCall steamid64 now cooldownSeconds last_calls =
     (if cooldownSeconds \<le> 0 then (None, AList.update steamid64 now last_calls)
      else
        (let left = (case map_of last_calls steamid64 of None \<Rightarrow> 0 | Some t \<Rightarrow> t + of_int cooldownSeconds - now)
         in if left > 0 then (Some (max 1 \<lceil>left\<rceil>), last_calls)
            else
              (let l = AList.update steamid64 now last_calls
               in (None, if length l > 256 then filter (\<lambda>(_, t). \<not> now - t > of_int cooldownSeconds) l else l))))"

section \<open>The message\<close>

definition call_blank :: "char \<Rightarrow> bool" where
  "call_blank c \<longleftrightarrow> byte c = 9 \<or> byte c = 10 \<or> byte c = 13 \<or> byte c = 32"

definition collapse_byte :: "char \<Rightarrow> string \<Rightarrow> string" where
  "collapse_byte c s =
     (if call_blank c then (if s \<noteq> [] \<and> last s \<noteq> space_char then s @ [space_char] else s)
      else if byte c \<ge> 0x20 \<and> byte c \<noteq> 0x7F then s @ [c]
      else s)"

definition drop_blanks_end :: "string \<Rightarrow> string" where
  "drop_blanks_end s = rev (dropWhile (\<lambda>c. c = space_char) (rev s))"

text \<open>The cut: the bytes before the code point number \<open>maxChars + 1\<close>; \<open>None\<close> when there is none.\<close>

fun cut_chars :: "nat \<Rightarrow> string \<Rightarrow> string option" where
  "cut_chars n [] = None"
| "cut_chars n (c # cs) =
     (if utf8_cont c then map_option ((#) c) (cut_chars n cs)
      else if n = 0 then Some []
      else map_option ((#) c) (cut_chars (n - 1) cs))"

definition CleanAdminCallMessage :: "nat \<Rightarrow> string \<Rightarrow> string" where
  "CleanAdminCallMessage maxChars raw =
     (let s = drop_blanks_end (fold collapse_byte raw [])
      in case cut_chars maxChars s of None \<Rightarrow> s | Some t \<Rightarrow> drop_blanks_end t)"

section \<open>The call id and the label\<close>

definition kHex :: "8 word \<Rightarrow> char" where
  "kHex w = ''0123456789abcdef'' ! unat w"

definition CallIdFromBytes :: "8 word list \<Rightarrow> string" where
  "CallIdFromBytes bytes =
     (let b = bytes[6 := (bytes ! 6 AND 0x0F) OR 0x40, 8 := (bytes ! 8 AND 0x3F) OR 0x80]
      in concat (map (\<lambda>i. (if i = 4 \<or> i = 6 \<or> i = 8 \<or> i = 10 then ''-'' else [])
                          @ [kHex (drop_bit 4 (b ! i)), kHex (b ! i AND 0x0F)]) [0..<16]))"

definition AdminCallTeamLabel :: "string \<Rightarrow> string \<Rightarrow> bool \<Rightarrow> string" where
  "AdminCallTeamLabel teamName side spectator =
     (if spectator then ''spectator''
      else
        (let s = (if side = ''ct'' then ''CT'' else if side = ''t'' then ''T'' else [])
         in if teamName = [] then s else if s = [] then teamName else teamName @ '', '' @ s))"

section \<open>Lemmas: the cooldown\<close>

text \<open>A sequence of calls under one cooldown: the calls that were allowed, in order, and the map.\<close>

definition call_step :: "int \<Rightarrow> u64 \<times> seconds \<Rightarrow> (u64 \<times> seconds) list \<times> (u64 \<times> seconds) list \<Rightarrow>
    (u64 \<times> seconds) list \<times> (u64 \<times> seconds) list" where
  "call_step cooldown = (\<lambda>(sid, now) (allowed, m).
     let (refused, m1) = TryCall sid now cooldown m
     in (if refused = None then allowed @ [(sid, now)] else allowed, m1))"

text \<open>
  Every recorded call was allowed, and an allowed call is recorded, by itself or by a later one of that
  player, unless its cooldown is over at \<open>now\<close>.
\<close>

definition calls_ok :: "int \<Rightarrow> seconds \<Rightarrow> (u64 \<times> seconds) list \<Rightarrow> (u64 \<times> seconds) list \<Rightarrow> bool" where
  "calls_ok cooldown now allowed m \<longleftrightarrow>
     distinct (map fst m) \<and> (\<forall>sid t. map_of m sid = Some t \<longrightarrow> (sid, t) \<in> set allowed) \<and>
     (\<forall>sid t. (sid, t) \<in> set allowed \<longrightarrow>
        t \<le> now \<and> (now - t > of_int cooldown \<or> (\<exists>t1 \<ge> t. map_of m sid = Some t1)))"

lemma calls_ok_mono: "calls_ok c now allowed m \<Longrightarrow> now \<le> now2 \<Longrightarrow> calls_ok c now2 allowed m"
  unfolding calls_ok_def by (smt (verit, best))

lemma calls_ok_update:
  assumes "calls_ok c now allowed m"
  shows "calls_ok c now (allowed @ [(sid, now)]) (AList.update sid now m)"
  using assms by (fastforce simp: calls_ok_def update_conv' distinct_update)

lemma calls_ok_forget:
  assumes "calls_ok c now allowed m"
  shows "calls_ok c now allowed (filter (\<lambda>(_, t). \<not> now - t > of_int c) m)"
proof -
  let ?m = "filter (\<lambda>(_, t). \<not> now - t > of_int c) m"
  have d: "distinct (map fst m)" using assms by (simp add: calls_ok_def)
  have recorded: "map_of ?m sid = Some t \<Longrightarrow> map_of m sid = Some t" for sid t
    using d by (auto dest!: map_of_SomeD)
  have keep: "map_of m sid = Some t \<Longrightarrow> \<not> now - t > of_int c \<Longrightarrow> map_of ?m sid = Some t" for sid t
    using map_of_filter_in [of m sid t "\<lambda>_ t. \<not> now - t > of_int c"] by simp
  have "distinct (map fst ?m)" using d by (rule distinct_map_filter)
  moreover have "t \<le> now \<and> (now - t > of_int c \<or> (\<exists>t1 \<ge> t. map_of ?m sid = Some t1))"
    if al: "(sid, t) \<in> set allowed" for sid t
  proof (cases "now - t > of_int c")
    case False
    then obtain t1 where "t \<le> t1" "map_of m sid = Some t1" "t \<le> now"
      using assms al unfolding calls_ok_def by blast
    with keep [of sid t1] False show ?thesis by force
  qed (use assms al in \<open>auto simp: calls_ok_def\<close>)
  ultimately show ?thesis using assms recorded unfolding calls_ok_def by blast
qed

lemma TryCall_allowed:
  assumes "0 < c"
  shows "fst (TryCall sid now c m) = None \<longleftrightarrow> (\<forall>t. map_of m sid = Some t \<longrightarrow> of_int c \<le> now - t)"
  using assms by (auto simp: TryCall_def Let_def split: option.splits)

lemma TryCall_map:
  assumes "0 < c"
  shows "snd (TryCall sid now c m) =
     (if fst (TryCall sid now c m) = None
      then (let l = AList.update sid now m in if length l > 256 then filter (\<lambda>(_, t). \<not> now - t > of_int c) l else l)
      else m)"
  using assms by (auto simp: TryCall_def Let_def)

lemma calls_ok_step:
  assumes "0 < c" and "calls_ok c now allowed m"
  shows "case call_step c (sid, now) (allowed, m) of (allowed2, m2) \<Rightarrow> calls_ok c now allowed2 m2"
  using assms calls_ok_update [OF assms(2), of sid] calls_ok_forget [OF calls_ok_update [OF assms(2), of sid]]
  by (simp add: call_step_def case_prod_beta TryCall_map Let_def)

text \<open>The calls of a run come in the order of their times.\<close>

lemma calls_ok_run:
  assumes "0 < c" and "sorted (map snd calls)" and "\<forall>(_, t) \<in> set calls. now0 \<le> t"
    and "calls_ok c now0 allowed m" and "\<forall>(_, t) \<in> set calls. t \<le> now" and "now0 \<le> now"
  shows "case fold (call_step c) calls (allowed, m) of (allowed2, m2) \<Rightarrow> calls_ok c now allowed2 m2"
  using assms(2-)
proof (induction calls arbitrary: now0 allowed m)
  case Nil
  then show ?case using calls_ok_mono by simp
next
  case (Cons call calls)
  obtain sid t where call: "call = (sid, t)" by (cases call)
  obtain allowed2 m2 where st: "call_step c call (allowed, m) = (allowed2, m2)" by (cases "call_step c call (allowed, m)")
  have "calls_ok c t allowed m" using Cons.prems(2,3) call calls_ok_mono by auto
  from calls_ok_step [OF assms(1) this, of sid] st call have "calls_ok c t allowed2 m2" by simp
  with Cons.prems call have "case fold (call_step c) calls (allowed2, m2) of (a, b) \<Rightarrow> calls_ok c now a b"
    by (intro Cons.IH [of t]) auto
  with st show ?case by simp
qed

text \<open>
  One call per player and cooldown, although old entries are forgotten. After any sequence of calls
  in the order of time, a player's call is allowed exactly when no allowed call of that player is less
  than the cooldown ago.
\<close>

theorem call_allowed_iff_cooldown_over:
  assumes "0 < c" and "sorted (map snd calls)" and "\<forall>(_, t) \<in> set calls. t \<le> now"
  shows "let (allowed, m) = fold (call_step c) calls ([], [])
         in fst (TryCall sid now c m) = None \<longleftrightarrow> (\<forall>t. (sid, t) \<in> set allowed \<longrightarrow> of_int c \<le> now - t)"
proof -
  obtain allowed m where run: "fold (call_step c) calls ([], []) = (allowed, m)"
    by (cases "fold (call_step c) calls ([], [])")
  have ok: "calls_ok c now allowed m"
  proof (cases calls)
    case Nil
    with run show ?thesis by (simp add: calls_ok_def)
  next
    case (Cons x xs)
    have "calls_ok c (snd x) [] []" by (simp add: calls_ok_def)
    then show ?thesis
      using calls_ok_run [OF assms(1,2), of "snd x" "[]" "[]" now] assms(2,3) run Cons by (auto simp: case_prod_beta)
  qed
  have "fst (TryCall sid now c m) = None \<longleftrightarrow> (\<forall>t. (sid, t) \<in> set allowed \<longrightarrow> of_int c \<le> now - t)"
    unfolding TryCall_allowed [OF assms(1)]
    using ok unfolding calls_ok_def by (smt (verit, ccfv_threshold) option.inject)
  with run show ?thesis by simp
qed

theorem call_allowed_iff_cooldown_over_witness:
  "let (allowed, m) = fold (call_step 60) [(7, 0), (7, 30)] ([], [])
   in fst (TryCall 7 61 60 m) = None \<longleftrightarrow> (\<forall>t. (7, t) \<in> set allowed \<longrightarrow> of_int 60 \<le> 61 - t)"
  by (rule call_allowed_iff_cooldown_over) simp_all

section \<open>Lemmas: the message and the id\<close>

lemma drop_blanks_end_prefix: "prefix (drop_blanks_end s) s"
  unfolding drop_blanks_end_def by (metis rev_rev_ident suffix_dropWhile suffix_to_prefix)

lemma drop_blanks_end_last: "drop_blanks_end s \<noteq> [] \<Longrightarrow> last (drop_blanks_end s) \<noteq> space_char"
  unfolding drop_blanks_end_def
  by (metis (mono_tags, lifting) hd_dropWhile last_rev rev_is_Nil_conv)

lemma cut_chars_prefix: "cut_chars n s = Some t \<Longrightarrow> prefix t s"
  by (induction n s arbitrary: t rule: cut_chars.induct) (auto split: if_splits)

definition code_points :: "string \<Rightarrow> nat" where
  "code_points s = length (filter (\<lambda>c. \<not> utf8_cont c) s)"

lemma cut_chars_points: "case cut_chars n s of None \<Rightarrow> code_points s \<le> n | Some t \<Rightarrow> code_points t = n"
proof (induction n s rule: cut_chars.induct)
  case (2 n c cs)
  then show ?case by (cases n) (auto simp: code_points_def split: option.splits)
qed (simp add: code_points_def)

lemma code_points_prefix: "prefix t s \<Longrightarrow> code_points t \<le> code_points s"
  by (auto simp: prefix_def code_points_def)

text \<open>A message byte: no control byte; blanks are single and never first.\<close>

definition tidy :: "string \<Rightarrow> bool" where
  "tidy s \<longleftrightarrow> list_all (\<lambda>c. byte c \<ge> 0x20 \<and> byte c \<noteq> 0x7F) s \<and> (s = [] \<or> hd s \<noteq> space_char) \<and>
     (\<forall>i. Suc i < length s \<longrightarrow> \<not> (s ! i = space_char \<and> s ! Suc i = space_char))"

lemma tidy_prefix: "prefix t s \<Longrightarrow> tidy s \<Longrightarrow> tidy t"
  by (auto simp: tidy_def prefix_def nth_append hd_append list_all_iff split: if_splits)

lemma tidy_snoc:
  assumes "tidy s" and "byte c \<ge> 0x20 \<and> byte c \<noteq> 0x7F" and "c = space_char \<Longrightarrow> s \<noteq> [] \<and> last s \<noteq> space_char"
  shows "tidy (s @ [c])"
proof -
  have "\<not> ((s @ [c]) ! i = space_char \<and> (s @ [c]) ! Suc i = space_char)" if i: "Suc i < length (s @ [c])" for i
  proof (cases "Suc i < length s")
    case True
    with assms(1) show ?thesis by (simp add: tidy_def nth_append)
  next
    case False
    with i have "i = length s - 1" "s \<noteq> []" by auto
    with assms(3) show ?thesis by (auto simp: nth_append last_conv_nth)
  qed
  with assms show ?thesis by (auto simp: tidy_def hd_append)
qed

lemma not_blank_not_space: "\<not> call_blank c \<Longrightarrow> c \<noteq> space_char"
  by (auto simp: call_blank_def)

lemma tidy_collapse:
  assumes "tidy s"
  shows "tidy (collapse_byte c s)"
proof (cases "call_blank c")
  case True
  then show ?thesis using assms tidy_snoc [OF assms, of space_char] by (simp add: collapse_byte_def)
next
  case False
  with not_blank_not_space tidy_snoc [OF assms, of c] assms show ?thesis by (simp add: collapse_byte_def)
qed

lemma tidy_fold: "tidy s \<Longrightarrow> tidy (fold collapse_byte raw s)"
  by (induction raw arbitrary: s) (simp_all add: tidy_collapse)

text \<open>
  The message of an admin call is tidy. Whatever the player typed, the message holds no control
  byte, no blank at either end and no two blanks in a row, and at most the given number of characters.
\<close>

theorem CleanAdminCallMessage_tidy:
  "tidy (CleanAdminCallMessage n raw) \<and> code_points (CleanAdminCallMessage n raw) \<le> n \<and>
   (CleanAdminCallMessage n raw = [] \<or> last (CleanAdminCallMessage n raw) \<noteq> space_char)"
proof -
  let ?s = "drop_blanks_end (fold collapse_byte raw [])"
  have s: "tidy ?s" using tidy_fold [of "[]" raw] drop_blanks_end_prefix tidy_prefix by (auto simp: tidy_def)
  show ?thesis
  proof (cases "cut_chars n ?s")
    case None
    then show ?thesis
      using s cut_chars_points [where n = n and s = ?s] drop_blanks_end_last [of "fold collapse_byte raw []"]
      by (auto simp: CleanAdminCallMessage_def Let_def)
  next
    case (Some t)
    have "tidy (drop_blanks_end t)"
      using s cut_chars_prefix [OF Some] drop_blanks_end_prefix tidy_prefix by blast
    moreover have "code_points (drop_blanks_end t) \<le> n"
      using cut_chars_points [where n = n and s = ?s] Some code_points_prefix [OF drop_blanks_end_prefix, of t] by simp
    ultimately show ?thesis
      using Some drop_blanks_end_last [of t] by (auto simp: CleanAdminCallMessage_def Let_def)
  qed
qed

theorem CleanAdminCallMessage_tidy_witness:
  "last (CleanAdminCallMessage 5 ''  hi  there'') \<noteq> space_char \<and> CleanAdminCallMessage 5 ''  hi  there'' = ''hi th''"
proof -
  have "CleanAdminCallMessage 5 ''  hi  there'' = ''hi th''" by code_simp
  with CleanAdminCallMessage_tidy [of 5 "''  hi  there''"] show ?thesis by simp
qed

end
