(* ===== verification/Damage_Ledger.thy ===== *)
theory Damage_Ledger
  imports Prelude "HOL-Library.AList"
begin

text \<open>
  The damage bookkeeping of a round (plugins/match/readyup/damage_ledger.h and damage_ledger.cpp):
  the health of each player and the damage each pair of players dealt. The maps are association lists
  with distinct keys.
\<close>

record DamagePair =
  dp_dmg :: int
  dp_hits :: int

record DamageLedger =
  dl_health :: "(int \<times> int) list"
  dl_dealt :: "((int \<times> int) \<times> DamagePair) list"

definition DamageLedger_Reset :: "DamageLedger \<Rightarrow> DamageLedger" where
  "DamageLedger_Reset l = l\<lparr>dl_health := [], dl_dealt := []\<rparr>"

definition Health :: "int \<Rightarrow> DamageLedger \<Rightarrow> int" where
  "Health key l = (case map_of (dl_health l) key of None \<Rightarrow> 100 | Some h \<Rightarrow> h)"

definition Dealt :: "int \<Rightarrow> int \<Rightarrow> DamageLedger \<Rightarrow> DamagePair" where
  "Dealt attacker victim l =
     (case map_of (dl_dealt l) (attacker, victim) of None \<Rightarrow> \<lparr>dp_dmg = 0, dp_hits = 0\<rparr> | Some p \<Rightarrow> p)"

definition OnHurt :: "int \<Rightarrow> int \<Rightarrow> int \<Rightarrow> int \<Rightarrow> DamageLedger \<Rightarrow> DamageLedger" where
  "OnHurt attacker victim dmgHealth healthAfter l =
     (if victim < 0 \<or> dmgHealth \<le> 0 then l
      else
        (let before = max 0 (Health victim l);
             after = clamp healthAfter 0 before;
             actual = before - after;
             l1 = l\<lparr>dl_health := AList.update victim after (dl_health l)\<rparr>
         in if attacker < 0 \<or> attacker = victim \<or> actual \<le> 0 then l1
            else
              (let p = Dealt attacker victim l1
               in l1\<lparr>dl_dealt := AList.update (attacker, victim)
                                   \<lparr>dp_dmg = dp_dmg p + actual, dp_hits = dp_hits p + 1\<rparr> (dl_dealt l1)\<rparr>)))"

definition OnDeath :: "int \<Rightarrow> DamageLedger \<Rightarrow> DamageLedger" where
  "OnDeath victim l = (if victim \<ge> 0 then l\<lparr>dl_health := AList.update victim 0 (dl_health l)\<rparr> else l)"

definition AnyPlayerDamage :: "DamageLedger \<Rightarrow> bool" where
  "AnyPlayerDamage l \<longleftrightarrow> dl_dealt l \<noteq> []"

record DamageParticipant =
  part_key :: int
  part_name :: string
  part_team :: int

text \<open>A line of the report: the arguments of the text \<open>dmg.line\<close>.\<close>

definition FormatDamageReport ::
  "DamageParticipant \<Rightarrow> DamageParticipant list \<Rightarrow> DamageLedger \<Rightarrow> (string \<times> string) list list" where
  "FormatDamageReport self players ledger =
     (if part_team self \<noteq> 2 \<and> part_team self \<noteq> 3 then []
      else
        map (\<lambda>p. let given = Dealt (part_key self) (part_key p) ledger; taken = Dealt (part_key p) (part_key self) ledger
                 in [(''given'', to_string (dp_dmg given)), (''given_hits'', to_string (dp_hits given)),
                     (''taken'', to_string (dp_dmg taken)), (''taken_hits'', to_string (dp_hits taken)),
                     (''name'', part_name p), (''hp'', to_string (Health (part_key p) ledger))])
          (filter (\<lambda>p. \<not> (part_key p = part_key self \<or> (part_team p \<noteq> 2 \<and> part_team p \<noteq> 3) \<or>
                          part_team p = part_team self)) players))"

section \<open>Lemmas: the damage adds up\<close>

datatype DamageEvent = Hurt int int int int | Death int

fun damage_apply :: "DamageEvent \<Rightarrow> DamageLedger \<Rightarrow> DamageLedger" where
  "damage_apply (Hurt attacker victim dmg after) l = OnHurt attacker victim dmg after l"
| "damage_apply (Death victim) l = OnDeath victim l"

definition fresh_round :: DamageLedger where
  "fresh_round = \<lparr>dl_health = [], dl_dealt = []\<rparr>"

text \<open>All the damage the ledger credits to anyone against a victim.\<close>

definition taken_total :: "int \<Rightarrow> DamageLedger \<Rightarrow> int" where
  "taken_total victim l = sum_list (map (\<lambda>((a, v), p). if v = victim then dp_dmg p else 0) (dl_dealt l))"

lemma taken_total_update:
  "sum_list (map (\<lambda>((a, v), p). if v = victim then dp_dmg p else 0) (AList.update k q ds)) =
     sum_list (map (\<lambda>((a, v), p). if v = victim then dp_dmg p else 0) ds) +
     (if snd k = victim then dp_dmg q - (case map_of ds k of None \<Rightarrow> 0 | Some p \<Rightarrow> dp_dmg p) else 0)"
proof (induction ds)
  case (Cons d ds)
  then show ?case by (cases k; cases d) (auto split: option.splits)
qed (cases k; simp)

lemma Health_update: "Health w (l\<lparr>dl_health := AList.update v h (dl_health l)\<rparr>) = (if w = v then h else Health w l)"
  by (simp add: Health_def update_conv')

lemma Health_dealt [simp]: "Health w (l\<lparr>dl_dealt := ds\<rparr>) = Health w l"
  by (simp add: Health_def)

lemma taken_total_health [simp]: "taken_total v (l\<lparr>dl_health := hs\<rparr>) = taken_total v l"
  by (simp add: taken_total_def)

text \<open>What a hit does to the health of its victim and to the totals.\<close>

lemma OnHurt_Health:
  "Health w (OnHurt a v d h l) =
     (if w = v \<and> 0 \<le> v \<and> 0 < d then clamp h 0 (max 0 (Health v l)) else Health w l)"
  by (auto simp: OnHurt_def Let_def Health_update)

definition credited :: "int \<Rightarrow> int \<Rightarrow> int \<Rightarrow> bool" where
  "credited a v d \<longleftrightarrow> 0 \<le> v \<and> 0 < d \<and> 0 \<le> a \<and> a \<noteq> v"

lemma OnHurt_taken:
  "taken_total w (OnHurt a v d h l) = taken_total w l +
     (if w = v \<and> credited a v d then max 0 (max 0 (Health v l) - clamp h 0 (max 0 (Health v l))) else 0)"
  by (auto simp: OnHurt_def Let_def taken_total_def taken_total_update Dealt_def credited_def split: option.splits)

lemma clamp_health: "0 \<le> clamp h 0 (max 0 x)" "clamp h 0 (max 0 x) \<le> max 0 x"
  by (auto simp: clamp_def)

text \<open>The books of a round: health never negative, nobody credited with more health than was lost.\<close>

definition books_ok :: "DamageLedger \<Rightarrow> bool" where
  "books_ok l \<longleftrightarrow> (\<forall>v. 0 \<le> Health v l \<and> taken_total v l \<le> 100 - Health v l)"

lemma books_ok_step: "books_ok l \<Longrightarrow> books_ok (damage_apply e l)"
proof (cases e)
  case (Hurt a v d h)
  assume ok: "books_ok l"
  have "0 \<le> Health w (OnHurt a v d h l) \<and> taken_total w (OnHurt a v d h l) \<le> 100 - Health w (OnHurt a v d h l)" for w
  proof -
    have "0 \<le> Health w l" "taken_total w l \<le> 100 - Health w l" using ok by (auto simp: books_ok_def)
    with clamp_health [of h "Health v l"] show ?thesis
      by (cases "w = v"; cases "credited a v d") (auto simp: OnHurt_Health OnHurt_taken credited_def)
  qed
  with Hurt show ?thesis by (simp add: books_ok_def)
next
  case (Death v)
  assume ok: "books_ok l"
  then have "0 \<le> Health v l" "taken_total v l \<le> 100 - Health v l" by (auto simp: books_ok_def)
  then have "taken_total v l \<le> 100" by linarith
  with ok Death show ?thesis by (auto simp: books_ok_def OnDeath_def Health_update)
qed

interpretation ledger: machine damage_apply "\<lambda>_. True" books_ok
  by unfold_locales (rule books_ok_step)

text \<open>A hit by another player.\<close>

fun player_hit :: "DamageEvent \<Rightarrow> bool" where
  "player_hit (Hurt a v d h) = credited a v d"
| "player_hit (Death v) = False"

definition books_exact :: "DamageLedger \<Rightarrow> bool" where
  "books_exact l \<longleftrightarrow> (\<forall>v. 0 \<le> Health v l \<and> taken_total v l = 100 - Health v l)"

lemma books_exact_step:
  assumes "books_exact l" and "player_hit e"
  shows "books_exact (damage_apply e l)"
proof (cases e)
  case (Hurt a v d h)
  with assms clamp_health [of h "Health v l"] show ?thesis
    by (auto simp: books_exact_def OnHurt_Health OnHurt_taken credited_def)
qed (use assms in simp)

interpretation hits: machine damage_apply player_hit books_exact
  by unfold_locales (rule books_exact_step)

lemma fresh_round_exact: "books_exact fresh_round"
  by (simp add: books_exact_def fresh_round_def Health_def taken_total_def)

text \<open>
  The damage report adds up. However the engine reports hits, overkills and deaths, nobody's health
  is negative and the damage credited against a player is at most the health lost; when every hit came
  from another player it is exactly the health lost, so a kill by players adds up to 100.
\<close>

theorem damage_adds_up:
  "let l = fold damage_apply es fresh_round
   in 0 \<le> Health v l \<and> taken_total v l \<le> 100 - Health v l \<and>
      (list_all player_hit es \<longrightarrow> taken_total v l = 100 - Health v l)"
proof -
  have "books_ok fresh_round" using fresh_round_exact by (simp add: books_ok_def books_exact_def)
  from ledger.inv_run [OF this, of es] have "books_ok (fold damage_apply es fresh_round)" by (simp add: list_all_iff)
  moreover have "list_all player_hit es \<Longrightarrow> books_exact (fold damage_apply es fresh_round)"
    by (rule hits.inv_run [OF fresh_round_exact])
  ultimately show ?thesis by (simp add: Let_def books_ok_def books_exact_def)
qed

theorem damage_adds_up_witness:
  "let l = fold damage_apply [Hurt 1 2 27 73, Hurt 3 2 120 0] fresh_round
   in taken_total 2 l = 100 - Health 2 l \<and> Health 2 l = 0"
proof -
  let ?l = "fold damage_apply [Hurt 1 2 27 73, Hurt 3 2 120 0] fresh_round"
  have "Health 2 ?l = 0" by (simp add: OnHurt_Health fresh_round_def clamp_def)
  then show ?thesis
    using damage_adds_up [of "[Hurt 1 2 27 73, Hurt 3 2 120 0]" 2] by (simp add: Let_def credited_def)
qed

end
