(* ===== verification/Cvar_Snapshot.thy ===== *)
theory Cvar_Snapshot
  imports Prelude "HOL-Library.AList"
begin

text \<open>
  The snapshot of server cvars a match changes (plugins/match/readyup/cvar_snapshot.h and the
  engine-free half in cvar_snapshot.cpp): which cvars are still to be asked for, the first value of
  each, and the commands that put the values back. The JSON form is not modelled. \<open>values_\<close> is an
  association list (the order of the restore commands is the map's, sorted by name).
\<close>

definition QuotableValue :: "string \<Rightarrow> bool" where
  "QuotableValue val =
     list_all (\<lambda>c. \<not> (c = quote_char \<or> c = CHR '';'' \<or> byte c < 0x20 \<or> byte c = 0x7f)) val"

record Snapshot =
  sn_values :: "(string \<times> string) list"
  sn_asked :: "string set"

definition Snapshot_init :: Snapshot where
  "Snapshot_init = \<lparr>sn_values = [], sn_asked = {}\<rparr>"

text \<open>One key of \<open>TakeKeysToQuery\<close>: the keys taken so far and the snapshot.\<close>

definition take_key :: "string \<Rightarrow> string list \<times> Snapshot \<Rightarrow> string list \<times> Snapshot" where
  "take_key k = (\<lambda>(out, s).
     let n = Lower k
     in if n = [] \<or> map_of (sn_values s) n \<noteq> None \<or> n \<in> sn_asked s then (out, s)
        else (out @ [n], s\<lparr>sn_asked := insert n (sn_asked s)\<rparr>))"

definition TakeKeysToQuery :: "string list \<Rightarrow> Snapshot \<Rightarrow> string list \<times> Snapshot" where
  "TakeKeysToQuery keys s = fold take_key keys ([], s)"

text \<open>A null value is \<open>None\<close>; \<open>emplace\<close> keeps the value that is there.\<close>

definition Record :: "string \<Rightarrow> string option \<Rightarrow> Snapshot \<Rightarrow> Snapshot" where
  "Record name val s =
     (case val of
        None \<Rightarrow> s
      | Some v \<Rightarrow>
          (let n = Lower name
           in if n = [] then s
              else s\<lparr>sn_asked := insert n (sn_asked s),
                     sn_values := (if map_of (sn_values s) n = None then sn_values s @ [(n, v)] else sn_values s)\<rparr>))"

definition Unask :: "string \<Rightarrow> Snapshot \<Rightarrow> Snapshot" where
  "Unask name s =
     (let n = Lower name in if map_of (sn_values s) n = None then s\<lparr>sn_asked := sn_asked s - {n}\<rparr> else s)"

definition restore_command :: "string \<times> string \<Rightarrow> string" where
  "restore_command kv = fst kv @ '' '' @ [quote_char] @ snd kv @ [quote_char]"

text \<open>The commands and the names that were skipped.\<close>

definition RestoreCommands :: "Snapshot \<Rightarrow> string list \<times> string list" where
  "RestoreCommands s =
     (let vs = sort_key fst (sn_values s)
      in (map restore_command (filter (\<lambda>kv. QuotableValue (snd kv)) vs),
          map fst (filter (\<lambda>kv. \<not> QuotableValue (snd kv)) vs)))"

section \<open>Lemmas\<close>

lemma Nil_eq_Lower [simp]: "[] = Lower s \<longleftrightarrow> s = []"
  by (metis Lower_eq_Nil)

datatype SnapEvent = Se_Take "string list" | Se_Record string "string option" | Se_Unask string

fun snap_apply :: "SnapEvent \<Rightarrow> Snapshot \<Rightarrow> Snapshot" where
  "snap_apply (Se_Take keys) s = snd (TakeKeysToQuery keys s)"
| "snap_apply (Se_Record name val) s = Record name val s"
| "snap_apply (Se_Unask name) s = Unask name s"

text \<open>The first value the engine reported for a cvar, ignoring case.\<close>

fun first_report :: "string \<Rightarrow> SnapEvent list \<Rightarrow> string option" where
  "first_report n [] = None"
| "first_report n (Se_Record name (Some v) # es) = (if Lower name = n then Some v else first_report n es)"
| "first_report n (e # es) = first_report n es"

definition snap_ok :: "Snapshot \<Rightarrow> bool" where
  "snap_ok s \<longleftrightarrow> distinct (map fst (sn_values s)) \<and> fst ` set (sn_values s) \<subseteq> sn_asked s \<and> [] \<notin> fst ` set (sn_values s)"

lemma take_key_values: "sn_values (snd (take_key k p)) = sn_values (snd p)"
  by (cases p) (simp add: take_key_def Let_def)

lemma take_keys_values: "sn_values (snd (fold take_key ks p)) = sn_values (snd p)"
  by (induction ks arbitrary: p) (simp_all add: take_key_values)

lemma take_key_asked: "sn_asked (snd p) \<subseteq> sn_asked (snd (take_key k p))"
  by (cases p) (auto simp: take_key_def Let_def)

lemma take_keys_asked: "sn_asked (snd p) \<subseteq> sn_asked (snd (fold take_key ks p))"
proof (induction ks arbitrary: p)
  case (Cons k ks)
  from Cons [of "take_key k p"] take_key_asked [of p k] show ?case by auto
qed simp

lemma snap_ok_step: "snap_ok s \<Longrightarrow> snap_ok (snap_apply e s)"
proof (cases e)
  case (Se_Take keys)
  moreover assume "snap_ok s"
  ultimately show ?thesis
    using take_keys_values [of keys "([], s)"] take_keys_asked [of "([], s)" keys]
    by (auto simp: snap_ok_def TakeKeysToQuery_def)
next
  case (Se_Record name val)
  moreover assume "snap_ok s"
  ultimately show ?thesis
    by (auto simp: snap_ok_def Record_def Let_def map_of_eq_None_iff split: option.splits)
next
  case (Se_Unask name)
  moreover assume "snap_ok s"
  ultimately show ?thesis by (force simp: snap_ok_def Unask_def Let_def map_of_eq_None_iff)
qed

interpretation snap: machine snap_apply "\<lambda>_. True" snap_ok
  by unfold_locales (rule snap_ok_step)

lemma map_of_snoc: "map_of (xs @ [(k, v)]) n = (case map_of xs n of None \<Rightarrow> if n = k then Some v else None | Some w \<Rightarrow> Some w)"
  by (auto simp: map_add_def split: option.splits)

lemma Record_value:
  assumes "n \<noteq> []"
  shows "map_of (sn_values (Record name (Some v) s)) n =
     (case map_of (sn_values s) n of Some w \<Rightarrow> Some w | None \<Rightarrow> if Lower name = n then Some v else None)"
proof (cases "name = [] \<or> map_of (sn_values s) (Lower name) \<noteq> None")
  case True
  with assms show ?thesis by (auto simp: Record_def Let_def split: option.split)
next
  case False
  then have "sn_values (Record name (Some v) s) = sn_values s @ [(Lower name, v)]" by (simp add: Record_def Let_def)
  then show ?thesis by (simp only: map_of_snoc) (auto split: option.split)
qed

lemma snap_apply_value:
  "n \<noteq> [] \<Longrightarrow> map_of (sn_values (snap_apply e s)) n =
     (case map_of (sn_values s) n of Some v \<Rightarrow> Some v | None \<Rightarrow> first_report n [e])"
proof (cases e)
  case (Se_Take keys)
  then show ?thesis using take_keys_values [of keys "([], s)"] by (simp add: TakeKeysToQuery_def split: option.split)
next
  case (Se_Record name val)
  assume "n \<noteq> []"
  with Se_Record Record_value [of n name _ s] show ?thesis
    by (cases val) (simp_all add: Record_def split: option.split)
qed (simp add: Unask_def Let_def split: option.split)

lemma first_report_Cons: "first_report n (e # es) = (case first_report n [e] of Some v \<Rightarrow> Some v | None \<Rightarrow> first_report n es)"
  by (cases "(n, e # es)" rule: first_report.cases) auto

lemma snap_run_value:
  "n \<noteq> [] \<Longrightarrow> map_of (sn_values (fold snap_apply es s)) n =
     (case map_of (sn_values s) n of Some v \<Rightarrow> Some v | None \<Rightarrow> first_report n es)"
proof (induction es arbitrary: s)
  case (Cons e es)
  then show ?case
    using first_report_Cons [of n e es] by (simp add: snap_apply_value split: option.splits)
qed (simp split: option.split)

text \<open>
  A match leaves the server's cvars as it found them. After any sequence of queries and reports, the
  snapshot's value of a cvar is the first one the engine reported for it, later reports (of the match's
  own values) never replace it; and the restore commands set each such cvar, exactly once, to that
  value, unless the value could not be quoted, in which case its name is reported as skipped.
\<close>

theorem restores_first_values:
  assumes "n \<noteq> []"
  shows "let s = fold snap_apply es Snapshot_init
         in (case first_report n es of
               None \<Rightarrow> n \<notin> fst ` set (sn_values s)
             | Some v \<Rightarrow>
                 (if QuotableValue v then restore_command (n, v) \<in> set (fst (RestoreCommands s))
                  else n \<in> set (snd (RestoreCommands s)))) \<and>
            map_of (sn_values s) n = first_report n es \<and>
            length (fst (RestoreCommands s)) + length (snd (RestoreCommands s)) = card (fst ` set (sn_values s))"
proof -
  let ?s = "fold snap_apply es Snapshot_init"
  have ok: "snap_ok ?s"
    using snap.inv_run [of Snapshot_init es] by (simp add: list_all_iff snap_ok_def Snapshot_init_def)
  have val: "map_of (sn_values ?s) n = first_report n es"
    using snap_run_value [OF assms, of es Snapshot_init] by (simp add: Snapshot_init_def)
  have d: "distinct (map fst (sn_values ?s))" using ok by (simp add: snap_ok_def)
  have "length (fst (RestoreCommands ?s)) + length (snd (RestoreCommands ?s)) = length (sn_values ?s)"
    using sum_length_filter_compl [of "\<lambda>kv. QuotableValue (snd kv)" "sort_key fst (sn_values ?s)"]
    by (simp add: RestoreCommands_def Let_def)
  also have "\<dots> = card (fst ` set (sn_values ?s))" using d distinct_card [OF d] by simp
  finally have len: "length (fst (RestoreCommands ?s)) + length (snd (RestoreCommands ?s)) = card (fst ` set (sn_values ?s))" .
  have "case first_report n es of
               None \<Rightarrow> n \<notin> fst ` set (sn_values ?s)
             | Some v \<Rightarrow>
                 (if QuotableValue v then restore_command (n, v) \<in> set (fst (RestoreCommands ?s))
                  else n \<in> set (snd (RestoreCommands ?s)))"
  proof (cases "first_report n es")
    case None
    then show ?thesis using val by (simp add: map_of_eq_None_iff)
  next
    case (Some v)
    then have "(n, v) \<in> set (sn_values ?s)" using val by (intro map_of_SomeD) simp
    then have "(n, v) \<in> set (sort_key fst (sn_values ?s))" by simp
    then show ?thesis
      unfolding RestoreCommands_def Let_def Some option.case fst_conv snd_conv set_map set_filter
      by (cases "QuotableValue v") (auto simp: image_iff intro: bexI [of _ "(n, v)"])
  qed
  with val len show ?thesis by (simp add: Let_def)
qed

theorem restores_first_values_witness:
  "let s = fold snap_apply [Se_Take [''MP_maxrounds''], Se_Record ''mp_maxrounds'' (Some ''24''),
                            Se_Record ''mp_maxrounds'' (Some ''30'')] Snapshot_init
   in restore_command (''mp_maxrounds'', ''24'') \<in> set (fst (RestoreCommands s))"
proof -
  have "Lower ''mp_maxrounds'' = ''mp_maxrounds''" "QuotableValue ''24''"
    by (simp_all add: Lower_def tolower_def isupper_def QuotableValue_def)
  then show ?thesis
    using restores_first_values [of "''mp_maxrounds''" "[Se_Take [''MP_maxrounds''],
        Se_Record ''mp_maxrounds'' (Some ''24''), Se_Record ''mp_maxrounds'' (Some ''30'')]"]
    by (simp add: Let_def)
qed

text \<open>A query returns each name once, and none that was asked before.\<close>

lemma take_keys_fresh:
  "distinct (fst p) \<Longrightarrow> set (fst p) \<subseteq> sn_asked (snd p) \<Longrightarrow>
     (let q = fold take_key ks p
      in distinct (fst q) \<and> set (fst q) \<subseteq> sn_asked (snd q) \<and> (set (fst q) - set (fst p)) \<inter> sn_asked (snd p) = {})"
proof (induction ks arbitrary: p)
  case (Cons k ks)
  obtain out s where p: "p = (out, s)" by (cases p)
  have "distinct (fst (take_key k p))" "set (fst (take_key k p)) \<subseteq> sn_asked (snd (take_key k p))"
    "(set (fst (take_key k p)) - set (fst p)) \<inter> sn_asked (snd p) = {}"
    using Cons.prems by (auto simp: p take_key_def Let_def)
  with Cons.IH [of "take_key k p"] take_key_asked [of p k] show ?case by (auto simp: Let_def)
qed simp

end
