(* ===== verification/Text_Input.thy ===== *)
theory Text_Input
  imports Prelude
begin

text \<open>
  The C and C++ library calls that read settings, arguments and saved state from text, and the ones
  that print what is read back: \<open>strtol\<close>, \<open>strtod\<close>, \<open>std::getline\<close> with a delimiter, the field
  loop of the plugins, \<open>%.3f\<close> and \<open>%d:%02d\<close>. The lemmas say what each reads from text of the
  form the plugins write. \<open>strtol\<close> and \<open>strtod\<close> return the value and the unread rest (the \<open>end\<close>
  pointer), and saturation is at the range of a 64-bit \<open>long\<close>. The words \<open>inf\<close> and \<open>nan\<close>, which
  \<open>strtod\<close> reads as values that are not real numbers, are read as no number.
\<close>

section \<open>Integers\<close>

text \<open>\<open>s.c_str()\<close> ends at the first NUL byte.\<close>

definition c_str :: "string \<Rightarrow> string" where
  "c_str s = takeWhile (\<lambda>c. c \<noteq> CHR 0x00) s"

definition take_sign :: "string \<Rightarrow> bool \<times> string" where
  "take_sign s =
     (case s of
        [] \<Rightarrow> (False, [])
      | c # cs \<Rightarrow> if c = CHR ''-'' then (True, cs) else if c = CHR ''+'' then (False, cs) else (False, s))"

definition strtol :: "string \<Rightarrow> int \<times> string" where
  "strtol v =
     (let s = c_str v;
          (neg, t) = take_sign (dropWhile isspace s);
          ds = takeWhile isdigit t;
          n = int (dec_value ds)
      in if ds = [] then (0, s)
         else (clamp (if neg then - n else n) (- (2 ^ 63)) (2 ^ 63 - 1), dropWhile isdigit t))"

text \<open>\<open>strtoull(s, nullptr, 10)\<close>: saturates at the largest value, a minus sign negates modulo \<open>2^64\<close>.\<close>

definition strtoull :: "string \<Rightarrow> u64" where
  "strtoull v =
     (let (neg, t) = take_sign (dropWhile isspace (c_str v));
          n = dec_value (takeWhile isdigit t)
      in if 2 ^ 64 \<le> n then - 1 else if neg then - of_nat n else of_nat n)"

text \<open>The guard around \<open>strtol\<close> that the plugins use: all of the text is a number in \<open>lo .. hi\<close>.\<close>

definition int_in :: "int \<Rightarrow> int \<Rightarrow> string \<Rightarrow> int option" where
  "int_in lo hi v =
     (let (n, rest) = strtol v
      in if v = [] \<or> rest \<noteq> [] \<or> n < lo \<or> n > hi then None else Some n)"

lemma int_in_bounds [bounds_intro]: "int_in lo hi v = Some n \<Longrightarrow> lo \<le> n \<and> n \<le> hi"
  by (auto simp: int_in_def Let_def split: prod.splits if_splits)

lemma digit_not_nul: "isdigit c \<Longrightarrow> c \<noteq> CHR 0x00"
  by (auto simp: isdigit_def)

lemma c_str_no_nul: "CHR 0x00 \<notin> set s \<Longrightarrow> c_str s = s"
  by (auto simp: c_str_def takeWhile_eq_all_conv)

lemma c_str_digits: "list_all isdigit s \<Longrightarrow> c_str s = s"
  by (rule c_str_no_nul) (auto simp: list_all_iff dest: digit_not_nul)

lemma dropWhile_isdigit_all: "list_all isdigit s \<Longrightarrow> dropWhile isdigit s = []"
  by (simp add: list_all_iff)

lemma take_sign_digits: "IsDigits s \<Longrightarrow> take_sign (dropWhile isspace s) = (False, s)"
  by (cases s) (auto simp: IsDigits_def take_sign_def dest: digit_not_sign)

lemma strtol_digits:
  assumes s: "IsDigits s" and small: "dec_value s < 2 ^ 63"
  shows "strtol s = (int (dec_value s), [])"
proof -
  have all: "list_all isdigit s" and ne: "s \<noteq> []" using s by (simp_all add: IsDigits_def)
  have "clamp (int (dec_value s)) (- (2 ^ 63)) (2 ^ 63 - 1) = int (dec_value s)"
    using small by (intro clamp_id) simp_all
  then show ?thesis
    using ne all by (simp add: strtol_def c_str_digits take_sign_digits s takeWhile_isdigit_all dropWhile_isdigit_all Let_def)
qed

lemma strtoull_u64_string [simp]: "strtoull (u64_string w) = w"
  using unsigned_less [of w, where 'a = nat]
  by (simp add: strtoull_def u64_string_def c_str_digits take_sign_digits takeWhile_isdigit_all)

lemma int_in_dec_nat:
  assumes "lo \<le> int n" and "int n \<le> hi" and "hi < 2 ^ 63"
  shows "int_in lo hi (dec_nat n) = Some (int n)"
proof -
  have "int n < 2 ^ 63" using assms by linarith
  then have "n < 2 ^ 63" by simp
  then have "strtol (dec_nat n) = (int n, [])" using strtol_digits [of "dec_nat n"] by simp
  with assms show ?thesis by (simp add: int_in_def)
qed

section \<open>Floating point numbers\<close>

definition isxdigit :: "char \<Rightarrow> bool" where
  "isxdigit c \<longleftrightarrow> isdigit c \<or> (65 \<le> byte c \<and> byte c \<le> 70) \<or> (97 \<le> byte c \<and> byte c \<le> 102)"

definition digit_value :: "char \<Rightarrow> nat" where
  "digit_value c = (if isdigit c then byte c - 48 else byte (tolower c) - 87)"

definition base_value :: "nat \<Rightarrow> string \<Rightarrow> nat" where
  "base_value b s = foldl (\<lambda>v c. v * b + digit_value c) 0 s"

definition take_exponent :: "char \<Rightarrow> string \<Rightarrow> int \<times> string" where
  "take_exponent el s =
     (case s of
        [] \<Rightarrow> (0, [])
      | c # cs \<Rightarrow>
          let (neg, t) = take_sign cs; ds = takeWhile isdigit t
          in if tolower c = el \<and> ds \<noteq> []
             then ((if neg then - int (dec_value ds) else int (dec_value ds)), dropWhile isdigit t)
             else (0, s))"

text \<open>Digits, a fraction and an exponent, in one number base; None when there is no digit.\<close>

definition float_body ::
  "nat \<Rightarrow> (char \<Rightarrow> bool) \<Rightarrow> char \<Rightarrow> nat \<Rightarrow> string \<Rightarrow> (real \<times> string) option" where
  "float_body b isd el eb s =
     (let ip = takeWhile isd s; r = dropWhile isd s;
          fp = (case r of [] \<Rightarrow> [] | c # cs \<Rightarrow> if c = CHR ''.'' then takeWhile isd cs else []);
          r2 = (case r of [] \<Rightarrow> [] | c # cs \<Rightarrow> if c = CHR ''.'' then dropWhile isd cs else r);
          (ex, r3) = take_exponent el r2
      in if ip @ fp = [] then None
         else Some (real (base_value b (ip @ fp)) / real b ^ length fp * real eb powi ex, r3))"

definition strtod :: "string \<Rightarrow> real \<times> string" where
  "strtod v =
     (let s = c_str v;
          (neg, t) = take_sign (dropWhile isspace s);
          hex = (if Lower (take 2 t) = ''0x'' then float_body 16 isxdigit (CHR ''p'') 2 (drop 2 t) else None);
          body = (case hex of Some r \<Rightarrow> Some r | None \<Rightarrow> float_body 10 isdigit (CHR ''e'') 10 t)
      in case body of None \<Rightarrow> (0, s) | Some (x, rest) \<Rightarrow> (if neg then - x else x, rest))"

definition atof :: "string \<Rightarrow> real" where
  "atof s = fst (strtod s)"

text \<open>
  \<open>%.3f\<close>: the value in thousandths, rounded to nearest with ties to even, as a number with three
  decimals.
\<close>

definition round_even :: "real \<Rightarrow> int" where
  "round_even x =
     (let f = \<lfloor>x\<rfloor>; r = x - of_int f
      in if r < 1 / 2 then f else if r > 1 / 2 then f + 1 else if even f then f else f + 1)"

definition pad0 :: "nat \<Rightarrow> string \<Rightarrow> string" where
  "pad0 w s = replicate (w - length s) (CHR ''0'') @ s"

definition fixed3 :: "real \<Rightarrow> string" where
  "fixed3 x =
     (let n = nat (round_even (\<bar>x\<bar> * 1000))
      in (if x < 0 then ''-'' else []) @ dec_nat (n div 1000) @ ''.'' @ pad0 3 (dec_nat (n mod 1000)))"

text \<open>The value that printing and reading keeps.\<close>

definition milli :: "real \<Rightarrow> real" where
  "milli x = of_int (round_even (x * 1000)) / 1000"

lemma round_even_of_int [simp]: "round_even (of_int n) = n"
  by (simp add: round_even_def)

lemma round_even_nonneg: "0 \<le> x \<Longrightarrow> 0 \<le> round_even x"
  by (auto simp: round_even_def Let_def)

lemma round_even_near: "\<bar>of_int (round_even x) - x\<bar> \<le> 1 / 2"
  using floor_correct [of x] by (auto simp: round_even_def Let_def)

lemma milli_near: "\<bar>milli x - x\<bar> \<le> 1 / 2000"
  using round_even_near [of "x * 1000"] unfolding milli_def by (simp add: abs_le_iff field_simps)

lemma milli_idem [simp]: "milli (milli x) = milli x"
  by (simp add: milli_def)

lemma digit_value_isdigit: "isdigit c \<Longrightarrow> digit_value c = byte c - 48"
  by (simp add: digit_value_def)

lemma base_value_digits: "list_all isdigit s \<Longrightarrow> base_value 10 s = dec_value s"
proof (induction s rule: rev_induct)
  case (snoc c s)
  then show ?case by (simp add: base_value_def digit_value_isdigit)
qed (simp add: base_value_def)

lemma dec_value_append: "dec_value (s @ t) = dec_value s * 10 ^ length t + dec_value t"
proof (induction t rule: rev_induct)
  case (snoc c t)
  then show ?case by (simp flip: append_assoc add: algebra_simps)
qed simp

lemma dec_value_zeros [simp]: "dec_value (replicate k (CHR ''0'')) = 0"
proof (induction k)
  case (Suc k)
  have "dec_value (replicate (Suc k) (CHR ''0'')) = dec_value (replicate k (CHR ''0'') @ [CHR ''0''])"
    by (simp add: replicate_append_same)
  with Suc show ?case by simp
qed simp

lemma dec_value_pad0 [simp]: "dec_value (pad0 w s) = dec_value s"
  by (simp add: pad0_def dec_value_append)

lemma list_all_pad0 [simp]: "list_all isdigit s \<Longrightarrow> list_all isdigit (pad0 w s)"
  by (auto simp: pad0_def list_all_iff isdigit_def)

lemma length_pad0 [simp]: "length s \<le> w \<Longrightarrow> length (pad0 w s) = w"
  by (simp add: pad0_def)

lemma pad0_dec_nat: "0 < w \<Longrightarrow> n < 10 ^ w \<Longrightarrow> length (pad0 w (dec_nat n)) = w"
  by (simp add: length_dec_nat)

lemma takeWhile_digits_dot:
  assumes "list_all isdigit s"
  shows "takeWhile isdigit (s @ CHR ''.'' # t) = s"
    and "dropWhile isdigit (s @ CHR ''.'' # t) = CHR ''.'' # t"
  using assms by (induction s) (auto simp: isdigit_def)

lemma float_body_decimal:
  assumes a: "list_all isdigit a" "a \<noteq> []" and b: "list_all isdigit b"
  shows "float_body 10 isdigit (CHR ''e'') 10 (a @ CHR ''.'' # b) =
         Some (real (dec_value (a @ b)) / 10 ^ length b, [])"
  using assms
  by (simp add: float_body_def take_exponent_def base_value_digits takeWhile_digits_dot takeWhile_isdigit_all
      dropWhile_isdigit_all)

lemma decimal_not_hex:
  assumes "list_all isdigit a" and "list_all isdigit b"
  shows "Lower (take 2 (a @ CHR ''.'' # b)) \<noteq> ''0x''"
proof
  define t where "t = take 2 (a @ CHR ''.'' # b)"
  assume "Lower (take 2 (a @ CHR ''.'' # b)) = ''0x''"
  then have "map tolower t = ''0x''" by (simp only: t_def Lower_def)
  then obtain d c where t2: "t = [d, c]" and cx: "tolower c = CHR ''x''"
    by (auto simp: map_eq_Cons_conv)
  then have ct: "c \<in> set t" by simp
  from ct have "c \<in> set (take 2 (a @ CHR ''.'' # b))" by (simp only: t_def)
  then have c: "c \<in> set (a @ CHR ''.'' # b)" by (blast dest: in_set_takeD)
  from cx have "byte (tolower c) = 120" by simp
  moreover have "byte c \<le> 57" using c assms by (auto simp: list_all_iff isdigit_def)
  ultimately show False by (simp add: byte_tolower isupper_def split: if_splits)
qed

lemma strtod_decimal:
  assumes a: "list_all isdigit a" "a \<noteq> []" and b: "list_all isdigit b"
  shows "strtod (a @ CHR ''.'' # b) = (real (dec_value (a @ b)) / 10 ^ length b, [])"
proof -
  have nul: "c_str (a @ CHR ''.'' # b) = a @ CHR ''.'' # b"
    using a b by (intro c_str_no_nul) (auto simp: list_all_iff dest: digit_not_nul)
  obtain c cs where ac: "a = c # cs" using a by (cases a) auto
  then have "isdigit c" using a by simp
  then have "take_sign (dropWhile isspace (a @ CHR ''.'' # b)) = (False, a @ CHR ''.'' # b)"
    using digit_not_sign [of c] by (simp add: ac take_sign_def)
  then show ?thesis
    using decimal_not_hex [OF a(1) b] float_body_decimal [OF a b] nul by (simp add: strtod_def)
qed

lemma fixed3_shape:
  assumes x: "0 \<le> x"
  defines "n \<equiv> nat (round_even (x * 1000))"
  shows "fixed3 x = dec_nat (n div 1000) @ CHR ''.'' # pad0 3 (dec_nat (n mod 1000))"
  using x by (simp add: fixed3_def n_def Let_def)

text \<open>Reading back what \<open>%.3f\<close> printed gives the value to the thousandth.\<close>

lemma atof_fixed3:
  assumes x: "0 \<le> x"
  shows "atof (fixed3 x) = milli x"
proof -
  define n where "n = nat (round_even (x * 1000))"
  have len: "length (pad0 3 (dec_nat (n mod 1000))) = 3" by (rule pad0_dec_nat) simp_all
  have "atof (fixed3 x) = real (dec_value (dec_nat (n div 1000) @ pad0 3 (dec_nat (n mod 1000)))) / 10 ^ 3"
    unfolding fixed3_shape [OF x] n_def [symmetric] atof_def
    using strtod_decimal [of "dec_nat (n div 1000)" "pad0 3 (dec_nat (n mod 1000))"] len by simp
  also have "\<dots> = real n / 1000" by (simp add: dec_value_append len)
  also have "\<dots> = milli x"
    using round_even_nonneg [of "x * 1000"] x by (simp add: milli_def n_def)
  finally show ?thesis .
qed

section \<open>Lines and fields\<close>

text \<open>\<open>while (std::getline(ss, line, d))\<close>: the last line need not end in \<open>d\<close>.\<close>

function getlines :: "char \<Rightarrow> string \<Rightarrow> string list" where
  "getlines d s =
     (if s = [] then []
      else takeWhile (\<lambda>c. c \<noteq> d) s # getlines d (drop 1 (dropWhile (\<lambda>c. c \<noteq> d) s)))"
  by pat_completeness auto
termination
proof (relation "measure (\<lambda>(d, s). length s)")
  fix d :: char and s :: string
  assume "s \<noteq> []"
  moreover have "length (dropWhile (\<lambda>c. c \<noteq> d) s) \<le> length s" by (rule length_dropWhile_le)
  ultimately show "((d, drop 1 (dropWhile (\<lambda>c. c \<noteq> d) s)), d, s) \<in> measure (\<lambda>(d, s). length s)"
    by (cases s) auto
qed simp

declare getlines.simps [simp del]

text \<open>The loop that collects fields: every \<open>d\<close> ends one, and what is left is the last.\<close>

fun split_loop :: "char \<Rightarrow> string \<Rightarrow> string \<Rightarrow> string list" where
  "split_loop d cur [] = [cur]"
| "split_loop d cur (c # cs) = (if c = d then cur # split_loop d [] cs else split_loop d (cur @ [c]) cs)"

definition split_fields :: "char \<Rightarrow> string \<Rightarrow> string list" where
  "split_fields d s = split_loop d [] s"

lemma getlines_Nil [simp]: "getlines d [] = []"
  by (simp add: getlines.simps)

lemma takeWhile_neq_append:
  "d \<notin> set l \<Longrightarrow> takeWhile (\<lambda>c. c \<noteq> d) (l @ d # r) = l \<and> dropWhile (\<lambda>c. c \<noteq> d) (l @ d # r) = d # r"
  by (induction l) auto

lemma getlines_line [simp]: "d \<notin> set l \<Longrightarrow> getlines d (l @ d # r) = l # getlines d r"
  using takeWhile_neq_append [of d l r] by (simp add: getlines.simps [of d "l @ d # r"])

lemma getlines_concat:
  "\<forall>l \<in> set ls. d \<notin> set l \<Longrightarrow> getlines d (concat (map (\<lambda>l. l @ [d]) ls)) = ls"
  by (induction ls) simp_all

lemma split_loop_last: "d \<notin> set s \<Longrightarrow> split_loop d cur s = [cur @ s]"
  by (induction s arbitrary: cur) auto

lemma split_loop_cut: "d \<notin> set l \<Longrightarrow> split_loop d cur (l @ d # r) = (cur @ l) # split_loop d [] r"
  by (induction l arbitrary: cur) auto

lemma split_fields_last: "d \<notin> set s \<Longrightarrow> split_fields d s = [s]"
  by (simp add: split_fields_def split_loop_last)

lemma split_fields_cut: "d \<notin> set l \<Longrightarrow> split_fields d (l @ d # r) = l # split_fields d r"
  by (simp add: split_fields_def split_loop_cut)

lemma split_fields_no_sep: "f \<in> set (split_loop d cur s) \<Longrightarrow> d \<notin> set cur \<Longrightarrow> d \<notin> set f"
  by (induction d cur s rule: split_loop.induct) (auto split: if_splits)

text \<open>Joining with the separator and collecting fields are inverse.\<close>

fun join_by :: "char \<Rightarrow> string list \<Rightarrow> string" where
  "join_by d [] = []"
| "join_by d [x] = x"
| "join_by d (x # y # xs) = x @ d # join_by d (y # xs)"

lemma split_fields_join: "xs \<noteq> [] \<Longrightarrow> \<forall>x \<in> set xs. d \<notin> set x \<Longrightarrow> split_fields d (join_by d xs) = xs"
  by (induction d xs rule: join_by.induct) (simp_all add: split_fields_last split_fields_cut)

interpretation joined: codec "join_by d" "Some \<circ> split_fields d" "\<lambda>xs. xs \<noteq> [] \<and> (\<forall>x \<in> set xs. d \<notin> set x)" for d
  by unfold_locales (simp add: split_fields_join)

section \<open>Clocks\<close>

text \<open>\<open>%d:%02d\<close> of minutes and seconds; the mapvote and the deathmatch plugin share the code.\<close>

definition FormatClock :: "int \<Rightarrow> string" where
  "FormatClock seconds =
     (let s = (if seconds < 0 then 0 else seconds)
      in to_string (cdiv s 60) @ '':'' @ pad0 2 (to_string (cmod s 60)))"

lemma FormatClock_nonneg:
  "0 \<le> s \<Longrightarrow> FormatClock s = dec_nat (nat s div 60) @ CHR '':'' # pad0 2 (dec_nat (nat s mod 60))"
  by (simp add: not_less [of "s mod 60" 0, THEN iffD2] FormatClock_def to_string_def nat_div_distrib nat_mod_distrib not_less pos_imp_zdiv_nonneg_iff)

end
