(* ===== verification/Json.thy ===== *)
theory Json
  imports Text_Input
begin

text \<open>
  JSON values, their compact text and the recursive descent parser
  (libs/readyup/status_snapshot.h and the first half of status_snapshot.cpp). The fleet link has a
  second copy of the same parser (plugins/fleet/fleet_json.cpp); the two differ in what they do with
  surrogates in \<open>\u\<close> escapes and in which numbers they take, so the shared control flow is a
  function of these two readers and the locale \<open>json_dialect\<close> states what it needs of them.

  The parser's position \<open>i\<close> is the unread rest of the text. A reader returns \<open>Inl (message, rest)\<close>
  where the source calls \<open>Fail\<close> with the message at that position, and \<open>Inr (value, rest)\<close>
  otherwise. A \<open>double\<close> is a finite real number.
\<close>

section \<open>Values\<close>

datatype json =
    JNull
  | JBool bool
  | JInt int
  | JDouble real
  | JString string
  | JObject "(string \<times> json) list"
  | JArray "json list"

text \<open>\<open>Find\<close>; \<open>(*this)[key] = v\<close>: the first member with the key is replaced, a new one goes to the end.\<close>

fun Members :: "json \<Rightarrow> (string \<times> json) list" where
  "Members (JObject kvs) = kvs"
| "Members _ = []"

fun Items :: "json \<Rightarrow> json list" where
  "Items (JArray xs) = xs"
| "Items _ = []"

fun IsObject :: "json \<Rightarrow> bool" where
  "IsObject (JObject kvs) = True"
| "IsObject _ = False"

definition Find :: "json \<Rightarrow> string \<Rightarrow> json option" where
  "Find j key = map_of (Members j) key"

fun set_member :: "(string \<times> json) list \<Rightarrow> string \<Rightarrow> json \<Rightarrow> (string \<times> json) list" where
  "set_member [] key v = [(key, v)]"
| "set_member ((k, w) # kvs) key v = (if k = key then (k, v) # kvs else (k, w) # set_member kvs key v)"

definition json_put :: "json \<Rightarrow> string \<Rightarrow> json \<Rightarrow> json" where
  "json_put j key v = JObject (set_member (Members j) key v)"

definition Push :: "json \<Rightarrow> json \<Rightarrow> json" where
  "Push j v = JArray (Items j @ [v])"

text \<open>\<open>AsInt\<close> truncates a double towards zero; a value of another type reads as 0.\<close>

fun AsInt :: "json \<Rightarrow> int" where
  "AsInt (JBool b) = (if b then 1 else 0)"
| "AsInt (JInt i) = i"
| "AsInt (JDouble d) = (if 0 \<le> d then \<lfloor>d\<rfloor> else \<lceil>d\<rceil>)"
| "AsInt _ = 0"

fun AsDouble :: "json \<Rightarrow> real" where
  "AsDouble (JBool b) = (if b then 1 else 0)"
| "AsDouble (JInt i) = of_int i"
| "AsDouble (JDouble d) = d"
| "AsDouble _ = 0"

fun AsString :: "json \<Rightarrow> string" where
  "AsString (JString s) = s"
| "AsString _ = []"

fun AsBool :: "json \<Rightarrow> bool" where
  "AsBool (JBool b) = b"
| "AsBool (JInt i) = (i \<noteq> 0)"
| "AsBool _ = False"

text \<open>\<open>operator==\<close>: the order of an object's members does not matter.\<close>

lemma member_size: "kv \<in> set kvs \<Longrightarrow> size (snd kv) < Suc (size_list (size_prod (\<lambda>x. 0) size) kvs)"
  by (induction kvs) auto

lemma item_size: "i < length xs \<Longrightarrow> size (xs ! i) < Suc (size_list size xs)"
  by (simp add: less_Suc_eq_le size_list_estimation' [OF nth_mem])

function json_eq :: "json \<Rightarrow> json \<Rightarrow> bool" where
  "json_eq x y =
     (case (x, y) of
        (JNull, JNull) \<Rightarrow> True
      | (JBool a, JBool b) \<Rightarrow> a = b
      | (JInt a, JInt b) \<Rightarrow> a = b
      | (JDouble a, JDouble b) \<Rightarrow> a = b
      | (JString a, JString b) \<Rightarrow> a = b
      | (JArray xs, JArray ys) \<Rightarrow> length xs = length ys \<and> (\<forall>i \<in> {0..<length xs}. json_eq (xs ! i) (ys ! i))
      | (JObject kvs, JObject lvs) \<Rightarrow>
          length kvs = length lvs
            \<and> (\<forall>kv \<in> set kvs. case map_of lvs (fst kv) of None \<Rightarrow> False | Some w \<Rightarrow> json_eq (snd kv) w)
      | _ \<Rightarrow> False)"
  by pat_completeness auto
termination
  by (relation "measure (\<lambda>(x, y). size x)") (auto dest: member_size item_size)

declare json_eq.simps [simp del]

section \<open>Printing\<close>

abbreviation backslash :: char where "backslash \<equiv> CHR 0x5C"

definition hex_digit :: "nat \<Rightarrow> char" where
  "hex_digit n = ''0123456789abcdef'' ! (n mod 16)"

definition quoted_byte :: "char \<Rightarrow> string" where
  "quoted_byte c =
     (if c = quote_char then [backslash, quote_char]
      else if c = backslash then [backslash, backslash]
      else if byte c = 10 then [backslash, CHR ''n'']
      else if byte c = 13 then [backslash, CHR ''r'']
      else if byte c = 9 then [backslash, CHR ''t'']
      else if byte c = 8 then [backslash, CHR ''b'']
      else if byte c = 12 then [backslash, CHR ''f'']
      else if byte c < 0x20 \<or> byte c = 0x7F
        then backslash # ''u00'' @ [hex_digit (byte c div 16), hex_digit (byte c)]
      else [c])"

definition JsonEscapeTo :: "string \<Rightarrow> string" where
  "JsonEscapeTo s = [quote_char] @ concat (map quoted_byte s) @ [quote_char]"

text \<open>
  \<open>%.*g\<close> with precision \<open>p\<close>: \<open>p\<close> significant digits (ties to even), without trailing zeros, with
  an exponent when it is below \<open>-4\<close> or not below \<open>p\<close>. The decimal exponent of a double is between
  \<open>-324\<close> and 308.
\<close>

definition decimal_exponent :: "real \<Rightarrow> int" where
  "decimal_exponent a = (case find (\<lambda>e. 10 powi e \<le> a) (rev [-324..308]) of None \<Rightarrow> -324 | Some e \<Rightarrow> e)"

definition strip_zeros :: "string \<Rightarrow> string" where
  "strip_zeros s = rev (dropWhile (\<lambda>c. c = CHR ''0'') (rev s))"

definition with_fraction :: "string \<Rightarrow> string \<Rightarrow> string" where
  "with_fraction ip fp = (let f = strip_zeros fp in if f = [] then ip else ip @ ''.'' @ f)"

definition format_g :: "nat \<Rightarrow> real \<Rightarrow> string" where
  "format_g p x =
     (if x = 0 then ''0''
      else
        let a = \<bar>x\<bar>;
            e0 = decimal_exponent a;
            m0 = nat (round_even (a * 10 powi (int p - 1 - e0)));
            (m, e) = (if m0 = 10 ^ p then (10 ^ (p - 1), e0 + 1) else (m0, e0));
            ds = dec_nat m
        in (if x < 0 then ''-'' else [])
           @ (if - 4 \<le> e \<and> e < int p
              then if 0 \<le> e then with_fraction (take (nat e + 1) ds) (drop (nat e + 1) ds)
                   else with_fraction ''0'' (replicate (nat (- e) - 1) (CHR ''0'') @ ds)
              else with_fraction (take 1 ds) (drop 1 ds)
                   @ (if e < 0 then ''e-'' else ''e+'') @ pad0 2 (dec_nat (nat \<bar>e\<bar>))))"

primrec dump_g :: "nat \<Rightarrow> json \<Rightarrow> string" where
  "dump_g p JNull = ''null''"
| "dump_g p (JBool b) = (if b then ''true'' else ''false'')"
| "dump_g p (JInt i) = to_string i"
| "dump_g p (JDouble d) = format_g p d"
| "dump_g p (JString s) = JsonEscapeTo s"
| "dump_g p (JObject kvs) =
     ''{'' @ join_by (CHR '','')
               (map (\<lambda>(k, t). JsonEscapeTo k @ '':'' @ t) (map (map_prod (\<lambda>k. k) (dump_g p)) kvs)) @ ''}''"
| "dump_g p (JArray xs) = ''['' @ join_by (CHR '','') (map (dump_g p) xs) @ '']''"

definition Dump :: "json \<Rightarrow> string" where
  "Dump j = dump_g 10 j"

section \<open>Reading\<close>

type_synonym 'a parsed = "(string \<times> string) + ('a \<times> string)"

fun and_then :: "'a parsed \<Rightarrow> ('a \<Rightarrow> string \<Rightarrow> 'b parsed) \<Rightarrow> 'b parsed" where
  "and_then (Inl e) f = Inl e"
| "and_then (Inr (x, r)) f = f x r"

definition is_ws :: "char \<Rightarrow> bool" where
  "is_ws c \<longleftrightarrow> byte c = 32 \<or> byte c = 9 \<or> byte c = 10 \<or> byte c = 13"

definition Ws :: "string \<Rightarrow> string" where
  "Ws s = dropWhile is_ws s"

definition Lit :: "string \<Rightarrow> json \<Rightarrow> string \<Rightarrow> json parsed" where
  "Lit w v s = (if take (length w) s = w then Inr (v, drop (length w) s) else Inl (''bad literal'', s))"

definition Utf8 :: "nat \<Rightarrow> string" where
  "Utf8 cp =
     (if cp < 0x80 then [char_of cp]
      else if cp < 0x800 then [char_of (0xC0 + cp div 64), char_of (0x80 + cp mod 64)]
      else if cp < 0x10000
        then [char_of (0xE0 + cp div 4096), char_of (0x80 + cp div 64 mod 64), char_of (0x80 + cp mod 64)]
      else [char_of (0xF0 + cp div 262144), char_of (0x80 + cp div 4096 mod 64),
            char_of (0x80 + cp div 64 mod 64), char_of (0x80 + cp mod 64)])"

definition bad_escape :: string where
  "bad_escape = ''bad '' @ [backslash] @ ''u escape''"

fun hex_loop :: "nat \<Rightarrow> nat \<Rightarrow> string \<Rightarrow> nat parsed" where
  "hex_loop 0 v s = Inr (v, s)"
| "hex_loop (Suc k) v [] = Inl (bad_escape, [])"
| "hex_loop (Suc k) v (c # cs) =
     (if isxdigit c then hex_loop k (v * 16 + digit_value c) cs else Inl (bad_escape, cs))"

definition Hex4 :: "string \<Rightarrow> nat parsed" where
  "Hex4 s = (if length s < 4 then Inl (''short '' @ [backslash] @ ''u escape'', s) else hex_loop 4 0 s)"

text \<open>
  What follows the four digits of a \<open>\u\<close> escape: the bytes for the code point, and how many bytes of
  the rest belong to it (a second escape for the other half of a surrogate pair).
\<close>

type_synonym unicode_reader = "nat \<Rightarrow> string \<Rightarrow> (string \<times> string) + (string \<times> nat)"

definition starts_escape :: "string \<Rightarrow> bool" where
  "starts_escape r \<longleftrightarrow> take 2 r = [backslash, CHR ''u'']"

definition surrogate_pair :: "nat \<Rightarrow> nat \<Rightarrow> nat" where
  "surrogate_pair hi lo = 0x10000 + (hi - 0xD800) * 1024 + (lo - 0xDC00)"

definition status_unicode :: unicode_reader where
  "status_unicode cp r =
     (if 0xD800 \<le> cp \<and> cp < 0xDC00 \<and> 6 \<le> length r \<and> starts_escape r
      then case Hex4 (drop 2 r) of
             Inl e \<Rightarrow> Inl e
           | Inr (lo, r') \<Rightarrow>
               Inr (Utf8 (if 0xDC00 \<le> lo \<and> lo < 0xE000 then surrogate_pair cp lo else cp), 6)
      else Inr (Utf8 cp, 0))"

fun simple_escape :: "char \<Rightarrow> char option" where
  "simple_escape e =
     (if e = quote_char \<or> e = backslash \<or> e = CHR ''/'' then Some e
      else if e = CHR ''b'' then Some (CHR 0x08)
      else if e = CHR ''f'' then Some (CHR 0x0C)
      else if e = CHR ''n'' then Some (CHR 0x0A)
      else if e = CHR ''r'' then Some (CHR 0x0D)
      else if e = CHR ''t'' then Some (CHR 0x09)
      else None)"

lemma hex_loop_rest: "hex_loop k v s = Inr (u, r) \<Longrightarrow> length s = length r + k"
  by (induction k v s rule: hex_loop.induct) (auto split: if_splits)

lemma Hex4_rest: "Hex4 s = Inr (v, r) \<Longrightarrow> length s = length r + 4"
  by (auto simp: Hex4_def split: if_splits dest: hex_loop_rest)

function str_loop :: "unicode_reader \<Rightarrow> string \<Rightarrow> string \<Rightarrow> string parsed" where
  "str_loop uni out [] = Inl (''unterminated string'', [])"
| "str_loop uni out (c # cs) =
     (if c = quote_char then Inr (out, cs)
      else if byte c < 0x20 then Inl (''control character in string'', cs)
      else if c \<noteq> backslash then str_loop uni (out @ [c]) cs
      else case cs of
             [] \<Rightarrow> Inl (''unterminated string'', [])
           | e # r \<Rightarrow>
               (case simple_escape e of
                  Some d \<Rightarrow> str_loop uni (out @ [d]) r
                | None \<Rightarrow>
                    if e \<noteq> CHR ''u'' then Inl (''bad escape'', r)
                    else case Hex4 r of
                           Inl f \<Rightarrow> Inl f
                         | Inr (cp, r1) \<Rightarrow>
                             (case uni cp r1 of
                                Inl f \<Rightarrow> Inl f
                              | Inr (u, n) \<Rightarrow> str_loop uni (out @ u) (drop n r1))))"
  by pat_completeness auto
termination
  by (relation "measure (\<lambda>(uni, out, s). length s)") (auto dest: Hex4_rest)

definition Str :: "unicode_reader \<Rightarrow> string \<Rightarrow> string parsed" where
  "Str uni s =
     (case s of
        [] \<Rightarrow> Inl (''expected string'', [])
      | c # cs \<Rightarrow> if c = quote_char then str_loop uni [] cs else Inl (''expected string'', s))"

text \<open>\<open>strtoll\<close> on the whole text, without a range error.\<close>

definition strtoll :: "string \<Rightarrow> int option" where
  "strtoll t =
     (let (neg, u) = take_sign t;
          n = int (dec_value u)
      in if \<not> IsDigits u then None
         else if neg then (if n \<le> 2 ^ 63 then Some (- n) else None)
         else if n < 2 ^ 63 then Some n else None)"

definition is_numchar :: "char \<Rightarrow> bool" where
  "is_numchar c \<longleftrightarrow>
     isdigit c \<or> c = CHR ''.'' \<or> c = CHR ''e'' \<or> c = CHR ''E'' \<or> c = CHR ''+'' \<or> c = CHR ''-''"

definition make_number :: "bool \<Rightarrow> string \<Rightarrow> string \<Rightarrow> json parsed" where
  "make_number isInt t r =
     (case if isInt then strtoll t else None of
        Some v \<Rightarrow> Inr (JInt v, r)
      | None \<Rightarrow> (let (d, rest) = strtod t in if rest \<noteq> [] then Inl (''bad number'', r) else Inr (JDouble d, r)))"

definition status_Num :: "string \<Rightarrow> json parsed" where
  "status_Num s =
     (let (sgn, s1) = (if take 1 s = ''-'' then (''-'', drop 1 s) else ([], s));
          body = takeWhile is_numchar s1;
          r = dropWhile is_numchar s1;
          t = sgn @ body
      in if t = [] \<or> t = ''-'' then Inl (''bad number'', r)
         else make_number (\<not> list_ex (\<lambda>c. c \<in> set ''.eE'') body) t r)"

text \<open>
  The loops over members and items. Each turn reads at least one byte, so a loop that may take more
  turns than there are bytes left never ends early; \<open>Parse_has_fuel\<close> below shows it. The first
  argument is that number of turns.
\<close>

definition in_quotes :: "char \<Rightarrow> string" where
  "in_quotes c = [CHR 0x27, c, CHR 0x27]"

definition expect :: "char \<Rightarrow> string \<Rightarrow> unit parsed" where
  "expect c s =
     (case Ws s of
        [] \<Rightarrow> Inl (''expected '' @ in_quotes c, [])
      | d # r \<Rightarrow> if d = c then Inr ((), r) else Inl (''expected '' @ in_quotes c, d # r))"

definition no_fuel :: string where
  "no_fuel = ''out of fuel''"

text \<open>After a member or an item: a comma, or the closing bracket.\<close>

definition more_msg :: "char \<Rightarrow> string" where
  "more_msg close = ''expected '' @ in_quotes (CHR '','') @ '' or '' @ in_quotes close"

definition more :: "char \<Rightarrow> string \<Rightarrow> bool parsed" where
  "more close s =
     (case Ws s of
        [] \<Rightarrow> Inl (more_msg close, [])
      | d # r \<Rightarrow>
          if d = CHR '','' then Inr (True, r)
          else if d = close then Inr (False, r)
          else Inl (more_msg close, d # r))"

fun obj_loop ::
  "nat \<Rightarrow> (string \<Rightarrow> string parsed) \<Rightarrow> (string \<Rightarrow> json parsed) \<Rightarrow> (string \<times> json) list \<Rightarrow> string \<Rightarrow> json parsed" where
  "obj_loop 0 str val kvs s = Inl (no_fuel, s)"
| "obj_loop (Suc f) str val kvs s =
     and_then (str (Ws s)) (\<lambda>k r.
       and_then (expect (CHR '':'') r) (\<lambda>_ r2.
         and_then (val r2) (\<lambda>v r3.
           and_then (more (CHR ''}'') r3) (\<lambda>go r4.
             if go then obj_loop f str val (set_member kvs k v) r4
             else Inr (JObject (set_member kvs k v), r4)))))"

fun arr_loop :: "nat \<Rightarrow> (string \<Rightarrow> json parsed) \<Rightarrow> json list \<Rightarrow> string \<Rightarrow> json parsed" where
  "arr_loop 0 val xs s = Inl (no_fuel, s)"
| "arr_loop (Suc f) val xs s =
     and_then (val s) (\<lambda>v r.
       and_then (more (CHR '']'') r) (\<lambda>go r2.
         if go then arr_loop f val (xs @ [v]) r2 else Inr (JArray (xs @ [v]), r2)))"

text \<open>
  \<open>Value(out, depth)\<close>. The first argument is the number of nesting levels that are left, so 0 is
  the source's \<open>depth > 64\<close>.
\<close>

primrec Value :: "unicode_reader \<Rightarrow> (string \<Rightarrow> json parsed) \<Rightarrow> nat \<Rightarrow> string \<Rightarrow> json parsed" where
  "Value uni num 0 s = Inl (''nesting too deep'', s)"
| "Value uni num (Suc n) s =
     (case Ws s of
        [] \<Rightarrow> Inl (''unexpected end'', [])
      | c # r \<Rightarrow>
          if c = CHR ''{'' then
            (if take 1 (Ws r) = ''}'' then Inr (JObject [], drop 1 (Ws r))
             else obj_loop (Suc (length r)) (Str uni) (Value uni num n) [] (Ws r))
          else if c = CHR ''['' then
            (if take 1 (Ws r) = '']'' then Inr (JArray [], drop 1 (Ws r))
             else arr_loop (Suc (length r)) (Value uni num n) [] (Ws r))
          else if c = quote_char then and_then (Str uni (c # r)) (\<lambda>t r2. Inr (JString t, r2))
          else if c = CHR ''t'' then Lit ''true'' (JBool True) (c # r)
          else if c = CHR ''f'' then Lit ''false'' (JBool False) (c # r)
          else if c = CHR ''n'' then Lit ''null'' JNull (c # r)
          else num (c # r))"

text \<open>A whole text: one value, nothing after it. The error is the message with its offset.\<close>

definition parse_text :: "(string \<Rightarrow> json parsed) \<Rightarrow> string \<Rightarrow> string \<Rightarrow> string + json" where
  "parse_text val trailing s =
     (let fail = (\<lambda>(m, r). Inl (m @ '' at offset '' @ dec_nat (length s - length r)))
      in case val s of
           Inl e \<Rightarrow> fail e
         | Inr (v, r) \<Rightarrow> if Ws r = [] then Inr v else fail (trailing, Ws r))"

definition max_depth :: nat where
  "max_depth = 64"

definition Parse :: "string \<Rightarrow> string + json" where
  "Parse s = parse_text (Value status_unicode status_Num (Suc max_depth)) ''trailing characters'' s"

section \<open>What is printed is read back\<close>

definition delimited :: "string \<Rightarrow> bool" where
  "delimited r \<longleftrightarrow> (case r of [] \<Rightarrow> True | c # _ \<Rightarrow> \<not> is_numchar c)"

definition in_int64 :: "int \<Rightarrow> bool" where
  "in_int64 i \<longleftrightarrow> - (2 ^ 63) \<le> i \<and> i < 2 ^ 63"

lemma hex_digit_value: "isxdigit (hex_digit n) \<and> digit_value (hex_digit n) = n mod 16"
proof -
  have "\<forall>k \<in> {0..<16}. isxdigit (hex_digit k) \<and> digit_value (hex_digit k) = k"
    by code_simp
  moreover have "hex_digit n = hex_digit (n mod 16)" by (simp add: hex_digit_def)
  ultimately show ?thesis by simp
qed

lemma Hex4_digits:
  assumes "isxdigit a" "isxdigit b" "isxdigit c" "isxdigit d"
  shows "Hex4 (a # b # c # d # r) =
         Inr (((digit_value a * 16 + digit_value b) * 16 + digit_value c) * 16 + digit_value d, r)"
proof -
  have "(4 :: nat) = Suc (Suc (Suc (Suc 0)))" by simp
  with assms show ?thesis by (simp only: Hex4_def hex_loop.simps if_True) simp
qed

lemma zero_digit: "isxdigit (CHR ''0'')" "digit_value (CHR ''0'') = 0"
  by code_simp+

lemma Hex4_byte:
  assumes "n < 256"
  shows "Hex4 (CHR ''0'' # CHR ''0'' # hex_digit (n div 16) # hex_digit n # r) = Inr (n, r)"
proof -
  have "n div 16 mod 16 * 16 + n mod 16 = n" using assms by simp
  then show ?thesis
    using hex_digit_value [of n] hex_digit_value [of "n div 16"]
    by (simp add: Hex4_digits zero_digit)
qed

lemma simple_escape_u: "simple_escape (CHR ''u'') = None"
  by code_simp

lemma byte_is: "byte c = n \<Longrightarrow> c = char_of n"
  by auto

lemma control_chars:
  "char_of (10 :: nat) = CHR 0x0A" "char_of (13 :: nat) = CHR 0x0D" "char_of (9 :: nat) = CHR 0x09"
  "char_of (8 :: nat) = CHR 0x08" "char_of (12 :: nat) = CHR 0x0C"
  by code_simp+

lemma Ws_space [simp]: "list_all is_ws w \<Longrightarrow> Ws (w @ s) = Ws s"
  by (induction w) (simp_all add: Ws_def)

lemma Ws_stop [simp]: "\<not> is_ws c \<Longrightarrow> Ws (c # s) = c # s"
  by (simp add: Ws_def)

lemma is_ws_simps [simp]:
  "\<not> is_ws quote_char" "\<not> is_ws (CHR '':'')" "\<not> is_ws (CHR '','')" "\<not> is_ws (CHR ''{'')" "\<not> is_ws (CHR ''}'')"
  "\<not> is_ws (CHR ''['')" "\<not> is_ws (CHR '']'')"
  by (simp_all add: is_ws_def)

lemma ws_not_numchar: "is_ws c \<Longrightarrow> \<not> is_numchar c"
  by (auto simp: is_ws_def is_numchar_def isdigit_def)

lemma delimited_simps [simp]: "delimited []" "delimited (c # r) \<longleftrightarrow> \<not> is_numchar c"
  by (simp_all add: delimited_def)

lemma is_numchar_simps [simp]:
  "\<not> is_numchar (CHR '','')" "\<not> is_numchar (CHR ''}'')" "\<not> is_numchar (CHR '']'')"
  by (simp_all add: is_numchar_def isdigit_def)

lemma delimited_space: "list_all is_ws w \<Longrightarrow> delimited r \<Longrightarrow> delimited (w @ r)"
  by (cases w) (auto dest: ws_not_numchar)

lemma expect_hit [simp]: "list_all is_ws w \<Longrightarrow> \<not> is_ws c \<Longrightarrow> expect c (w @ c # r) = Inr ((), r)"
  by (simp add: expect_def)

lemma expect_here [simp]: "\<not> is_ws c \<Longrightarrow> expect c (c # r) = Inr ((), r)"
  by (simp add: expect_def)

lemma more_comma [simp]: "more c (CHR '','' # r) = Inr (True, r)"
  by (simp add: more_def)

lemma more_close [simp]:
  "list_all is_ws w \<Longrightarrow> \<not> is_ws c \<Longrightarrow> c \<noteq> CHR '','' \<Longrightarrow> more c (w @ c # r) = Inr (False, r)"
  by (simp add: more_def)

lemma set_member_new: "k \<notin> fst ` set kvs \<Longrightarrow> set_member kvs k v = kvs @ [(k, v)]"
  by (induction kvs) auto

lemma map_of_set_member: "map_of (set_member p k v) = (map_of p)(k \<mapsto> v)"
  by (induction p k v rule: set_member.induct) auto

lemma keys_set_member: "fst ` set (set_member p k v) = insert k (fst ` set p)"
  by (induction p k v rule: set_member.induct) auto

lemma distinct_set_member: "distinct (map fst p) \<Longrightarrow> distinct (map fst (set_member p k v))"
proof (induction p k v rule: set_member.induct)
  case (2 k' w kvs key v)
  then show ?case using keys_set_member [of kvs key v] by auto
qed simp

lemma join_by_Cons: "xs \<noteq> [] \<Longrightarrow> join_by d (x # xs) = x @ d # join_by d xs"
  by (cases xs) auto

text \<open>
  The values that have a faithful text: integers of 64 bits, no doubles, no key twice in an object,
  and at most \<open>n\<close> levels.
\<close>

primrec json_ok :: "json \<Rightarrow> nat \<Rightarrow> bool" where
  "json_ok JNull n = (0 < n)"
| "json_ok (JBool b) n = (0 < n)"
| "json_ok (JInt i) n = (0 < n \<and> in_int64 i)"
| "json_ok (JDouble d) n = False"
| "json_ok (JString s) n = (0 < n)"
| "json_ok (JObject kvs) n =
     (0 < n \<and> distinct (map fst kvs) \<and> list_all (\<lambda>(k, ok). ok (n - 1)) (map (map_prod (\<lambda>k. k) json_ok) kvs))"
| "json_ok (JArray xs) n = (0 < n \<and> list_all (\<lambda>ok. ok (n - 1)) (map json_ok xs))"

lemma json_ok_member: "json_ok (JObject kvs) (Suc n) \<Longrightarrow> (k, v) \<in> set kvs \<Longrightarrow> json_ok v n"
  by (auto simp: list_all_iff)

lemma json_ok_item: "json_ok (JArray xs) (Suc n) \<Longrightarrow> v \<in> set xs \<Longrightarrow> json_ok v n"
  by (auto simp: list_all_iff)

lemma json_ok_levels: "json_ok j n \<Longrightarrow> \<exists>m. n = Suc m"
  by (cases j; cases n) auto

lemma json_ok_mono: "json_ok j n \<Longrightarrow> n \<le> m \<Longrightarrow> json_ok j m"
proof (induction j arbitrary: n m)
  case (JObject kvs)
  have "json_ok v (m - 1)" if "(k, v) \<in> set kvs" for k v
  proof (rule JObject.IH [OF that])
    show "v \<in> Basic_BNFs.snds (k, v)" by simp
    show "json_ok v (n - 1)" using JObject.prems(1) that by (auto simp: list_all_iff)
    show "n - 1 \<le> m - 1" using JObject.prems(2) by simp
  qed
  with JObject.prems show ?case by (auto simp: list_all_iff)
next
  case (JArray xs)
  have "json_ok v (m - 1)" if "v \<in> set xs" for v
  proof (rule JArray.IH [OF that])
    show "json_ok v (n - 1)" using JArray.prems(1) that by (auto simp: list_all_iff)
    show "n - 1 \<le> m - 1" using JArray.prems(2) by simp
  qed
  with JArray.prems show ?case by (simp add: list_all_iff)
qed auto

lemma length_join_by: "\<forall>x \<in> set xs. x \<noteq> [] \<Longrightarrow> length xs \<le> length (join_by d xs)"
proof (induction d xs rule: join_by.induct)
  case (2 d x)
  then show ?case by (cases x) auto
qed auto

lemma Lit_prefix [simp]: "Lit w v (w @ r) = Inr (v, r)"
  by (simp add: Lit_def)

lemma is_numchar_digit: "isdigit c \<Longrightarrow> is_numchar c"
  by (simp add: is_numchar_def)

lemma to_string_head:
  obtains c cs where "to_string i = c # cs" and "isdigit c \<or> c = CHR ''-''"
proof (cases "i < 0")
  case True
  then show ?thesis using that by (auto simp: to_string_def)
next
  case False
  obtain c cs where "dec_nat (nat i) = c # cs" by (cases "dec_nat (nat i)") auto
  moreover from this list_all_isdigit_dec_nat [of "nat i"] have "isdigit c" by simp
  ultimately show ?thesis using that False by (auto simp: to_string_def)
qed

lemma dump_head:
  assumes "json_ok j n"
  shows "\<exists>c cs. dump_g p j = c # cs \<and> \<not> is_ws c \<and> c \<noteq> CHR '']''"
proof (cases j)
  case (JInt i)
  obtain c cs where "to_string i = c # cs" "isdigit c \<or> c = CHR ''-''" by (rule to_string_head)
  with JInt show ?thesis by (auto simp: is_ws_def isdigit_def)
qed (use assms in \<open>auto simp: JsonEscapeTo_def is_ws_def\<close>)

lemma dump_object:
  "dump_g p (JObject kvs) =
     CHR ''{'' # join_by (CHR '','') (map (\<lambda>(k, v). [] @ JsonEscapeTo k @ CHR '':'' # dump_g p v) kvs) @ [] @ ''}''"
proof -
  have "map (\<lambda>(k, t). JsonEscapeTo k @ '':'' @ t) (map (map_prod (\<lambda>k. k) (dump_g p)) kvs) =
      map (\<lambda>(k, v). [] @ JsonEscapeTo k @ CHR '':'' # dump_g p v) kvs"
    by auto
  then show ?thesis by (simp only: dump_g.simps) simp
qed

lemma dump_array:
  "dump_g p (JArray xs) = CHR ''['' # join_by (CHR '','') (map (dump_g p) xs) @ [] @ '']''"
  by simp

locale json_dialect =
  fixes uni :: unicode_reader
    and num :: "string \<Rightarrow> json parsed"
  assumes uni_ascii: "cp < 128 \<Longrightarrow> uni cp r = Inr ([char_of cp], 0)"
    and num_int: "in_int64 i \<Longrightarrow> delimited r \<Longrightarrow> num (to_string i @ r) = Inr (JInt i, r)"
begin

lemma str_loop_byte: "str_loop uni out (quoted_byte c @ r) = str_loop uni (out @ [c]) r"
proof -
  consider (quote) "c = quote_char" | (slash) "c = backslash"
    | (simple) "byte c \<in> {10, 13, 9, 8, 12}"
    | (hex) "byte c < 0x20 \<or> byte c = 0x7F" "byte c \<notin> {10, 13, 9, 8, 12}" "c \<noteq> quote_char" "c \<noteq> backslash"
    | (plain) "c \<noteq> quote_char" "c \<noteq> backslash" "byte c \<ge> 0x20" "byte c \<noteq> 0x7F"
    by fastforce
  then show ?thesis
  proof cases
    case simple
    then have "c \<in> {CHR 0x0A, CHR 0x0D, CHR 0x09, CHR 0x08, CHR 0x0C}" by (auto simp: control_chars dest!: byte_is)
    then show ?thesis by (auto simp: quoted_byte_def)
  next
    case hex
    then have b: "byte c < 128" by auto
    have "quoted_byte c = [backslash, CHR ''u'', CHR ''0'', CHR ''0'', hex_digit (byte c div 16), hex_digit (byte c)]"
      using hex by (simp add: quoted_byte_def)
    then show ?thesis
      using b by (simp add: Hex4_byte simple_escape_u uni_ascii del: simple_escape.simps)
  next
    case plain
    then show ?thesis by (simp add: quoted_byte_def)
  qed (simp_all add: quoted_byte_def)
qed

lemma str_loop_bytes: "str_loop uni out (concat (map quoted_byte s) @ quote_char # r) = Inr (out @ s, r)"
  by (induction s arbitrary: out) (simp_all add: str_loop_byte)

lemma Str_escaped: "Str uni (JsonEscapeTo s @ r) = Inr (s, r)"
  by (simp add: Str_def JsonEscapeTo_def str_loop_bytes)

text \<open>The loops on the text of members and items, with white space around them.\<close>

lemma obj_loop_text:
  assumes ws: "list_all is_ws pre" "list_all is_ws post"
    and val: "\<And>k v r. (k, v) \<in> set kvs \<Longrightarrow> delimited r \<Longrightarrow> val (render v @ r) = Inr (v, r)"
    and ne: "kvs \<noteq> []" and fuel: "length kvs \<le> f" and keys: "distinct (map fst (old @ kvs))"
  shows "obj_loop f (Str uni) val old
           (join_by (CHR '','') (map (\<lambda>(k, v). pre @ JsonEscapeTo k @ CHR '':'' # render v) kvs) @ post @ CHR ''}'' # r)
         = Inr (JObject (old @ kvs), r)"
  using val ne fuel keys
proof (induction kvs arbitrary: f old)
  case (Cons kv kvs)
  obtain k v where kv: "kv = (k, v)" by (cases kv)
  from Cons.prems obtain g where f: "f = Suc g" by (cases f) auto
  have new: "set_member old k v = old @ [(k, v)]"
    using Cons.prems(4) by (intro set_member_new) (auto simp: kv)
  have key: "Str uni (Ws (pre @ JsonEscapeTo k @ s)) = Inr (k, s)" for s
    using Str_escaped [of k s] ws by (simp add: JsonEscapeTo_def)
  have v: "val (render v @ s) = Inr (v, s)" if "delimited s" for s
    using Cons.prems(1) that by (auto simp: kv)
  show ?case
  proof (cases "kvs = []")
    case True
    then show ?thesis
      using key new v [of "post @ CHR ''}'' # r"] ws by (simp add: kv f delimited_space)
  next
    case False
    have "obj_loop g (Str uni) val (old @ [(k, v)])
        (join_by (CHR '','') (map (\<lambda>(k, v). pre @ JsonEscapeTo k @ CHR '':'' # render v) kvs) @ post @ CHR ''}'' # r)
        = Inr (JObject ((old @ [(k, v)]) @ kvs), r)"
      using Cons.prems False by (intro Cons.IH) (auto simp: kv f)
    then show ?thesis
      using False key new v by (simp add: kv f join_by_Cons)
  qed
qed simp

lemma arr_loop_text:
  assumes ws: "list_all is_ws post"
    and val: "\<And>v r. v \<in> set xs \<Longrightarrow> delimited r \<Longrightarrow> val (render v @ r) = Inr (v, r)"
    and ne: "xs \<noteq> []" and fuel: "length xs \<le> f"
  shows "arr_loop f val old (join_by (CHR '','') (map render xs) @ post @ CHR '']'' # r) = Inr (JArray (old @ xs), r)"
  using val ne fuel
proof (induction xs arbitrary: f old)
  case (Cons x xs)
  from Cons.prems obtain g where f: "f = Suc g" by (cases f) auto
  have v: "val (render x @ s) = Inr (x, s)" if "delimited s" for s
    using Cons.prems(1) that by auto
  show ?case
  proof (cases "xs = []")
    case True
    then show ?thesis using v [of "post @ CHR '']'' # r"] ws by (simp add: f delimited_space)
  next
    case False
    have "arr_loop g val (old @ [x]) (join_by (CHR '','') (map render xs) @ post @ CHR '']'' # r)
        = Inr (JArray ((old @ [x]) @ xs), r)"
      using Cons.prems False by (intro Cons.IH) (auto simp: f)
    then show ?thesis using False v by (simp add: f join_by_Cons)
  qed
qed simp

lemma Value_space: "list_all is_ws w \<Longrightarrow> Value uni num n (w @ s) = (if n = 0 then Inl (''nesting too deep'', w @ s) else Value uni num n s)"
  by (cases n) simp_all

lemma Value_object:
  assumes ws: "list_all is_ws pre" "list_all is_ws post"
    and val: "\<And>k v r. (k, v) \<in> set kvs \<Longrightarrow> delimited r \<Longrightarrow> Value uni num n (render v @ r) = Inr (v, r)"
    and ne: "kvs \<noteq> []" and keys: "distinct (map fst kvs)"
  shows "Value uni num (Suc n)
           (CHR ''{'' # join_by (CHR '','') (map (\<lambda>(k, v). pre @ JsonEscapeTo k @ CHR '':'' # render v) kvs)
             @ post @ CHR ''}'' # r)
         = Inr (JObject kvs, r)"
proof -
  let ?ms = "map (\<lambda>(k, v). pre @ JsonEscapeTo k @ CHR '':'' # render v) kvs"
  let ?t = "join_by (CHR '','') ?ms @ post @ CHR ''}'' # r"
  obtain k v rest where kvs: "kvs = (k, v) # rest" using ne by (cases kvs) auto
  obtain u where "join_by (CHR '','') ?ms = pre @ quote_char # u"
    by (cases rest) (auto simp: kvs JsonEscapeTo_def)
  then have head: "Ws ?t = quote_char # u @ post @ CHR ''}'' # r" using ws by simp
  have "length ?ms \<le> length (join_by (CHR '','') ?ms)"
    by (intro length_join_by) (auto simp: JsonEscapeTo_def)
  then have fuel: "length kvs \<le> Suc (length ?t)" by simp
  have loop: "obj_loop (Suc (length ?t)) (Str uni) (Value uni num n) [] ?t = Inr (JObject kvs, r)"
    using obj_loop_text [OF ws val ne fuel, where old = "[]"] keys by simp
  moreover have "obj_loop (Suc (length ?t)) (Str uni) (Value uni num n) [] (Ws ?t) =
      obj_loop (Suc (length ?t)) (Str uni) (Value uni num n) [] ?t"
    by (simp only: obj_loop.simps) (simp add: Ws_def)
  ultimately show ?thesis using head by simp
qed

lemma Value_array:
  assumes ws: "list_all is_ws post"
    and val: "\<And>v r. v \<in> set xs \<Longrightarrow> delimited r \<Longrightarrow> Value uni num n (render v @ r) = Inr (v, r)"
    and ne: "xs \<noteq> []" and first: "\<And>v. v \<in> set xs \<Longrightarrow> render v \<noteq> [] \<and> take 1 (Ws (render v)) \<notin> {[], '']''}"
  shows "Value uni num (Suc n) (CHR ''['' # join_by (CHR '','') (map render xs) @ post @ CHR '']'' # r) = Inr (JArray xs, r)"
proof -
  let ?t = "join_by (CHR '','') (map render xs) @ post @ CHR '']'' # r"
  obtain x rest where xs: "xs = x # rest" using ne by (cases xs) auto
  obtain u where t: "?t = render x @ u" by (cases rest) (auto simp: xs)
  have "take 1 (Ws (render x)) \<notin> {[], '']''}" using first by (simp add: xs)
  then have head: "take 1 (Ws ?t) \<noteq> '']''"
    unfolding t by (cases "Ws (render x)") (auto simp: Ws_def dropWhile_append dest: dropWhile_eq_Cons_conv [THEN iffD1])
  have "length (map render xs) \<le> length (join_by (CHR '','') (map render xs))"
    using first by (intro length_join_by) auto
  then have fuel: "length xs \<le> Suc (length ?t)" by simp
  have "arr_loop (Suc (length ?t)) (Value uni num n) [] ?t = Inr (JArray xs, r)"
    using arr_loop_text [OF ws val ne fuel, where old = "[]"] by simp
  moreover have "arr_loop (Suc (length ?t)) (Value uni num n) [] (Ws ?t) =
      arr_loop (Suc (length ?t)) (Value uni num n) [] ?t"
    using val [of x "[]"] by (cases n) (simp_all add: Ws_def xs)
  ultimately show ?thesis using head by simp
qed

lemma Value_empty:
  "list_all is_ws w \<Longrightarrow> Value uni num (Suc n) (CHR ''{'' # w @ CHR ''}'' # r) = Inr (JObject [], r)"
  "list_all is_ws w \<Longrightarrow> Value uni num (Suc n) (CHR ''['' # w @ CHR '']'' # r) = Inr (JArray [], r)"
  by simp_all

lemma Value_int:
  assumes "in_int64 i" and "delimited r"
  shows "Value uni num (Suc n) (to_string i @ r) = Inr (JInt i, r)"
proof -
  obtain c cs where s: "to_string i = c # cs" and c: "isdigit c \<or> c = CHR ''-''" by (rule to_string_head)
  have "\<not> is_ws c" "c \<notin> set (quote_char # ''{[tfn'')" using c by (auto simp: is_ws_def isdigit_def)
  then show ?thesis using num_int [OF assms] by (simp add: s)
qed

lemma Value_dump:
  "json_ok j n \<Longrightarrow> delimited r \<Longrightarrow> Value uni num n (dump_g p j @ r) = Inr (j, r)"
proof (induction j arbitrary: n r)
  case (JObject kvs)
  then obtain m where n: "n = Suc m" using json_ok_levels by blast
  show ?case
  proof (cases "kvs = []")
    case False
    have val: "Value uni num m (dump_g p v @ r) = Inr (v, r)" if "(k, v) \<in> set kvs" "delimited r" for k v r
      using JObject.IH [OF that(1), of v] json_ok_member JObject.prems(1) that by (auto simp: n)
    have keys: "distinct (map fst kvs)" using JObject.prems(1) by simp
    show ?thesis
      using Value_object [where pre = "[]" and post = "[]" and render = "dump_g p", OF _ _ val False keys]
      unfolding dump_object n by simp
  qed (use Value_empty [of "[]"] in \<open>simp add: n\<close>)
next
  case (JArray xs)
  then obtain m where n: "n = Suc m" using json_ok_levels by blast
  show ?case
  proof (cases "xs = []")
    case False
    have val: "Value uni num m (dump_g p v @ r) = Inr (v, r)" if "v \<in> set xs" "delimited r" for v r
      using JArray.IH [OF that(1)] json_ok_item JArray.prems(1) that by (auto simp: n)
    have "json_ok (JArray xs) (Suc m)" using JArray.prems(1) by (simp only: n)
    then have first: "dump_g p v \<noteq> [] \<and> take 1 (Ws (dump_g p v)) \<notin> {[], '']''}" if "v \<in> set xs" for v
      using dump_head [OF json_ok_item [OF _ that], of m p] by auto
    show ?thesis
      using Value_array [where post = "[]" and render = "dump_g p", OF _ val False first]
      unfolding dump_array n by simp
  qed (use Value_empty [of "[]"] in \<open>simp add: n\<close>)
next
  case (JString s)
  then obtain m where n: "n = Suc m" using json_ok_levels by blast
  show ?case using Str_escaped [of s r] by (simp add: n JsonEscapeTo_def)
next
  case (JInt i)
  then obtain m where n: "n = Suc m" using json_ok_levels by blast
  with JInt show ?case by (simp add: Value_int del: Value.simps)
qed (use Lit_prefix [of "''null''"] Lit_prefix [of "''true''"] Lit_prefix [of "''false''"] in
  \<open>auto simp: gr0_conv_Suc is_ws_def\<close>)

lemma parse_dump:
  assumes "json_ok j n"
  shows "parse_text (Value uni num n) msg (dump_g p j) = Inr j"
  using Value_dump [OF assms, of "[]"] by (simp add: parse_text_def Ws_def)

end

lemma takeWhile_digits_delimited:
  assumes "list_all isdigit ds" and "delimited r"
  shows "takeWhile is_numchar (ds @ r) = ds \<and> dropWhile is_numchar (ds @ r) = r"
  using assms by (induction ds; cases r) (auto simp: is_numchar_digit)

lemma take_digits:
  assumes "list_all isdigit ds" and "delimited r"
  shows "takeWhile isdigit (ds @ r) = ds \<and> dropWhile isdigit (ds @ r) = r"
  using assms by (induction ds; cases r) (auto dest: is_numchar_digit)

lemma delimited_take1: "delimited r \<Longrightarrow> take 1 r \<notin> {''.'', ''e'', ''E''}"
  by (cases r) (auto simp: is_numchar_def)

lemma strtoll_to_string:
  assumes "in_int64 i"
  shows "strtoll (to_string i) = Some i"
proof (cases "i < 0")
  case True
  with assms show ?thesis by (simp add: strtoll_def to_string_def take_sign_def in_int64_def)
next
  case False
  have "take_sign (dec_nat (nat i)) = (False, dec_nat (nat i))"
    using list_all_isdigit_dec_nat [of "nat i"]
    by (cases "dec_nat (nat i)") (auto simp: take_sign_def dest: digit_not_sign)
  with assms False show ?thesis by (simp add: strtoll_def to_string_def in_int64_def)
qed

lemma digits_no_point: "list_all isdigit ds \<Longrightarrow> \<not> list_ex (\<lambda>c. c \<in> set ''.eE'') ds"
  by (induction ds) (auto simp: isdigit_def)

lemma status_Num_int:
  assumes i: "in_int64 i" and r: "delimited r"
  shows "status_Num (to_string i @ r) = Inr (JInt i, r)"
proof -
  let ?ds = "dec_nat (nat \<bar>i\<bar>)"
  have cut: "takeWhile is_numchar (?ds @ r) = ?ds" "dropWhile is_numchar (?ds @ r) = r"
    using takeWhile_digits_delimited [OF list_all_isdigit_dec_nat r] by auto
  obtain c cs where ds: "?ds = c # cs" by (cases ?ds) auto
  then have c: "isdigit c" using list_all_isdigit_dec_nat [of "nat \<bar>i\<bar>"] by simp
  have num: "make_number True (to_string i) r = Inr (JInt i, r)"
    by (simp add: make_number_def strtoll_to_string [OF i])
  show ?thesis
  proof (cases "i < 0")
    case True
    then have "to_string i = CHR ''-'' # ?ds" by (simp add: to_string_def)
    with num cut digits_no_point [OF list_all_isdigit_dec_nat] show ?thesis by (simp add: status_Num_def)
  next
    case False
    then have "to_string i = ?ds" by (simp add: to_string_def)
    moreover have "take 1 (?ds @ r) \<noteq> ''-''" "?ds \<noteq> ''-''" using ds c by (auto simp: isdigit_def)
    ultimately show ?thesis
      using num cut digits_no_point [OF list_all_isdigit_dec_nat] by (simp add: status_Num_def)
  qed
qed

interpretation status: json_dialect status_unicode status_Num
  by unfold_locales (simp_all add: status_unicode_def Utf8_def status_Num_int)

interpretation status_text: codec Dump "\<lambda>s. case Parse s of Inl _ \<Rightarrow> None | Inr j \<Rightarrow> Some j" "\<lambda>j. json_ok j (Suc max_depth)"
  by unfold_locales (simp add: Parse_def Dump_def status.parse_dump)

lemma Parse_Dump: "json_ok j (Suc max_depth) \<Longrightarrow> Parse (Dump j) = Inr j"
  using status_text.dec_enc [of j] by (simp split: sum.splits)

section \<open>The parser returns\<close>

text \<open>A reader that never runs out of turns and leaves at most \<open>n\<close> bytes unread.\<close>

definition leaves :: "nat \<Rightarrow> 'a parsed \<Rightarrow> bool" where
  "leaves n p \<longleftrightarrow> (case p of Inl (m, q) \<Rightarrow> m \<noteq> no_fuel | Inr (x, r) \<Rightarrow> length r \<le> n)"

lemma leaves_simps [simp]:
  "leaves n (Inl (m, q)) \<longleftrightarrow> m \<noteq> no_fuel" "leaves n (Inr (x, r)) \<longleftrightarrow> length r \<le> n"
  by (simp_all add: leaves_def)

lemma leaves_and_then:
  assumes "leaves n p" and "\<And>x r. p = Inr (x, r) \<Longrightarrow> length r \<le> n \<Longrightarrow> leaves m (f x r)"
  shows "leaves m (and_then p f)"
  using assms by (cases p) (auto split: prod.splits)

lemma leaves_mono: "leaves n p \<Longrightarrow> n \<le> m \<Longrightarrow> leaves m p"
  by (auto simp: leaves_def split: sum.splits)

lemma leaves_if: "leaves n p \<Longrightarrow> leaves n q \<Longrightarrow> leaves n (if b then p else q)"
  by simp

lemma messages [simp]:
  "''unterminated string'' \<noteq> no_fuel" "''control character in string'' \<noteq> no_fuel" "''bad escape'' \<noteq> no_fuel"
  "''expected string'' \<noteq> no_fuel" "''bad number'' \<noteq> no_fuel" "''bad literal'' \<noteq> no_fuel"
  "''nesting too deep'' \<noteq> no_fuel" "''unexpected end'' \<noteq> no_fuel" "bad_escape \<noteq> no_fuel"
  "''short '' @ s \<noteq> no_fuel" "''expected '' @ s \<noteq> no_fuel" "more_msg c \<noteq> no_fuel"
  by (simp_all add: no_fuel_def bad_escape_def more_msg_def)

lemma length_Ws: "length (Ws s) \<le> length s"
  by (simp add: Ws_def length_dropWhile_le)

lemma Ws_Cons: "Ws s = c # r \<Longrightarrow> length r < length s"
  using length_Ws [of s] by simp

lemma hex_loop_leaves: "leaves (length s) (hex_loop k v s)"
  by (induction k v s rule: hex_loop.induct) (auto simp: leaves_def split: sum.splits)

lemma Hex4_leaves: "leaves (length s) (Hex4 s)"
  using hex_loop_leaves [of s 4 0] by (simp add: Hex4_def no_fuel_def)

lemma expect_leaves: "leaves (length s) (expect c s)"
  by (auto simp: expect_def no_fuel_def split: list.splits dest: Ws_Cons)

lemma more_leaves: "leaves (length s) (more c s)"
  by (auto simp: more_def split: list.splits dest: Ws_Cons)

lemma more_consumes: "more c s = Inr (go, r) \<Longrightarrow> length r < length s"
  by (auto simp: more_def split: list.splits if_splits dest: Ws_Cons)

locale json_reader = json_dialect +
  assumes uni_fuel: "uni cp r = Inl (m, q) \<Longrightarrow> m \<noteq> no_fuel"
    and num_leaves: "leaves (length s) (num s)"
begin

lemma str_loop_leaves: "leaves (length s) (str_loop uni out s)"
proof (induction s arbitrary: out rule: length_induct)
  case (1 s)
  have rest: "leaves (length s) (str_loop uni o' t)" if "length t < length s" for o' t
    using 1 that by (fastforce simp: leaves_def split: sum.splits)
  show ?case
  proof (cases s)
    case (Cons c cs)
    show ?thesis
    proof (cases "c = backslash")
      case True
      show ?thesis
      proof (cases cs)
        case (Cons e r)
        have tail: "leaves (length s) (str_loop uni o' (drop n r1))" if "Hex4 r = Inr (cp, r1)" for cp r1 n o'
          using Hex4_rest [OF that] by (intro rest) (simp add: \<open>s = c # cs\<close> Cons)
        have "leaves (length s) (str_loop uni o' r)" for o'
          by (intro rest) (simp add: \<open>s = c # cs\<close> Cons)
        then show ?thesis
          using tail Hex4_leaves [of r] uni_fuel True
          by (auto simp: \<open>s = c # cs\<close> Cons simp del: simple_escape.simps split: option.splits sum.splits)
      qed (simp add: \<open>s = c # cs\<close> True)
    next
      case False
      then show ?thesis using rest [of cs] by (simp add: Cons)
    qed
  qed simp
qed

lemma Str_leaves: "leaves (length s) (Str uni s)"
proof (cases s)
  case (Cons c cs)
  then show ?thesis using leaves_mono [OF str_loop_leaves [of cs "[]"], of "length s"] by (simp add: Str_def)
qed (simp add: Str_def)

lemma obj_loop_leaves:
  assumes val: "\<And>t. leaves (length t) (val t)" and fuel: "length s < f"
  shows "leaves (length s) (obj_loop f (Str uni) val kvs s)"
  using fuel
proof (induction f arbitrary: kvs s)
  case (Suc f)
  have loop: "leaves (length s) (obj_loop f (Str uni) val kvs' t)" if "length t < length s" for kvs' t
    using Suc.IH [of t kvs'] Suc.prems that by (auto simp: leaves_def split: sum.splits)
  have key: "leaves (length s) (Str uni (Ws s))"
    using Str_leaves [of "Ws s"] length_Ws [of s] by (auto simp: leaves_def split: sum.splits)
  show ?case
    unfolding obj_loop.simps
  proof (rule leaves_and_then [OF key], rule leaves_and_then [OF expect_leaves], rule leaves_and_then [OF val],
      rule leaves_and_then [OF more_leaves])
    fix k r u r2 v r3 go r4
    assume "length r \<le> length s" "length r2 \<le> length r" "length r3 \<le> length r2"
      and more: "more (CHR ''}'') r3 = Inr (go, r4)"
    then have "length r4 < length s" using more_consumes [OF more] by simp
    then show "leaves (length s) (if go then obj_loop f (Str uni) val (set_member kvs k v) r4
        else Inr (JObject (set_member kvs k v), r4))"
      using loop by simp
  qed
qed simp

lemma arr_loop_leaves:
  assumes val: "\<And>t. leaves (length t) (val t)" and fuel: "length s < f"
  shows "leaves (length s) (arr_loop f val xs s)"
  using fuel
proof (induction f arbitrary: xs s)
  case (Suc f)
  have loop: "leaves (length s) (arr_loop f val xs' t)" if "length t < length s" for xs' t
    using Suc.IH [of t xs'] Suc.prems that by (auto simp: leaves_def split: sum.splits)
  show ?case
    unfolding arr_loop.simps
  proof (rule leaves_and_then [OF val], rule leaves_and_then [OF more_leaves])
    fix v r go r2
    assume "length r \<le> length s" and more: "more (CHR '']'') r = Inr (go, r2)"
    then have "length r2 < length s" using more_consumes [OF more] by simp
    then show "leaves (length s) (if go then arr_loop f val (xs @ [v]) r2 else Inr (JArray (xs @ [v]), r2))"
      using loop by simp
  qed
qed simp

lemma Value_leaves: "leaves (length s) (Value uni num n s)"
proof (induction n arbitrary: s)
  case (Suc n)
  show ?case
  proof (cases "Ws s")
    case (Cons c r)
    then have len: "length r < length s" by (rule Ws_Cons)
    have wr: "length (Ws r) \<le> length s" "length (Ws r) < Suc (length r)" using length_Ws [of r] len by auto
    have "leaves (length s) (obj_loop (Suc (length r)) (Str uni) (Value uni num n) [] (Ws r))"
      by (rule leaves_mono [OF obj_loop_leaves [OF Suc.IH wr(2)] wr(1)])
    moreover have "leaves (length s) (arr_loop (Suc (length r)) (Value uni num n) [] (Ws r))"
      by (rule leaves_mono [OF arr_loop_leaves [OF Suc.IH wr(2)] wr(1)])
    moreover have "leaves (length s) (and_then (Str uni (c # r)) (\<lambda>t r2. Inr (JString t, r2)))"
      using len by (intro leaves_and_then [OF Str_leaves]) simp
    moreover have "leaves (length s) (num (c # r))"
      using len by (intro leaves_mono [OF num_leaves]) simp
    moreover have "leaves (length s) (Lit w v (c # r))" for w v using len by (auto simp: Lit_def)
    moreover have "leaves (length s) (Inr (j, drop 1 (Ws r)))" for j :: json using wr by simp
    ultimately show ?thesis unfolding Value.simps Cons list.case by (intro leaves_if)
  qed simp
qed simp

text \<open>\<open>parse_text\<close> with a value reader of the dialect never reports that its loops ran out of turns.\<close>

lemma Value_has_fuel: "Value uni num n s \<noteq> Inl (no_fuel, r)"
  using Value_leaves [of s n] by (auto simp: leaves_def split: sum.splits)

end

lemma status_Num_leaves: "leaves (length s) (status_Num s)"
  using length_dropWhile_le [of is_numchar s] length_dropWhile_le [of is_numchar "drop 1 s"]
  by (auto simp: status_Num_def make_number_def Let_def split: option.splits prod.splits if_splits)

interpretation status_reader: json_reader status_unicode status_Num
proof unfold_locales
  fix cp r m q
  assume "status_unicode cp r = Inl (m, q)"
  then show "m \<noteq> no_fuel"
    using Hex4_leaves [of "drop 2 r"] by (auto simp: status_unicode_def split: if_splits sum.splits)
qed (rule status_Num_leaves)

text \<open>Printed JSON has no line break.\<close>

lemma quoted_byte_no_newline: "newline_char \<notin> set (quoted_byte c)"
proof -
  have "hex_digit n \<noteq> newline_char" for n
    using hex_digit_value [of n] by (auto simp: isxdigit_def isdigit_def)
  from this [symmetric] show ?thesis by (auto simp: quoted_byte_def)
qed

lemma JsonEscapeTo_no_newline: "newline_char \<notin> set (JsonEscapeTo s)"
  using quoted_byte_no_newline by (auto simp: JsonEscapeTo_def)

lemma set_join_by: "set (join_by d xs) \<subseteq> insert d (\<Union>x \<in> set xs. set x)"
  by (induction d xs rule: join_by.induct) auto

lemma to_string_no_newline: "newline_char \<notin> set (to_string i)"
  using list_all_isdigit_dec_nat [of "nat i"] list_all_isdigit_dec_nat [of "nat (- i)"]
  by (auto simp: to_string_def list_all_iff isdigit_def)

lemma dump_no_newline: "json_ok j n \<Longrightarrow> newline_char \<notin> set (dump_g q j)"
proof (induction j arbitrary: n)
  case (JObject kvs)
  have "newline_char \<notin> set (dump_g q v)" if "(k, v) \<in> set kvs" for k v
    using JObject.IH [OF that, of v "n - 1"] JObject.prems that by (auto simp: list_all_iff)
  then have "newline_char \<notin> (\<Union>x \<in> set (map (\<lambda>(k, v). [] @ JsonEscapeTo k @ CHR '':'' # dump_g q v) kvs). set x)"
    using JsonEscapeTo_no_newline by auto
  then show ?case
    using set_join_by [of "CHR '',''" "map (\<lambda>(k, v). [] @ JsonEscapeTo k @ CHR '':'' # dump_g q v) kvs"]
    unfolding dump_object by auto
next
  case (JArray xs)
  have "newline_char \<notin> set (dump_g q v)" if "v \<in> set xs" for v
    using JArray.IH [OF that, of "n - 1"] JArray.prems that by (auto simp: list_all_iff)
  then show ?case using set_join_by [of "CHR '',''" "map (dump_g q) xs"] by auto
qed (simp_all add: JsonEscapeTo_no_newline to_string_no_newline)

section \<open>Properties\<close>

text \<open>
  Parsing the text that \<open>Dump\<close> wrote gives the value back, for every value of at most 65 levels
  whose integers fit 64 bits and whose objects have no key twice; strings may hold any bytes.
\<close>

theorem json_text_roundtrip:
  assumes "json_ok j (Suc max_depth)"
  shows "Parse (Dump j) = Inr j"
  by (rule Parse_Dump [OF assms])

lemma json_text_roundtrip_witness:
  "Parse (Dump (JObject [(''a'', JArray [JInt (- 7), JNull, JBool True]), ([quote_char, CHR 0x01], JString [backslash])]))
   = Inr (JObject [(''a'', JArray [JInt (- 7), JNull, JBool True]), ([quote_char, CHR 0x01], JString [backslash])])"
  by (rule json_text_roundtrip) (simp add: max_depth_def in_int64_def)

text \<open>
  C40: The loops of the parser never run out of the turns they are given, on any text: what the model
  returns is the value or the error of the source, at every nesting limit.
\<close>

theorem Parse_has_fuel: "Value status_unicode status_Num n s \<noteq> Inl (no_fuel, r)"
  by (rule status_reader.Value_has_fuel)

text \<open>
  A high surrogate followed by an escape that is no low surrogate: the second escape is consumed and
  its character is lost, and the text is accepted.
\<close>

lemma escape_after_surrogate_lost:
  "Parse ([quote_char, backslash] @ ''ud800'' @ [backslash] @ ''u0041'' @ [quote_char]) = Inr (JString (Utf8 0xD800))"
proof -
  have hex: "Hex4 (''d800'' @ r) = Inr (0xD800, r)" "Hex4 (''0041'' @ r) = Inr (0x41, r)" for r
    by (simp_all add: Hex4_digits isxdigit_def isdigit_def digit_value_def tolower_def isupper_def)
  show ?thesis
    using hex [of "[backslash] @ ''u0041'' @ [quote_char]"] hex [of "[quote_char]"]
    by (simp add: Parse_def parse_text_def Str_def status_unicode_def starts_escape_def simple_escape_u
        del: simple_escape.simps) (simp add: Ws_def)
qed

lemma decimal_exponent_eq:
  assumes e: "10 powi e \<le> a" "a < 10 powi (e + 1)" and range: "- 324 \<le> e" "e \<le> 308"
  shows "decimal_exponent a = e"
proof -
  have "[- 324..308] = [- 324..e - 1] @ e # [e + 1..308]" using range by (intro upto_split3) auto
  then have split: "rev [- 324..308] = rev [e + 1..308] @ e # rev [- 324..e - 1]" by simp
  have above: "\<not> 10 powi k \<le> a" if "k \<in> set (rev [e + 1..308])" for k
  proof -
    have "(10 :: real) powi (e + 1) \<le> 10 powi k" using that by (intro power_int_increasing) auto
    with e show ?thesis by linarith
  qed
  have "find P (ys @ x # zs) = Some x" if "\<forall>y \<in> set ys. \<not> P y" "P x" for P ys zs and x :: int
    using that by (induction ys) auto
  with above e show ?thesis unfolding decimal_exponent_def split by simp
qed

text \<open>A double without a fraction is printed as an integer and read back as one.\<close>

lemma digit_chars: "char_of (48 :: nat) = CHR ''0''" "char_of (51 :: nat) = CHR ''3''"
  by code_simp+

lemma dec_nat_times10: "0 < m \<Longrightarrow> dec_nat (10 * m) = dec_nat m @ [CHR ''0'']"
  by (subst dec_nat.simps) (simp add: digit_chars)

lemma format_g_three: "0 < p \<Longrightarrow> format_g p 3 = ''3''"
proof -
  assume p: "0 < p"
  have e: "decimal_exponent 3 = 0" by (rule decimal_exponent_eq) simp_all
  obtain q where q: "p = Suc q" using p by (cases p) auto
  have m: "round_even (3 * 10 ^ q) = 3 * 10 ^ q"
    using round_even_of_int [of "3 * 10 ^ q"] by simp
  have digits: "dec_nat (3 * 10 ^ n) = CHR ''3'' # replicate n (CHR ''0'')" for n
  proof (induction n)
    case (Suc n)
    have "dec_nat (3 * 10 ^ Suc n) = dec_nat (10 * (3 * 10 ^ n))" by (simp add: mult.left_commute)
    also have "\<dots> = dec_nat (3 * 10 ^ n) @ [CHR ''0'']" by (rule dec_nat_times10) simp
    finally show ?case using Suc by (simp add: replicate_append_same)
  qed (simp add: dec_nat.simps digit_chars)
  have nm: "nat (3 * 10 ^ q) = 3 * 10 ^ q" by (simp add: nat_mult_distrib nat_power_eq)
  have strip: "strip_zeros (replicate n (CHR ''0'')) = []" for n by (simp add: strip_zeros_def)
  show ?thesis by (simp add: format_g_def e m nm digits with_fraction_def strip q)
qed

end
