(* ===== verification/Fleet_Json.thy ===== *)
theory Fleet_Json
  imports Json
begin

text \<open>
  The JSON of the fleet link (plugins/fleet/fleet_json.h and fleet_json.cpp): the second dialect of
  \<open>Json\<close>, with a strict number grammar, replacement characters for lone surrogates, 17 digits for
  doubles and a nesting limit that the caller chooses. The file says that payloads round-trip
  unchanged; the interpretations at the end show for which values they do.
\<close>

section \<open>Access\<close>

definition Get :: "json \<Rightarrow> string \<Rightarrow> json option" where
  "Get v key = map_of (Members v) key"

definition Set_key :: "json \<Rightarrow> string \<Rightarrow> json \<Rightarrow> json" where
  "Set_key v key x = JObject (set_member (Members v) key x)"

definition Push_item :: "json \<Rightarrow> json \<Rightarrow> json" where
  "Push_item v x = JArray (Items v @ [x])"

fun num_or :: "int \<Rightarrow> json \<Rightarrow> int" where
  "num_or dflt (JInt i) = i"
| "num_or dflt (JDouble d) = (if 0 \<le> d then \<lfloor>d\<rfloor> else \<lceil>d\<rceil>)"
| "num_or dflt _ = dflt"

fun AsNum :: "real \<Rightarrow> json \<Rightarrow> real" where
  "AsNum dflt (JDouble d) = d"
| "AsNum dflt (JInt i) = of_int i"
| "AsNum dflt _ = dflt"

fun AsStr :: "string \<Rightarrow> json \<Rightarrow> string" where
  "AsStr dflt (JString s) = s"
| "AsStr dflt _ = dflt"

fun bool_or :: "bool \<Rightarrow> json \<Rightarrow> bool" where
  "bool_or dflt (JBool b) = b"
| "bool_or dflt _ = dflt"

fun IsStr :: "json \<Rightarrow> bool" where
  "IsStr (JString s) = True"
| "IsStr _ = False"

fun IsNum :: "json \<Rightarrow> bool" where
  "IsNum (JInt i) = True"
| "IsNum (JDouble d) = True"
| "IsNum _ = False"

section \<open>Text\<close>

definition AppendQuoted :: "string \<Rightarrow> string" where
  "AppendQuoted s = [quote_char] @ concat (map quoted_byte s) @ [quote_char]"

definition fleet_Dump :: "json \<Rightarrow> string" where
  "fleet_Dump v = dump_g 17 v"

text \<open>
  A high surrogate takes the escape behind it: with a low one it is a pair, otherwise the replacement
  character and then the second code point; without an escape behind it, and for a lone low
  surrogate, the replacement character.
\<close>

definition fleet_unicode :: unicode_reader where
  "fleet_unicode cp r =
     (if 0xD800 \<le> cp \<and> cp \<le> 0xDBFF then
        (if starts_escape r
         then case Hex4 (drop 2 r) of
                Inl e \<Rightarrow> Inl e
              | Inr (lo, r') \<Rightarrow>
                  if 0xDC00 \<le> lo \<and> lo \<le> 0xDFFF then Inr (Utf8 (surrogate_pair cp lo), 6)
                  else Inr (Utf8 0xFFFD @ Utf8 lo, 6)
         else Inr (Utf8 0xFFFD, 0))
      else if 0xDC00 \<le> cp \<and> cp \<le> 0xDFFF then Inr (Utf8 0xFFFD, 0)
      else Inr (Utf8 cp, 0))"

text \<open>One run of digits after an optional marker; None when the marker is there and no digit is.\<close>

definition digits_after :: "nat \<Rightarrow> string \<Rightarrow> (string \<times> string) option" where
  "digits_after n s =
     (let ds = takeWhile isdigit (drop n s)
      in if ds = [] then None else Some (take n s @ ds, dropWhile isdigit (drop n s)))"

definition fraction_part :: "string \<Rightarrow> (string \<times> string) option" where
  "fraction_part s = (if take 1 s = ''.'' then digits_after 1 s else Some ([], s))"

definition exponent_part :: "string \<Rightarrow> (string \<times> string) option" where
  "exponent_part s =
     (if take 1 s \<in> {''e'', ''E''}
      then digits_after (if take 1 (drop 1 s) \<in> {''+'', ''-''} then 2 else 1) s
      else Some ([], s))"

definition fleet_Num :: "string \<Rightarrow> json parsed" where
  "fleet_Num s =
     (case digits_after (if take 1 s = ''-'' then 1 else 0) s of
        None \<Rightarrow> Inl (''bad number'', if take 1 s = ''-'' then drop 1 s else s)
      | Some (ip, r1) \<Rightarrow>
          (case fraction_part r1 of
             None \<Rightarrow> Inl (''bad number'', drop 1 r1)
           | Some (fp, r2) \<Rightarrow>
               (case exponent_part r2 of
                  None \<Rightarrow> Inl (''bad number'', drop (if take 1 (drop 1 r2) \<in> {''+'', ''-''} then 2 else 1) r2)
                | Some (ep, r3) \<Rightarrow> make_number (fp = [] \<and> ep = []) (ip @ fp @ ep) r3)))"

text \<open>The control flow of \<open>Val\<close> and \<open>Str\<close> is that of \<open>Json\<close>; the first argument is the number of levels left.\<close>

definition Val :: "nat \<Rightarrow> string \<Rightarrow> json parsed" where
  "Val levels s = Value fleet_unicode fleet_Num levels s"

definition fleet_Parse :: "nat \<Rightarrow> string \<Rightarrow> string + json" where
  "fleet_Parse maxDepth s = parse_text (Val (Suc maxDepth)) ''trailing data'' s"

section \<open>The dialect\<close>

lemma delimited_parts: "delimited r \<Longrightarrow> fraction_part r = Some ([], r) \<and> exponent_part r = Some ([], r)"
  using delimited_take1 [of r] by (simp add: fraction_part_def exponent_part_def)

lemma digits_after_int:
  assumes "delimited r"
  shows "digits_after (if take 1 (to_string i @ r) = ''-'' then 1 else 0) (to_string i @ r) = Some (to_string i, r)"
proof -
  let ?ds = "dec_nat (nat \<bar>i\<bar>)"
  note cut = take_digits [OF list_all_isdigit_dec_nat [of "nat \<bar>i\<bar>"] assms]
  obtain c cs where ds: "?ds = c # cs" by (cases ?ds) auto
  then have c: "isdigit c" using list_all_isdigit_dec_nat [of "nat \<bar>i\<bar>"] by simp
  show ?thesis
  proof (cases "i < 0")
    case True
    with cut show ?thesis by (simp add: to_string_def digits_after_def)
  next
    case False
    then have s: "to_string i = ?ds" by (simp add: to_string_def)
    have "take 1 (?ds @ r) \<noteq> ''-''" using ds c by (auto simp: isdigit_def)
    with cut show ?thesis by (simp add: s digits_after_def)
  qed
qed

lemma fleet_Num_int: "in_int64 i \<Longrightarrow> delimited r \<Longrightarrow> fleet_Num (to_string i @ r) = Inr (JInt i, r)"
  unfolding fleet_Num_def digits_after_int
  by (simp add: delimited_parts make_number_def strtoll_to_string)

lemma digits_after_rest: "digits_after n s = Some (t, r) \<Longrightarrow> length r \<le> length s"
  using length_dropWhile_le [of isdigit "drop n s"] by (auto simp: digits_after_def Let_def split: if_splits)

lemma part_rest:
  "fraction_part s = Some (t, r) \<Longrightarrow> length r \<le> length s"
  "exponent_part s = Some (t, r) \<Longrightarrow> length r \<le> length s"
  by (auto simp: fraction_part_def exponent_part_def split: if_splits dest: digits_after_rest)

lemma make_number_leaves: "length r \<le> n \<Longrightarrow> leaves n (make_number b t r)"
  by (auto simp: make_number_def split: option.splits prod.splits)

lemma fleet_Num_leaves: "leaves (length s) (fleet_Num s)"
proof -
  have "length r3 \<le> length s"
    if "digits_after n s = Some (ip, r1)" "fraction_part r1 = Some (fp, r2)" "exponent_part r2 = Some (ep, r3)"
    for n ip r1 fp r2 ep r3
    using digits_after_rest [OF that(1)] part_rest(1) [OF that(2)] part_rest(2) [OF that(3)] by linarith
  then show ?thesis
    unfolding fleet_Num_def by (auto split: option.splits intro!: make_number_leaves)
qed

interpretation fleet: json_reader fleet_unicode fleet_Num
proof unfold_locales
  fix cp r m q
  assume "fleet_unicode cp r = Inl (m, q)"
  then show "m \<noteq> no_fuel"
    using Hex4_leaves [of "drop 2 r"] by (auto simp: fleet_unicode_def split: if_splits sum.splits)
next
  fix cp :: nat and r :: string
  assume "cp < 128"
  then show "fleet_unicode cp r = Inr ([char_of cp], 0)" by (simp add: fleet_unicode_def Utf8_def)
qed (simp_all add: fleet_Num_int fleet_Num_leaves)

lemma Val_eq: "Val levels = Value fleet_unicode fleet_Num levels"
  by (simp add: fun_eq_iff Val_def)

interpretation fleet_text: codec fleet_Dump "\<lambda>s. case fleet_Parse d s of Inl _ \<Rightarrow> None | Inr j \<Rightarrow> Some j" "\<lambda>j. json_ok j (Suc d)" for d
  by unfold_locales (simp add: fleet_Parse_def Val_eq fleet_Dump_def fleet.parse_dump)

lemma fleet_Parse_Dump: "json_ok j (Suc d) \<Longrightarrow> fleet_Parse d (fleet_Dump j) = Inr j"
  by (simp add: fleet_Parse_def Val_eq fleet_Dump_def fleet.parse_dump)

text \<open>The keys of the messages need no escapes.\<close>

lemma plain_keys:
  "JsonEscapeTo ''v'' = [quote_char] @ ''v'' @ [quote_char]"
  "JsonEscapeTo ''ack'' = [quote_char] @ ''ack'' @ [quote_char]"
  "JsonEscapeTo ''seq'' = [quote_char] @ ''seq'' @ [quote_char]"
  "JsonEscapeTo ''type'' = [quote_char] @ ''type'' @ [quote_char]"
  "JsonEscapeTo ''id'' = [quote_char] @ ''id'' @ [quote_char]"
  "JsonEscapeTo ''ref'' = [quote_char] @ ''ref'' @ [quote_char]"
  "JsonEscapeTo ''ts'' = [quote_char] @ ''ts'' @ [quote_char]"
  "JsonEscapeTo ''epoch'' = [quote_char] @ ''epoch'' @ [quote_char]"
  "JsonEscapeTo ''crit'' = [quote_char] @ ''crit'' @ [quote_char]"
  "JsonEscapeTo ''payload'' = [quote_char] @ ''payload'' @ [quote_char]"
  by code_simp+

lemma AppendQuoted_eq: "AppendQuoted s = JsonEscapeTo s"
  by (simp add: AppendQuoted_def JsonEscapeTo_def)

text \<open>
  Payloads round-trip: text that \<open>Dump\<close> wrote is parsed to the same value at every nesting limit
  that admits it, and printing that again gives the same text.
\<close>

theorem payload_roundtrip:
  assumes "json_ok j (Suc maxDepth)"
  shows "fleet_Parse maxDepth (fleet_Dump j) = Inr j"
  by (rule fleet_Parse_Dump [OF assms])

lemma payload_roundtrip_witness:
  "fleet_Parse 2 (fleet_Dump (JObject [(''seq'', JInt 41), (''events'', JArray [JString ''round_end'', JNull])]))
   = Inr (JObject [(''seq'', JInt 41), (''events'', JArray [JString ''round_end'', JNull])])"
  by (rule payload_roundtrip) (simp add: in_int64_def)

text \<open>A double without a fraction does not: it comes back as an integer.\<close>

lemma whole_double_changes_type: "fleet_Parse 64 (fleet_Dump (JDouble 3)) = Inr (JInt 3)"
proof -
  have "fleet_Dump (JDouble 3) = fleet_Dump (JInt 3)"
    by (simp add: fleet_Dump_def format_g_three to_string_def dec_nat.simps digit_chars)
  then show ?thesis by (simp add: fleet_Parse_Dump in_int64_def)
qed

text \<open>Two high surrogates in a row: the second one is written to the string as it is, which is not UTF-8.\<close>

lemma second_surrogate_kept:
  "fleet_unicode 0xD800 ([backslash] @ ''ud800'') = Inr (Utf8 0xFFFD @ Utf8 0xD800, 6)"
  by (simp add: fleet_unicode_def starts_escape_def Hex4_digits isxdigit_def isdigit_def digit_value_def
      tolower_def isupper_def)

end
