(* ===== verification/Fleet_Spool.thy ===== *)
theory Fleet_Spool
  imports Fleet_Json
begin

text \<open>
  The outbound message spool of the fleet link (plugins/fleet/fleet_spool.h and fleet_spool.cpp): the
  queue of messages the platform has not acknowledged, with its two files. The disk is a record with
  the parsed content of meta.json and of the lines of stream.log (a line that does not parse is
  \<open>None\<close>); every file operation succeeds and each file is replaced as a whole. \<open>NewUlid\<close> is an
  argument. That a written line reads back as its record, and meta.json as its content, is shown in
  \<open>Spool_Files\<close>.
\<close>

section \<open>Records\<close>

record SpoolRecord =
  rc_seq :: int
  rc_type :: string
  rc_id :: string
  rc_ref :: string
  rc_ts :: int
  rc_epoch :: int
  rc_critical :: bool
  rc_payload :: string

definition Bytes :: "SpoolRecord \<Rightarrow> int" where
  "Bytes r = int (length (rc_payload r) + length (rc_type r) + length (rc_id r) + length (rc_ref r) + 96)"

text \<open>A key of the record's line: \<open>"key":\<close>.\<close>

definition json_key :: "string \<Rightarrow> string" where
  "json_key k = [quote_char] @ k @ [quote_char] @ '':''"

definition RecordLine :: "SpoolRecord \<Rightarrow> string" where
  "RecordLine r =
     ''{'' @ json_key ''seq'' @ to_string (rc_seq r)
       @ '','' @ json_key ''type'' @ AppendQuoted (rc_type r)
       @ '','' @ json_key ''id'' @ AppendQuoted (rc_id r)
       @ (if rc_ref r \<noteq> [] then '','' @ json_key ''ref'' @ AppendQuoted (rc_ref r) else [])
       @ '','' @ json_key ''ts'' @ to_string (rc_ts r)
       @ '','' @ json_key ''epoch'' @ to_string (rc_epoch r)
       @ '','' @ json_key ''crit'' @ (if rc_critical r then ''true'' else ''false'')
       @ '','' @ json_key ''payload'' @ rc_payload r @ ''}'' @ [newline_char]"

definition line_bytes :: "SpoolRecord \<Rightarrow> int" where
  "line_bytes r = int (length (RecordLine r))"

text \<open>\<open>IsCriticalType\<close> of fleet_proto.cpp.\<close>

definition IsCriticalType :: "string \<Rightarrow> bool" where
  "IsCriticalType t \<longleftrightarrow>
     t \<in> {''event.round_end'', ''event.backup'', ''event.map_result'', ''event.series_end'',
          ''event.demo'', ''cmd.result'', ''skins.stattrak'', ''auth.rotated'',
          ''event.rounds_voided'', ''event.match_restored'', ''event.forfeit''}"

section \<open>The spool and its files\<close>

record SpoolMeta =
  mt_stream :: string
  mt_next :: int
  mt_acked :: int
  mt_rx :: int
  mt_gap :: bool

record Disk =
  dk_meta :: "SpoolMeta option"
  dk_log :: "SpoolRecord option list"

record Spool =
  sp_maxMsgs :: int
  sp_maxBytes :: int
  sp_recs :: "SpoolRecord list"
  sp_bytes :: int
  sp_dropped :: int
  sp_streamId :: string
  sp_nextSeq :: int
  sp_ackedSeq :: int
  sp_rxSeq :: int
  sp_gap :: bool
  sp_metaDirty :: bool
  sp_logBytes :: int
  sp_lastFlushMs :: int

type_synonym world = "Spool \<times> Disk"

definition lastSeq :: "Spool \<Rightarrow> int" where
  "lastSeq s = sp_nextSeq s - 1"

definition FlushMeta :: "world \<Rightarrow> world" where
  "FlushMeta = (\<lambda>(s, d).
     (s\<lparr>sp_metaDirty := False\<rparr>,
      d\<lparr>dk_meta := Some \<lparr>mt_stream = sp_streamId s, mt_next = sp_nextSeq s, mt_acked = sp_ackedSeq s,
                        mt_rx = sp_rxSeq s, mt_gap = sp_gap s\<rparr>\<rparr>))"

definition MaybeFlush :: "int \<Rightarrow> world \<Rightarrow> world" where
  "MaybeFlush nowMs = (\<lambda>(s, d).
     if \<not> sp_metaDirty s \<or> nowMs - sp_lastFlushMs s < 1000 then (s, d)
     else FlushMeta (s\<lparr>sp_lastFlushMs := nowMs\<rparr>, d))"

definition Rewrite :: "world \<Rightarrow> world" where
  "Rewrite = (\<lambda>(s, d).
     (s\<lparr>sp_logBytes := sum_list (map line_bytes (sp_recs s))\<rparr>, d\<lparr>dk_log := map Some (sp_recs s)\<rparr>))"

definition AppendLine :: "SpoolRecord \<Rightarrow> world \<Rightarrow> world" where
  "AppendLine r = (\<lambda>(s, d).
     (s\<lparr>sp_logBytes := sp_logBytes s + line_bytes r\<rparr>, d\<lparr>dk_log := dk_log d @ [Some r]\<rparr>))"

text \<open>The first record that is not critical is erased; \<open>None\<close> when all are critical.\<close>

fun erase_compactable :: "SpoolRecord list \<Rightarrow> (SpoolRecord \<times> SpoolRecord list) option" where
  "erase_compactable [] = None"
| "erase_compactable (r # rs) =
     (if \<not> rc_critical r then Some (r, rs)
      else map_option (\<lambda>(x, xs). (x, r # xs)) (erase_compactable rs))"

definition DropOneCompactable :: "Spool \<Rightarrow> Spool option" where
  "DropOneCompactable s =
     (case erase_compactable (sp_recs s) of
        None \<Rightarrow> None
      | Some (r, rs) \<Rightarrow>
          Some (s\<lparr>sp_bytes := sp_bytes s - Bytes r, sp_recs := rs, sp_dropped := sp_dropped s + 1,
                  sp_gap := True, sp_metaDirty := True\<rparr>))"

lemma erase_compactable_length: "erase_compactable rs = Some (r, xs) \<Longrightarrow> length rs = Suc (length xs)"
  by (induction rs arbitrary: r xs) (auto split: if_splits)

text \<open>\<open>while (cond && DropOneCompactable())\<close>.\<close>

function drop_while_full :: "(Spool \<Rightarrow> bool) \<Rightarrow> Spool \<Rightarrow> Spool" where
  "drop_while_full cond s =
     (if cond s then (case DropOneCompactable s of None \<Rightarrow> s | Some t \<Rightarrow> drop_while_full cond t) else s)"
  by auto
termination
  by (relation "measure (\<lambda>(_, s). length (sp_recs s))")
    (auto simp: DropOneCompactable_def erase_compactable_length split: option.splits)

declare drop_while_full.simps [simp del]

definition over :: "real \<Rightarrow> int \<Rightarrow> Spool \<Rightarrow> bool" where
  "over f add s \<longleftrightarrow>
     real (length (sp_recs s) + 1) > real_of_int (sp_maxMsgs s) * f \<or>
     real_of_int (sp_bytes s + add) > real_of_int (sp_maxBytes s) * f"

definition nearly_full :: "Spool \<Rightarrow> bool" where
  "nearly_full s \<longleftrightarrow>
     real (length (sp_recs s)) > real_of_int (sp_maxMsgs s) * (9 / 10) \<or>
     real_of_int (sp_bytes s) > real_of_int (sp_maxBytes s) * (9 / 10)"

text \<open>
  The two loops of \<open>Append\<close> that make room. \<open>droppedAny\<close> is that the queue got shorter.
\<close>

definition make_room :: "int \<Rightarrow> Spool \<Rightarrow> Spool" where
  "make_room add s0 =
     (let s1 = drop_while_full (over 1 add) s0
      in if length (sp_recs s1) < length (sp_recs s0) then drop_while_full nearly_full s1 else s1)"

definition new_record :: "string \<Rightarrow> string \<Rightarrow> string \<Rightarrow> int \<Rightarrow> int \<Rightarrow> string \<Rightarrow> int \<Rightarrow> SpoolRecord" where
  "new_record ty ident ref ts epoch payloadJson seq =
     \<lparr>rc_seq = seq, rc_type = ty, rc_id = ident, rc_ref = ref, rc_ts = ts, rc_epoch = epoch,
      rc_critical = IsCriticalType ty, rc_payload = (if payloadJson = [] then ''{}'' else payloadJson)\<rparr>"

definition refuse :: "Spool \<Rightarrow> Spool" where
  "refuse s = s\<lparr>sp_gap := True, sp_metaDirty := True, sp_dropped := sp_dropped s + 1\<rparr>"

definition enqueue :: "SpoolRecord \<Rightarrow> Spool \<Rightarrow> Spool" where
  "enqueue r s =
     s\<lparr>sp_nextSeq := sp_nextSeq s + 1, sp_metaDirty := True, sp_bytes := sp_bytes s + Bytes r, sp_recs := sp_recs s @ [r]\<rparr>"

text \<open>The sequence number the message got, 0 when it was refused.\<close>

definition Append :: "string \<Rightarrow> string \<Rightarrow> string \<Rightarrow> int \<Rightarrow> int \<Rightarrow> string \<Rightarrow> world \<Rightarrow> int \<times> world" where
  "Append ty ident ref ts epoch payloadJson = (\<lambda>(s0, d).
     let add = Bytes (new_record ty ident ref ts epoch payloadJson 0);
         s2 = make_room add s0;
         droppedAny = (length (sp_recs s2) < length (sp_recs s0));
         r = new_record ty ident ref ts epoch payloadJson (sp_nextSeq s2)
     in if over 1 add s2 \<and> (\<not> rc_critical r \<or> over 2 add s2)
        then (0, if droppedAny then Rewrite (refuse s2, d) else (refuse s2, d))
        else (rc_seq r, if droppedAny then Rewrite (enqueue r s2, d) else AppendLine r (enqueue r s2, d)))"

definition drop_acked :: "Spool \<Rightarrow> Spool" where
  "drop_acked s =
     (let gone = takeWhile (\<lambda>r. rc_seq r \<le> sp_ackedSeq s) (sp_recs s)
      in s\<lparr>sp_bytes := sp_bytes s - sum_list (map Bytes gone),
           sp_recs := dropWhile (\<lambda>r. rc_seq r \<le> sp_ackedSeq s) (sp_recs s)\<rparr>)"

definition AckUpTo :: "int \<Rightarrow> world \<Rightarrow> world" where
  "AckUpTo seq = (\<lambda>(s, d).
     if seq \<le> sp_ackedSeq s then (s, d)
     else
       (let s1 = drop_acked (s\<lparr>sp_ackedSeq := min seq (lastSeq s), sp_metaDirty := True\<rparr>)
        in if (sp_recs s1 = [] \<and> sp_logBytes s1 > 65536) \<or>
              (sp_logBytes s1 > 1048576 \<and> sp_logBytes s1 > 2 * sp_bytes s1 + 1048576)
           then Rewrite (FlushMeta (s1, d)) else (s1, d)))"

fun renumber :: "int \<Rightarrow> SpoolRecord list \<Rightarrow> SpoolRecord list" where
  "renumber n [] = []"
| "renumber n (r # rs) = r\<lparr>rc_seq := n + 1\<rparr> # renumber (n + 1) rs"

definition RotateIfGap :: "string \<Rightarrow> world \<Rightarrow> bool \<times> world" where
  "RotateIfGap newUlid = (\<lambda>(s, d).
     if \<not> sp_gap s then (False, (s, d))
     else
       (let recs = renumber 0 (sp_recs s);
            s1 = s\<lparr>sp_streamId := newUlid, sp_recs := recs, sp_nextSeq := int (length recs) + 1, sp_ackedSeq := 0,
                   sp_gap := False, sp_metaDirty := True\<rparr>
        in (True, Rewrite (FlushMeta (s1, d)))))"

definition SetRxSeq :: "int \<Rightarrow> world \<Rightarrow> world" where
  "SetRxSeq seq = (\<lambda>(s, d). if seq = sp_rxSeq s then (s, d) else (s\<lparr>sp_rxSeq := seq, sp_metaDirty := True\<rparr>, d))"

text \<open>
  \<open>LoadLog\<close>: the records that are readable, in order and typed, and whether any line was skipped.
\<close>

fun load_lines :: "int \<Rightarrow> SpoolRecord option list \<Rightarrow> SpoolRecord list \<times> bool" where
  "load_lines prev [] = ([], False)"
| "load_lines prev (None # ls) = (let (rs, bad) = load_lines prev ls in (rs, True))"
| "load_lines prev (Some r # ls) =
     (if rc_seq r \<le> prev \<or> rc_type r = [] then (let (rs, bad) = load_lines prev ls in (rs, True))
      else (let (rs, bad) = load_lines (rc_seq r) ls in (r # rs, bad)))"

definition meta_ok :: "SpoolMeta option \<Rightarrow> bool" where
  "meta_ok m = (case m of None \<Rightarrow> False | Some mt \<Rightarrow> mt_stream mt \<noteq> [])"

definition Open :: "int \<Rightarrow> int \<Rightarrow> string \<Rightarrow> Disk \<Rightarrow> world" where
  "Open maxMsgs maxBytes newUlid d =
     (let (recs, bad) = load_lines 0 (dk_log d);
          nextOf = (if recs = [] then 1 else rc_seq (last recs) + 1);
          s0 = \<lparr>sp_maxMsgs = maxMsgs, sp_maxBytes = maxBytes, sp_recs = recs,
                sp_bytes = sum_list (map Bytes recs), sp_dropped = 0, sp_streamId = newUlid, sp_nextSeq = nextOf,
                sp_ackedSeq = 0, sp_rxSeq = 0, sp_gap = recs \<noteq> [], sp_metaDirty = True, sp_logBytes = 0,
                sp_lastFlushMs = 0\<rparr>;
          s1 = (case dk_meta d of
                  None \<Rightarrow> s0
                | Some m \<Rightarrow>
                    if \<not> meta_ok (Some m) then s0
                    else s0\<lparr>sp_streamId := mt_stream m, sp_nextSeq := max 1 (mt_next m), sp_ackedSeq := max 0 (mt_acked m),
                            sp_rxSeq := max 0 (mt_rx m), sp_gap := (mt_gap m \<or> bad)\<rparr>);
          s2 = drop_acked s1;
          s3 = (if sp_recs s2 \<noteq> [] \<and> rc_seq (last (sp_recs s2)) \<ge> sp_nextSeq s2
                then s2\<lparr>sp_nextSeq := rc_seq (last (sp_recs s2)) + 1\<rparr> else s2)
      in FlushMeta (Rewrite (s3, d)))"

section \<open>Well-formed spools\<close>

text \<open>
  The counters of a spool agree with its records: numbers rise strictly inside \<open>(acked, next)\<close> and
  \<open>bytes_\<close> is their size.
\<close>

definition spool_wf :: "Spool \<Rightarrow> bool" where
  "spool_wf s \<longleftrightarrow>
     0 \<le> sp_ackedSeq s \<and> sp_ackedSeq s < sp_nextSeq s \<and> sp_streamId s \<noteq> [] \<and>
     sp_bytes s = sum_list (map Bytes (sp_recs s)) \<and>
     sorted_wrt (<) (map rc_seq (sp_recs s)) \<and>
     (\<forall>r \<in> set (sp_recs s). sp_ackedSeq s < rc_seq r \<and> rc_seq r < sp_nextSeq s)"

lemma Bytes_pos: "0 < Bytes r"
  by (simp add: Bytes_def)

lemma sum_Bytes_nonneg: "0 \<le> sum_list (map Bytes rs)"
  by (rule sum_list_nonneg) (auto intro: less_imp_le Bytes_pos)

lemma erase_compactable_spec:
  assumes "erase_compactable rs = Some (r, xs)"
  shows "\<exists>us vs. rs = us @ r # vs \<and> xs = us @ vs \<and> \<not> rc_critical r"
  using assms
proof (induction rs arbitrary: r xs)
  case (Cons a rs)
  show ?case
  proof (cases "rc_critical a")
    case True
    then obtain ys where "erase_compactable rs = Some (r, ys)" "xs = a # ys"
      using Cons.prems by auto
    then show ?thesis using Cons.IH by (metis append_Cons)
  qed (use Cons.prems in auto)
qed simp

lemma DropOne_wf:
  assumes "spool_wf s" "DropOneCompactable s = Some t"
  shows "spool_wf t"
proof -
  obtain r xs where e: "erase_compactable (sp_recs s) = Some (r, xs)"
    and t: "t = s\<lparr>sp_bytes := sp_bytes s - Bytes r, sp_recs := xs, sp_dropped := sp_dropped s + 1,
                sp_gap := True, sp_metaDirty := True\<rparr>"
    using assms(2) by (auto simp: DropOneCompactable_def split: option.splits)
  obtain us vs where "sp_recs s = us @ r # vs" "xs = us @ vs"
    using erase_compactable_spec [OF e] by blast
  with assms(1) t show ?thesis by (auto simp: spool_wf_def sorted_wrt_append)
qed

text \<open>What the dropping loops keep: the counters, and every critical record in its place.\<close>

definition same_but_recs :: "Spool \<Rightarrow> Spool \<Rightarrow> bool" where
  "same_but_recs s t \<longleftrightarrow>
     sp_maxMsgs t = sp_maxMsgs s \<and> sp_maxBytes t = sp_maxBytes s \<and> sp_streamId t = sp_streamId s \<and>
     sp_nextSeq t = sp_nextSeq s \<and> sp_ackedSeq t = sp_ackedSeq s \<and> sp_rxSeq t = sp_rxSeq s \<and>
     filter rc_critical (sp_recs t) = filter rc_critical (sp_recs s) \<and>
     (t = s \<or> (length (sp_recs t) < length (sp_recs s) \<and> sp_gap t))"

lemma same_but_recs_refl [simp]: "same_but_recs s s"
  by (simp add: same_but_recs_def)

lemma same_but_recs_trans: "same_but_recs s t \<Longrightarrow> same_but_recs t u \<Longrightarrow> same_but_recs s u"
  by (auto simp: same_but_recs_def)

lemma DropOne_same:
  assumes "DropOneCompactable s = Some t"
  shows "same_but_recs s t"
proof -
  obtain r xs where e: "erase_compactable (sp_recs s) = Some (r, xs)"
    and t: "t = s\<lparr>sp_bytes := sp_bytes s - Bytes r, sp_recs := xs, sp_dropped := sp_dropped s + 1,
                sp_gap := True, sp_metaDirty := True\<rparr>"
    using assms by (auto simp: DropOneCompactable_def split: option.splits)
  obtain us vs where "sp_recs s = us @ r # vs" "xs = us @ vs" "\<not> rc_critical r"
    using erase_compactable_spec [OF e] by blast
  with t show ?thesis by (auto simp: same_but_recs_def)
qed

lemma drop_while_full_wf: "spool_wf s \<Longrightarrow> spool_wf (drop_while_full c s)"
proof (induction c s rule: drop_while_full.induct)
  case (1 c s)
  then show ?case
    by (subst drop_while_full.simps) (auto split: option.split intro: DropOne_wf)
qed

lemma drop_while_full_same: "same_but_recs s (drop_while_full c s)"
proof (induction c s rule: drop_while_full.induct)
  case (1 c s)
  then show ?case
    by (subst drop_while_full.simps)
      (auto split: option.split intro: same_but_recs_trans [OF DropOne_same])
qed

lemma erase_compactable_None: "erase_compactable rs = None \<longleftrightarrow> list_all rc_critical rs"
  by (induction rs) auto

text \<open>The loop ends because it has made room or because only critical records are left.\<close>

lemma drop_while_full_done:
  "\<not> c (drop_while_full c s) \<or> list_all rc_critical (sp_recs (drop_while_full c s))"
proof (induction c s rule: drop_while_full.induct)
  case (1 c s)
  then show ?case
    by (subst (1 2) drop_while_full.simps)
      (auto simp: DropOneCompactable_def erase_compactable_None split: option.split)
qed

lemma make_room_wf: "spool_wf s \<Longrightarrow> spool_wf (make_room add s)"
  by (simp add: make_room_def Let_def drop_while_full_wf)

lemma make_room_same: "same_but_recs s (make_room add s)"
  by (auto simp: make_room_def Let_def intro: same_but_recs_trans drop_while_full_same)

lemma make_room_nothing_dropped:
  "\<not> length (sp_recs (make_room add s)) < length (sp_recs s) \<Longrightarrow> make_room add s = s"
  using make_room_same [of s add] by (auto simp: same_but_recs_def)

lemma Bytes_new_record:
  "Bytes (new_record ty i rf ts ep pl n) = Bytes (new_record ty i rf ts ep pl 0)"
  by (simp add: Bytes_def new_record_def)

lemma new_record_sel [simp]:
  "rc_seq (new_record ty i rf ts ep pl n) = n" "rc_type (new_record ty i rf ts ep pl n) = ty"
  "rc_critical (new_record ty i rf ts ep pl n) = IsCriticalType ty"
  by (simp_all add: new_record_def)

lemma refuse_wf: "spool_wf s \<Longrightarrow> spool_wf (refuse s)"
  by (simp add: refuse_def spool_wf_def)

lemma enqueue_wf: "spool_wf s \<Longrightarrow> rc_seq r = sp_nextSeq s \<Longrightarrow> spool_wf (enqueue r s)"
  by (auto simp: enqueue_def spool_wf_def sorted_wrt_append)

text \<open>The branches of \<open>Append\<close>.\<close>

lemma Append_cases:
  assumes "Append ty i rf ts ep pl (s, d) = (q, s', d')"
  obtains (refused) t where "q = 0" "s' = refuse t" "d' = d" "t = s"
  | (refused_dropped) t where "q = 0" "(s', d') = Rewrite (refuse t, d)" "t = make_room (Bytes (new_record ty i rf ts ep pl 0)) s"
      "sp_gap t"
  | (queued) r where "q = sp_nextSeq s" "r = new_record ty i rf ts ep pl (sp_nextSeq s)" "(s', d') = AppendLine r (enqueue r s, d)"
  | (queued_dropped) r t where "q = sp_nextSeq s" "r = new_record ty i rf ts ep pl (sp_nextSeq s)"
      "(s', d') = Rewrite (enqueue r t, d)" "t = make_room (Bytes (new_record ty i rf ts ep pl 0)) s" "sp_gap t"
proof -
  define add where "add = Bytes (new_record ty i rf ts ep pl 0)"
  define t where "t = make_room add s"
  define b where "b \<longleftrightarrow> over 1 add t \<and> (\<not> IsCriticalType ty \<or> over 2 add t)"
  have next_t: "sp_nextSeq t = sp_nextSeq s" and gap_t: "length (sp_recs t) < length (sp_recs s) \<Longrightarrow> sp_gap t"
    using make_room_same [of s add] by (auto simp: t_def same_but_recs_def)
  have same: "\<not> length (sp_recs t) < length (sp_recs s) \<Longrightarrow> t = s"
    using make_room_nothing_dropped by (simp add: t_def)
  have eq: "Append ty i rf ts ep pl (s, d) =
     (let r = new_record ty i rf ts ep pl (sp_nextSeq s)
      in if b then (0, if length (sp_recs t) < length (sp_recs s) then Rewrite (refuse t, d) else (refuse t, d))
         else (sp_nextSeq s, if length (sp_recs t) < length (sp_recs s) then Rewrite (enqueue r t, d) else AppendLine r (enqueue r t, d)))"
    unfolding Append_def Let_def b_def by (auto simp: t_def [symmetric] add_def [symmetric] next_t)
  consider "b" "length (sp_recs t) < length (sp_recs s)" | "b" "\<not> length (sp_recs t) < length (sp_recs s)"
    | "\<not> b" "length (sp_recs t) < length (sp_recs s)" | "\<not> b" "\<not> length (sp_recs t) < length (sp_recs s)" by blast
  then show thesis
  proof cases
    case 1
    then show thesis using assms eq gap_t refused_dropped [of t] by (simp add: t_def add_def Let_def)
  next
    case 2
    then show thesis using assms eq same refused [of t] by (simp add: Let_def)
  next
    case 3
    then show thesis using assms eq gap_t queued_dropped [of _ t] by (auto simp: t_def add_def Let_def)
  next
    case 4
    then show thesis using assms eq same queued by (auto simp: Let_def)
  qed
qed

section \<open>What the disk holds\<close>

text \<open>
  While the stream has no gap, the disk is enough to rebuild it: meta.json is not ahead of the memory,
  and stream.log is a run of consecutive records that ends with the newest one and starts no later than
  the first record meta.json counts as not acknowledged.
\<close>

definition on_disk :: "Spool \<Rightarrow> Disk \<Rightarrow> SpoolMeta \<Rightarrow> SpoolRecord list \<Rightarrow> bool" where
  "on_disk s d m old \<longleftrightarrow>
     dk_meta d = Some m \<and> \<not> mt_gap m \<and> mt_stream m = sp_streamId s \<and>
     0 \<le> mt_acked m \<and> mt_acked m \<le> sp_ackedSeq s \<and> mt_acked m < mt_next m \<and> mt_next m \<le> sp_nextSeq s \<and>
     dk_log d = map Some (old @ sp_recs s) \<and>
     (\<forall>r \<in> set (old @ sp_recs s). rc_type r \<noteq> []) \<and>
     (old @ sp_recs s = [] \<longrightarrow> mt_next m = sp_nextSeq s)"

definition durable :: "world \<Rightarrow> bool" where
  "durable = (\<lambda>(s, d). spool_wf s \<and>
     (\<not> sp_gap s \<longrightarrow>
        map rc_seq (sp_recs s) = [sp_ackedSeq s + 1..sp_nextSeq s - 1] \<and>
        (\<exists>m old b. on_disk s d m old \<and> 0 \<le> b \<and> b \<le> mt_acked m \<and> map rc_seq (old @ sp_recs s) = [b + 1..sp_nextSeq s - 1])))"

lemma durableI:
  assumes "spool_wf s"
    and "\<not> sp_gap s \<Longrightarrow> map rc_seq (sp_recs s) = [sp_ackedSeq s + 1..sp_nextSeq s - 1]"
    and "\<not> sp_gap s \<Longrightarrow> \<exists>m old b. on_disk s d m old \<and> 0 \<le> b \<and> b \<le> mt_acked m \<and>
            map rc_seq (old @ sp_recs s) = [b + 1..sp_nextSeq s - 1]"
  shows "durable (s, d)"
  using assms by (simp add: durable_def)

lemma durableD:
  assumes "durable (s, d)" "\<not> sp_gap s"
  obtains m old b where "on_disk s d m old" "0 \<le> b" "b \<le> mt_acked m"
    "map rc_seq (old @ sp_recs s) = [b + 1..sp_nextSeq s - 1]"
    "map rc_seq (sp_recs s) = [sp_ackedSeq s + 1..sp_nextSeq s - 1]"
  using assms by (auto simp: durable_def)

lemma upto_snoc_next: "a \<le> n \<Longrightarrow> [a..n - 1] @ [n] = [a..n]" for a n :: int
  by (rule upto_rec2 [symmetric])

text \<open>The file operations keep the invariant.\<close>

lemma FlushMeta_durable:
  assumes "durable (s, d)"
  shows "durable (FlushMeta (s, d))"
proof (cases "sp_gap s")
  case True
  with assms show ?thesis by (simp add: durable_def FlushMeta_def spool_wf_def)
next
  case False
  obtain m old b where *: "on_disk s d m old" "0 \<le> b" "b \<le> mt_acked m"
    "map rc_seq (old @ sp_recs s) = [b + 1..sp_nextSeq s - 1]"
    "map rc_seq (sp_recs s) = [sp_ackedSeq s + 1..sp_nextSeq s - 1]"
    by (rule durableD [OF assms False])
  let ?m = "\<lparr>mt_stream = sp_streamId s, mt_next = sp_nextSeq s, mt_acked = sp_ackedSeq s, mt_rx = sp_rxSeq s, mt_gap = sp_gap s\<rparr>"
  have wf: "spool_wf s" using assms by (simp add: durable_def)
  have "on_disk (s\<lparr>sp_metaDirty := False\<rparr>) (d\<lparr>dk_meta := Some ?m\<rparr>) ?m old"
    using * wf False by (auto simp: on_disk_def spool_wf_def)
  then show ?thesis
    unfolding FlushMeta_def prod.case
    using * wf False by (intro durableI) (auto simp: spool_wf_def on_disk_def intro!: exI [of _ ?m] exI [of _ old] exI [of _ b])
qed

lemma Rewrite_durable:
  assumes "durable (s, d)" "sp_recs s \<noteq> [] \<or> sp_gap s \<or> (\<exists>m. dk_meta d = Some m \<and> mt_next m = sp_nextSeq s)"
    and "sp_gap s \<or> (\<exists>m. dk_meta d = Some m \<and> mt_acked m = sp_ackedSeq s)"
  shows "durable (Rewrite (s, d))"
proof (cases "sp_gap s")
  case True
  with assms show ?thesis by (simp add: durable_def Rewrite_def spool_wf_def)
next
  case False
  obtain m old b where *: "on_disk s d m old" "0 \<le> b" "b \<le> mt_acked m"
    "map rc_seq (old @ sp_recs s) = [b + 1..sp_nextSeq s - 1]"
    "map rc_seq (sp_recs s) = [sp_ackedSeq s + 1..sp_nextSeq s - 1]"
    by (rule durableD [OF assms(1) False])
  define t e where "t = s\<lparr>sp_logBytes := sum_list (map line_bytes (sp_recs s))\<rparr>" and "e = d\<lparr>dk_log := map Some (sp_recs s)\<rparr>"
  have wf: "spool_wf t" using assms(1) by (simp add: durable_def spool_wf_def t_def)
  have "on_disk t e m []"
    using * assms(2) False by (auto simp: on_disk_def t_def e_def)
  then have "durable (t, e)"
    using * wf False assms(3)
    by (intro durableI) (auto simp: t_def on_disk_def intro!: exI [of _ m] exI [of _ "[]"] exI [of _ "sp_ackedSeq s"])
  then show ?thesis by (simp add: Rewrite_def t_def e_def)
qed

lemma gap_durable: "spool_wf s \<Longrightarrow> sp_gap s \<Longrightarrow> durable (s, d)"
  by (simp add: durable_def)

lemma Rewrite_gap_durable: "spool_wf s \<Longrightarrow> sp_gap s \<Longrightarrow> durable (Rewrite (s, d))"
  by (simp add: durable_def Rewrite_def spool_wf_def)

lemma AppendLine_durable:
  assumes "durable (s, d)" "rc_seq r = sp_nextSeq s" "rc_type r \<noteq> []"
  shows "durable (AppendLine r (enqueue r s, d))"
proof -
  define t e where "t = (enqueue r s)\<lparr>sp_logBytes := sp_logBytes s + line_bytes r\<rparr>" and "e = d\<lparr>dk_log := dk_log d @ [Some r]\<rparr>"
  have "spool_wf s" using assms(1) by (simp add: durable_def)
  then have wf: "spool_wf t" using enqueue_wf [OF _ assms(2)] by (simp add: t_def spool_wf_def)
  have "durable (t, e)"
  proof (cases "sp_gap s")
    case True
    with wf show ?thesis by (simp add: gap_durable t_def enqueue_def)
  next
    case False
    obtain m old b where *: "on_disk s d m old" "0 \<le> b" "b \<le> mt_acked m"
      "map rc_seq (old @ sp_recs s) = [b + 1..sp_nextSeq s - 1]"
      "map rc_seq (sp_recs s) = [sp_ackedSeq s + 1..sp_nextSeq s - 1]"
      by (rule durableD [OF assms(1) False])
    have le: "sp_ackedSeq s + 1 \<le> sp_nextSeq s" "b + 1 \<le> sp_nextSeq s"
      using \<open>spool_wf s\<close> * by (auto simp: spool_wf_def on_disk_def)
    have "on_disk t e m old"
      using * assms(3) by (auto simp: on_disk_def t_def e_def enqueue_def)
    moreover have "map rc_seq (old @ sp_recs t) = [b + 1..sp_nextSeq t - 1]"
      "map rc_seq (sp_recs t) = [sp_ackedSeq t + 1..sp_nextSeq t - 1]"
      using * le assms(2) upto_snoc_next by (simp_all add: t_def enqueue_def flip: append_assoc)
    ultimately show ?thesis using wf * by (intro durableI) blast+
  qed
  then show ?thesis by (simp add: AppendLine_def t_def e_def enqueue_def)
qed

lemma Append_durable:
  assumes "durable (s, d)" "ty \<noteq> []" "Append ty i rf ts ep pl (s, d) = (q, s', d')"
  shows "durable (s', d')"
proof -
  have wf: "spool_wf s" using assms(1) by (simp add: durable_def)
  from assms(3) show ?thesis
  proof (cases rule: Append_cases)
    case (refused t)
    then show ?thesis using refuse_wf [OF wf] gap_durable [of "refuse s" d] by (simp add: refuse_def)
  next
    case (refused_dropped t)
    then show ?thesis using make_room_wf [OF wf] Rewrite_gap_durable [of "refuse t" d] refuse_wf by (simp add: refuse_def)
  next
    case (queued r)
    then show ?thesis using AppendLine_durable [OF assms(1), of r] assms(2) by simp
  next
    case (queued_dropped r t)
    have "sp_nextSeq t = sp_nextSeq s"
      using make_room_same queued_dropped(4) by (simp add: same_but_recs_def)
    then have "spool_wf (enqueue r t)"
      using queued_dropped make_room_wf [OF wf] by (intro enqueue_wf) auto
    then show ?thesis using queued_dropped Rewrite_gap_durable [of "enqueue r t" d] by (simp add: enqueue_def)
  qed
qed

lemma sorted_dropWhile_le:
  assumes "sorted_wrt (<) (map rc_seq rs)"
  shows "dropWhile (\<lambda>r. rc_seq r \<le> a) rs = filter (\<lambda>r. a < rc_seq r) rs"
  using assms
proof (induction rs)
  case (Cons r rs)
  then have "a < rc_seq r \<Longrightarrow> filter (\<lambda>r. a < rc_seq r) rs = rs"
    by (intro filter_True) auto
  with Cons show ?case by auto
qed simp

lemma sum_takeWhile_dropWhile:
  "sum_list (map f (dropWhile P rs)) = sum_list (map f rs) - sum_list (map f (takeWhile P rs))" for f :: "'a \<Rightarrow> int"
  by (induction rs) auto

lemma upto_above: "a \<le> c \<Longrightarrow> filter (\<lambda>x. c < x) [a + 1..n] = [c + 1..n]" for a c n :: int
proof (induction "nat (n - a)" arbitrary: a)
  case 0
  then show ?case by simp
next
  case (Suc k)
  then have "a + 1 \<le> n" by linarith
  then have e: "[a + 1..n] = (a + 1) # [a + 1 + 1..n]" by (rule upto_rec1)
  show ?case
  proof (cases "a = c")
    case True
    then show ?thesis by (simp add: filter_id_conv)
  next
    case False
    with Suc.prems have "a + 1 \<le> c" by simp
    then have "filter (\<lambda>x. c < x) [a + 1 + 1..n] = [c + 1..n]" using Suc by (intro Suc.hyps(1)) auto
    with e \<open>a + 1 \<le> c\<close> show ?thesis by simp
  qed
qed

lemma map_filter_seq: "map rc_seq (filter (\<lambda>r. c < rc_seq r) rs) = filter (\<lambda>x. c < x) (map rc_seq rs)"
  by (simp add: filter_map comp_def)

lemma filter_above_twice:
  "c \<le> a \<Longrightarrow> filter (\<lambda>r. a < rc_seq r) (filter (\<lambda>r. c < rc_seq r) rs) = filter (\<lambda>r. a < rc_seq r) rs"
  by (induction rs) auto

lemma sorted_upto [simp]: "sorted_wrt (<) [a..b]" for a b :: int
  by (rule sorted_wrt_upto)

lemma drop_acked_recs:
  "sorted_wrt (<) (map rc_seq (sp_recs s)) \<Longrightarrow> sp_recs (drop_acked s) = filter (\<lambda>r. sp_ackedSeq s < rc_seq r) (sp_recs s)"
  by (simp add: drop_acked_def Let_def sorted_dropWhile_le)

lemma drop_acked_sel [simp]:
  "sp_ackedSeq (drop_acked s) = sp_ackedSeq s" "sp_nextSeq (drop_acked s) = sp_nextSeq s"
  "sp_streamId (drop_acked s) = sp_streamId s" "sp_gap (drop_acked s) = sp_gap s"
  "sp_maxMsgs (drop_acked s) = sp_maxMsgs s" "sp_maxBytes (drop_acked s) = sp_maxBytes s"
  "sp_rxSeq (drop_acked s) = sp_rxSeq s" "sp_metaDirty (drop_acked s) = sp_metaDirty s"
  by (simp_all add: drop_acked_def Let_def)

lemma drop_acked_bytes:
  "sp_bytes s = sum_list (map Bytes (sp_recs s)) \<Longrightarrow> sp_bytes (drop_acked s) = sum_list (map Bytes (sp_recs (drop_acked s)))"
  by (simp add: drop_acked_def Let_def sum_takeWhile_dropWhile)

lemma sorted_filter_seq: "sorted_wrt (<) (map rc_seq rs) \<Longrightarrow> sorted_wrt (<) (map rc_seq (filter P rs))"
  by (simp add: sorted_wrt_filter sorted_wrt_map)

text \<open>Acknowledging up to \<open>q\<close> keeps the invariant, also between the two writes of a compaction.\<close>

definition ack_mem :: "int \<Rightarrow> Spool \<Rightarrow> Spool" where
  "ack_mem q s = drop_acked (s\<lparr>sp_ackedSeq := min q (lastSeq s), sp_metaDirty := True\<rparr>)"

lemma ack_mem_durable:
  assumes "durable (s, d)" "sp_ackedSeq s < q"
  shows "durable (ack_mem q s, d)"
proof -
  define a where "a = min q (lastSeq s)"
  have wf: "spool_wf s" using assms(1) by (simp add: durable_def)
  then have a: "sp_ackedSeq s \<le> a" "a < sp_nextSeq s" "sorted_wrt (<) (map rc_seq (sp_recs s))"
    using assms(2) by (auto simp: a_def lastSeq_def spool_wf_def)
  have recs: "sp_recs (ack_mem q s) = filter (\<lambda>r. a < rc_seq r) (sp_recs s)"
    unfolding ack_mem_def using drop_acked_recs [of "s\<lparr>sp_ackedSeq := min q (lastSeq s), sp_metaDirty := True\<rparr>"] a
    by (simp add: a_def)
  have sel: "sp_ackedSeq (ack_mem q s) = a" "sp_nextSeq (ack_mem q s) = sp_nextSeq s"
    "sp_streamId (ack_mem q s) = sp_streamId s" "sp_gap (ack_mem q s) = sp_gap s"
    by (simp_all add: ack_mem_def a_def)
  have bytes: "sp_bytes (ack_mem q s) = sum_list (map Bytes (sp_recs (ack_mem q s)))"
    unfolding ack_mem_def using wf by (intro drop_acked_bytes) (simp add: spool_wf_def)
  have wf': "spool_wf (ack_mem q s)"
    using wf a bytes unfolding spool_wf_def sel recs by (auto simp: sorted_filter_seq)
  show ?thesis
  proof (rule durableI [OF wf'], goal_cases)
    case 1
    then have "\<not> sp_gap s" by (simp add: sel)
    with assms(1) have "map rc_seq (sp_recs s) = [sp_ackedSeq s + 1..sp_nextSeq s - 1]" by (simp add: durable_def)
    with a show ?case by (simp add: recs sel map_filter_seq upto_above)
  next
    case 2
    then have "\<not> sp_gap s" by (simp add: sel)
    then obtain m old b where *: "on_disk s d m old" "0 \<le> b" "b \<le> mt_acked m"
      "map rc_seq (old @ sp_recs s) = [b + 1..sp_nextSeq s - 1]"
      by (rule durableD [OF assms(1)])
    define gone where "gone = takeWhile (\<lambda>r. rc_seq r \<le> a) (sp_recs s)"
    have split: "sp_recs s = gone @ sp_recs (ack_mem q s)"
      unfolding recs gone_def sorted_dropWhile_le [OF a(3), symmetric] by simp
    have "on_disk (ack_mem q s) d m (old @ gone)"
      using * a split by (auto simp: on_disk_def sel)
    moreover have "map rc_seq ((old @ gone) @ sp_recs (ack_mem q s)) = [b + 1..sp_nextSeq (ack_mem q s) - 1]"
      using *(4) split by (simp add: sel)
    ultimately show ?case using * by blast
  qed
qed

lemma AckUpTo_eq:
  "AckUpTo q (s, d) =
     (if q \<le> sp_ackedSeq s then (s, d)
      else if (sp_recs (ack_mem q s) = [] \<and> sp_logBytes (ack_mem q s) > 65536) \<or>
              (sp_logBytes (ack_mem q s) > 1048576 \<and> sp_logBytes (ack_mem q s) > 2 * sp_bytes (ack_mem q s) + 1048576)
           then Rewrite (FlushMeta (ack_mem q s, d)) else (ack_mem q s, d))"
  by (simp add: AckUpTo_def ack_mem_def Let_def)

lemma Rewrite_FlushMeta_durable:
  assumes "durable (s, d)"
  shows "durable (Rewrite (FlushMeta (s, d)))"
proof -
  obtain t e where te: "FlushMeta (s, d) = (t, e)" by fastforce
  then have "durable (t, e)" using FlushMeta_durable [OF assms] by simp
  moreover have "\<exists>m. dk_meta e = Some m \<and> mt_next m = sp_nextSeq t \<and> mt_acked m = sp_ackedSeq t"
    using te by (auto simp: FlushMeta_def)
  ultimately show ?thesis unfolding te by (intro Rewrite_durable) auto
qed

lemma AckUpTo_durable: "durable (s, d) \<Longrightarrow> durable (AckUpTo q (s, d))"
  by (auto simp: AckUpTo_eq ack_mem_durable Rewrite_FlushMeta_durable)

lemma renumber_sel: "map rc_seq (renumber n rs) = [n + 1..n + int (length rs)]" "length (renumber n rs) = length rs"
  "map rc_type (renumber n rs) = map rc_type rs" "map Bytes (renumber n rs) = map Bytes rs"
proof -
  show "map rc_seq (renumber n rs) = [n + 1..n + int (length rs)]"
    by (induction rs arbitrary: n) (auto simp: upto_rec1 algebra_simps)
qed (induction rs arbitrary: n; simp add: Bytes_def)+

lemma RotateIfGap_durable:
  assumes "durable (s, d)" "newid \<noteq> []" "\<forall>r \<in> set (sp_recs s). rc_type r \<noteq> []"
  shows "durable (snd (RotateIfGap newid (s, d)))"
proof (cases "sp_gap s")
  case False
  with assms(1) show ?thesis by (simp add: RotateIfGap_def)
next
  case True
  define rs where "rs = renumber 0 (sp_recs s)"
  define t where "t = s\<lparr>sp_streamId := newid, sp_recs := rs, sp_nextSeq := int (length rs) + 1, sp_ackedSeq := 0,
                        sp_gap := False, sp_metaDirty := True\<rparr>"
  have seqs: "map rc_seq rs = [1..int (length rs)]"
    using renumber_sel(1) [of 0 "sp_recs s"] by (simp add: rs_def renumber_sel(2))
  have typed: "\<forall>r \<in> set rs. rc_type r \<noteq> []"
  proof -
    have "set (map rc_type rs) = set (map rc_type (sp_recs s))" by (simp only: rs_def renumber_sel(3))
    with assms(3) show ?thesis by (metis (no_types, lifting) imageE image_eqI list.set_map)
  qed
  have wf: "spool_wf t"
  proof -
    have "set (map rc_seq rs) = {1..int (length rs)}" by (simp only: seqs set_upto)
    then have "\<forall>r \<in> set rs. 0 < rc_seq r \<and> rc_seq r \<le> int (length rs)" by force
    moreover have "sp_bytes s = sum_list (map Bytes rs)"
      using assms(1) by (simp add: durable_def spool_wf_def rs_def renumber_sel)
    ultimately show ?thesis using assms(2) seqs by (auto simp: spool_wf_def t_def)
  qed
  obtain u e where ue: "Rewrite (FlushMeta (t, d)) = (u, e)" by fastforce
  let ?m = "\<lparr>mt_stream = newid, mt_next = int (length rs) + 1, mt_acked = 0, mt_rx = sp_rxSeq s, mt_gap = False\<rparr>"
  have u: "u = t\<lparr>sp_metaDirty := False, sp_logBytes := sum_list (map line_bytes rs)\<rparr>"
    and e: "e = d\<lparr>dk_meta := Some ?m, dk_log := map Some rs\<rparr>"
    using ue by (auto simp: Rewrite_def FlushMeta_def t_def)
  have "on_disk u e ?m []" using typed by (auto simp: on_disk_def u e t_def)
  moreover have "spool_wf u" using wf by (simp add: u spool_wf_def)
  ultimately have "durable (u, e)"
    using seqs by (intro durableI) (auto simp: u t_def intro!: exI [of _ ?m] exI [of _ "[]"] exI [of _ 0])
  then show ?thesis using True ue by (simp add: RotateIfGap_def rs_def t_def Let_def)
qed

lemma SetRxSeq_durable: "durable (s, d) \<Longrightarrow> durable (SetRxSeq q (s, d))"
  by (auto simp: SetRxSeq_def durable_def spool_wf_def on_disk_def)

lemma MaybeFlush_durable:
  assumes "durable (s, d)"
  shows "durable (MaybeFlush now (s, d))"
proof -
  have "durable (s\<lparr>sp_lastFlushMs := now\<rparr>, d)"
    using assms by (auto simp: durable_def spool_wf_def on_disk_def)
  with assms show ?thesis by (auto simp: MaybeFlush_def intro: FlushMeta_durable)
qed

section \<open>Restart\<close>

lemma load_lines_all:
  assumes "sorted_wrt (<) (map rc_seq rs)" "\<forall>r \<in> set rs. prev < rc_seq r \<and> rc_type r \<noteq> []"
  shows "load_lines prev (map Some rs) = (rs, False)"
  using assms by (induction rs arbitrary: prev) auto

lemma sorted_of_upto: "map rc_seq rs = [a..b] \<Longrightarrow> sorted_wrt (<) (map rc_seq rs)"
  by (simp del: sorted_wrt_map)

lemma in_upto_seq: "map rc_seq rs = [a..b] \<Longrightarrow> r \<in> set rs \<Longrightarrow> a \<le> rc_seq r \<and> rc_seq r \<le> b"
  by (metis atLeastAtMost_iff image_eqI list.set_map set_upto)

lemma last_upto_seq: "map rc_seq rs = [a..b] \<Longrightarrow> rs \<noteq> [] \<Longrightarrow> rc_seq (last rs) = b"
  by (metis last_map last_snoc list.map_disc_iff upto_Nil2 upto_rec2 linorder_not_less)

text \<open>
  What \<open>Open\<close> gives back on a disk that holds the stream of \<open>s\<close>: the same stream and next number, and
  every record meta.json does not count as acknowledged.
\<close>

lemma Open_on_disk:
  assumes wf: "spool_wf s" and disk: "on_disk s d m old" and "0 \<le> b" "b \<le> mt_acked m"
    and seqs: "map rc_seq (old @ sp_recs s) = [b + 1..sp_nextSeq s - 1]"
    and op: "Open mm mb newid d = (s', d')"
  shows "sp_streamId s' = sp_streamId s \<and> sp_nextSeq s' = sp_nextSeq s \<and> \<not> sp_gap s' \<and> sp_ackedSeq s' = mt_acked m \<and>
     sp_recs s' = filter (\<lambda>r. mt_acked m < rc_seq r) (old @ sp_recs s) \<and>
     sp_bytes s' = sum_list (map Bytes (sp_recs s')) \<and>
     dk_log d' = map Some (sp_recs s') \<and>
     dk_meta d' = Some \<lparr>mt_stream = sp_streamId s', mt_next = sp_nextSeq s', mt_acked = sp_ackedSeq s',
                        mt_rx = sp_rxSeq s', mt_gap = False\<rparr>"
proof -
  define L where "L = old @ sp_recs s"
  define R where "R = filter (\<lambda>r. mt_acked m < rc_seq r) L"
  have sortedL: "sorted_wrt (<) (map rc_seq L)" using seqs by (simp add: L_def sorted_of_upto del: map_append)
  have load: "load_lines 0 (dk_log d) = (L, False)"
  proof -
    have "\<forall>r \<in> set L. 0 < rc_seq r \<and> rc_type r \<noteq> []"
      using in_upto_seq [of L] seqs disk assms(3) by (fastforce simp: L_def on_disk_def)
    then show ?thesis using load_lines_all [OF sortedL] disk by (simp add: on_disk_def L_def)
  qed
  have seqR: "map rc_seq R = [mt_acked m + 1..sp_nextSeq s - 1]"
    unfolding R_def map_filter_seq using seqs assms(4) by (simp add: L_def upto_above del: map_append)
  have ne: "mt_stream m \<noteq> []" using wf disk by (simp add: spool_wf_def on_disk_def)
  have num: "max 1 (mt_next m) = mt_next m" "max 0 (mt_acked m) = mt_acked m"
    using disk by (auto simp: on_disk_def)
  define s1 where "s1 = \<lparr>sp_maxMsgs = mm, sp_maxBytes = mb, sp_recs = L,
                sp_bytes = sum_list (map Bytes L), sp_dropped = 0, sp_streamId = mt_stream m, sp_nextSeq = mt_next m,
                sp_ackedSeq = mt_acked m, sp_rxSeq = max 0 (mt_rx m), sp_gap = False, sp_metaDirty = True, sp_logBytes = 0,
                sp_lastFlushMs = 0\<rparr>"
  define s2 where "s2 = drop_acked s1"
  have r2: "sp_recs s2 = R" using drop_acked_recs [of s1] sortedL by (simp add: s2_def s1_def R_def)
  have b2: "sp_bytes s2 = sum_list (map Bytes R)" using drop_acked_bytes [of s1] r2 by (simp add: s2_def s1_def)
  define s3 where "s3 = (if R \<noteq> [] \<and> rc_seq (last R) \<ge> mt_next m then s2\<lparr>sp_nextSeq := rc_seq (last R) + 1\<rparr> else s2)"
  have next3: "sp_nextSeq s3 = sp_nextSeq s"
  proof (cases "R = []")
    case True
    then have "mt_next m = sp_nextSeq s"
      using seqR disk by (auto simp: on_disk_def)
    with True show ?thesis by (simp add: s3_def s2_def s1_def)
  next
    case False
    then have "rc_seq (last R) = sp_nextSeq s - 1" using last_upto_seq [OF seqR] by simp
    with False disk show ?thesis by (auto simp: s3_def s2_def s1_def on_disk_def)
  qed
  have "Open mm mb newid d = FlushMeta (Rewrite (s3, d))"
    unfolding Open_def load using disk ne num r2
    by (simp add: on_disk_def meta_ok_def Let_def s3_def s2_def s1_def)
  then have "s' = s3\<lparr>sp_logBytes := sum_list (map line_bytes R), sp_metaDirty := False\<rparr>"
    and "d' = d\<lparr>dk_log := map Some R, dk_meta := Some \<lparr>mt_stream = sp_streamId s3, mt_next = sp_nextSeq s3, mt_acked = sp_ackedSeq s3,
                        mt_rx = sp_rxSeq s3, mt_gap = sp_gap s3\<rparr>\<rparr>"
    using op r2 by (auto simp: FlushMeta_def Rewrite_def s3_def split: if_splits)
  with next3 r2 b2 disk show ?thesis
    by (auto simp: s3_def s2_def s1_def on_disk_def R_def L_def)
qed

text \<open>Every record has a type: the reader skips a line without one.\<close>

definition typed :: "Spool \<Rightarrow> bool" where
  "typed s \<longleftrightarrow> (\<forall>r \<in> set (sp_recs s). rc_type r \<noteq> [])"

lemma drop_while_full_subset: "set (sp_recs (drop_while_full c s)) \<subseteq> set (sp_recs s)"
proof (induction c s rule: drop_while_full.induct)
  case (1 c s)
  have "DropOneCompactable s = Some t \<Longrightarrow> set (sp_recs t) \<subseteq> set (sp_recs s)" for t
    using erase_compactable_spec by (fastforce simp: DropOneCompactable_def split: option.splits)
  with 1 show ?case by (subst drop_while_full.simps) (auto split: option.split)
qed

lemma make_room_subset: "set (sp_recs (make_room add s)) \<subseteq> set (sp_recs s)"
  by (auto simp: make_room_def Let_def dest!: drop_while_full_subset [THEN subsetD])

lemma Append_typed:
  assumes "typed s" "ty \<noteq> []" "Append ty i rf ts ep pl (s, d) = (q, s', d')"
  shows "typed s'"
  using assms(3)
proof (cases rule: Append_cases)
  case (refused t)
  with assms(1) show ?thesis by (simp add: typed_def refuse_def)
next
  case (refused_dropped t)
  with assms(1) make_room_subset [of _ s] show ?thesis by (auto simp: typed_def refuse_def Rewrite_def)
next
  case (queued r)
  with assms show ?thesis by (auto simp: typed_def enqueue_def AppendLine_def)
next
  case (queued_dropped r t)
  with assms(1,2) make_room_subset [of _ s] show ?thesis by (auto simp: typed_def enqueue_def Rewrite_def)
qed

lemma renumber_typed: "(\<forall>r \<in> set (renumber n rs). rc_type r \<noteq> []) \<longleftrightarrow> (\<forall>r \<in> set rs. rc_type r \<noteq> [])"
  by (induction rs arbitrary: n) auto

lemma ops_typed:
  assumes "typed s"
  shows "typed (fst (AckUpTo q (s, d)))" "typed (fst (snd (RotateIfGap n (s, d))))"
    "typed (fst (SetRxSeq q (s, d)))" "typed (fst (MaybeFlush t (s, d)))" "typed (fst (FlushMeta (s, d)))"
  using assms
  by (auto simp: typed_def AckUpTo_def RotateIfGap_def SetRxSeq_def MaybeFlush_def FlushMeta_def Rewrite_def
      drop_acked_def Let_def renumber_typed dest: set_dropWhileD)

section \<open>Runs of the spool\<close>

text \<open>
  A plugin's life: it opens a fresh spool, uses it, and may be killed and started again at any point at
  which the stream has no gap (with possibly other limits). Message types and ULIDs are not empty.
\<close>

inductive spool_run :: "world \<Rightarrow> bool" where
  start: "newid \<noteq> [] \<Longrightarrow> spool_run (Open mm mb newid \<lparr>dk_meta = None, dk_log = []\<rparr>)"
| append: "spool_run w \<Longrightarrow> ty \<noteq> [] \<Longrightarrow> spool_run (snd (Append ty i rf ts ep pl w))"
| ack: "spool_run w \<Longrightarrow> spool_run (AckUpTo q w)"
| rotate: "spool_run w \<Longrightarrow> newid \<noteq> [] \<Longrightarrow> spool_run (snd (RotateIfGap newid w))"
| set_rx: "spool_run w \<Longrightarrow> spool_run (SetRxSeq q w)"
| flush: "spool_run w \<Longrightarrow> spool_run (MaybeFlush t w)"
| close: "spool_run w \<Longrightarrow> spool_run (FlushMeta w)"
| restart: "spool_run (s, d) \<Longrightarrow> \<not> sp_gap s \<Longrightarrow> spool_run (Open mm mb newid d)"

lemma Open_empty:
  assumes "newid \<noteq> []" "Open mm mb newid \<lparr>dk_meta = None, dk_log = []\<rparr> = (s, d)"
  shows "durable (s, d) \<and> typed s"
proof -
  let ?m = "\<lparr>mt_stream = newid, mt_next = 1, mt_acked = 0, mt_rx = 0, mt_gap = False\<rparr>"
  have s: "sp_recs s = []" "sp_nextSeq s = 1" "sp_ackedSeq s = 0" "sp_streamId s = newid" "\<not> sp_gap s" "sp_bytes s = 0"
    and d: "d = \<lparr>dk_meta = Some ?m, dk_log = []\<rparr>"
    using assms(2) by (auto simp: Open_def FlushMeta_def Rewrite_def drop_acked_def)
  have "on_disk s d ?m []" using s d by (auto simp: on_disk_def)
  with s assms(1) show ?thesis
    by (auto simp: durable_def spool_wf_def typed_def intro!: exI [of _ ?m] exI [of _ "[]"] exI [of _ 0])
qed

lemma Open_durable:
  assumes "durable (s, d)" "\<not> sp_gap s" "Open mm mb newid d = (s', d')"
  shows "durable (s', d') \<and> typed s'"
proof -
  obtain m old b where *: "on_disk s d m old" "0 \<le> b" "b \<le> mt_acked m"
    "map rc_seq (old @ sp_recs s) = [b + 1..sp_nextSeq s - 1]"
    by (rule durableD [OF assms(1,2)])
  have wf: "spool_wf s" using assms(1) by (simp add: durable_def)
  note o = Open_on_disk [OF wf * assms(3)]
  let ?m = "\<lparr>mt_stream = sp_streamId s', mt_next = sp_nextSeq s', mt_acked = sp_ackedSeq s',
                        mt_rx = sp_rxSeq s', mt_gap = False\<rparr>"
  have seq': "map rc_seq (sp_recs s') = [sp_ackedSeq s' + 1..sp_nextSeq s' - 1]"
    using o *(3,4) by (simp add: map_filter_seq upto_above del: map_append filter_append)
  have typed': "\<forall>r \<in> set (sp_recs s'). rc_type r \<noteq> []"
    using o *(1) by (auto simp: on_disk_def)
  have lt: "0 \<le> sp_ackedSeq s'" "sp_ackedSeq s' < sp_nextSeq s'" using o *(1) by (auto simp: on_disk_def)
  have disk': "on_disk s' d' ?m []" using o typed' lt by (auto simp: on_disk_def)
  have "spool_wf s'"
    using o wf lt sorted_of_upto [OF seq'] in_upto_seq [OF seq'] by (fastforce simp: spool_wf_def)
  then have "durable (s', d')"
    by (rule durableI) (use seq' disk' lt in \<open>auto intro!: exI [of _ ?m] exI [of _ "[]"] exI [of _ "sp_ackedSeq s'"]\<close>)
  with typed' show ?thesis by (simp add: typed_def)
qed

lemma run_durable: "spool_run w \<Longrightarrow> durable w \<and> typed (fst w)"
proof (induction rule: spool_run.induct)
  case (start newid mm mb)
  then show ?case using Open_empty by (metis prod.collapse)
next
  case (append w ty i rf ts ep pl)
  then show ?case using Append_durable Append_typed by (metis prod.collapse)
next
  case (ack w q)
  then show ?case using AckUpTo_durable ops_typed(1) by (metis prod.collapse)
next
  case (rotate w newid)
  then show ?case using RotateIfGap_durable ops_typed(2) by (metis prod.collapse typed_def)
next
  case (set_rx w q)
  then show ?case using SetRxSeq_durable ops_typed(3) by (metis prod.collapse)
next
  case (flush w t)
  then show ?case using MaybeFlush_durable ops_typed(4) by (metis prod.collapse)
next
  case (close w)
  then show ?case using FlushMeta_durable ops_typed(5) by (metis prod.collapse)
next
  case (restart s d mm mb newid)
  then show ?case using Open_durable by (metis prod.collapse)
qed

section \<open>Properties\<close>



lemma Append_bounds:
  assumes "Append ty i rf ts ep pl (s, d) = (q, s', d')" "spool_wf s" "q \<noteq> 0"
  shows "int (length (sp_recs s')) \<le> (if IsCriticalType ty then 2 else 1) * sp_maxMsgs s \<and>
     sp_bytes s' \<le> (if IsCriticalType ty then 2 else 1) * sp_maxBytes s"
proof -
  define add where "add = Bytes (new_record ty i rf ts ep pl 0)"
  define t where "t = make_room add s"
  define r where "r = new_record ty i rf ts ep pl (sp_nextSeq t)"
  have max: "sp_maxMsgs t = sp_maxMsgs s" "sp_maxBytes t = sp_maxBytes s"
    using make_room_same [of s add] by (simp_all add: t_def same_but_recs_def)
  have pos: "0 < add" "0 \<le> sp_bytes t" "Bytes r = add"
    using Bytes_pos make_room_wf [OF assms(2), of add] sum_Bytes_nonneg Bytes_new_record
    by (simp_all add: add_def t_def spool_wf_def r_def)
  have room: "\<not> (over 1 add t \<and> (\<not> IsCriticalType ty \<or> over 2 add t))"
    using assms(1,3) by (auto simp: Append_def Let_def add_def [symmetric] t_def [symmetric] split: if_splits)
  have "sp_recs s' = sp_recs t @ [r] \<and> sp_bytes s' = sp_bytes t + add"
    using assms(1) room pos(3)
    by (auto simp: Append_def Let_def add_def [symmetric] t_def [symmetric] r_def [symmetric] Rewrite_def AppendLine_def
        enqueue_def split: if_splits)
  moreover have "int (length (sp_recs t)) + 1 \<le> sp_maxMsgs s \<and> sp_bytes t + add \<le> sp_maxBytes s" if "\<not> over 1 add t"
    using that max by (simp add: over_def; linarith)
  moreover have "int (length (sp_recs t)) + 1 \<le> 2 * sp_maxMsgs s \<and> sp_bytes t + add \<le> 2 * sp_maxBytes s" if "\<not> over 2 add t"
    using that max by (simp add: over_def; linarith)
  ultimately show ?thesis using room pos by (auto split: if_splits)
qed

text \<open>
  A full spool gives up compactable messages only. After \<open>Append\<close> on any spool of a run, the
  critical messages are those of before, in their order, followed by the new one when it is critical and
  was taken; a message that is refused leaves a gap mark; a message that is taken is the newest record
  under the next number, and the queue is then within its limits, twice the limits for a critical
  message.
\<close>

theorem Append_keeps_critical:
  assumes "spool_run (s, d)" "Append ty i rf ts ep pl (s, d) = (q, s', d')"
  shows "filter rc_critical (sp_recs s') = filter rc_critical (sp_recs s) @
           (if q \<noteq> 0 \<and> IsCriticalType ty then [new_record ty i rf ts ep pl q] else []) \<and>
     (if q = 0 then sp_gap s' \<and> sp_nextSeq s' = sp_nextSeq s
      else q = sp_nextSeq s \<and> last (sp_recs s') = new_record ty i rf ts ep pl q \<and>
           int (length (sp_recs s')) \<le> (if IsCriticalType ty then 2 else 1) * sp_maxMsgs s \<and>
           sp_bytes s' \<le> (if IsCriticalType ty then 2 else 1) * sp_maxBytes s)"
proof -
  have wf: "spool_wf s" using run_durable [OF assms(1)] by (simp add: durable_def)
  then have n: "sp_nextSeq s \<noteq> 0" by (simp add: spool_wf_def)
  note b = Append_bounds [OF assms(2) wf]
  note room = make_room_same [of s "Bytes (new_record ty i rf ts ep pl 0)", unfolded same_but_recs_def]
  from assms(2) show ?thesis
  proof (cases rule: Append_cases)
    case (refused t)
    then show ?thesis by (simp add: refuse_def)
  next
    case (refused_dropped t)
    then show ?thesis using room by (auto simp: refuse_def Rewrite_def)
  next
    case (queued r)
    then show ?thesis using b n by (auto simp: enqueue_def AppendLine_def)
  next
    case (queued_dropped r t)
    then show ?thesis using b n room by (auto simp: enqueue_def Rewrite_def)
  qed
qed

lemma Append_keeps_critical_witness:
  "let w = snd (Append ''event.demo'' ''01A'' [] 5 1 [] (Open 1 4096 ''S1'' \<lparr>dk_meta = None, dk_log = []\<rparr>));
       w' = snd (Append ''event.kill'' ''01B'' [] 6 1 [] w)
   in map rc_id (filter rc_critical (sp_recs (fst w'))) = [''01A''] \<and> sp_gap (fst w')"
proof -
  define w where "w = snd (Append ''event.demo'' ''01A'' [] 5 1 [] (Open 1 4096 ''S1'' \<lparr>dk_meta = None, dk_log = []\<rparr>))"
  obtain s d where w: "w = (s, d)" by fastforce
  obtain q s' d' where a: "Append ''event.kill'' ''01B'' [] 6 1 [] (s, d) = (q, s', d')" by (metis prod.exhaust)
  have run: "spool_run (s, d)"
    unfolding w [symmetric] w_def by (intro spool_run.append spool_run.start) simp_all
  have "map rc_id (filter rc_critical (sp_recs (fst w))) = [''01A''] \<and> fst (Append ''event.kill'' ''01B'' [] 6 1 [] w) = 0"
    unfolding w_def by code_simp
  then show ?thesis
    using Append_keeps_critical [OF run a] a unfolding w_def [symmetric] w Let_def by simp
qed

section \<open>Two crash windows\<close>

text \<open>
  A message dropped for room leaves its gap mark in memory only, while stream.log is rewritten at once.
  A crash before the next \<open>MaybeFlush\<close> therefore loses the mark: the spool opens again without a gap
  although message 1 is missing.
\<close>

lemma gap_mark_lost_by_crash:
  "let w = snd (Append ''event.kill'' ''01B'' [] 6 1 [] (snd (Append ''event.kill'' ''01A'' [] 5 1 []
             (Open 1 4096 ''S1'' \<lparr>dk_meta = None, dk_log = []\<rparr>))));
       s' = fst (Open 1 4096 ''S2'' (snd w))
   in sp_gap (fst w) \<and> \<not> sp_gap s' \<and> sp_streamId s' = ''S1'' \<and> sp_ackedSeq s' = 0 \<and> map rc_seq (sp_recs s') = [2]"
  by code_simp

text \<open>
  \<open>RotateIfGap\<close> writes meta.json before stream.log. A crash between the two writes leaves the new stream
  with the old numbers, again with a hole and without a gap mark.
\<close>

lemma rotate_cut_by_crash:
  "let w = snd (Append ''event.kill'' ''01B'' [] 6 1 [] (snd (Append ''event.kill'' ''01A'' [] 5 1 []
             (Open 1 4096 ''S1'' \<lparr>dk_meta = None, dk_log = []\<rparr>))));
       meta_only = (snd w)\<lparr>dk_meta := dk_meta (snd (snd (RotateIfGap ''S3'' w)))\<rparr>;
       s' = fst (Open 1 4096 ''S2'' meta_only)
   in \<not> sp_gap s' \<and> sp_streamId s' = ''S3'' \<and> sp_ackedSeq s' = 0 \<and> map rc_seq (sp_recs s') = [2]"
  by code_simp

end
