(* ===== verification/Spool_Files.thy ===== *)
theory Spool_Files
  imports Fleet_Spool
begin

text \<open>
  The bytes of the spool's two files (plugins/fleet/fleet_spool.cpp: \<open>LoadMeta\<close>, \<open>LoadLog\<close>,
  \<open>FlushMeta\<close>, \<open>Rewrite\<close>). \<open>Fleet_Spool\<close> keeps the parsed content of the files on its disk; here the
  text is written and parsed with the fleet's JSON, and what is read is what that disk holds.
\<close>

section \<open>Reading\<close>

definition get_int :: "json \<Rightarrow> string \<Rightarrow> int \<Rightarrow> int" where
  "get_int v key dflt = (case Get v key of None \<Rightarrow> dflt | Some x \<Rightarrow> num_or dflt x)"

definition get_str :: "json \<Rightarrow> string \<Rightarrow> string" where
  "get_str v key = (case Get v key of None \<Rightarrow> [] | Some x \<Rightarrow> AsStr [] x)"

definition get_bool :: "json \<Rightarrow> string \<Rightarrow> bool" where
  "get_bool v key = (case Get v key of None \<Rightarrow> False | Some x \<Rightarrow> bool_or False x)"

text \<open>One line of stream.log; None when \<open>LoadLog\<close> counts it as bad (the order of numbers apart).\<close>

definition record_of_line :: "string \<Rightarrow> SpoolRecord option" where
  "record_of_line line =
     (case fleet_Parse 64 line of
        Inl _ \<Rightarrow> None
      | Inr v \<Rightarrow>
          if \<not> IsObject v \<or> get_str v ''type'' = [] then None
          else case Get v ''payload'' of
                 None \<Rightarrow> None
               | Some p \<Rightarrow>
                   if \<not> IsObject p then None
                   else Some \<lparr>rc_seq = get_int v ''seq'' 0, rc_type = get_str v ''type'', rc_id = get_str v ''id'',
                              rc_ref = get_str v ''ref'', rc_ts = get_int v ''ts'' 0, rc_epoch = get_int v ''epoch'' 0,
                              rc_critical = get_bool v ''crit'', rc_payload = fleet_Dump p\<rparr>)"

definition read_log :: "string \<Rightarrow> SpoolRecord option list" where
  "read_log text = map record_of_line (filter (\<lambda>l. l \<noteq> []) (getlines newline_char text))"

definition read_meta :: "string \<Rightarrow> SpoolMeta option" where
  "read_meta text =
     (case fleet_Parse 64 text of
        Inl _ \<Rightarrow> None
      | Inr v \<Rightarrow>
          (case Get v ''stream_id'' of
             Some (JString s) \<Rightarrow>
               Some \<lparr>mt_stream = s, mt_next = get_int v ''next_seq'' 1, mt_acked = get_int v ''acked_seq'' 0,
                     mt_rx = get_int v ''rx_seq'' 0, mt_gap = get_bool v ''gap''\<rparr>
           | _ \<Rightarrow> None))"

section \<open>Writing\<close>

definition log_text :: "SpoolRecord list \<Rightarrow> string" where
  "log_text rs = concat (map RecordLine rs)"

definition meta_json :: "SpoolMeta \<Rightarrow> json" where
  "meta_json m =
     Set_key (Set_key (Set_key (Set_key (Set_key (JObject [])
       ''stream_id'' (JString (mt_stream m)))
       ''next_seq'' (JInt (mt_next m)))
       ''acked_seq'' (JInt (mt_acked m)))
       ''rx_seq'' (JInt (mt_rx m)))
       ''gap'' (JBool (mt_gap m))"

definition meta_text :: "SpoolMeta \<Rightarrow> string" where
  "meta_text m = fleet_Dump (meta_json m) @ [newline_char]"

section \<open>Lines are records\<close>

text \<open>A record as \<open>Append\<close> makes it: typed, with the text of an object as payload and numbers of 64 bits.\<close>

definition record_ok :: "json \<Rightarrow> SpoolRecord \<Rightarrow> bool" where
  "record_ok p r \<longleftrightarrow>
     IsObject p \<and> json_ok p 64 \<and> rc_payload r = fleet_Dump p \<and> rc_type r \<noteq> []
     \<and> in_int64 (rc_seq r) \<and> in_int64 (rc_ts r) \<and> in_int64 (rc_epoch r)"

definition record_json :: "json \<Rightarrow> SpoolRecord \<Rightarrow> json" where
  "record_json p r =
     JObject ([(''seq'', JInt (rc_seq r)), (''type'', JString (rc_type r)), (''id'', JString (rc_id r))]
       @ (if rc_ref r \<noteq> [] then [(''ref'', JString (rc_ref r))] else [])
       @ [(''ts'', JInt (rc_ts r)), (''epoch'', JInt (rc_epoch r)), (''crit'', JBool (rc_critical r)), (''payload'', p)])"

lemma RecordLine_json:
  assumes "rc_payload r = fleet_Dump p"
  shows "RecordLine r = fleet_Dump (record_json p r) @ [newline_char]"
  using assms
  by (simp add: RecordLine_def record_json_def fleet_Dump_def AppendQuoted_eq json_key_def plain_keys)

lemma record_json_ok: "record_ok p r \<Longrightarrow> json_ok (record_json p r) 65"
  by (simp add: record_ok_def record_json_def)

lemma record_of_json:
  assumes "record_ok p r"
  shows "record_of_line (fleet_Dump (record_json p r)) = Some r"
proof -
  have "fleet_Parse 64 (fleet_Dump (record_json p r)) = Inr (record_json p r)"
    using record_json_ok [OF assms] by (intro fleet_Parse_Dump) simp
  with assms show ?thesis
    by (auto simp: record_of_line_def record_json_def record_ok_def get_int_def get_str_def get_bool_def Get_def)
qed

lemma record_line_plain:
  assumes "record_ok p r"
  shows "newline_char \<notin> set (fleet_Dump (record_json p r))" "fleet_Dump (record_json p r) \<noteq> []"
  using dump_no_newline [OF record_json_ok [OF assms]] dump_head [OF record_json_ok [OF assms], of 17]
  by (auto simp: fleet_Dump_def)

lemma read_log_written:
  assumes "\<forall>r \<in> set rs. \<exists>p. record_ok p r"
  shows "read_log (log_text rs) = map Some rs"
  using assms
proof (induction rs)
  case (Cons r rs)
  then obtain p where p: "record_ok p r" by auto
  have "RecordLine r = fleet_Dump (record_json p r) @ [newline_char]"
    using p by (intro RecordLine_json) (simp add: record_ok_def)
  then have "log_text (r # rs) = fleet_Dump (record_json p r) @ newline_char # log_text rs"
    by (simp add: log_text_def)
  with Cons record_line_plain [OF p] record_of_json [OF p] show ?case by (simp add: read_log_def)
qed (simp add: read_log_def log_text_def)

lemma read_meta_written:
  assumes "in_int64 (mt_next m)" "in_int64 (mt_acked m)" "in_int64 (mt_rx m)"
  shows "read_meta (meta_text m) = Some m"
proof -
  have ok: "json_ok (meta_json m) 65" using assms by (simp add: meta_json_def Set_key_def)
  have "fleet_Parse 64 (meta_text m) = Inr (meta_json m)"
    using fleet.Value_dump [OF ok, of "[newline_char]" 17]
    by (simp add: fleet_Parse_def Val_eq parse_text_def meta_text_def fleet_Dump_def is_numchar_def isdigit_def Ws_def is_ws_def)
  then show ?thesis
    by (simp add: read_meta_def meta_json_def Set_key_def Get_def get_int_def get_bool_def)
qed

section \<open>The files hold what the disk of the model holds\<close>

text \<open>
  The bytes that \<open>Rewrite\<close>, \<open>AppendLine\<close> and \<open>FlushMeta\<close> write are read back as the content the
  model keeps: every record with all its fields in order, and the stream's counters.
\<close>

theorem spool_files_read_back:
  assumes recs: "\<forall>r \<in> set (sp_recs s). \<exists>p. record_ok p r" and new: "record_ok p r"
    and nums: "in_int64 (sp_nextSeq s)" "in_int64 (sp_ackedSeq s)" "in_int64 (sp_rxSeq s)"
    and mt: "dk_meta (snd (FlushMeta (s, d))) = Some m"
  shows "read_log (log_text (sp_recs s)) = dk_log (snd (Rewrite (s, d)))
    \<and> read_log (log_text (sp_recs s) @ RecordLine r) = dk_log (snd (AppendLine r (Rewrite (s, d))))
    \<and> read_meta (meta_text m) = Some m"
proof (intro conjI)
  show "read_log (log_text (sp_recs s)) = dk_log (snd (Rewrite (s, d)))"
    using read_log_written [OF recs] by (simp add: Rewrite_def)
  have "read_log (log_text (sp_recs s @ [r])) = map Some (sp_recs s @ [r])"
    using recs new by (intro read_log_written) auto
  then show "read_log (log_text (sp_recs s) @ RecordLine r) = dk_log (snd (AppendLine r (Rewrite (s, d))))"
    by (simp add: log_text_def Rewrite_def AppendLine_def)
  show "read_meta (meta_text m) = Some m"
    using nums mt by (intro read_meta_written) (auto simp: FlushMeta_def)
qed

lemma spool_files_read_back_witness:
  fixes s r
  defines "r \<equiv> \<lparr>rc_seq = 1, rc_type = ''event.demo'', rc_id = ''A'', rc_ref = [], rc_ts = 5, rc_epoch = 0,
                rc_critical = True, rc_payload = fleet_Dump (JObject [])\<rparr>"
  defines "s \<equiv> fst (Open 10 1000 ''S'' \<lparr>dk_meta = None, dk_log = []\<rparr>)"
  shows "read_log (log_text (sp_recs s) @ RecordLine r) = [Some r]"
proof -
  have s: "sp_recs s = []" "sp_nextSeq s = 1" "sp_ackedSeq s = 0" "sp_rxSeq s = 0"
    by (simp_all add: s_def Open_def Let_def drop_acked_def FlushMeta_def Rewrite_def)
  have "read_log (log_text (sp_recs s) @ RecordLine r)
      = dk_log (snd (AppendLine r (Rewrite (s, \<lparr>dk_meta = None, dk_log = []\<rparr>))))"
    using spool_files_read_back [where s = s and r = r and p = "JObject []" and d = "\<lparr>dk_meta = None, dk_log = []\<rparr>"]
    by (simp add: s record_ok_def r_def in_int64_def FlushMeta_def)
  then show ?thesis by (simp add: s AppendLine_def Rewrite_def)
qed

end
