(* ===== verification/Fleet_Proto.thy ===== *)
theory Fleet_Proto
  imports Fleet_Spool
begin

text \<open>
  The protocol of the fleet link without its sockets (plugins/fleet/fleet_proto.h and
  fleet_proto.cpp): message types, envelopes and their text, ULIDs, the reconnect backoff, what a close
  code means, and the tracker of the inbound reliable stream. \<open>IsCriticalType\<close> is in \<open>Fleet_Spool\<close>,
  which uses it; redaction and addresses are in \<open>Fleet_Links\<close>. The random bytes of a ULID and the
  jitter of a delay are arguments.
\<close>

section \<open>Message types\<close>

definition IsEphemeralType :: "string \<Rightarrow> bool" where
  "IsEphemeralType t \<longleftrightarrow>
     t \<in> {''ping'', ''pong'', ''ack'', ''hello'', ''welcome'', ''error'', ''state.request'', ''state.snapshot''}"

fun type_loop :: "bool \<Rightarrow> string \<Rightarrow> bool" where
  "type_loop segStart [] = (\<not> segStart)"
| "type_loop segStart (c # cs) =
     (if c = CHR ''.'' then (if segStart then False else type_loop True cs)
      else if islower c \<or> (\<not> segStart \<and> (isdigit c \<or> c = CHR ''_'')) then type_loop False cs
      else False)"

definition IsValidType :: "string \<Rightarrow> bool" where
  "IsValidType t \<longleftrightarrow> t \<noteq> [] \<and> length t \<le> 64 \<and> type_loop True t"

section \<open>ULIDs\<close>

definition kCrockford :: string where
  "kCrockford = ''0123456789ABCDEFGHJKMNPQRSTVWXYZ''"

text \<open>
  The 48 bits of the time in milliseconds and 80 random bits, as one number of 128 bits; the
  characters are its base 32 digits from the top, two zero bits in front.
\<close>

definition ulid_bits :: "int \<Rightarrow> nat list \<Rightarrow> nat" where
  "ulid_bits ms rnd =
     (let t = nat (if ms < 0 then 0 else ms) mod 2 ^ 48
      in t * 2 ^ 80 + foldl (\<lambda>v b. v * 256 + b) 0 rnd)"

definition NewUlid :: "int \<Rightarrow> nat list \<Rightarrow> string" where
  "NewUlid ms rnd = map (\<lambda>c. kCrockford ! (ulid_bits ms rnd div 2 ^ (5 * (25 - c)) mod 32)) [0..<26]"

definition IsUlid :: "string \<Rightarrow> bool" where
  "IsUlid s \<longleftrightarrow> length s = 26 \<and> list_all (\<lambda>c. c \<in> set kCrockford) s \<and> byte (hd s) \<le> byte (CHR ''7'')"

section \<open>Envelopes\<close>

record Envelope =
  en_v :: int
  en_type :: string
  en_id :: string
  en_seq :: int
  en_ack :: int
  en_ts :: int
  en_ref :: string
  en_epoch :: int
  en_payload :: json

definition kMaxFrameBytes :: nat where
  "kMaxFrameBytes = 2 ^ 20"

definition AppendHead :: "Envelope \<Rightarrow> string" where
  "AppendHead e =
     ''{'' @ json_key ''v'' @ to_string (en_v e)
       @ '','' @ json_key ''type'' @ AppendQuoted (en_type e)
       @ '','' @ json_key ''id'' @ AppendQuoted (en_id e)
       @ (if 0 < en_seq e then '','' @ json_key ''seq'' @ to_string (en_seq e) else [])
       @ (if 0 \<le> en_ack e then '','' @ json_key ''ack'' @ to_string (en_ack e) else [])
       @ '','' @ json_key ''ts'' @ to_string (en_ts e)
       @ '','' @ json_key ''ref'' @ (if en_ref e = [] then ''null'' else AppendQuoted (en_ref e))
       @ (if 0 < en_epoch e then '','' @ json_key ''epoch'' @ to_string (en_epoch e) else [])
       @ '','' @ json_key ''payload''"

definition Encode :: "Envelope \<Rightarrow> string" where
  "Encode e = AppendHead e @ fleet_Dump (if IsObject (en_payload e) then en_payload e else JObject []) @ ''}''"

definition EncodeRaw :: "Envelope \<Rightarrow> string \<Rightarrow> string" where
  "EncodeRaw e payloadJson = AppendHead e @ (if payloadJson = [] then ''{}'' else payloadJson) @ ''}''"

text \<open>\<open>static_cast<int>\<close> of a 64-bit integer keeps the low 32 bits.\<close>

definition to_int32 :: "int \<Rightarrow> int" where
  "to_int32 i = (i + 2 ^ 31) mod 2 ^ 32 - 2 ^ 31"

text \<open>A number that is absent (or null) keeps the default, and must not be below \<open>lo\<close>.\<close>

definition opt_int :: "json \<Rightarrow> string \<Rightarrow> int \<Rightarrow> int \<Rightarrow> int option" where
  "opt_int v key lo dflt =
     (case Get v key of
        None \<Rightarrow> Some dflt
      | Some JNull \<Rightarrow> Some dflt
      | Some (JInt i) \<Rightarrow> if i < lo then None else Some i
      | Some _ \<Rightarrow> None)"

definition str_or_empty :: "json \<Rightarrow> string \<Rightarrow> string" where
  "str_or_empty v key = (case Get v key of Some (JString s) \<Rightarrow> s | _ \<Rightarrow> [])"

definition epoch_of :: "json \<Rightarrow> int" where
  "epoch_of v = (case Get v ''epoch'' of None \<Rightarrow> 0 | Some JNull \<Rightarrow> 0 | Some x \<Rightarrow> num_or 0 x)"

definition decode_fields :: "json \<Rightarrow> string + Envelope" where
  "decode_fields v =
     (case Get v ''v'' of
        Some (JInt ver) \<Rightarrow>
          (if \<not> IsValidType (str_or_empty v ''type'') then Inl ''missing or invalid type''
           else case opt_int v ''seq'' 1 0 of
                  None \<Rightarrow> Inl ''invalid seq''
                | Some seq \<Rightarrow>
                    (case opt_int v ''ack'' 0 (- 1) of
                       None \<Rightarrow> Inl ''invalid ack''
                     | Some ack \<Rightarrow>
                         (case Get v ''payload'' of
                            None \<Rightarrow> Inl ''missing payload''
                          | Some p \<Rightarrow>
                              if \<not> IsObject p then Inl ''payload is not an object''
                              else Inr \<lparr>en_v = to_int32 ver, en_type = str_or_empty v ''type'',
                                        en_id = str_or_empty v ''id'', en_seq = seq, en_ack = ack,
                                        en_ts = (case Get v ''ts'' of None \<Rightarrow> 0 | Some x \<Rightarrow> num_or 0 x),
                                        en_ref = str_or_empty v ''ref'', en_epoch = epoch_of v,
                                        en_payload = p\<rparr>)))
      | _ \<Rightarrow> Inl ''missing v'')"

definition Decode :: "string \<Rightarrow> string + Envelope" where
  "Decode s =
     (if length s > kMaxFrameBytes then Inl ''frame too large''
      else case fleet_Parse 64 s of
             Inl e \<Rightarrow> Inl (''invalid JSON: '' @ e)
           | Inr v \<Rightarrow> if IsObject v then decode_fields v else Inl ''envelope is not an object'')"

section \<open>Backoff\<close>

record Backoff =
  bo_baseMs :: int
  bo_capMs :: int
  bo_resetAfterMs :: int
  bo_attempt :: nat

fun double_until :: "nat \<Rightarrow> int \<Rightarrow> int \<Rightarrow> int" where
  "double_until 0 cap v = v"
| "double_until (Suc n) cap v = (if v < cap then double_until n cap (v * 2) else v)"

definition Ceiling :: "Backoff \<Rightarrow> int \<Rightarrow> int \<Rightarrow> int" where
  "Ceiling b capOverride baseOverride =
     (let base = (if 0 < baseOverride then baseOverride else bo_baseMs b);
          cap = (if 0 < capOverride then capOverride else bo_capMs b)
      in min (double_until (bo_attempt b) cap base) cap)"

text \<open>\<open>draw c\<close> is the number the generator draws from \<open>0 .. c\<close>.\<close>

definition Next :: "(int \<Rightarrow> int) \<Rightarrow> int \<Rightarrow> int \<Rightarrow> Backoff \<Rightarrow> int \<times> Backoff" where
  "Next draw capOverride baseOverride b =
     (let ceil = Ceiling b capOverride baseOverride;
          b' = (if bo_attempt b < 62 then b\<lparr>bo_attempt := bo_attempt b + 1\<rparr> else b)
      in (if ceil \<le> 0 then 0 else draw ceil, b'))"

definition OnSessionEnded :: "int \<Rightarrow> Backoff \<Rightarrow> Backoff" where
  "OnSessionEnded durationMs b = (if durationMs \<ge> bo_resetAfterMs b then b\<lparr>bo_attempt := 0\<rparr> else b)"

section \<open>Inbound tracking\<close>

datatype Verdict = Accept | Duplicate | OutOfOrder

text \<open>\<open>pending_\<close> is a \<open>std::map\<close>: an association list in the order of its keys.\<close>

record RxTracker =
  rx_received :: int
  rx_processed :: int
  rx_lastAckSent :: int
  rx_firstUnackedAtMs :: int
  rx_pending :: "(int \<times> bool) list"
  rx_idOrder :: "string list"
  rx_ids :: "string set"

definition kDedupeWindow :: nat where
  "kDedupeWindow = 10000"

definition empty_rx :: RxTracker where
  "empty_rx = \<lparr>rx_received = 0, rx_processed = 0, rx_lastAckSent = - 1, rx_firstUnackedAtMs = - 1, rx_pending = [],
               rx_idOrder = [], rx_ids = {}\<rparr>"

definition Rx_Reset :: "int \<Rightarrow> RxTracker \<Rightarrow> RxTracker" where
  "Rx_Reset processedSeq s =
     s\<lparr>rx_received := max 0 processedSeq, rx_processed := max 0 processedSeq, rx_lastAckSent := - 1,
       rx_firstUnackedAtMs := - 1, rx_pending := []\<rparr>"

fun map_put :: "int \<Rightarrow> bool \<Rightarrow> (int \<times> bool) list \<Rightarrow> (int \<times> bool) list" where
  "map_put k v [] = [(k, v)]"
| "map_put k v ((k', v') # m) =
     (if k < k' then (k, v) # (k', v') # m else if k = k' then (k, v) # m else (k', v') # map_put k v m)"

definition RememberId :: "string \<Rightarrow> RxTracker \<Rightarrow> RxTracker" where
  "RememberId ident s =
     (if ident = [] \<or> ident \<in> rx_ids s then s
      else
        let order = rx_idOrder s @ [ident]; ids = insert ident (rx_ids s)
        in if length order > kDedupeWindow then s\<lparr>rx_idOrder := tl order, rx_ids := ids - {hd order}\<rparr>
           else s\<lparr>rx_idOrder := order, rx_ids := ids\<rparr>)"

definition OnReliable :: "int \<Rightarrow> string \<Rightarrow> RxTracker \<Rightarrow> Verdict \<times> RxTracker" where
  "OnReliable seq ident s =
     (if seq \<le> rx_received s then (Duplicate, s)
      else if ident \<noteq> [] \<and> ident \<in> rx_ids s then (Duplicate, s)
      else if seq \<noteq> rx_received s + 1 then (OutOfOrder, s)
      else (Accept, RememberId ident (s\<lparr>rx_received := seq, rx_pending := map_put seq False (rx_pending s)\<rparr>)))"

definition OnEphemeralId :: "string \<Rightarrow> RxTracker \<Rightarrow> bool \<times> RxTracker" where
  "OnEphemeralId ident s =
     (if ident = [] then (True, s)
      else if ident \<in> rx_ids s then (False, s)
      else (True, RememberId ident s))"

fun take_done :: "int \<Rightarrow> (int \<times> bool) list \<Rightarrow> int \<times> (int \<times> bool) list" where
  "take_done p [] = (p, [])"
| "take_done p ((k, d) # m) = (if d \<and> k = p + 1 then take_done k m else (p, (k, d) # m))"

definition MarkDone :: "int \<Rightarrow> int \<Rightarrow> RxTracker \<Rightarrow> bool \<times> RxTracker" where
  "MarkDone seq nowMs s =
     (if map_of (rx_pending s) seq = None then (False, s)
      else
        let (p, m) = take_done (rx_processed s) (map_put seq True (rx_pending s));
            moved = (p \<noteq> rx_processed s);
            first = (if moved \<and> rx_firstUnackedAtMs s < 0 then nowMs else rx_firstUnackedAtMs s)
        in (moved, s\<lparr>rx_processed := p, rx_pending := m, rx_firstUnackedAtMs := first\<rparr>))"

definition AckDue :: "int \<Rightarrow> RxTracker \<Rightarrow> bool" where
  "AckDue nowMs s =
     (if rx_processed s \<le> rx_lastAckSent s \<or> rx_processed s = 0 then False
      else if rx_processed s - max (rx_lastAckSent s) 0 \<ge> 32 then True
      else rx_firstUnackedAtMs s \<ge> 0 \<and> nowMs - rx_firstUnackedAtMs s \<ge> 1000)"

definition NextAckDueMs :: "RxTracker \<Rightarrow> int" where
  "NextAckDueMs s =
     (if rx_processed s \<le> rx_lastAckSent s \<or> rx_processed s = 0 \<or> rx_firstUnackedAtMs s < 0 then - 1
      else rx_firstUnackedAtMs s + 1000)"

definition OnAckSent :: "int \<Rightarrow> RxTracker \<Rightarrow> RxTracker" where
  "OnAckSent ackedSeq s =
     (let l = max (rx_lastAckSent s) ackedSeq
      in s\<lparr>rx_lastAckSent := l, rx_firstUnackedAtMs := (if l \<ge> rx_processed s then - 1 else rx_firstUnackedAtMs s)\<rparr>)"

section \<open>Envelopes read back\<close>

definition envelope_json :: "Envelope \<Rightarrow> json" where
  "envelope_json e =
     JObject ([(''v'', JInt (en_v e)), (''type'', JString (en_type e)), (''id'', JString (en_id e))]
       @ (if 0 < en_seq e then [(''seq'', JInt (en_seq e))] else [])
       @ (if 0 \<le> en_ack e then [(''ack'', JInt (en_ack e))] else [])
       @ [(''ts'', JInt (en_ts e)), (''ref'', if en_ref e = [] then JNull else JString (en_ref e))]
       @ (if 0 < en_epoch e then [(''epoch'', JInt (en_epoch e))] else [])
       @ [(''payload'', en_payload e)])"

definition envelope_ok :: "Envelope \<Rightarrow> bool" where
  "envelope_ok e \<longleftrightarrow>
     - (2 ^ 31) \<le> en_v e \<and> en_v e < 2 ^ 31 \<and> IsValidType (en_type e)
     \<and> 0 \<le> en_seq e \<and> in_int64 (en_seq e) \<and> - 1 \<le> en_ack e \<and> in_int64 (en_ack e) \<and> in_int64 (en_ts e)
     \<and> 0 \<le> en_epoch e \<and> in_int64 (en_epoch e) \<and> IsObject (en_payload e) \<and> json_ok (en_payload e) 64"

lemma Encode_json:
  assumes "IsObject (en_payload e)"
  shows "Encode e = fleet_Dump (envelope_json e)"
  using assms
  by (simp add: Encode_def AppendHead_def envelope_json_def fleet_Dump_def AppendQuoted_eq json_key_def plain_keys)

lemma to_int32_id: "- (2 ^ 31) \<le> i \<Longrightarrow> i < 2 ^ 31 \<Longrightarrow> to_int32 i = i"
  by (simp add: to_int32_def)

lemma envelope_json_ok: "envelope_ok e \<Longrightarrow> json_ok (envelope_json e) 65"
  by (auto simp: envelope_ok_def envelope_json_def in_int64_def)

lemma decode_envelope_json:
  assumes "envelope_ok e"
  shows "decode_fields (envelope_json e) = Inr e"
proof -
  have get: "Get (envelope_json e) ''v'' = Some (JInt (en_v e))"
    "Get (envelope_json e) ''type'' = Some (JString (en_type e))"
    "Get (envelope_json e) ''id'' = Some (JString (en_id e))"
    "Get (envelope_json e) ''seq'' = (if 0 < en_seq e then Some (JInt (en_seq e)) else None)"
    "Get (envelope_json e) ''ack'' = (if 0 \<le> en_ack e then Some (JInt (en_ack e)) else None)"
    "Get (envelope_json e) ''ts'' = Some (JInt (en_ts e))"
    "Get (envelope_json e) ''ref'' = Some (if en_ref e = [] then JNull else JString (en_ref e))"
    "Get (envelope_json e) ''epoch'' = (if 0 < en_epoch e then Some (JInt (en_epoch e)) else None)"
    "Get (envelope_json e) ''payload'' = Some (en_payload e)"
    by (simp_all add: Get_def envelope_json_def)
  have "opt_int (envelope_json e) ''seq'' 1 0 = Some (en_seq e)"
    "opt_int (envelope_json e) ''ack'' 0 (- 1) = Some (en_ack e)"
    "epoch_of (envelope_json e) = en_epoch e"
    using assms by (auto simp: opt_int_def epoch_of_def get envelope_ok_def)
  with assms show ?thesis
    by (simp add: decode_fields_def str_or_empty_def get envelope_ok_def to_int32_id)
qed

text \<open>
  C14: An envelope that is sent is received as it was: decoding the text of any well-formed envelope
  that fits a frame gives the same version, type, ids, numbers, reference, epoch and payload, with
  the fields that \<open>Encode\<close> leaves out (no number, no ack, no reference, epoch 0) back at their
  defaults.
\<close>

theorem envelope_roundtrip:
  assumes ok: "envelope_ok e" and fits: "length (Encode e) \<le> kMaxFrameBytes"
  shows "Decode (Encode e) = Inr e"
proof -
  have obj: "IsObject (en_payload e)" using ok by (simp add: envelope_ok_def)
  have "fleet_Parse 64 (Encode e) = Inr (envelope_json e)"
    unfolding Encode_json [OF obj] using envelope_json_ok [OF ok] by (intro fleet_Parse_Dump) simp
  moreover have "IsObject (envelope_json e)" by (simp add: envelope_json_def)
  ultimately show ?thesis using fits decode_envelope_json [OF ok] by (simp add: Decode_def)
qed

lemma envelope_roundtrip_witness:
  fixes e
  defines "e \<equiv> \<lparr>en_v = 1, en_type = ''cmd.result'', en_id = ''A'', en_seq = 7, en_ack = - 1, en_ts = 5, en_ref = [],
                en_epoch = 0, en_payload = JObject []\<rparr>"
  shows "Decode (Encode e) = Inr e"
proof (rule envelope_roundtrip)
  show "envelope_ok e"
    by (simp add: e_def envelope_ok_def in_int64_def IsValidType_def islower_def)
  have "length (Encode e) < 200"
    by (simp add: e_def Encode_def AppendHead_def json_key_def AppendQuoted_def fleet_Dump_def to_string_def
        dec_nat.simps quoted_byte_def)
  then show "length (Encode e) \<le> kMaxFrameBytes" by (simp add: kMaxFrameBytes_def)
qed

section \<open>Delays\<close>

lemma double_until_min:
  assumes "0 < v"
  shows "min (double_until n cap v) cap = min (v * 2 ^ n) cap"
  using assms
proof (induction n arbitrary: v)
  case (Suc n)
  show ?case
  proof (cases "v < cap")
    case True
    with Suc show ?thesis by (simp add: mult.assoc)
  next
    case False
    have "(1 :: int) \<le> 2 ^ Suc n" by (rule one_le_power) simp
    then have "v * 1 \<le> v * 2 ^ Suc n" using Suc.prems by (intro mult_left_mono) simp_all
    then have "cap \<le> v * 2 ^ Suc n" using False by linarith
    with False show ?thesis by simp
  qed
qed simp

text \<open>
  The bound of the next delay is \<open>min(cap, base * 2^attempt)\<close>, the formula of the protocol, with the
  overrides of the close code in place of base and cap; the loop that computes it never doubles past
  twice the cap.
\<close>

theorem backoff_formula:
  assumes "0 < bo_baseMs b"
  shows "Ceiling b capOverride baseOverride =
           min ((if 0 < baseOverride then baseOverride else bo_baseMs b) * 2 ^ bo_attempt b)
               (if 0 < capOverride then capOverride else bo_capMs b)"
  using assms double_until_min by (simp add: Ceiling_def Let_def)

lemma backoff_formula_witness:
  "Ceiling \<lparr>bo_baseMs = 1000, bo_capMs = 30000, bo_resetAfterMs = 60000, bo_attempt = 3\<rparr> 0 0 = 8000"
  using backoff_formula [of "\<lparr>bo_baseMs = 1000, bo_capMs = 30000, bo_resetAfterMs = 60000, bo_attempt = 3\<rparr>" 0 0]
  by simp

section \<open>The inbound stream\<close>

datatype rx_event =
    Reliable int string
  | Ephemeral string
  | Done int int
  | AckSent int

text \<open>
  One event at the tracker, with the numbers that were accepted so far, in order, and those whose
  handler has finished since.
\<close>

fun rx_step :: "rx_event \<Rightarrow> RxTracker \<times> int list \<times> int set \<Rightarrow> RxTracker \<times> int list \<times> int set" where
  "rx_step (Reliable q i) (s, acc, dn) =
     (case OnReliable q i s of (v, s') \<Rightarrow> (s', if v = Accept then acc @ [q] else acc, dn))"
| "rx_step (Ephemeral i) (s, acc, dn) = (snd (OnEphemeralId i s), acc, dn)"
| "rx_step (Done q now) (s, acc, dn) = (snd (MarkDone q now s), acc, if q \<in> set acc then insert q dn else dn)"
| "rx_step (AckSent q) (s, acc, dn) = (OnAckSent q s, acc, dn)"

definition pending_of :: "int set \<Rightarrow> int \<Rightarrow> int \<Rightarrow> (int \<times> bool) list" where
  "pending_of dn p r = map (\<lambda>k. (k, k \<in> dn)) [p + 1..r]"

definition rx_inv :: "int \<Rightarrow> RxTracker \<times> int list \<times> int set \<Rightarrow> bool" where
  "rx_inv p = (\<lambda>(s, acc, dn).
     acc = [p + 1..rx_received s] \<and> p \<le> rx_processed s \<and> rx_processed s \<le> rx_received s
     \<and> rx_pending s = pending_of dn (rx_processed s) (rx_received s)
     \<and> {p + 1..rx_processed s} \<subseteq> dn \<and> dn \<subseteq> {p + 1..rx_received s} \<and> rx_processed s + 1 \<notin> dn)"

lemma RememberId_sel [simp]:
  "rx_received (RememberId i s) = rx_received s" "rx_processed (RememberId i s) = rx_processed s"
  "rx_pending (RememberId i s) = rx_pending s"
  by (simp_all add: RememberId_def Let_def)

lemma map_put_last: "\<forall>k' \<in> fst ` set m. k' < k \<Longrightarrow> map_put k v m = m @ [(k, v)]"
  by (induction k v m rule: map_put.induct) auto

lemma map_put_key:
  "sorted_wrt (<) ks \<Longrightarrow> q \<in> set ks \<Longrightarrow> map_put q True (map (\<lambda>k. (k, k \<in> dn)) ks) = map (\<lambda>k. (k, k \<in> insert q dn)) ks"
  by (induction ks) auto

lemma pending_of_get: "map_of (pending_of dn p r) q \<noteq> None \<longleftrightarrow> q \<in> {p + 1..r}"
  by (auto simp: pending_of_def map_of_map_restrict restrict_map_def)

lemma take_done_pending:
  assumes "p \<le> r"
  shows "\<exists>p'. take_done p (pending_of dn p r) = (p', pending_of dn p' r) \<and> p \<le> p' \<and> p' \<le> r
    \<and> {p + 1..p'} \<subseteq> dn \<and> (p' < r \<longrightarrow> p' + 1 \<notin> dn)"
  using assms
proof (induction "nat (r - p)" arbitrary: p)
  case 0
  then show ?case by (auto simp: pending_of_def)
next
  case (Suc n)
  then have less: "p < r" by simp
  then have cons: "pending_of dn p r = (p + 1, p + 1 \<in> dn) # pending_of dn (p + 1) r"
    by (simp add: pending_of_def upto_rec1)
  show ?case
  proof (cases "p + 1 \<in> dn")
    case True
    have n: "n = nat (r - (p + 1))" using Suc.hyps(2) by simp
    obtain p' where p': "take_done (p + 1) (pending_of dn (p + 1) r) = (p', pending_of dn p' r)" "p + 1 \<le> p'" "p' \<le> r"
      "{p + 1 + 1..p'} \<subseteq> dn" "p' < r \<longrightarrow> p' + 1 \<notin> dn"
      using Suc.hyps(1) [OF n] less by auto
    have "{p + 1..p'} = insert (p + 1) {p + 1 + 1..p'}" using p'(2) by auto
    with True p' show ?thesis by (intro exI [of _ p']) (simp add: cons)
  next
    case False
    with less show ?thesis by (intro exI [of _ p]) (simp add: cons)
  qed
qed

lemma accept_pending:
  assumes "p \<le> r" and "dn \<subseteq> {..r}"
  shows "map_put (r + 1) False (pending_of dn p r) = pending_of dn p (r + 1)"
proof -
  have "map_put (r + 1) False (pending_of dn p r) = pending_of dn p r @ [(r + 1, False)]"
    by (rule map_put_last) (auto simp: pending_of_def)
  moreover have "[p + 1..r + 1] = [p + 1..r] @ [r + 1]" using assms(1) by (simp add: upto_rec2)
  moreover have "r + 1 \<notin> dn" using assms(2) by auto
  ultimately show ?thesis by (simp add: pending_of_def)
qed

lemma MarkDone_inv:
  assumes inv: "rx_inv p (s, acc, dn)" and q: "q \<in> {rx_processed s + 1..rx_received s}"
  shows "rx_inv p (snd (MarkDone q now s), acc, insert q dn)"
proof -
  let ?d = "insert q dn"
  have get: "map_of (rx_pending s) q \<noteq> None"
    using inv q pending_of_get [of dn "rx_processed s" "rx_received s" q] by (simp add: rx_inv_def)
  have put: "map_put q True (rx_pending s) = pending_of ?d (rx_processed s) (rx_received s)"
    using inv q by (simp add: rx_inv_def pending_of_def map_put_key strict_sorted_iff)
  obtain p' where p': "take_done (rx_processed s) (pending_of ?d (rx_processed s) (rx_received s))
      = (p', pending_of ?d p' (rx_received s))"
    and le: "rx_processed s \<le> p'" "p' \<le> rx_received s"
    and dn: "{rx_processed s + 1..p'} \<subseteq> ?d" "p' < rx_received s \<longrightarrow> p' + 1 \<notin> ?d"
    using take_done_pending [of "rx_processed s" "rx_received s" ?d] inv by (auto simp: rx_inv_def)
  have sub: "?d \<subseteq> {p + 1..rx_received s}" using inv q by (auto simp: rx_inv_def)
  have "p' + 1 \<notin> ?d" using dn(2) sub le(2) by (cases "p' < rx_received s") auto
  moreover have "{p + 1..p'} \<subseteq> {p + 1..rx_processed s} \<union> {rx_processed s + 1..p'}" by auto
  then have "{p + 1..p'} \<subseteq> ?d" using dn(1) inv by (auto simp: rx_inv_def)
  moreover obtain t where "snd (MarkDone q now s)
      = s\<lparr>rx_processed := p', rx_pending := pending_of ?d p' (rx_received s), rx_firstUnackedAtMs := t\<rparr>"
    using get by (auto simp: MarkDone_def put p' Let_def)
  ultimately show ?thesis using inv le sub by (simp add: rx_inv_def)
qed

lemma rx_inv_step:
  assumes inv: "rx_inv p st"
  shows "rx_inv p (rx_step e st)"
proof (cases st)
  case (fields s acc dn)
  show ?thesis
  proof (cases e)
    case (Reliable q i)
    have "dn \<subseteq> {..rx_received s}" using inv by (auto simp: fields rx_inv_def)
    then show ?thesis
      using inv accept_pending [of "rx_processed s" "rx_received s" dn]
      by (auto simp: fields Reliable OnReliable_def rx_inv_def upto_rec2)
  next
    case (Done q now)
    consider (finished) "q \<in> set acc" "q \<in> {rx_processed s + 1..rx_received s}" | (old) "q \<in> set acc" "q \<in> dn" "map_of (rx_pending s) q = None"
      | (unknown) "q \<notin> set acc" "map_of (rx_pending s) q = None"
      using inv pending_of_get [of dn "rx_processed s" "rx_received s" q] by (fastforce simp: fields rx_inv_def)
    then show ?thesis
    proof cases
      case finished
      then show ?thesis using MarkDone_inv inv by (simp add: fields Done)
    next
      case old
      then show ?thesis using inv by (simp add: fields Done MarkDone_def insert_absorb)
    next
      case unknown
      then show ?thesis using inv by (simp add: fields Done MarkDone_def)
    qed
  qed (use inv in \<open>simp_all add: fields rx_inv_def OnEphemeralId_def OnAckSent_def Let_def\<close>)
qed

interpretation rx: machine rx_step "\<lambda>_. True" "rx_inv p" for p
  by unfold_locales (rule rx_inv_step)



text \<open>
  A message whose number is the next one but whose id is in the window (the id of an ephemeral
  message, or a message sent again under a new number) is dropped as a duplicate without moving
  \<open>received_\<close>: everything behind it is out of order from then on, and the stream stands still.
\<close>

lemma known_id_blocks_stream:
  assumes "i \<noteq> []" "i \<in> rx_ids s" and "\<forall>(q, j) \<in> set ms. q = rx_received s + 1 \<longrightarrow> j = i"
  shows "fold (\<lambda>(q, j) s. snd (OnReliable q j s)) ms s = s"
  using assms(3) assms(1,2) by (induction ms) (auto simp: OnReliable_def)

lemma ephemeral_id_blocks_stream:
  "fst (OnReliable 1 ''X'' (snd (OnEphemeralId ''X'' empty_rx))) = Duplicate
   \<and> fst (OnReliable 2 ''Y'' (snd (OnReliable 1 ''X'' (snd (OnEphemeralId ''X'' empty_rx))))) = OutOfOrder"
  by (simp add: OnReliable_def OnEphemeralId_def RememberId_def empty_rx_def kDedupeWindow_def Let_def)

section \<open>Ids are ULIDs\<close>

lemma bytes_value_less: "\<forall>b \<in> set bs. b < 256 \<Longrightarrow> foldl (\<lambda>v b. v * 256 + b) 0 bs < 256 ^ length bs" for bs :: "nat list"
proof (induction bs rule: rev_induct)
  case (snoc b bs)
  then have "foldl (\<lambda>v b. v * 256 + b) 0 bs + 1 \<le> 256 ^ length bs" "b < 256" by auto
  then have "(foldl (\<lambda>v b. v * 256 + b) 0 bs + 1) * 256 \<le> 256 ^ length bs * 256" by (intro mult_right_mono) auto
  with \<open>b < 256\<close> show ?case by simp
qed simp

text \<open>
  A new id is a valid ULID: 26 characters of the alphabet, the first at most 7, for every time
  (also negative or far in the future) and every ten random bytes.
\<close>

theorem NewUlid_valid:
  assumes "length rnd = 10" and "\<forall>b \<in> set rnd. b < 256"
  shows "IsUlid (NewUlid ms rnd)"
proof -
  have "foldl (\<lambda>v b. v * 256 + b) 0 rnd < 256 ^ 10" using bytes_value_less [OF assms(2)] assms(1) by simp
  then have low: "foldl (\<lambda>v b. v * 256 + b) 0 rnd < 2 ^ 80" by simp
  have "nat (if ms < 0 then 0 else ms) mod 2 ^ 48 < 2 ^ 48" by simp
  then have "nat (if ms < 0 then 0 else ms) mod 2 ^ 48 * 2 ^ 80 + 2 ^ 80 \<le> (2 ^ 48 :: nat) * 2 ^ 80" by simp
  with low have "ulid_bits ms rnd < 2 ^ 48 * 2 ^ 80" unfolding ulid_bits_def Let_def by linarith
  then have "ulid_bits ms rnd < 2 ^ 125 * 8" by simp
  then have "ulid_bits ms rnd div 2 ^ 125 < 8" by (simp add: less_mult_imp_div_less mult.commute)
  moreover have "\<forall>k \<in> {0..<8}. byte (kCrockford ! k) \<le> byte (CHR ''7'')" by code_simp
  ultimately have "byte (hd (NewUlid ms rnd)) \<le> byte (CHR ''7'')"
    by (simp add: NewUlid_def upt_conv_Cons)
  moreover have "length kCrockford = 32" by code_simp
  then have "kCrockford ! (n mod 32) \<in> set kCrockford" for n by (intro nth_mem) simp
  then have "list_all (\<lambda>c. c \<in> set kCrockford) (NewUlid ms rnd)" by (simp add: NewUlid_def list_all_iff)
  ultimately show ?thesis by (simp add: IsUlid_def NewUlid_def)
qed

lemma NewUlid_valid_witness: "IsUlid (NewUlid 1700000000000 [0, 255, 1, 2, 3, 4, 5, 6, 7, 8])"
  by (rule NewUlid_valid) simp_all

end
