(* ===== verification/Fleet_Links.thy ===== *)
theory Fleet_Links
  imports Text_Input
begin

text \<open>
  The parts of plugins/fleet/fleet_proto.cpp that look at text: redaction of secrets, what a close
  code or an HTTP status means for the next attempt, and the checks on URLs and addresses.
  \<open>IsPrivateHostUrl\<close> is left out (it asks \<open>inet_pton\<close>).
\<close>

section \<open>Redaction\<close>

definition token_char :: "char \<Rightarrow> bool" where
  "token_char c \<longleftrightarrow> isalnum c \<or> c \<in> {CHR ''_'', CHR ''-'', CHR ''='', CHR ''+'', CHR ''/''}"

definition secret_prefixes :: "string list" where
  "secret_prefixes = [''rus_'', ''rfk_'', ''rhs_'', ''rst_'', ''RUE-'', ''Bearer '']"

text \<open>\<open>prev\<close> is \<open>s[i - 1]\<close>, None at the start.\<close>

definition at_boundary :: "char option \<Rightarrow> bool" where
  "at_boundary prev = (case prev of None \<Rightarrow> True | Some c \<Rightarrow> \<not> (isalnum c \<or> c = CHR ''_''))"

definition match_prefix :: "char option \<Rightarrow> string \<Rightarrow> string option" where
  "match_prefix prev s = find (\<lambda>p. starts_with p s \<and> (hd p = CHR ''B'' \<or> at_boundary prev)) secret_prefixes"

lemma match_prefix_Some:
  assumes "match_prefix prev s = Some p"
  shows "p \<in> set secret_prefixes" "starts_with p s"
  using assms unfolding match_prefix_def find_Some_iff by auto

lemma prefix_length: "p \<in> set secret_prefixes \<Longrightarrow> p \<noteq> []"
  by (auto simp: secret_prefixes_def)

function redact_loop :: "char option \<Rightarrow> string \<Rightarrow> string" where
  "redact_loop prev s =
     (if s = [] then []
      else case match_prefix prev s of
             Some p \<Rightarrow>
               let t = drop (length p) s
               in p @ ''***'' @ redact_loop (Some (last (p @ takeWhile token_char t))) (dropWhile token_char t)
           | None \<Rightarrow> hd s # redact_loop (Some (hd s)) (tl s))"
  by pat_completeness auto
termination
proof (relation "measure (\<lambda>(prev, s). length s)")
  fix prev s p t
  assume "s \<noteq> []" "match_prefix prev s = Some p" "t = drop (length p) s"
  moreover from this prefix_length match_prefix_Some have "p \<noteq> []" by blast
  moreover have "length (dropWhile token_char t) \<le> length t" by (rule length_dropWhile_le)
  ultimately show "((Some (last (p @ takeWhile token_char t)), dropWhile token_char t), prev, s)
      \<in> measure (\<lambda>(prev, s). length s)"
    by (cases p; cases s) auto
qed auto

declare redact_loop.simps [simp del]

definition Redact :: "string \<Rightarrow> string" where
  "Redact s = redact_loop None s"

section \<open>Close codes\<close>

record CloseAction =
  ca_fixedDelayMs :: int
  ca_capMs :: int
  ca_baseMs :: int
  ca_rejected :: bool
  ca_versionUnsupported :: bool
  ca_what :: string

definition no_action :: CloseAction where
  "no_action = \<lparr>ca_fixedDelayMs = - 1, ca_capMs = 0, ca_baseMs = 0, ca_rejected = False,
                ca_versionUnsupported = False, ca_what = []\<rparr>"

text \<open>Digits are read while the value is below a day.\<close>

fun retry_digits :: "int \<Rightarrow> string \<Rightarrow> int" where
  "retry_digits v [] = v"
| "retry_digits v (c # cs) = (if isdigit c \<and> v < 86400000 then retry_digits (v * 10 + int (byte c - 48)) cs else v)"

definition ParseRetryAfterMs :: "string \<Rightarrow> int" where
  "ParseRetryAfterMs reason =
     (let from = (case find_sub ''retry_after_ms'' reason of None \<Rightarrow> 0 | Some k \<Rightarrow> k + 14);
          ds = dropWhile (\<lambda>c. \<not> isdigit c) (drop from reason)
      in if ds = [] then - 1 else retry_digits 0 ds)"

definition ten_minutes :: int where
  "ten_minutes = 10 * 60 * 1000"

definition close_by_code :: "int \<Rightarrow> string \<Rightarrow> CloseAction" where
  "close_by_code code reason =
     (if code = 1000 then no_action\<lparr>ca_what := ''closed normally''\<rparr>
      else if code = 1001 then no_action\<lparr>ca_what := ''platform going away''\<rparr>
      else if code = 4400 then no_action\<lparr>ca_what := ''protocol error''\<rparr>
      else if code = 4401 \<or> code = 4403 then
        no_action\<lparr>ca_what := (if code = 4401 then ''credentials rejected (4401)'' else ''credentials revoked (4403)''),
                  ca_rejected := True, ca_capMs := ten_minutes\<rparr>
      else if code = 4409 then no_action\<lparr>ca_what := ''replaced by a newer session (4409)'', ca_fixedDelayMs := 30000\<rparr>
      else if code = 4426 then
        no_action\<lparr>ca_what := ''protocol version unsupported (4426): update Ready Up'', ca_versionUnsupported := True,
                  ca_capMs := ten_minutes\<rparr>
      else if code = 4429 then
        no_action\<lparr>ca_what := ''rate limited (4429)'',
                  ca_fixedDelayMs := (if 0 \<le> ParseRetryAfterMs reason then ParseRetryAfterMs reason else 30000)\<rparr>
      else if code = 4503 then no_action\<lparr>ca_what := ''platform draining (4503)'', ca_baseMs := 2000\<rparr>
      else no_action\<lparr>ca_what := ''closed with code '' @ to_string code\<rparr>)"

definition ClassifyClose :: "int \<Rightarrow> string \<Rightarrow> CloseAction" where
  "ClassifyClose code reason =
     (let a = close_by_code code reason
      in if reason \<noteq> [] \<and> code \<noteq> 4429 then a\<lparr>ca_what := ca_what a @ '': '' @ Redact (take 120 reason)\<rparr> else a)"

definition ClassifyHttpStatus :: "int \<Rightarrow> int \<Rightarrow> CloseAction" where
  "ClassifyHttpStatus status retryAfterMs =
     (let what = ''HTTP '' @ to_string status
      in if status = 401 \<or> status = 403 then
           no_action\<lparr>ca_rejected := True, ca_capMs := ten_minutes, ca_what := what @ '' (credentials rejected)''\<rparr>
         else if status = 426 then
           no_action\<lparr>ca_versionUnsupported := True, ca_capMs := ten_minutes,
                     ca_what := what @ '' (protocol version unsupported)''\<rparr>
         else if status = 429 then
           no_action\<lparr>ca_fixedDelayMs := (if 0 < retryAfterMs then retryAfterMs else 30000),
                     ca_what := what @ '' (rate limited)''\<rparr>
         else if status = 503 then no_action\<lparr>ca_baseMs := 2000, ca_what := what\<rparr>
         else no_action\<lparr>ca_what := what\<rparr>)"

section \<open>URLs\<close>

definition JoinUrl :: "string \<Rightarrow> string \<Rightarrow> bool \<Rightarrow> string" where
  "JoinUrl base path ws =
     (let b = rev (dropWhile (\<lambda>c. c = CHR ''/'') (rev base));
          b' = (if \<not> ws then b
                else if starts_with ''https://'' b then ''wss://'' @ drop 8 b
                else if starts_with ''http://'' b then ''ws://'' @ drop 7 b
                else b)
      in b' @ path)"

definition SchemeOf :: "string \<Rightarrow> string" where
  "SchemeOf url = (case find_sub ''://'' url of None \<Rightarrow> [] | Some p \<Rightarrow> Lower (take p url))"

definition url_end :: "char \<Rightarrow> bool" where
  "url_end c \<longleftrightarrow> c \<in> {CHR ''/'', CHR ''?'', CHR ''#''}"

text \<open>What follows the last \<open>@\<close>, all of it without one.\<close>

definition after_at :: "string \<Rightarrow> string" where
  "after_at s = rev (takeWhile (\<lambda>c. c \<noteq> CHR 0x40) (rev s))"

definition AuthorityOf :: "string \<Rightarrow> string" where
  "AuthorityOf url =
     (case find_sub ''://'' url of
        None \<Rightarrow> []
      | Some p \<Rightarrow> after_at (takeWhile (\<lambda>c. \<not> url_end c) (drop (p + 3) url)))"

definition HostOf :: "string \<Rightarrow> string" where
  "HostOf url =
     (let auth = AuthorityOf url
      in if take 1 auth = ''['' then
           (if CHR '']'' \<in> set auth then takeWhile (\<lambda>c. c \<noteq> CHR '']'') (drop 1 auth) else [])
         else Lower (takeWhile (\<lambda>c. c \<noteq> CHR '':'') auth))"

definition PortOf :: "string \<Rightarrow> string" where
  "PortOf url =
     (let auth = AuthorityOf url;
          tail = (if take 1 auth = ''['' then dropWhile (\<lambda>c. c \<noteq> CHR '']'') auth else auth)
      in drop 1 (dropWhile (\<lambda>c. c \<noteq> CHR '':'') tail))"

definition CheckUrlAllowed :: "string \<Rightarrow> bool \<Rightarrow> string" where
  "CheckUrlAllowed url insecure =
     (let s = SchemeOf url
      in if s = ''https'' \<or> s = ''wss'' then []
         else if s = ''http'' \<or> s = ''ws'' then
           (if \<not> insecure
            then ''plain '' @ s @ '':// is refused: use '' @ (if s = ''http'' then ''https'' else ''wss'')
                 @ ''://, or opt in with `insecure = 1` in fleet.cfg or `ru fleet enroll <url> <code> --insecure` (the token then travels unencrypted)''
            else [])
         else ''unsupported URL scheme (want https:// or wss://)'')"

definition UpgradeSameHostWs :: "string \<Rightarrow> string \<Rightarrow> string" where
  "UpgradeSameHostWs base wsUrl =
     (if SchemeOf base \<noteq> ''https'' \<or> SchemeOf wsUrl \<noteq> ''ws'' then []
      else if HostOf base = [] \<or> HostOf base \<noteq> HostOf wsUrl then []
      else
        let bp = PortOf base; wp = PortOf wsUrl;
            p = (case find_sub ''://'' wsUrl of None \<Rightarrow> 0 | Some k \<Rightarrow> k) + 3
        in if \<not> (wp = [] \<or> wp = ''80'' \<or> wp = bp \<or> (wp = ''443'' \<and> bp = [])) then []
           else ''wss://'' @ AuthorityOf base @ dropWhile (\<lambda>c. \<not> url_end c) (drop p wsUrl))"

section \<open>Public addresses\<close>

definition addr_junk :: "char \<Rightarrow> bool" where
  "addr_junk c \<longleftrightarrow> c \<in> {CHR '' '', CHR 0x09, CHR 0x0D, CHR 0x0A, quote_char, CHR 0x27}"

definition addr_char :: "char \<Rightarrow> bool" where
  "addr_char c \<longleftrightarrow> isalnum c \<or> c \<in> {CHR ''.'', CHR ''-'', CHR '':'', CHR ''['', CHR '']''}"

definition v6_char :: "char \<Rightarrow> bool" where
  "v6_char c \<longleftrightarrow> isxdigit c \<or> c = CHR '':'' \<or> c = CHR ''.''"

text \<open>The host, the port text and whether it is an IPv6 address.\<close>

definition split_addr :: "string \<Rightarrow> (string \<times> string \<times> bool) option" where
  "split_addr s =
     (if take 1 s = ''['' then
        (if CHR '']'' \<notin> set s then None
         else
           let host = takeWhile (\<lambda>c. c \<noteq> CHR '']'') (drop 1 s);
               rest = drop 1 (dropWhile (\<lambda>c. c \<noteq> CHR '']'') s)
           in if rest = [] then Some (host, [], True)
              else if hd rest \<noteq> CHR '':'' then None
              else Some (host, tl rest, True))
      else if CHR ''['' \<in> set s \<or> CHR '']'' \<in> set s then None
      else if count_list s (CHR '':'') = 0 then Some (s, [], False)
      else if count_list s (CHR '':'') = 1
        then Some (takeWhile (\<lambda>c. c \<noteq> CHR '':'') s, drop 1 (dropWhile (\<lambda>c. c \<noteq> CHR '':'') s), False)
      else Some (s, [], True))"

definition addr_port :: "string \<Rightarrow> string \<Rightarrow> int \<Rightarrow> int option" where
  "addr_port s port gamePort =
     (if port \<noteq> [] \<or> last s = CHR '':''
      then if port = [] \<or> length port > 5 \<or> \<not> list_all isdigit port then None else Some (fst (strtol port))
      else Some gamePort)"

definition NormalizePublicAddr :: "string \<Rightarrow> int \<Rightarrow> string" where
  "NormalizePublicAddr raw gamePort =
     (let s = trim_by addr_junk raw
      in if s = [] \<or> length s > 253 \<or> \<not> list_all addr_char s then []
         else case split_addr s of
                None \<Rightarrow> []
              | Some (host, port, v6) \<Rightarrow>
                  if host = [] \<or> (v6 \<and> \<not> list_all v6_char host) \<or> (\<not> v6 \<and> CHR '':'' \<in> set host)
                     \<or> host \<in> {''0.0.0.0'', ''::'', ''0''} then []
                  else case addr_port s port gamePort of
                         None \<Rightarrow> []
                       | Some p \<Rightarrow>
                           if p < 1 \<or> p > 65535 then []
                           else (if v6 then ''['' @ host @ '']'' else host) @ '':'' @ to_string p)"

definition loopback_addr :: "string \<Rightarrow> bool" where
  "loopback_addr a \<longleftrightarrow> starts_with ''127.'' a \<or> starts_with ''localhost:'' a \<or> starts_with ''[::1]:'' a"

fun pick_detected :: "string list \<Rightarrow> int \<Rightarrow> string" where
  "pick_detected [] gamePort = []"
| "pick_detected (d # ds) gamePort =
     (let a = NormalizePublicAddr d gamePort
      in if a = [] \<or> loopback_addr a then pick_detected ds gamePort else a)"

definition PickPublicAddr :: "string \<Rightarrow> string list \<Rightarrow> int \<Rightarrow> string" where
  "PickPublicAddr configured detected gamePort =
     (let c = NormalizePublicAddr configured gamePort in if c \<noteq> [] then c else pick_detected detected gamePort)"

section \<open>Secrets do not show\<close>

lemma prefix_tokens: "p \<in> set secret_prefixes \<Longrightarrow> list_all token_char (butlast p)"
  by (auto simp: secret_prefixes_def token_char_def isalnum_def islower_def isupper_def)

text \<open>Behind a character that no token has, what follows does not decide whether a prefix matches.\<close>

lemma starts_with_cut:
  assumes q: "q \<in> set secret_prefixes" and a: "a \<noteq> []" "\<not> token_char (last a)"
  shows "starts_with q (a @ x) \<longleftrightarrow> starts_with q a"
proof (cases "length q \<le> length a")
  case False
  have "\<not> starts_with q (a @ x)"
  proof
    assume "starts_with q (a @ x)"
    then have "prefix q (a @ x)" "prefix a (a @ x)" by (simp_all add: starts_with_prefix)
    then have "prefix a q" using False prefix_length_prefix by (metis nat_le_linear)
    then obtain y where y: "q = a @ y" by (rule prefixE)
    then have "y \<noteq> []" using False by auto
    then have "last a \<in> set (butlast q)" using a(1) by (simp add: y butlast_append)
    then show False using prefix_tokens [OF q] a(2) by (auto simp: list_all_iff)
  qed
  moreover have "\<not> starts_with q a" using False by (auto simp: starts_with_def)
  ultimately show ?thesis by simp
qed (simp add: starts_with_def)

lemma match_prefix_cut:
  assumes "a \<noteq> []" "\<not> token_char (last a)"
  shows "match_prefix prev (a @ x) = match_prefix prev a"
  unfolding match_prefix_def using starts_with_cut [OF _ assms] by (intro find_cong) auto

definition token_prefixes :: "string list" where
  "token_prefixes = [''rus_'', ''rfk_'', ''rhs_'', ''rst_'', ''RUE-'']"

lemma token_prefix_chars: "p \<in> set token_prefixes \<Longrightarrow> list_all token_char p"
  by (auto simp: token_prefixes_def token_char_def isalnum_def islower_def isupper_def)

lemma match_token: "p \<in> set token_prefixes \<Longrightarrow> at_boundary prev \<Longrightarrow> match_prefix prev (p @ x) = Some p"
  by (auto simp: token_prefixes_def match_prefix_def secret_prefixes_def starts_with_def)

lemma dropWhile_token:
  assumes "list_all token_char t" and "b = [] \<or> \<not> token_char (hd b)"
  shows "dropWhile token_char (t @ b) = b"
  using assms by (induction t) (auto simp: dropWhile_hd_id)

text \<open>At a character that starts no prefix, what stood before it makes no difference.\<close>

lemma redact_prev:
  assumes "b = [] \<or> \<not> token_char (hd b)"
  shows "redact_loop u b = redact_loop v b"
proof (cases b)
  case (Cons c cs)
  have "\<not> starts_with q b" if "q \<in> set secret_prefixes" for q
  proof
    assume "starts_with q b"
    with prefix_length [OF that] have "hd b = hd q" by (cases q) (auto simp: Cons starts_with_def)
    moreover have "token_char (hd q)"
      using that by (auto simp: secret_prefixes_def token_char_def isalnum_def islower_def isupper_def)
    ultimately show False using assms by (simp add: Cons)
  qed
  then have "match_prefix w b = None" for w unfolding match_prefix_def find_None_iff by auto
  then show ?thesis by (simp add: redact_loop.simps [of u] redact_loop.simps [of v])
qed (simp add: redact_loop.simps)

lemma redact_hides:
  assumes p: "p \<in> set token_prefixes" and t: "list_all token_char t" "list_all token_char t'"
    and b: "b = [] \<or> \<not> token_char (hd b)"
    and a: "if a = [] then at_boundary prev else \<not> token_char (last a)"
  shows "redact_loop prev (a @ p @ t @ b) = redact_loop prev (a @ p @ t' @ b)"
  using a
proof (induction "length a" arbitrary: a prev rule: less_induct)
  case less
  have pt: "list_all token_char (p @ w)" if "list_all token_char w" for w
    using token_prefix_chars [OF p] that by simp
  show ?case
  proof (cases "a = []")
    case True
    have "redact_loop prev (p @ w @ b) = p @ ''***'' @ redact_loop None b" if "list_all token_char w" for w
      using match_token [OF p, of prev "w @ b"] True less.prems dropWhile_token [OF that b] redact_prev [OF b]
        prefix_length [of p] p
      by (subst redact_loop.simps) (auto simp: Let_def token_prefixes_def)
    with True t show ?thesis by simp
  next
    case False
    then have last: "\<not> token_char (last a)" using less.prems by simp
    note cut = match_prefix_cut [OF False last, of prev]
    show ?thesis
    proof (cases "match_prefix prev a")
      case None
      obtain c a' where ca: "a = c # a'" using False by (cases a) auto
      have "redact_loop (Some c) (a' @ p @ t @ b) = redact_loop (Some c) (a' @ p @ t' @ b)"
        using last by (intro less.hyps) (auto simp: ca at_boundary_def token_char_def)
      with None cut show ?thesis
        by (simp add: ca redact_loop.simps [of prev "c # a' @ p @ t @ b"] redact_loop.simps [of prev "c # a' @ p @ t' @ b"])
    next
      case (Some q)
      note q = match_prefix_Some [OF Some]
      have len: "length q \<le> length a" using q(2) by (simp add: starts_with_prefix prefix_length_le)
      define r where "r = drop (length q) a"
      have step: "redact_loop prev (a @ x) = q @ ''***'' @ redact_loop (Some (last (q @ takeWhile token_char (r @ x))))
          (dropWhile token_char (r @ x))" for x
        using False Some cut [of x] len by (subst redact_loop.simps) (simp add: Let_def r_def)
      show ?thesis
      proof (cases "r = []")
        case True
        have "dropWhile token_char (p @ w @ b) = b" if "list_all token_char w" for w
          using dropWhile_token [OF pt [OF that] b] by simp
        with True t redact_prev [OF b] show ?thesis by (simp add: step)
      next
        case r: False
        then have "last r = last a" by (simp add: r_def)
        with last r have tok: "\<exists>c \<in> set r. \<not> token_char c" by (metis last_in_set)
        define r' where "r' = dropWhile token_char r"
        have r': "r' \<noteq> []" using tok by (simp add: r'_def dropWhile_eq_Nil_conv)
        moreover have "suffix r' r" by (simp add: r'_def suffix_dropWhile)
        ultimately have "last r' = last a" using \<open>last r = last a\<close> by (auto simp: suffix_def)
        moreover have "length r' < length a"
          using prefix_length [OF q(1)] len length_dropWhile_le [of token_char r] by (cases q) (auto simp: r'_def r_def)
        ultimately have "\<not> token_char (last r')" "length r' < length a" using last by simp_all
        note r' = r' this
        have "redact_loop u (r' @ p @ t @ b) = redact_loop u (r' @ p @ t' @ b)" for u
          using r' last by (intro less.hyps) simp_all
        moreover have "takeWhile token_char (r @ x) = takeWhile token_char r" "dropWhile token_char (r @ x) = r' @ x" for x
          using tok by (auto simp: takeWhile_append dropWhile_append r'_def)
        ultimately show ?thesis by (simp add: step)
      qed
    qed
  qed
qed

text \<open>
  Redaction hides tokens completely: what \<open>Redact\<close> prints is the same whatever the token is (its
  length included), for every text around a token that starts with one of the five prefixes, follows
  the start of the text or a character no token has, and ends where its characters end. So a log
  line or an error message says nothing about the secret.
\<close>

theorem Redact_hides_token:
  assumes "p \<in> set token_prefixes" and "list_all token_char t" and "list_all token_char t'"
    and "a = [] \<or> \<not> token_char (last a)" and "b = [] \<or> \<not> token_char (hd b)"
  shows "Redact (a @ p @ t @ b) = Redact (a @ p @ t' @ b)"
  unfolding Redact_def using assms by (intro redact_hides) (auto simp: at_boundary_def)

lemma Redact_hides_token_witness:
  "Redact (''token '' @ ''rus_'' @ ''s3cret'' @ '' refused'') = Redact (''token '' @ ''rus_'' @ ''x'' @ '' refused'')"
  by (rule Redact_hides_token)
    (simp_all add: token_prefixes_def token_char_def isalnum_def islower_def isupper_def isdigit_def)

text \<open>A bearer token right behind another one is not hidden.\<close>

lemma second_bearer_shows: "Redact ''Bearer Bearer abc'' = ''Bearer *** abc''"
  by code_simp

section \<open>Addresses stay where they were\<close>

lemma after_at_no_at: "CHR 0x40 \<notin> set s \<Longrightarrow> after_at s = s"
  unfolding after_at_def by (subst takeWhile_eq_all_conv [THEN iffD2]) auto

lemma set_after_at: "CHR 0x40 \<notin> set (after_at s)" "set (after_at s) \<subseteq> set s"
  using set_takeWhileD [of _ "\<lambda>c. c \<noteq> CHR 0x40" "rev s"] by (auto simp: after_at_def)

lemma AuthorityOf_chars: "c \<in> set (AuthorityOf url) \<Longrightarrow> \<not> url_end c \<and> c \<noteq> CHR 0x40"
  using set_after_at by (auto simp: AuthorityOf_def split: option.splits dest: set_takeWhileD)

lemma AuthorityOf_wss:
  assumes "tail = [] \<or> url_end (hd tail)"
  shows "AuthorityOf (''wss://'' @ AuthorityOf base @ tail) = AuthorityOf base"
proof -
  let ?a = "AuthorityOf base"
  have "takeWhile (\<lambda>c. \<not> url_end c) (?a @ tail) = ?a"
    using assms AuthorityOf_chars [of _ base] by (cases tail) (auto simp: takeWhile_append2)
  moreover have "after_at ?a = ?a" using AuthorityOf_chars by (intro after_at_no_at) blast
  moreover have "find_sub ''://'' (''wss://'' @ x) = Some 3" for x by (simp add: starts_with_def)
  ultimately show ?thesis unfolding AuthorityOf_def [of "''wss://'' @ ?a @ tail"] by simp
qed

text \<open>
  The URL the enrollment upgrades to is never another place: when \<open>UpgradeSameHostWs\<close> answers, it is
  a \<open>wss\<close> URL, allowed without the insecure option, at exactly the authority the server enrolled at.
\<close>

theorem upgrade_keeps_host:
  assumes "UpgradeSameHostWs base wsUrl \<noteq> []"
  shows "AuthorityOf (UpgradeSameHostWs base wsUrl) = AuthorityOf base
    \<and> HostOf (UpgradeSameHostWs base wsUrl) = HostOf wsUrl
    \<and> CheckUrlAllowed (UpgradeSameHostWs base wsUrl) False = []"
proof -
  define tail where "tail = dropWhile (\<lambda>c. \<not> url_end c) (drop ((case find_sub ''://'' wsUrl of None \<Rightarrow> 0 | Some k \<Rightarrow> k) + 3) wsUrl)"
  have up: "UpgradeSameHostWs base wsUrl = ''wss://'' @ AuthorityOf base @ tail" and same: "HostOf base = HostOf wsUrl"
    using assms by (auto simp: UpgradeSameHostWs_def Let_def tail_def split: if_splits)
  have "dropWhile P xs = [] \<or> \<not> P (hd (dropWhile P xs))" for P and xs :: string
    by (induction xs) auto
  then have "tail = [] \<or> url_end (hd tail)" unfolding tail_def by blast
  then have auth: "AuthorityOf (''wss://'' @ AuthorityOf base @ tail) = AuthorityOf base" by (rule AuthorityOf_wss)
  then have "HostOf (''wss://'' @ AuthorityOf base @ tail) = HostOf base" by (simp only: HostOf_def)
  moreover have "SchemeOf (''wss://'' @ x) = ''wss''" for x
    by (simp add: SchemeOf_def starts_with_def Lower_def tolower_def isupper_def)
  ultimately show ?thesis unfolding up using auth same by (simp add: CheckUrlAllowed_def)
qed

lemma upgrade_keeps_host_witness:
  "HostOf (UpgradeSameHostWs ''https://u:p@host:8443/x'' ''ws://host:8443/fleet?v=1'') = ''host''"
  using upgrade_keeps_host [of "''https://u:p@host:8443/x''" "''ws://host:8443/fleet?v=1''"] by code_simp

end
