(* ===== verification/Status_Stream.thy ===== *)
theory Status_Stream
  imports Json
begin

text \<open>
  The local status endpoint (libs/readyup/status_snapshot.h, second half of status_snapshot.cpp):
  merge patches between states, server-sent event frames, and the hub that turns the game thread's
  submissions into a bounded ring of stream events. The hub's mutex is the atomicity of \<open>Submit\<close> and
  \<open>Process\<close>; its counters are natural numbers. The fields of the inputs that the hub does not read
  (\<open>unhealthy_reason\<close>, \<open>selftest_report\<close>, \<open>gauges\<close>) are left out.
\<close>

section \<open>Merge patches\<close>

lemma Find_size: "Find j k = Some v \<Longrightarrow> size v < size j"
proof (cases j)
  case (JObject kvs)
  assume "Find j k = Some v"
  then have "(k, v) \<in> set kvs" by (simp add: Find_def JObject map_of_SomeD)
  then show ?thesis using member_size [of "(k, v)" kvs] by (simp add: JObject)
qed (simp_all add: Find_def)

lemma Members_size: "kv \<in> set (Members j) \<Longrightarrow> size (snd kv) < size j"
  by (cases j) (auto dest: member_size)

definition removed_members :: "json \<Rightarrow> json \<Rightarrow> (string \<times> json) list" where
  "removed_members from to =
     fold (\<lambda>kv p. if Find to (fst kv) = None then set_member p (fst kv) JNull else p) (Members from) []"

text \<open>\<open>None\<close> is the source's \<open>false\<close>: no patch is needed.\<close>

function MergeDiff :: "json \<Rightarrow> json \<Rightarrow> json option" where
  "MergeDiff from to =
     (if json_eq from to then None
      else if \<not> IsObject from \<or> \<not> IsObject to then Some to
      else
        let p = fold (\<lambda>kv p.
                  case Find from (fst kv) of
                    None \<Rightarrow> set_member p (fst kv) (snd kv)
                  | Some old \<Rightarrow>
                      if snd kv = JNull then (if old \<noteq> JNull then set_member p (fst kv) JNull else p)
                      else case MergeDiff old (snd kv) of
                             None \<Rightarrow> p
                           | Some sub \<Rightarrow> set_member p (fst kv) sub)
                (Members to) (removed_members from to)
        in if p = [] then None else Some (JObject p))"
  by pat_completeness auto
termination
  by (relation "measure (\<lambda>(from, to). size to)") (auto dest: Members_size)

declare MergeDiff.simps [simp del]

function MergePatchApply :: "json \<Rightarrow> json \<Rightarrow> json" where
  "MergePatchApply target patch =
     (if \<not> IsObject patch then patch
      else
        let kept = fold (\<lambda>kv out.
                     case Find patch (fst kv) of
                       None \<Rightarrow> set_member out (fst kv) (snd kv)
                     | Some p \<Rightarrow>
                         if p = JNull then out else set_member out (fst kv) (MergePatchApply (snd kv) p))
                   (Members target) [];
            out = fold (\<lambda>kv out.
                    if Find target (fst kv) \<noteq> None \<or> snd kv = JNull then out
                    else set_member out (fst kv) (MergePatchApply JNull (snd kv)))
                  (Members patch) kept
        in JObject out)"
  by pat_completeness auto
termination
  by (relation "measure (\<lambda>(target, patch). size patch)") (auto dest: Members_size Find_size)

declare MergePatchApply.simps [simp del]

section \<open>Frames\<close>

definition drop_cr :: "string \<Rightarrow> string" where
  "drop_cr l = (if l \<noteq> [] \<and> last l = CHR 0x0D then butlast l else l)"

definition SseFrame :: "string \<Rightarrow> string \<Rightarrow> string \<Rightarrow> string" where
  "SseFrame event ident data =
     (if event \<noteq> [] then ''event: '' @ event @ [newline_char] else [])
     @ (if ident \<noteq> [] then ''id: '' @ ident @ [newline_char] else [])
     @ concat (map (\<lambda>l. ''data: '' @ drop_cr l @ [newline_char]) (split_fields newline_char data))
     @ [newline_char]"

section \<open>The hub\<close>

record StatusInputs =
  in_hostname :: string
  in_server_id :: string
  in_game_port :: int
  in_versions :: json
  in_selftest :: json
  in_platform :: json
  in_summary :: json
  in_state :: json
  in_update_safe :: bool
  in_healthy :: bool

record StreamEvent =
  ev_seq :: nat
  ev_rev :: nat
  ev_frame :: string

record Hub =
  hb_pending :: "StatusInputs option"
  hb_submissions :: nat
  hb_cap :: nat
  hb_cur :: "StatusInputs option"
  hb_rev :: nat
  hb_lastSeq :: nat
  hb_oldestDroppedSeq :: nat
  hb_events :: "StreamEvent list"
  hb_versionsJ :: string
  hb_selftestJ :: string
  hb_platformJ :: string
  hb_summaryJ :: string
  hb_stateJ :: string

definition new_hub :: "nat \<Rightarrow> Hub" where
  "new_hub patchRing =
     \<lparr>hb_pending = None, hb_submissions = 0, hb_cap = (if patchRing = 0 then 1 else patchRing), hb_cur = None, hb_rev = 0,
      hb_lastSeq = 0, hb_oldestDroppedSeq = 0, hb_events = [], hb_versionsJ = [], hb_selftestJ = [], hb_platformJ = [],
      hb_summaryJ = [], hb_stateJ = []\<rparr>"

definition Submit :: "StatusInputs \<Rightarrow> Hub \<Rightarrow> Hub" where
  "Submit i h = h\<lparr>hb_pending := Some i, hb_submissions := hb_submissions h + 1\<rparr>"

text \<open>The oldest events go while there are too many patches or too many events.\<close>

fun drop_old :: "nat \<Rightarrow> nat \<Rightarrow> nat \<Rightarrow> StreamEvent list \<Rightarrow> nat \<times> StreamEvent list" where
  "drop_old cap patches oldest [] = (oldest, [])"
| "drop_old cap patches oldest (e # es) =
     (if patches > cap \<or> length (e # es) > cap * 2
      then drop_old cap (if ev_rev e \<noteq> 0 then patches - 1 else patches) (ev_seq e) es
      else (oldest, e # es))"

definition Append_event :: "nat \<Rightarrow> string \<Rightarrow> Hub \<Rightarrow> Hub" where
  "Append_event rv frame h =
     (let seq = hb_lastSeq h + 1;
          es = hb_events h @ [\<lparr>ev_seq = seq, ev_rev = rv, ev_frame = frame\<rparr>];
          patches = length (filter (\<lambda>e. ev_rev e \<noteq> 0) es);
          (oldest, es') = drop_old (hb_cap h) patches (hb_oldestDroppedSeq h) es
      in h\<lparr>hb_lastSeq := seq, hb_oldestDroppedSeq := oldest, hb_events := es'\<rparr>)"

definition quoted_key :: "string \<Rightarrow> string" where
  "quoted_key k = [quote_char] @ k @ [quote_char] @ '':''"

definition patch_data :: "nat \<Rightarrow> json \<Rightarrow> string" where
  "patch_data rv patch =
     ''{'' @ quoted_key ''rev'' @ dec_nat rv @ '','' @ quoted_key ''patch'' @ Dump patch @ ''}''"

definition send_patch :: "StatusInputs \<Rightarrow> StatusInputs \<Rightarrow> Hub \<Rightarrow> bool \<times> Hub" where
  "send_patch cur i h =
     (if Dump (in_state i) = hb_stateJ h then (False, h)
      else case MergeDiff (in_state cur) (in_state i) of
             None \<Rightarrow> (False, h)
           | Some patch \<Rightarrow>
               let rv = hb_rev h + 1
               in (True, Append_event rv (SseFrame ''patch'' (dec_nat rv) (patch_data rv patch)) (h\<lparr>hb_rev := rv\<rparr>)))"

definition bool_text :: "bool \<Rightarrow> string" where
  "bool_text b = (if b then ''true'' else ''false'')"

definition status_parts :: "StatusInputs \<Rightarrow> StatusInputs \<Rightarrow> Hub \<Rightarrow> string list" where
  "status_parts cur i h =
     ((if Dump (in_platform i) \<noteq> hb_platformJ h then [quoted_key ''platform'' @ Dump (in_platform i)] else [])
         @ (if in_update_safe i \<noteq> in_update_safe cur then [quoted_key ''update_safe'' @ bool_text (in_update_safe i)] else [])
         @ (if Dump (in_summary i) \<noteq> hb_summaryJ h then [quoted_key ''summary'' @ Dump (in_summary i)] else [])
         @ (if Dump (in_versions i) \<noteq> hb_versionsJ h then [quoted_key ''versions'' @ Dump (in_versions i)] else [])
         @ (if Dump (in_selftest i) \<noteq> hb_selftestJ h then [quoted_key ''selftest'' @ Dump (in_selftest i)] else [])
         @ (if in_healthy i \<noteq> in_healthy cur then [quoted_key ''healthy'' @ bool_text (in_healthy i)] else []))"

definition send_status :: "StatusInputs \<Rightarrow> StatusInputs \<Rightarrow> Hub \<Rightarrow> bool \<times> Hub" where
  "send_status cur i h =
     (let parts = status_parts cur i h
      in if parts = [] then (False, h)
         else (True, Append_event 0 (SseFrame ''status'' [] (''{'' @ join_by (CHR '','') parts @ ''}'')) h))"

definition Process :: "Hub \<Rightarrow> bool \<times> Hub" where
  "Process h =
     (case hb_pending h of
        None \<Rightarrow> (False, h)
      | Some i \<Rightarrow>
          let h0 = h\<lparr>hb_pending := None\<rparr>;
              (appended, h1) =
                (case hb_cur h of
                   None \<Rightarrow> (True, h0\<lparr>hb_rev := 1\<rparr>)
                 | Some cur \<Rightarrow>
                     let (a, ha) = send_patch cur i h0; (b, hb) = send_status cur i ha in (a \<or> b, hb))
          in (appended,
              h1\<lparr>hb_cur := Some i, hb_versionsJ := Dump (in_versions i), hb_selftestJ := Dump (in_selftest i),
                 hb_platformJ := Dump (in_platform i), hb_summaryJ := Dump (in_summary i),
                 hb_stateJ := Dump (in_state i)\<rparr>))"

text \<open>\<open>None\<close>: events after \<open>afterSeq\<close> have fallen out of the ring.\<close>

definition FramesAfter :: "nat \<Rightarrow> Hub \<Rightarrow> string option" where
  "FramesAfter afterSeq h =
     (if afterSeq \<ge> hb_lastSeq h then Some []
      else if afterSeq < hb_oldestDroppedSeq h then None
      else Some (concat (map ev_frame (filter (\<lambda>e. ev_seq e > afterSeq) (hb_events h)))))"

definition SeqForRev :: "nat \<Rightarrow> Hub \<Rightarrow> nat option" where
  "SeqForRev rv h = map_option ev_seq (find (\<lambda>e. ev_rev e = rv) (hb_events h))"

definition SnapshotFrame :: "Hub \<Rightarrow> string" where
  "SnapshotFrame h =
     (case hb_cur h of
        None \<Rightarrow> SseFrame ''snapshot'' [] ''{}''
      | Some cur \<Rightarrow>
          SseFrame ''snapshot'' (dec_nat (hb_rev h))
            (''{'' @ quoted_key ''rev'' @ dec_nat (hb_rev h) @ '','' @ quoted_key ''summary'' @ hb_summaryJ h
               @ '','' @ quoted_key ''platform'' @ hb_platformJ h
               @ '','' @ quoted_key ''update_safe'' @ bool_text (in_update_safe cur)
               @ '','' @ quoted_key ''versions'' @ hb_versionsJ h @ '','' @ quoted_key ''selftest'' @ hb_selftestJ h
               @ '','' @ quoted_key ''state'' @ hb_stateJ h @ ''}''))"

definition StatusBody :: "int \<Rightarrow> int \<Rightarrow> Hub \<Rightarrow> string" where
  "StatusBody uptimeS nowMs h =
     (case hb_cur h of
        None \<Rightarrow> ''{'' @ quoted_key ''error'' @ JsonEscapeTo ''starting'' @ ''}''
      | Some cur \<Rightarrow>
          ''{'' @ (if in_server_id cur \<noteq> [] then quoted_key ''server_id'' @ JsonEscapeTo (in_server_id cur) @ '','' else [])
            @ quoted_key ''hostname'' @ JsonEscapeTo (in_hostname cur)
            @ '','' @ quoted_key ''game_port'' @ to_string (in_game_port cur)
            @ '','' @ quoted_key ''uptime_s'' @ to_string uptimeS
            @ '','' @ quoted_key ''generated_at'' @ to_string nowMs
            @ '','' @ quoted_key ''rev'' @ dec_nat (hb_rev h)
            @ '','' @ quoted_key ''versions'' @ hb_versionsJ h @ '','' @ quoted_key ''selftest'' @ hb_selftestJ h
            @ '','' @ quoted_key ''platform'' @ hb_platformJ h
            @ '','' @ quoted_key ''update_safe'' @ bool_text (in_update_safe cur)
            @ '','' @ quoted_key ''summary'' @ hb_summaryJ h @ '','' @ quoted_key ''state'' @ hb_stateJ h @ ''}'')"

section \<open>Values up to null members\<close>

text \<open>Objects without a key twice, at every level: what the C++ class can hold.\<close>

primrec keys_ok :: "json \<Rightarrow> bool" where
  "keys_ok JNull = True"
| "keys_ok (JBool b) = True"
| "keys_ok (JInt i) = True"
| "keys_ok (JDouble d) = True"
| "keys_ok (JString s) = True"
| "keys_ok (JObject kvs) = (distinct (map fst kvs) \<and> list_all snd (map (map_prod (\<lambda>k. k) keys_ok) kvs))"
| "keys_ok (JArray xs) = list_all (\<lambda>b. b) (map keys_ok xs)"

text \<open>A consumer treats an absent member like a null one.\<close>

definition member :: "json \<Rightarrow> string \<Rightarrow> json" where
  "member j k = (case Find j k of None \<Rightarrow> JNull | Some v \<Rightarrow> v)"

definition keys :: "json \<Rightarrow> string set" where
  "keys j = fst ` set (Members j)"

lemma size_member: "IsObject j \<Longrightarrow> size (member j k) < size j"
proof (cases "Find j k")
  case None
  assume "IsObject j"
  then have "0 < size j" by (cases j) simp_all
  then show ?thesis by (simp add: member_def None)
qed (simp add: member_def Find_size)

function same :: "json \<Rightarrow> json \<Rightarrow> bool" where
  "same x y =
     (if IsObject x \<and> IsObject y then \<forall>k \<in> keys x \<union> keys y. same (member x k) (member y k)
      else json_eq x y)"
  by pat_completeness auto
termination
  by (relation "measure (\<lambda>(x, y). size x)") (auto simp: size_member)

declare same.simps [simp del]

lemma member_absent: "k \<notin> keys j \<Longrightarrow> member j k = JNull"
  by (simp add: member_def keys_def Find_def map_of_eq_None_iff [THEN iffD2])

lemma keys_ok_Find: "keys_ok j \<Longrightarrow> Find j k = Some v \<Longrightarrow> keys_ok v"
  by (cases j) (auto simp: Find_def list_all_iff dest!: map_of_SomeD)

lemma keys_ok_member [simp]: "keys_ok j \<Longrightarrow> keys_ok (member j k)"
  by (auto simp: member_def keys_ok_Find split: option.splits)

lemma keys_ok_distinct: "keys_ok j \<Longrightarrow> distinct (map fst (Members j))"
  by (cases j) auto

lemma json_eq_simps [simp]:
  "json_eq JNull y \<longleftrightarrow> y = JNull" "json_eq x JNull \<longleftrightarrow> x = JNull"
  by (cases y; simp add: json_eq.simps) (cases x; simp add: json_eq.simps)

lemma json_eq_object:
  "json_eq (JObject kvs) y \<longleftrightarrow>
     (\<exists>lvs. y = JObject lvs \<and> length kvs = length lvs
        \<and> (\<forall>kv \<in> set kvs. \<exists>w. map_of lvs (fst kv) = Some w \<and> json_eq (snd kv) w))"
  by (cases y) (auto simp: json_eq.simps [of "JObject kvs"] split: option.splits)

lemma json_eq_members:
  assumes "json_eq (JObject kvs) (JObject lvs)" and "kv \<in> set kvs"
  obtains w where "map_of lvs (fst kv) = Some w" and "json_eq (snd kv) w"
  using assms by (auto simp: json_eq_object)

lemma json_eq_array:
  "json_eq (JArray xs) y \<longleftrightarrow> (\<exists>ys. y = JArray ys \<and> list_all2 json_eq xs ys)"
  by (cases y) (auto simp: json_eq.simps [of "JArray xs"] list_all2_conv_all_nth)

lemma json_eq_scalar:
  "json_eq (JBool a) y \<longleftrightarrow> y = JBool a" "json_eq (JInt i) y \<longleftrightarrow> y = JInt i"
  "json_eq (JDouble d) y \<longleftrightarrow> y = JDouble d" "json_eq (JString s) y \<longleftrightarrow> y = JString s"
  by (cases y; auto simp: json_eq.simps)+

lemmas json_eq_cases = json_eq_object json_eq_array json_eq_scalar

lemma json_eq_IsObject: "json_eq x y \<Longrightarrow> IsObject x \<longleftrightarrow> IsObject y"
  by (cases x) (auto simp: json_eq_cases)

lemma json_eq_refl: "keys_ok x \<Longrightarrow> json_eq x x"
proof (induction x)
  case (JObject kvs)
  have "\<exists>w. map_of kvs (fst kv) = Some w \<and> json_eq (snd kv) w" if "kv \<in> set kvs" for kv
  proof (intro exI conjI)
    show "map_of kvs (fst kv) = Some (snd kv)" using JObject.prems that by simp
    show "json_eq (snd kv) (snd kv)"
      using JObject.IH [OF that, of "snd kv"] JObject.prems that by (cases kv) (auto simp: list_all_iff)
  qed
  then show ?case by (simp add: json_eq_object)
next
  case (JArray xs)
  then show ?case by (simp add: json_eq_array list_all2_same list_all_iff)
qed (simp_all add: json_eq_scalar)

lemma json_eq_trans: "json_eq x y \<Longrightarrow> json_eq y z \<Longrightarrow> json_eq x z"
proof (induction x arbitrary: y z)
  case (JObject kvs)
  then obtain lvs mvs where y: "y = JObject lvs" and z: "z = JObject mvs" by (auto simp: json_eq_object)
  have "\<exists>w. map_of mvs (fst kv) = Some w \<and> json_eq (snd kv) w" if kv: "kv \<in> set kvs" for kv
  proof -
    obtain w where w: "map_of lvs (fst kv) = Some w" "json_eq (snd kv) w"
      using JObject.prems(1) unfolding y by (rule json_eq_members [OF _ kv])
    then have "(fst kv, w) \<in> set lvs" by (simp add: map_of_SomeD)
    then obtain u where "map_of mvs (fst kv) = Some u" "json_eq w u"
      using JObject.prems(2) unfolding y z by (auto elim: json_eq_members)
    then show ?thesis using JObject.IH [OF kv, of "snd kv" w u] w by (cases kv) auto
  qed
  with JObject.prems show ?case by (auto simp: y z json_eq_object)
next
  case (JArray xs)
  then obtain ys zs where "y = JArray ys" "list_all2 json_eq xs ys" "z = JArray zs" "list_all2 json_eq ys zs"
    by (auto simp: json_eq_array)
  with JArray.IH show ?case by (fastforce simp: json_eq_array list_all2_conv_all_nth)
qed (auto simp: json_eq_scalar)

lemma same_members: "same x y \<Longrightarrow> IsObject x \<Longrightarrow> IsObject y \<Longrightarrow> same (member x k) (member y k)"
  using member_absent [of k x] member_absent [of k y]
  by (cases "k \<in> keys x \<union> keys y") (auto simp: same.simps [of x y] same.simps [of JNull JNull])

lemma sameI:
  assumes "IsObject x" "IsObject y" "\<And>k. same (member x k) (member y k)"
  shows "same x y"
  using assms by (subst same.simps) simp

lemma same_IsObject: "same x y \<Longrightarrow> IsObject x \<longleftrightarrow> IsObject y"
  using json_eq_IsObject by (subst (asm) same.simps) (auto split: if_splits)

lemma same_plain: "\<not> IsObject x \<Longrightarrow> same x y \<longleftrightarrow> json_eq x y"
  by (simp add: same.simps [of x y])

lemma same_refl: "keys_ok x \<Longrightarrow> same x x"
proof (induction "size x" arbitrary: x rule: less_induct)
  case less
  show ?case
  proof (cases "IsObject x")
    case True
    have "same (member x k) (member x k)" for k
      using less.hyps [OF size_member [OF True]] less.prems by simp
    then show ?thesis by (rule sameI [OF True True])
  next
    case False
    then show ?thesis using less.prems by (simp add: same_plain json_eq_refl)
  qed
qed

lemma same_trans: "same x y \<Longrightarrow> same y z \<Longrightarrow> same x z"
proof (induction "size x" arbitrary: x y z rule: less_induct)
  case less
  show ?case
  proof (cases "IsObject x")
    case True
    then have obj: "IsObject y" "IsObject z" using less.prems same_IsObject by auto
    show ?thesis
    proof (rule sameI [OF True obj(2)])
      fix k
      show "same (member x k) (member z k)"
        using same_members [OF less.prems(1) True obj(1)] same_members [OF less.prems(2) obj]
        by (rule less.hyps [OF size_member [OF True]])
    qed
  next
    case False
    moreover from this have "\<not> IsObject y" using less.prems same_IsObject by blast
    ultimately show ?thesis using less.prems json_eq_trans by (simp add: same_plain)
  qed
qed

text \<open>\<open>operator==\<close> is finer than the equality up to null members.\<close>

lemma json_eq_keys:
  assumes eq: "json_eq x y" and "IsObject x" "keys_ok x" "keys_ok y"
  shows "keys x = keys y"
proof -
  obtain kvs lvs where xy: "x = JObject kvs" "y = JObject lvs"
    using assms by (cases x; cases y) (auto simp: json_eq_object)
  then have sub: "fst ` set kvs \<subseteq> fst ` set lvs" and len: "length kvs = length lvs"
    using eq by (force simp: json_eq_object dest: map_of_SomeD)+
  have "card (fst ` set kvs) = length kvs" "card (fst ` set lvs) = length lvs"
    using assms xy distinct_card [of "map fst kvs"] distinct_card [of "map fst lvs"] by simp_all
  with sub len have "fst ` set kvs = fst ` set lvs" by (intro card_subset_eq) simp_all
  then show ?thesis by (simp add: keys_def xy)
qed

lemma json_eq_same: "json_eq x y \<Longrightarrow> keys_ok x \<Longrightarrow> keys_ok y \<Longrightarrow> same x y"
proof (induction "size x" arbitrary: x y rule: less_induct)
  case less
  show ?case
  proof (cases "IsObject x")
    case True
    then have y: "IsObject y" using less.prems json_eq_IsObject by blast
    show ?thesis
    proof (rule sameI [OF True y])
      fix k
      show "same (member x k) (member y k)"
      proof (cases "Find x k")
        case None
        then have "k \<notin> keys x" by (simp add: Find_def keys_def map_of_eq_None_iff)
        then show ?thesis using json_eq_keys [OF less.prems(1) True less.prems(2,3)]
          by (simp add: member_absent same_plain)
      next
        case (Some v)
        then have "(k, v) \<in> set (Members x)" by (simp add: Find_def map_of_SomeD)
        then obtain w where w: "Find y k = Some w" "json_eq v w"
          using less.prems(1) True y by (cases x; cases y) (auto simp: json_eq_object Find_def)
        then show ?thesis
          using less.hyps [of v w] less.prems Some Find_size [OF Some] keys_ok_Find by (auto simp: member_def)
      qed
    qed
  next
    case False
    then show ?thesis using less.prems by (simp add: same_plain)
  qed
qed

section \<open>Patches lead to the new state\<close>

text \<open>Both functions collect members into an object; a key appears at most once in what is collected.\<close>

definition put_opt :: "(string \<times> json \<Rightarrow> json option) \<Rightarrow> string \<times> json \<Rightarrow> (string \<times> json) list \<Rightarrow> (string \<times> json) list" where
  "put_opt f kv p = (case f kv of None \<Rightarrow> p | Some x \<Rightarrow> set_member p (fst kv) x)"

lemma distinct_put_opt: "distinct (map fst p) \<Longrightarrow> distinct (map fst (fold (put_opt f) kvs p))"
  by (induction kvs arbitrary: p) (auto simp: put_opt_def distinct_set_member split: option.splits)

lemma map_of_put_opt:
  assumes "distinct (map fst kvs)"
  shows "map_of (fold (put_opt f) kvs p) k =
    (case map_of kvs k of
       None \<Rightarrow> map_of p k
     | Some v \<Rightarrow> (case f (k, v) of None \<Rightarrow> map_of p k | Some x \<Rightarrow> Some x))"
  using assms
proof (induction kvs arbitrary: p)
  case (Cons kv kvs)
  have "map_of kvs (fst kv) = None" using Cons.prems by (simp add: map_of_eq_None_iff)
  then show ?case
    using Cons by (cases kv) (auto simp: put_opt_def map_of_set_member split: option.splits)
qed simp

lemma fold_put_optI:
  assumes "\<And>kv p. g kv p = put_opt f kv p"
  shows "fold g kvs p = fold (put_opt f) kvs p"
proof -
  have "g = put_opt f" using assms by (intro ext) simp
  then show ?thesis by simp
qed

definition diff_entry :: "json \<Rightarrow> string \<times> json \<Rightarrow> json option" where
  "diff_entry from kv =
     (case Find from (fst kv) of
        None \<Rightarrow> Some (snd kv)
      | Some old \<Rightarrow>
          if snd kv = JNull then (if old \<noteq> JNull then Some JNull else None) else MergeDiff old (snd kv))"

definition patch_members :: "json \<Rightarrow> json \<Rightarrow> (string \<times> json) list" where
  "patch_members from to = fold (put_opt (diff_entry from)) (Members to) (removed_members from to)"

lemma MergeDiff_objects:
  assumes "\<not> json_eq from to" "IsObject from" "IsObject to"
  shows "MergeDiff from to = (if patch_members from to = [] then None else Some (JObject (patch_members from to)))"
proof -
  have "fold (\<lambda>kv p. case Find from (fst kv) of
             None \<Rightarrow> set_member p (fst kv) (snd kv)
           | Some old \<Rightarrow>
               if snd kv = JNull then (if old \<noteq> JNull then set_member p (fst kv) JNull else p)
               else case MergeDiff old (snd kv) of None \<Rightarrow> p | Some sub \<Rightarrow> set_member p (fst kv) sub)
      (Members to) (removed_members from to) = patch_members from to"
    unfolding patch_members_def
    by (rule fold_put_optI) (auto simp: put_opt_def diff_entry_def split: option.splits)
  with assms show ?thesis by (simp add: MergeDiff.simps [of "from" to])
qed

lemma removed_members_eq:
  "removed_members from to = fold (put_opt (\<lambda>kv. if Find to (fst kv) = None then Some JNull else None)) (Members from) []"
  unfolding removed_members_def by (rule fold_put_optI) (simp add: put_opt_def)

lemma map_of_patch_members:
  assumes "keys_ok from" "keys_ok to"
  shows "map_of (patch_members from to) k =
    (case Find to k of
       Some v \<Rightarrow> diff_entry from (k, v)
     | None \<Rightarrow> if Find from k = None then None else Some JNull)"
  using assms
  by (simp add: patch_members_def removed_members_eq map_of_put_opt keys_ok_distinct Find_def [of "from"] Find_def [of to]
      split: option.splits) (force simp: map_of_eq_None_iff)

lemma distinct_patch_members: "distinct (map fst (patch_members from to))"
  by (simp add: patch_members_def removed_members_eq distinct_put_opt)

definition kept_entry :: "json \<Rightarrow> string \<times> json \<Rightarrow> json option" where
  "kept_entry patch kv =
     (case Find patch (fst kv) of
        None \<Rightarrow> Some (snd kv)
      | Some p \<Rightarrow> if p = JNull then None else Some (MergePatchApply (snd kv) p))"

definition new_entry :: "json \<Rightarrow> string \<times> json \<Rightarrow> json option" where
  "new_entry target kv =
     (if Find target (fst kv) \<noteq> None \<or> snd kv = JNull then None else Some (MergePatchApply JNull (snd kv)))"

lemma MergePatchApply_object:
  assumes "IsObject patch"
  shows "MergePatchApply target patch =
    JObject (fold (put_opt (new_entry target)) (Members patch) (fold (put_opt (kept_entry patch)) (Members target) []))"
proof -
  have "fold (\<lambda>kv out. case Find patch (fst kv) of
             None \<Rightarrow> set_member out (fst kv) (snd kv)
           | Some p \<Rightarrow> if p = JNull then out else set_member out (fst kv) (MergePatchApply (snd kv) p))
      (Members target) [] = fold (put_opt (kept_entry patch)) (Members target) []"
    by (rule fold_put_optI) (auto simp: put_opt_def kept_entry_def split: option.splits)
  moreover have "fold (\<lambda>kv out. if Find target (fst kv) \<noteq> None \<or> snd kv = JNull then out
             else set_member out (fst kv) (MergePatchApply JNull (snd kv))) (Members patch) q
      = fold (put_opt (new_entry target)) (Members patch) q" for q
    by (rule fold_put_optI) (simp add: put_opt_def new_entry_def)
  ultimately show ?thesis using assms by (simp add: MergePatchApply.simps [of target patch] Let_def)
qed

lemma member_apply:
  assumes "IsObject patch" "keys_ok patch" "keys_ok target"
  shows "member (MergePatchApply target patch) k =
    (case Find patch k of
       None \<Rightarrow> member target k
     | Some p \<Rightarrow> if p = JNull then JNull else MergePatchApply (member target k) p)"
proof -
  have fp: "map_of (Members patch) k = Find patch k" and ft: "map_of (Members target) k = Find target k"
    by (simp_all add: Find_def)
  show ?thesis
    using assms
    by (auto simp: MergePatchApply_object member_def [of "JObject _"] Find_def [of "JObject _"] map_of_put_opt keys_ok_distinct
        fp ft kept_entry_def new_entry_def member_def [of target] split: option.splits)
qed

lemma apply_plain: "\<not> IsObject patch \<Longrightarrow> MergePatchApply target patch = patch"
  by (simp add: MergePatchApply.simps)

lemma IsObject_apply: "IsObject patch \<Longrightarrow> IsObject (MergePatchApply target patch)"
  by (simp add: MergePatchApply_object)

text \<open>A value that replaces something that is no object.\<close>

lemma apply_fresh: "keys_ok v \<Longrightarrow> keys_ok c \<Longrightarrow> \<not> IsObject c \<Longrightarrow> same (MergePatchApply c v) v"
proof (induction "size v" arbitrary: v c rule: less_induct)
  case less
  show ?case
  proof (cases "IsObject v")
    case True
    show ?thesis
    proof (rule sameI [OF IsObject_apply [OF True] True])
      fix k
      have c: "member c k = JNull" using less.prems(3) by (cases c) (simp_all add: member_def Find_def)
      show "same (member (MergePatchApply c v) k) (member v k)"
      proof (cases "Find v k")
        case None
        then show ?thesis using True less.prems by (simp add: member_apply c member_def [of v] same_refl)
      next
        case (Some w)
        have "same (MergePatchApply JNull w) w"
          using less.hyps [OF Find_size [OF Some]] keys_ok_Find [OF less.prems(1) Some] by simp
        with Some show ?thesis using True less.prems by (simp add: member_apply c member_def [of v] same_refl)
      qed
    qed
  next
    case False
    then show ?thesis using less.prems by (simp add: apply_plain same_refl)
  qed
qed

lemma keys_okI:
  assumes "distinct (map fst kvs)" and "\<And>k v. map_of kvs k = Some v \<Longrightarrow> keys_ok v"
  shows "keys_ok (JObject kvs)"
  using assms by (auto simp: list_all_iff)

lemma keys_ok_MergeDiff: "keys_ok from \<Longrightarrow> keys_ok to \<Longrightarrow> MergeDiff from to = Some p \<Longrightarrow> keys_ok p"
proof (induction "size to" arbitrary: "from" to p rule: less_induct)
  case less
  show ?case
  proof (cases "json_eq from to \<or> \<not> IsObject from \<or> \<not> IsObject to")
    case True
    then show ?thesis using less.prems by (auto simp: MergeDiff.simps [of "from" to] split: if_splits)
  next
    case False
    then have p: "p = JObject (patch_members from to)"
      using less.prems(3) MergeDiff_objects [of "from" to] by (auto split: if_splits)
    have "keys_ok v" if v: "map_of (patch_members from to) k = Some v" for k v
    proof (cases "Find to k")
      case (Some w)
      then have w: "keys_ok w" "size w < size to" using less.prems(2) keys_ok_Find Find_size by blast+
      have "diff_entry from (k, w) = Some v" using v Some less.prems by (simp add: map_of_patch_members)
      then show ?thesis
        using less.hyps [OF w(2)] w(1) keys_ok_Find [OF less.prems(1)]
        by (auto simp: diff_entry_def split: option.splits if_splits)
    qed (use v less.prems in \<open>auto simp: map_of_patch_members split: if_splits\<close>)
    then show ?thesis unfolding p by (intro keys_okI distinct_patch_members)
  qed
qed

lemma keys_ok_apply: "keys_ok target \<Longrightarrow> keys_ok patch \<Longrightarrow> keys_ok (MergePatchApply target patch)"
proof (induction "size patch" arbitrary: target patch rule: less_induct)
  case less
  show ?case
  proof (cases "IsObject patch")
    case True
    let ?kept = "fold (put_opt (kept_entry patch)) (Members target) []"
    have rec: "keys_ok (MergePatchApply t w)" if "Find patch k = Some w" "keys_ok t" for k w t
      using less.hyps [OF Find_size [OF that(1)] that(2)] keys_ok_Find [OF less.prems(2) that(1)] by simp
    have kept: "keys_ok v" if kv: "map_of ?kept k = Some v" for k v
    proof -
      obtain w where w: "Find target k = Some w" "kept_entry patch (k, w) = Some v"
        using kv less.prems(1) by (simp add: map_of_put_opt keys_ok_distinct flip: Find_def split: option.splits)
      then show ?thesis
        using keys_ok_Find [OF less.prems(1) w(1)] rec [of k _ w] by (auto simp: kept_entry_def split: option.splits if_splits)
    qed
    have "keys_ok v" if kv: "map_of (fold (put_opt (new_entry target)) (Members patch) ?kept) k = Some v" for k v
    proof (cases "map_of ?kept k = Some v")
      case False
      then obtain w where "Find patch k = Some w" "new_entry target (k, w) = Some v"
        using kv less.prems(2)
        by (simp add: map_of_put_opt [of "Members patch"] keys_ok_distinct flip: Find_def split: option.splits)
      then show ?thesis using rec [of k w JNull] by (auto simp: new_entry_def split: if_splits)
    qed (rule kept)
    then show ?thesis
      unfolding MergePatchApply_object [OF True] by (intro keys_okI distinct_put_opt) simp_all
  next
    case False
    then show ?thesis using less.prems by (simp add: apply_plain)
  qed
qed

lemma MergeDiff_not_null: "v \<noteq> JNull \<Longrightarrow> MergeDiff old v \<noteq> Some JNull"
  by (auto simp: MergeDiff.simps [of old v] Let_def split: if_splits)

text \<open>What a consumer that holds \<open>c\<close> has after the outcome of a diff.\<close>

definition patched :: "json \<Rightarrow> json option \<Rightarrow> json" where
  "patched c p = (case p of None \<Rightarrow> c | Some q \<Rightarrow> MergePatchApply c q)"

lemma keys_ok_patched:
  "keys_ok c \<Longrightarrow> keys_ok from \<Longrightarrow> keys_ok to \<Longrightarrow> keys_ok (patched c (MergeDiff from to))"
  by (auto simp: patched_def keys_ok_apply dest: keys_ok_MergeDiff split: option.splits)

lemma same_null: "same x JNull \<longleftrightarrow> x = JNull"
  by (cases "IsObject x") (auto simp: same.simps [of x JNull])

lemma patch_member:
  assumes ok: "keys_ok c" "keys_ok from" "keys_ok to" and objs: "IsObject c" "IsObject from" and start: "same c from"
    and rec: "\<And>d old v. Find to k = Some v \<Longrightarrow> keys_ok d \<Longrightarrow> keys_ok old \<Longrightarrow> same d old
      \<Longrightarrow> same (patched d (MergeDiff old v)) v"
  shows "same (case map_of (patch_members from to) k of None \<Rightarrow> member c k
    | Some p \<Rightarrow> if p = JNull then JNull else MergePatchApply (member c k) p) (member to k)"
proof -
  note entry = map_of_patch_members [OF ok(2,3), of k]
  have mc: "same (member c k) (member from k)" by (rule same_members [OF start objs])
  show ?thesis
  proof (cases "Find to k")
    case None
    then show ?thesis using mc by (cases "Find from k") (auto simp: entry member_def [of to] member_def [of "from"] same_null)
  next
    case (Some v)
    have v: "keys_ok v" using keys_ok_Find [OF ok(3) Some] .
    show ?thesis
    proof (cases "Find from k")
      case None
      then have "member c k = JNull" using mc by (simp add: member_def [of "from"] same_null)
      then show ?thesis
        using None Some v apply_fresh [OF v, of JNull] by (simp add: entry diff_entry_def member_def [of to] same_null)
    next
      case old: (Some old)
      have mo: "same (member c k) old" using mc old by (simp add: member_def [of "from"])
      show ?thesis
      proof (cases "v = JNull")
        case True
        then show ?thesis using mo old Some by (auto simp: entry diff_entry_def member_def [of to] same_null)
      next
        case False
        have "same (patched (member c k) (MergeDiff old v)) v"
          using rec [OF Some keys_ok_member [OF ok(1)] keys_ok_Find [OF ok(2) old] mo] .
        then show ?thesis
          using False old Some MergeDiff_not_null [OF False, of old]
          by (auto simp: entry diff_entry_def member_def [of to] patched_def split: option.splits)
      qed
    qed
  qed
qed

lemma patch_leads_to:
  "keys_ok c \<Longrightarrow> keys_ok from \<Longrightarrow> keys_ok to \<Longrightarrow> same c from \<Longrightarrow> same (patched c (MergeDiff from to)) to"
proof (induction "size to" arbitrary: c "from" to rule: less_induct)
  case less
  note ok = less.prems(1-3)
  show ?case
  proof (cases "json_eq from to")
    case True
    then have "MergeDiff from to = None" by (simp add: MergeDiff.simps [of "from" to])
    then show ?thesis using same_trans [OF less.prems(4) json_eq_same [OF True ok(2,3)]] by (simp add: patched_def)
  next
    case neq: False
    show ?thesis
    proof (cases "IsObject from \<and> IsObject to")
      case False
      then have "MergeDiff from to = Some to" using neq by (auto simp: MergeDiff.simps [of "from" to])
      moreover have "same (MergePatchApply c to) to"
        using apply_fresh [OF ok(3,1)] False same_IsObject [OF less.prems(4)] same_refl [OF ok(3)]
        by (cases "IsObject to") (auto simp: apply_plain)
      ultimately show ?thesis by (simp add: patched_def)
    next
      case True
      then have c: "IsObject c" using same_IsObject [OF less.prems(4)] by simp
      let ?p = "JObject (patch_members from to)"
      have okp: "keys_ok ?p"
        using keys_ok_MergeDiff [OF ok(2,3)] MergeDiff_objects [OF neq] True by (cases "patch_members from to = []") auto
      have memb: "same (case map_of (patch_members from to) k of None \<Rightarrow> member c k
          | Some p \<Rightarrow> if p = JNull then JNull else MergePatchApply (member c k) p) (member to k)" for k
      proof (rule patch_member [OF ok c _ less.prems(4)])
        fix d old v
        assume v: "Find to k = Some v" and "keys_ok d" "keys_ok old" "same d old"
        then show "same (patched d (MergeDiff old v)) v"
          using less.hyps [OF Find_size [OF v]] keys_ok_Find [OF ok(3) v] by simp
      qed (use True in simp)
      show ?thesis
      proof (cases "patch_members from to = []")
        case empty: True
        then have "MergeDiff from to = None" using MergeDiff_objects [OF neq] True by simp
        moreover have "same c to" using memb True c by (intro sameI [OF c]) (simp_all add: empty)
        ultimately show ?thesis by (simp add: patched_def)
      next
        case False
        then have "MergeDiff from to = Some ?p" using MergeDiff_objects [OF neq] True by simp
        moreover have "same (MergePatchApply c ?p) to"
        proof (rule sameI)
          fix k
          show "same (member (MergePatchApply c ?p) k) (member to k)"
            using memb [of k] okp ok by (simp add: member_apply Find_def)
        qed (use True in \<open>simp_all add: IsObject_apply\<close>)
        ultimately show ?thesis by (simp add: patched_def)
      qed
    qed
  qed
qed

section \<open>Consumers of the stream\<close>

text \<open>What a consumer reads from a frame: the patch of a patch event.\<close>

definition frame_patch :: "string \<Rightarrow> json option" where
  "frame_patch frame =
     (case getlines newline_char frame of
        [] \<Rightarrow> None
      | l # ls \<Rightarrow>
          if l \<noteq> ''event: patch'' then None
          else case filter (starts_with ''data: '') ls of
                 [d] \<Rightarrow> (case Parse (drop 6 d) of Inl _ \<Rightarrow> None | Inr j \<Rightarrow> Find j ''patch'')
               | _ \<Rightarrow> None)"

definition consume :: "string \<Rightarrow> json \<Rightarrow> json" where
  "consume frame c = patched c (frame_patch frame)"

lemma json_ok_keys_ok: "json_ok j n \<Longrightarrow> keys_ok j"
proof (induction j arbitrary: n)
  case (JObject kvs)
  have "keys_ok v" if "(k, v) \<in> set kvs" for k v
    using JObject.IH [OF that, of v "n - 1"] JObject.prems that by (auto simp: list_all_iff)
  then show ?case using JObject.prems by (auto simp: list_all_iff)
next
  case (JArray xs)
  have "keys_ok v" if "v \<in> set xs" for v
    using JArray.IH [OF that, of "n - 1"] JArray.prems that by (auto simp: list_all_iff)
  then show ?case by (simp add: list_all_iff)
qed simp_all

lemma json_ok_Find:
  assumes "json_ok j n" "Find j k = Some v"
  shows "json_ok v (n - 1)"
proof -
  obtain kvs where j: "j = JObject kvs" using assms(2) by (cases j) (simp_all add: Find_def)
  have "(k, v) \<in> set kvs" using assms(2) by (simp add: j Find_def map_of_SomeD)
  with assms(1) show ?thesis by (auto simp: j list_all_iff)
qed

lemma json_okI:
  assumes "0 < n" "distinct (map fst kvs)" and "\<And>k v. map_of kvs k = Some v \<Longrightarrow> json_ok v (n - 1)"
  shows "json_ok (JObject kvs) n"
  using assms by (auto simp: list_all_iff)

lemma json_ok_null: "json_ok j n \<Longrightarrow> json_ok JNull n"
  by (cases j) simp_all

lemma json_ok_MergeDiff: "json_ok from n \<Longrightarrow> json_ok to n \<Longrightarrow> MergeDiff from to = Some p \<Longrightarrow> json_ok p n"
proof (induction "size to" arbitrary: "from" to p n rule: less_induct)
  case less
  show ?case
  proof (cases "json_eq from to \<or> \<not> IsObject from \<or> \<not> IsObject to")
    case True
    then show ?thesis using less.prems by (auto simp: MergeDiff.simps [of "from" to] split: if_splits)
  next
    case False
    then have p: "p = JObject (patch_members from to)"
      using less.prems(3) MergeDiff_objects [of "from" to] by (auto split: if_splits)
    have "json_ok v (n - 1)" if v: "map_of (patch_members from to) k = Some v" for k v
    proof -
      note entry = map_of_patch_members [OF json_ok_keys_ok [OF less.prems(1)] json_ok_keys_ok [OF less.prems(2)], of k]
      show ?thesis
      proof (cases "Find to k")
        case None
        then obtain old where "Find from k = Some old" "v = JNull" using v by (auto simp: entry split: if_splits)
        then show ?thesis using json_ok_null [OF json_ok_Find [OF less.prems(1)]] by simp
      next
        case (Some w)
        note w = json_ok_Find [OF less.prems(2) Some]
        have "diff_entry from (k, w) = Some v" using v Some by (simp add: entry)
        then show ?thesis
        proof (cases "Find from k")
          case old: (Some old)
          have "json_ok q (n - 1)" if "MergeDiff old w = Some q" for q
            by (rule less.hyps [OF Find_size [OF Some] json_ok_Find [OF less.prems(1) old] w that])
          then show ?thesis
            using \<open>diff_entry from (k, w) = Some v\<close> old json_ok_null [OF w] by (auto simp: diff_entry_def split: if_splits)
        qed (use w in \<open>simp add: diff_entry_def\<close>)
      qed
    qed
    then show ?thesis
      unfolding p using json_ok_levels [OF less.prems(1)] by (intro json_okI distinct_patch_members) auto
  qed
qed

lemma stream_keys:
  "JsonEscapeTo ''rev'' = [quote_char] @ ''rev'' @ [quote_char]" "JsonEscapeTo ''patch'' = [quote_char] @ ''patch'' @ [quote_char]"
  by code_simp+

lemma patch_data_json: "patch_data rv p = Dump (JObject [(''rev'', JInt (int rv)), (''patch'', p)])"
  by (simp add: patch_data_def quoted_key_def Dump_def stream_keys to_string_def)

lemma drop_cr_id: "last l \<noteq> CHR 0x0D \<Longrightarrow> drop_cr l = l"
  by (simp add: drop_cr_def)

lemma frame_patch_patch:
  assumes ok: "json_ok p 64" and rv: "int rv < 2 ^ 63"
  shows "frame_patch (SseFrame ''patch'' (dec_nat rv) (patch_data rv p)) = Some p"
proof -
  let ?j = "JObject [(''rev'', JInt (int rv)), (''patch'', p)]"
  let ?d = "patch_data rv p"
  have okj: "json_ok ?j 65" using ok rv by (simp add: in_int64_def)
  have "newline_char \<notin> set ?d" using dump_no_newline [OF okj] by (simp add: patch_data_json Dump_def)
  moreover have "drop_cr ?d = ?d" by (intro drop_cr_id) (simp add: patch_data_def)
  moreover have digits: "newline_char \<notin> set (dec_nat rv)"
    using list_all_isdigit_dec_nat [of rv] by (auto simp: list_all_iff isdigit_def)
  ultimately have lines: "getlines newline_char (SseFrame ''patch'' (dec_nat rv) ?d)
      = [''event: patch'', ''id: '' @ dec_nat rv, ''data: '' @ ?d, []]"
    using getlines_concat [of "[''event: patch'', ''id: '' @ dec_nat rv, ''data: '' @ ?d, []]" newline_char]
    by (simp add: SseFrame_def split_fields_last)
  have "Parse ?d = Inr ?j" unfolding patch_data_json using okj by (intro Parse_Dump) (simp add: max_depth_def)
  then show ?thesis by (simp add: frame_patch_def lines starts_with_def Find_def)
qed

lemma frame_patch_status: "frame_patch (SseFrame ''status'' i d) = None"
proof -
  have "getlines newline_char (''event: status'' @ newline_char # r) = ''event: status'' # getlines newline_char r" for r
    by (rule getlines_line) simp
  then show ?thesis by (simp add: frame_patch_def SseFrame_def)
qed

section \<open>The ring\<close>

text \<open>
  The events of the ring are numbered without holes, from the newest dropped one to \<open>lastSeq_\<close>; what
  the hub compares with is the text of the current state.
\<close>

definition hub_ok :: "Hub \<Rightarrow> bool" where
  "hub_ok h \<longleftrightarrow>
     hb_oldestDroppedSeq h \<le> hb_lastSeq h
     \<and> map ev_seq (hb_events h) = [hb_oldestDroppedSeq h + 1..<hb_lastSeq h + 1]
     \<and> (\<forall>i. hb_cur h = Some i \<longrightarrow> json_ok (in_state i) 64 \<and> hb_stateJ h = Dump (in_state i))
     \<and> (\<forall>i. hb_pending h = Some i \<longrightarrow> json_ok (in_state i) 64)"

definition frames_after :: "nat \<Rightarrow> StreamEvent list \<Rightarrow> string list" where
  "frames_after q es = map ev_frame (filter (\<lambda>e. q < ev_seq e) es)"

lemma drop_old_split:
  assumes "map ev_seq es = [o'..<l]" "o' = Suc oldest" "drop_old cap n oldest es = (oldest', es')"
  shows "oldest \<le> oldest' \<and> map ev_seq es' = [Suc oldest'..<l] \<and> (oldest' = oldest \<or> oldest' < l)
    \<and> (\<forall>q \<ge> oldest'. frames_after q es' = frames_after q es)"
  using assms
proof (induction cap n oldest es arbitrary: o' rule: drop_old.induct)
  case (2 cap n oldest e es)
  show ?case
  proof (cases "n > cap \<or> length (e # es) > cap * 2")
    case True
    have l: "o' < l" using "2.prems"(1) by (metis list.simps(9) list.distinct(1) not_less upt_eq_Nil_conv)
    then have seq: "ev_seq e = o'" "map ev_seq es = [Suc o'..<l]" using "2.prems"(1) by (simp_all add: upt_conv_Cons)
    have "ev_seq e \<le> oldest' \<and> map ev_seq es' = [Suc oldest'..<l] \<and> (oldest' = ev_seq e \<or> oldest' < l)
      \<and> (\<forall>q \<ge> oldest'. frames_after q es' = frames_after q es)"
      using "2.IH" [OF True seq(2)] "2.prems"(3) True seq(1) by simp
    with l seq(1) "2.prems"(2) show ?thesis by (auto simp: frames_after_def)
  next
    case False
    with "2.prems" show ?thesis by auto
  qed
qed auto

lemma Append_event_sel [simp]:
  "hb_cur (Append_event rv f h) = hb_cur h" "hb_pending (Append_event rv f h) = hb_pending h"
  "hb_stateJ (Append_event rv f h) = hb_stateJ h" "hb_rev (Append_event rv f h) = hb_rev h"
  "hb_lastSeq (Append_event rv f h) = hb_lastSeq h + 1"
  by (simp_all add: Append_event_def Let_def split: prod.splits)

lemma Append_event_ring:
  assumes ok: "hub_ok h"
  shows "hub_ok (Append_event rv f h)"
    and "hb_oldestDroppedSeq h \<le> hb_oldestDroppedSeq (Append_event rv f h)"
    and "hb_oldestDroppedSeq (Append_event rv f h) \<le> q \<Longrightarrow> q \<le> hb_lastSeq h \<Longrightarrow>
      frames_after q (hb_events (Append_event rv f h)) = frames_after q (hb_events h) @ [f]"
proof -
  define es where "es = hb_events h @ [\<lparr>ev_seq = hb_lastSeq h + 1, ev_rev = rv, ev_frame = f\<rparr>]"
  obtain o' es' where d: "drop_old (hb_cap h) (length (filter (\<lambda>e. ev_rev e \<noteq> 0) es)) (hb_oldestDroppedSeq h) es = (o', es')"
    by fastforce
  have new: "Append_event rv f h = h\<lparr>hb_lastSeq := hb_lastSeq h + 1, hb_oldestDroppedSeq := o', hb_events := es'\<rparr>"
    using d by (simp add: Append_event_def es_def Let_def)
  have "map ev_seq es = [Suc (hb_oldestDroppedSeq h)..<hb_lastSeq h + 2]"
    using ok by (simp add: hub_ok_def es_def)
  then have split: "hb_oldestDroppedSeq h \<le> o'" "map ev_seq es' = [Suc o'..<hb_lastSeq h + 2]"
    "o' = hb_oldestDroppedSeq h \<or> o' < hb_lastSeq h + 2" "\<forall>q \<ge> o'. frames_after q es' = frames_after q es"
    using drop_old_split [OF _ refl d] by blast+
  show "hub_ok (Append_event rv f h)" using ok split by (auto simp: hub_ok_def new)
  show "hb_oldestDroppedSeq h \<le> hb_oldestDroppedSeq (Append_event rv f h)" using split by (simp add: new)
  assume "hb_oldestDroppedSeq (Append_event rv f h) \<le> q" "q \<le> hb_lastSeq h"
  then show "frames_after q (hb_events (Append_event rv f h)) = frames_after q (hb_events h) @ [f]"
    using split(4) by (simp add: new es_def frames_after_def)
qed

text \<open>A consumer that holds \<open>c\<close> and has read the stream up to \<open>q\<close>, at a hub whose state is \<open>st\<close>.\<close>

definition up_to_date :: "json \<Rightarrow> nat \<Rightarrow> json \<Rightarrow> Hub \<Rightarrow> bool" where
  "up_to_date c q st h \<longleftrightarrow>
     q \<le> hb_lastSeq h \<and>
     (hb_oldestDroppedSeq h \<le> q \<longrightarrow>
        keys_ok (fold consume (frames_after q (hb_events h)) c) \<and>
        same (fold consume (frames_after q (hb_events h)) c) st)"

lemma Append_event_up_to_date:
  assumes ok: "hub_ok h" and now: "up_to_date c q st h"
    and f: "\<And>d. keys_ok d \<Longrightarrow> same d st \<Longrightarrow> keys_ok (consume f d) \<and> same (consume f d) st'"
  shows "up_to_date c q st' (Append_event rv f h)"
proof -
  have "q \<le> hb_lastSeq h" using now by (simp add: up_to_date_def)
  then show ?thesis
    using now f Append_event_ring(2) [OF ok, of rv f] Append_event_ring(3) [OF ok, of rv f q]
    by (auto simp: up_to_date_def)
qed

lemma up_to_date_cong:
  "hb_lastSeq h' = hb_lastSeq h \<Longrightarrow> hb_oldestDroppedSeq h' = hb_oldestDroppedSeq h \<Longrightarrow> hb_events h' = hb_events h
   \<Longrightarrow> up_to_date c q st h' \<longleftrightarrow> up_to_date c q st h"
  by (simp add: up_to_date_def)

lemma up_to_date_same: "up_to_date c q st h \<Longrightarrow> same st st' \<Longrightarrow> up_to_date c q st' h"
  using same_trans by (auto simp: up_to_date_def)

lemma send_patch_up_to_date:
  assumes ok: "hub_ok h" and now: "up_to_date c q (in_state cur) h" and cur: "hb_stateJ h = Dump (in_state cur)"
    and js: "json_ok (in_state cur) 64" "json_ok (in_state i) 64"
    and rv: "int (hb_rev (snd (send_patch cur i h))) < 2 ^ 63"
  shows "hub_ok (snd (send_patch cur i h)) \<and> up_to_date c q (in_state i) (snd (send_patch cur i h))"
proof -
  let ?d = "MergeDiff (in_state cur) (in_state i)"
  have keys: "keys_ok (in_state cur)" "keys_ok (in_state i)" using js json_ok_keys_ok by blast+
  show ?thesis
  proof (cases "Dump (in_state i) = hb_stateJ h")
    case True
    have "Inr (in_state i) = Parse (Dump (in_state i))"
      using json_ok_mono [OF js(2), of "Suc max_depth"] by (simp add: Parse_Dump max_depth_def)
    also have "\<dots> = Inr (in_state cur)"
      using True cur json_ok_mono [OF js(1), of "Suc max_depth"] by (simp add: Parse_Dump max_depth_def)
    finally show ?thesis using True ok now by (simp add: send_patch_def)
  next
    case neq: False
    show ?thesis
    proof (cases ?d)
      case None
      have "same (in_state cur) (in_state i)"
        using patch_leads_to [OF keys(1) keys same_refl [OF keys(1)]] None by (simp add: patched_def)
      then show ?thesis using neq None ok up_to_date_same [OF now] by (simp add: send_patch_def)
    next
      case (Some p)
      define rw where "rw = hb_rev h + 1"
      let ?f = "SseFrame ''patch'' (dec_nat rw) (patch_data rw p)"
      have h': "snd (send_patch cur i h) = Append_event rw ?f (h\<lparr>hb_rev := rw\<rparr>)"
        using neq Some by (simp add: send_patch_def rw_def Let_def)
      have "frame_patch ?f = ?d"
        using frame_patch_patch [OF json_ok_MergeDiff [OF js Some], of rw] rv Some by (simp add: h')
      then have step: "keys_ok (consume ?f d) \<and> same (consume ?f d) (in_state i)"
        if "keys_ok d" "same d (in_state cur)" for d
        using patch_leads_to [OF that(1) keys that(2)] keys_ok_patched [OF that(1) keys] by (simp add: consume_def)
      have "hub_ok (h\<lparr>hb_rev := rw\<rparr>)" using ok by (simp add: hub_ok_def)
      moreover have "up_to_date c q (in_state cur) (h\<lparr>hb_rev := rw\<rparr>)" using now by (simp add: up_to_date_def)
      ultimately show ?thesis
        unfolding h' using Append_event_ring(1) Append_event_up_to_date step by blast
    qed
  qed
qed

lemma send_status_up_to_date:
  assumes ok: "hub_ok h" and now: "up_to_date c q st h"
  shows "hub_ok (snd (send_status cur i h)) \<and> up_to_date c q st (snd (send_status cur i h))"
proof -
  have "consume (SseFrame ''status'' [] d) x = x" for d x by (simp add: consume_def frame_patch_status patched_def)
  then have "up_to_date c q st (Append_event 0 (SseFrame ''status'' [] d) h)" for d
    by (intro Append_event_up_to_date [OF ok now]) simp
  then show ?thesis using Append_event_ring(1) [OF ok] ok now by (simp add: send_status_def Let_def)
qed

section \<open>Runs of the hub\<close>

datatype hub_op = SubmitOp StatusInputs | ProcessOp

fun hub_step :: "hub_op \<Rightarrow> Hub \<Rightarrow> Hub" where
  "hub_step (SubmitOp i) h = Submit i h"
| "hub_step ProcessOp h = snd (Process h)"

fun op_ok :: "hub_op \<Rightarrow> bool" where
  "op_ok (SubmitOp i) = json_ok (in_state i) 64"
| "op_ok ProcessOp = True"

definition commit :: "StatusInputs \<Rightarrow> Hub \<Rightarrow> Hub" where
  "commit i h =
     h\<lparr>hb_cur := Some i, hb_versionsJ := Dump (in_versions i), hb_selftestJ := Dump (in_selftest i),
       hb_platformJ := Dump (in_platform i), hb_summaryJ := Dump (in_summary i), hb_stateJ := Dump (in_state i)\<rparr>"

lemma Process_first:
  "hb_pending h = Some i \<Longrightarrow> hb_cur h = None \<Longrightarrow> snd (Process h) = commit i (h\<lparr>hb_pending := None, hb_rev := 1\<rparr>)"
  by (simp add: Process_def commit_def)

lemma Process_next:
  "hb_pending h = Some i \<Longrightarrow> hb_cur h = Some cur \<Longrightarrow>
   snd (Process h) = commit i (snd (send_status cur i (snd (send_patch cur i (h\<lparr>hb_pending := None\<rparr>)))))"
  by (simp add: Process_def commit_def split: prod.splits)

lemma hub_ok_commit: "hub_ok h \<Longrightarrow> json_ok (in_state i) 64 \<Longrightarrow> hub_ok (commit i h)"
  by (simp add: hub_ok_def commit_def)

lemma up_to_date_commit [simp]: "up_to_date c q st (commit i h) \<longleftrightarrow> up_to_date c q st h"
  by (simp add: up_to_date_def commit_def)

lemma hub_ok_send:
  assumes "hub_ok h"
  shows "hub_ok (snd (send_patch cur i h))" "hub_ok (snd (send_status cur i h))"
proof -
  have "hub_ok (h\<lparr>hb_rev := rw\<rparr>)" for rw using assms by (simp add: hub_ok_def)
  then show "hub_ok (snd (send_patch cur i h))" "hub_ok (snd (send_status cur i h))"
    using assms Append_event_ring(1) by (simp_all add: send_patch_def send_status_def Let_def split: option.splits)
qed

lemma hub_ok_step: "hub_ok h \<Longrightarrow> op_ok e \<Longrightarrow> hub_ok (hub_step e h)"
proof (cases e)
  case ProcessOp
  assume ok: "hub_ok h"
  show ?thesis
  proof (cases "hb_pending h")
    case None
    then show ?thesis using ok by (simp add: ProcessOp Process_def)
  next
    case (Some i)
    then have i: "json_ok (in_state i) 64" using ok by (simp add: hub_ok_def)
    have "hub_ok (h\<lparr>hb_pending := None\<rparr>)" "hub_ok (h\<lparr>hb_pending := None, hb_rev := 1\<rparr>)"
      using ok by (simp_all add: hub_ok_def)
    then show ?thesis
      using Some i hub_ok_send by (cases "hb_cur h") (simp_all add: ProcessOp Process_first Process_next hub_ok_commit)
  qed
qed (simp add: Submit_def hub_ok_def)

interpretation hub: machine hub_step op_ok hub_ok
  by unfold_locales (rule hub_ok_step)

lemma hb_rev_send: "hb_rev h \<le> hb_rev (snd (send_patch cur i h))" "hb_rev (snd (send_status cur i h)) = hb_rev h"
  by (simp_all add: send_patch_def send_status_def Let_def split: option.splits)

lemma hb_rev_commit [simp]: "hb_rev (commit i h) = hb_rev h" "hb_cur (commit i h) = Some i"
  by (simp_all add: commit_def)

lemma send_patch_sel [simp]: "hb_cur (snd (send_patch cur i h)) = hb_cur h"
  by (simp add: send_patch_def Let_def split: option.splits)

text \<open>A consumer stays up to date over every operation of the hub.\<close>

definition consumer_ok :: "json \<Rightarrow> nat \<Rightarrow> Hub \<Rightarrow> bool" where
  "consumer_ok c q h \<longleftrightarrow>
     hub_ok h \<and> (\<exists>i. hb_cur h = Some i \<and> (int (hb_rev h) < 2 ^ 63 \<longrightarrow> up_to_date c q (in_state i) h))"

lemma consumer_ok_step:
  assumes now: "consumer_ok c q h" and e: "op_ok e"
  shows "consumer_ok c q (hub_step e h)"
proof -
  have ok: "hub_ok h" and ok': "hub_ok (hub_step e h)" using now hub_ok_step e by (auto simp: consumer_ok_def)
  obtain cur where cur: "hb_cur h = Some cur" and up: "int (hb_rev h) < 2 ^ 63 \<Longrightarrow> up_to_date c q (in_state cur) h"
    using now by (auto simp: consumer_ok_def)
  show ?thesis
  proof (cases "e = ProcessOp \<and> hb_pending h \<noteq> None")
    case False
    then have "hub_step e h = h \<or> (\<exists>i. hub_step e h = Submit i h)" by (cases e) (auto simp: Process_def)
    then show ?thesis using ok' cur up by (auto simp: consumer_ok_def Submit_def up_to_date_def)
  next
    case True
    then obtain i where i: "hb_pending h = Some i" by auto
    let ?h0 = "h\<lparr>hb_pending := None\<rparr>"
    let ?h1 = "snd (send_patch cur i ?h0)"
    have h': "hub_step e h = commit i (snd (send_status cur i ?h1))" using True Process_next [OF i cur] by simp
    have "up_to_date c q (in_state i) (snd (send_status cur i ?h1))" if rv: "int (hb_rev ?h1) < 2 ^ 63"
    proof -
      have "int (hb_rev h) < 2 ^ 63" using rv hb_rev_send(1) [of ?h0 cur i] by simp
      then have "up_to_date c q (in_state cur) ?h0" using up by (simp add: up_to_date_def)
      moreover have "hub_ok ?h0" using ok by (simp add: hub_ok_def)
      ultimately have "hub_ok ?h1 \<and> up_to_date c q (in_state i) ?h1"
        using ok cur i rv by (intro send_patch_up_to_date) (simp_all add: hub_ok_def)
      then show ?thesis using send_status_up_to_date by blast
    qed
    then show ?thesis using ok' hb_rev_send(2) [of cur i ?h1] by (simp add: consumer_ok_def h')
  qed
qed

interpretation consumer: machine hub_step op_ok "consumer_ok c q" for c q
  by unfold_locales (rule consumer_ok_step)

lemma no_frames_after:
  assumes "hub_ok h" "hb_lastSeq h \<le> q"
  shows "filter (\<lambda>e. q < ev_seq e) (hb_events h) = []"
proof -
  have "ev_seq ` set (hb_events h) = set [hb_oldestDroppedSeq h + 1..<hb_lastSeq h + 1]"
    using assms(1) by (metis hub_ok_def list.set_map)
  then have "ev_seq e \<le> hb_lastSeq h" if "e \<in> set (hb_events h)" for e
    using imageI [OF that, of ev_seq] by auto
  then show ?thesis using assms(2) by (fastforce simp: filter_empty_conv)
qed

section \<open>Properties\<close>

text \<open>
  C10: A merge patch leads to the new state: whatever a consumer holds that agrees with the old state
  up to null members and the order of keys, applying the patch of \<open>MergeDiff\<close> (or nothing, when there
  is none) gives a value that agrees with the new state in the same sense.
\<close>

theorem merge_patch_correct:
  assumes "keys_ok c" "keys_ok from" "keys_ok to" and "same c from"
  shows "same (case MergeDiff from to of None \<Rightarrow> c | Some p \<Rightarrow> MergePatchApply c p) to"
  using patch_leads_to [OF assms] by (simp add: patched_def)

lemma merge_patch_correct_witness:
  "same (case MergeDiff (JObject [(''a'', JInt 1), (''b'', JNull)]) (JObject [(''b'', JObject [(''x'', JNull)])]) of
           None \<Rightarrow> JObject [(''a'', JInt 1)]
         | Some p \<Rightarrow> MergePatchApply (JObject [(''a'', JInt 1)]) p)
     (JObject [(''b'', JObject [(''x'', JNull)])])"
  by (rule merge_patch_correct)
    (simp_all add: same.simps [of "JObject _"] keys_def member_def Find_def json_eq_scalar same_plain)

text \<open>
  C4: A stream consumer ends up with the server's state: it takes the snapshot at any moment, later
  asks for the frames after it, and when the hub still has them (however many events the ring has
  dropped meanwhile, and with status events in between) applying the patches read from their text
  to the snapshot gives the current state, up to null members. Otherwise the hub answers that a
  fresh snapshot is needed.
\<close>

theorem stream_reaches_state:
  assumes h: "h = fold hub_step before (new_hub n)" and cur: "hb_cur h = Some i"
    and h': "h' = fold hub_step later h" and cur': "hb_cur h' = Some i'"
    and inputs: "list_all op_ok before" "list_all op_ok later" and revs: "int (hb_rev h') < 2 ^ 63"
    and frames: "FramesAfter (hb_lastSeq h) h' = Some text"
  defines "fs \<equiv> map ev_frame (filter (\<lambda>e. hb_lastSeq h < ev_seq e) (hb_events h'))"
  shows "text = concat fs \<and> same (fold consume fs (in_state i)) (in_state i')"
proof -
  have "hub_ok (new_hub n)" by (simp add: new_hub_def hub_ok_def)
  then have ok: "hub_ok h" unfolding h using inputs(1) by (rule hub.inv_run)
  then have seqs: "filter (\<lambda>e. hb_lastSeq h < ev_seq e) (hb_events h) = []" by (rule no_frames_after) simp
  have ki: "keys_ok (in_state i)" using ok cur json_ok_keys_ok by (auto simp: hub_ok_def)
  have "consumer_ok (in_state i) (hb_lastSeq h) h"
    using ok cur ki same_refl [OF ki] seqs by (simp add: consumer_ok_def up_to_date_def frames_after_def)
  then have "consumer_ok (in_state i) (hb_lastSeq h) h'" unfolding h' using inputs(2) by (rule consumer.inv_run)
  then have ok': "hub_ok h'" and up: "up_to_date (in_state i) (hb_lastSeq h) (in_state i') h'"
    using cur' revs by (auto simp: consumer_ok_def)
  have old: "hb_oldestDroppedSeq h' \<le> hb_lastSeq h" "hb_lastSeq h \<le> hb_lastSeq h'"
    using frames up ok' by (auto simp: FramesAfter_def up_to_date_def hub_ok_def split: if_splits)
  have "text = concat fs"
  proof (cases "hb_lastSeq h' \<le> hb_lastSeq h")
    case True
    then have "fs = []" using no_frames_after [OF ok'] by (simp add: fs_def)
    then show ?thesis using frames True by (simp add: FramesAfter_def)
  next
    case False
    then show ?thesis using frames old by (simp add: FramesAfter_def fs_def)
  qed
  with up old show ?thesis by (simp add: up_to_date_def frames_after_def fs_def)
qed

definition sample_inputs :: "int \<Rightarrow> StatusInputs" where
  "sample_inputs n =
     \<lparr>in_hostname = ''h'', in_server_id = [], in_game_port = 1, in_versions = JNull, in_selftest = JNull,
      in_platform = JNull, in_summary = JNull, in_state = JObject [(''n'', JInt n)],
      in_update_safe = True, in_healthy = True\<rparr>"

definition sample_run :: "int \<Rightarrow> Hub \<Rightarrow> Hub" where
  "sample_run n = fold hub_step [SubmitOp (sample_inputs n), ProcessOp]"

lemma sample_run_frames: "FramesAfter (hb_lastSeq (sample_run 1 (new_hub 2))) (sample_run 2 (sample_run 1 (new_hub 2))) \<noteq> None"
  by code_simp

lemma sample_run_cur:
  "hb_cur (sample_run 1 (new_hub 2)) = Some (sample_inputs 1)"
  "hb_cur (sample_run 2 (sample_run 1 (new_hub 2))) = Some (sample_inputs 2)"
  "hb_rev (sample_run 2 (sample_run 1 (new_hub 2))) = 2"
  by code_simp+

lemma sample_inputs_ok:
  "op_ok (SubmitOp (sample_inputs 1))" "op_ok (SubmitOp (sample_inputs 2))" "in_state (sample_inputs n) = JObject [(''n'', JInt n)]"
  by (simp_all add: sample_inputs_def in_int64_def)

lemma stream_reaches_state_witness:
  "same (fold consume (map ev_frame (filter (\<lambda>e. hb_lastSeq (sample_run 1 (new_hub 2)) < ev_seq e)
            (hb_events (sample_run 2 (sample_run 1 (new_hub 2)))))) (JObject [(''n'', JInt 1)]))
     (JObject [(''n'', JInt 2)])"
proof -
  obtain r where "FramesAfter (hb_lastSeq (sample_run 1 (new_hub 2))) (sample_run 2 (sample_run 1 (new_hub 2))) = Some r"
    using sample_run_frames by blast
  then show ?thesis
    using stream_reaches_state [of "sample_run 1 (new_hub 2)" "[SubmitOp (sample_inputs 1), ProcessOp]" 2 "sample_inputs 1"
        "sample_run 2 (sample_run 1 (new_hub 2))" "[SubmitOp (sample_inputs 2), ProcessOp]" "sample_inputs 2" r]
      sample_run_cur sample_inputs_ok by (simp add: sample_run_def)
qed

end
