(* ===== verification/Mapvote.thy ===== *)
theory Mapvote
  imports Text_Input
begin

text \<open>
  The rules of the map vote plugin (\<open>src/plugins/mapvote/mapvote_rules.cpp\<close>): the map list, the
  ballot, the winner, the clock and the settings. The random source \<open>rng\<close> is a
  \<open>std::function\<close> the plugin passes in: a parameter, the answer of its \<open>k\<close>-th call for \<open>n\<close>
  choices, of which the header promises a value in \<open>0 .. n - 1\<close>. \<open>double\<close> is \<^typ>\<open>real\<close>.
\<close>

section \<open>Model\<close>

record Settings =
  st_enabled :: bool
  st_maps :: "string list"
  st_rtvRatio :: real
  st_rtvMinPlayers :: int
  st_rtvDelaySeconds :: int
  st_voteOptions :: int
  st_voteSeconds :: int
  st_mapTimeMinutes :: int
  st_voteBeforeEndSeconds :: int
  st_extendMinutes :: int
  st_maxExtends :: int
  st_recentMapsExcluded :: int

definition default_settings :: Settings where
  "default_settings = \<lparr>st_enabled = True, st_maps = [], st_rtvRatio = 6 / 10, st_rtvMinPlayers = 1,
     st_rtvDelaySeconds = 60, st_voteOptions = 6, st_voteSeconds = 20, st_mapTimeMinutes = 30,
     st_voteBeforeEndSeconds = 120, st_extendMinutes = 10, st_maxExtends = 1, st_recentMapsExcluded = 3\<rparr>"

definition DefaultPool :: "string \<Rightarrow> string list" where
  "DefaultPool currentMap =
     (if starts_with ''de_'' currentMap \<or> starts_with ''cs_'' currentMap
      then [''de_dust2'', ''de_inferno'', ''de_mirage'', ''de_nuke'', ''de_overpass'', ''de_train'', ''de_vertigo'']
      else [])"

text \<open>
  \<open>ParseMapList\<close>: the entry collected so far is flushed at a comma, a line end and the end of the
  text; \<open>out\<close> and \<open>seen\<close> are the source's variables.
\<close>

definition is_comment :: "string \<Rightarrow> bool" where
  "is_comment t \<longleftrightarrow> hd t = CHR ''#'' \<or> (1 < length t \<and> t ! 0 = CHR ''/'' \<and> t ! 1 = CHR ''/'')"

definition flush_entry :: "string \<Rightarrow> string list \<times> string set \<Rightarrow> string list \<times> string set" where
  "flush_entry cur acc =
     (let (out, seen) = acc; t = Trim cur
      in if t = [] \<or> is_comment t then (out, seen)
         else if Lower t \<in> seen then (out, seen)
         else (out @ [t], insert (Lower t) seen))"

definition is_separator :: "char \<Rightarrow> bool" where
  "is_separator c \<longleftrightarrow> c = CHR '','' \<or> c = CHR 0x0A \<or> c = CHR 0x0D"

fun parse_loop :: "string \<Rightarrow> string list \<times> string set \<Rightarrow> string \<Rightarrow> string list \<times> string set" where
  "parse_loop cur acc [] = flush_entry cur acc"
| "parse_loop cur acc (c # cs) =
     (if is_separator c then parse_loop [] (flush_entry cur acc) cs else parse_loop (cur @ [c]) acc cs)"

definition ParseMapList :: "string \<Rightarrow> string list" where
  "ParseMapList input = fst (parse_loop [] ([], {}) input)"

definition MapDisplayName :: "string \<Rightarrow> string" where
  "MapDisplayName entry =
     (if starts_with ''workshop/'' entry then
        let rest = drop 9 entry in
        case find_sub ''/'' rest of
          Some slash \<Rightarrow> if slash + 1 < length rest then drop (slash + 1) rest else ''workshop '' @ rest
        | None \<Rightarrow> ''workshop '' @ rest
      else entry)"

text \<open>The entry, or "" with the candidates (\<open>None\<close>: the list is left as it is).\<close>

definition FindMap :: "string list \<Rightarrow> string \<Rightarrow> string \<times> string list option" where
  "FindMap pool typed =
     (let t = Lower (Trim typed) in
      if t = [] then ([], None)
      else case find (\<lambda>e. Lower (MapDisplayName e) = t \<or> Lower e = t) pool of
        Some e \<Rightarrow> (e, None)
      | None \<Rightarrow>
          let hits = filter (\<lambda>e. contains t (Lower (MapDisplayName e))) pool
          in if length hits = 1 then (hits ! 0, None)
             else ([], Some (map MapDisplayName (take 5 hits))))"

definition RtvNeeded :: "int \<Rightarrow> real \<Rightarrow> int" where
  "RtvNeeded humans ratio =
     (if humans \<le> 0 then 1
      else let n = \<lceil>ratio * real_of_int humans - 1 / 10 ^ 9\<rceil> in max 1 (min n humans))"

definition isCurrent :: "string \<Rightarrow> string \<Rightarrow> bool" where
  "isCurrent currentMap e \<longleftrightarrow>
     (let cur = Lower currentMap in cur \<noteq> [] \<and> (Lower e = cur \<or> Lower (MapDisplayName e) = cur))"

fun add_nominations ::
  "string \<Rightarrow> int \<Rightarrow> string list \<Rightarrow> string list \<times> string set \<Rightarrow> string list \<times> string set" where
  "add_nominations currentMap count [] acc = acc"
| "add_nominations currentMap count (n # ns) (out, used) =
     (if int (length out) \<ge> count then (out, used)
      else if isCurrent currentMap n \<or> Lower n \<in> used then add_nominations currentMap count ns (out, used)
      else add_nominations currentMap count ns (out @ [n], insert (Lower n) used))"

definition recent_set :: "string list \<Rightarrow> string set" where
  "recent_set recent = set (map Lower recent) \<union> set (map (Lower \<circ> MapDisplayName) recent)"

definition fresh_maps :: "string \<Rightarrow> string set \<Rightarrow> string list \<Rightarrow> string list \<Rightarrow> string list" where
  "fresh_maps currentMap used recent pool =
     filter (\<lambda>e. \<not> (isCurrent currentMap e \<or> Lower e \<in> used \<or> Lower e \<in> recent_set recent \<or>
                      Lower (MapDisplayName e) \<in> recent_set recent)) pool"

definition add_recent :: "string \<Rightarrow> string set \<Rightarrow> string list \<Rightarrow> string list \<Rightarrow> string list" where
  "add_recent currentMap used pool rest =
     foldl (\<lambda>rest e. if isCurrent currentMap e \<or> Lower e \<in> used then rest
                     else if e \<in> set rest then rest else rest @ [e]) rest pool"

text \<open>The random fill; \<open>k\<close> counts the calls of \<open>rng\<close>.\<close>

fun fill_ballot :: "(nat \<Rightarrow> int \<Rightarrow> int) \<Rightarrow> int \<Rightarrow> nat \<Rightarrow> string list \<Rightarrow> string list \<Rightarrow> string list" where
  "fill_ballot rng count k out [] = out"
| "fill_ballot rng count k out (r # rest) =
     (if int (length out) < count then
        let xs = r # rest; i = nat (rng k (int (length xs)))
        in if i < length xs then fill_ballot rng count (k + 1) (out @ [xs ! i]) (take i xs @ drop (i + 1) xs) else out
      else out)"

definition BuildBallot ::
  "string list \<Rightarrow> string list \<Rightarrow> string \<Rightarrow> string list \<Rightarrow> int \<Rightarrow> (nat \<Rightarrow> int \<Rightarrow> int) \<Rightarrow> string list" where
  "BuildBallot pool nominations currentMap recent count rng =
     (let (out, used) = add_nominations currentMap count nominations ([], {});
          rest = fresh_maps currentMap used recent pool;
          rest = (if int (length out + length rest) < count then add_recent currentMap used pool rest else rest)
      in fill_ballot rng count 0 out rest)"

definition tally_votes :: "int \<Rightarrow> (u64 \<times> int) list \<Rightarrow> int list" where
  "tally_votes optionCount votes =
     foldl (\<lambda>tally kv. if 0 \<le> snd kv \<and> snd kv < optionCount
                        then tally[nat (snd kv) := tally ! nat (snd kv) + 1] else tally)
       (replicate (nat optionCount) 0) votes"

definition Winner :: "int \<Rightarrow> (u64 \<times> int) list \<Rightarrow> int \<Rightarrow> (int \<Rightarrow> int) \<Rightarrow> int" where
  "Winner optionCount votes extendIndex rng =
     (if optionCount \<le> 0 then - 1
      else
        let tally = tally_votes optionCount votes;
            best = Max (set tally);
            top = (if best = 0 then filter (\<lambda>i. i \<noteq> extendIndex) [0..optionCount - 1]
                   else filter (\<lambda>i. tally ! nat i = best) [0..optionCount - 1])
        in if best = 0 \<and> top = [] then extendIndex else top ! nat (rng (int (length top))))"

definition SecondsLeft :: "Settings \<Rightarrow> seconds \<Rightarrow> int \<Rightarrow> seconds \<Rightarrow> int" where
  "SecondsLeft s mapStartedAt extends now =
     (if st_mapTimeMinutes s \<le> 0 then - 1
      else let tot = (real_of_int (st_mapTimeMinutes s) + real_of_int extends * real_of_int (st_extendMinutes s)) * 60
           in max 0 \<lceil>tot - (now - mapStartedAt)\<rceil>)"

text \<open>
  \<open>LoadSettings\<close>: a lookup from keys to values, and the list of warnings. Every integer key has its
  range; a bad value keeps the default and is reported.
\<close>

type_synonym lookup = "string \<Rightarrow> string option"

definition warn :: "string \<Rightarrow> string \<Rightarrow> string" where
  "warn key v = ''bad value for '' @ key @ '': '' @ v"

definition intKey ::
  "lookup \<Rightarrow> string \<Rightarrow> int \<Rightarrow> int \<Rightarrow> (int \<Rightarrow> Settings \<Rightarrow> Settings) \<Rightarrow> Settings \<times> string list \<Rightarrow> Settings \<times> string list" where
  "intKey look key lo hi upd sw =
     (let (s, ws) = sw in
      case look key of
        None \<Rightarrow> sw
      | Some v \<Rightarrow> (case int_in lo hi (Trim v) of Some n \<Rightarrow> (upd n s, ws) | None \<Rightarrow> (s, ws @ [warn key (Trim v)])))"

definition ratioKey :: "lookup \<Rightarrow> Settings \<times> string list \<Rightarrow> Settings \<times> string list" where
  "ratioKey look sw =
     (let (s, ws) = sw in
      case look ''rtv_ratio'' of
        None \<Rightarrow> sw
      | Some v \<Rightarrow>
          let (d, rest) = strtod (Trim v)
          in if rest = [] \<and> 0 < d \<and> d \<le> 1 then (s\<lparr>st_rtvRatio := d\<rparr>, ws) else (s, ws @ [warn ''rtv_ratio'' v]))"

definition LoadSettings :: "lookup \<Rightarrow> Settings \<times> string list" where
  "LoadSettings look =
     (let s = default_settings;
          s = (case look ''enabled'' of None \<Rightarrow> s | Some v \<Rightarrow> s\<lparr>st_enabled := Trim v \<noteq> ''0''\<rparr>);
          s = (case look ''maps'' of None \<Rightarrow> s | Some v \<Rightarrow> s\<lparr>st_maps := ParseMapList v\<rparr>);
          sw = ratioKey look (s, []);
          sw = intKey look ''rtv_min_players'' 1 64 (\<lambda>n. st_rtvMinPlayers_update (\<lambda>_. n)) sw;
          sw = intKey look ''rtv_delay_seconds'' 0 3600 (\<lambda>n. st_rtvDelaySeconds_update (\<lambda>_. n)) sw;
          sw = intKey look ''vote_options'' 2 8 (\<lambda>n. st_voteOptions_update (\<lambda>_. n)) sw;
          sw = intKey look ''vote_seconds'' 5 120 (\<lambda>n. st_voteSeconds_update (\<lambda>_. n)) sw;
          sw = intKey look ''map_time_minutes'' 0 600 (\<lambda>n. st_mapTimeMinutes_update (\<lambda>_. n)) sw;
          sw = intKey look ''vote_before_end_seconds'' 10 600 (\<lambda>n. st_voteBeforeEndSeconds_update (\<lambda>_. n)) sw;
          sw = intKey look ''extend_minutes'' 1 120 (\<lambda>n. st_extendMinutes_update (\<lambda>_. n)) sw;
          sw = intKey look ''max_extends'' 0 10 (\<lambda>n. st_maxExtends_update (\<lambda>_. n)) sw
      in intKey look ''recent_maps_excluded'' 0 20 (\<lambda>n. st_recentMapsExcluded_update (\<lambda>_. n)) sw)"

section \<open>The map list\<close>

definition clean_entry :: "string \<Rightarrow> bool" where
  "clean_entry t \<longleftrightarrow> t \<noteq> [] \<and> Trim t = t \<and> \<not> is_comment t \<and> list_all (\<lambda>c. \<not> is_separator c) t"

definition list_ok :: "string list \<times> string set \<Rightarrow> bool" where
  "list_ok acc \<longleftrightarrow> snd acc = Lower ` set (fst acc) \<and> distinct (map Lower (fst acc)) \<and> (\<forall>t \<in> set (fst acc). clean_entry t)"

lemma Trim_idem [simp]: "Trim (Trim s) = Trim s"
proof (cases "Trim s = []")
  case False
  then show ?thesis
    unfolding Trim_def by (intro trim_by_id) (simp_all add: trim_by_hd trim_by_last)
next
  case True
  show ?thesis unfolding True by (simp add: Trim_def trim_by_def)
qed

lemma flush_entry_ok:
  "list_ok acc \<Longrightarrow> list_all (\<lambda>c. \<not> is_separator c) cur \<Longrightarrow> list_ok (flush_entry cur acc)"
  using set_trim_by [of isspace cur]
  by (auto simp: list_ok_def flush_entry_def Let_def clean_entry_def list_all_iff Trim_def [symmetric]
      split: prod.splits)

lemma parse_loop_ok:
  "list_ok acc \<Longrightarrow> list_all (\<lambda>c. \<not> is_separator c) cur \<Longrightarrow> list_ok (parse_loop cur acc input)"
  by (induction cur acc input rule: parse_loop.induct) (simp_all add: flush_entry_ok)

lemma ParseMapList_ok:
  "distinct (map Lower (ParseMapList input))" "t \<in> set (ParseMapList input) \<Longrightarrow> clean_entry t"
  using parse_loop_ok [of "([], {})" "[]" input] by (simp_all add: ParseMapList_def list_ok_def)

lemma parse_loop_entry:
  "list_all (\<lambda>c. \<not> is_separator c) x \<Longrightarrow>
   parse_loop cur acc (x @ CHR '','' # r) = parse_loop [] (flush_entry (cur @ x) acc) r"
  by (induction x arbitrary: cur) (simp_all add: is_separator_def)

lemma parse_loop_last:
  "list_all (\<lambda>c. \<not> is_separator c) x \<Longrightarrow> parse_loop cur acc x = flush_entry (cur @ x) acc"
  by (induction x arbitrary: cur) simp_all

lemma flush_clean:
  "clean_entry t \<Longrightarrow> Lower t \<notin> seen \<Longrightarrow> flush_entry t (out, seen) = (out @ [t], insert (Lower t) seen)"
  by (simp add: flush_entry_def clean_entry_def)

lemma parse_joined:
  assumes "\<forall>t \<in> set ts. clean_entry t" and "distinct (map Lower ts)"
    and "seen \<inter> Lower ` set ts = {}" and "ts \<noteq> []"
  shows "fst (parse_loop [] (out, seen) (join_by (CHR '','') ts)) = out @ ts"
  using assms
proof (induction "CHR '',''" ts arbitrary: out seen rule: join_by.induct)
  case (2 x)
  then show ?case using parse_loop_last [of x "[]"] by (auto simp: clean_entry_def [of x] flush_clean)
next
  case (3 x y xs)
  then have "list_all (\<lambda>c. \<not> is_separator c) x" by (simp add: clean_entry_def)
  with 3 show ?case by (auto simp: parse_loop_entry flush_clean)
qed simp

text \<open>
  A map list read from the settings has no duplicate (whatever the case of its letters), no
  blank, comment or separator, and writing the entries back with commas and reading them again
  gives the same list.
\<close>

theorem ParseMapList_roundtrip:
  "ParseMapList (join_by (CHR '','') (ParseMapList input)) = ParseMapList input \<and>
   distinct (map Lower (ParseMapList input)) \<and> list_all clean_entry (ParseMapList input)"
proof (cases "ParseMapList input = []")
  case True
  then show ?thesis by (simp add: ParseMapList_def flush_entry_def Trim_def trim_by_def)
next
  case False
  have clean: "\<forall>t \<in> set (ParseMapList input). clean_entry t" using ParseMapList_ok(2) by blast
  have "fst (parse_loop [] ([], {}) (join_by (CHR '','') (ParseMapList input))) = [] @ ParseMapList input"
    by (rule parse_joined) (use clean ParseMapList_ok(1) False in simp_all)
  with clean show ?thesis
    by (simp add: ParseMapList_def [of "join_by _ _"] ParseMapList_ok(1) list_all_iff)
qed

section \<open>The ballot\<close>

text \<open>The promise of the header on the random source.\<close>

definition rng_ok :: "(nat \<Rightarrow> int \<Rightarrow> int) \<Rightarrow> bool" where
  "rng_ok rng \<longleftrightarrow> (\<forall>k n. 0 < n \<longrightarrow> 0 \<le> rng k n \<and> rng k n < n)"

text \<open>Reference: the nominations that count, in order, each map once.\<close>

fun first_of_each :: "string set \<Rightarrow> string list \<Rightarrow> string list" where
  "first_of_each seen [] = []"
| "first_of_each seen (n # ns) =
     (if Lower n \<in> seen then first_of_each seen ns else n # first_of_each (insert (Lower n) seen) ns)"

definition nominated :: "string list \<Rightarrow> string \<Rightarrow> int \<Rightarrow> string list" where
  "nominated nominations currentMap count =
     take (nat count) (first_of_each {} (filter (\<lambda>n. \<not> isCurrent currentMap n) nominations))"

lemma add_nominations_eq:
  "int (length out) \<le> count \<or> out = [] \<Longrightarrow>
   fst (add_nominations cur count ns (out, used)) =
   out @ take (nat count - length out) (first_of_each used (filter (\<lambda>n. \<not> isCurrent cur n) ns))"
proof (induction cur count ns "(out, used)" arbitrary: out used rule: add_nominations.induct)
  case (2 cur count n ns out used)
  show ?case
  proof (cases "count \<le> int (length out)")
    case False
    then have "nat count - length out = Suc (nat count - length (out @ [n]))" by simp
    with 2 False show ?thesis by auto
  qed simp
qed simp

lemma add_nominations_used:
  "used = Lower ` set out \<Longrightarrow> add_nominations cur count ns (out, used) = (out', used') \<Longrightarrow> used' = Lower ` set out'"
  by (induction cur count ns "(out, used)" arbitrary: out used rule: add_nominations.induct)
     (auto split: if_splits)

lemma first_of_each_props:
  "set (first_of_each seen ns) \<subseteq> set ns"
  "distinct (map Lower (first_of_each seen ns))"
  "Lower ` set (first_of_each seen ns) = Lower ` set ns - seen"
proof (induction seen ns rule: first_of_each.induct)
  case (2 seen n ns)
  { case 1 then show ?case using "2.IH" by auto }
  { case 2 then show ?case using "2.IH" by auto }
  { case 3 then show ?case using "2.IH" by auto }
qed simp_all

lemma nominated_props:
  "set (nominated ns cur count) \<subseteq> {n \<in> set ns. \<not> isCurrent cur n}"
  "distinct (map Lower (nominated ns cur count))"
  "int (length (nominated ns cur count)) \<le> max 0 count"
  "int (length (nominated ns cur count)) < count \<Longrightarrow>
   Lower ` set (nominated ns cur count) = Lower ` {n \<in> set ns. \<not> isCurrent cur n}"
proof -
  let ?f = "first_of_each {} (filter (\<lambda>n. \<not> isCurrent cur n) ns)"
  have sub: "set ?f \<subseteq> {n \<in> set ns. \<not> isCurrent cur n}"
    using first_of_each_props(1) [of "{}" "filter (\<lambda>n. \<not> isCurrent cur n) ns"] by auto
  then show "set (nominated ns cur count) \<subseteq> {n \<in> set ns. \<not> isCurrent cur n}"
    unfolding nominated_def by (meson dual_order.trans set_take_subset)
  show "distinct (map Lower (nominated ns cur count))"
    unfolding nominated_def take_map [symmetric] by (intro distinct_take first_of_each_props(2))
  show "int (length (nominated ns cur count)) \<le> max 0 count" by (simp add: nominated_def)
  assume "int (length (nominated ns cur count)) < count"
  then have "nominated ns cur count = ?f" unfolding nominated_def by (simp add: min_def split: if_splits)
  then show "Lower ` set (nominated ns cur count) = Lower ` {n \<in> set ns. \<not> isCurrent cur n}"
    using first_of_each_props(3) [of "{}" "filter (\<lambda>n. \<not> isCurrent cur n) ns"] by simp
qed

lemma add_nominations_nominated:
  "add_nominations cur count ns ([], {}) = (nominated ns cur count, Lower ` set (nominated ns cur count))"
proof -
  obtain out used where on: "add_nominations cur count ns ([], {}) = (out, used)" by fastforce
  moreover have "out = nominated ns cur count"
    using add_nominations_eq [of "[]" count cur ns "{}"] on by (simp add: nominated_def)
  moreover have "used = Lower ` set out" using add_nominations_used [OF _ on] by simp
  ultimately show ?thesis by simp
qed

lemma set_add_recent:
  "set (add_recent cur used pool rest) = set rest \<union> {e \<in> set pool. \<not> isCurrent cur e \<and> Lower e \<notin> used}"
  unfolding add_recent_def by (induction pool arbitrary: rest) auto

lemma distinct_add_recent: "distinct rest \<Longrightarrow> distinct (add_recent cur used pool rest)"
  unfolding add_recent_def by (induction pool arbitrary: rest) auto

text \<open>The random fill takes different elements of \<open>rest\<close> until the ballot is full or \<open>rest\<close> empty.\<close>

lemma fill_ballot_spec:
  assumes "rng_ok rng"
  shows "\<exists>xs. fill_ballot rng count k out rest = out @ xs \<and> set xs \<subseteq> set rest \<and>
              length xs = min (nat (count - int (length out))) (length rest) \<and>
              (distinct (map Lower (out @ rest)) \<longrightarrow> distinct (map Lower (out @ xs)))"
  using assms
proof (induction rng count k out rest rule: fill_ballot.induct [case_names Nil Cons])
  case (Cons rng count k out r rest)
  show ?case
  proof (cases "int (length out) < count")
    case True
    define ys where "ys = r # rest"
    define i where "i = nat (rng k (int (length ys)))"
    have "0 < int (length ys)" by (simp add: ys_def)
    with Cons.prems have "0 \<le> rng k (int (length ys)) \<and> rng k (int (length ys)) < int (length ys)"
      unfolding rng_ok_def by blast
    then have i: "i < length ys" unfolding i_def by linarith
    then obtain l x m where ys: "ys = l @ x # m" and li: "length l = i"
      by (metis id_take_nth_drop length_take min.absorb4)
    have x: "ys ! i = x" "take i ys @ drop (i + 1) ys = l @ m" using ys li by (simp_all add: nth_append)
    have step: "fill_ballot rng count k out ys = fill_ballot rng count (k + 1) (out @ [x]) (l @ m)"
      using True i x unfolding ys_def i_def by (simp add: Let_def)
    obtain xs where xs:
      "fill_ballot rng count (k + 1) (out @ [x]) (l @ m) = (out @ [x]) @ xs" "set xs \<subseteq> set (l @ m)"
      "length xs = min (nat (count - int (length (out @ [x])))) (length (l @ m))"
      "distinct (map Lower ((out @ [x]) @ l @ m)) \<longrightarrow> distinct (map Lower ((out @ [x]) @ xs))"
      using Cons.IH [OF True ys_def i_def i Cons.prems] unfolding x by blast
    have "length (x # xs) = min (nat (count - int (length out))) (length ys)"
      using xs(3) True by (simp add: ys)
    moreover have "set (x # xs) \<subseteq> set ys" using xs(2) by (auto simp: ys)
    moreover have "distinct (map Lower (out @ ys)) \<longrightarrow> distinct (map Lower (out @ x # xs))"
      using xs(4) by (auto simp: ys)
    ultimately show ?thesis using step xs(1) unfolding ys_def by (intro exI [of _ "x # xs"]) simp
  qed simp
qed simp

text \<open>
  The ballot starts with the nominations in order (each map once, never the current map), is as
  long as the settings allow as far as there are maps to fill it, and has no map twice and never the
  current map; while the pool has enough other maps, no recent map gets on it without a nomination.
\<close>

theorem BuildBallot_correct:
  fixes pool nominations recent :: "string list" and currentMap :: string and count :: int
  assumes rng: "rng_ok rng" and pool: "distinct (map Lower pool)"
  defines "B \<equiv> BuildBallot pool nominations currentMap recent count rng"
    and "noms \<equiv> nominated nominations currentMap count"
    and "cands \<equiv> {e \<in> set nominations \<union> set pool. \<not> isCurrent currentMap e}"
  shows "length B = min (nat count) (card (Lower ` cands)) \<and> prefix noms B \<and>
         distinct (map Lower B) \<and> set B \<subseteq> cands \<and>
         (int (length noms + length (fresh_maps currentMap (Lower ` set noms) recent pool)) \<ge> count \<longrightarrow>
          set B - set noms \<subseteq> set (fresh_maps currentMap {} recent pool))"
proof -
  let ?used = "Lower ` set noms"
  let ?fresh = "fresh_maps currentMap ?used recent pool"
  define rest where
    "rest = (if int (length noms + length ?fresh) < count then add_recent currentMap ?used pool ?fresh else ?fresh)"
  have Bfill: "B = fill_ballot rng count 0 noms rest"
    by (simp add: B_def BuildBallot_def add_nominations_nominated noms_def [symmetric] rest_def Let_def)
  obtain xs where B: "B = noms @ xs" and xs: "set xs \<subseteq> set rest"
    and len: "length xs = min (nat (count - int (length noms))) (length rest)"
    and dist: "distinct (map Lower (noms @ rest)) \<Longrightarrow> distinct (map Lower (noms @ xs))"
    using fill_ballot_spec [OF rng, of count 0 noms rest] unfolding Bfill by blast
  have rest_sub: "set rest \<subseteq> {e \<in> set pool. \<not> isCurrent currentMap e \<and> Lower e \<notin> ?used}"
    by (auto simp: rest_def set_add_recent fresh_maps_def)
  have "distinct rest"
    using pool by (auto simp: rest_def fresh_maps_def distinct_map intro!: distinct_add_recent)
  moreover have "inj_on Lower (set rest)"
    using pool rest_sub by (auto simp: distinct_map intro: inj_on_subset)
  moreover have "Lower ` set noms \<inter> Lower ` set rest = {}"
  proof (rule equals0I)
    fix y assume y: "y \<in> Lower ` set noms \<inter> Lower ` set rest"
    then obtain e where "e \<in> set rest" and "y = Lower e" by blast
    then have "y \<notin> Lower ` set noms" using rest_sub by (simp add: subset_iff)
    with y show False by simp
  qed
  ultimately have d: "distinct (map Lower (noms @ rest))"
    using nominated_props(2) [of nominations currentMap count] by (simp add: distinct_map noms_def)
  have all_sub: "set (noms @ rest) \<subseteq> cands"
    using nominated_props(1) [of nominations currentMap count] rest_sub by (auto simp: noms_def cands_def)
  have "length (noms @ rest) = card (Lower ` set (noms @ rest))"
    using distinct_card [OF d] by (simp add: image_Un)
  moreover have "card (Lower ` set (noms @ rest)) \<le> card (Lower ` cands)"
    by (rule card_mono) (use all_sub in \<open>auto simp: cands_def\<close>)
  moreover have "count \<le> int (length noms + length rest) \<or> Lower ` set (noms @ rest) = Lower ` cands"
  proof (cases "int (length noms + length rest) < count")
    case True
    then have "Lower ` set noms = Lower ` {n \<in> set nominations. \<not> isCurrent currentMap n}"
      unfolding noms_def by (intro nominated_props(4)) simp
    moreover have "set rest = {e \<in> set pool. \<not> isCurrent currentMap e \<and> Lower e \<notin> ?used}"
      using True by (auto simp: rest_def set_add_recent fresh_maps_def split: if_splits)
    ultimately show ?thesis by (auto simp: cands_def)
  qed simp
  ultimately have "length B = min (nat count) (card (Lower ` cands))"
    using len nominated_props(3) [of nominations currentMap count] by (auto simp: B noms_def)
  moreover have "set xs \<subseteq> set (fresh_maps currentMap {} recent pool)"
    if "int (length noms + length ?fresh) \<ge> count"
    using that xs by (auto simp: rest_def fresh_maps_def)
  ultimately show ?thesis using dist [OF d] all_sub xs by (auto simp: B)
qed

theorem BuildBallot_correct_witness:
  "set (BuildBallot [''de_nuke'', ''de_train'', ''de_dust2''] [''DE_TRAIN''] ''de_dust2'' [''de_nuke''] 6 (\<lambda>k n. 0))
     \<subseteq> {e \<in> {''DE_TRAIN'', ''de_nuke'', ''de_train'', ''de_dust2''}. \<not> isCurrent ''de_dust2'' e}"
proof -
  have "rng_ok (\<lambda>k n. 0)" by (simp add: rng_ok_def)
  moreover have "distinct (map Lower [''de_nuke'', ''de_train'', ''de_dust2''])" by code_simp
  ultimately show ?thesis
    using BuildBallot_correct [of "\<lambda>k n. 0" "[''de_nuke'', ''de_train'', ''de_dust2'']" "[''DE_TRAIN'']" "''de_dust2''" "[''de_nuke'']" 6]
    by auto
qed

text \<open>
  The header promises maps that are not recent. When the pool is too small for that, recent maps
  join the draw on equal terms, so a recent map can push a fresh one off the ballot.
\<close>

lemma recent_map_displaces_fresh:
  "BuildBallot [''de_nuke'', ''de_train'', ''de_mirage''] [] ''de_dust2'' [''de_train'', ''de_mirage''] 2
     (\<lambda>k n. n - 1) = [''de_mirage'', ''de_train'']"
  by code_simp

section \<open>The winner\<close>

definition votes_for :: "int \<Rightarrow> (u64 \<times> int) list \<Rightarrow> int" where
  "votes_for j votes = int (length (filter (\<lambda>kv. snd kv = j) votes))"

lemma length_tally [simp]: "length (tally_votes n votes) = nat n"
proof -
  have "length (foldl (\<lambda>tally kv. if 0 \<le> snd kv \<and> snd kv < n
          then tally[nat (snd kv) := tally ! nat (snd kv) + 1] else tally) t votes) = length t" for t :: "int list"
    by (induction votes arbitrary: t) auto
  then show ?thesis by (simp add: tally_votes_def)
qed

lemma tally_nth:
  assumes "0 \<le> j" and "j < n"
  shows "tally_votes n votes ! nat j = votes_for j votes"
proof -
  have "length t = nat n \<Longrightarrow>
        foldl (\<lambda>tally kv. if 0 \<le> snd kv \<and> snd kv < n
          then tally[nat (snd kv) := tally ! nat (snd kv) + 1] else tally) t votes ! nat j =
        t ! nat j + votes_for j votes" for t :: "int list"
  proof (induction votes arbitrary: t)
    case (Cons kv votes)
    then show ?case using assms by (auto simp: votes_for_def nth_list_update)
  qed (simp add: votes_for_def)
  from this [of "replicate (nat n) 0"] assms show ?thesis by (simp add: tally_votes_def)
qed

lemma set_tally: "0 \<le> n \<Longrightarrow> set (tally_votes n votes) = {votes_for j votes |j. 0 \<le> j \<and> j < n}"
proof -
  assume "0 \<le> n"
  have "set (tally_votes n votes) = {tally_votes n votes ! i |i. i < nat n}" by (simp add: set_conv_nth)
  also have "\<dots> = {votes_for j votes |j. 0 \<le> j \<and> j < n}"
  proof (intro set_eqI iffI; clarify)
    fix i assume "i < nat n"
    then have "0 \<le> int i \<and> int i < n" by linarith
    then show "\<exists>j. tally_votes n votes ! i = votes_for j votes \<and> 0 \<le> j \<and> j < n"
      using tally_nth [of "int i" n votes] by (intro exI [of _ "int i"]) simp
  next
    fix j assume "0 \<le> j" and "j < n"
    then show "\<exists>i. votes_for j votes = tally_votes n votes ! i \<and> i < nat n"
      using tally_nth [of j n votes] by (intro exI [of _ "nat j"]) simp
  qed
  finally show ?thesis .
qed

text \<open>
  The winner is one of the options and no option has more votes; the extend option wins only
  with votes of its own, unless it is the only option.
\<close>

theorem Winner_most_votes:
  fixes votes :: "(u64 \<times> int) list"
  assumes n: "0 < n" and rng: "\<And>m. 0 < m \<Longrightarrow> 0 \<le> rng m \<and> rng m < m" and ext: "- 1 \<le> extendIndex" "extendIndex < n"
  defines "w \<equiv> Winner n votes extendIndex rng"
  shows "0 \<le> w \<and> w < n \<and> (\<forall>j. 0 \<le> j \<longrightarrow> j < n \<longrightarrow> votes_for j votes \<le> votes_for w votes) \<and>
         (w = extendIndex \<longrightarrow> 0 < votes_for w votes \<or> n = 1)"
proof -
  define best where "best = Max (set (tally_votes n votes))"
  define top where "top = (if best = 0 then filter (\<lambda>i. i \<noteq> extendIndex) [0..n - 1]
                           else filter (\<lambda>i. tally_votes n votes ! nat i = best) [0..n - 1])"
  have w: "w = (if best = 0 \<and> top = [] then extendIndex else top ! nat (rng (int (length top))))"
    using n by (simp add: w_def Winner_def Let_def best_def top_def)
  have "length (tally_votes n votes) > 0" using n unfolding length_tally by simp
  then have ne: "set (tally_votes n votes) \<noteq> {}" by (simp only: length_greater_0_conv set_empty not_False_eq_True)
  have le: "votes_for j votes \<le> best" if "0 \<le> j" "j < n" for j
    unfolding best_def using that n by (intro Max_ge) (auto simp: set_tally)
  have "best \<in> set (tally_votes n votes)" unfolding best_def using ne by (intro Max_in) simp_all
  then obtain b where b: "0 \<le> b" "b < n" "votes_for b votes = best" using n by (auto simp: set_tally)
  have pick: "top ! nat (rng (int (length top))) \<in> set top" if "top \<noteq> []"
    using rng [of "int (length top)"] that by (intro nth_mem) auto
  have in_top: "0 \<le> i \<and> i < n \<and> votes_for i votes = best \<and> (best = 0 \<longrightarrow> i \<noteq> extendIndex)" if "i \<in> set top" for i
    using that le [of i] tally_nth [of i n votes] by (auto simp: top_def votes_for_def split: if_splits)
  have best0: "0 \<le> best" using b(3) by (auto simp: votes_for_def)
  show ?thesis
  proof (cases "top = []")
    case True
    then have "best = 0" using b tally_nth [of b n votes] by (auto simp: top_def filter_empty_conv split: if_splits)
    with True have "i = extendIndex" if "0 \<le> i" "i < n" for i
      using that by (auto simp: top_def filter_empty_conv)
    from this [of 0] this [of "n - 1"] have "extendIndex = 0" "n = 1" using n by auto
    moreover have "votes_for j votes \<le> votes_for 0 votes" if "0 \<le> j" "j < 1" for j
    proof -
      from that have "j = 0" by simp
      then show ?thesis by simp
    qed
    ultimately show ?thesis using True w \<open>best = 0\<close> by simp
  next
    case False
    with w pick have "w \<in> set top" by simp
    with in_top le best0 show ?thesis by force
  qed
qed

theorem Winner_most_votes_witness:
  "Winner 3 [(1, 1), (2, 1), (3, 0)] 2 (\<lambda>m. 0) = 1 \<and>
   votes_for 0 [(1, 1), (2, 1), (3, 0)] \<le> votes_for 1 [(1, 1), (2, 1), (3, 0)]"
proof -
  have w: "Winner 3 [(1, 1), (2, 1), (3, 0)] 2 (\<lambda>m. 0) = 1" by code_simp
  moreover have "\<forall>j. 0 \<le> j \<longrightarrow> j < 3 \<longrightarrow> votes_for j [(1, 1), (2, 1), (3, 0)] \<le>
      votes_for (Winner 3 [(1, 1), (2, 1), (3, 0)] 2 (\<lambda>m. 0)) [(1, 1), (2, 1), (3, 0)]"
    using Winner_most_votes [of 3 "\<lambda>m. 0" 2 "[(1, 1), (2, 1), (3, 0)]"] by simp
  ultimately show ?thesis by simp
qed

section \<open>Settings\<close>

text \<open>
  The range of every setting: the keys' ranges contain the defaults.
\<close>

definition settings_ok :: "Settings \<Rightarrow> bool" where
  "settings_ok s \<longleftrightarrow>
     0 < st_rtvRatio s \<and> st_rtvRatio s \<le> 1 \<and> 1 \<le> st_rtvMinPlayers s \<and> st_rtvMinPlayers s \<le> 64 \<and>
     0 \<le> st_rtvDelaySeconds s \<and> st_rtvDelaySeconds s \<le> 3600 \<and> 2 \<le> st_voteOptions s \<and> st_voteOptions s \<le> 8 \<and>
     5 \<le> st_voteSeconds s \<and> st_voteSeconds s \<le> 120 \<and> 0 \<le> st_mapTimeMinutes s \<and> st_mapTimeMinutes s \<le> 600 \<and>
     10 \<le> st_voteBeforeEndSeconds s \<and> st_voteBeforeEndSeconds s \<le> 600 \<and>
     1 \<le> st_extendMinutes s \<and> st_extendMinutes s \<le> 120 \<and> 0 \<le> st_maxExtends s \<and> st_maxExtends s \<le> 10 \<and>
     0 \<le> st_recentMapsExcluded s \<and> st_recentMapsExcluded s \<le> 20"

lemma intKey_ok:
  assumes "settings_ok (fst sw)" and "\<And>n s. lo \<le> n \<Longrightarrow> n \<le> hi \<Longrightarrow> settings_ok s \<Longrightarrow> settings_ok (upd n s)"
  shows "settings_ok (fst (intKey look key lo hi upd sw))"
  using assms int_in_bounds by (cases sw) (auto simp: intKey_def split: option.splits)

lemma ratioKey_ok: "settings_ok (fst sw) \<Longrightarrow> settings_ok (fst (ratioKey look sw))"
  by (cases sw) (auto simp: ratioKey_def settings_ok_def Let_def split: option.splits prod.splits)

lemma LoadSettings_ok: "settings_ok (fst (LoadSettings look))"
  unfolding LoadSettings_def Let_def
  by (intro intKey_ok ratioKey_ok)
     (simp_all add: settings_ok_def default_settings_def split: option.splits)

section \<open>Counts and clocks\<close>

text \<open>The number of \<open>.rtv\<close> votes is the least that reaches the ratio (within the rounding slack).\<close>

lemma RtvNeeded_bounds: "1 \<le> RtvNeeded humans ratio \<and> RtvNeeded humans ratio \<le> max 1 humans"
  by (auto simp: RtvNeeded_def Let_def)

lemma RtvNeeded_reaches:
  assumes "0 < humans" and "0 < ratio" and "ratio \<le> 1" and "1 \<le> v" and "v \<le> humans"
  shows "RtvNeeded humans ratio \<le> v \<longleftrightarrow> ratio * real_of_int humans - 1 / 10 ^ 9 \<le> real_of_int v"
proof -
  have "ratio * real_of_int humans \<le> 1 * real_of_int humans" using assms by (intro mult_right_mono) auto
  then have "\<lceil>ratio * real_of_int humans - 1 / 10 ^ 9\<rceil> \<le> humans" by (simp add: ceiling_le_iff)
  with assms show ?thesis by (auto simp: RtvNeeded_def ceiling_le_iff)
qed

lemma SecondsLeft_zero_iff:
  assumes "0 < st_mapTimeMinutes s"
  shows "SecondsLeft s t0 extends now = 0 \<longleftrightarrow>
         real_of_int (60 * (st_mapTimeMinutes s + extends * st_extendMinutes s)) \<le> now - t0"
proof -
  have "SecondsLeft s t0 extends now = 0 \<longleftrightarrow>
        \<lceil>(real_of_int (st_mapTimeMinutes s) + real_of_int extends * real_of_int (st_extendMinutes s)) * 60 - (now - t0)\<rceil> \<le> 0"
    using assms by (auto simp only: SecondsLeft_def Let_def max_def split: if_splits)
  then show ?thesis by (simp add: ceiling_le_zero algebra_simps)
qed

end
