(* ===== verification/Deathmatch.thy ===== *)
theory Deathmatch
  imports Text_Input "HOL-Library.Multiset" "HOL-Library.Product_Lexorder"
begin

text \<open>
  The rules of the deathmatch plugin (\<open>src/plugins/deathmatch/dm_rules.cpp\<close>): settings, the console
  commands of each mode, weapon rounds, the scoreboard with its ranking and its saved form, the end
  of a game, HTML escaping and the choice of the map. The panels made of these parts
  (\<open>LeaderboardHtml\<close>, \<open>WinnerHtml\<close>, \<open>WinnerChat\<close>) are not modelled.
\<close>

section \<open>Settings\<close>

datatype Mode = Off | Ffa | Tdm

definition ModeName :: "Mode \<Rightarrow> string" where
  "ModeName m = (case m of Ffa \<Rightarrow> ''ffa'' | Tdm \<Rightarrow> ''tdm'' | Off \<Rightarrow> ''off'')"

definition ParseMode :: "string \<Rightarrow> Mode option" where
  "ParseMode s =
     (let l = Lower s
      in if l = ''ffa'' \<or> l = ''dm'' then Some Ffa else if l = ''tdm'' then Some Tdm else None)"

record DmSettings =
  dm_killLimitFfa :: int
  dm_killLimitTdm :: int
  dm_timeLimitMinutes :: int
  dm_spawnProtectionSeconds :: int
  dm_headshotOnly :: bool
  dm_hud :: bool
  dm_hudIntervalMs :: int
  dm_endDelaySeconds :: int
  dm_restartReloadsMap :: bool
  dm_weaponRounds :: "string list"
  dm_weaponRoundEveryMinutes :: int
  dm_weaponRoundSeconds :: int
  dm_weaponRoundRestrictBuy :: bool
  dm_restoreGameType :: int
  dm_restoreGameMode :: int

definition dm_defaults :: DmSettings where
  "dm_defaults = \<lparr>dm_killLimitFfa = 30, dm_killLimitTdm = 100, dm_timeLimitMinutes = 10,
     dm_spawnProtectionSeconds = 2, dm_headshotOnly = False, dm_hud = True, dm_hudIntervalMs = 1000,
     dm_endDelaySeconds = 10, dm_restartReloadsMap = False, dm_weaponRounds = [],
     dm_weaponRoundEveryMinutes = 0, dm_weaponRoundSeconds = 60, dm_weaponRoundRestrictBuy = False,
     dm_restoreGameType = 0, dm_restoreGameMode = 1\<rparr>"

text \<open>\<open>Trim\<close> of this plugin also strips quotes.\<close>

definition TrimQuotes :: "string \<Rightarrow> string" where
  "TrimQuotes s = trim_by (\<lambda>c. c \<in> {CHR 0x20, CHR 0x09, CHR 0x0D, CHR 0x0A, CHR 0x22}) s"

definition ParseInt :: "int \<Rightarrow> int \<Rightarrow> string \<Rightarrow> int option" where
  "ParseInt lo hi v = int_in lo hi (TrimQuotes v)"

definition ParseBoolValue :: "string \<Rightarrow> bool option" where
  "ParseBoolValue v =
     (let t = Lower (TrimQuotes v)
      in if t = ''1'' \<or> t = ''true'' \<or> t = ''yes'' \<or> t = ''on'' then Some True
         else if t = ''0'' \<or> t = ''false'' \<or> t = ''no'' \<or> t = ''off'' then Some False
         else None)"

definition ValidWeapon :: "string \<Rightarrow> bool" where
  "ValidWeapon w \<longleftrightarrow>
     \<not> (length w \<le> 7 \<or> 40 < length w \<or> \<not> starts_with ''weapon_'' w) \<and>
     list_all (\<lambda>c. islower c \<or> isdigit c \<or> c = CHR ''_'') w"

type_synonym ConfigLookup = "string \<Rightarrow> string option"
type_synonym loading = "DmSettings \<times> string list"

definition dm_warn :: "string \<Rightarrow> string \<Rightarrow> string" where
  "dm_warn key v = key @ ''='' @ take 40 v @ '' is not valid; using the default''"

definition load_key ::
  "ConfigLookup \<Rightarrow> (string \<Rightarrow> 'v option) \<Rightarrow> ('v \<Rightarrow> DmSettings \<Rightarrow> DmSettings) \<Rightarrow> string \<Rightarrow> loading \<Rightarrow> loading" where
  "load_key look parse upd key sw =
     (let (s, ws) = sw in
      case look key of
        None \<Rightarrow> sw
      | Some v \<Rightarrow> (case parse v of Some x \<Rightarrow> (upd x s, ws) | None \<Rightarrow> (s, ws @ [dm_warn key v])))"

definition parse_restart :: "string \<Rightarrow> bool option" where
  "parse_restart v =
     (let r = Lower (TrimQuotes v)
      in if r = ''reload'' then Some True else if r = ''restartgame'' \<or> r = [] then Some False else None)"

definition add_weapon :: "loading \<Rightarrow> string \<Rightarrow> loading" where
  "add_weapon sw item =
     (let (s, ws) = sw; w = Lower (TrimQuotes item) in
      if w = [] then sw
      else let w = (if \<not> starts_with ''weapon_'' w then ''weapon_'' @ w else w)
           in if ValidWeapon w then (s\<lparr>dm_weaponRounds := dm_weaponRounds s @ [w]\<rparr>, ws)
              else (s, ws @ [dm_warn ''weapon_rounds'' item]))"

definition load_weapons :: "ConfigLookup \<Rightarrow> loading \<Rightarrow> loading" where
  "load_weapons look sw =
     (case look ''weapon_rounds'' of None \<Rightarrow> sw | Some v \<Rightarrow> foldl add_weapon sw (getlines (CHR '','') v))"

definition LoadSettings :: "ConfigLookup \<Rightarrow> loading" where
  "LoadSettings look =
     (let sw = (dm_defaults, []);
          sw = load_key look (ParseInt 0 10000) (\<lambda>n. dm_killLimitFfa_update (\<lambda>_. n)) ''kill_limit_ffa'' sw;
          sw = load_key look (ParseInt 0 100000) (\<lambda>n. dm_killLimitTdm_update (\<lambda>_. n)) ''kill_limit_tdm'' sw;
          sw = load_key look (ParseInt 0 600) (\<lambda>n. dm_timeLimitMinutes_update (\<lambda>_. n)) ''time_limit_minutes'' sw;
          sw = load_key look (ParseInt 0 30) (\<lambda>n. dm_spawnProtectionSeconds_update (\<lambda>_. n)) ''spawn_protection_seconds'' sw;
          sw = load_key look ParseBoolValue (\<lambda>b. dm_headshotOnly_update (\<lambda>_. b)) ''headshot_only'' sw;
          sw = load_key look ParseBoolValue (\<lambda>b. dm_hud_update (\<lambda>_. b)) ''hud'' sw;
          sw = load_key look (ParseInt 0 10000) (\<lambda>n. dm_hudIntervalMs_update (\<lambda>_. n)) ''hud_interval_ms'' sw;
          sw = load_key look (ParseInt 3 120) (\<lambda>n. dm_endDelaySeconds_update (\<lambda>_. n)) ''end_delay_seconds'' sw;
          sw = load_key look (ParseInt 0 600) (\<lambda>n. dm_weaponRoundEveryMinutes_update (\<lambda>_. n)) ''weapon_round_every_minutes'' sw;
          sw = load_key look (ParseInt 5 36000) (\<lambda>n. dm_weaponRoundSeconds_update (\<lambda>_. n)) ''weapon_round_seconds'' sw;
          sw = load_key look ParseBoolValue (\<lambda>b. dm_weaponRoundRestrictBuy_update (\<lambda>_. b)) ''weapon_round_restrict_buy'' sw;
          sw = load_key look (ParseInt 0 6) (\<lambda>n. dm_restoreGameType_update (\<lambda>_. n)) ''restore_game_type'' sw;
          sw = load_key look (ParseInt 0 6) (\<lambda>n. dm_restoreGameMode_update (\<lambda>_. n)) ''restore_game_mode'' sw;
          sw = load_key look parse_restart (\<lambda>b. dm_restartReloadsMap_update (\<lambda>_. b)) ''restart'' sw
      in load_weapons look sw)"

definition KillLimit :: "DmSettings \<Rightarrow> Mode \<Rightarrow> int" where
  "KillLimit s m = (case m of Tdm \<Rightarrow> dm_killLimitTdm s | Ffa \<Rightarrow> dm_killLimitFfa s | Off \<Rightarrow> 0)"

section \<open>Console commands\<close>

definition GameModeCommands :: "string list" where
  "GameModeCommands = [''game_type 1'', ''game_mode 2'']"

definition IsPistol :: "string \<Rightarrow> bool" where
  "IsPistol w \<longleftrightarrow>
     w \<in> set [''weapon_deagle'', ''weapon_revolver'', ''weapon_glock'', ''weapon_hkp2000'', ''weapon_usp_silencer'',
               ''weapon_p250'', ''weapon_fiveseven'', ''weapon_tec9'', ''weapon_cz75a'', ''weapon_elite'']"

definition no_weapon :: string where
  "no_weapon = [quote_char, quote_char]"

definition WeaponRoundCommands :: "string \<Rightarrow> bool \<Rightarrow> string list" where
  "WeaponRoundCommands weapon restrictBuy =
     (if weapon = [] \<or> \<not> ValidWeapon weapon then
        [''mp_ct_default_primary '' @ no_weapon, ''mp_t_default_primary '' @ no_weapon,
         ''mp_ct_default_secondary weapon_hkp2000'', ''mp_t_default_secondary weapon_glock'', ''mp_buy_allow_guns 255'']
      else
        (if IsPistol weapon then
           [''mp_ct_default_primary '' @ no_weapon, ''mp_t_default_primary '' @ no_weapon,
            ''mp_ct_default_secondary '' @ weapon, ''mp_t_default_secondary '' @ weapon]
         else
           [''mp_ct_default_primary '' @ weapon, ''mp_t_default_primary '' @ weapon,
            ''mp_ct_default_secondary weapon_hkp2000'', ''mp_t_default_secondary weapon_glock'']) @
        [if restrictBuy then ''mp_buy_allow_guns 0'' else ''mp_buy_allow_guns 255''])"

definition ModeCommands :: "Mode \<Rightarrow> DmSettings \<Rightarrow> string list" where
  "ModeCommands m s =
     [''mp_teammates_are_enemies '' @ (if m = Tdm then ''0'' else ''1''),
      ''mp_dm_teammode '' @ (if m = Tdm then ''1'' else ''0''),
      ''mp_respawn_immunitytime '' @ to_string (dm_spawnProtectionSeconds s),
      ''mp_damage_headshot_only '' @ (if dm_headshotOnly s then ''1'' else ''0''),
      ''mp_ignore_round_win_conditions 1'', ''mp_roundtime 60'', ''mp_timelimit 0'', ''mp_maxrounds 0'',
      ''mp_warmup_end''] @ WeaponRoundCommands [] False"

definition LeaveCommands :: "DmSettings \<Rightarrow> bool \<Rightarrow> string list" where
  "LeaveCommands s withGameMode =
     [''mp_teammates_are_enemies 0'', ''mp_dm_teammode 0'', ''mp_damage_headshot_only 0'',
      ''mp_ignore_round_win_conditions 0''] @ WeaponRoundCommands [] False @
     (if withGameMode
      then [''game_type '' @ to_string (dm_restoreGameType s), ''game_mode '' @ to_string (dm_restoreGameMode s)]
      else [])"

section \<open>Weapon rounds\<close>

record WeaponRound =
  wr_index :: int
  wr_weapon :: string
  wr_secondsLeft :: int

definition no_weapon_round :: WeaponRound where
  "no_weapon_round = \<lparr>wr_index = - 1, wr_weapon = [], wr_secondsLeft = 0\<rparr>"

definition WeaponRoundAt :: "DmSettings \<Rightarrow> seconds \<Rightarrow> WeaponRound" where
  "WeaponRoundAt s elapsed =
     (if dm_weaponRoundEveryMinutes s \<le> 0 \<or> dm_weaponRounds s = [] \<or> elapsed < 0 then no_weapon_round
      else
        let period = real_of_int (dm_weaponRoundEveryMinutes s) * 60;
            len = min (real_of_int (dm_weaponRoundSeconds s)) period;
            k = \<lfloor>elapsed / period\<rfloor>
        in if k < 1 then no_weapon_round
           else let into = elapsed - real_of_int k * period
                in if into \<ge> len then no_weapon_round
                   else let i = cmod (k - 1) (int (length (dm_weaponRounds s)))
                        in \<lparr>wr_index = i, wr_weapon = dm_weaponRounds s ! nat i, wr_secondsLeft = \<lceil>len - into\<rceil>\<rparr>)"

section \<open>The scoreboard\<close>

record PlayerScore =
  ps_id :: u64
  ps_name :: string
  ps_team :: int
  ps_kills :: int
  ps_deaths :: int
  ps_headshots :: int
  ps_reachedAt :: seconds

definition new_score :: "u64 \<Rightarrow> PlayerScore" where
  "new_score pid = \<lparr>ps_id = pid, ps_name = [], ps_team = 0, ps_kills = 0, ps_deaths = 0, ps_headshots = 0, ps_reachedAt = 0\<rparr>"

record Scoreboard =
  sb_players :: "PlayerScore list"
  sb_teamKills :: "int list"

definition BotId :: "int \<Rightarrow> u64" where
  "BotId userid = or 0xB0B0000000000000 (ucast (of_int (if userid < 0 then 0 else userid) :: 32 word))"

definition Scoreboard_Reset :: "Scoreboard \<Rightarrow> Scoreboard" where
  "Scoreboard_Reset b = b\<lparr>sb_players := [], sb_teamKills := replicate 4 0\<rparr>"

definition empty_board :: Scoreboard where
  "empty_board = \<lparr>sb_players = [], sb_teamKills = replicate 4 0\<rparr>"

text \<open>\<open>Get\<close> returns a pointer that the caller writes through: the update is its second argument.\<close>

fun Get :: "u64 \<Rightarrow> (PlayerScore \<Rightarrow> PlayerScore) \<Rightarrow> PlayerScore list \<Rightarrow> PlayerScore list" where
  "Get pid f [] = [f (new_score pid)]"
| "Get pid f (p # ps) = (if ps_id p = pid then f p # ps else p # Get pid f ps)"

definition at_score :: "u64 \<Rightarrow> (PlayerScore \<Rightarrow> PlayerScore) \<Rightarrow> Scoreboard \<Rightarrow> Scoreboard" where
  "at_score pid f b = b\<lparr>sb_players := Get pid f (sb_players b)\<rparr>"

definition Find :: "Scoreboard \<Rightarrow> u64 \<Rightarrow> PlayerScore option" where
  "Find b pid = find (\<lambda>p. ps_id p = pid) (sb_players b)"

definition SeePlayer :: "u64 \<Rightarrow> string \<Rightarrow> int \<Rightarrow> Scoreboard \<Rightarrow> Scoreboard" where
  "SeePlayer pid name team b =
     (if pid = 0 then b
      else at_score pid (\<lambda>p.
             let p = (if name \<noteq> [] then p\<lparr>ps_name := name\<rparr> else p)
             in if team = 2 \<or> team = 3 then p\<lparr>ps_team := team\<rparr> else p) b)"

definition on_death :: "int \<Rightarrow> PlayerScore \<Rightarrow> PlayerScore" where
  "on_death team p =
     (let p = p\<lparr>ps_deaths := ps_deaths p + 1\<rparr> in if team = 2 \<or> team = 3 then p\<lparr>ps_team := team\<rparr> else p)"

definition on_kill :: "int \<Rightarrow> bool \<Rightarrow> seconds \<Rightarrow> PlayerScore \<Rightarrow> PlayerScore" where
  "on_kill team headshot now p =
     (let p = (if team = 2 \<or> team = 3 then p\<lparr>ps_team := team\<rparr> else p);
          p = p\<lparr>ps_kills := ps_kills p + 1\<rparr>;
          p = (if headshot then p\<lparr>ps_headshots := ps_headshots p + 1\<rparr> else p)
      in p\<lparr>ps_reachedAt := now\<rparr>)"

definition OnKill ::
  "Mode \<Rightarrow> u64 \<Rightarrow> int \<Rightarrow> u64 \<Rightarrow> int \<Rightarrow> bool \<Rightarrow> seconds \<Rightarrow> Scoreboard \<Rightarrow> bool \<times> Scoreboard" where
  "OnKill m attacker attackerTeam victim victimTeam headshot now b =
     (if m = Off \<or> victim = 0 then (False, b)
      else
        let b = at_score victim (on_death victimTeam) b in
        if attacker = 0 \<or> attacker = victim then (False, b)
        else if m = Tdm \<and> (attackerTeam \<noteq> 2 \<and> attackerTeam \<noteq> 3) then (False, b)
        else if m = Tdm \<and> attackerTeam = victimTeam then (False, b)
        else
          let b = at_score attacker (on_kill attackerTeam headshot now) b
          in (True, if m = Tdm
                    then b\<lparr>sb_teamKills := (sb_teamKills b)[nat attackerTeam := sb_teamKills b ! nat attackerTeam + 1]\<rparr>
                    else b))"

definition TeamKills :: "Scoreboard \<Rightarrow> int \<Rightarrow> int" where
  "TeamKills b team = (if 0 \<le> team \<and> team < 4 then sb_teamKills b ! nat team else 0)"

text \<open>The comparison of \<open>Ranked\<close>, and \<open>std::stable_sort\<close> with it.\<close>

definition ranks_before :: "PlayerScore \<Rightarrow> PlayerScore \<Rightarrow> bool" where
  "ranks_before x y =
     (if ps_kills x \<noteq> ps_kills y then ps_kills x > ps_kills y
      else if ps_deaths x \<noteq> ps_deaths y then ps_deaths x < ps_deaths y
      else if ps_kills x > 0 \<and> ps_reachedAt x \<noteq> ps_reachedAt y then ps_reachedAt x < ps_reachedAt y
      else ps_name x < ps_name y)"

fun insert_by :: "('a \<Rightarrow> 'a \<Rightarrow> bool) \<Rightarrow> 'a \<Rightarrow> 'a list \<Rightarrow> 'a list" where
  "insert_by lt x [] = [x]"
| "insert_by lt x (y # ys) = (if lt y x then y # insert_by lt x ys else x # y # ys)"

definition stable_sort :: "('a \<Rightarrow> 'a \<Rightarrow> bool) \<Rightarrow> 'a list \<Rightarrow> 'a list" where
  "stable_sort lt xs = foldr (insert_by lt) xs []"

definition Ranked :: "Scoreboard \<Rightarrow> PlayerScore list" where
  "Ranked b = stable_sort ranks_before (sb_players b)"

fun rank_in :: "u64 \<Rightarrow> int \<Rightarrow> PlayerScore list \<Rightarrow> int" where
  "rank_in pid i [] = 0"
| "rank_in pid i (p # ps) = (if ps_id p = pid then i + 1 else rank_in pid (i + 1) ps)"

definition RankOf :: "Scoreboard \<Rightarrow> u64 \<Rightarrow> int" where
  "RankOf b pid = rank_in pid 0 (Ranked b)"

text \<open>
  The saved form: tab-separated lines. \<open>snprintf\<close> cuts the fixed part of a player line at 159
  bytes; tabs and line ends in names become blanks.
\<close>

abbreviation tab_char :: char where "tab_char \<equiv> CHR 0x09"

definition flat_name :: "string \<Rightarrow> string" where
  "flat_name nm = map (\<lambda>c. if c = tab_char \<or> c = newline_char then CHR '' '' else c) nm"

definition score_fields :: "PlayerScore \<Rightarrow> string list" where
  "score_fields p =
     [''P'', u64_string (ps_id p), to_string (ps_team p), to_string (ps_kills p), to_string (ps_deaths p),
      to_string (ps_headshots p), fixed3 (ps_reachedAt p)]"

definition score_line :: "PlayerScore \<Rightarrow> string" where
  "score_line p = take 159 (join_by tab_char (score_fields p) @ [tab_char]) @ flat_name (ps_name p)"

definition team_line :: "Scoreboard \<Rightarrow> string" where
  "team_line b = join_by tab_char [''T'', to_string (sb_teamKills b ! 2), to_string (sb_teamKills b ! 3)]"

definition Serialize :: "Scoreboard \<Rightarrow> string" where
  "Serialize b = concat (map (\<lambda>l. l @ [newline_char]) (team_line b # map score_line (sb_players b)))"

definition read_score :: "string list \<Rightarrow> PlayerScore" where
  "read_score f = \<lparr>ps_id = strtoull (f ! 1), ps_name = f ! 7, ps_team = atoi (f ! 2), ps_kills = atoi (f ! 3),
     ps_deaths = atoi (f ! 4), ps_headshots = atoi (f ! 5), ps_reachedAt = atof (f ! 6)\<rparr>"

text \<open>One line of the saved form; \<open>None\<close> is the source's \<open>return false\<close>.\<close>

definition read_line :: "string \<Rightarrow> Scoreboard \<Rightarrow> Scoreboard option" where
  "read_line line b =
     (if line = [] then Some b
      else let f = split_fields tab_char line in
        if f ! 0 = ''T'' \<and> length f = 3 then
          Some (b\<lparr>sb_teamKills := (sb_teamKills b)[2 := atoi (f ! 1), 3 := atoi (f ! 2)]\<rparr>)
        else if f ! 0 = ''P'' \<and> length f = 8 then
          (if ps_id (read_score f) = 0 then None else Some (b\<lparr>sb_players := sb_players b @ [read_score f]\<rparr>))
        else None)"

fun read_lines :: "string list \<Rightarrow> Scoreboard \<Rightarrow> Scoreboard option" where
  "read_lines [] b = Some b"
| "read_lines (l # ls) b = (case read_line l b of None \<Rightarrow> None | Some b' \<Rightarrow> read_lines ls b')"

text \<open>\<open>Deserialize\<close> builds a new board and keeps the old one when a line is bad.\<close>

definition Deserialize :: "string \<Rightarrow> Scoreboard option" where
  "Deserialize s = read_lines (getlines newline_char s) empty_board"

section \<open>The end of a game\<close>

record Outcome =
  oc_over :: bool
  oc_draw :: bool
  oc_reason :: string
  oc_winnerName :: string
  oc_winnerId :: u64
  oc_winnerTeam :: int
  oc_winnerKills :: int
  oc_runnerUpKills :: int

definition not_over :: Outcome where
  "not_over = \<lparr>oc_over = False, oc_draw = False, oc_reason = [], oc_winnerName = [], oc_winnerId = 0,
     oc_winnerTeam = 0, oc_winnerKills = 0, oc_runnerUpKills = 0\<rparr>"

definition reason_of :: "bool \<Rightarrow> string" where
  "reason_of limitHit = (if limitHit then ''kill_limit'' else ''time_limit'')"

definition CheckEnd_tdm :: "int \<Rightarrow> bool \<Rightarrow> Scoreboard \<Rightarrow> Outcome" where
  "CheckEnd_tdm limit timeUp b =
     (let ct = TeamKills b 3; t = TeamKills b 2; limitHit = (limit > 0 \<and> (ct \<ge> limit \<or> t \<ge> limit)) in
      if \<not> limitHit \<and> \<not> timeUp then not_over
      else
        let oc = not_over\<lparr>oc_over := True, oc_reason := reason_of limitHit,
                    oc_winnerKills := max ct t, oc_runnerUpKills := min ct t\<rparr>
        in if ct = t then oc\<lparr>oc_draw := True\<rparr>
           else oc\<lparr>oc_winnerTeam := (if ct > t then 3 else 2),
                   oc_winnerName := (if ct > t then ''Counter-Terrorists'' else ''Terrorists'')\<rparr>)"

definition CheckEnd_ffa :: "int \<Rightarrow> bool \<Rightarrow> Scoreboard \<Rightarrow> Outcome" where
  "CheckEnd_ffa limit timeUp b =
     (let r = Ranked b; limitHit = (limit > 0 \<and> r \<noteq> [] \<and> ps_kills (r ! 0) \<ge> limit) in
      if \<not> limitHit \<and> \<not> timeUp then not_over
      else
        let oc = not_over\<lparr>oc_over := True, oc_reason := reason_of limitHit,
                    oc_winnerKills := (if r = [] then 0 else ps_kills (r ! 0)),
                    oc_runnerUpKills := (if length r > 1 then ps_kills (r ! 1) else 0)\<rparr>
        in if r = [] \<or> ps_kills (r ! 0) = 0 \<or> (\<not> limitHit \<and> length r > 1 \<and> ps_kills (r ! 1) = ps_kills (r ! 0))
           then oc\<lparr>oc_draw := True\<rparr>
           else oc\<lparr>oc_winnerId := ps_id (r ! 0),
                   oc_winnerName := (if ps_name (r ! 0) = [] then ''?'' else ps_name (r ! 0)),
                   oc_winnerTeam := ps_team (r ! 0)\<rparr>)"

definition time_up :: "DmSettings \<Rightarrow> seconds \<Rightarrow> bool" where
  "time_up s elapsed \<longleftrightarrow> dm_timeLimitMinutes s > 0 \<and> elapsed \<ge> real_of_int (dm_timeLimitMinutes s) * 60"

definition CheckEnd :: "Mode \<Rightarrow> Scoreboard \<Rightarrow> DmSettings \<Rightarrow> seconds \<Rightarrow> Outcome" where
  "CheckEnd m b s elapsed =
     (case m of
        Off \<Rightarrow> not_over
      | Tdm \<Rightarrow> CheckEnd_tdm (KillLimit s m) (time_up s elapsed) b
      | Ffa \<Rightarrow> CheckEnd_ffa (KillLimit s m) (time_up s elapsed) b)"

section \<open>HTML\<close>

definition html_char :: "char \<Rightarrow> string" where
  "html_char c =
     (if c = CHR ''&'' then ''&#38;'' else if c = CHR ''<'' then ''&#60;'' else if c = CHR ''>'' then ''&#62;''
      else if c = CHR 0x22 then ''&#34;'' else if c = CHR 0x27 then ''&#39;'' else [c])"

fun html_loop :: "nat \<Rightarrow> nat \<Rightarrow> string \<Rightarrow> string" where
  "html_loop maxChars chars [] = []"
| "html_loop maxChars chars (c # cs) =
     (if byte c < 32 \<or> byte c = 127 then html_loop maxChars chars cs
      else if \<not> utf8_cont c \<and> chars = maxChars then ''...''
      else html_char c @ html_loop maxChars (if utf8_cont c then chars else chars + 1) cs)"

definition HtmlEscape :: "string \<Rightarrow> nat \<Rightarrow> string" where
  "HtmlEscape s maxChars = html_loop maxChars 0 s"

section \<open>The map of a game\<close>

definition MapArgToEntry :: "string \<Rightarrow> string" where
  "MapArgToEntry arg =
     (let l = Lower arg in
      if find_sub ''steamcommunity.com/'' l = None then arg
      else
        case (case find_sub ''?id='' l of Some p \<Rightarrow> Some p | None \<Rightarrow> find_sub ''&id='' l) of
          None \<Rightarrow> arg
        | Some p0 \<Rightarrow>
            let p = p0 + 4; n = length (takeWhile isdigit (drop p l))
            in if n > 0 then take n (drop p arg) else arg)"

definition ResolveMap :: "string \<Rightarrow> string \<Rightarrow> string \<Rightarrow> string \<times> string" where
  "ResolveMap arg defaultEntry reloadEntry =
     (if arg \<noteq> [] then (MapArgToEntry arg, ''argument'')
      else if defaultEntry \<noteq> [] then (defaultEntry, ''default'')
      else (reloadEntry, ''current''))"

section \<open>The scoreboard counts the events\<close>

text \<open>
  Reference: the scoreboard as a tally of the events of a game. A kill counts for the attacker when
  it is of another player and, in team mode, of the other team.
\<close>

datatype BoardEvent =
  Saw u64 string int
| Death u64 int u64 int bool seconds

fun board_step :: "Mode \<Rightarrow> BoardEvent \<Rightarrow> Scoreboard \<Rightarrow> Scoreboard" where
  "board_step m (Saw pid name team) b = SeePlayer pid name team b"
| "board_step m (Death a ta v vt hs now) b = snd (OnKill m a ta v vt hs now b)"

fun is_death_of :: "u64 \<Rightarrow> BoardEvent \<Rightarrow> bool" where
  "is_death_of pid (Death a ta v vt hs now) \<longleftrightarrow> v = pid \<and> v \<noteq> 0"
| "is_death_of pid (Saw q n t) \<longleftrightarrow> False"

fun counts :: "Mode \<Rightarrow> BoardEvent \<Rightarrow> bool" where
  "counts m (Death a ta v vt hs now) \<longleftrightarrow>
     v \<noteq> 0 \<and> a \<noteq> 0 \<and> a \<noteq> v \<and> (m = Tdm \<longrightarrow> (ta = 2 \<or> ta = 3) \<and> ta \<noteq> vt)"
| "counts m (Saw q n t) \<longleftrightarrow> False"

fun is_kill_by :: "Mode \<Rightarrow> u64 \<Rightarrow> BoardEvent \<Rightarrow> bool" where
  "is_kill_by m pid (Death a ta v vt hs now) \<longleftrightarrow> counts m (Death a ta v vt hs now) \<and> a = pid"
| "is_kill_by m pid (Saw q n t) \<longleftrightarrow> False"

fun is_headshot :: "BoardEvent \<Rightarrow> bool" where
  "is_headshot (Death a ta v vt hs now) \<longleftrightarrow> hs"
| "is_headshot (Saw q n t) \<longleftrightarrow> False"

fun is_team_kill_of :: "Mode \<Rightarrow> int \<Rightarrow> BoardEvent \<Rightarrow> bool" where
  "is_team_kill_of m team (Death a ta v vt hs now) \<longleftrightarrow> m = Tdm \<and> counts m (Death a ta v vt hs now) \<and> ta = team"
| "is_team_kill_of m team (Saw q n t) \<longleftrightarrow> False"

definition tally :: "(BoardEvent \<Rightarrow> bool) \<Rightarrow> BoardEvent list \<Rightarrow> int" where
  "tally P es = int (length (filter P es))"

definition score_of :: "(PlayerScore \<Rightarrow> int) \<Rightarrow> Scoreboard \<Rightarrow> u64 \<Rightarrow> int" where
  "score_of fld b pid = (case Find b pid of Some p \<Rightarrow> fld p | None \<Rightarrow> 0)"

lemma find_Get:
  assumes "\<And>p. ps_id (f p) = ps_id p"
  shows "find (\<lambda>p. ps_id p = q) (Get pid f ps) =
         (if q = pid then Some (case find (\<lambda>p. ps_id p = pid) ps of Some p \<Rightarrow> f p | None \<Rightarrow> f (new_score pid))
          else find (\<lambda>p. ps_id p = q) ps)"
  by (induction ps) (auto simp: assms new_score_def)

lemma on_death_simps [simp]:
  "ps_id (on_death t p) = ps_id p" "ps_kills (on_death t p) = ps_kills p" "ps_headshots (on_death t p) = ps_headshots p"
  "ps_deaths (on_death t p) = ps_deaths p + 1" "ps_name (on_death t p) = ps_name p"
  by (simp_all add: on_death_def Let_def)

lemma on_kill_simps [simp]:
  "ps_id (on_kill t hs now p) = ps_id p" "ps_kills (on_kill t hs now p) = ps_kills p + 1"
  "ps_headshots (on_kill t hs now p) = ps_headshots p + (if hs then 1 else 0)"
  "ps_deaths (on_kill t hs now p) = ps_deaths p" "ps_name (on_kill t hs now p) = ps_name p"
  by (simp_all add: on_kill_def Let_def)

lemma score_Get:
  assumes "\<And>p. ps_id (f p) = ps_id p" and "\<And>p. fld (f p) = fld p + d" and "fld (new_score pid) = 0"
  shows "score_of fld (at_score pid f b) q = score_of fld b q + (if q = pid then d else 0)"
  using assms by (auto simp: score_of_def Find_def at_score_def find_Get split: option.splits)

lemma at_score_teamKills [simp]: "sb_teamKills (at_score pid f b) = sb_teamKills b"
  by (simp add: at_score_def)

lemma new_score_simps [simp]:
  "ps_id (new_score pid) = pid" "ps_kills (new_score pid) = 0" "ps_deaths (new_score pid) = 0" "ps_headshots (new_score pid) = 0"
  by (simp_all add: new_score_def)

lemma score_teamKills [simp]: "score_of fld (b\<lparr>sb_teamKills := tk\<rparr>) q = score_of fld b q"
  by (simp add: score_of_def Find_def)

lemma score_SeePlayer:
  assumes "\<And>p n. fld (p\<lparr>ps_name := n\<rparr>) = fld p" "\<And>p t. fld (p\<lparr>ps_team := t\<rparr>) = fld p" "\<And>pid. fld (new_score pid) = 0"
  shows "score_of fld (SeePlayer pid name team b) q = score_of fld b q"
  unfolding SeePlayer_def
  using score_Get [of "\<lambda>p. let p = (if name \<noteq> [] then p\<lparr>ps_name := name\<rparr> else p)
           in if team = 2 \<or> team = 3 then p\<lparr>ps_team := team\<rparr> else p" fld 0 pid b q]
  by (simp add: Let_def assms)

text \<open>One death, field by field.\<close>

lemma OnKill_snd:
  assumes "m \<noteq> Off"
  shows "snd (OnKill m a ta v vt hs now b) =
    (if v = 0 then b
     else let b1 = at_score v (on_death vt) b in
       if \<not> counts m (Death a ta v vt hs now) then b1
       else let b2 = at_score a (on_kill ta hs now) b1
            in if m = Tdm then b2\<lparr>sb_teamKills := (sb_teamKills b)[nat ta := sb_teamKills b ! nat ta + 1]\<rparr> else b2)"
  using assms by (auto simp: OnKill_def Let_def)

lemma score_on_death [simp]:
  "score_of ps_deaths (at_score v (on_death t) b) q = score_of ps_deaths b q + (if q = v then 1 else 0)"
  "score_of ps_kills (at_score v (on_death t) b) q = score_of ps_kills b q"
  "score_of ps_headshots (at_score v (on_death t) b) q = score_of ps_headshots b q"
  by (simp_all add: score_Get [where d = 1] score_Get [where d = 0])

lemma score_on_kill [simp]:
  "score_of ps_deaths (at_score v (on_kill t hs now) b) q = score_of ps_deaths b q"
  "score_of ps_kills (at_score v (on_kill t hs now) b) q = score_of ps_kills b q + (if q = v then 1 else 0)"
  "score_of ps_headshots (at_score v (on_kill t hs now) b) q =
     score_of ps_headshots b q + (if q = v then if hs then 1 else 0 else 0)"
  by (simp_all add: score_Get [where d = 1] score_Get [where d = 0] score_Get [where d = "if hs then 1 else 0"])

lemma step_deaths:
  "m \<noteq> Off \<Longrightarrow> score_of ps_deaths (board_step m e b) q = score_of ps_deaths b q + (if is_death_of q e then 1 else 0)"
  by (cases e) (auto simp: score_SeePlayer OnKill_snd Let_def)

lemma step_kills:
  "m \<noteq> Off \<Longrightarrow> score_of ps_kills (board_step m e b) q = score_of ps_kills b q + (if is_kill_by m q e then 1 else 0)"
  by (cases e) (auto simp: score_SeePlayer OnKill_snd Let_def)

lemma step_headshots:
  "m \<noteq> Off \<Longrightarrow> score_of ps_headshots (board_step m e b) q =
     score_of ps_headshots b q + (if is_kill_by m q e \<and> is_headshot e then 1 else 0)"
  by (cases e) (auto simp: score_SeePlayer OnKill_snd Let_def)

lemma step_team_kills:
  assumes "m \<noteq> Off" and "length (sb_teamKills b) = 4"
  shows "TeamKills (board_step m e b) team = TeamKills b team + (if is_team_kill_of m team e then 1 else 0)"
    and "length (sb_teamKills (board_step m e b)) = 4"
proof (atomize (full), cases e)
  case (Death a ta v vt hs now)
  then show "TeamKills (board_step m e b) team = TeamKills b team + (if is_team_kill_of m team e then 1 else 0) \<and>
             length (sb_teamKills (board_step m e b)) = 4"
    using assms by (auto simp: OnKill_snd Let_def TeamKills_def nth_list_update)
qed (auto simp: TeamKills_def SeePlayer_def assms)

lemma tally_snoc [simp]: "tally P (es @ [e]) = tally P es + (if P e then 1 else 0)"
  by (simp add: tally_def)

lemma tally_Nil [simp]: "tally P [] = 0"
  by (simp add: tally_def)

lemma empty_board_simps [simp]:
  "score_of fld empty_board q = 0" "length (sb_teamKills empty_board) = 4"
  by (simp_all add: score_of_def Find_def empty_board_def)

lemma TeamKills_empty [simp]: "TeamKills empty_board t = 0"
  by (auto simp: TeamKills_def empty_board_def nth_Cons' eval_nat_numeral)

text \<open>
  C39: After any sequence of sightings and deaths of a game, every player's kills, deaths and
  headshots and the kills of each team are exactly the number of events that count for them: a kill
  only of another player and, in team mode, of the other team.
\<close>

theorem scoreboard_counts_events:
  assumes "m \<noteq> Off"
  shows "let b = fold (board_step m) es empty_board in
         score_of ps_kills b pid = tally (is_kill_by m pid) es \<and>
         score_of ps_deaths b pid = tally (is_death_of pid) es \<and>
         score_of ps_headshots b pid = tally (\<lambda>e. is_kill_by m pid e \<and> is_headshot e) es \<and>
         TeamKills b team = tally (is_team_kill_of m team) es"
proof -
  have "length (sb_teamKills (fold (board_step m) es empty_board)) = 4 \<and>
        TeamKills (fold (board_step m) es empty_board) team = tally (is_team_kill_of m team) es"
    using assms by (induction es rule: rev_induct) (auto simp: step_team_kills)
  moreover have "score_of ps_kills (fold (board_step m) es empty_board) pid = tally (is_kill_by m pid) es"
    using assms by (induction es rule: rev_induct) (auto simp: step_kills)
  moreover have "score_of ps_deaths (fold (board_step m) es empty_board) pid = tally (is_death_of pid) es"
    using assms by (induction es rule: rev_induct) (auto simp: step_deaths)
  moreover have "score_of ps_headshots (fold (board_step m) es empty_board) pid =
      tally (\<lambda>e. is_kill_by m pid e \<and> is_headshot e) es"
    using assms by (induction es rule: rev_induct) (auto simp: step_headshots)
  ultimately show ?thesis by (simp add: Let_def)
qed

definition sample_game :: "BoardEvent list" where
  "sample_game = [Saw 7 ''ann'' 3, Death 7 3 8 2 True 5, Death 9 2 8 2 False 6, Death 7 3 7 3 False 7, Death 8 2 7 3 False 9]"

theorem scoreboard_counts_events_witness:
  "score_of ps_kills (fold (board_step Tdm) sample_game empty_board) 7 = 1 \<and>
   score_of ps_deaths (fold (board_step Tdm) sample_game empty_board) 7 = 2 \<and>
   TeamKills (fold (board_step Tdm) sample_game empty_board) 2 = 1"
  using scoreboard_counts_events [of Tdm sample_game 7 2]
  by (simp add: Let_def sample_game_def tally_def)

section \<open>The ranking\<close>

text \<open>The comparison of the source is the order of one key, so the ranking is the stable sort by it.\<close>

definition rank_key :: "PlayerScore \<Rightarrow> int \<times> int \<times> real \<times> string" where
  "rank_key p = (- ps_kills p, ps_deaths p, if ps_kills p > 0 then ps_reachedAt p else 0, ps_name p)"

lemma ranks_before_key: "ranks_before x y \<longleftrightarrow> rank_key x < rank_key y"
  by (auto simp: ranks_before_def rank_key_def less_prod_simp)

interpretation ranking: strict_weak ranks_before
  by unfold_locales (auto simp: ranks_before_key)

lemma insert_by_key: "insert_by ranks_before x ys = insort_key rank_key x ys"
  by (induction ys) (auto simp: ranks_before_key)

lemma Ranked_sort_key: "Ranked b = sort_key rank_key (sb_players b)"
  by (simp add: Ranked_def stable_sort_def sort_key_def fun_eq_iff insert_by_key cong: foldr_cong)

lemma mset_Ranked [simp]: "mset (Ranked b) = mset (sb_players b)"
  by (simp add: Ranked_sort_key)

lemma set_Ranked [simp]: "set (Ranked b) = set (sb_players b)"
  by (simp add: Ranked_sort_key)

lemma length_Ranked [simp]: "length (Ranked b) = length (sb_players b)"
  by (simp add: Ranked_sort_key)

lemma filter_Ranked: "length (filter P (Ranked b)) = length (filter P (sb_players b))"
  by (metis mset_Ranked mset_filter size_mset)

lemma Ranked_kills_desc: "i \<le> j \<Longrightarrow> j < length (Ranked b) \<Longrightarrow> ps_kills (Ranked b ! j) \<le> ps_kills (Ranked b ! i)"
proof -
  assume ij: "i \<le> j" "j < length (Ranked b)"
  have "sorted (map rank_key (Ranked b))" by (simp add: Ranked_sort_key)
  then have "map rank_key (Ranked b) ! i \<le> map rank_key (Ranked b) ! j"
    using ij by (intro sorted_nth_mono) simp_all
  then have "rank_key (Ranked b ! i) \<le> rank_key (Ranked b ! j)" using ij by simp
  then show ?thesis by (auto simp: rank_key_def less_eq_prod_simp)
qed

lemma Ranked_head_max:
  assumes "Ranked b = p # rs" and "q \<in> set (sb_players b)"
  shows "ps_kills q \<le> ps_kills p"
proof -
  from assms(2) obtain j where "j < length (Ranked b)" and "q = Ranked b ! j"
    by (metis in_set_conv_nth set_Ranked)
  then show ?thesis using Ranked_kills_desc [of 0 j b] assms(1) by simp
qed

text \<open>Whether the best is alone at the top is decided by the second in the ranking.\<close>

lemma alone_at_top:
  assumes r: "Ranked b = p # rs"
  shows "length (filter (\<lambda>q. ps_kills q = ps_kills p) (sb_players b)) = 1 \<longleftrightarrow>
         rs = [] \<or> ps_kills (hd rs) \<noteq> ps_kills p"
proof (cases rs)
  case Nil
  then show ?thesis using filter_Ranked [of "\<lambda>q. ps_kills q = ps_kills p" b] by (simp add: r)
next
  case (Cons q qs)
  have desc: "ps_kills x \<le> ps_kills q" if "x \<in> set qs" for x
  proof -
    from that obtain j where "j < length qs" and "x = qs ! j" by (metis in_set_conv_nth)
    then show ?thesis using Ranked_kills_desc [of 1 "j + 2" b] by (simp add: r Cons)
  qed
  have q: "ps_kills q \<le> ps_kills p" using Ranked_kills_desc [of 0 1 b] by (simp add: r Cons)
  have "filter (\<lambda>q. ps_kills q = ps_kills p) qs = []" if "ps_kills q \<noteq> ps_kills p"
    using desc q that by (fastforce simp: filter_empty_conv)
  then show ?thesis using filter_Ranked [of "\<lambda>q. ps_kills q = ps_kills p" b] by (auto simp: r Cons)
qed

lemma rank_in_spec:
  "pid \<in> ps_id ` set ps \<Longrightarrow>
   i < rank_in pid i ps \<and> rank_in pid i ps \<le> i + int (length ps) \<and> ps_id (ps ! nat (rank_in pid i ps - i - 1)) = pid"
proof (induction ps arbitrary: i)
  case (Cons p ps)
  show ?case
  proof (cases "ps_id p = pid")
    case False
    then have "pid \<in> ps_id ` set ps" using Cons.prems by auto
    from Cons.IH [OF this, of "i + 1"]
    have ih: "i + 1 < rank_in pid (i + 1) ps" "rank_in pid (i + 1) ps \<le> i + 1 + int (length ps)"
      "ps_id (ps ! nat (rank_in pid (i + 1) ps - (i + 1) - 1)) = pid" by blast+
    then have "nat (rank_in pid (i + 1) ps - i - 1) = Suc (nat (rank_in pid (i + 1) ps - (i + 1) - 1))" by linarith
    with ih False show ?thesis by simp
  qed simp
qed simp

text \<open>
  The ranking is the players ordered by kills, then fewer deaths, then who reached the kills
  first, then name, equal players in the order they joined; \<open>RankOf\<close> is the position in it.
\<close>

theorem Ranked_is_stable_sort:
  "mset (Ranked b) = mset (sb_players b) \<and>
   sorted_wrt (\<lambda>x y. \<not> ranks_before y x) (Ranked b) \<and>
   filter (\<lambda>x. rank_key x = k) (Ranked b) = filter (\<lambda>x. rank_key x = k) (sb_players b) \<and>
   (pid \<in> ps_id ` set (sb_players b) \<longrightarrow>
    1 \<le> RankOf b pid \<and> RankOf b pid \<le> int (length (sb_players b)) \<and> ps_id (Ranked b ! nat (RankOf b pid - 1)) = pid)"
proof -
  have "sorted (map rank_key (Ranked b))" by (simp add: Ranked_sort_key)
  then have "sorted_wrt (\<lambda>x y. \<not> ranks_before y x) (Ranked b)"
    by (simp add: sorted_wrt_map ranks_before_key not_less)
  moreover have "filter (\<lambda>x. rank_key x = k) (Ranked b) = filter (\<lambda>x. rank_key x = k) (sb_players b)"
    unfolding Ranked_sort_key by (rule sort_key_stable)
  moreover have "1 \<le> RankOf b pid \<and> RankOf b pid \<le> int (length (sb_players b)) \<and>
      ps_id (Ranked b ! nat (RankOf b pid - 1)) = pid" if "pid \<in> ps_id ` set (sb_players b)"
    using rank_in_spec [of pid "Ranked b" 0] that by (simp add: RankOf_def)
  ultimately show ?thesis by simp
qed

definition sample_board :: Scoreboard where
  "sample_board = \<lparr>sb_players = [\<lparr>ps_id = 5, ps_name = ''bob'', ps_team = 2, ps_kills = 2, ps_deaths = 1, ps_headshots = 0, ps_reachedAt = 40\<rparr>,
       \<lparr>ps_id = 6, ps_name = ''cat'', ps_team = 3, ps_kills = 3, ps_deaths = 2, ps_headshots = 1, ps_reachedAt = 61\<rparr>],
     sb_teamKills = [0, 0, 2, 3]\<rparr>"

theorem Ranked_is_stable_sort_witness:
  "1 \<le> RankOf sample_board 6 \<and> ps_id (Ranked sample_board ! nat (RankOf sample_board 6 - 1)) = 6"
  using Ranked_is_stable_sort [of sample_board undefined 6] by (simp add: sample_board_def)

section \<open>The end of a game\<close>

text \<open>
  A game without teams is over exactly when a player reached the kill limit or the time is up. It
  has a winner unless the time ran out with nobody ahead: the winner is a player with the most
  kills and, at the time limit, the only one with that many. A draw means that nobody scored or that
  several players share the lead.
\<close>

theorem ffa_end_correct:
  fixes b :: Scoreboard
  defines "ps \<equiv> sb_players b"
  assumes kills: "\<And>p. p \<in> set ps \<Longrightarrow> 0 \<le> ps_kills p"
  shows "let oc = CheckEnd Ffa b s elapsed; limit = dm_killLimitFfa s;
             limitHit = (0 < limit \<and> (\<exists>p \<in> set ps. limit \<le> ps_kills p)) in
         (oc_over oc \<longleftrightarrow> limitHit \<or> time_up s elapsed) \<and>
         (oc_over oc \<and> \<not> oc_draw oc \<longrightarrow>
            (\<exists>p \<in> set ps. oc_winnerId oc = ps_id p \<and> oc_winnerKills oc = ps_kills p \<and> 0 < ps_kills p) \<and>
            (\<forall>q \<in> set ps. ps_kills q \<le> oc_winnerKills oc) \<and>
            (\<not> limitHit \<longrightarrow> length (filter (\<lambda>q. ps_kills q = oc_winnerKills oc) ps) = 1)) \<and>
         (oc_over oc \<and> oc_draw oc \<longrightarrow> \<not> limitHit \<and>
            ((\<forall>p \<in> set ps. ps_kills p = 0) \<or> 1 < length (filter (\<lambda>q. ps_kills q = oc_winnerKills oc) ps)))"
proof (cases "Ranked b")
  case Nil
  then have "ps = []" by (metis ps_def length_0_conv length_Ranked)
  with Nil show ?thesis
    by (simp add: CheckEnd_def CheckEnd_ffa_def KillLimit_def Let_def not_over_def)
next
  case (Cons p rs)
  have p: "p \<in> set ps" using Cons by (metis list.set_intros(1) ps_def set_Ranked)
  have top: "ps_kills q \<le> ps_kills p" if "q \<in> set ps" for q
    using Ranked_head_max [OF Cons] that by (simp add: ps_def)
  have hit: "(\<exists>q \<in> set ps. limit \<le> ps_kills q) \<longleftrightarrow> limit \<le> ps_kills p" for limit
    using p top by (meson order_trans)
  have zero: "(\<forall>q \<in> set ps. ps_kills q = 0) \<longleftrightarrow> ps_kills p = 0"
    using p top kills by (metis order_antisym)
  have many: "1 \<le> length (filter (\<lambda>q. ps_kills q = ps_kills p) ps)"
    using p by (simp add: Suc_le_eq filter_empty_conv) blast
  have alone: "length (filter (\<lambda>q. ps_kills q = ps_kills p) ps) = 1 \<longleftrightarrow> rs = [] \<or> ps_kills (rs ! 0) \<noteq> ps_kills p"
    using alone_at_top [OF Cons] by (cases rs) (simp_all add: ps_def)
  show ?thesis
    unfolding Let_def hit zero
    using Cons p top many alone kills [OF p]
    by (cases rs) (auto simp: CheckEnd_def CheckEnd_ffa_def KillLimit_def Let_def not_over_def)
qed

theorem ffa_end_correct_witness:
  "oc_over (CheckEnd Ffa sample_board (dm_defaults\<lparr>dm_killLimitFfa := 3\<rparr>) 70) \<and>
   oc_winnerId (CheckEnd Ffa sample_board (dm_defaults\<lparr>dm_killLimitFfa := 3\<rparr>) 70) = 6"
proof -
  have "0 \<le> ps_kills p" if "p \<in> set (sb_players sample_board)" for p using that by (auto simp: sample_board_def)
  moreover have "\<exists>p \<in> set (sb_players sample_board). 3 \<le> ps_kills p" by (simp add: sample_board_def)
  ultimately have "oc_over (CheckEnd Ffa sample_board (dm_defaults\<lparr>dm_killLimitFfa := 3\<rparr>) 70)"
    using ffa_end_correct [of sample_board "dm_defaults\<lparr>dm_killLimitFfa := 3\<rparr>" 70] by (simp add: Let_def)
  moreover have "oc_winnerId (CheckEnd Ffa sample_board (dm_defaults\<lparr>dm_killLimitFfa := 3\<rparr>) 70) = 6"
    by (simp add: sample_board_def CheckEnd_def CheckEnd_ffa_def KillLimit_def Let_def not_over_def Ranked_def
        stable_sort_def ranks_before_def)
  ultimately show ?thesis ..
qed

text \<open>The team game: the leading team wins, level teams draw.\<close>

lemma tdm_end_correct:
  "let oc = CheckEnd Tdm b s elapsed; limit = dm_killLimitTdm s; ct = TeamKills b 3; t = TeamKills b 2 in
   (oc_over oc \<longleftrightarrow> (0 < limit \<and> limit \<le> max ct t) \<or> time_up s elapsed) \<and>
   (oc_over oc \<longrightarrow> (oc_draw oc \<longleftrightarrow> ct = t) \<and> oc_winnerKills oc = max ct t \<and>
      (oc_winnerTeam oc = 3 \<longleftrightarrow> t < ct) \<and> (oc_winnerTeam oc = 2 \<longleftrightarrow> ct < t))"
  by (auto simp: CheckEnd_def CheckEnd_tdm_def KillLimit_def Let_def not_over_def max_def)

section \<open>Saving and reading the scoreboard\<close>

definition int32 :: "int \<Rightarrow> bool" where
  "int32 i \<longleftrightarrow> - (2 ^ 31) \<le> i \<and> i < 2 ^ 31"

text \<open>The scores a game can have; times are below \<open>10^60\<close> seconds, so no saved line is cut.\<close>

definition score_ok :: "PlayerScore \<Rightarrow> bool" where
  "score_ok p \<longleftrightarrow>
     ps_id p \<noteq> 0 \<and> int32 (ps_team p) \<and> int32 (ps_kills p) \<and> int32 (ps_deaths p) \<and> int32 (ps_headshots p) \<and>
     0 \<le> ps_reachedAt p \<and> ps_reachedAt p < 10 ^ 59"

definition board_ok :: "Scoreboard \<Rightarrow> bool" where
  "board_ok b \<longleftrightarrow>
     length (sb_teamKills b) = 4 \<and> sb_teamKills b ! 0 = 0 \<and> sb_teamKills b ! 1 = 0 \<and> list_all score_ok (sb_players b)"

text \<open>What a save keeps: names on one line, times to the millisecond.\<close>

definition stored :: "PlayerScore \<Rightarrow> PlayerScore" where
  "stored p = p\<lparr>ps_name := flat_name (ps_name p), ps_reachedAt := milli (ps_reachedAt p)\<rparr>"

definition stored_board :: "Scoreboard \<Rightarrow> Scoreboard" where
  "stored_board b = b\<lparr>sb_players := map stored (sb_players b)\<rparr>"

definition plain_char :: "char \<Rightarrow> bool" where
  "plain_char c \<longleftrightarrow> c \<noteq> tab_char \<and> c \<noteq> newline_char"

lemma digit_plain: "isdigit c \<Longrightarrow> plain_char c"
  by (auto simp: isdigit_def plain_char_def)

lemma digits_plain: "list_all isdigit s \<Longrightarrow> list_all plain_char s"
  by (auto simp: list_all_iff digit_plain)

lemma to_string_plain [simp]: "list_all plain_char (to_string i)"
  using digits_plain [OF list_all_isdigit_dec_nat] by (simp add: to_string_def plain_char_def)

lemma u64_string_plain [simp]: "list_all plain_char (u64_string w)"
  using digits_plain [OF list_all_isdigit_dec_nat] by (simp add: u64_string_def)

lemma fixed3_plain [simp]: "list_all plain_char (fixed3 x)"
  using digits_plain [OF list_all_isdigit_dec_nat] digits_plain [OF list_all_pad0 [OF list_all_isdigit_dec_nat]]
  by (simp add: fixed3_def Let_def plain_char_def)

lemma flat_name_plain [simp]: "list_all plain_char (flat_name nm)"
  by (auto simp: flat_name_def list_all_iff plain_char_def)

lemma flat_name_idem [simp]: "flat_name (flat_name nm) = flat_name nm"
  by (simp add: flat_name_def)

lemma atoi_to_string [simp]: "atoi (to_string i) = i"
proof (cases "i < 0")
  case True
  then show ?thesis by (simp add: to_string_def atoi_def isspace_def takeWhile_isdigit_all)
qed (simp add: to_string_def)

lemma length_to_string: "int32 i \<Longrightarrow> length (to_string i) \<le> 11"
  using length_dec_nat [of 10 "nat (- i)"] length_dec_nat [of 10 "nat i"]
  by (cases "i < 0") (simp_all add: to_string_def int32_def nat_less_iff)

lemma length_fixed3:
  assumes "0 \<le> x" and "x < 10 ^ 59"
  shows "length (fixed3 x) \<le> 64"
proof -
  define n where "n = nat (round_even (x * 1000))"
  have "real_of_int (round_even (x * 1000)) \<le> x * 1000 + 1 / 2" using round_even_near [of "x * 1000"] by linarith
  also have "\<dots> < 10 ^ 63" using assms(2) by simp
  finally have "real_of_int (round_even (x * 1000)) < real_of_int (10 ^ 63)" by simp
  then have "round_even (x * 1000) < 10 ^ 63" by (simp only: of_int_less_iff)
  then have "n < 10 ^ 63" by (simp add: n_def nat_less_iff)
  then have "n div 1000 < 10 ^ 60" by (simp add: less_mult_imp_div_less)
  then have "length (dec_nat (n div 1000)) \<le> 60" by (intro length_dec_nat) simp_all
  moreover have "length (pad0 3 (dec_nat (n mod 1000))) = 3" by (rule pad0_dec_nat) simp_all
  ultimately show ?thesis using fixed3_shape [OF assms(1)] by (simp add: n_def)
qed

lemma join_by_snoc: "xs \<noteq> [] \<Longrightarrow> join_by d (xs @ [y]) = join_by d xs @ d # y"
  by (induction d xs rule: join_by.induct) auto

lemma score_line_join:
  assumes "score_ok p"
  shows "score_line p = join_by tab_char (score_fields p @ [flat_name (ps_name p)])"
proof -
  have "length (join_by tab_char (score_fields p) @ [tab_char]) \<le> 159"
    using assms length_to_string [of "ps_team p"] length_to_string [of "ps_kills p"]
      length_to_string [of "ps_deaths p"] length_to_string [of "ps_headshots p"]
      length_u64_string [of "ps_id p"] length_fixed3 [of "ps_reachedAt p"]
    by (simp add: score_fields_def score_ok_def)
  then have "score_line p = join_by tab_char (score_fields p) @ tab_char # flat_name (ps_name p)"
    by (simp add: score_line_def)
  then show ?thesis by (simp add: join_by_snoc score_fields_def)
qed

lemma plain_no_sep: "list_all plain_char s \<Longrightarrow> tab_char \<notin> set s \<and> newline_char \<notin> set s"
  by (auto simp: list_all_iff plain_char_def)

lemma score_fields_plain: "f \<in> set (score_fields p @ [flat_name nm]) \<Longrightarrow> list_all plain_char f"
  by (auto simp: score_fields_def plain_char_def)

lemma join_by_chars: "c \<in> set (join_by d xs) \<Longrightarrow> c = d \<or> (\<exists>x \<in> set xs. c \<in> set x)"
  by (induction d xs rule: join_by.induct) auto

lemma read_score_line:
  assumes ok: "score_ok p"
  shows "read_line (score_line p) b = Some (b\<lparr>sb_players := sb_players b @ [stored p]\<rparr>)"
    and "newline_char \<notin> set (score_line p)"
proof -
  let ?f = "score_fields p @ [flat_name (ps_name p)]"
  have sep: "\<forall>x \<in> set ?f. tab_char \<notin> set x" using score_fields_plain plain_no_sep by blast
  have f: "split_fields tab_char (score_line p) = ?f"
    unfolding score_line_join [OF ok] by (rule split_fields_join) (use sep in auto)
  have "score_line p \<noteq> []" by (simp add: score_line_join [OF ok] score_fields_def)
  moreover have "read_score ?f = stored p"
    using ok by (simp add: read_score_def score_fields_def stored_def atof_fixed3 score_ok_def)
  moreover have "?f ! 0 = ''P''" "length ?f = 8" by (simp_all add: score_fields_def)
  moreover have "ps_id (stored p) \<noteq> 0" using ok by (simp add: stored_def score_ok_def)
  ultimately show "read_line (score_line p) b = Some (b\<lparr>sb_players := sb_players b @ [stored p]\<rparr>)"
    by (simp add: read_line_def f Let_def)
  show "newline_char \<notin> set (score_line p)"
    unfolding score_line_join [OF ok]
    using join_by_chars [of newline_char tab_char ?f] score_fields_plain plain_no_sep by fastforce
qed

lemma read_team_line:
  "read_line (team_line b) e = Some (e\<lparr>sb_teamKills := (sb_teamKills e)[2 := sb_teamKills b ! 2, 3 := sb_teamKills b ! 3]\<rparr>)"
  "newline_char \<notin> set (team_line b)"
proof -
  let ?f = "[''T'', to_string (sb_teamKills b ! 2), to_string (sb_teamKills b ! 3)]"
  have plain: "\<forall>x \<in> set ?f. list_all plain_char x" by (simp add: plain_char_def)
  have "split_fields tab_char (team_line b) = ?f"
    unfolding team_line_def by (rule split_fields_join) (use plain plain_no_sep in blast)+
  moreover have "team_line b \<noteq> []" by (simp add: team_line_def)
  ultimately show "read_line (team_line b) e =
      Some (e\<lparr>sb_teamKills := (sb_teamKills e)[2 := sb_teamKills b ! 2, 3 := sb_teamKills b ! 3]\<rparr>)"
    by (simp add: read_line_def)
  show "newline_char \<notin> set (team_line b)"
    unfolding team_line_def using join_by_chars [of newline_char tab_char ?f] plain plain_no_sep by fastforce
qed

lemma read_score_lines:
  "list_all score_ok ps \<Longrightarrow> read_lines (map score_line ps) b = Some (b\<lparr>sb_players := sb_players b @ map stored ps\<rparr>)"
  by (induction ps arbitrary: b) (simp_all add: read_score_line)

lemma Deserialize_Serialize:
  assumes ok: "board_ok b"
  shows "Deserialize (Serialize b) = Some (stored_board b)"
proof -
  have "\<forall>l \<in> set (team_line b # map score_line (sb_players b)). newline_char \<notin> set l"
    using ok read_team_line(2) read_score_line(2) by (auto simp: board_ok_def list_all_iff)
  then have "getlines newline_char (Serialize b) = team_line b # map score_line (sb_players b)"
    unfolding Serialize_def by (rule getlines_concat)
  moreover have "(replicate 4 0)[2 := sb_teamKills b ! 2, 3 := sb_teamKills b ! 3] = sb_teamKills b"
    using ok by (auto simp: board_ok_def list_eq_iff_nth_eq nth_list_update less_Suc_eq numeral_eq_Suc)
  moreover have "list_all score_ok (sb_players b)" using ok by (simp add: board_ok_def)
  ultimately show ?thesis
    by (simp add: Deserialize_def read_team_line(1) read_score_lines empty_board_def stored_board_def)
qed

lemma stored_board_idem [simp]: "stored_board (stored_board b) = stored_board b"
  by (simp add: stored_board_def stored_def)

interpretation saved: codec Serialize Deserialize "\<lambda>b. board_ok b \<and> stored_board b = b"
  by unfold_locales (simp add: Deserialize_Serialize)

text \<open>
  Saving the scoreboard over a plugin reload and reading it back keeps every player in order
  with id, team, kills, deaths and headshots and the team scores; names come back on one line, and
  times to half a millisecond. A second save and reload changes nothing more.
\<close>

theorem scoreboard_survives_reload:
  assumes "board_ok b"
  shows "Deserialize (Serialize b) = Some (stored_board b) \<and>
         sb_teamKills (stored_board b) = sb_teamKills b \<and>
         map (\<lambda>p. (ps_id p, ps_team p, ps_kills p, ps_deaths p, ps_headshots p)) (sb_players (stored_board b)) =
         map (\<lambda>p. (ps_id p, ps_team p, ps_kills p, ps_deaths p, ps_headshots p)) (sb_players b) \<and>
         list_all2 (\<lambda>p q. \<bar>ps_reachedAt p - ps_reachedAt q\<bar> \<le> 1 / 2000) (sb_players (stored_board b)) (sb_players b) \<and>
         stored_board (stored_board b) = stored_board b"
  using Deserialize_Serialize [OF assms] milli_near
  by (simp add: stored_board_def stored_def list_all2_conv_all_nth)

theorem scoreboard_survives_reload_witness:
  "board_ok sample_board \<and> Deserialize (Serialize sample_board) = Some (stored_board sample_board)"
proof -
  have "board_ok sample_board" by (simp add: board_ok_def sample_board_def score_ok_def int32_def)
  then show ?thesis using scoreboard_survives_reload [of sample_board] by simp
qed

text \<open>The board of any game is one that can be saved, as far as counters go.\<close>

lemma step_low_teams:
  assumes "m \<noteq> Off" and "length (sb_teamKills b) = 4"
  shows "sb_teamKills (board_step m e b) ! 0 = sb_teamKills b ! 0 \<and> sb_teamKills (board_step m e b) ! 1 = sb_teamKills b ! 1"
  using assms by (cases e) (auto simp: OnKill_snd Let_def SeePlayer_def)

section \<open>Weapon rounds\<close>

text \<open>
  Weapon rounds keep their schedule: none in the first period; the \<open>k\<close>-th period starts with a
  round of the next weapon of the list, in turn, for the configured time (at most the whole
  period), and the countdown shown is between one second and that time.
\<close>

theorem weapon_rounds_in_turn:
  fixes s :: DmSettings and k :: nat and into :: real
  defines "period \<equiv> real_of_int (dm_weaponRoundEveryMinutes s) * 60"
    and "n \<equiv> length (dm_weaponRounds s)"
    and "len \<equiv> min (real_of_int (dm_weaponRoundSeconds s)) (real_of_int (dm_weaponRoundEveryMinutes s) * 60)"
  assumes on: "0 < dm_weaponRoundEveryMinutes s" "dm_weaponRounds s \<noteq> []" and into: "0 \<le> into" "into < period"
  shows "WeaponRoundAt s (real k * period + into) =
           (if k = 0 \<or> len \<le> into then no_weapon_round
            else \<lparr>wr_index = int ((k - 1) mod n), wr_weapon = dm_weaponRounds s ! ((k - 1) mod n),
                  wr_secondsLeft = \<lceil>len - into\<rceil>\<rparr>) \<and>
         (into < len \<longrightarrow> 1 \<le> \<lceil>len - into\<rceil> \<and> \<lceil>len - into\<rceil> \<le> dm_weaponRoundSeconds s)"
proof -
  have P: "0 < period" using on by (simp add: period_def)
  have "(real k * period + into) / period = real k + into / period" using P by (simp add: add_divide_distrib)
  moreover have "0 \<le> into / period" "into / period < 1" using P into by simp_all
  ultimately have k: "\<lfloor>(real k * period + into) / period\<rfloor> = int k" by (simp add: floor_eq_iff)
  have nonneg: "\<not> real k * period + into < 0" using P into by (simp add: not_less)
  have idx: "cmod (int k - 1) (int n) = int ((k - 1) mod n)" if "0 < k"
    using that by (simp add: of_nat_diff zmod_int)
  have "WeaponRoundAt s (real k * period + into) =
     (if k = 0 \<or> len \<le> into then no_weapon_round
      else \<lparr>wr_index = int ((k - 1) mod n), wr_weapon = dm_weaponRounds s ! ((k - 1) mod n),
            wr_secondsLeft = \<lceil>len - into\<rceil>\<rparr>)"
    using on nonneg idx
    unfolding WeaponRoundAt_def period_def [symmetric] n_def [symmetric] k Let_def
    by (simp add: len_def period_def)
  moreover have "len - into \<le> real_of_int (dm_weaponRoundSeconds s)" using into by (simp add: len_def)
  then have "\<lceil>len - into\<rceil> \<le> dm_weaponRoundSeconds s" by (simp add: ceiling_le_iff)
  ultimately show ?thesis by (auto simp: le_ceiling_iff)
qed

theorem weapon_rounds_in_turn_witness:
  "WeaponRoundAt (dm_defaults\<lparr>dm_weaponRounds := [''weapon_awp'', ''weapon_deagle''], dm_weaponRoundEveryMinutes := 5\<rparr>) 610 =
   \<lparr>wr_index = 1, wr_weapon = ''weapon_deagle'', wr_secondsLeft = 50\<rparr>"
  using weapon_rounds_in_turn
    [of "dm_defaults\<lparr>dm_weaponRounds := [''weapon_awp'', ''weapon_deagle''], dm_weaponRoundEveryMinutes := 5\<rparr>" 10 2]
  by (simp add: dm_defaults_def)

section \<open>HTML\<close>

text \<open>
  Reference: escaped text is a sequence of tokens, each one of the five entities or a byte that is
  neither special nor a control byte.
\<close>

definition special_chars :: "char set" where
  "special_chars = {CHR ''&'', CHR ''<'', CHR ''>'', CHR 0x22, CHR 0x27}"

definition html_token :: "string \<Rightarrow> bool" where
  "html_token t \<longleftrightarrow>
     t \<in> html_char ` special_chars \<or> (\<exists>c. t = [c] \<and> c \<notin> special_chars \<and> 32 \<le> byte c \<and> byte c \<noteq> 127)"

definition starts_char :: "string \<Rightarrow> bool" where
  "starts_char t \<longleftrightarrow> \<not> utf8_cont (hd t)"

lemma html_char_token: "\<not> (byte c < 32 \<or> byte c = 127) \<Longrightarrow> html_token (html_char c)"
proof -
  assume "\<not> (byte c < 32 \<or> byte c = 127)"
  moreover have "html_char c = [c]" if "c \<notin> special_chars" using that by (simp add: html_char_def special_chars_def)
  ultimately show ?thesis by (cases "c \<in> special_chars") (auto simp: html_token_def)
qed

lemma html_char_starts: "starts_char (html_char c) \<longleftrightarrow> \<not> utf8_cont c"
  by (auto simp: starts_char_def html_char_def utf8_cont_def)

text \<open>
  Escaped text is built of the five entities and of bytes that are neither special nor control
  bytes, so it cannot open or close a tag or a quoted attribute; it has at most the given number of
  characters, with three dots after them when text was cut.
\<close>

theorem HtmlEscape_safe:
  "\<exists>ts dots. HtmlEscape s n = concat ts @ dots \<and> (dots = [] \<or> dots = ''...'') \<and>
      list_all html_token ts \<and> length (filter starts_char ts) \<le> n"
proof -
  have "chars \<le> n \<Longrightarrow> \<exists>ts dots. html_loop n chars s = concat ts @ dots \<and> (dots = [] \<or> dots = ''...'') \<and>
      list_all html_token ts \<and> chars + length (filter starts_char ts) \<le> n" for chars
  proof (induction n chars s rule: html_loop.induct)
    case (1 n chars)
    then show ?case by (intro exI [of _ "[]"]) simp
  next
    case (2 n chars c cs)
    consider (ctrl) "byte c < 32 \<or> byte c = 127" | (cut) "\<not> (byte c < 32 \<or> byte c = 127)" "\<not> utf8_cont c \<and> chars = n"
      | (go) "\<not> (byte c < 32 \<or> byte c = 127)" "\<not> (\<not> utf8_cont c \<and> chars = n)" by blast
    then show ?case
    proof cases
      case ctrl
      with 2 show ?thesis by auto
    next
      case cut
      then have "html_loop n chars (c # cs) = concat [] @ ''...''" by simp
      with "2.prems" show ?thesis by (intro exI [of _ "[]"] exI [of _ "''...''"]) simp
    next
      case go
      then have "(if utf8_cont c then chars else chars + 1) \<le> n" using "2.prems" by auto
      with 2 go obtain ts dots where t: "html_loop n (if utf8_cont c then chars else chars + 1) cs = concat ts @ dots"
        "dots = [] \<or> dots = ''...''" "list_all html_token ts"
        "(if utf8_cont c then chars else chars + 1) + length (filter starts_char ts) \<le> n" by blast
      have "html_loop n chars (c # cs) = concat (html_char c # ts) @ dots" using go t(1) by auto
      moreover have "list_all html_token (html_char c # ts)" using go t(3) html_char_token by simp
      moreover have "chars + length (filter starts_char (html_char c # ts)) \<le> n"
        using t(4) by (simp add: html_char_starts split: if_splits)
      ultimately show ?thesis using t(2) by blast
    qed
  qed
  from this [of 0] show ?thesis by (simp add: HtmlEscape_def)
qed

section \<open>Settings and commands\<close>

definition dm_settings_ok :: "DmSettings \<Rightarrow> bool" where
  "dm_settings_ok s \<longleftrightarrow>
     0 \<le> dm_killLimitFfa s \<and> dm_killLimitFfa s \<le> 10000 \<and> 0 \<le> dm_killLimitTdm s \<and> dm_killLimitTdm s \<le> 100000 \<and>
     0 \<le> dm_timeLimitMinutes s \<and> dm_timeLimitMinutes s \<le> 600 \<and>
     0 \<le> dm_spawnProtectionSeconds s \<and> dm_spawnProtectionSeconds s \<le> 30 \<and>
     0 \<le> dm_hudIntervalMs s \<and> dm_hudIntervalMs s \<le> 10000 \<and> 3 \<le> dm_endDelaySeconds s \<and> dm_endDelaySeconds s \<le> 120 \<and>
     0 \<le> dm_weaponRoundEveryMinutes s \<and> dm_weaponRoundEveryMinutes s \<le> 600 \<and>
     5 \<le> dm_weaponRoundSeconds s \<and> dm_weaponRoundSeconds s \<le> 36000 \<and>
     0 \<le> dm_restoreGameType s \<and> dm_restoreGameType s \<le> 6 \<and> 0 \<le> dm_restoreGameMode s \<and> dm_restoreGameMode s \<le> 6 \<and>
     list_all ValidWeapon (dm_weaponRounds s)"

lemma load_key_ok:
  assumes "dm_settings_ok (fst sw)"
    and "\<And>v x s. parse v = Some x \<Longrightarrow> dm_settings_ok s \<Longrightarrow> dm_settings_ok (upd x s)"
  shows "dm_settings_ok (fst (load_key look parse upd key sw))"
  using assms by (cases sw) (auto simp: load_key_def split: option.splits)

lemma add_weapon_ok: "dm_settings_ok (fst sw) \<Longrightarrow> dm_settings_ok (fst (add_weapon sw item))"
proof -
  assume ok: "dm_settings_ok (fst sw)"
  have "dm_settings_ok (s\<lparr>dm_weaponRounds := dm_weaponRounds s @ [w]\<rparr>)" if "dm_settings_ok s" "ValidWeapon w" for s w
    using that by (simp add: dm_settings_ok_def)
  with ok show ?thesis by (cases sw) (simp add: add_weapon_def Let_def)
qed

lemma load_weapons_ok: "dm_settings_ok (fst sw) \<Longrightarrow> dm_settings_ok (fst (load_weapons look sw))"
proof -
  have "dm_settings_ok (fst sw) \<Longrightarrow> dm_settings_ok (fst (foldl add_weapon sw items))" for sw items
    by (induction items arbitrary: sw) (simp_all add: add_weapon_ok)
  then show "dm_settings_ok (fst sw) \<Longrightarrow> ?thesis" by (simp add: load_weapons_def split: option.splits)
qed

lemma ParseInt_bounds: "ParseInt lo hi v = Some x \<Longrightarrow> lo \<le> x \<and> x \<le> hi"
  by (simp add: ParseInt_def int_in_bounds)

lemma LoadSettings_dm_ok: "dm_settings_ok (fst (LoadSettings look))"
  unfolding LoadSettings_def Let_def
  by (intro load_weapons_ok load_key_ok; (drule ParseInt_bounds)?; simp add: dm_settings_ok_def dm_defaults_def)

text \<open>Bytes that can end a console command or start a comment are in none of the commands.\<close>

definition command_char :: "char \<Rightarrow> bool" where
  "command_char c \<longleftrightarrow> isalnum c \<or> c \<in> {CHR '' '', CHR ''_'', CHR ''-'', CHR 0x22}"

lemma to_string_command [simp]: "list_all command_char (to_string i)"
proof -
  have "list_all command_char (dec_nat n)" for n
    using list_all_isdigit_dec_nat [of n] by (auto simp: list_all_iff command_char_def isalnum_def)
  then show ?thesis by (simp add: to_string_def command_char_def)
qed

lemma ValidWeapon_command: "ValidWeapon w \<Longrightarrow> list_all command_char w"
  by (auto simp: ValidWeapon_def list_all_iff command_char_def isalnum_def)

lemma WeaponRoundCommands_safe: "c \<in> set (WeaponRoundCommands w r) \<Longrightarrow> list_all command_char c"
  using ValidWeapon_command [of w]
  by (auto simp: WeaponRoundCommands_def no_weapon_def command_char_def isalnum_def isdigit_def isupper_def islower_def
      split: if_splits)

lemma mode_commands_safe:
  "c \<in> set (ModeCommands m s @ LeaveCommands s g @ GameModeCommands) \<Longrightarrow> list_all command_char c"
  using WeaponRoundCommands_safe [of c "[]" False]
  by (auto simp: ModeCommands_def LeaveCommands_def GameModeCommands_def command_char_def isalnum_def isdigit_def
      isupper_def islower_def split: if_splits)

section \<open>Maps\<close>

lemma MapArgToEntry_cases:
  "MapArgToEntry arg = arg \<or> (MapArgToEntry arg \<noteq> [] \<and> sublist (MapArgToEntry arg) arg \<and> list_all isdigit (Lower (MapArgToEntry arg)))"
proof -
  have dig: "list_all isdigit (Lower (take (length (takeWhile isdigit (drop p (Lower arg)))) (drop p arg)))" for p
  proof -
    have "Lower (take k (drop p arg)) = take k (drop p (Lower arg))" for k by (simp add: Lower_def take_map drop_map)
    then show ?thesis by (simp add: takeWhile_eq_take [symmetric] list_all_iff) (meson set_takeWhileD)
  qed
  have "sublist (take k (drop p arg)) arg" for k p
    by (meson prefix_imp_sublist sublist_order.order_trans suffix_drop suffix_imp_sublist take_is_prefix)
  then show ?thesis using dig by (auto simp: MapArgToEntry_def Let_def split: option.splits)
qed

end
