(* ===== verification/Coach_Rules.thy ===== *)
theory Coach_Rules
  imports Text_Input
begin

text \<open>
  The engine-free half of coaching (\<open>src/plugins/match/readyup/coach_rules.cpp\<close>): who may coach
  which team, the side a coach watches, and the player argument of the admin command, with the Steam
  id parser it uses (\<open>src/libs/readyup/steamid.cpp\<close>). Teams are 0 (none), 1 and 2; sides are 2 (T)
  and 3 (CT). A message is its key with its arguments.
\<close>

section \<open>Steam ids\<close>

abbreviation steam64_base :: u64 where "steam64_base \<equiv> 76561197960265728"

definition Steam2ToSteam64 :: "string \<Rightarrow> u64" where
  "Steam2ToSteam64 s =
     (if \<not> starts_with ''STEAM_'' s then 0
      else
        case find_from '':'' s 0 of
          None \<Rightarrow> 0
        | Some p1 \<Rightarrow>
            (case find_from '':'' s (p1 + 1) of
               None \<Rightarrow> 0
             | Some p2 \<Rightarrow>
                 let y = strtoull (take (p2 - (p1 + 1)) (drop (p1 + 1) s)); z = strtoull (drop (p2 + 1) s)
                 in steam64_base + z * 2 + y))"

definition Steam3ToSteam64 :: "string \<Rightarrow> u64" where
  "Steam3ToSteam64 steam3 =
     (let s = (if steam3 \<noteq> [] \<and> hd steam3 = CHR ''['' \<and> last steam3 = CHR '']''
               then take (length steam3 - 2) (drop 1 steam3) else steam3)
      in if \<not> starts_with ''U:'' s then 0
         else
           case find_from '':'' s 0 of
             None \<Rightarrow> 0
           | Some p1 \<Rightarrow>
               (case find_from '':'' s (p1 + 1) of
                  None \<Rightarrow> 0
                | Some p2 \<Rightarrow>
                    if take (p2 - (p1 + 1)) (drop (p1 + 1) s) \<noteq> ''1'' then 0
                    else if drop (p2 + 1) s = [] then 0
                    else steam64_base + strtoull (drop (p2 + 1) s)))"

definition ParseSteamId64Loose :: "string \<Rightarrow> u64" where
  "ParseSteamId64Loose s =
     (if s = [] then 0
      else if list_all isdigit s then strtoull s
      else if starts_with ''STEAM_'' s then Steam2ToSteam64 s
      else if starts_with ''[U:'' s \<or> starts_with ''U:'' s then Steam3ToSteam64 s
      else 0)"

section \<open>The policy\<close>

datatype CoachArg = Arg_None | Arg_Ct | Arg_T | Arg_Team1 | Arg_Team2 | Arg_Invalid

definition ParseCoachArg :: "string \<Rightarrow> CoachArg" where
  "ParseCoachArg arg =
     (let a = Lower arg
      in if a = [] then Arg_None else if a = ''ct'' then Arg_Ct else if a = ''t'' then Arg_T
         else if a = ''team1'' then Arg_Team1 else if a = ''team2'' then Arg_Team2 else Arg_Invalid)"

type_synonym Msg = "string \<times> (string \<times> string) list"

record CoachRequest =
  rq_coaching_possible :: bool
  rq_scrim :: bool
  rq_admitted :: bool
  rq_by_admin :: bool
  rq_roster_team :: int
  rq_listed :: bool
  rq_listed_team :: int
  rq_current_team :: int
  rq_arg :: CoachArg
  rq_team1_is_ct :: bool
  rq_coaches_team1 :: int
  rq_coaches_team2 :: int
  rq_per_team_limit :: int

record CoachDecision =
  dc_ok :: bool
  dc_team :: int
  dc_already :: bool
  dc_reason :: Msg

definition CoachTeamLabel :: "int \<Rightarrow> string \<Rightarrow> string \<Rightarrow> string" where
  "CoachTeamLabel team team1Name team2Name =
     (if team = 1 then (if team1Name = [] then ''team1'' else team1Name)
      else if team = 2 then (if team2Name = [] then ''team2'' else team2Name)
      else ''no team'')"

definition refuse :: "string \<Rightarrow> (string \<times> string) list \<Rightarrow> CoachDecision" where
  "refuse key args = \<lparr>dc_ok = False, dc_team = 0, dc_already = False, dc_reason = (key, args)\<rparr>"

definition accept :: "int \<Rightarrow> bool \<Rightarrow> CoachDecision" where
  "accept team already = \<lparr>dc_ok = True, dc_team = team, dc_already = already, dc_reason = ([], [])\<rparr>"

definition coach_target :: "CoachRequest \<Rightarrow> int" where
  "coach_target r =
     (case rq_arg r of
        Arg_Ct \<Rightarrow> if rq_team1_is_ct r then 1 else 2
      | Arg_T \<Rightarrow> if rq_team1_is_ct r then 2 else 1
      | Arg_Team1 \<Rightarrow> 1
      | Arg_Team2 \<Rightarrow> 2
      | Arg_None \<Rightarrow> if rq_listed r \<and> (rq_listed_team r = 1 \<or> rq_listed_team r = 2) then rq_listed_team r else 0
      | Arg_Invalid \<Rightarrow> 0)"

definition DecideCoach :: "CoachRequest \<Rightarrow> string \<Rightarrow> string \<Rightarrow> CoachDecision" where
  "DecideCoach r team1Name team2Name =
     (let label = (\<lambda>team. CoachTeamLabel team team1Name team2Name) in
      if \<not> rq_coaching_possible r then refuse ''coach.no_match'' []
      else if \<not> rq_admitted r then refuse ''coach.not_admitted'' []
      else if rq_roster_team r = 1 \<or> rq_roster_team r = 2 then
        refuse (if rq_by_admin r then ''coach.on_roster_they'' else ''coach.on_roster_you'') [(''team'', label (rq_roster_team r))]
      else
        let target = coach_target r in
        if target = 0 then refuse (if rq_by_admin r then ''coach.usage_admin'' else ''coach.usage'') []
        else
          let listedForTarget = (rq_listed r \<and> (rq_listed_team r = 0 \<or> rq_listed_team r = target)) in
          if rq_listed r \<and> rq_listed_team r \<noteq> 0 \<and> rq_listed_team r \<noteq> target \<and> \<not> rq_by_admin r then
            refuse ''coach.listed_as'' [(''team'', label (rq_listed_team r))]
          else if \<not> rq_listed r \<and> \<not> rq_scrim r \<and> \<not> rq_by_admin r then refuse ''coach.config_only'' []
          else if rq_current_team r = target then accept target True
          else
            let n = (if target = 1 then rq_coaches_team1 r else rq_coaches_team2 r) in
            if \<not> listedForTarget \<and> rq_per_team_limit r > 0 \<and> n \<ge> rq_per_team_limit r then
              refuse ''coach.team_full'' [(''team'', label target), (''count'', to_string n)]
            else accept target False)"

section \<open>Sides\<close>

record SideTally =
  ty_team1_ct :: int
  ty_team1_t :: int
  ty_team2_ct :: int
  ty_team2_t :: int

definition Team1IsCtFromTally :: "SideTally \<Rightarrow> bool \<Rightarrow> bool" where
  "Team1IsCtFromTally t fallbackTeam1IsCt =
     (if ty_team1_ct t \<noteq> ty_team1_t t then ty_team1_ct t > ty_team1_t t
      else if ty_team2_ct t \<noteq> ty_team2_t t then ty_team2_t t > ty_team2_ct t
      else fallbackTeam1IsCt)"

definition CoachingSide :: "int \<Rightarrow> SideTally \<Rightarrow> int \<Rightarrow> bool \<Rightarrow> int" where
  "CoachingSide team t current fallbackTeam1IsCt =
     (if team \<noteq> 1 \<and> team \<noteq> 2 then 0
      else
        let decided = (ty_team1_ct t \<noteq> ty_team1_t t \<or> ty_team2_ct t \<noteq> ty_team2_t t) in
        if \<not> decided \<and> (current = 2 \<or> current = 3) then current
        else
          let team1Ct = Team1IsCtFromTally t fallbackTeam1IsCt; ct = (if team = 1 then team1Ct else \<not> team1Ct)
          in if ct then 3 else 2)"

section \<open>The player argument\<close>

record CoachCandidate =
  cc_steamid64 :: u64
  cc_userid :: int
  cc_name :: string

definition quoted :: "string \<Rightarrow> string" where
  "quoted s = [quote_char] @ take 32 s @ [quote_char]"

text \<open>The player, or the error text.\<close>

definition no_match :: "string \<Rightarrow> string" where
  "no_match arg = ''no connected player matches '' @ quoted arg"

definition many_match :: "nat \<Rightarrow> string \<Rightarrow> string" where
  "many_match n arg = dec_nat n @ '' players match '' @ quoted arg @ ''; use the SteamID or #userid''"

definition no_userid :: "string \<Rightarrow> string" where
  "no_userid arg = ''no connected player with userid '' @ arg"

definition not_connected :: "u64 \<Rightarrow> string" where
  "not_connected sid = ''SteamID '' @ u64_string sid @ '' is not connected''"

definition resolve_name :: "string \<Rightarrow> CoachCandidate list \<Rightarrow> string + u64" where
  "resolve_name arg players =
     (let want = Lower arg in
      case find (\<lambda>p. cc_steamid64 p \<noteq> 0 \<and> Lower (cc_name p) = want) players of
        Some p \<Rightarrow> Inr (cc_steamid64 p)
      | None \<Rightarrow>
          let hits = filter (\<lambda>p. \<not> (cc_steamid64 p = 0 \<or> \<not> contains want (Lower (cc_name p)))) players;
              n = length hits
          in if n = 1 then Inr (cc_steamid64 (last hits))
             else if n = 0 then Inl (no_match arg)
             else Inl (many_match n arg))"

definition resolve_sid :: "string \<Rightarrow> CoachCandidate list \<Rightarrow> string + u64" where
  "resolve_sid arg players =
     (let sid = ParseSteamId64Loose arg in
      if steam64_base \<le> sid then
        (if list_ex (\<lambda>p. cc_steamid64 p = sid) players then Inr sid
         else Inl (not_connected sid))
      else resolve_name arg players)"

definition ResolveCoachPlayer :: "string \<Rightarrow> CoachCandidate list \<Rightarrow> string + u64" where
  "ResolveCoachPlayer arg players =
     (if arg = [] then Inl ''no player given''
      else if hd arg = CHR ''#'' \<and> length arg > 1 then
        (let (uid, rest) = strtol (tl arg) in
         if rest = [] then
           (case find (\<lambda>p. cc_userid p = uid \<and> cc_steamid64 p \<noteq> 0) players of
              Some p \<Rightarrow> Inr (cc_steamid64 p)
            | None \<Rightarrow> Inl (no_userid arg))
         else resolve_sid arg players)
      else resolve_sid arg players)"

section \<open>Steam ids: round trips\<close>

text \<open>The three written forms of a Steam id.\<close>

definition steam3_string :: "u64 \<Rightarrow> string" where
  "steam3_string account = ''[U:1:'' @ u64_string account @ '']''"

definition steam2_string :: "u64 \<Rightarrow> string" where
  "steam2_string account = ''STEAM_1:'' @ u64_string (account mod 2) @ '':'' @ u64_string (account div 2)"

lemma find_sub_char: "c \<notin> set l \<Longrightarrow> find_sub [c] (l @ c # r) = Some (length l)"
  by (induction l) (auto simp: starts_with_def)

lemma u64_string_digits: "list_all isdigit (u64_string w)" "u64_string w \<noteq> []"
  by (simp_all add: u64_string_def)

lemma u64_string_no_colon: "CHR '':'' \<notin> set (u64_string w)"
  using u64_string_digits(1) [of w] by (auto simp: list_all_iff isdigit_def)

lemma parse_plain [simp]: "ParseSteamId64Loose (u64_string w) = w"
  using u64_string_digits [of w] by (simp add: ParseSteamId64Loose_def)

lemma Steam3_parse: "Steam3ToSteam64 (steam3_string a) = steam64_base + a"
proof -
  define t where "t = ''U:1:'' @ u64_string a"
  have strip: "(if steam3_string a \<noteq> [] \<and> hd (steam3_string a) = CHR ''['' \<and> last (steam3_string a) = CHR '']''
      then take (length (steam3_string a) - 2) (drop 1 (steam3_string a)) else steam3_string a) = t"
    by (simp add: steam3_string_def t_def)
  have "find_from '':'' t 0 = Some 1" "find_from '':'' t (1 + 1) = Some 3" "starts_with ''U:'' t"
    "take (3 - (1 + 1)) (drop (1 + 1) t) = ''1''" "drop (3 + 1) t = u64_string a"
    by (simp_all add: t_def find_from_def starts_with_def numeral_eq_Suc)
  then show ?thesis
    using u64_string_digits(2) [of a] unfolding Steam3ToSteam64_def strip Let_def by (simp del: One_nat_def)
qed

lemma Steam2_parse: "Steam2ToSteam64 (steam2_string a) = steam64_base + a"
proof -
  let ?y = "u64_string (a mod 2)" and ?z = "u64_string (a div 2)"
  define t where "t = steam2_string a"
  have eight: "drop 8 t = ?y @ CHR '':'' # ?z" by (simp add: t_def steam2_string_def numeral_eq_Suc)
  have "length t = 9 + length ?y + length ?z" by (simp add: t_def steam2_string_def)
  then have "find_from '':'' t 8 = Some (8 + length ?y)"
    using find_sub_char [OF u64_string_no_colon, of "a mod 2" ?z] by (simp add: find_from_def eight)
  moreover have "find_from '':'' t 0 = Some 7"
    by (simp add: t_def steam2_string_def find_from_def starts_with_def)
  moreover have "starts_with ''STEAM_'' t" by (simp add: t_def steam2_string_def starts_with_def)
  moreover have "drop (8 + length ?y + 1) t = drop (length ?y + 1) (drop 8 t)" by (simp add: add_ac)
  then have "drop (8 + length ?y + 1) t = ?z" by (simp add: eight)
  ultimately have "Steam2ToSteam64 t = steam64_base + (a div 2) * 2 + a mod 2"
    by (simp add: Steam2ToSteam64_def eight Let_def)
  also have "\<dots> = steam64_base + a" by (simp add: add.assoc div_mult_mod_eq)
  finally show ?thesis by (simp add: t_def)
qed

lemma steam_forms_dispatch:
  "ParseSteamId64Loose (steam3_string a) = Steam3ToSteam64 (steam3_string a)"
  "ParseSteamId64Loose (steam2_string a) = Steam2ToSteam64 (steam2_string a)"
  by (simp_all add: ParseSteamId64Loose_def steam3_string_def steam2_string_def starts_with_def isdigit_def)

interpretation steam3: codec steam3_string "\<lambda>s. Some (ParseSteamId64Loose s - steam64_base)" "\<lambda>_. True"
  by unfold_locales (simp add: steam_forms_dispatch Steam3_parse)

interpretation steam2: codec steam2_string "\<lambda>s. Some (ParseSteamId64Loose s - steam64_base)" "\<lambda>_. True"
  by unfold_locales (simp add: steam_forms_dispatch Steam2_parse)

text \<open>
  The three written forms of an account, the 64-bit number, \<open>[U:1:x]\<close> and \<open>STEAM_1:y:z\<close>, are all
  read as the same Steam id, and different accounts as different ids.
\<close>

theorem steamid_forms_agree:
  "ParseSteamId64Loose (u64_string (steam64_base + a)) = steam64_base + a \<and>
   ParseSteamId64Loose (steam3_string a) = steam64_base + a \<and>
   ParseSteamId64Loose (steam2_string a) = steam64_base + a \<and>
   (steam3_string a = steam3_string b \<longleftrightarrow> a = b) \<and> (steam2_string a = steam2_string b \<longleftrightarrow> a = b)"
  using steam3.enc_inj [of a b] steam2.enc_inj [of a b]
  by (auto simp: steam_forms_dispatch Steam3_parse Steam2_parse)

text \<open>
  The header promises 0 on a parse failure. A form whose number is not a number is read as account 0.
\<close>

lemma bad_account_read_as_zero: "ParseSteamId64Loose ''[U:1:abc]'' = steam64_base"
  by (simp add: ParseSteamId64Loose_def Steam3ToSteam64_def find_from_def starts_with_def isdigit_def strtoull_def
      c_str_def take_sign_def isspace_def Let_def)

section \<open>The policy\<close>

definition listed_for :: "CoachRequest \<Rightarrow> int \<Rightarrow> bool" where
  "listed_for r t \<longleftrightarrow> rq_listed r \<and> (rq_listed_team r = 0 \<or> rq_listed_team r = t)"

lemma coach_target_range: "coach_target r \<in> {0, 1, 2}"
  by (auto simp: coach_target_def split: CoachArg.splits)

lemma refuse_simps [simp]: "dc_ok (refuse k a) = False" "dc_already (refuse k a) = False"
  by (simp_all add: refuse_def)

lemma accept_simps [simp]: "dc_ok (accept t b) = True" "dc_team (accept t b) = t" "dc_already (accept t b) = b"
  by (simp_all add: accept_def)

lemma DecideCoach_ok_iff:
  "dc_ok (DecideCoach r n1 n2) \<longleftrightarrow>
     rq_coaching_possible r \<and> rq_admitted r \<and> rq_roster_team r \<noteq> 1 \<and> rq_roster_team r \<noteq> 2 \<and> coach_target r \<noteq> 0 \<and>
     (rq_by_admin r \<or> listed_for r (coach_target r) \<or> (\<not> rq_listed r \<and> rq_scrim r)) \<and>
     (rq_current_team r = coach_target r \<or> listed_for r (coach_target r) \<or> rq_per_team_limit r \<le> 0 \<or>
      (if coach_target r = 1 then rq_coaches_team1 r else rq_coaches_team2 r) < rq_per_team_limit r)"
  unfolding DecideCoach_def Let_def listed_for_def
  by (simp only: if_distrib [of dc_ok] refuse_simps accept_simps not_le [symmetric] not_less if_bool_eq_disj)
     (cases "rq_listed r"; cases "rq_by_admin r"; simp only: simp_thms if_True if_False; blast)

text \<open>A decision is a refusal, or it accepts the target.\<close>

lemma DecideCoach_cases:
  "(\<exists>k a. DecideCoach r n1 n2 = refuse k a) \<or>
   DecideCoach r n1 n2 = accept (coach_target r) (rq_current_team r = coach_target r)"
proof -
  have iff: "(\<exists>k a. (if b then x else y) = refuse k a) \<or> (if b then x else y) = z"
    if "b \<Longrightarrow> (\<exists>k a. x = refuse k a) \<or> x = z" "\<not> b \<Longrightarrow> (\<exists>k a. y = refuse k a) \<or> y = z" for b x y z
    using that by simp
  show ?thesis unfolding DecideCoach_def Let_def by (intro iff; (blast | simp))
qed

lemma DecideCoach_ok:
  assumes "dc_ok (DecideCoach r n1 n2)"
  shows "dc_team (DecideCoach r n1 n2) = coach_target r"
    and "dc_already (DecideCoach r n1 n2) \<longleftrightarrow> rq_current_team r = coach_target r"
  using assms DecideCoach_cases [of r n1 n2] by auto

section \<open>Sides\<close>

text \<open>The coaches of the two teams watch opposite sides, the one most of the players are on.\<close>

lemma CoachingSide_opposite:
  assumes "ty_team1_ct t \<noteq> ty_team1_t t \<or> ty_team2_ct t \<noteq> ty_team2_t t"
  shows "{CoachingSide 1 t c f, CoachingSide 2 t c' f'} = {2, 3}"
  using assms by (auto simp: CoachingSide_def Team1IsCtFromTally_def Let_def)

lemma CoachingSide_majority:
  "ty_team1_ct t > ty_team1_t t \<Longrightarrow> CoachingSide 1 t c f = 3"
  "ty_team1_ct t < ty_team1_t t \<Longrightarrow> CoachingSide 1 t c f = 2"
  by (auto simp: CoachingSide_def Team1IsCtFromTally_def Let_def)

lemma CoachingSide_keeps:
  assumes "ty_team1_ct t = ty_team1_t t" "ty_team2_ct t = ty_team2_t t" "c = 2 \<or> c = 3" "team = 1 \<or> team = 2"
  shows "CoachingSide team t c f = c"
  using assms by (auto simp: CoachingSide_def)

section \<open>The player argument\<close>

lemma resolve_name_connected: "resolve_name arg ps = Inr sid \<Longrightarrow> sid \<noteq> 0 \<and> sid \<in> cc_steamid64 ` set ps"
  by (auto simp: resolve_name_def Let_def length_Suc_conv find_Some_iff filter_eq_Cons_iff split: option.splits if_splits)

lemma resolve_sid_connected: "resolve_sid arg ps = Inr sid \<Longrightarrow> sid \<noteq> 0 \<and> sid \<in> cc_steamid64 ` set ps"
  using resolve_name_connected [of arg ps sid]
  by (force simp: resolve_sid_def Let_def list_ex_iff split: if_splits)

text \<open>
  The player argument of the admin command names a connected player or is refused: whatever is
  typed, the result is the Steam id of one of the connected players, never 0; and the Steam id of a
  connected player, in each written form, always names that player.
\<close>

theorem ResolveCoachPlayer_connected:
  "(ResolveCoachPlayer arg ps = Inr sid \<longrightarrow> sid \<noteq> 0 \<and> sid \<in> cc_steamid64 ` set ps) \<and>
   (p \<in> set ps \<and> cc_steamid64 p = steam64_base + a \<and> a < 2 ^ 32 \<longrightarrow>
     ResolveCoachPlayer (u64_string (steam64_base + a)) ps = Inr (cc_steamid64 p) \<and>
     ResolveCoachPlayer (steam3_string a) ps = Inr (cc_steamid64 p) \<and>
     ResolveCoachPlayer (steam2_string a) ps = Inr (cc_steamid64 p))"
proof (intro conjI impI)
  assume r: "ResolveCoachPlayer arg ps = Inr sid"
  have "sid \<noteq> 0 \<and> sid \<in> cc_steamid64 ` set ps"
  proof (cases "hd arg = CHR ''#'' \<and> length arg > 1 \<and> snd (strtol (tl arg)) = []")
    case True
    with r obtain p where "find (\<lambda>p. cc_userid p = fst (strtol (tl arg)) \<and> cc_steamid64 p \<noteq> 0) ps = Some p"
      and "sid = cc_steamid64 p"
      by (auto simp: ResolveCoachPlayer_def split: prod.splits option.splits if_splits)
    then show ?thesis by (auto simp: find_Some_iff)
  next
    case False
    with r have "resolve_sid arg ps = Inr sid"
      by (auto simp: ResolveCoachPlayer_def split: prod.splits if_splits)
    then show ?thesis by (rule resolve_sid_connected)
  qed
  then show "sid \<noteq> 0" and "sid \<in> cc_steamid64 ` set ps" by simp_all
next
  assume p: "p \<in> set ps \<and> cc_steamid64 p = steam64_base + a \<and> a < 2 ^ 32"
  have "unat a < 2 ^ 32" using p by (simp add: word_less_nat_alt)
  then have "unat steam64_base + unat a < 2 ^ LENGTH(64)" by simp
  then have big: "steam64_base \<le> steam64_base + a"
    by (simp add: word_le_nat_alt unat_add_lem [THEN iffD1])
  have "ResolveCoachPlayer form ps = Inr (cc_steamid64 p)"
    if "ParseSteamId64Loose form = steam64_base + a" "form \<noteq> []" "hd form \<noteq> CHR ''#''" for form
  proof -
    have "list_ex (\<lambda>q. cc_steamid64 q = steam64_base + a) ps" using p by (auto simp: list_ex_iff)
    then have "resolve_sid form ps = Inr (cc_steamid64 p)" using that big p by (simp add: resolve_sid_def)
    with that show ?thesis by (simp add: ResolveCoachPlayer_def)
  qed
  note form = this
  have "hd (u64_string (steam64_base + a)) \<noteq> CHR ''#''"
    using u64_string_digits [of "steam64_base + a"] by (cases "u64_string (steam64_base + a)") (auto simp: isdigit_def)
  then show "ResolveCoachPlayer (u64_string (steam64_base + a)) ps = Inr (cc_steamid64 p)"
    by (intro form) (simp_all add: u64_string_digits)
  show "ResolveCoachPlayer (steam3_string a) ps = Inr (cc_steamid64 p)"
    by (intro form) (simp_all add: steam_forms_dispatch Steam3_parse, simp_all add: steam3_string_def)
  show "ResolveCoachPlayer (steam2_string a) ps = Inr (cc_steamid64 p)"
    by (intro form) (simp_all add: steam_forms_dispatch Steam2_parse, simp_all add: steam2_string_def)
qed

theorem ResolveCoachPlayer_connected_witness:
  "ResolveCoachPlayer ''[U:1:5]'' [\<lparr>cc_steamid64 = 76561197960265733, cc_userid = 2, cc_name = ''eve''\<rparr>] = Inr 76561197960265733"
proof -
  let ?p = "\<lparr>cc_steamid64 = 76561197960265733, cc_userid = 2, cc_name = ''eve''\<rparr>"
  have "steam3_string 5 = ''[U:1:5]''" by code_simp
  moreover have "(5 :: u64) < 2 ^ 32" by simp
  ultimately show ?thesis using ResolveCoachPlayer_connected [of undefined "[?p]" 0 ?p 5] by simp
qed

end
