(* ===== verification/Coaching.thy ===== *)
theory Coaching
  imports Coach_Rules "HOL-Library.AList"
begin

text \<open>
  The coaches of a match (\<open>src/plugins/match/readyup/coach.cpp\<close>): the state of the module, the sync
  that applies it to the engine, the chat and admin commands and the engine events. The engine is a
  record of what the module reads and writes (\<open>m_iTeamNum\<close> and \<open>m_iCoachingTeam\<close> of the player
  controllers, the slot of a Steam id); the match context, the connected players, the map number and
  the number of side swaps come from other modules and are arguments. Maps are association lists in
  iteration order. Text in a language (\<open>text::ForLang\<close>) is a parameter.
\<close>

section \<open>State\<close>

record Coach =
  ch_team :: int
  ch_listed :: bool
  ch_name :: string
  ch_effective :: bool
  ch_hintedTeam :: int

definition new_coach :: "int \<Rightarrow> bool \<Rightarrow> string \<Rightarrow> Coach" where
  "new_coach team listed name =
     \<lparr>ch_team = team, ch_listed = listed, ch_name = name, ch_effective = False, ch_hintedTeam = - 1\<rparr>"

record CoachState =
  cs_coaches :: "(u64 \<times> Coach) list"
  cs_optOut :: "u64 set"
  cs_written :: "(u64 \<times> int) list"
  cs_ctxMatch :: u64
  cs_cvarOn :: bool
  cs_cvarDirty :: bool
  cs_nextSync :: seconds

definition CoachState_init :: CoachState where
  "CoachState_init = \<lparr>cs_coaches = [], cs_optOut = {}, cs_written = [], cs_ctxMatch = 0, cs_cvarOn = False,
     cs_cvarDirty = True, cs_nextSync = 0\<rparr>"

section \<open>The engine\<close>

record Engine =
  en_resolved :: bool
  en_slot :: "u64 \<Rightarrow> int"
  en_ctrl :: "int \<Rightarrow> bool"
  en_team :: "int \<Rightarrow> int"
  en_coaching :: "int \<Rightarrow> int"

definition ControllerOf :: "Engine \<Rightarrow> int \<Rightarrow> int option" where
  "ControllerOf e slot = (if slot < 0 \<or> slot \<ge> 64 then None else if en_ctrl e slot then Some slot else None)"

definition WriteCoaching :: "int \<Rightarrow> int \<Rightarrow> Engine \<Rightarrow> Engine" where
  "WriteCoaching ctrl v e = e\<lparr>en_coaching := (en_coaching e)(ctrl := v)\<rparr>"

definition SlotOf :: "Engine \<Rightarrow> u64 \<Rightarrow> int option" where
  "SlotOf e sid = (if sid = 0 then None else if en_slot e sid \<ge> 0 then Some (en_slot e sid) else None)"

definition EngineTeamOf :: "Engine \<Rightarrow> u64 \<Rightarrow> int" where
  "EngineTeamOf e sid =
     (if \<not> en_resolved e then - 1
      else case SlotOf e sid of
        None \<Rightarrow> - 1
      | Some slot \<Rightarrow> (case ControllerOf e slot of None \<Rightarrow> - 1 | Some c \<Rightarrow> en_team e c))"

section \<open>The match context\<close>

datatype ReadyUpMode = Idle | Practice | MatchWarmup | MatchKnife | MatchLive | Postgame | ScrimWarmup | External

record MatchContext =
  mc_matchid :: u64
  mc_slug :: string
  mc_coaches_per_team :: int
  mc_team1_name :: string
  mc_team2_name :: string
  mc_coach_team :: "(u64 \<times> int) list"
  mc_coaches :: "u64 set"
  mc_roster_team :: "(u64 \<times> int) list"
  mc_map_sides :: "string list"

record Ctx =
  cx_match :: "MatchContext option"
  cx_possible :: bool
  cx_scrim :: bool
  cx_admitted :: bool
  cx_limit :: int
  cx_team1Name :: string
  cx_team2Name :: string

abbreviation kDefaultCoachesPerTeam :: int where "kDefaultCoachesPerTeam \<equiv> 2"

definition ReadCtx :: "MatchContext option \<Rightarrow> ReadyUpMode \<Rightarrow> bool \<Rightarrow> Ctx" where
  "ReadCtx m mode admitted =
     (case m of
        Some mc \<Rightarrow> \<lparr>cx_match = m, cx_possible = mode \<noteq> Practice \<and> mode \<noteq> External, cx_scrim = mc_slug mc = ''scrim'',
                    cx_admitted = admitted, cx_limit = mc_coaches_per_team mc, cx_team1Name = mc_team1_name mc,
                    cx_team2Name = mc_team2_name mc\<rparr>
      | None \<Rightarrow> \<lparr>cx_match = None, cx_possible = mode = ScrimWarmup, cx_scrim = True, cx_admitted = admitted,
                 cx_limit = kDefaultCoachesPerTeam, cx_team1Name = [], cx_team2Name = []\<rparr>)"

text \<open>Whether a player is in the match config's coaches, and the team (0: none).\<close>

definition ListedTeam :: "Ctx \<Rightarrow> u64 \<Rightarrow> bool \<times> int" where
  "ListedTeam c sid =
     (case cx_match c of
        None \<Rightarrow> (False, 0)
      | Some m \<Rightarrow> (case map_of (mc_coach_team m) sid of
                    Some t \<Rightarrow> (True, t)
                  | None \<Rightarrow> (sid \<in> mc_coaches m, 0)))"

definition RosterTeam :: "Ctx \<Rightarrow> u64 \<Rightarrow> int" where
  "RosterTeam c sid =
     (case cx_match c of
        None \<Rightarrow> 0
      | Some m \<Rightarrow> (case map_of (mc_roster_team m) sid of None \<Rightarrow> 0 | Some t \<Rightarrow> t))"

definition FallbackTeam1IsCt :: "Ctx \<Rightarrow> int \<Rightarrow> int \<Rightarrow> bool" where
  "FallbackTeam1IsCt c map_number swapCount =
     (case cx_match c of
        None \<Rightarrow> True
      | Some m \<Rightarrow>
          let mapno = max 1 map_number;
              ct = (\<not> (nat mapno \<le> length (mc_map_sides m) \<and> mc_map_sides m ! nat (mapno - 1) = ''team2_ct''))
          in if cmod swapCount 2 \<noteq> 0 then \<not> ct else ct)"

definition tally_player :: "Engine \<Rightarrow> u64 \<times> int \<Rightarrow> SideTally \<Rightarrow> SideTally" where
  "tally_player e kv t =
     (let team = EngineTeamOf e (fst kv) in
      if team \<noteq> 2 \<and> team \<noteq> 3 then t
      else if snd kv = 1 then (if team = 3 then t\<lparr>ty_team1_ct := ty_team1_ct t + 1\<rparr> else t\<lparr>ty_team1_t := ty_team1_t t + 1\<rparr>)
      else if snd kv = 2 then (if team = 3 then t\<lparr>ty_team2_ct := ty_team2_ct t + 1\<rparr> else t\<lparr>ty_team2_t := ty_team2_t t + 1\<rparr>)
      else t)"

definition Tally :: "Ctx \<Rightarrow> Engine \<Rightarrow> SideTally" where
  "Tally c e =
     (let t0 = \<lparr>ty_team1_ct = 0, ty_team1_t = 0, ty_team2_ct = 0, ty_team2_t = 0\<rparr> in
      case cx_match c of
        None \<Rightarrow> t0
      | Some m \<Rightarrow> if \<not> en_resolved e then t0 else fold (tally_player e) (mc_roster_team m) t0)"

definition SideName :: "int \<Rightarrow> string" where
  "SideName side = (if side = 3 then ''CT'' else if side = 2 then ''T'' else ''?'')"

definition OnContextLocked :: "Ctx \<Rightarrow> CoachState \<Rightarrow> CoachState" where
  "OnContextLocked c st =
     (let mid = (case cx_match c of Some m \<Rightarrow> mc_matchid m | None \<Rightarrow> 0) in
      if mid = cs_ctxMatch st then st
      else
        let warmupToScrim = (cs_ctxMatch st = 0 \<and> cx_match c \<noteq> None \<and> cx_scrim c);
            st = (if \<not> warmupToScrim then st\<lparr>cs_coaches := [], cs_optOut := {}\<rparr> else st)
        in st\<lparr>cs_ctxMatch := mid\<rparr>)"

section \<open>The sync\<close>

record Out =
  out_priv :: "(int \<times> Msg) list"
  out_all :: "Msg list"
  out_cmds :: "string list"

definition no_out :: Out where
  "no_out = \<lparr>out_priv = [], out_all = [], out_cmds = []\<rparr>"

definition say_slot :: "int \<Rightarrow> Msg \<Rightarrow> Out \<Rightarrow> Out" where
  "say_slot slot m out = out\<lparr>out_priv := out_priv out @ [(slot, m)]\<rparr>"

definition say_all :: "Msg \<Rightarrow> Out \<Rightarrow> Out" where
  "say_all m out = out\<lparr>out_all := out_all out @ [m]\<rparr>"

text \<open>What a locked operation works on: the module, the engine, and the output collected.\<close>

type_synonym world = "CoachState \<times> Engine \<times> Out"

definition ClearFieldLocked :: "u64 \<Rightarrow> world \<Rightarrow> world" where
  "ClearFieldLocked sid w =
     (let (st, e, out) = w in
      case map_of (cs_written st) sid of
        None \<Rightarrow> w
      | Some _ \<Rightarrow>
          let e = (case SlotOf e sid of
                     None \<Rightarrow> e
                   | Some slot \<Rightarrow>
                       if \<not> en_resolved e then e
                       else case ControllerOf e slot of
                              None \<Rightarrow> e
                            | Some ctrl \<Rightarrow> if en_coaching e ctrl \<noteq> 0 then WriteCoaching ctrl 0 e else e)
          in (st\<lparr>cs_written := AList.delete sid (cs_written st)\<rparr>, e, out))"

text \<open>A coach who became a rostered player plays instead.\<close>

definition drop_playing_one :: "u64 \<Rightarrow> world \<Rightarrow> world" where
  "drop_playing_one sid w =
     (let (st, e, out) = w;
          out = (case SlotOf e sid of Some slot \<Rightarrow> say_slot slot (''coach.roster_now'', []) out | None \<Rightarrow> out);
          (st, e, out) = ClearFieldLocked sid (st, e, out)
      in (st\<lparr>cs_coaches := AList.delete sid (cs_coaches st)\<rparr>, e, out))"

definition drop_playing :: "Ctx \<Rightarrow> world \<Rightarrow> world" where
  "drop_playing c w =
     (let playing = filter (\<lambda>sid. RosterTeam c sid \<noteq> 0) (map fst (cs_coaches (fst w)))
      in fold drop_playing_one playing w)"

definition last_name :: "CoachCandidate list \<Rightarrow> u64 \<Rightarrow> string \<Rightarrow> string" where
  "last_name humans sid nm = foldl (\<lambda>n h. if cc_steamid64 h = sid then cc_name h else n) nm humans"

text \<open>Listed coaches with a team coach it without typing anything.\<close>

definition add_listed_one :: "Ctx \<Rightarrow> CoachCandidate list \<Rightarrow> u64 \<times> int \<Rightarrow> CoachState \<Rightarrow> CoachState" where
  "add_listed_one c humans kv st =
     (let sid = fst kv in
      if map_of (cs_coaches st) sid \<noteq> None \<or> sid \<in> cs_optOut st then st
      else if RosterTeam c sid \<noteq> 0 then st
      else st\<lparr>cs_coaches := AList.update sid (new_coach (snd kv) True (last_name humans sid [])) (cs_coaches st)\<rparr>)"

text \<open>One coach: the field is written while the player is a spectator, with the hint otherwise.\<close>

definition sync_coach ::
  "Ctx \<Rightarrow> CoachCandidate list \<Rightarrow> SideTally \<Rightarrow> bool \<Rightarrow> u64 \<times> Coach \<Rightarrow> world \<Rightarrow> world" where
  "sync_coach c humans t fallback kv w =
     (let (st, e, out) = w; sid = fst kv; co = snd kv;
          put = (\<lambda>co. st\<lparr>cs_coaches := AList.update sid co (cs_coaches st)\<rparr>)
      in case (case SlotOf e sid of None \<Rightarrow> None | Some slot \<Rightarrow> ControllerOf e slot) of
           None \<Rightarrow> (put (co\<lparr>ch_effective := False, ch_hintedTeam := - 1\<rparr>), e, out)
         | Some ctrl \<Rightarrow>
             let co = (if ch_name co = [] then co\<lparr>ch_name := last_name humans sid []\<rparr> else co);
                 label = CoachTeamLabel (ch_team co) (cx_team1Name c) (cx_team2Name c)
             in if en_team e ctrl = 1 then
                  let cur = en_coaching e ctrl;
                      side = CoachingSide (ch_team co) t cur fallback;
                      e = (if side \<noteq> cur then WriteCoaching ctrl side e else e);
                      out = (if \<not> ch_effective co
                             then say_slot ctrl (''coach.you_coach'', [(''team'', label), (''side'', SideName side)]) out else out);
                      st = put (co\<lparr>ch_effective := True, ch_hintedTeam := 1\<rparr>)
                  in (st\<lparr>cs_written := AList.update sid ctrl (cs_written st)\<rparr>, e, out)
                else if (en_team e ctrl = 2 \<or> en_team e ctrl = 3) \<and> ch_hintedTeam co \<noteq> en_team e ctrl then
                  (put (co\<lparr>ch_effective := False, ch_hintedTeam := en_team e ctrl\<rparr>), e,
                   say_slot ctrl (''coach.join_spec'', [(''team'', label)]) out)
                else (put (co\<lparr>ch_effective := False\<rparr>), e, out))"

definition sync_cvar :: "bool \<Rightarrow> world \<Rightarrow> world" where
  "sync_cvar usable w =
     (let (st, e, out) = w; wantCvar = (usable \<and> cs_coaches st \<noteq> [])
      in if wantCvar \<noteq> cs_cvarOn st \<or> (wantCvar \<and> cs_cvarDirty st)
         then (st\<lparr>cs_cvarOn := wantCvar, cs_cvarDirty := False\<rparr>, e,
               out\<lparr>out_cmds := out_cmds out @ [if wantCvar then ''sv_coaching_enabled 1'' else ''sv_coaching_enabled 0'']\<rparr>)
         else (st\<lparr>cs_cvarDirty := False\<rparr>, e, out))"

definition clear_stale :: "world \<Rightarrow> world" where
  "clear_stale w =
     (let stale = filter (\<lambda>sid. map_of (cs_coaches (fst w)) sid = None) (map fst (cs_written (fst w)))
      in fold ClearFieldLocked stale w)"

definition drop_all :: "world \<Rightarrow> world" where
  "drop_all w =
     (let (st, e, out) = fold ClearFieldLocked (map fst (cs_coaches (fst w))) w
      in (st\<lparr>cs_coaches := []\<rparr>, e, out))"

definition usable :: "Ctx \<Rightarrow> Engine \<Rightarrow> bool" where
  "usable c e \<longleftrightarrow> cx_possible c \<and> cx_admitted c \<and> en_resolved e"

text \<open>The first half of the sync: who coaches.\<close>

definition sync_members :: "Ctx \<Rightarrow> CoachCandidate list \<Rightarrow> world \<Rightarrow> world" where
  "sync_members c humans w =
     (let (st, e, out) = w;
          w = (OnContextLocked c st, e, out);
          w = (if cx_match c \<noteq> None then drop_playing c w else w);
          w = (case cx_match c of
                 Some m \<Rightarrow> if usable c e then (fold (add_listed_one c humans) (mc_coach_team m) (fst w), snd w) else w
               | None \<Rightarrow> w)
      in if \<not> usable c e \<and> (\<not> cx_possible c \<or> \<not> cx_admitted c) then drop_all w else w)"

definition SyncLocked :: "Ctx \<Rightarrow> CoachCandidate list \<Rightarrow> int \<Rightarrow> int \<Rightarrow> world \<Rightarrow> world" where
  "SyncLocked c humans map_number swapCount w =
     (let u = usable c (fst (snd w));
          w = sync_cvar u (sync_members c humans w);
          w = (if u \<and> cs_coaches (fst w) \<noteq> []
               then fold (sync_coach c humans (Tally c (fst (snd w))) (FallbackTeam1IsCt c map_number swapCount))
                      (cs_coaches (fst w)) w
               else w)
      in clear_stale w)"

section \<open>Commands and events\<close>

definition StartCoachingLocked :: "u64 \<Rightarrow> string \<Rightarrow> int \<Rightarrow> bool \<Rightarrow> CoachState \<Rightarrow> CoachState" where
  "StartCoachingLocked sid name team listed st =
     st\<lparr>cs_coaches := AList.update sid (new_coach team listed name) (cs_coaches st), cs_optOut := cs_optOut st - {sid}\<rparr>"

text \<open>Active coaches of a team who are not listed, the player excluded.\<close>

definition other_coaches :: "u64 \<Rightarrow> bool \<Rightarrow> CoachState \<Rightarrow> int" where
  "other_coaches sid first st =
     int (length (filter (\<lambda>kv. \<not> (fst kv = sid \<or> ch_listed (snd kv)) \<and> (ch_team (snd kv) = 1) = first) (cs_coaches st)))"

definition BuildRequestLocked ::
  "Ctx \<Rightarrow> Engine \<Rightarrow> int \<Rightarrow> int \<Rightarrow> u64 \<Rightarrow> CoachArg \<Rightarrow> bool \<Rightarrow> CoachState \<Rightarrow> CoachRequest" where
  "BuildRequestLocked c e map_number swapCount sid arg byAdmin st =
     \<lparr>rq_coaching_possible = cx_possible c, rq_scrim = cx_scrim c, rq_admitted = cx_admitted c, rq_by_admin = byAdmin,
      rq_roster_team = RosterTeam c sid, rq_listed = fst (ListedTeam c sid), rq_listed_team = snd (ListedTeam c sid),
      rq_current_team = (case map_of (cs_coaches st) sid of Some co \<Rightarrow> ch_team co | None \<Rightarrow> 0), rq_arg = arg,
      rq_team1_is_ct = Team1IsCtFromTally (Tally c e) (FallbackTeam1IsCt c map_number swapCount),
      rq_coaches_team1 = other_coaches sid True st, rq_coaches_team2 = other_coaches sid False st,
      rq_per_team_limit = cx_limit c\<rparr>"

text \<open>\<open>Split\<close>: the words of a line.\<close>

function Split :: "string \<Rightarrow> string list" where
  "Split s =
     (let t = dropWhile isspace s
      in if t = [] then [] else takeWhile (\<lambda>c. \<not> isspace c) t # Split (dropWhile (\<lambda>c. \<not> isspace c) t))"
  by pat_completeness auto
termination
proof (relation "measure length")
  fix s t assume "t = dropWhile isspace s" and "t \<noteq> []"
  then have "\<not> isspace (hd t)" and "length t \<le> length s" by (auto simp: hd_dropWhile length_dropWhile_le)
  with \<open>t \<noteq> []\<close> have "length (dropWhile (\<lambda>c. \<not> isspace c) t) < length s"
    by (cases t) (auto intro: le_less_trans [OF length_dropWhile_le])
  then show "(dropWhile (\<lambda>c. \<not> isspace c) t, s) \<in> measure length" by simp
qed simp

declare Split.simps [simp del]

text \<open>Ends a coaching; the caller has looked the coach up.\<close>

definition stop_coaching :: "Ctx \<Rightarrow> u64 \<Rightarrow> world \<Rightarrow> world" where
  "stop_coaching c sid w =
     (let (st, e, out) = w;
          st = (if fst (ListedTeam c sid) then st\<lparr>cs_optOut := insert sid (cs_optOut st)\<rparr> else st);
          st = st\<lparr>cs_coaches := AList.delete sid (cs_coaches st)\<rparr>
      in ClearFieldLocked sid (st, e, out))"

definition uncoach_chat :: "Ctx \<Rightarrow> u64 \<Rightarrow> string \<Rightarrow> int \<Rightarrow> world \<Rightarrow> world" where
  "uncoach_chat c sid playerName slot w =
     (let (st, e, out) = w in
      case map_of (cs_coaches st) sid of
        None \<Rightarrow> (st, e, say_slot slot (''coach.not_coaching'', []) out)
      | Some co \<Rightarrow>
          let label = CoachTeamLabel (ch_team co) (cx_team1Name c) (cx_team2Name c);
              (st, e, out) = stop_coaching c sid w
          in (st, e, say_all (''coach.stopped'', [(''name'', playerName), (''team'', label)]) out))"

definition coach_chat :: "Ctx \<Rightarrow> int \<Rightarrow> int \<Rightarrow> u64 \<Rightarrow> string \<Rightarrow> CoachArg \<Rightarrow> int \<Rightarrow> world \<Rightarrow> world" where
  "coach_chat c map_number swapCount sid playerName arg slot w =
     (let (st, e, out) = w in
      if \<not> en_resolved e then (st, e, say_slot slot (''coach.unavailable'', []) out)
      else
        let r = BuildRequestLocked c e map_number swapCount sid arg False st;
            d = DecideCoach r (cx_team1Name c) (cx_team2Name c);
            label = CoachTeamLabel (dc_team d) (cx_team1Name c) (cx_team2Name c)
        in if \<not> dc_ok d then (st, e, say_slot slot (dc_reason d) out)
           else if dc_already d then (st, e, say_slot slot (''coach.already'', [(''team'', label)]) out)
           else (StartCoachingLocked sid playerName (dc_team d) (rq_listed r) st, e,
                 say_all (''coach.started'', [(''name'', playerName), (''team'', label)]) out))"

definition CoachChatCommand ::
  "Ctx \<Rightarrow> int \<Rightarrow> int \<Rightarrow> u64 \<Rightarrow> string \<Rightarrow> string \<Rightarrow> int \<Rightarrow> CoachState \<times> Engine \<Rightarrow> world" where
  "CoachChatCommand c map_number swapCount sid playerName line slot se =
     (let (st, e) = se; parts = Split line in
      if sid = 0 \<or> parts = [] then (st, e, no_out)
      else
        let slot = (if slot < 0 then (case SlotOf e sid of Some s \<Rightarrow> s | None \<Rightarrow> slot) else slot);
            w = (OnContextLocked c st, e, no_out);
            (st, e, out) =
              (if Lower (parts ! 0) = ''.uncoach'' then uncoach_chat c sid playerName slot w
               else coach_chat c map_number swapCount sid playerName
                      (ParseCoachArg (if length parts > 1 then parts ! 1 else [])) slot w)
        in (st\<lparr>cs_nextSync := 0\<rparr>, e, out))"

definition name_of :: "CoachCandidate list \<Rightarrow> u64 \<Rightarrow> string" where
  "name_of humans sid = (case find (\<lambda>h. cc_steamid64 h = sid) humans of Some h \<Rightarrow> cc_name h | None \<Rightarrow> u64_string sid)"

text \<open>The reply and the announcement of the admin command, with the state and the engine after it.\<close>

type_synonym admin_result = "CoachState \<times> Engine \<times> string \<times> Msg"

definition uncoach_admin :: "Ctx \<Rightarrow> u64 \<Rightarrow> string \<Rightarrow> CoachState \<times> Engine \<Rightarrow> admin_result" where
  "uncoach_admin c sid name se =
     (let (st, e) = se in
      case map_of (cs_coaches st) sid of
        None \<Rightarrow> (st, e, name @ '' is not coaching.'', ([], []))
      | Some co \<Rightarrow>
          let label = CoachTeamLabel (ch_team co) (cx_team1Name c) (cx_team2Name c);
              (st, e, out) = stop_coaching c sid (st, e, no_out)
          in (st, e, name @ '' no longer coaches '' @ label @ ''.'',
              (''coach.stopped_admin'', [(''name'', name), (''team'', label)])))"

definition coach_admin ::
  "(Msg \<Rightarrow> string) \<Rightarrow> Ctx \<Rightarrow> int \<Rightarrow> int \<Rightarrow> u64 \<Rightarrow> string \<Rightarrow> CoachArg \<Rightarrow> CoachState \<times> Engine \<Rightarrow> admin_result" where
  "coach_admin forLang c map_number swapCount sid name arg se =
     (let (st, e) = se in
      if \<not> en_resolved e then
        (st, e, ''coaching is unavailable on this server (m_iCoachingTeam not found; see the server log).'', ([], []))
      else
        let r = BuildRequestLocked c e map_number swapCount sid arg True st;
            d = DecideCoach r (cx_team1Name c) (cx_team2Name c);
            label = CoachTeamLabel (dc_team d) (cx_team1Name c) (cx_team2Name c)
        in if \<not> dc_ok d then (st, e, forLang (dc_reason d), ([], []))
           else if dc_already d then (st, e, name @ '' already coaches '' @ label @ ''.'', ([], []))
           else (StartCoachingLocked sid name (dc_team d) (rq_listed r) st, e, name @ '' now coaches '' @ label @ ''.'',
                 (''coach.started_admin'', [(''name'', name), (''team'', label)])))"

definition CoachAdminCommand ::
  "(Msg \<Rightarrow> string) \<Rightarrow> Ctx \<Rightarrow> CoachCandidate list \<Rightarrow> int \<Rightarrow> int \<Rightarrow> string \<Rightarrow> string list \<Rightarrow> CoachState \<times> Engine \<Rightarrow> admin_result" where
  "CoachAdminCommand forLang c humans map_number swapCount sub args se =
     (let (st, e) = se; coach = (sub = ''coach'') in
      if args = [] \<or> (coach \<and> length args < 2) then
        (st, e, if coach then ''usage: ru match coach <player> team1|team2|ct|t'' else ''usage: ru match uncoach <player>'', ([], []))
      else
        case ResolveCoachPlayer (args ! 0) (filter (\<lambda>h. cc_steamid64 h \<noteq> 0) humans) of
          Inl err \<Rightarrow> (st, e, err @ ''.'', ([], []))
        | Inr sid \<Rightarrow>
            let name = name_of humans sid;
                se = (OnContextLocked c st, e);
                (st, e, reply, announce) =
                  (if \<not> coach then uncoach_admin c sid name se
                   else coach_admin forLang c map_number swapCount sid name (ParseCoachArg (args ! 1)) se)
            in (st\<lparr>cs_nextSync := 0\<rparr>, e, reply, announce))"

definition CoachTick :: "Ctx \<Rightarrow> CoachCandidate list \<Rightarrow> int \<Rightarrow> int \<Rightarrow> seconds \<Rightarrow> CoachState \<times> Engine \<Rightarrow> world" where
  "CoachTick c humans map_number swapCount now se =
     (let (st, e) = se in
      if now < cs_nextSync st then (st, e, no_out)
      else SyncLocked c humans map_number swapCount (st\<lparr>cs_nextSync := now + 1\<rparr>, e, no_out))"

datatype CoachEvent = Ev_MapStart | Ev_Disconnect u64 | Ev_Team u64

definition reset_told :: "Coach \<Rightarrow> Coach" where
  "reset_told co = co\<lparr>ch_effective := False, ch_hintedTeam := - 1\<rparr>"

definition CoachOnEvent :: "CoachEvent \<Rightarrow> CoachState \<Rightarrow> CoachState" where
  "CoachOnEvent ev st =
     (case ev of
        Ev_MapStart \<Rightarrow>
          st\<lparr>cs_cvarDirty := True, cs_written := [], cs_coaches := map (\<lambda>(sid, co). (sid, reset_told co)) (cs_coaches st),
             cs_nextSync := 0\<rparr>
      | Ev_Disconnect sid \<Rightarrow>
          if sid = 0 then st
          else
            let st = st\<lparr>cs_written := AList.delete sid (cs_written st)\<rparr>
            in (case map_of (cs_coaches st) sid of
                  None \<Rightarrow> st
                | Some co \<Rightarrow> st\<lparr>cs_coaches := AList.update sid (reset_told co) (cs_coaches st)\<rparr>)
      | Ev_Team sid \<Rightarrow>
          if sid \<noteq> 0 \<and> map_of (cs_coaches st) sid \<noteq> None then st\<lparr>cs_nextSync := 0\<rparr> else st)"

definition CoachAllowedOnServer :: "CoachState \<Rightarrow> u64 \<Rightarrow> bool" where
  "CoachAllowedOnServer st sid \<longleftrightarrow> map_of (cs_coaches st) sid \<noteq> None"

section \<open>The coaches by key, team and origin\<close>

text \<open>
  What the limits depend on: the key, the team and whether the coach is listed. The sync changes
  neither for a coach it keeps.
\<close>

definition shape :: "(u64 \<times> Coach) list \<Rightarrow> (u64 \<times> int \<times> bool) list" where
  "shape cs = map (\<lambda>(sid, co). (sid, ch_team co, ch_listed co)) cs"

abbreviation keys :: "CoachState \<Rightarrow> u64 set" where
  "keys st \<equiv> fst ` set (cs_coaches st)"

definition unlisted :: "bool \<Rightarrow> (u64 \<times> int \<times> bool) list \<Rightarrow> int" where
  "unlisted first sh = int (length (filter (\<lambda>(sid, t, l). \<not> l \<and> (t = 1) = first) sh))"

definition coach_inv :: "int \<Rightarrow> CoachState \<Rightarrow> bool" where
  "coach_inv L st \<longleftrightarrow> distinct (map fst (cs_coaches st)) \<and> (\<forall>first. unlisted first (shape (cs_coaches st)) \<le> L)"

lemma shape_Nil [simp]: "shape [] = []"
  by (simp add: shape_def)

lemma shape_keys [simp]: "map fst (shape cs) = map fst cs"
  by (simp add: shape_def case_prod_beta)

lemma shape_update: "shape (AList.update k co cs) = AList.update k (ch_team co, ch_listed co) (shape cs)"
  by (induction cs) (auto simp: shape_def)

lemma shape_delete: "shape (AList.delete k cs) = AList.delete k (shape cs)"
  by (induction cs) (auto simp: shape_def AList.delete_eq)

lemma map_of_shape: "map_of (shape cs) k = map_option (\<lambda>co. (ch_team co, ch_listed co)) (map_of cs k)"
  by (induction cs) (auto simp: shape_def)

lemma update_same: "map_of xs k = Some v \<Longrightarrow> AList.update k v xs = xs"
  by (induction xs) auto

lemma unlisted_delete: "unlisted first (AList.delete k sh) \<le> unlisted first sh"
  unfolding unlisted_def AList.delete_eq by (induction sh) auto

lemma update_absent: "k \<notin> fst ` set xs \<Longrightarrow> AList.update k v xs = xs @ [(k, v)]"
  by (induction xs) auto

lemma unlisted_update:
  "distinct (map fst sh) \<Longrightarrow>
   unlisted first (AList.update k (t, l) sh) =
   unlisted first (AList.delete k sh) + (if \<not> l \<and> (t = 1) = first then 1 else 0)"
proof (induction sh)
  case (Cons x sh)
  obtain k' v where x: "x = (k', v)" by (cases x)
  show ?case
  proof (cases "k' = k")
    case True
    with Cons.prems x have "AList.delete k sh = sh" by (intro delete_id) auto
    with True x show ?thesis by (simp add: unlisted_def AList.delete_eq)
  next
    case False
    with Cons x show ?thesis by (auto simp: unlisted_def AList.delete_eq)
  qed
qed (simp add: unlisted_def AList.delete_eq)

lemma other_coaches_shape: "other_coaches sid first st = unlisted first (AList.delete sid (shape (cs_coaches st)))"
proof -
  have "length (filter (\<lambda>kv. \<not> (fst kv = sid \<or> ch_listed (snd kv)) \<and> (ch_team (snd kv) = 1) = first) cs) =
        length (filter (\<lambda>(sid, t, l). \<not> l \<and> (t = 1) = first) (AList.delete sid (shape cs)))" for cs
    by (induction cs) (auto simp: shape_def AList.delete_eq)
  then show ?thesis by (simp add: other_coaches_def unlisted_def)
qed

section \<open>What each operation does to the coaches\<close>

lemma ClearField_coaches [simp]: "cs_coaches (fst (ClearFieldLocked sid w)) = cs_coaches (fst w)"
  "cs_optOut (fst (ClearFieldLocked sid w)) = cs_optOut (fst w)"
  "cs_cvarOn (fst (ClearFieldLocked sid w)) = cs_cvarOn (fst w)"
  "cs_ctxMatch (fst (ClearFieldLocked sid w)) = cs_ctxMatch (fst w)"
  by (simp_all add: ClearFieldLocked_def case_prod_beta Let_def split: option.split)

lemma ClearField_written: "cs_written (fst (ClearFieldLocked sid w)) = AList.delete sid (cs_written (fst w))"
  using delete_id [of sid "cs_written (fst w)"]
  by (auto simp: ClearFieldLocked_def case_prod_beta Let_def map_of_eq_None_iff split: option.split)

lemma fold_ClearField [simp]:
  "cs_coaches (fst (fold ClearFieldLocked sids w)) = cs_coaches (fst w)"
  "cs_cvarOn (fst (fold ClearFieldLocked sids w)) = cs_cvarOn (fst w)"
  "cs_optOut (fst (fold ClearFieldLocked sids w)) = cs_optOut (fst w)"
  by (induction sids arbitrary: w) simp_all

lemma fold_ClearField_written:
  "cs_written (fst (fold ClearFieldLocked sids w)) = filter (\<lambda>kv. fst kv \<notin> set sids) (cs_written (fst w))"
  by (induction sids arbitrary: w) (auto simp: ClearField_written AList.delete_eq intro!: filter_cong)

lemma drop_playing_one_coaches [simp]:
  "cs_coaches (fst (drop_playing_one sid w)) = AList.delete sid (cs_coaches (fst w))"
  "cs_optOut (fst (drop_playing_one sid w)) = cs_optOut (fst w)"
  by (cases w; simp add: drop_playing_one_def Let_def case_prod_beta)+

lemma fold_drop_playing:
  "cs_coaches (fst (fold drop_playing_one sids w)) = filter (\<lambda>kv. fst kv \<notin> set sids) (cs_coaches (fst w)) \<and>
   cs_optOut (fst (fold drop_playing_one sids w)) = cs_optOut (fst w)"
  by (induction sids arbitrary: w) (auto simp: AList.delete_eq intro!: filter_cong)

lemma drop_playing_coaches:
  "cs_coaches (fst (drop_playing c w)) = filter (\<lambda>kv. RosterTeam c (fst kv) = 0) (cs_coaches (fst w))"
  "cs_optOut (fst (drop_playing c w)) = cs_optOut (fst w)"
  unfolding drop_playing_def Let_def by (auto simp: fold_drop_playing intro!: filter_cong)

lemma add_listed_one_cases:
  "add_listed_one c humans kv st = st \<or>
   fst kv \<notin> keys st \<and> RosterTeam c (fst kv) = 0 \<and> fst kv \<notin> cs_optOut st \<and>
   (\<exists>nm. cs_coaches (add_listed_one c humans kv st) = cs_coaches st @ [(fst kv, new_coach (snd kv) True nm)])"
  by (auto simp: add_listed_one_def Let_def map_of_eq_None_iff update_absent)

lemma add_listed_one_optOut [simp]: "cs_optOut (add_listed_one c humans kv st) = cs_optOut st"
  by (simp add: add_listed_one_def Let_def)

lemma add_listed_one_inv: "coach_inv L st \<Longrightarrow> coach_inv L (add_listed_one c humans kv st)"
  using add_listed_one_cases [of c humans kv st]
  by (auto simp: coach_inv_def shape_def unlisted_def new_coach_def)

lemma fold_add_listed:
  "coach_inv L st \<Longrightarrow> coach_inv L (fold (add_listed_one c humans) kvs st)"
  by (induction kvs arbitrary: st) (auto intro: add_listed_one_inv)

lemma sync_coach_keeps:
  assumes "map_of (shape (cs_coaches (fst w))) (fst kv) = Some (ch_team (snd kv), ch_listed (snd kv))"
  shows "shape (cs_coaches (fst (sync_coach c humans t fb kv w))) = shape (cs_coaches (fst w))"
proof -
  obtain st e out where w: "w = (st, e, out)" by (cases w)
  have same: "shape (AList.update (fst kv) co (cs_coaches st)) = shape (cs_coaches st)"
    if "ch_team co = ch_team (snd kv)" "ch_listed co = ch_listed (snd kv)" for co
    using assms that by (simp add: shape_update update_same w)
  show ?thesis unfolding w sync_coach_def Let_def prod.case fst_conv snd_conv
    by (auto simp: same split: option.split if_split)
qed

lemma fold_sync_coach:
  assumes "\<forall>kv \<in> set kvs. map_of (shape (cs_coaches (fst w))) (fst kv) = Some (ch_team (snd kv), ch_listed (snd kv))"
  shows "shape (cs_coaches (fst (fold (sync_coach c humans t fb) kvs w))) = shape (cs_coaches (fst w))"
  using assms by (induction kvs arbitrary: w) (simp_all add: sync_coach_keeps)

lemma map_of_shape_own:
  "distinct (map fst cs) \<Longrightarrow> kv \<in> set cs \<Longrightarrow> map_of (shape cs) (fst kv) = Some (ch_team (snd kv), ch_listed (snd kv))"
  by (cases kv) (simp add: map_of_shape)

lemma sync_cvar_coaches [simp]: "cs_coaches (fst (sync_cvar u w)) = cs_coaches (fst w)"
  "cs_optOut (fst (sync_cvar u w)) = cs_optOut (fst w)"
  "cs_cvarOn (fst (sync_cvar u w)) \<longleftrightarrow> u \<and> cs_coaches (fst w) \<noteq> []"
  by (auto simp: sync_cvar_def Let_def case_prod_beta)

lemma coach_inv_shape:
  "shape (cs_coaches st) = shape (cs_coaches st') \<Longrightarrow> coach_inv L st \<longleftrightarrow> coach_inv L st'"
  unfolding coach_inv_def by (metis shape_keys)

lemma OnContext_inv: "0 \<le> L \<Longrightarrow> coach_inv L st \<Longrightarrow> coach_inv L (OnContextLocked c st)"
  by (auto simp: OnContextLocked_def Let_def coach_inv_def unlisted_def)

lemma coach_inv_filter:
  assumes "coach_inv L st" and "cs_coaches st' = filter P (cs_coaches st)"
  shows "coach_inv L st'"
proof -
  have "unlisted first (shape (filter P cs)) \<le> unlisted first (shape cs)" for first cs
    by (induction cs) (auto simp: unlisted_def shape_def)
  then have "unlisted first (shape (cs_coaches st')) \<le> L" for first
    using assms unfolding coach_inv_def by (metis order_trans)
  moreover have "distinct (map fst (cs_coaches st'))" using assms by (auto simp: coach_inv_def intro: distinct_map_filter)
  ultimately show ?thesis by (simp add: coach_inv_def)
qed

lemma drop_all_coaches [simp]: "cs_coaches (fst (drop_all w)) = []" "cs_optOut (fst (drop_all w)) = cs_optOut (fst w)"
  by (simp_all add: drop_all_def Let_def case_prod_beta)

lemma sync_members_inv:
  assumes "0 \<le> L" and "coach_inv L (fst w)"
  shows "coach_inv L (fst (sync_members c humans w))"
proof -
  obtain st e out where w: "w = (st, e, out)" by (cases w)
  define w1 where "w1 = (if cx_match c \<noteq> None then drop_playing c (OnContextLocked c st, e, out) else (OnContextLocked c st, e, out))"
  have "coach_inv L (OnContextLocked c st)" using assms by (simp add: w OnContext_inv)
  then have w1: "coach_inv L (fst w1)"
    using coach_inv_filter [OF _ drop_playing_coaches(1), of L "(OnContextLocked c st, e, out)"] by (simp add: w1_def)
  define w2 where "w2 = (case cx_match c of
      Some m \<Rightarrow> if usable c e then (fold (add_listed_one c humans) (mc_coach_team m) (fst w1), snd w1) else w1
    | None \<Rightarrow> w1)"
  have w2: "coach_inv L (fst w2)" using w1 by (simp add: w2_def fold_add_listed split: option.split)
  have "sync_members c humans w = (if \<not> usable c e \<and> (\<not> cx_possible c \<or> \<not> cx_admitted c) then drop_all w2 else w2)"
    unfolding sync_members_def w w1_def w2_def Let_def prod.case ..
  with w2 assms(1) show ?thesis by (simp add: coach_inv_def unlisted_def)
qed

lemma SyncLocked_shape:
  assumes "distinct (map fst (cs_coaches (fst (sync_members c humans w))))"
  shows "shape (cs_coaches (fst (SyncLocked c humans n k w))) = shape (cs_coaches (fst (sync_members c humans w)))"
proof -
  define w1 where "w1 = sync_cvar (usable c (fst (snd w))) (sync_members c humans w)"
  have "shape (cs_coaches (fst (fold (sync_coach c humans t fb) (cs_coaches (fst w1)) w1))) = shape (cs_coaches (fst w1))" for t fb
    using assms by (intro fold_sync_coach ballI) (simp add: w1_def map_of_shape_own split_beta)
  then show ?thesis
    unfolding SyncLocked_def Let_def w1_def [symmetric] by (simp add: clear_stale_def Let_def) (simp add: w1_def)
qed

lemma SyncLocked_inv:
  assumes "0 \<le> L" and "coach_inv L (fst w)"
  shows "coach_inv L (fst (SyncLocked c humans n k w))"
proof -
  have inv: "coach_inv L (fst (sync_members c humans w))" by (rule sync_members_inv [OF assms])
  then have "distinct (map fst (cs_coaches (fst (sync_members c humans w))))" by (simp add: coach_inv_def)
  from coach_inv_shape [OF SyncLocked_shape [OF this]] inv show ?thesis by simp
qed

section \<open>The limit on coaches who are not listed\<close>

text \<open>A player who is told to start is listed, or the team still has room.\<close>

lemma start_inv:
  assumes inv: "coach_inv L st" and L: "0 < L" "cx_limit c = L"
    and d: "dc_ok (DecideCoach (BuildRequestLocked c e n k sid arg adm st) n1 n2)"
      "\<not> dc_already (DecideCoach (BuildRequestLocked c e n k sid arg adm st) n1 n2)"
  shows "coach_inv L (StartCoachingLocked sid nm (dc_team (DecideCoach (BuildRequestLocked c e n k sid arg adm st) n1 n2))
           (rq_listed (BuildRequestLocked c e n k sid arg adm st)) st)"
proof -
  define rq where "rq = BuildRequestLocked c e n k sid arg adm st"
  let ?t = "coach_target rq"
  have t: "?t = 1 \<or> ?t = 2" using d(1) DecideCoach_ok_iff [of rq n1 n2] coach_target_range [of rq] by (auto simp: rq_def)
  have team: "dc_team (DecideCoach rq n1 n2) = ?t" using d DecideCoach_ok [of rq n1 n2] by (simp add: rq_def)
  have sh: "distinct (map fst (shape (cs_coaches st)))" using inv by (simp add: coach_inv_def)
  have others: "other_coaches sid (?t = 1) st < L" if "\<not> rq_listed rq"
  proof -
    have "(if ?t = 1 then rq_coaches_team1 rq else rq_coaches_team2 rq) < L"
      using d that L DecideCoach_ok_iff [of rq n1 n2] DecideCoach_ok(2) [of rq n1 n2]
      by (auto simp: rq_def [symmetric] listed_for_def) (auto simp: rq_def BuildRequestLocked_def)
    then show ?thesis by (cases "?t = 1") (simp_all add: rq_def BuildRequestLocked_def)
  qed
  have "unlisted first (AList.update sid (?t, rq_listed rq) (shape (cs_coaches st))) \<le> L" for first
    using others unlisted_delete [of first sid "shape (cs_coaches st)"] inv
    by (auto simp: unlisted_update [OF sh] other_coaches_shape coach_inv_def intro: order_trans)
  then show ?thesis
    using inv team unfolding rq_def [symmetric] team
    by (simp add: coach_inv_def StartCoachingLocked_def shape_update new_coach_def distinct_update)
qed

lemma stop_coaching_coaches:
  "cs_coaches (fst (stop_coaching c sid w)) = AList.delete sid (cs_coaches (fst w))"
  by (cases w) (simp add: stop_coaching_def Let_def)

lemma coach_inv_delete:
  "coach_inv L st \<Longrightarrow> cs_coaches st' = AList.delete sid (cs_coaches st) \<Longrightarrow> coach_inv L st'"
  unfolding AList.delete_eq by (rule coach_inv_filter)

lemma coach_inv_cong: "cs_coaches st' = cs_coaches st \<Longrightarrow> coach_inv L st' \<longleftrightarrow> coach_inv L st"
  by (simp add: coach_inv_def)

lemma chat_inv:
  assumes "coach_inv L st" and "0 < L" and "cx_limit c = L"
  shows "coach_inv L (fst (CoachChatCommand c n k sid nm line slot (st, e)))"
proof -
  define st1 where "st1 = OnContextLocked c st"
  have st1: "coach_inv L st1" using assms by (simp add: st1_def OnContext_inv)
  have un: "coach_inv L (fst (uncoach_chat c sid nm sl (st1, e, no_out)))" for sl
    using st1 coach_inv_delete [OF st1 stop_coaching_coaches [of c sid "(st1, e, no_out)", simplified]]
    by (auto simp: uncoach_chat_def Let_def case_prod_beta split: option.split)
  have co: "coach_inv L (fst (coach_chat c n k sid nm arg sl (st1, e, no_out)))" for arg sl
    using st1 start_inv [OF st1 assms(2,3)] unfolding coach_chat_def Let_def prod.case by (simp split: if_split)
  show ?thesis
    unfolding CoachChatCommand_def Let_def prod.case st1_def [symmetric]
    using un co assms(1) by (simp add: case_prod_beta coach_inv_cong [of "_\<lparr>cs_nextSync := 0\<rparr>"])
qed

lemma admin_inv:
  assumes "coach_inv L st" and "0 < L" and "cx_limit c = L"
  shows "coach_inv L (fst (CoachAdminCommand fl c humans n k sub args (st, e)))"
proof -
  define st1 where "st1 = OnContextLocked c st"
  have st1: "coach_inv L st1" using assms by (simp add: st1_def OnContext_inv)
  have un: "coach_inv L (fst (uncoach_admin c sid nm (st1, e)))" for sid nm
    using st1 coach_inv_delete [OF st1 stop_coaching_coaches [of c sid "(st1, e, no_out)", simplified]]
    by (auto simp: uncoach_admin_def Let_def case_prod_beta split: option.split)
  have co: "coach_inv L (fst (coach_admin fl c n k sid nm arg (st1, e)))" for sid arg nm
    using st1 start_inv [OF st1 assms(2,3)] unfolding coach_admin_def Let_def prod.case by (simp split: if_split)
  show ?thesis
    unfolding CoachAdminCommand_def Let_def prod.case st1_def [symmetric]
    using un co assms(1)
    by (simp add: case_prod_beta coach_inv_cong [of "_\<lparr>cs_nextSync := 0\<rparr>"] split: sum.split)
qed

lemma event_inv: "coach_inv L st \<Longrightarrow> coach_inv L (CoachOnEvent ev st)"
proof -
  assume inv: "coach_inv L st"
  have sh: "shape (map (\<lambda>(sid, co). (sid, reset_told co)) cs) = shape cs" for cs
    by (auto simp: shape_def reset_told_def)
  have up: "shape (AList.update sid (reset_told co) cs) = shape cs" if "map_of cs sid = Some co" for sid co cs
    using that by (simp add: shape_update map_of_shape update_same reset_told_def)
  have "shape (cs_coaches (CoachOnEvent ev st)) = shape (cs_coaches st)"
    by (auto simp: CoachOnEvent_def Let_def sh up split: CoachEvent.split option.split)
  with inv coach_inv_shape show ?thesis by blast
qed

text \<open>The operations of the module, in any order; the engine changes in between as it likes.\<close>

datatype CoachOp =
  Op_Chat Ctx int int u64 string string int
| Op_Admin Ctx "CoachCandidate list" int int string "string list"
| Op_Tick Ctx "CoachCandidate list" int int seconds
| Op_Event CoachEvent
| Op_Engine Engine

fun coach_step :: "(Msg \<Rightarrow> string) \<Rightarrow> CoachOp \<Rightarrow> CoachState \<times> Engine \<Rightarrow> CoachState \<times> Engine" where
  "coach_step fl (Op_Chat c n k sid nm line slot) se = (let (st, e, out) = CoachChatCommand c n k sid nm line slot se in (st, e))"
| "coach_step fl (Op_Admin c humans n k sub args) se = (let (st, e, r) = CoachAdminCommand fl c humans n k sub args se in (st, e))"
| "coach_step fl (Op_Tick c humans n k now) se = (let (st, e, out) = CoachTick c humans n k now se in (st, e))"
| "coach_step fl (Op_Event ev) se = (CoachOnEvent ev (fst se), snd se)"
| "coach_step fl (Op_Engine e) se = (fst se, e)"

fun op_limit :: "int \<Rightarrow> CoachOp \<Rightarrow> bool" where
  "op_limit L (Op_Chat c n k sid nm line slot) \<longleftrightarrow> cx_limit c = L"
| "op_limit L (Op_Admin c humans n k sub args) \<longleftrightarrow> cx_limit c = L"
| "op_limit L (Op_Tick c humans n k now) \<longleftrightarrow> cx_limit c = L"
| "op_limit L (Op_Event ev) \<longleftrightarrow> True"
| "op_limit L (Op_Engine e) \<longleftrightarrow> True"

lemma tick_inv:
  "0 < L \<Longrightarrow> coach_inv L st \<Longrightarrow> coach_inv L (fst (CoachTick c humans n k now (st, e)))"
  using SyncLocked_inv [of L "(st\<lparr>cs_nextSync := now + 1\<rparr>, e, no_out)" c humans n k]
  by (simp add: CoachTick_def coach_inv_cong [of "st\<lparr>cs_nextSync := now + 1\<rparr>"])

interpretation coaching: machine "coach_step fl" "\<lambda>op. 0 < L \<and> op_limit L op" "\<lambda>se. coach_inv L (fst se)" for fl L
proof
  fix se :: "CoachState \<times> Engine" and op
  assume inv: "coach_inv L (fst se)" and ok: "0 < L \<and> op_limit L op"
  obtain st e where se: "se = (st, e)" by (cases se)
  show "coach_inv L (fst (coach_step fl op se))"
    using inv ok chat_inv [of L st] admin_inv [of L st] tick_inv [of L st] event_inv [of L st]
    by (cases op) (simp_all add: se case_prod_beta Let_def)
qed

text \<open>
  C13: However players and admins use the coach commands, whatever the match config lists and however
  often the sync runs, a team never has more coaches who are not listed than the limit of the
  match, and nobody coaches twice.
\<close>

theorem coach_limit_holds:
  assumes "0 < L" and "list_all (op_limit L) ops"
  shows "let st = fst (fold (coach_step fl) ops (CoachState_init, e)) in
         distinct (map fst (cs_coaches st)) \<and> unlisted first (shape (cs_coaches st)) \<le> L"
proof -
  have "coach_inv L (fst (CoachState_init, e))"
    using assms(1) by (simp add: coach_inv_def CoachState_init_def unlisted_def)
  moreover have "list_all (\<lambda>op. 0 < L \<and> op_limit L op) ops" using assms by (simp add: list_all_iff)
  ultimately have "coach_inv L (fst (fold (coach_step fl) ops (CoachState_init, e)))" by (rule coaching.inv_run)
  then show ?thesis by (simp add: coach_inv_def Let_def)
qed

section \<open>What the sync leaves behind\<close>

lemma keys_shape: "fst ` set cs = fst ` set (shape cs)"
  by (metis list.set_map shape_keys)

lemma fold_add_listed_keys:
  "fst ` set (cs_coaches (fold (add_listed_one c humans) kvs st)) =
   keys st \<union> {sid \<in> fst ` set kvs. RosterTeam c sid = 0 \<and> sid \<notin> cs_optOut st}"
proof (induction kvs arbitrary: st)
  case (Cons kv kvs)
  have one: "keys (add_listed_one c humans kv st) =
      keys st \<union> (if RosterTeam c (fst kv) = 0 \<and> fst kv \<notin> cs_optOut st then {fst kv} else {})"
    by (auto simp: add_listed_one_def Let_def map_of_eq_None_iff dom_update)
  show ?case unfolding fold_simps comp_def Cons.IH one by auto
qed simp

lemma sync_members_keys:
  assumes "usable c (fst (snd w))" and "cx_match c = Some m"
  shows "keys (fst (sync_members c humans w)) =
         {sid \<in> keys (OnContextLocked c (fst w)). RosterTeam c sid = 0} \<union>
         {sid \<in> fst ` set (mc_coach_team m). RosterTeam c sid = 0 \<and> sid \<notin> cs_optOut (OnContextLocked c (fst w))}"
proof -
  obtain st e out where w: "w = (st, e, out)" by (cases w)
  show ?thesis
    using assms
    by (auto simp: w sync_members_def Let_def usable_def fold_add_listed_keys drop_playing_coaches)
qed

lemma sync_coach_frame [simp]:
  "cs_cvarOn (fst (sync_coach c humans t fb kv w)) = cs_cvarOn (fst w)"
  "cs_optOut (fst (sync_coach c humans t fb kv w)) = cs_optOut (fst w)"
  unfolding sync_coach_def Let_def case_prod_beta by (simp_all split: option.split if_split)

lemma fold_sync_coach_frame [simp]:
  "cs_cvarOn (fst (fold (sync_coach c humans t fb) kvs w)) = cs_cvarOn (fst w)"
  by (induction kvs arbitrary: w) simp_all

lemma SyncLocked_cvar:
  "cs_cvarOn (fst (SyncLocked c humans n k w)) \<longleftrightarrow>
     usable c (fst (snd w)) \<and> cs_coaches (fst (sync_members c humans w)) \<noteq> []"
  by (simp add: SyncLocked_def Let_def clear_stale_def)

lemma clear_stale_written: "fst ` set (cs_written (fst (clear_stale w))) \<subseteq> keys (fst (clear_stale w))"
  by (auto simp: clear_stale_def Let_def fold_ClearField_written map_of_eq_None_iff)

lemma sync_members_blocked:
  "\<not> cx_possible c \<or> \<not> cx_admitted c \<Longrightarrow> cs_coaches (fst (sync_members c humans w)) = []"
  by (cases w) (auto simp: sync_members_def Let_def usable_def)

lemma sync_members_distinct:
  assumes "distinct (map fst (cs_coaches (fst w)))"
  shows "distinct (map fst (cs_coaches (fst (sync_members c humans w))))"
proof -
  define L where "L = max 0 (max (unlisted True (shape (cs_coaches (fst w)))) (unlisted False (shape (cs_coaches (fst w)))))"
  have "unlisted first (shape (cs_coaches (fst w))) \<le> L" for first by (cases first) (simp_all add: L_def)
  then have "coach_inv L (fst w)" using assms by (simp add: coach_inv_def)
  then show ?thesis using sync_members_inv [of L w c humans] by (simp add: L_def coach_inv_def)
qed

text \<open>
  After every sync: without a match or the ruleset's admission nobody coaches; during a match no
  rostered player coaches; every listed coach with a team who neither plays nor opted out
  coaches; \<open>sv_coaching_enabled\<close> is on exactly while somebody can coach; and the players whose
  field Ready Up still owns are all coaches.
\<close>

theorem sync_establishes_coaches:
  assumes distinct: "distinct (map fst (cs_coaches st))"
  shows "let (st', e', out') = SyncLocked c humans n k (st, e, out) in
         (\<not> cx_possible c \<or> \<not> cx_admitted c \<longrightarrow> cs_coaches st' = []) \<and>
         (\<forall>m. cx_match c = Some m \<and> usable c e \<longrightarrow>
            keys st' = {sid \<in> keys (OnContextLocked c st). RosterTeam c sid = 0} \<union>
                       {sid \<in> fst ` set (mc_coach_team m).
                          RosterTeam c sid = 0 \<and> sid \<notin> cs_optOut (OnContextLocked c st)}) \<and>
         (cs_cvarOn st' \<longleftrightarrow> usable c e \<and> cs_coaches st' \<noteq> []) \<and>
         fst ` set (cs_written st') \<subseteq> keys st'"
proof -
  let ?w = "(st, e, out)"
  have sh: "shape (cs_coaches (fst (SyncLocked c humans n k ?w))) = shape (cs_coaches (fst (sync_members c humans ?w)))"
    by (intro SyncLocked_shape sync_members_distinct) (simp add: distinct)
  have keys: "keys (fst (SyncLocked c humans n k ?w)) = keys (fst (sync_members c humans ?w))"
    unfolding keys_shape sh ..
  have empty: "cs_coaches (fst (SyncLocked c humans n k ?w)) = [] \<longleftrightarrow> cs_coaches (fst (sync_members c humans ?w)) = []"
    using arg_cong [OF sh, of length] by (simp only: shape_def length_map flip: length_0_conv)
  have written: "fst ` set (cs_written (fst (SyncLocked c humans n k ?w))) \<subseteq> keys (fst (SyncLocked c humans n k ?w))"
    unfolding SyncLocked_def Let_def by (rule clear_stale_written)
  have members: "keys (fst (SyncLocked c humans n k ?w)) =
      {sid \<in> keys (OnContextLocked c st). RosterTeam c sid = 0} \<union>
      {sid \<in> fst ` set (mc_coach_team m). RosterTeam c sid = 0 \<and> sid \<notin> cs_optOut (OnContextLocked c st)}"
    if "cx_match c = Some m" "usable c e" for m
    unfolding keys using sync_members_keys [of c ?w m humans] that by simp
  have blocked: "cs_coaches (fst (SyncLocked c humans n k ?w)) = []" if "\<not> cx_possible c \<or> \<not> cx_admitted c"
    unfolding empty by (rule sync_members_blocked [OF that])
  have cvar: "cs_cvarOn (fst (SyncLocked c humans n k ?w)) \<longleftrightarrow> usable c e \<and> cs_coaches (fst (SyncLocked c humans n k ?w)) \<noteq> []"
    unfolding empty SyncLocked_cvar by simp
  show ?thesis
    unfolding Let_def case_prod_beta using blocked members cvar written by blast
qed

section \<open>The engine field\<close>

text \<open>
  The part of the engine the module only reads, and the engine's promise that two connected players
  have different slots.
\<close>

definition frame :: "Engine \<Rightarrow> bool \<times> (u64 \<Rightarrow> int) \<times> (int \<Rightarrow> bool) \<times> (int \<Rightarrow> int)" where
  "frame e = (en_resolved e, en_slot e, en_ctrl e, en_team e)"

definition slots_unique :: "Engine \<Rightarrow> bool" where
  "slots_unique e \<longleftrightarrow> (\<forall>a b s. SlotOf e a = Some s \<longrightarrow> SlotOf e b = Some s \<longrightarrow> a = b)"

abbreviation eng :: "world \<Rightarrow> Engine" where "eng w \<equiv> fst (snd w)"

definition at_slot :: "Engine \<Rightarrow> u64 \<Rightarrow> int \<Rightarrow> bool" where
  "at_slot e sid s \<longleftrightarrow> SlotOf e sid = Some s \<and> ControllerOf e s = Some s"

lemma frame_eq:
  assumes "frame e = frame e'"
  shows "SlotOf e = SlotOf e'" "ControllerOf e = ControllerOf e'" "en_resolved e = en_resolved e'" "en_team e = en_team e'"
    "at_slot e = at_slot e'"
  using assms by (auto simp: frame_def SlotOf_def ControllerOf_def at_slot_def fun_eq_iff)

lemma frame_Tally: "frame e = frame e' \<Longrightarrow> Tally c e = Tally c e'"
proof -
  assume f: "frame e = frame e'"
  have "EngineTeamOf e = EngineTeamOf e'" by (simp add: EngineTeamOf_def fun_eq_iff frame_eq [OF f] split: option.split)
  then have "tally_player e = tally_player e'" by (simp add: tally_player_def fun_eq_iff)
  then show ?thesis using frame_eq(3) [OF f] by (simp add: Tally_def Let_def split: option.split)
qed

lemma frame_Write [simp]: "frame (WriteCoaching ctrl v e) = frame e"
  by (simp add: WriteCoaching_def frame_def)

lemma coaching_Write [simp]: "en_coaching (WriteCoaching ctrl v e) s = (if s = ctrl then v else en_coaching e s)"
  by (simp add: WriteCoaching_def)

lemma ControllerOf_Some: "ControllerOf e s = Some t \<Longrightarrow> t = s"
  by (auto simp: ControllerOf_def split: if_splits)

lemma ClearField_frame [simp]: "frame (eng (ClearFieldLocked sid w)) = frame (eng w)"
  by (auto simp: ClearFieldLocked_def case_prod_beta Let_def split: option.split)

lemma ClearField_coaching:
  "en_coaching (eng (ClearFieldLocked sid w)) s =
     (if sid \<in> fst ` set (cs_written (fst w)) \<and> en_resolved (eng w) \<and> at_slot (eng w) sid s then 0 else en_coaching (eng w) s)"
proof (cases "map_of (cs_written (fst w)) sid")
  case None
  then have "sid \<notin> fst ` set (cs_written (fst w))" by (simp add: map_of_eq_None_iff)
  with None show ?thesis by (simp add: ClearFieldLocked_def case_prod_beta)
next
  case (Some v)
  then have "sid \<in> fst ` set (cs_written (fst w))" using map_of_SomeD by (force simp: image_iff)
  with Some show ?thesis
    by (auto simp: ClearFieldLocked_def case_prod_beta Let_def at_slot_def dest: ControllerOf_Some split: option.split)
qed

lemma fold_ClearField_frame [simp]: "frame (eng (fold ClearFieldLocked sids w)) = frame (eng w)"
  by (induction sids arbitrary: w) simp_all

lemma fold_ClearField_coaching:
  "en_coaching (eng (fold ClearFieldLocked sids w)) s =
     (if en_resolved (eng w) \<and> (\<exists>sid \<in> set sids. sid \<in> fst ` set (cs_written (fst w)) \<and> at_slot (eng w) sid s)
      then 0 else en_coaching (eng w) s)"
proof (induction sids arbitrary: w)
  case (Cons sid sids)
  have f: "frame (eng (ClearFieldLocked sid w)) = frame (eng w)" by simp
  have wr: "fst ` set (cs_written (fst (ClearFieldLocked sid w))) = fst ` set (cs_written (fst w)) - {sid}"
    by (auto simp: ClearField_written AList.delete_eq)
  show ?case
    unfolding fold_simps comp_def Cons.IH wr frame_eq(3,5) [OF f] ClearField_coaching by auto
qed simp

lemma drop_playing_one_eng:
  "eng (drop_playing_one sid w) = eng (ClearFieldLocked sid w)"
  "cs_written (fst (drop_playing_one sid w)) = AList.delete sid (cs_written (fst w))"
proof -
  obtain st e out where w: "w = (st, e, out)" by (cases w)
  have "eng (ClearFieldLocked sid (st, e, o1)) = eng (ClearFieldLocked sid (st, e, o2))" for o1 o2
    by (simp add: ClearFieldLocked_def Let_def split: option.split)
  then show "eng (drop_playing_one sid w) = eng (ClearFieldLocked sid w)"
    unfolding w drop_playing_one_def Let_def prod.case by (simp add: case_prod_beta)
  show "cs_written (fst (drop_playing_one sid w)) = AList.delete sid (cs_written (fst w))"
    unfolding w drop_playing_one_def Let_def prod.case by (simp add: case_prod_beta ClearField_written)
qed

lemma fold_drop_playing_eng:
  "frame (eng (fold drop_playing_one sids w)) = frame (eng w)"
  "fst ` set (cs_written (fst (fold drop_playing_one sids w))) = fst ` set (cs_written (fst w)) - set sids"
  "en_coaching (eng (fold drop_playing_one sids w)) s =
     (if en_resolved (eng w) \<and> (\<exists>sid \<in> set sids. sid \<in> fst ` set (cs_written (fst w)) \<and> at_slot (eng w) sid s)
      then 0 else en_coaching (eng w) s)"
proof (induction sids arbitrary: w)
  case (Cons sid sids)
  have f: "frame (eng (drop_playing_one sid w)) = frame (eng w)" for w by (simp add: drop_playing_one_eng)
  have wr: "fst ` set (cs_written (fst (drop_playing_one sid w))) = fst ` set (cs_written (fst w)) - {sid}" for w
    by (auto simp: drop_playing_one_eng AList.delete_eq)
  { case 1 show ?case using Cons.IH(1) f by simp }
  { case 2 show ?case unfolding fold_simps comp_def Cons.IH(2) wr by auto }
  { case 3
    show ?case
      unfolding fold_simps comp_def Cons.IH(3) wr frame_eq(3,5) [OF f] unfolding drop_playing_one_eng(1) ClearField_coaching by auto }
qed simp_all

lemma sync_coach_eng:
  "frame (eng (sync_coach c humans t fb kv w)) = frame (eng w)"
  "en_coaching (eng (sync_coach c humans t fb kv w)) s =
     (if at_slot (eng w) (fst kv) s \<and> en_team (eng w) s = 1
      then CoachingSide (ch_team (snd kv)) t (en_coaching (eng w) s) fb else en_coaching (eng w) s)"
  "fst ` set (cs_written (fst w)) \<subseteq> fst ` set (cs_written (fst (sync_coach c humans t fb kv w)))"
proof -
  obtain st e out where w: "w = (st, e, out)" by (cases w)
  obtain sid co where kv: "kv = (sid, co)" by (cases kv)
  show "frame (eng (sync_coach c humans t fb kv w)) = frame (eng w)"
    unfolding w kv sync_coach_def Let_def prod.case by (simp split: option.split)
  show "en_coaching (eng (sync_coach c humans t fb kv w)) s =
     (if at_slot (eng w) (fst kv) s \<and> en_team (eng w) s = 1
      then CoachingSide (ch_team (snd kv)) t (en_coaching (eng w) s) fb else en_coaching (eng w) s)"
    unfolding w kv sync_coach_def Let_def prod.case at_slot_def
    by (auto dest: ControllerOf_Some split: option.split)
  show "fst ` set (cs_written (fst w)) \<subseteq> fst ` set (cs_written (fst (sync_coach c humans t fb kv w)))"
    unfolding w kv sync_coach_def Let_def prod.case by (auto simp: dom_update split: option.split)
qed

lemma fold_sync_coach_frame_eng:
  "frame (eng (fold (sync_coach c humans t fb) kvs w)) = frame (eng w)"
  "fst ` set (cs_written (fst w)) \<subseteq> fst ` set (cs_written (fst (fold (sync_coach c humans t fb) kvs w)))"
proof (induction kvs arbitrary: w)
  case (Cons kv kvs)
  { case (1 w) show ?case using Cons.IH(1) sync_coach_eng(1) by simp }
  { case (2 w)
    show ?case using Cons.IH(2) [of "sync_coach c humans t fb kv w"] sync_coach_eng(3) [of w c humans t fb kv] by simp }
qed simp_all

lemma fold_sync_coach_other:
  "(\<And>sid. at_slot (eng w) sid s \<Longrightarrow> sid \<notin> fst ` set kvs) \<Longrightarrow>
   en_coaching (eng (fold (sync_coach c humans t fb) kvs w)) s = en_coaching (eng w) s"
proof (induction kvs arbitrary: w)
  case (Cons kv kvs)
  let ?w = "sync_coach c humans t fb kv w"
  have "\<not> at_slot (eng w) (fst kv) s" using Cons.prems [of "fst kv"] by auto
  then have "en_coaching (eng ?w) s = en_coaching (eng w) s" using sync_coach_eng(2) [of c humans t fb kv w s] by simp
  moreover have "en_coaching (eng (fold (sync_coach c humans t fb) kvs ?w)) s = en_coaching (eng ?w) s"
    using Cons.prems frame_eq(5) [OF sync_coach_eng(1) [of c humans t fb kv w]] by (intro Cons.IH) auto
  ultimately show ?case by simp
qed simp

lemma fold_sync_coach_own:
  "slots_unique (eng w) \<Longrightarrow> distinct (map fst kvs) \<Longrightarrow> (sid, co) \<in> set kvs \<Longrightarrow> at_slot (eng w) sid s \<Longrightarrow>
   en_team (eng w) s = 1 \<Longrightarrow>
   en_coaching (eng (fold (sync_coach c humans t fb) kvs w)) s = CoachingSide (ch_team co) t (en_coaching (eng w) s) fb"
proof (induction kvs arbitrary: w)
  case (Cons kv kvs)
  let ?w = "sync_coach c humans t fb kv w"
  have f: "frame (eng ?w) = frame (eng w)" by (rule sync_coach_eng(1))
  have only: "sid' = sid" if "at_slot (eng w) sid' s" for sid'
    using that Cons.prems(1,4) by (auto simp: at_slot_def slots_unique_def)
  show ?case
  proof (cases "kv = (sid, co)")
    case True
    have "en_coaching (eng (fold (sync_coach c humans t fb) kvs ?w)) s = en_coaching (eng ?w) s"
    proof (rule fold_sync_coach_other)
      fix sid' assume "at_slot (eng ?w) sid' s"
      then have "sid' = sid" using only by (simp add: frame_eq(5) [OF f])
      then show "sid' \<notin> fst ` set kvs" using Cons.prems(2) True by auto
    qed
    then show ?thesis using Cons.prems(4,5) True sync_coach_eng(2) [of c humans t fb kv w s] by simp
  next
    case False
    with Cons.prems have in_kvs: "(sid, co) \<in> set kvs" by auto
    then have "sid \<in> fst ` set kvs" by (metis fst_conv image_eqI)
    then have "fst kv \<noteq> sid" using Cons.prems(2) by auto
    then have "\<not> at_slot (eng w) (fst kv) s" using only by blast
    then have "en_coaching (eng ?w) s = en_coaching (eng w) s" using sync_coach_eng(2) [of c humans t fb kv w s] by simp
    moreover have "slots_unique (eng ?w)" using Cons.prems(1) by (simp add: slots_unique_def frame_eq [OF f])
    ultimately show ?thesis using Cons.IH [of ?w] Cons.prems in_kvs by (simp add: frame_eq [OF f])
  qed
qed simp

text \<open>The engine after the first half of a sync that can coach.\<close>

lemma sync_members_eng:
  fixes humans :: "CoachCandidate list" and st :: CoachState and out :: Out
  assumes u: "usable c e" and su: "slots_unique e"
  defines "w' \<equiv> sync_members c humans (st, e, out)"
  shows "frame (eng w') = frame e"
    and "sid \<in> keys (fst w') \<Longrightarrow> at_slot e sid s \<Longrightarrow> en_coaching (eng w') s = en_coaching e s"
    and "sid \<in> fst ` set (cs_written st) \<Longrightarrow> sid \<in> fst ` set (cs_written (fst w')) \<or>
           (\<forall>s. at_slot e sid s \<longrightarrow> en_coaching (eng w') s = 0)"
proof -
  define st1 where "st1 = OnContextLocked c st"
  have wr1: "cs_written st1 = cs_written st" by (simp add: st1_def OnContextLocked_def Let_def)
  define playing where "playing = (if cx_match c = None then [] else filter (\<lambda>sid. RosterTeam c sid \<noteq> 0) (map fst (cs_coaches st1)))"
  define w1 where "w1 = fold drop_playing_one playing (st1, e, out)"
  have w1: "w1 = (if cx_match c \<noteq> None then drop_playing c (st1, e, out) else (st1, e, out))"
    by (auto simp: w1_def playing_def drop_playing_def Let_def)
  have sm: "w' = (case cx_match c of
      Some m \<Rightarrow> (fold (add_listed_one c humans) (mc_coach_team m) (fst w1), snd w1) | None \<Rightarrow> w1)"
    using u unfolding w'_def sync_members_def Let_def prod.case st1_def [symmetric] w1 [symmetric] by (simp add: usable_def split: option.split)
  have eng: "eng w' = eng w1" by (simp add: sm split: option.split)
  have wr_add: "cs_written (fold (add_listed_one c humans) kvs s0) = cs_written s0" for kvs s0
    by (induction kvs arbitrary: s0) (simp_all add: add_listed_one_def Let_def)
  have wr: "cs_written (fst w') = cs_written (fst w1)"
    by (simp add: sm wr_add split: option.split)
  have res: "en_resolved e" using u by (simp add: usable_def)
  show "frame (eng w') = frame e" unfolding eng w1_def fold_drop_playing_eng(1) by simp
  have field: "en_coaching (eng w') s =
      (if \<exists>q \<in> set playing. q \<in> fst ` set (cs_written st) \<and> at_slot e q s then 0 else en_coaching e s)" for s
    unfolding eng w1_def fold_drop_playing_eng(3) by (auto simp: res wr1)
  show "en_coaching (eng w') s = en_coaching e s" if k: "sid \<in> keys (fst w')" and a: "at_slot e sid s"
  proof -
    have "q \<noteq> sid" if q: "q \<in> set playing" for q
    proof (cases "cx_match c")
      case (Some m)
      have "RosterTeam c sid = 0" using k sync_members_keys [of c "(st, e, out)" m humans] u Some by (auto simp: w'_def)
      then show ?thesis using q Some by (auto simp: playing_def)
    qed (use q in \<open>simp add: playing_def\<close>)
    then have "\<not> (\<exists>q \<in> set playing. q \<in> fst ` set (cs_written st) \<and> at_slot e q s)"
      using a su by (auto simp: at_slot_def slots_unique_def)
    then show ?thesis unfolding field by (rule if_not_P)
  qed
  show "sid \<in> fst ` set (cs_written (fst w')) \<or> (\<forall>s. at_slot e sid s \<longrightarrow> en_coaching (eng w') s = 0)"
    if "sid \<in> fst ` set (cs_written st)"
    using that unfolding wr w1_def fold_drop_playing_eng(2) by (cases "sid \<in> set playing") (auto simp: wr1 field)
qed

text \<open>
  After a sync of a match that admits coaches, the engine field of every coach who is a spectator
  is the side of the team they coach; and whoever Ready Up had set the field on and does not coach
  any more has it cleared, if still connected.
\<close>

theorem sync_sets_engine_field:
  assumes u: "usable c e" and su: "slots_unique e" and distinct: "distinct (map fst (cs_coaches st))"
  shows "let (st', e', out') = SyncLocked c humans n k (st, e, out) in
         (\<forall>sid co s. map_of (cs_coaches st') sid = Some co \<and> at_slot e sid s \<and> en_team e s = 1 \<longrightarrow>
            en_coaching e' s = CoachingSide (ch_team co) (Tally c e) (en_coaching e s) (FallbackTeam1IsCt c n k)) \<and>
         (\<forall>sid s. sid \<in> fst ` set (cs_written st) \<and> map_of (cs_coaches st') sid = None \<and> at_slot e sid s \<longrightarrow>
            en_coaching e' s = 0)"
proof -
  define wm where "wm = sync_members c humans (st, e, out)"
  define wc where "wc = sync_cvar True wm"
  define wf where "wf = fold (sync_coach c humans (Tally c e) (FallbackTeam1IsCt c n k)) (cs_coaches (fst wc)) wc"
  note members = sync_members_eng [OF u su, where humans = humans and st = st and out = out, folded wm_def]
  have wc: "cs_coaches (fst wc) = cs_coaches (fst wm)" "eng wc = eng wm" "cs_written (fst wc) = cs_written (fst wm)"
    by (simp_all add: wc_def) (simp_all add: sync_cvar_def Let_def case_prod_beta)
  have fm: "frame (eng wc) = frame e" using members(1) by (simp add: wc)
  have "Tally c (eng wc) = Tally c e" by (rule frame_Tally [OF fm])
  then have sync: "SyncLocked c humans n k (st, e, out) = clear_stale wf"
    using u by (cases "cs_coaches (fst wc)") (simp_all add: SyncLocked_def Let_def wf_def wc_def [symmetric] wm_def [symmetric] wc(1) [symmetric])
  have dm: "distinct (map fst (cs_coaches (fst wm)))" unfolding wm_def by (rule sync_members_distinct) (simp add: distinct)
  have sh: "shape (cs_coaches (fst wf)) = shape (cs_coaches (fst wm))"
    unfolding wf_def wc(1) using dm by (subst fold_sync_coach) (auto simp: wc map_of_shape_own)
  have ff: "frame (eng wf) = frame e" unfolding wf_def fold_sync_coach_frame_eng(1) by (rule fm)
  have only: "a = b" if "at_slot e a s" "at_slot e b s" for a b s using that su by (auto simp: at_slot_def slots_unique_def)
  have final: "cs_coaches (fst (clear_stale wf)) = cs_coaches (fst wf)" by (simp add: clear_stale_def Let_def)
  have stale: "en_coaching (eng (clear_stale wf)) s =
      (if \<exists>q. q \<in> fst ` set (cs_written (fst wf)) \<and> map_of (cs_coaches (fst wf)) q = None \<and> at_slot e q s
       then 0 else en_coaching (eng wf) s)" for s
    using u unfolding clear_stale_def Let_def fold_ClearField_coaching frame_eq(3,5) [OF ff] by (auto simp: usable_def)
  have coach: "en_coaching (eng (clear_stale wf)) s = CoachingSide (ch_team co) (Tally c e) (en_coaching e s) (FallbackTeam1IsCt c n k)"
    if m: "map_of (cs_coaches (fst wf)) sid = Some co" and a: "at_slot e sid s" "en_team e s = 1" for sid co s
  proof -
    have "map_of (shape (cs_coaches (fst wm))) sid = Some (ch_team co, ch_listed co)"
      using m by (simp add: sh [symmetric] map_of_shape)
    then obtain co' where co': "map_of (cs_coaches (fst wm)) sid = Some co'" "ch_team co' = ch_team co"
      by (auto simp: map_of_shape)
    then have inm: "(sid, co') \<in> set (cs_coaches (fst wm))" by (simp add: map_of_SomeD)
    have "en_coaching (eng wf) s = CoachingSide (ch_team co') (Tally c e) (en_coaching (eng wc) s) (FallbackTeam1IsCt c n k)"
      unfolding wf_def using su dm inm a
      by (intro fold_sync_coach_own [where sid = sid]) (simp_all add: wc slots_unique_def frame_eq [OF members(1)])
    moreover have "en_coaching (eng wc) s = en_coaching e s"
      unfolding wc using imageI [OF inm, of fst] a(1) by (intro members(2)) simp_all
    moreover have "\<not> (\<exists>q. q \<in> fst ` set (cs_written (fst wf)) \<and> map_of (cs_coaches (fst wf)) q = None \<and> at_slot e q s)"
      using only a(1) m by fastforce
    ultimately show ?thesis unfolding stale by (simp only: if_False co'(2))
  qed
  have gone: "en_coaching (eng (clear_stale wf)) s = 0"
    if w: "sid \<in> fst ` set (cs_written st)" and no: "map_of (cs_coaches (fst wf)) sid = None" and a: "at_slot e sid s" for sid s
  proof (cases "sid \<in> fst ` set (cs_written (fst wm))")
    case True
    then have "sid \<in> fst ` set (cs_written (fst wf))"
      unfolding wf_def wc(3) [symmetric] by (rule subsetD [OF fold_sync_coach_frame_eng(2)])
    with no a show ?thesis by (auto simp: stale)
  next
    case False
    have "sid \<notin> keys (fst wm)" using no sh by (metis keys_shape map_of_eq_None_iff)
    then have "en_coaching (eng wf) s = en_coaching (eng wc) s"
      unfolding wf_def by (intro fold_sync_coach_other) (use only [OF _ a] in \<open>auto simp: wc frame_eq(5) [OF members(1)]\<close>)
    also have "\<dots> = 0" unfolding wc using members(3) [OF w] False a by blast
    finally show ?thesis by (simp add: stale)
  qed
  show ?thesis unfolding sync Let_def case_prod_beta final using coach gone by blast
qed

section \<open>Examples\<close>

definition sample_engine :: Engine where
  "sample_engine = \<lparr>en_resolved = True, en_slot = (\<lambda>sid. if sid = 9 then 4 else if sid = 11 then 5 else - 1),
     en_ctrl = (\<lambda>s. True), en_team = (\<lambda>s. 1), en_coaching = (\<lambda>s. 0)\<rparr>"

definition sample_match :: MatchContext where
  "sample_match = \<lparr>mc_matchid = 77, mc_slug = ''cup'', mc_coaches_per_team = 1, mc_team1_name = ''Red'', mc_team2_name = ''Blue'',
     mc_coach_team = [(9, 1)], mc_coaches = {9}, mc_roster_team = [(3, 1), (4, 2)], mc_map_sides = [''team1_ct'']\<rparr>"

definition sample_ctx :: Ctx where
  "sample_ctx = ReadCtx (Some sample_match) MatchLive True"

definition sample_ops :: "CoachOp list" where
  "sample_ops = [Op_Tick sample_ctx [] 1 0 1, Op_Admin sample_ctx [\<lparr>cc_steamid64 = 11, cc_userid = 2, cc_name = ''eve''\<rparr>] 1 0 ''coach'' [''#2'', ''team1'']]"

lemma sample_simps [simp]:
  "cx_match sample_ctx = Some sample_match" "cx_limit sample_ctx = 1" "cx_possible sample_ctx" "cx_admitted sample_ctx"
  "mc_coach_team sample_match = [(9, 1)]" "mc_matchid sample_match = 77" "mc_coaches_per_team sample_match = 1"
  "en_resolved sample_engine"
  by (simp_all add: sample_ctx_def ReadCtx_def sample_match_def sample_engine_def)

theorem coach_limit_holds_witness:
  "unlisted True (shape (cs_coaches (fst (fold (coach_step (\<lambda>m. fst m)) sample_ops (CoachState_init, sample_engine))))) \<le> 1"
  using coach_limit_holds [of 1 sample_ops "\<lambda>m. fst m" sample_engine True] by (simp add: sample_ops_def Let_def)

lemma sample_usable: "usable sample_ctx sample_engine"
  by (simp add: usable_def)

lemma sample_roster: "RosterTeam sample_ctx 9 = 0"
  by (simp add: RosterTeam_def sample_match_def)

theorem sync_establishes_coaches_witness:
  "9 \<in> keys (fst (SyncLocked sample_ctx [] 1 0 (CoachState_init, sample_engine, no_out)))"
proof -
  have "distinct (map fst (cs_coaches CoachState_init))" by (simp add: CoachState_init_def)
  from sync_establishes_coaches [OF this, of sample_ctx "[]" 1 0 sample_engine no_out]
  have "keys (fst (SyncLocked sample_ctx [] 1 0 (CoachState_init, sample_engine, no_out))) =
      {sid \<in> keys (OnContextLocked sample_ctx CoachState_init). RosterTeam sample_ctx sid = 0} \<union>
      {sid \<in> fst ` set (mc_coach_team sample_match).
         RosterTeam sample_ctx sid = 0 \<and> sid \<notin> cs_optOut (OnContextLocked sample_ctx CoachState_init)}"
    using sample_usable by (simp add: case_prod_beta Let_def)
  then show ?thesis by (simp add: sample_roster OnContextLocked_def CoachState_init_def Let_def)
qed

theorem sync_sets_engine_field_witness:
  "at_slot sample_engine 11 5 \<and>
   en_coaching (fst (snd (SyncLocked sample_ctx [] 1 0 (CoachState_init\<lparr>cs_written := [(11, 5)]\<rparr>, sample_engine, no_out)))) 5 = 0"
proof -
  let ?st = "CoachState_init\<lparr>cs_written := [(11, 5)]\<rparr>"
  have su: "slots_unique sample_engine" by (simp add: slots_unique_def SlotOf_def sample_engine_def)
  have d: "distinct (map fst (cs_coaches ?st))" by (simp add: CoachState_init_def)
  have a: "at_slot sample_engine 11 5" by (simp add: at_slot_def SlotOf_def ControllerOf_def sample_engine_def)
  have "keys (fst (SyncLocked sample_ctx [] 1 0 (?st, sample_engine, no_out))) =
      keys (fst (sync_members sample_ctx [] (?st, sample_engine, no_out)))"
    unfolding keys_shape using sync_members_distinct [of "(?st, sample_engine, no_out)" sample_ctx "[]"] d
    by (subst SyncLocked_shape) simp_all
  also have "\<dots> \<subseteq> {9}"
    by (subst sync_members_keys [where m = sample_match]) (auto simp: sample_usable OnContextLocked_def CoachState_init_def Let_def)
  finally have "11 \<notin> keys (fst (SyncLocked sample_ctx [] 1 0 (?st, sample_engine, no_out)))" by auto
  then have "map_of (cs_coaches (fst (SyncLocked sample_ctx [] 1 0 (?st, sample_engine, no_out)))) 11 = None"
    by (simp add: map_of_eq_None_iff)
  with a sync_sets_engine_field [OF sample_usable su d, of "[]" 1 0 no_out] show ?thesis
    by (simp add: case_prod_beta Let_def)
qed

end
