(* ===== verification/Ruleset.thy ===== *)
theory Ruleset
  imports Json Match_Rules "HOL-Library.AList"
begin

text \<open>
  Rulesets (plugins/match/readyup/ruleset.h and ruleset.cpp): the table of named rules, the presets,
  the overrides of a match with their JSON form, and the effective rules of a match with the commands
  and reports made from them. A \<open>std::map\<close> is an association list whose order never shows. A double that
  is cast to an integer is a whole number there, so the cast is \<open>\<lfloor>d\<rfloor>\<close>.
\<close>

section \<open>Rules and values\<close>

datatype Ruleset = Default_rules | Valve

datatype Kind = KNone | KInt | KBool | KStr

datatype RuleValue = RNone | RInt int | RBool bool | RStr string

record RuleInfo =
  ri_key :: string
  ri_kind :: Kind
  ri_cvar :: "string option"
  ri_min :: int
  ri_max :: int

type_synonym RuleMap = "(string \<times> RuleValue) list"

definition RulesetName :: "Ruleset \<Rightarrow> string" where
  "RulesetName r = (if r = Valve then ''valve'' else ''default'')"

definition blank :: "char \<Rightarrow> bool" where
  "blank c \<longleftrightarrow> c = space_char \<or> byte c = 9 \<or> byte c = 13 \<or> c = newline_char"

definition ParseRuleset :: "string \<Rightarrow> Ruleset option" where
  "ParseRuleset s =
     (let v = Lower (trim_by blank s)
      in if v = ''default'' then Some Default_rules else if v = ''valve'' then Some Valve else None)"

fun Value_Text :: "RuleValue \<Rightarrow> string" where
  "Value_Text RNone = ''(server)''"
| "Value_Text (RInt i) = to_string i"
| "Value_Text (RBool b) = (if b then ''true'' else ''false'')"
| "Value_Text (RStr s) = [quote_char] @ s @ [quote_char]"

fun ToJson :: "RuleValue \<Rightarrow> json" where
  "ToJson RNone = JNull"
| "ToJson (RInt i) = JInt i"
| "ToJson (RBool b) = JBool b"
| "ToJson (RStr s) = JString s"

fun CvarValue :: "RuleValue \<Rightarrow> string" where
  "CvarValue RNone = []"
| "CvarValue (RInt i) = to_string i"
| "CvarValue (RBool b) = (if b then ''1'' else ''0'')"
| "CvarValue (RStr s) = s"

definition rule :: "string \<Rightarrow> Kind \<Rightarrow> string \<Rightarrow> int \<Rightarrow> int \<Rightarrow> RuleInfo" where
  "rule k kd cv lo hi =
     \<lparr>ri_key = k, ri_kind = kd, ri_cvar = (if cv = [] then None else Some cv), ri_min = lo, ri_max = hi\<rparr>"

text \<open>An empty cvar here is the source's \<open>nullptr\<close>; the help texts are left out.\<close>

definition RuleTable :: "RuleInfo list" where
  "RuleTable =
     [rule ''freezetime'' KInt ''mp_freezetime'' 0 120,
      rule ''tac_timeouts'' KInt ''mp_team_timeout_max'' 0 10,
      rule ''tac_timeout_seconds'' KInt ''mp_team_timeout_time'' 1 300,
      rule ''tech_pauses_per_team'' KInt [] 0 20,
      rule ''tech_pause_seconds'' KInt [] 0 3600,
      rule ''allow_knife'' KBool [] 0 1,
      rule ''overtime.enabled'' KBool ''mp_overtime_enable'' 0 1,
      rule ''overtime.maxrounds'' KInt ''mp_overtime_maxrounds'' 2 30,
      rule ''overtime.startmoney'' KInt ''mp_overtime_startmoney'' 0 65535,
      rule ''overtime.limit'' KInt ''mp_overtime_limit'' 0 100,
      rule ''zeus'' KInt ''mp_weapons_allow_zeus'' (- 1) 10,
      rule ''spectators_max'' KInt ''mp_spectators_max'' 0 64,
      rule ''halftime_pausematch'' KBool ''mp_halftime_pausematch'' 0 1,
      rule ''tv_delay'' KInt ''tv_delay'' 0 960,
      rule ''tv_broadcast_url'' KStr [] 0 0,
      rule ''camera_man_steamid'' KStr [] 0 0,
      rule ''lan'' KBool [] 0 1,
      rule ''coaches_online'' KBool [] 0 1,
      rule ''default_models'' KBool [] 0 1,
      rule ''cosmetics'' KStr [] 0 0]"

definition FindRule :: "string \<Rightarrow> RuleInfo option" where
  "FindRule key = find (\<lambda>r. key = ri_key r) RuleTable"

definition KnownKeys :: string where
  "KnownKeys =
     (case map ri_key RuleTable of [] \<Rightarrow> [] | k # ks \<Rightarrow> k @ concat (map (\<lambda>k. '', '' @ k) ks))"

definition PresetRules :: "Ruleset \<Rightarrow> RuleMap" where
  "PresetRules r =
     (if r = Valve then
        [(''freezetime'', RInt 20), (''tac_timeouts'', RInt 3), (''tac_timeout_seconds'', RInt 31),
         (''tech_pauses_per_team'', RInt 1), (''tech_pause_seconds'', RInt 120), (''allow_knife'', RBool False),
         (''overtime.enabled'', RBool True), (''overtime.maxrounds'', RInt 6), (''overtime.startmoney'', RInt 10000),
         (''overtime.limit'', RInt 0), (''zeus'', RInt 5), (''spectators_max'', RInt 10),
         (''halftime_pausematch'', RBool True), (''tv_delay'', RInt 105), (''tv_broadcast_url'', RStr []),
         (''camera_man_steamid'', RStr []), (''lan'', RBool False), (''coaches_online'', RBool False),
         (''default_models'', RBool False), (''cosmetics'', RStr ''inventory'')]
      else
        [(''freezetime'', RInt 18), (''tac_timeouts'', RInt 3), (''tac_timeout_seconds'', RInt 30),
         (''allow_knife'', RBool True), (''overtime.enabled'', RBool True), (''overtime.maxrounds'', RInt 6),
         (''overtime.startmoney'', RInt 10000), (''overtime.limit'', RNone), (''zeus'', RInt 1),
         (''spectators_max'', RInt 20), (''halftime_pausematch'', RBool False), (''tv_delay'', RNone),
         (''tv_broadcast_url'', RStr []), (''camera_man_steamid'', RStr []), (''lan'', RBool False),
         (''coaches_online'', RBool True), (''default_models'', RBool False), (''cosmetics'', RStr ''plugin'')])"

section \<open>Overrides\<close>

text \<open>Values that go into a quoted cvar: printable ASCII, no quote, semicolon, backslash or blank.\<close>

definition SafeQuoted :: "string \<Rightarrow> bool" where
  "SafeQuoted s \<longleftrightarrow>
     list_all (\<lambda>c. 0x20 < byte c \<and> byte c < 0x7F \<and> c \<noteq> quote_char \<and> c \<noteq> CHR '';'' \<and> c \<noteq> backslash) s"

definition quoted :: "string \<Rightarrow> string" where
  "quoted s = [quote_char] @ s @ [quote_char]"

definition leaf_error :: "RuleInfo \<Rightarrow> string \<Rightarrow> string" where
  "leaf_error info why = ''override '' @ quoted (ri_key info) @ '': '' @ why"

definition leaf_int :: "json \<Rightarrow> int option" where
  "leaf_int v =
     (case v of
        JInt i \<Rightarrow> Some i
      | JDouble d \<Rightarrow> if of_int \<lfloor>d\<rfloor> = d \<and> \<bar>d\<bar> < 10 ^ 12 then Some \<lfloor>d\<rfloor> else None
      | _ \<Rightarrow> None)"

definition leaf_bool :: "json \<Rightarrow> bool option" where
  "leaf_bool v =
     (case v of
        JBool b \<Rightarrow> Some b
      | JInt i \<Rightarrow> if i = 0 \<or> i = 1 then Some (i = 1) else None
      | _ \<Rightarrow> None)"

definition leaf_text_error :: "string \<Rightarrow> string \<Rightarrow> string option" where
  "leaf_text_error key s =
     (if key = ''cosmetics''
      then (if s \<noteq> ''inventory'' \<and> s \<noteq> ''plugin''
            then Some (''must be '' @ quoted ''inventory'' @ '' or '' @ quoted ''plugin'') else None)
      else if key = ''camera_man_steamid''
      then (if s \<noteq> [] \<and> (\<not> IsDigits s \<or> length s \<noteq> 17)
            then Some (''must be a SteamID64 (17 digits) or '' @ quoted []) else None)
      else if key = ''tv_broadcast_url''
      then (if s \<noteq> [] \<and> \<not> starts_with ''http://'' s \<and> \<not> starts_with ''https://'' s
            then Some (''must start with http:// or https:// (or be '' @ quoted [] @ '')'')
            else if length s > 256 \<or> \<not> SafeQuoted s
            then Some ''has characters that cannot go into a cvar (or is too long)'' else None)
      else None)"

definition ParseLeaf :: "RuleInfo \<Rightarrow> json \<Rightarrow> string + RuleValue" where
  "ParseLeaf info v =
     (case ri_kind info of
        KInt \<Rightarrow>
          (case leaf_int v of
             None \<Rightarrow> Inl (leaf_error info ''must be an integer'')
           | Some n \<Rightarrow>
               if n < ri_min info \<or> n > ri_max info
               then Inl (leaf_error info (''must be '' @ to_string (ri_min info) @ ''..'' @ to_string (ri_max info)
                      @ '' (got '' @ to_string n @ '')''))
               else Inr (RInt n))
      | KBool \<Rightarrow>
          (case leaf_bool v of
             None \<Rightarrow> Inl (leaf_error info ''must be true or false'')
           | Some b \<Rightarrow> Inr (RBool b))
      | KStr \<Rightarrow>
          (case v of
             JString raw \<Rightarrow>
               let s = trim_by blank raw
               in (case leaf_text_error (ri_key info) s of
                     Some why \<Rightarrow> Inl (leaf_error info why)
                   | None \<Rightarrow> Inr (RStr s))
           | _ \<Rightarrow> Inl (leaf_error info ''must be a string''))
      | KNone \<Rightarrow> Inl (leaf_error info ''unsupported''))"

definition unknown_override :: "string \<Rightarrow> string" where
  "unknown_override key = ''unknown override '' @ quoted key @ '' (known: '' @ KnownKeys @ '')''"

definition parse_entry :: "string \<Rightarrow> json \<Rightarrow> RuleMap \<Rightarrow> string + RuleMap" where
  "parse_entry key v m =
     (case FindRule key of
        None \<Rightarrow> Inl (unknown_override key)
      | Some info \<Rightarrow> (case ParseLeaf info v of Inl e \<Rightarrow> Inl e | Inr x \<Rightarrow> Inr (AList.update key x m)))"

text \<open>A loop that stops at the first error.\<close>

fun fold_err :: "('a \<Rightarrow> 'b \<Rightarrow> 'e + 'b) \<Rightarrow> 'a list \<Rightarrow> 'b \<Rightarrow> 'e + 'b" where
  "fold_err f [] b = Inr b"
| "fold_err f (x # xs) b = (case f x b of Inl e \<Rightarrow> Inl e | Inr b' \<Rightarrow> fold_err f xs b')"

definition is_group :: "string \<Rightarrow> bool" where
  "is_group key = list_ex (\<lambda>r. starts_with (key @ ''.'') (ri_key r)) RuleTable"

definition parse_member :: "string \<times> json \<Rightarrow> RuleMap \<Rightarrow> string + RuleMap" where
  "parse_member kv m =
     (if IsObject (snd kv)
      then (if \<not> is_group (fst kv) then Inl (unknown_override (fst kv))
            else fold_err (\<lambda>sub. parse_entry (fst kv @ ''.'' @ fst sub) (snd sub)) (Members (snd kv)) m)
      else parse_entry (fst kv) (snd kv) m)"

definition ParseOverrides :: "json \<Rightarrow> string + RuleMap" where
  "ParseOverrides obj =
     (if \<not> IsObject obj then Inl ''overrides must be an object'' else fold_err parse_member (Members obj) [])"

definition ParseOverridesText :: "string \<Rightarrow> string + RuleMap" where
  "ParseOverridesText s =
     (if trim_by blank s = [] then Inr []
      else case Parse s of Inl e \<Rightarrow> Inl (''overrides: '' @ e) | Inr j \<Rightarrow> ParseOverrides j)"

text \<open>\<open>(*obj)[group][name] = v\<close> for a dotted key.\<close>

definition SetPath :: "json \<Rightarrow> string \<Rightarrow> json \<Rightarrow> json" where
  "SetPath obj key v =
     (case find_sub ''.'' key of
        None \<Rightarrow> json_put obj key v
      | Some dot \<Rightarrow>
          let g = take dot key
          in json_put obj g (json_put (case Find obj g of None \<Rightarrow> JNull | Some old \<Rightarrow> old) (drop (dot + 1) key) v))"

definition put_rule :: "RuleMap \<Rightarrow> string \<Rightarrow> json \<Rightarrow> json" where
  "put_rule m key j =
     (case map_of m key of Some v \<Rightarrow> if v \<noteq> RNone then SetPath j key (ToJson v) else j | None \<Rightarrow> j)"

definition rules_json :: "RuleMap \<Rightarrow> json" where
  "rules_json m = fold (put_rule m) (map ri_key RuleTable) (JObject [])"

definition OverridesToText :: "RuleMap \<Rightarrow> string" where
  "OverridesToText overrides =
     (if overrides = [] then [] else Dump (rules_json overrides))"

section \<open>Effective rules\<close>

text \<open>Engine cvar text to the rule's kind; \<open>None\<close> when it does not parse.\<close>

definition FromCvarText :: "RuleInfo \<Rightarrow> string \<Rightarrow> RuleValue option" where
  "FromCvarText info raw =
     (let s = Lower (trim_by blank raw)
      in if s = [] then None
         else if ri_kind info = KBool
         then (if s = ''1'' \<or> s = ''true'' then Some (RBool True)
               else if s = ''0'' \<or> s = ''false'' then Some (RBool False) else None)
         else if ri_kind info = KInt
         then (let (d, rest) = strtod s in if rest \<noteq> [] \<or> of_int \<lfloor>d\<rfloor> \<noteq> d then None else Some (RInt \<lfloor>d\<rfloor>))
         else None)"

record RulesInput =
  in_ruleset :: Ruleset
  in_overrides :: RuleMap
  in_match :: MatchRules
  in_cfg :: MatchRules
  in_cvars :: "(string \<times> string) list"

record EffectiveRuleSet =
  er_ruleset :: Ruleset
  er_values :: RuleMap
  er_preset :: RuleMap
  er_source :: "(string \<times> string) list"
  er_match_rules :: MatchRules

definition or_none :: "RuleMap \<Rightarrow> string \<Rightarrow> RuleValue" where
  "or_none m key = (case map_of m key of None \<Rightarrow> RNone | Some v \<Rightarrow> v)"

definition Differs :: "EffectiveRuleSet \<Rightarrow> string list" where
  "Differs e = filter (\<lambda>k. or_none (er_values e) k \<noteq> or_none (er_preset e) k) (map ri_key RuleTable)"

definition Int_rule :: "EffectiveRuleSet \<Rightarrow> string \<Rightarrow> int \<Rightarrow> int" where
  "Int_rule e key def = (case map_of (er_values e) key of Some (RInt i) \<Rightarrow> i | _ \<Rightarrow> def)"

definition Bool_rule :: "EffectiveRuleSet \<Rightarrow> string \<Rightarrow> bool \<Rightarrow> bool" where
  "Bool_rule e key def = (case map_of (er_values e) key of Some (RBool b) \<Rightarrow> b | _ \<Rightarrow> def)"

definition Str_rule :: "EffectiveRuleSet \<Rightarrow> string \<Rightarrow> string" where
  "Str_rule e key = (case map_of (er_values e) key of Some (RStr s) \<Rightarrow> s | _ \<Rightarrow> [])"

definition assign :: "string \<Rightarrow> RuleValue \<Rightarrow> string \<Rightarrow> EffectiveRuleSet \<Rightarrow> EffectiveRuleSet" where
  "assign key v src e =
     e\<lparr>er_values := AList.update key v (er_values e), er_source := AList.update key src (er_source e)\<rparr>"

definition chain_source :: "int \<Rightarrow> int \<Rightarrow> string" where
  "chain_source m c = (if m \<ge> 0 then ''match'' else if c \<ge> 0 then ''cfg'' else ''preset'')"

definition preset_of :: "RulesInput \<Rightarrow> RuleMap" where
  "preset_of i =
     (let chain = ResolveRules (in_match i) (in_cfg i); p = PresetRules (in_ruleset i)
      in if in_ruleset i = Default_rules
         then AList.update ''tech_pause_seconds'' (RInt (tech_pause_max_seconds chain))
                (AList.update ''tech_pauses_per_team'' (RInt (tech_pauses_per_team chain)) p)
         else p)"

text \<open>The rules before cvars and overrides.\<close>

definition base_rules :: "RulesInput \<Rightarrow> EffectiveRuleSet" where
  "base_rules i =
     (let e = \<lparr>er_ruleset = in_ruleset i, er_values = preset_of i, er_preset = preset_of i,
               er_source = map (\<lambda>r. (ri_key r, ''preset'')) RuleTable,
               er_match_rules = ResolveRules (in_match i) (in_cfg i)\<rparr>
      in if in_ruleset i = Default_rules
         then e\<lparr>er_source :=
                  AList.update ''tech_pause_seconds''
                    (chain_source (tech_pause_max_seconds (in_match i)) (tech_pause_max_seconds (in_cfg i)))
                    (AList.update ''tech_pauses_per_team''
                      (chain_source (tech_pauses_per_team (in_match i)) (tech_pauses_per_team (in_cfg i)))
                      (er_source e))\<rparr>
         else
           (let e1 = (if tech_pauses_per_team (in_match i) \<ge> 0
                      then assign ''tech_pauses_per_team'' (RInt (tech_pauses_per_team (in_match i))) ''match'' e else e)
            in if tech_pause_max_seconds (in_match i) \<ge> 0
               then assign ''tech_pause_seconds'' (RInt (tech_pause_max_seconds (in_match i))) ''match'' e1 else e1))"

definition cvar_value :: "(string \<times> string) list \<Rightarrow> RuleInfo \<Rightarrow> RuleValue option" where
  "cvar_value cvars r =
     (case ri_cvar r of
        None \<Rightarrow> None
      | Some cv \<Rightarrow> (case map_of cvars cv of None \<Rightarrow> None | Some raw \<Rightarrow> FromCvarText r raw))"

definition apply_cvar :: "(string \<times> string) list \<Rightarrow> RuleInfo \<Rightarrow> EffectiveRuleSet \<Rightarrow> EffectiveRuleSet" where
  "apply_cvar cvars r e =
     (case cvar_value cvars r of None \<Rightarrow> e | Some v \<Rightarrow> assign (ri_key r) v ''cvars'' e)"

definition apply_override :: "string \<times> RuleValue \<Rightarrow> EffectiveRuleSet \<Rightarrow> EffectiveRuleSet" where
  "apply_override kv e =
     (if FindRule (fst kv) = None \<or> snd kv = RNone then e else assign (fst kv) (snd kv) ''override'' e)"

definition ResolveEffective :: "RulesInput \<Rightarrow> EffectiveRuleSet" where
  "ResolveEffective i =
     (let chain = ResolveRules (in_match i) (in_cfg i);
          e = fold apply_override (in_overrides i) (fold (apply_cvar (in_cvars i)) RuleTable (base_rules i))
      in e\<lparr>er_match_rules :=
             chain\<lparr>tech_pauses_per_team := Int_rule e ''tech_pauses_per_team'' (tech_pauses_per_team chain),
                   tech_pause_max_seconds := Int_rule e ''tech_pause_seconds'' (tech_pause_max_seconds chain)\<rparr>\<rparr>)"

definition rule_command :: "EffectiveRuleSet \<Rightarrow> RuleInfo \<Rightarrow> string list" where
  "rule_command e r =
     (case ri_cvar r of
        None \<Rightarrow> []
      | Some cv \<Rightarrow>
          if map_of (er_source e) (ri_key r) \<noteq> Some ''override'' \<or> or_none (er_values e) (ri_key r) = RNone then []
          else [cv @ '' '' @ CvarValue (or_none (er_values e) (ri_key r))])"

definition RuleCommands :: "EffectiveRuleSet \<Rightarrow> string list" where
  "RuleCommands e =
     (let url = Str_rule e ''tv_broadcast_url''; cam = Str_rule e ''camera_man_steamid''
      in concat (map (rule_command e) RuleTable)
         @ (if url \<noteq> [] \<and> SafeQuoted url then [''tv_broadcast_url '' @ quoted url, ''tv_broadcast 1''] else [])
         @ (if cam \<noteq> [] \<and> IsDigits cam then [''tv_allow_camera_man_steamid '' @ cam] else []))"

definition LiveCfgFor :: "Ruleset \<Rightarrow> string" where
  "LiveCfgFor r = (if r = Valve then ''ReadyUp/esports_live.cfg'' else ''ReadyUp/live.cfg'')"

definition source_or :: "string \<Rightarrow> EffectiveRuleSet \<Rightarrow> string \<Rightarrow> string" where
  "source_or def e k = (case map_of (er_source e) k of None \<Rightarrow> def | Some s \<Rightarrow> s)"

definition EffectiveRulesJson :: "EffectiveRuleSet \<Rightarrow> json" where
  "EffectiveRulesJson e =
     (let rules = rules_json (er_values e);
          differs = fold (\<lambda>k j. Push j (JString k)) (Differs e) (JArray []);
          preset = fold (put_rule (er_preset e)) (Differs e) (JObject []);
          source = fold (\<lambda>k j. json_put j k (JString (source_or ''preset'' e k))) (Differs e) (JObject [])
      in json_put (json_put (json_put (json_put (json_put (JObject [])
           ''ruleset'' (JString (RulesetName (er_ruleset e)))) ''rules'' rules) ''differs'' differs)
           ''preset'' preset) ''source'' source)"

definition rule_item :: "EffectiveRuleSet \<Rightarrow> string \<Rightarrow> string" where
  "rule_item e k = k @ ''='' @ Value_Text (or_none (er_values e) k) @ (if k \<in> set (Differs e) then ''*'' else [])"

text \<open>The lines so far and the line being filled.\<close>

definition add_item :: "EffectiveRuleSet \<Rightarrow> string \<Rightarrow> string list \<times> string \<Rightarrow> string list \<times> string" where
  "add_item e k st =
     (let (out, line) = (if length (snd st) + length (rule_item e k) > 110 then (fst st @ [snd st], ''rules:'') else st)
      in (out, line @ '' '' @ rule_item e k))"

definition diff_item :: "EffectiveRuleSet \<Rightarrow> string \<Rightarrow> string" where
  "diff_item e k =
     '' '' @ k @ '' '' @ Value_Text (or_none (er_preset e) k) @ ''->'' @ Value_Text (or_none (er_values e) k)
       @ '' ('' @ source_or ''?'' e k @ '');''"

definition EffectiveRulesText :: "EffectiveRuleSet \<Rightarrow> string list" where
  "EffectiveRulesText e =
     (let (out, line) = fold (add_item e) (map ri_key RuleTable) ([], ''rules:'')
      in [''rules: ruleset='' @ RulesetName (er_ruleset e) @ '' cfg='' @ LiveCfgFor (er_ruleset e)
            @ '' (* = differs from the preset)''] @ out @ [line]
         @ [if Differs e = [] then ''rules: no differences from '' @ RulesetName (er_ruleset e)
            else ''rules: differs from '' @ RulesetName (er_ruleset e) @ '':'' @ concat (map (diff_item e) (Differs e))])"

section \<open>Checks at match load and go-live\<close>

fun first_knife :: "nat \<Rightarrow> string list \<Rightarrow> nat option" where
  "first_knife i [] = None"
| "first_knife i (s # ss) = (if s = ''knife'' then Some i else first_knife (i + 1) ss)"

definition CheckMapSides :: "EffectiveRuleSet \<Rightarrow> string list \<Rightarrow> string option" where
  "CheckMapSides e mapSides =
     (if Bool_rule e ''allow_knife'' True then None
      else case first_knife 0 mapSides of
             None \<Rightarrow> None
           | Some i \<Rightarrow>
               Some (''ruleset '' @ RulesetName (er_ruleset e) @ '': map '' @ dec_nat (i + 1) @ '' has map_sides ''
                 @ quoted ''knife'' @ '', but knife rounds are off (Valve has no knife round; sides come from the veto: ''
                 @ ''team1_ct / team2_ct). Set '' @ quoted ''overrides'' @ '': {'' @ quoted ''allow_knife''
                 @ '': true} to allow it.''))"

definition CoachesAdmitted :: "EffectiveRuleSet \<Rightarrow> bool" where
  "CoachesAdmitted e \<longleftrightarrow> Bool_rule e ''lan'' False \<or> Bool_rule e ''coaches_online'' True"

definition InventoryLocked :: "EffectiveRuleSet \<Rightarrow> bool" where
  "InventoryLocked e \<longleftrightarrow> Str_rule e ''cosmetics'' = ''inventory''"

definition PlayerExtrasAllowed :: "EffectiveRuleSet \<Rightarrow> bool" where
  "PlayerExtrasAllowed e \<longleftrightarrow> er_ruleset e \<noteq> Valve"

datatype GotvState = Gotv_Unknown | Gotv_Up | Gotv_Down

definition kGotvGraceSeconds :: seconds where
  "kGotvGraceSeconds = 15"

definition GotvStateFrom :: "bool \<Rightarrow> bool \<Rightarrow> seconds \<Rightarrow> GotvState" where
  "GotvStateFrom scanOk hltvSeen secondsSinceMapStart =
     (if \<not> scanOk then Gotv_Unknown
      else if hltvSeen then Gotv_Up
      else if secondsSinceMapStart \<ge> kGotvGraceSeconds then Gotv_Down else Gotv_Unknown)"

record GoLiveVerdict =
  gl_allowed :: bool
  gl_log :: string
  gl_chatKey :: string

definition GotvGoLiveCheck :: "Ruleset \<Rightarrow> GotvState \<Rightarrow> bool \<Rightarrow> GoLiveVerdict" where
  "GotvGoLiveCheck r gotv forced =
     (if r \<noteq> Valve \<or> gotv = Gotv_Up then \<lparr>gl_allowed = True, gl_log = [], gl_chatKey = []\<rparr>
      else if gotv = Gotv_Unknown
      then \<lparr>gl_allowed = True,
            gl_log = ''esports: gotv=unknown (GOTV client not readable): going live without the GOTV check'',
            gl_chatKey = []\<rparr>
      else if forced
      then \<lparr>gl_allowed = True,
            gl_log = ''esports: gotv=down: going live anyway (forced by an admin); this map has no demo'',
            gl_chatKey = ''gotv.forced''\<rparr>
      else \<lparr>gl_allowed = False,
            gl_log = ''esports: gotv=down: go-live refused (valve ruleset records every map; tv_enable was 0 when the map ''
                     @ ''loaded). tv_enable 1 is set now: reload the map, or force it: ru match start force'',
            gl_chatKey = ''gotv.refused''\<rparr>)"

definition AutoPause5v5On :: "Ruleset \<Rightarrow> string option \<Rightarrow> bool" where
  "AutoPause5v5On r matchCvar =
     (case matchCvar of
        Some v \<Rightarrow>
          let t = dropWhile (\<lambda>c. c = space_char \<or> byte c = 9 \<or> c = quote_char) v
          in t \<noteq> [] \<and> hd t \<noteq> CHR ''0'' \<and> take 5 t \<noteq> ''false''
      | None \<Rightarrow> r = Valve)"

section \<open>The table\<close>

lemma table_keys_distinct: "distinct (map ri_key RuleTable)"
  by code_simp

lemma table_ranges: "list_all (\<lambda>r. - (2 ^ 63) \<le> ri_min r \<and> ri_max r < 2 ^ 63) RuleTable"
  by (simp add: RuleTable_def rule_def)

lemma table_groups:
  "list_all (\<lambda>k. list_all (\<lambda>k'. \<not> starts_with (k @ ''.'') k') (map ri_key RuleTable)) (map ri_key RuleTable)"
  by code_simp

lemma FindRule_iff: "FindRule k = Some r \<longleftrightarrow> r \<in> set RuleTable \<and> ri_key r = k"
proof
  assume "FindRule k = Some r"
  then show "r \<in> set RuleTable \<and> ri_key r = k" by (auto simp: FindRule_def find_Some_iff)
next
  assume r: "r \<in> set RuleTable \<and> ri_key r = k"
  then have "FindRule k \<noteq> None" by (auto simp: FindRule_def find_None_iff)
  then obtain r' where r': "FindRule k = Some r'" by blast
  then have "r' \<in> set RuleTable" "ri_key r' = k" by (auto simp: FindRule_def find_Some_iff)
  with r table_keys_distinct have "r' = r" by (auto simp: distinct_map inj_on_def)
  with r' show "FindRule k = Some r" by simp
qed

text \<open>What an override map holds: each key is in the table and its value reads back as itself.\<close>

definition value_ok :: "string \<Rightarrow> RuleValue \<Rightarrow> bool" where
  "value_ok k x \<longleftrightarrow> (\<exists>info. FindRule k = Some info \<and> ParseLeaf info (ToJson x) = Inr x)"

definition overrides_ok :: "RuleMap \<Rightarrow> bool" where
  "overrides_ok m \<longleftrightarrow> distinct (map fst m) \<and> (\<forall>k x. map_of m k = Some x \<longrightarrow> value_ok k x)"

lemma trim_by_idem [simp]: "trim_by P (trim_by P s) = trim_by P s"
proof (cases "trim_by P s = []")
  case False
  show ?thesis using trim_by_hd [OF False] trim_by_last [OF False] by (rule trim_by_id)
next
  case True
  then show ?thesis by (simp only: True) (simp add: trim_by_def)
qed

lemma ParseLeaf_again: "ParseLeaf info v = Inr x \<Longrightarrow> ParseLeaf info (ToJson x) = Inr x"
  by (cases "ri_kind info"; cases v)
    (auto simp: ParseLeaf_def leaf_int_def leaf_bool_def Let_def split: if_splits option.splits)

lemma ParseLeaf_null: "ParseLeaf info JNull \<noteq> Inr x"
  by (cases "ri_kind info") (auto simp: ParseLeaf_def leaf_int_def leaf_bool_def)

lemma value_ok_set: "value_ok k x \<Longrightarrow> x \<noteq> RNone"
  by (auto simp: value_ok_def ParseLeaf_null)

lemma ToJson_leaf [simp]: "\<not> IsObject (ToJson x)"
  by (cases x) auto

lemma value_ok_json:
  assumes "value_ok k x"
  shows "json_ok (ToJson x) (Suc n)"
proof -
  obtain info where i: "FindRule k = Some info" "ParseLeaf info (ToJson x) = Inr x" using assms by (auto simp: value_ok_def)
  then have "- (2 ^ 63) \<le> ri_min info \<and> ri_max info < 2 ^ 63" using table_ranges by (auto simp: FindRule_iff list_all_iff)
  with i(2) show ?thesis
    by (cases x; cases "ri_kind info")
      (auto simp: ParseLeaf_def leaf_int_def leaf_bool_def in_int64_def split: if_splits option.splits)
qed

section \<open>Reading overrides\<close>

lemma fold_err_append: "fold_err f (xs @ ys) b = (case fold_err f xs b of Inl e \<Rightarrow> Inl e | Inr b' \<Rightarrow> fold_err f ys b')"
  by (induction xs arbitrary: b) (auto split: sum.splits)

lemma fold_err_keeps:
  assumes "fold_err f xs b = Inr b'" and "P b"
    and step: "\<And>x b b'. x \<in> set xs \<Longrightarrow> f x b = Inr b' \<Longrightarrow> P b \<Longrightarrow> P b'"
  shows "P b'"
  using assms
proof (induction xs arbitrary: b)
  case (Cons x xs)
  then obtain b1 where "f x b = Inr b1" "fold_err f xs b1 = Inr b'" by (auto split: sum.splits)
  then show ?case using Cons.IH [of b1] Cons.prems(2,3) by auto
qed simp

lemma parse_entry_ok:
  assumes "parse_entry k v m = Inr m'" and "overrides_ok m"
  shows "overrides_ok m'"
proof -
  obtain info x where e: "FindRule k = Some info" "ParseLeaf info v = Inr x" "m' = AList.update k x m"
    using assms(1) by (auto simp: parse_entry_def split: option.splits sum.splits)
  then have "value_ok k x" using ParseLeaf_again by (auto simp: value_ok_def)
  then show ?thesis using assms(2) by (auto simp: overrides_ok_def e(3) update_conv' distinct_update)
qed

lemma parse_member_ok: "parse_member kv m = Inr m' \<Longrightarrow> overrides_ok m \<Longrightarrow> overrides_ok m'"
  by (auto simp: parse_member_def parse_entry_ok split: if_splits elim!: fold_err_keeps)

lemma ParseOverrides_ok:
  assumes "ParseOverrides obj = Inr m"
  shows "overrides_ok m"
proof -
  have "fold_err parse_member (Members obj) [] = Inr m" using assms by (simp add: ParseOverrides_def split: if_splits)
  then show ?thesis by (rule fold_err_keeps) (auto simp: overrides_ok_def [of "[]"] intro: parse_member_ok)
qed

section \<open>Writing rules\<close>

definition table_keys :: "string set" where
  "table_keys = set (map ri_key RuleTable)"

text \<open>The dotted keys and values of an object with groups.\<close>

definition member_entries :: "string \<times> json \<Rightarrow> (string \<times> json) list" where
  "member_entries kv =
     (if IsObject (snd kv) then map (\<lambda>sub. (fst kv @ ''.'' @ fst sub, snd sub)) (Members (snd kv)) else [kv])"

definition entries :: "(string \<times> json) list \<Rightarrow> (string \<times> json) list" where
  "entries kvs = concat (map member_entries kvs)"

text \<open>An object as \<open>SetPath\<close> builds it: groups of the table and leaves with keys of the table.\<close>

definition member_ok :: "string \<times> json \<Rightarrow> bool" where
  "member_ok kv \<longleftrightarrow>
     (if IsObject (snd kv)
      then (\<exists>x. fst kv @ ''.'' @ x \<in> table_keys) \<and> distinct (map fst (Members (snd kv)))
           \<and> (\<forall>v \<in> snd ` set (Members (snd kv)). \<not> IsObject v \<and> json_ok v 1)
      else fst kv \<in> table_keys \<and> json_ok (snd kv) 1)"

definition rules_object :: "json \<Rightarrow> (string \<times> json) set \<Rightarrow> bool" where
  "rules_object j es \<longleftrightarrow>
     IsObject j \<and> distinct (map fst (Members j)) \<and> (\<forall>kv \<in> set (Members j). member_ok kv) \<and> set (entries (Members j)) = es"

lemma group_no_key:
  assumes "k \<in> table_keys"
  shows "k @ ''.'' @ x \<notin> table_keys"
proof
  assume "k @ ''.'' @ x \<in> table_keys"
  with assms have "\<not> starts_with (k @ ''.'') (k @ ''.'' @ x)"
    using table_groups unfolding table_keys_def list_all_iff by blast
  then show False by (simp add: starts_with_def)
qed

lemma dot_split:
  assumes "find_sub ''.'' key = Some dot"
  shows "take dot key @ ''.'' @ drop (dot + 1) key = key"
proof -
  have "starts_with ''.'' (drop dot key)" and "dot \<le> length key"
    using find_sub_Some [OF assms] by auto
  then have "drop dot key = ''.'' @ drop (dot + 1) key"
    by (cases "drop dot key") (auto simp: starts_with_def drop_Suc tl_drop dest: arg_cong [where f = tl])
  then show ?thesis by (metis append_take_drop_id)
qed

lemma entries_append [simp]: "entries (xs @ ys) = entries xs @ entries ys"
  by (simp add: entries_def)

lemma entries_single: "entries [kv] = member_entries kv"
  by (simp add: entries_def)

lemma SetPath_leaf:
  assumes j: "rules_object j es" and k: "k \<in> table_keys" "k \<notin> fst ` es"
    and v: "json_ok v 1" "\<not> IsObject v" and dot: "find_sub ''.'' k = None"
  shows "rules_object (SetPath j k v) (insert (k, v) es)"
proof -
  have new: "k \<notin> fst ` set (Members j)"
  proof
    assume "k \<in> fst ` set (Members j)"
    then obtain w where w: "(k, w) \<in> set (Members j)" by auto
    then have ok: "member_ok (k, w)" using j by (auto simp: rules_object_def)
    show False
    proof (cases "IsObject w")
      case True
      with ok group_no_key k(1) show ?thesis by (auto simp: member_ok_def)
    next
      case False
      then have "(k, w) \<in> set (entries (Members j))" using w by (force simp: entries_def member_entries_def)
      with j k(2) show ?thesis by (force simp: rules_object_def)
    qed
  qed
  have "Members (SetPath j k v) = Members j @ [(k, v)]"
    by (simp add: SetPath_def dot json_put_def set_member_new [OF new])
  moreover have "member_ok (k, v)" using k v by (simp add: member_ok_def)
  ultimately show ?thesis
    using j new v by (auto simp: rules_object_def entries_single member_entries_def SetPath_def dot json_put_def)
qed

lemma set_member_old:
  assumes "map_of kvs k = Some w" and "distinct (map fst kvs)"
  shows "\<exists>a b. kvs = a @ (k, w) # b \<and> set_member kvs k v = a @ (k, v) # b"
  using assms
proof (induction kvs)
  case (Cons kv kvs)
  obtain k' w' where kv: "kv = (k', w')" by force
  show ?case
  proof (cases "k' = k")
    case True
    with Cons.prems(1) have "kv # kvs = [] @ (k, w) # kvs \<and> set_member (kv # kvs) k v = [] @ (k, v) # kvs"
      by (simp add: kv)
    then show ?thesis by blast
  next
    case False
    with Cons obtain a b where "kvs = a @ (k, w) # b" "set_member kvs k v = a @ (k, v) # b" by (auto simp: kv)
    with False have "kv # kvs = (kv # a) @ (k, w) # b \<and> set_member (kv # kvs) k v = (kv # a) @ (k, v) # b"
      by (simp add: kv)
    then show ?thesis by blast
  qed
qed simp

lemma SetPath_group:
  assumes j: "rules_object j es" and k: "k \<in> table_keys" "k \<notin> fst ` es"
    and v: "json_ok v 1" "\<not> IsObject v" and dot: "find_sub ''.'' k = Some d"
  shows "rules_object (SetPath j k v) (insert (k, v) es)"
proof -
  define g x where "g = take d k" and "x = drop (d + 1) k"
  have gx: "g @ ''.'' @ x = k" using dot_split [OF dot] by (simp add: g_def x_def)
  define old where "old = (case Find j g of None \<Rightarrow> JNull | Some old \<Rightarrow> old)"
  have put: "SetPath j k v = json_put j g (json_put old x v)"
    by (simp add: SetPath_def dot Let_def g_def x_def old_def)
  show ?thesis
  proof (cases "Find j g")
    case None
    then have new: "g \<notin> fst ` set (Members j)" by (simp add: Find_def map_of_eq_None_iff)
    have "Members (SetPath j k v) = Members j @ [(g, JObject [(x, v)])]"
      by (simp add: put old_def None json_put_def set_member_new [OF new])
    moreover have "member_ok (g, JObject [(x, v)])" using k(1) v gx by (auto simp: member_ok_def)
    ultimately show ?thesis
      using j new gx by (auto simp: rules_object_def entries_single member_entries_def put json_put_def)
  next
    case (Some w)
    then have w: "(g, w) \<in> set (Members j)" by (simp add: Find_def map_of_SomeD)
    then have ok: "member_ok (g, w)" using j by (auto simp: rules_object_def)
    then have obj: "IsObject w" using group_no_key [of g x] gx k(1) by (auto simp: member_ok_def split: if_splits)
    have new: "x \<notin> fst ` set (Members w)"
    proof
      assume "x \<in> fst ` set (Members w)"
      then have "k \<in> fst ` set (member_entries (g, w))" using obj gx by (force simp: member_entries_def)
      then have "k \<in> fst ` set (entries (Members j))" using w by (force simp: entries_def)
      with j k(2) show False by (simp add: rules_object_def)
    qed
    have "Members (SetPath j k v) = set_member (Members j) g (JObject (Members w @ [(x, v)]))"
      by (simp add: put json_put_def old_def Some set_member_new [OF new])
    then obtain a b where ab: "Members j = a @ (g, w) # b" "Members (SetPath j k v) = a @ (g, JObject (Members w @ [(x, v)])) # b"
      using set_member_old [of "Members j" g w "JObject (Members w @ [(x, v)])"] Some j
      unfolding Find_def rules_object_def by metis
    have "member_ok (g, JObject (Members w @ [(x, v)]))" using ok obj v new by (auto simp: member_ok_def)
    moreover have "entries (Members (SetPath j k v)) = entries a @ member_entries (g, w) @ [(k, v)] @ entries b"
      using obj gx by (simp add: ab(2) entries_def member_entries_def)
    moreover have "entries (Members j) = entries a @ member_entries (g, w) @ entries b" by (simp add: ab(1) entries_def)
    ultimately show ?thesis using j ab by (auto simp: rules_object_def put json_put_def)
  qed
qed

lemma SetPath_rules:
  assumes "rules_object j es" and "k \<in> table_keys" "k \<notin> fst ` es" and "json_ok v 1" "\<not> IsObject v"
  shows "rules_object (SetPath j k v) (insert (k, v) es)"
  using SetPath_leaf [OF assms] SetPath_group [OF assms] by (cases "find_sub ''.'' k")

lemma put_rule_object:
  assumes j: "rules_object j es" "k \<in> table_keys" "k \<notin> fst ` es"
    and m: "\<forall>x. map_of m k = Some x \<longrightarrow> x = RNone \<or> json_ok (ToJson x) 1"
  shows "rules_object (put_rule m k j) (es \<union> {(k, ToJson x) | x. map_of m k = Some x \<and> x \<noteq> RNone})"
proof (cases "\<exists>x. map_of m k = Some x \<and> x \<noteq> RNone")
  case True
  then obtain x where x: "map_of m k = Some x" "x \<noteq> RNone" by blast
  then have "rules_object (SetPath j k (ToJson x)) (insert (k, ToJson x) es)"
    using m by (intro SetPath_rules j) auto
  moreover have "es \<union> {(k, ToJson x) | x. map_of m k = Some x \<and> x \<noteq> RNone} = insert (k, ToJson x) es"
    using x by auto
  ultimately show ?thesis using x by (simp add: put_rule_def)
next
  case False
  then have "put_rule m k j = j" by (auto simp: put_rule_def split: option.splits)
  moreover have "es \<union> {(k, ToJson x) | x. map_of m k = Some x \<and> x \<noteq> RNone} = es" using False by auto
  ultimately show ?thesis using j(1) by simp
qed

definition rule_entries :: "RuleMap \<Rightarrow> string set \<Rightarrow> (string \<times> json) set" where
  "rule_entries m ks = {(k, ToJson x) | k x. k \<in> ks \<and> map_of m k = Some x \<and> x \<noteq> RNone}"

lemma put_rules_object:
  assumes "rules_object j (rule_entries m ds)" and "set ks \<subseteq> table_keys" "distinct ks" "set ks \<inter> ds = {}"
    and m: "\<forall>k x. map_of m k = Some x \<longrightarrow> x = RNone \<or> json_ok (ToJson x) 1"
  shows "rules_object (fold (put_rule m) ks j) (rule_entries m (ds \<union> set ks))"
  using assms
proof (induction ks arbitrary: j ds)
  case (Cons k ks)
  have "k \<notin> fst ` rule_entries m ds" using Cons.prems(4) by (auto simp: rule_entries_def)
  then have "rules_object (put_rule m k j) (rule_entries m ds \<union> {(k, ToJson x) | x. map_of m k = Some x \<and> x \<noteq> RNone})"
    using Cons.prems by (intro put_rule_object) auto
  moreover have "rule_entries m ds \<union> {(k, ToJson x) | x. map_of m k = Some x \<and> x \<noteq> RNone} = rule_entries m (insert k ds)"
    by (auto simp: rule_entries_def)
  ultimately show ?case using Cons.prems Cons.IH [of "put_rule m k j" "insert k ds"] by (simp add: Un_commute)
qed simp

lemma rules_object_json_ok:
  assumes "rules_object j es"
  shows "json_ok j (Suc (Suc (Suc n)))"
proof -
  obtain kvs where j: "j = JObject kvs" using assms by (cases j) (auto simp: rules_object_def)
  have "json_ok v (Suc (Suc n))" if "(k, v) \<in> set kvs" for k v
  proof (cases v)
    case (JObject sub)
    have "member_ok (k, v)" using assms that by (auto simp: rules_object_def j)
    then have "distinct (map fst sub)" "\<forall>w \<in> snd ` set sub. json_ok w 1" by (auto simp: member_ok_def JObject)
    moreover from this(2) have "\<forall>w \<in> snd ` set sub. json_ok w (Suc n)" using json_ok_mono [of _ 1 "Suc n"] by auto
    ultimately show ?thesis by (auto simp: JObject list_all_iff)
  qed (use assms that json_ok_mono [of v 1 "Suc (Suc n)"] in \<open>auto simp: rules_object_def j member_ok_def\<close>)
  moreover have "distinct (map fst kvs)" using assms by (simp add: rules_object_def j)
  ultimately show ?thesis by (auto simp: j list_all_iff)
qed

text \<open>Reading an object with groups is reading its entries one after the other.\<close>

lemma is_group_iff: "is_group g \<longleftrightarrow> (\<exists>x. g @ ''.'' @ x \<in> table_keys)"
proof -
  have "starts_with (g @ ''.'') k \<longleftrightarrow> (\<exists>x. k = g @ ''.'' @ x)" for k
    unfolding starts_with_prefix prefix_def by simp
  then have "is_group g \<longleftrightarrow> (\<exists>k \<in> table_keys. \<exists>x. k = g @ ''.'' @ x)"
    by (simp add: is_group_def table_keys_def list_ex_iff)
  then show ?thesis by blast
qed

lemma parse_member_entries:
  assumes "member_ok kv"
  shows "parse_member kv m = fold_err (\<lambda>e. parse_entry (fst e) (snd e)) (member_entries kv) m"
proof (cases "IsObject (snd kv)")
  case True
  have "fold_err f (map g xs) b = fold_err (\<lambda>x. f (g x)) xs b" for f :: "string \<times> json \<Rightarrow> RuleMap \<Rightarrow> string + RuleMap"
    and g :: "string \<times> json \<Rightarrow> string \<times> json" and xs b
    by (induction xs arbitrary: b) (auto split: sum.splits)
  with True assms show ?thesis by (simp add: parse_member_def member_entries_def member_ok_def is_group_iff)
next
  case False
  then show ?thesis by (simp add: parse_member_def member_entries_def split: sum.splits)
qed

lemma parse_members_entries:
  "\<forall>kv \<in> set kvs. member_ok kv \<Longrightarrow>
   fold_err parse_member kvs m = fold_err (\<lambda>e. parse_entry (fst e) (snd e)) (entries kvs) m"
  by (induction kvs arbitrary: m) (simp_all add: entries_def fold_err_append parse_member_entries split: sum.splits)

lemma parse_entries:
  assumes "\<forall>e \<in> set es. \<exists>info. FindRule (fst e) = Some info \<and> ParseLeaf info (snd e) = Inr (g (fst e))"
  shows "\<exists>m'. fold_err (\<lambda>e. parse_entry (fst e) (snd e)) es m = Inr m'
    \<and> (\<forall>k. map_of m' k = (if k \<in> fst ` set es then Some (g k) else map_of m k))"
  using assms
proof (induction es arbitrary: m)
  case (Cons e es)
  then obtain info where "FindRule (fst e) = Some info" "ParseLeaf info (snd e) = Inr (g (fst e))" by auto
  then have "parse_entry (fst e) (snd e) m = Inr (AList.update (fst e) (g (fst e)) m)" by (simp add: parse_entry_def)
  moreover obtain m' where "fold_err (\<lambda>e. parse_entry (fst e) (snd e)) es (AList.update (fst e) (g (fst e)) m) = Inr m'"
    "\<forall>k. map_of m' k = (if k \<in> fst ` set es then Some (g k) else map_of (AList.update (fst e) (g (fst e)) m) k)"
    using Cons.IH [of "AList.update (fst e) (g (fst e)) m"] Cons.prems by auto
  ultimately show ?case by (auto simp: update_conv')
qed simp

lemma rules_json_object:
  assumes m: "overrides_ok m"
  shows "rules_object (rules_json m) {(k, ToJson x) | k x. map_of m k = Some x}"
proof -
  have ok: "value_ok k x" if "map_of m k = Some x" for k x using m that by (simp add: overrides_ok_def)
  have "json_ok (ToJson x) 1" if "map_of m k = Some x" for k x using value_ok_json [OF ok [OF that], of 0] by simp
  then have "rules_object (rules_json m) (rule_entries m ({} \<union> set (map ri_key RuleTable)))"
    unfolding rules_json_def
    by (intro put_rules_object)
      (simp_all add: table_keys_distinct table_keys_def rules_object_def entries_def rule_entries_def)
  moreover have "k \<in> set (map ri_key RuleTable) \<and> x \<noteq> RNone" if "map_of m k = Some x" for k x
    using ok [OF that] value_ok_set [OF ok [OF that]] by (auto simp: value_ok_def FindRule_iff)
  then have "rule_entries m ({} \<union> set (map ri_key RuleTable)) = {(k, ToJson x) | k x. map_of m k = Some x}"
    unfolding rule_entries_def by blast
  ultimately show ?thesis by simp
qed

lemma overrides_read_back:
  assumes m: "overrides_ok m"
  shows "\<exists>m'. ParseOverrides (rules_json m) = Inr m' \<and> map_of m' = map_of m"
proof -
  define es where "es = entries (Members (rules_json m))"
  note obj = rules_json_object [OF m]
  then have es: "set es = {(k, ToJson x) | k x. map_of m k = Some x}" by (simp add: rules_object_def es_def)
  have "\<forall>e \<in> set es. \<exists>info. FindRule (fst e) = Some info \<and> ParseLeaf info (snd e) = Inr (the (map_of m (fst e)))"
    unfolding es using m by (auto simp: value_ok_def overrides_ok_def)
  from parse_entries [OF this, of "[]"] obtain m' where
    m': "fold_err (\<lambda>e. parse_entry (fst e) (snd e)) es [] = Inr m'"
      "\<forall>k. map_of m' k = (if k \<in> fst ` set es then Some (the (map_of m k)) else map_of [] k)"
    by blast
  have "fst ` set es = dom (map_of m)" unfolding es by (force simp: dom_def)
  with m'(2) have "map_of m' = map_of m" by (auto simp: fun_eq_iff domIff)
  moreover have "ParseOverrides (rules_json m) = Inr m'"
    using obj m'(1) by (simp add: ParseOverrides_def rules_object_def parse_members_entries es_def)
  ultimately show ?thesis by blast
qed

section \<open>Properties\<close>

text \<open>
  Overrides survive their text: whatever a match config gave as overrides and was accepted, the
  canonical text written from it is read back to the same rules with the same values.
\<close>

theorem overrides_roundtrip:
  assumes "ParseOverrides obj = Inr m"
  shows "\<exists>m'. ParseOverridesText (OverridesToText m) = Inr m' \<and> map_of m' = map_of m"
proof (cases "m = []")
  case True
  then show ?thesis by (simp add: OverridesToText_def ParseOverridesText_def trim_by_def)
next
  case False
  have ok: "overrides_ok m" using assms by (rule ParseOverrides_ok)
  obtain m' where m': "ParseOverrides (rules_json m) = Inr m'" "map_of m' = map_of m"
    using overrides_read_back [OF ok] by blast
  have parse: "Parse (Dump (rules_json m)) = Inr (rules_json m)" and obj: "IsObject (rules_json m)"
    using rules_json_object [OF ok] rules_object_json_ok [of "rules_json m" _ 62]
    by (auto intro!: Parse_Dump simp: max_depth_def rules_object_def)
  have "trim_by blank (Dump (rules_json m)) \<noteq> []"
    using obj by (cases "rules_json m") (auto simp: trim_by_Nil Dump_def blank_def)
  with False parse m' show ?thesis by (auto simp: OverridesToText_def ParseOverridesText_def)
qed

lemma overrides_roundtrip_witness:
  "\<exists>m'. ParseOverridesText (OverridesToText [(''overtime.limit'', RInt 3), (''zeus'', RInt 1)]) = Inr m'
     \<and> map_of m' = map_of [(''overtime.limit'', RInt 3), (''zeus'', RInt 1)]"
proof -
  have "ParseOverrides (JObject [(''overtime'', JObject [(''limit'', JInt 3)]), (''zeus'', JInt 1)])
      = Inr [(''overtime.limit'', RInt 3), (''zeus'', RInt 1)]"
    by code_simp
  then show ?thesis by (rule overrides_roundtrip)
qed

subsection \<open>Where a value comes from\<close>

definition rule_of :: "EffectiveRuleSet \<Rightarrow> string \<Rightarrow> RuleValue \<times> string" where
  "rule_of e k = (or_none (er_values e) k, source_or ''?'' e k)"

lemma rule_of_assign: "rule_of (assign k v src e) k' = (if k' = k then (v, src) else rule_of e k')"
  by (simp add: rule_of_def assign_def or_none_def source_or_def update_conv')

text \<open>Both loops assign the values they have, each key once.\<close>

definition assign_some :: "('a \<Rightarrow> RuleValue option) \<Rightarrow> ('a \<Rightarrow> string) \<Rightarrow> string \<Rightarrow> 'a \<Rightarrow> EffectiveRuleSet \<Rightarrow> EffectiveRuleSet" where
  "assign_some f key src x e = (case f x of None \<Rightarrow> e | Some v \<Rightarrow> assign (key x) v src e)"

lemma rule_of_assign_some:
  "rule_of (assign_some f key src x e) k = (case f x of Some v \<Rightarrow> if k = key x then (v, src) else rule_of e k | None \<Rightarrow> rule_of e k)"
  by (simp add: assign_some_def rule_of_assign split: option.split)

lemma assign_loop_other: "k \<notin> key ` set xs \<Longrightarrow> rule_of (fold (assign_some f key src) xs e) k = rule_of e k"
  by (induction xs arbitrary: e) (auto simp: rule_of_assign_some split: option.splits)

lemma assign_loop:
  "x \<in> set xs \<Longrightarrow> distinct (map key xs) \<Longrightarrow>
   rule_of (fold (assign_some f key src) xs e) (key x) = (case f x of Some v \<Rightarrow> (v, src) | None \<Rightarrow> rule_of e (key x))"
proof (induction xs arbitrary: e)
  case (Cons y ys)
  show ?case
  proof (cases "x = y")
    case True
    then have "key x \<notin> key ` set ys" using Cons.prems(2) by auto
    then show ?thesis using True by (simp add: assign_loop_other rule_of_assign_some split: option.splits)
  next
    case False
    then have x: "x \<in> set ys" using Cons.prems by auto
    then have "key x \<in> key ` set ys" by (rule imageI)
    then have "key x \<noteq> key y" using Cons.prems(2) by auto
    then show ?thesis using x Cons by (simp add: rule_of_assign_some split: option.splits)
  qed
qed simp

definition override_of :: "RuleMap \<Rightarrow> string \<Rightarrow> RuleValue option" where
  "override_of m k = (case map_of m k of Some v \<Rightarrow> if v = RNone then None else Some v | None \<Rightarrow> None)"

definition set_override :: "string \<times> RuleValue \<Rightarrow> RuleValue option" where
  "set_override kv = (if FindRule (fst kv) = None \<or> snd kv = RNone then None else Some (snd kv))"

lemma loops_assign:
  "apply_cvar cvars = assign_some (cvar_value cvars) ri_key ''cvars''"
  "apply_override = assign_some set_override fst ''override''"
  by (simp_all add: fun_eq_iff apply_cvar_def apply_override_def assign_some_def set_override_def)

lemma rule_of_overrides:
  assumes "distinct (map fst m)" and "FindRule k \<noteq> None"
  shows "rule_of (fold apply_override m e) k =
    (case override_of m k of Some v \<Rightarrow> (v, ''override'') | None \<Rightarrow> rule_of e k)"
proof (cases "map_of m k")
  case None
  then have "k \<notin> fst ` set m" by (simp add: map_of_eq_None_iff)
  then show ?thesis using assign_loop_other [of k fst m] None by (simp add: loops_assign override_of_def)
next
  case (Some v)
  then have "(k, v) \<in> set m" by (rule map_of_SomeD)
  from assign_loop [OF this assms(1)] show ?thesis
    using Some assms(2) by (auto simp: loops_assign override_of_def set_override_def)
qed

lemma rule_of_match_rules [simp]: "rule_of (e\<lparr>er_match_rules := x\<rparr>) k = rule_of e k"
  by (simp add: rule_of_def or_none_def source_or_def)

lemma rule_of_resolved:
  assumes "r \<in> set RuleTable" and "distinct (map fst (in_overrides i))"
  shows "rule_of (ResolveEffective i) (ri_key r) =
    (case override_of (in_overrides i) (ri_key r) of
       Some v \<Rightarrow> (v, ''override'')
     | None \<Rightarrow> (case cvar_value (in_cvars i) r of Some v \<Rightarrow> (v, ''cvars'') | None \<Rightarrow> rule_of (base_rules i) (ri_key r)))"
proof -
  have "FindRule (ri_key r) \<noteq> None" using assms(1) FindRule_iff [of "ri_key r" r] by simp
  then show ?thesis
    using assign_loop [OF assms(1) table_keys_distinct, of "cvar_value (in_cvars i)" "''cvars''" "base_rules i"] assms(2)
    by (simp add: ResolveEffective_def Let_def rule_of_overrides loops_assign(1) del: not_None_eq split: option.split)
qed

lemma er_preset_keeps:
  "er_preset (fold apply_override m e) = er_preset e" "er_preset (fold (apply_cvar c) rs e) = er_preset e"
proof -
  show "er_preset (fold apply_override m e) = er_preset e"
    by (induction m arbitrary: e) (auto simp: apply_override_def assign_def)
  show "er_preset (fold (apply_cvar c) rs e) = er_preset e"
    by (induction rs arbitrary: e) (auto simp: apply_cvar_def assign_def split: option.splits)
qed

lemma base_rules_value:
  "rule_of (base_rules i) k = (v, src) \<Longrightarrow> src \<noteq> ''match'' \<Longrightarrow> in_ruleset i = Valve \<Longrightarrow> v = or_none (preset_of i) k"
  "in_ruleset i = Default_rules \<Longrightarrow> fst (rule_of (base_rules i) k) = or_none (preset_of i) k"
proof -
  show "rule_of (base_rules i) k = (v, src) \<Longrightarrow> src \<noteq> ''match'' \<Longrightarrow> in_ruleset i = Valve \<Longrightarrow> v = or_none (preset_of i) k"
    by (auto simp: base_rules_def Let_def rule_of_assign split: if_splits) (auto simp: rule_of_def)
  show "in_ruleset i = Default_rules \<Longrightarrow> fst (rule_of (base_rules i) k) = or_none (preset_of i) k"
    by (simp add: base_rules_def Let_def rule_of_def)
qed

lemma base_source: "snd (rule_of (base_rules i) k) \<noteq> ''override''"
proof -
  have "map_of (map (\<lambda>r. (ri_key r, ''preset'')) rs) k \<noteq> Some ''override''" for rs :: "RuleInfo list"
    by (induction rs) auto
  then have start: "source_or ''?'' e k \<noteq> ''override''" if "er_source e = map (\<lambda>r. (ri_key r, ''preset'')) RuleTable" for e
    unfolding source_or_def that by (auto split: option.split)
  have chain: "chain_source a b \<noteq> ''override''" for a b by (simp add: chain_source_def)
  have upd: "source_or ''?'' (e\<lparr>er_source := AList.update k' s (er_source e)\<rparr>) k = (if k = k' then s else source_or ''?'' e k)" for e k' s
    by (simp add: source_or_def update_conv')
  define e0 where "e0 = \<lparr>er_ruleset = in_ruleset i, er_values = preset_of i, er_preset = preset_of i,
    er_source = map (\<lambda>r. (ri_key r, ''preset'')) RuleTable, er_match_rules = ResolveRules (in_match i) (in_cfg i)\<rparr>"
  have e0: "source_or ''?'' e0 k \<noteq> ''override''" by (rule start) (simp add: e0_def)
  show ?thesis
  proof (cases "in_ruleset i = Default_rules")
    case True
    define s1 where "s1 = chain_source (tech_pauses_per_team (in_match i)) (tech_pauses_per_team (in_cfg i))"
    define s2 where "s2 = chain_source (tech_pause_max_seconds (in_match i)) (tech_pause_max_seconds (in_cfg i))"
    define e1 where "e1 = e0\<lparr>er_source := AList.update ''tech_pauses_per_team'' s1 (er_source e0)\<rparr>"
    have "base_rules i = e1\<lparr>er_source := AList.update ''tech_pause_seconds'' s2 (er_source e1)\<rparr>"
      unfolding base_rules_def Let_def e0_def [symmetric] s1_def [symmetric] s2_def [symmetric] by (simp add: True e1_def)
    moreover have "source_or ''?'' e1 k \<noteq> ''override''" using e0 chain upd [where e = e0] by (simp add: e1_def s1_def)
    ultimately show ?thesis using chain upd [where e = e1] by (simp add: rule_of_def s2_def)
  next
    case False
    have "snd (rule_of e0 k) \<noteq> ''override''" using e0 by (simp add: rule_of_def)
    then show ?thesis
      unfolding base_rules_def Let_def e0_def [symmetric] by (auto simp: False rule_of_assign)
  qed
qed

text \<open>
  C18: Where a rule comes from: an override of the match wins, then a match cvar the rule is backed by
  and that parses, then the preset with the pause keys; and the reported source says which it was. A
  rule that differs from the preset has one of the sources that can change it.
\<close>

theorem rules_precedence:
  assumes r: "r \<in> set RuleTable" and m: "distinct (map fst (in_overrides i))"
  defines "k \<equiv> ri_key r" and "e \<equiv> ResolveEffective i"
  shows "rule_of e k =
      (case override_of (in_overrides i) k of
         Some v \<Rightarrow> (v, ''override'')
       | None \<Rightarrow> (case cvar_value (in_cvars i) r of Some v \<Rightarrow> (v, ''cvars'') | None \<Rightarrow> rule_of (base_rules i) k))
    \<and> (k \<in> set (Differs e) \<longrightarrow> source_or ''?'' e k \<in> {''override'', ''cvars'', ''match''})"
proof -
  have spec: "rule_of e k =
      (case override_of (in_overrides i) k of
         Some v \<Rightarrow> (v, ''override'')
       | None \<Rightarrow> (case cvar_value (in_cvars i) r of Some v \<Rightarrow> (v, ''cvars'') | None \<Rightarrow> rule_of (base_rules i) k))"
    unfolding e_def k_def by (rule rule_of_resolved [OF r m])
  have preset: "er_preset e = preset_of i"
    by (auto simp: e_def ResolveEffective_def Let_def er_preset_keeps base_rules_def assign_def)
  have "source_or ''?'' e k \<in> {''override'', ''cvars'', ''match''}" if "k \<in> set (Differs e)"
  proof (rule ccontr)
    assume src: "source_or ''?'' e k \<notin> {''override'', ''cvars'', ''match''}"
    then have base: "rule_of e k = rule_of (base_rules i) k"
      using spec by (auto simp: rule_of_def split: option.splits)
    then have "or_none (er_values e) k = or_none (preset_of i) k"
      using base_rules_value [of i k] src by (cases "in_ruleset i") (auto simp: rule_of_def)
    with that preset show False by (simp add: Differs_def)
  qed
  with spec show ?thesis by blast
qed

definition sample_input :: RulesInput where
  "sample_input =
     \<lparr>in_ruleset = Valve, in_overrides = [(''zeus'', RInt 1)], in_match = UnsetRules, in_cfg = UnsetRules,
      in_cvars = [(''mp_freezetime'', ''15'')]\<rparr>"

lemma zeus_rule: "rule ''zeus'' KInt ''mp_weapons_allow_zeus'' (- 1) 10 \<in> set RuleTable"
  by (simp add: RuleTable_def)

lemma rules_precedence_witness: "rule_of (ResolveEffective sample_input) ''zeus'' = (RInt 1, ''override'')"
  using rules_precedence [OF zeus_rule, of sample_input]
  by (simp add: sample_input_def rule_def override_of_def)

subsection \<open>Commands\<close>

definition safe_command :: "string \<Rightarrow> bool" where
  "safe_command c \<longleftrightarrow>
     list_all (\<lambda>ch. 0x20 \<le> byte ch \<and> byte ch < 0x7F \<and> ch \<noteq> CHR '';'' \<and> ch \<noteq> backslash) c"

lemma safe_command_append [simp]: "safe_command (a @ b) \<longleftrightarrow> safe_command a \<and> safe_command b"
  by (simp add: safe_command_def)

lemma safe_digits: "list_all isdigit s \<Longrightarrow> safe_command s"
  by (auto simp: safe_command_def list_all_iff isdigit_def)

lemma safe_to_string: "safe_command (to_string i)"
  using safe_digits [OF list_all_isdigit_dec_nat] by (simp add: to_string_def) (simp add: safe_command_def)

lemma safe_quoted: "SafeQuoted s \<Longrightarrow> safe_command s"
  unfolding safe_command_def SafeQuoted_def by (erule list.pred_mono_strong) simp

lemma safe_bits: "safe_command ''0''" "safe_command ''1''" "safe_command []"
  by (simp_all add: safe_command_def)

definition name_chars :: string where
  "name_chars = ''abcdefghijklmnopqrstuvwxyz_''"

lemma safe_name: "list_all (\<lambda>c. c \<in> set name_chars) s \<Longrightarrow> safe_command s"
proof -
  have "safe_command name_chars" by (simp add: safe_command_def name_chars_def)
  then show "list_all (\<lambda>c. c \<in> set name_chars) s \<Longrightarrow> safe_command s" by (simp add: safe_command_def list_all_iff)
qed

lemma table_cvars:
  "list_all (\<lambda>r. case ri_cvar r of None \<Rightarrow> True | Some cv \<Rightarrow> ri_kind r \<noteq> KStr \<and> list_all (\<lambda>c. c \<in> set name_chars) cv) RuleTable"
  by code_simp

lemma safe_CvarValue:
  assumes "value_ok (ri_key r) x" and "r \<in> set RuleTable" and "ri_kind r \<noteq> KStr"
  shows "safe_command (CvarValue x)"
proof -
  have "ParseLeaf r (ToJson x) = Inr x" using assms FindRule_iff [of "ri_key r" r] by (auto simp: value_ok_def)
  with assms(3) show ?thesis
    by (cases x; cases "ri_kind r") (auto simp: ParseLeaf_def safe_to_string leaf_int_def leaf_bool_def safe_bits)
qed

lemma rule_command_safe:
  assumes m: "overrides_ok (in_overrides i)" and r: "r \<in> set RuleTable"
  shows "list_all safe_command (rule_command (ResolveEffective i) r)"
proof (cases "rule_command (ResolveEffective i) r = []")
  case False
  let ?e = "ResolveEffective i" and ?k = "ri_key r"
  obtain cv where cv: "ri_cvar r = Some cv" "rule_command ?e r = [cv @ '' '' @ CvarValue (or_none (er_values ?e) ?k)]"
    and src: "map_of (er_source ?e) ?k = Some ''override''"
    using False by (auto simp: rule_command_def split: option.splits if_splits)
  have tab: "ri_kind r \<noteq> KStr" "safe_command cv" using table_cvars r cv(1) safe_name [of cv] by (auto simp: list_all_iff)
  have "snd (rule_of ?e ?k) = ''override''" using src by (simp add: rule_of_def source_or_def)
  moreover have "distinct (map fst (in_overrides i))" using m by (simp add: overrides_ok_def)
  ultimately obtain v where v: "override_of (in_overrides i) ?k = Some v" "or_none (er_values ?e) ?k = v"
    using rule_of_resolved [OF r, of i] base_source [of i ?k]
    by (auto simp: rule_of_def split: option.splits)
  then have "map_of (in_overrides i) ?k = Some v" by (auto simp: override_of_def split: option.splits if_splits)
  then have "value_ok ?k v" using m by (simp add: overrides_ok_def)
  then have "safe_command (CvarValue v)" using r tab(1) by (rule safe_CvarValue)
  with tab(2) v(2) cv(2) show ?thesis by (simp add: safe_command_def)
qed simp

text \<open>
  C31: The commands sent for a match's rules are clean: whatever JSON the overrides came from, no
  command has a separator, a control character or a backslash, so none can be split into two.
\<close>

theorem rule_commands_safe:
  assumes "ParseOverrides obj = Inr (in_overrides i)"
  shows "list_all safe_command (RuleCommands (ResolveEffective i))"
proof -
  let ?e = "ResolveEffective i"
  have "list_all safe_command (concat (map (rule_command ?e) RuleTable))"
    using rule_command_safe [OF ParseOverrides_ok [OF assms]] by (auto simp: list_all_iff)
  moreover have "safe_command (''tv_broadcast_url '' @ quoted url)" if "SafeQuoted url" for url
    using safe_quoted [OF that] by (simp add: quoted_def) (simp add: safe_command_def)
  moreover have "safe_command (''tv_allow_camera_man_steamid '' @ cam)" if "IsDigits cam" for cam
    using that safe_digits by (simp add: IsDigits_def) (simp add: safe_command_def)
  moreover have "safe_command ''tv_broadcast 1''" by (simp add: safe_command_def)
  ultimately show ?thesis by (simp add: RuleCommands_def Let_def)
qed

lemma rule_commands_safe_witness: "list_all safe_command (RuleCommands (ResolveEffective sample_input))"
proof -
  have "ParseOverrides (JObject [(''zeus'', JInt 1)]) = Inr [(''zeus'', RInt 1)]" by code_simp
  then show ?thesis
    using rule_commands_safe [of "JObject [(''zeus'', JInt 1)]" sample_input] by (simp add: sample_input_def)
qed

subsection \<open>The report\<close>

primrec no_null :: "json \<Rightarrow> bool" where
  "no_null JNull = False"
| "no_null (JBool b) = True"
| "no_null (JInt i) = True"
| "no_null (JDouble d) = True"
| "no_null (JString s) = True"
| "no_null (JObject kvs) = list_all (\<lambda>(k, ok). ok) (map (map_prod (\<lambda>k. k) no_null) kvs)"
| "no_null (JArray xs) = list_all (\<lambda>ok. ok) (map no_null xs)"

lemma no_null_object: "no_null (JObject kvs) \<longleftrightarrow> (\<forall>v \<in> snd ` set kvs. no_null v)"
  by (auto simp: list_all_iff)

lemma set_set_member: "snd ` set (set_member p k v) \<subseteq> insert v (snd ` set p)"
  by (induction p k v rule: set_member.induct) auto

lemma no_null_put:
  assumes "\<forall>w \<in> snd ` set (Members j). no_null w" and "no_null v"
  shows "no_null (json_put j k v)"
  using assms set_set_member [of "Members j" k v] unfolding json_put_def no_null_object by blast

lemma no_null_members: "no_null j \<Longrightarrow> \<forall>w \<in> snd ` set (Members j). no_null w"
  by (cases j) (auto simp: list_all_iff)

lemma no_null_SetPath:
  assumes "no_null j" and "no_null v"
  shows "no_null (SetPath j k v)"
proof -
  have "\<forall>w \<in> snd ` set (Members (case Find j g of None \<Rightarrow> JNull | Some old \<Rightarrow> old)). no_null w" for g
    using no_null_members [OF assms(1)] no_null_members
    by (auto simp: Find_def split: option.splits dest!: map_of_SomeD) (metis image_eqI snd_conv)
  then show ?thesis
    using assms no_null_members [OF assms(1)]
    by (cases "find_sub ''.'' k") (simp_all add: SetPath_def Let_def no_null_put)
qed

lemma no_null_put_rule: "no_null j \<Longrightarrow> no_null (put_rule m k j)"
proof -
  have "no_null (ToJson x)" if "x \<noteq> RNone" for x using that by (cases x) auto
  then show "no_null j \<Longrightarrow> no_null (put_rule m k j)" by (auto simp: put_rule_def no_null_SetPath split: option.splits)
qed

lemma no_null_fold: "no_null j \<Longrightarrow> (\<And>x j. no_null j \<Longrightarrow> no_null (f x j)) \<Longrightarrow> no_null (fold f xs j)"
  by (induction xs arbitrary: j) auto

lemma no_null_Push: "no_null j \<Longrightarrow> no_null (Push j (JString s))"
  by (cases j) (auto simp: Push_def list_all_iff)

text \<open>
  C33: The report of the effective rules never contains null: values that are the server's own are
  left out, on every level.
\<close>

theorem report_has_no_null: "no_null (EffectiveRulesJson e)"
proof -
  have put: "no_null j \<Longrightarrow> no_null v \<Longrightarrow> no_null (json_put j k v)" for j k v
    using no_null_put no_null_members by blast
  have "no_null (rules_json m)" "no_null (fold (put_rule m) ks (JObject []))" for m ks
    by (auto simp: rules_json_def intro: no_null_fold no_null_put_rule)
  moreover have "no_null (fold (\<lambda>k j. Push j (JString k)) ks (JArray []))" for ks
    by (rule no_null_fold) (simp_all add: no_null_Push)
  moreover have "no_null (fold (\<lambda>k j. json_put j k (JString (f k))) ks (JObject []))" for f ks
    by (rule no_null_fold) (simp_all add: put)
  ultimately show ?thesis unfolding EffectiveRulesJson_def Let_def by (intro put) simp_all
qed

lemma knife_rule: "rule ''allow_knife'' KBool [] 0 1 \<in> set RuleTable"
  by (simp add: RuleTable_def)

lemma er_ruleset_loop [simp]: "er_ruleset (fold (assign_some f key src) xs e) = er_ruleset e"
  by (induction xs arbitrary: e) (auto simp: assign_some_def assign_def split: option.splits)

lemma er_ruleset_resolved: "er_ruleset (ResolveEffective i) = in_ruleset i"
  unfolding ResolveEffective_def Let_def loops_assign by (simp add: base_rules_def Let_def assign_def)

lemma valve_base:
  assumes "in_ruleset i = Valve"
  shows "rule_of (base_rules i) ''allow_knife'' = (RBool False, ''preset'')"
proof -
  have "map_of (map (\<lambda>r. (ri_key r, ''preset'')) RuleTable) ''allow_knife'' = Some ''preset''"
    "map_of (PresetRules Valve) ''allow_knife'' = Some (RBool False)" by code_simp+
  then show ?thesis
    using assms by (simp add: base_rules_def Let_def rule_of_assign preset_of_def)
      (simp add: rule_of_def or_none_def source_or_def preset_of_def)
qed



end
