(* ===== verification/Slot_Registry.thy ===== *)
theory Slot_Registry
  imports Coach_Rules "HOL-Library.AList"
begin

text \<open>
  Who is on the server (core/src/readyup/slot_registry.h and slot_registry.cpp), and the log listener
  that feeds it (core/src/readyup/client_command_hook.cpp). The three locks are the atomicity of each
  operation; the clock is an argument. An unordered map is an association list, and what is shown
  does not depend on its order. What a log line makes other modules do is a list of actions.
\<close>

section \<open>The registry\<close>

record SlotIdentity =
  si_slot :: int
  si_steamid64 :: u64
  si_name :: string

record BotIdentity =
  bi_userid :: int
  bi_pseudo_id :: u64
  bi_name :: string
  bi_team :: int

datatype TeamSource = Source_None | Source_Log | Source_Event

record HumanIdentity =
  hu_userid :: int
  hu_slot :: int
  hu_steamid64 :: u64
  hu_name :: string
  hu_team :: int
  hu_teamSource :: TeamSource
  hu_teamAt :: seconds

record Registry =
  rg_slotToId :: "(int \<times> SlotIdentity) list"
  rg_bots :: "(int \<times> BotIdentity) list"
  rg_humans :: "(u64 \<times> HumanIdentity) list"
  rg_departed :: "u64 set"

definition empty_registry :: Registry where
  "empty_registry = \<lparr>rg_slotToId = [], rg_bots = [], rg_humans = [], rg_departed = {}\<rparr>"

definition ObserveSlotIdentity :: "int \<Rightarrow> u64 \<Rightarrow> string \<Rightarrow> Registry \<Rightarrow> Registry" where
  "ObserveSlotIdentity slot steamid64 name r =
     (if slot < 0 \<or> steamid64 = 0 \<or> name = [] then r
      else r\<lparr>rg_slotToId :=
               AList.update slot \<lparr>si_slot = slot, si_steamid64 = steamid64, si_name = name\<rparr> (rg_slotToId r)\<rparr>)"

definition GetSlotIdentity :: "int \<Rightarrow> Registry \<Rightarrow> SlotIdentity option" where
  "GetSlotIdentity slot r = map_of (rg_slotToId r) slot"

definition ListSlotIdentities :: "Registry \<Rightarrow> SlotIdentity list" where
  "ListSlotIdentities r = map snd (rg_slotToId r)"

definition kDevBotIdBase :: u64 where
  "kDevBotIdBase = 0xB0B0000000000000"

unbundle bit_operations_syntax

definition DevBotIdForUserid :: "int \<Rightarrow> u64" where
  "DevBotIdForUserid userid = kDevBotIdBase OR ucast (word_of_int userid :: 32 word)"

definition IsDevBotId :: "u64 \<Rightarrow> bool" where
  "IsDevBotId i \<longleftrightarrow> i AND 0xFFFF000000000000 = kDevBotIdBase"

definition new_bot :: BotIdentity where
  "new_bot = \<lparr>bi_userid = - 1, bi_pseudo_id = 0, bi_name = [], bi_team = 0\<rparr>"

definition ObserveBot :: "int \<Rightarrow> string \<Rightarrow> int \<Rightarrow> Registry \<Rightarrow> Registry" where
  "ObserveBot userid name team r =
     (if userid < 0 then r
      else
        let b = (case map_of (rg_bots r) userid of None \<Rightarrow> new_bot | Some b \<Rightarrow> b)
        in r\<lparr>rg_bots :=
               AList.update userid
                 (b\<lparr>bi_userid := userid, bi_pseudo_id := DevBotIdForUserid userid,
                    bi_name := (if name \<noteq> [] then name else bi_name b),
                    bi_team := (if team \<ge> 0 then team else bi_team b)\<rparr>) (rg_bots r)\<rparr>)"

definition ForgetBot :: "int \<Rightarrow> Registry \<Rightarrow> Registry" where
  "ForgetBot userid r = r\<lparr>rg_bots := AList.delete userid (rg_bots r)\<rparr>"

definition ClearBots :: "Registry \<Rightarrow> Registry" where
  "ClearBots r = r\<lparr>rg_bots := []\<rparr>"

definition ListBots :: "Registry \<Rightarrow> BotIdentity list" where
  "ListBots r = map snd (rg_bots r)"

definition ForgetSlotIdentitiesForSteam :: "u64 \<Rightarrow> Registry \<Rightarrow> Registry" where
  "ForgetSlotIdentitiesForSteam steamid64 r =
     (if steamid64 = 0 then r
      else r\<lparr>rg_slotToId := filter (\<lambda>kv. si_steamid64 (snd kv) \<noteq> steamid64) (rg_slotToId r)\<rparr>)"

text \<open>Latest observation wins; an older one never overwrites a newer one.\<close>

definition ApplyTeamLocked :: "int \<Rightarrow> TeamSource \<Rightarrow> seconds \<Rightarrow> HumanIdentity \<Rightarrow> HumanIdentity" where
  "ApplyTeamLocked team src when h =
     (if team < 0 then h
      else if hu_teamSource h \<noteq> Source_None \<and> when < hu_teamAt h then h
      else h\<lparr>hu_team := team, hu_teamSource := src, hu_teamAt := when\<rparr>)"

definition new_human :: HumanIdentity where
  "new_human = \<lparr>hu_userid = - 1, hu_slot = - 1, hu_steamid64 = 0, hu_name = [], hu_team = 0,
                hu_teamSource = Source_None, hu_teamAt = 0\<rparr>"

text \<open>A userid belongs to one live client: whoever held it before is gone.\<close>

definition drop_holders :: "int \<Rightarrow> u64 \<Rightarrow> (u64 \<times> HumanIdentity) list \<Rightarrow> (u64 \<times> HumanIdentity) list" where
  "drop_holders userid steamid64 hs =
     (if userid \<ge> 0 then filter (\<lambda>kv. \<not> (fst kv \<noteq> steamid64 \<and> hu_userid (snd kv) = userid)) hs else hs)"

definition ObserveHuman :: "seconds \<Rightarrow> int \<Rightarrow> u64 \<Rightarrow> string \<Rightarrow> int \<Rightarrow> Registry \<Rightarrow> Registry" where
  "ObserveHuman now userid steamid64 name team r =
     (if steamid64 = 0 then r
      else
        let hs = drop_holders userid steamid64 (rg_humans r);
            h = (case map_of hs steamid64 of None \<Rightarrow> new_human | Some h \<Rightarrow> h);
            h1 = h\<lparr>hu_steamid64 := steamid64, hu_userid := (if userid \<ge> 0 then userid else hu_userid h),
                   hu_name := (if name \<noteq> [] then name else hu_name h)\<rparr>
        in r\<lparr>rg_humans := AList.update steamid64 (ApplyTeamLocked team Source_Log now h1) hs\<rparr>)"

definition ObserveHumanTeamFromEvent :: "seconds \<Rightarrow> u64 \<Rightarrow> int \<Rightarrow> int \<Rightarrow> Registry \<Rightarrow> bool \<times> Registry" where
  "ObserveHumanTeamFromEvent now steamid64 slot team r =
     (if steamid64 = 0 then (False, r)
      else case map_of (rg_humans r) steamid64 of
             None \<Rightarrow> (False, r)
           | Some h \<Rightarrow>
               let h1 = (if slot \<ge> 0 then h\<lparr>hu_slot := slot\<rparr> else h)
               in (True, r\<lparr>rg_humans := AList.update steamid64 (ApplyTeamLocked team Source_Event now h1) (rg_humans r)\<rparr>))"

definition ObserveHumanSlot :: "u64 \<Rightarrow> int \<Rightarrow> Registry \<Rightarrow> Registry" where
  "ObserveHumanSlot steamid64 slot r =
     (if steamid64 = 0 \<or> slot < 0 then r
      else case map_of (rg_humans r) steamid64 of
             None \<Rightarrow> r
           | Some h \<Rightarrow> r\<lparr>rg_humans := AList.update steamid64 (h\<lparr>hu_slot := slot\<rparr>) (rg_humans r)\<rparr>)"

fun TeamSourceName :: "TeamSource \<Rightarrow> string" where
  "TeamSourceName Source_None = ''none''"
| "TeamSourceName Source_Log = ''log''"
| "TeamSourceName Source_Event = ''event''"

definition ForgetHuman :: "u64 \<Rightarrow> Registry \<Rightarrow> Registry" where
  "ForgetHuman steamid64 r =
     r\<lparr>rg_humans := AList.delete steamid64 (rg_humans r),
       rg_departed := (if steamid64 \<noteq> 0 then insert steamid64 (rg_departed r) else rg_departed r)\<rparr>"

definition AcceptHumanLogLine :: "u64 \<Rightarrow> bool \<Rightarrow> bool \<Rightarrow> Registry \<Rightarrow> bool \<times> Registry" where
  "AcceptHumanLogLine steamid64 leaving connectLine r =
     (if leaving then (True, r)
      else if steamid64 \<notin> rg_departed r then (True, r)
      else if \<not> connectLine then (False, r)
      else (True, r\<lparr>rg_departed := rg_departed r - {steamid64}\<rparr>))"

definition ResetHumanTeams :: "seconds \<Rightarrow> Registry \<Rightarrow> Registry" where
  "ResetHumanTeams now r =
     r\<lparr>rg_humans :=
         map (\<lambda>kv. (fst kv, (snd kv)\<lparr>hu_team := 0, hu_teamSource := Source_None, hu_teamAt := now\<rparr>)) (rg_humans r)\<rparr>"

definition reconcile_one :: "seconds \<Rightarrow> (int \<Rightarrow> int) \<Rightarrow> u64 \<times> HumanIdentity \<Rightarrow> int \<times> Registry \<Rightarrow> int \<times> Registry" where
  "reconcile_one now engineTeam kv st =
     (let t = engineTeam (hu_slot (snd kv))
      in if t < 0 \<or> t > 3 \<or> t = hu_team (snd kv) then st
         else
           let (ok, r) = ObserveHumanTeamFromEvent now (fst kv) (hu_slot (snd kv)) t (snd st)
           in (if ok then fst st + 1 else fst st, r))"

definition ReconcileHumanTeams :: "seconds \<Rightarrow> (int \<Rightarrow> int) \<Rightarrow> Registry \<Rightarrow> int \<times> Registry" where
  "ReconcileHumanTeams now engineTeam r =
     fold (reconcile_one now engineTeam) (filter (\<lambda>kv. hu_slot (snd kv) \<ge> 0) (rg_humans r)) (0, r)"

definition ListHumans :: "Registry \<Rightarrow> HumanIdentity list" where
  "ListHumans r = map snd (rg_humans r)"

section \<open>Log lines\<close>

definition between :: "string \<Rightarrow> nat \<Rightarrow> nat \<Rightarrow> string" where
  "between s i j = take (j - i) (drop i s)"

definition ExtractQuoted :: "string \<Rightarrow> nat \<Rightarrow> (string \<times> nat) option" where
  "ExtractQuoted s i =
     (case find_from [quote_char] s i of
        None \<Rightarrow> None
      | Some q1 \<Rightarrow>
          (case find_from [quote_char] s (q1 + 1) of
             None \<Rightarrow> None
           | Some q2 \<Rightarrow> Some (between s (q1 + 1) q2, q2 + 1)))"

text \<open>Name, slot and Steam id of \<open>name<userid><steamid><team>\<close>.\<close>

definition ParseHeader :: "string \<Rightarrow> string \<times> int \<times> u64" where
  "ParseHeader header =
     (case find_from ''<'' header 0 of
        None \<Rightarrow> (header, - 1, 0)
      | Some a \<Rightarrow>
          let b = find_from ''>'' header (a + 1);
              slot = (case b of None \<Rightarrow> - 1 | Some b \<Rightarrow> atoi (between header (a + 1) b));
              c = find_from ''<'' header (case b of None \<Rightarrow> 0 | Some b \<Rightarrow> b + 1);
              d = find_from ''>'' header (case c of None \<Rightarrow> 0 | Some c \<Rightarrow> c + 1)
          in (take a header, slot,
              case (c, d) of (Some c, Some d) \<Rightarrow> ParseSteamId64Loose (between header (c + 1) d) | _ \<Rightarrow> 0))"

definition TeamFromLogName :: "string \<Rightarrow> int" where
  "TeamFromLogName t =
     (if t = ''CT'' then 3 else if t = ''TERRORIST'' then 2 else if t = ''Spectator'' then 1
      else if t = ''Unassigned'' then 0 else - 1)"

text \<open>The loop over the groups, with the number of groups to skip.\<close>

fun team_loop :: "nat \<Rightarrow> nat \<Rightarrow> string \<Rightarrow> int" where
  "team_loop skip pos header =
     (case find_from ''<'' header pos of
        None \<Rightarrow> - 1
      | Some a \<Rightarrow>
          (case find_from ''>'' header (a + 1) of
             None \<Rightarrow> - 1
           | Some b \<Rightarrow>
               if skip = 0 then TeamFromLogName (between header (a + 1) b)
               else team_loop (skip - 1) (b + 1) header))"

definition TeamFromHeader :: "string \<Rightarrow> int" where
  "TeamFromHeader header = team_loop 3 0 header"

definition IdGroupFromHeader :: "string \<Rightarrow> string" where
  "IdGroupFromHeader header =
     (case find_from ''<'' header 0 of
        None \<Rightarrow> []
      | Some a \<Rightarrow>
          (case find_from ''>'' header (a + 1) of
             None \<Rightarrow> []
           | Some b \<Rightarrow>
               (case find_from ''<'' header (b + 1) of
                  None \<Rightarrow> []
                | Some c \<Rightarrow>
                    (case find_from ''>'' header (c + 1) of
                       None \<Rightarrow> []
                     | Some d \<Rightarrow> between header (c + 1) d))))"

definition TeamFromSwitchLine :: "string \<Rightarrow> int" where
  "TeamFromSwitchLine line =
     (case find_from ''switched from team <'' line 0 of
        None \<Rightarrow> - 1
      | Some sw \<Rightarrow>
          (case find_from '' to <'' line sw of
             None \<Rightarrow> - 1
           | Some to \<Rightarrow>
               (case find_from ''>'' line (to + 5) of
                  None \<Rightarrow> - 1
                | Some e \<Rightarrow> TeamFromLogName (between line (to + 5) e))))"

definition IsConnectLine :: "string \<Rightarrow> bool" where
  "IsConnectLine line \<longleftrightarrow>
     contains ([quote_char] @ '' connected, address '' @ [quote_char]) line
     \<or> contains ([quote_char] @ '' entered the game'') line"

definition kLogPrefix :: string where
  "kLogPrefix = ''[ReadyUp]''"

datatype RuEvent = Ev_None | Ev_PlayerDisconnect | Ev_PlayerTeam | Ev_PlayerConnect

record LifecycleEvent =
  le_type :: RuEvent
  le_slot :: int
  le_steamid64 :: u64
  le_name :: string
  le_team :: int
  le_old_team :: int

datatype LogAction =
  Observe_Lifecycle string
| Observe_SlotTeam int int
| Post_Event LifecycleEvent
| Route_Chat u64 string string

definition is_chat :: "string \<Rightarrow> bool" where
  "is_chat line \<longleftrightarrow>
     contains ([quote_char] @ '' say '' @ [quote_char]) line \<or> contains ([quote_char] @ '' say_team '' @ [quote_char]) line"

definition is_leaving :: "string \<Rightarrow> bool" where
  "is_leaving line \<longleftrightarrow> contains ([quote_char] @ '' disconnected (reason'') line"

definition map_line :: "seconds \<Rightarrow> string \<Rightarrow> Registry \<Rightarrow> Registry" where
  "map_line now line r =
     (if \<not> is_chat line \<and> (contains (''Loading map '' @ [quote_char]) line \<or> contains (''Started map '' @ [quote_char]) line)
      then ResetHumanTeams now (ClearBots r) else r)"

definition switched_team :: "string \<Rightarrow> int" where
  "switched_team line = (if is_chat line then - 1 else TeamFromSwitchLine line)"

definition line_team :: "string \<Rightarrow> string \<Rightarrow> int" where
  "line_team header line = (if switched_team line \<ge> 0 then switched_team line else TeamFromHeader header)"

definition bot_line :: "string \<Rightarrow> string \<Rightarrow> string \<Rightarrow> int \<Rightarrow> Registry \<Rightarrow> Registry" where
  "bot_line line header name slot r =
     (if contains ([quote_char] @ '' disconnected'') line then ForgetBot slot r
      else ObserveBot slot name (line_team header line) r)"

definition log_event :: "string \<Rightarrow> string \<Rightarrow> string \<Rightarrow> int \<Rightarrow> u64 \<Rightarrow> LogAction list" where
  "log_event line header name slot sid =
     (let e = \<lparr>le_type = Ev_None, le_slot = slot, le_steamid64 = sid, le_name = name, le_team = 0, le_old_team = 0\<rparr>;
          e1 = (if is_leaving line then e\<lparr>le_type := Ev_PlayerDisconnect\<rparr>
                else if switched_team line \<ge> 0
                then e\<lparr>le_type := Ev_PlayerTeam, le_team := switched_team line, le_old_team := max 0 (TeamFromHeader header)\<rparr>
                else if contains ([quote_char] @ '' entered the game'') line then e\<lparr>le_type := Ev_PlayerConnect\<rparr> else e)
      in if le_type e1 \<noteq> Ev_None then [Post_Event e1] else [])"

text \<open>A line with a player's header that was accepted.\<close>

definition player_line :: "bool \<Rightarrow> seconds \<Rightarrow> string \<Rightarrow> string \<Rightarrow> string \<Rightarrow> int \<Rightarrow> u64 \<Rightarrow> Registry \<Rightarrow> LogAction list \<times> Registry" where
  "player_line eventsInstalled now line header name slot sid r =
     (let team = line_team header line;
          leaving = (\<not> is_chat line \<and> is_leaving line);
          r1 = ObserveSlotIdentity slot sid name r;
          acts = (if team \<ge> 0 then [Observe_SlotTeam slot team] else [])
                 @ (if \<not> is_chat line \<and> \<not> eventsInstalled then log_event line header name slot sid else [])
      in if leaving
         then (acts @ [Observe_SlotTeam slot 0], ForgetSlotIdentitiesForSteam sid (ForgetHuman sid r1))
         else (acts, ObserveHuman now slot sid name team r1))"

definition chat_message :: "string \<Rightarrow> string option" where
  "chat_message line =
     (case (case find_sub ('' say_team '' @ [quote_char]) line of
              Some p \<Rightarrow> Some (p + 11)
            | None \<Rightarrow> map_option (\<lambda>p. p + 6) (find_sub ('' say '' @ [quote_char]) line)) of
        None \<Rightarrow> None
      | Some start \<Rightarrow> map_option (\<lambda>e. between line start e) (find_from [quote_char] line start))"

definition console_header :: string where
  "console_header = ''Console<0><Console><Console>''"

definition route_chat :: "string \<Rightarrow> string \<Rightarrow> string \<Rightarrow> u64 \<Rightarrow> LogAction list" where
  "route_chat line header name sid =
     (case chat_message line of
        None \<Rightarrow> []
      | Some msg \<Rightarrow>
          if length msg > 1 \<and> hd msg = CHR ''.'' \<and> \<not> (sid = 0 \<and> header \<noteq> console_header)
          then [Route_Chat sid name msg] else [])"

definition HandleLogLine :: "bool \<Rightarrow> seconds \<Rightarrow> string \<Rightarrow> Registry \<Rightarrow> LogAction list \<times> Registry" where
  "HandleLogLine eventsInstalled now line r =
     (if line = [] \<or> contains kLogPrefix line then ([], r)
      else
        let r0 = map_line now line r
        in case ExtractQuoted line 0 of
             None \<Rightarrow> ([Observe_Lifecycle line], r0)
           | Some (header, _) \<Rightarrow>
               let (name, slot, sid) = ParseHeader header
               in if sid = 0 \<and> slot \<ge> 0 \<and> IdGroupFromHeader header = ''BOT''
                  then ([Observe_Lifecycle line], bot_line line header name slot r0)
                  else if contains ''<'' header \<and> sid \<noteq> 0
                  then
                    let (ok, r1) = AcceptHumanLogLine sid (\<not> is_chat line \<and> is_leaving line)
                                     (\<not> is_chat line \<and> IsConnectLine line) r0
                    in if \<not> ok then ([Observe_Lifecycle line], r1)
                       else
                         let (acts, r2) = player_line eventsInstalled now line header name slot sid r1
                         in (Observe_Lifecycle line # acts @ route_chat line header name sid, r2)
                  else (Observe_Lifecycle line # route_chat line header name sid, r0))"

declare team_loop.simps [simp del]

section \<open>Nobody holds another's number\<close>

lemma map_of_filter_iff:
  "distinct (map fst xs) \<Longrightarrow> map_of (filter P xs) k = Some v \<longleftrightarrow> map_of xs k = Some v \<and> P (k, v)"
  by (induction xs) (auto simp: map_of_eq_None_iff image_iff)

lemma distinct_map_filter: "distinct (map fst xs) \<Longrightarrow> distinct (map fst (filter P xs))"
  by (induction xs) auto

definition humans :: "Registry \<Rightarrow> u64 \<Rightarrow> HumanIdentity option" where
  "humans r = map_of (rg_humans r)"

text \<open>
  The humans have their own Steam ids as keys, no two the same userid, and none of them has left; a
  player who left is not in the slot table either. Bots have the ids made from their userids.
\<close>

definition humans_ok :: "Registry \<Rightarrow> bool" where
  "humans_ok r \<longleftrightarrow>
     distinct (map fst (rg_humans r)) \<and>
     (\<forall>k h. humans r k = Some h \<longrightarrow> k \<noteq> 0 \<and> hu_steamid64 h = k \<and> k \<notin> rg_departed r) \<and>
     (\<forall>k h k' h'. humans r k = Some h \<longrightarrow> humans r k' = Some h' \<longrightarrow> hu_userid h = hu_userid h' \<longrightarrow> 0 \<le> hu_userid h \<longrightarrow> k = k')"

definition slots_ok :: "Registry \<Rightarrow> bool" where
  "slots_ok r \<longleftrightarrow> (\<forall>s \<in> snd ` set (rg_slotToId r). si_steamid64 s \<notin> rg_departed r)"

definition bots_ok :: "Registry \<Rightarrow> bool" where
  "bots_ok r \<longleftrightarrow>
     distinct (map fst (rg_bots r)) \<and> (\<forall>(u, b) \<in> set (rg_bots r). 0 \<le> u \<and> bi_userid b = u \<and> bi_pseudo_id b = DevBotIdForUserid u)"

lemma ApplyTeam_sel [simp]:
  "hu_userid (ApplyTeamLocked t s w h) = hu_userid h" "hu_steamid64 (ApplyTeamLocked t s w h) = hu_steamid64 h"
  "hu_slot (ApplyTeamLocked t s w h) = hu_slot h" "hu_name (ApplyTeamLocked t s w h) = hu_name h"
  by (simp_all add: ApplyTeamLocked_def)

lemma drop_holders_iff:
  "distinct (map fst hs) \<Longrightarrow>
   map_of (drop_holders u k hs) k' = Some h \<longleftrightarrow> map_of hs k' = Some h \<and> (0 \<le> u \<longrightarrow> k' = k \<or> hu_userid h \<noteq> u)"
  by (auto simp: drop_holders_def map_of_filter_iff)

lemma humans_ok_update:
  assumes "humans_ok r" and "humans r k = Some h" and "hu_userid h' = hu_userid h" "hu_steamid64 h' = hu_steamid64 h"
  shows "humans_ok (r\<lparr>rg_humans := AList.update k h' (rg_humans r)\<rparr>)"
  using assms by (auto simp: humans_ok_def humans_def update_conv' distinct_update split: if_splits)

lemma humans_ok_ObserveHuman:
  assumes ok: "humans_ok r" and sid: "sid \<notin> rg_departed r"
  shows "humans_ok (ObserveHuman now u sid name team r)"
proof (cases "sid = 0")
  case False
  define hs where "hs = drop_holders u sid (rg_humans r)"
  have d: "distinct (map fst (rg_humans r))" using ok by (simp add: humans_ok_def)
  then have dhs: "distinct (map fst hs)" by (simp add: hs_def drop_holders_def distinct_map_filter)
  have hs: "map_of hs k = Some h \<longleftrightarrow> humans r k = Some h \<and> (0 \<le> u \<longrightarrow> k = sid \<or> hu_userid h \<noteq> u)" for k h
    using drop_holders_iff [OF d] by (simp add: hs_def humans_def)
  obtain h where h: "ObserveHuman now u sid name team r = r\<lparr>rg_humans := AList.update sid h hs\<rparr>"
    "hu_steamid64 h = sid"
    "hu_userid h = (if 0 \<le> u then u else case map_of hs sid of None \<Rightarrow> - 1 | Some h \<Rightarrow> hu_userid h)"
    using False by (auto simp: ObserveHuman_def Let_def hs_def new_human_def split: option.splits)
  have uniq: "k = k'" if "humans r k = Some a" "humans r k' = Some b" "hu_userid a = hu_userid b" "0 \<le> hu_userid a" for k k' a b
    using ok that unfolding humans_ok_def by blast
  have other: "hu_userid a \<noteq> hu_userid h" if a: "map_of hs k = Some a" "k \<noteq> sid" "0 \<le> hu_userid h" for k a
  proof (cases "0 \<le> u")
    case True
    then show ?thesis using a hs h(3) by auto
  next
    case False
    then obtain h0 where "map_of hs sid = Some h0" "hu_userid h0 = hu_userid h"
      using a(3) h(3) by (cases "map_of hs sid") auto
    then show ?thesis using a hs uniq [of sid h0 k a] by auto
  qed
  let ?r = "r\<lparr>rg_humans := AList.update sid h hs\<rparr>"
  have new: "humans ?r k = (if k = sid then Some h else map_of hs k)" for k by (simp add: humans_def update_conv')
  have old: "humans r k = Some a" "k \<noteq> 0 \<and> hu_steamid64 a = k \<and> k \<notin> rg_departed r" if "map_of hs k = Some a" for k a
    using that hs ok unfolding humans_ok_def by blast+
  have "k = k'" if k: "humans ?r k = Some a" "humans ?r k' = Some b" "hu_userid a = hu_userid b" "0 \<le> hu_userid a" for k k' a b
    using k other [of k a] other [of k' b] uniq [OF old(1) old(1)] by (auto simp: new split: if_splits)
  moreover have "k \<noteq> 0 \<and> hu_steamid64 a = k \<and> k \<notin> rg_departed r" if "humans ?r k = Some a" for k a
    using that old(2) sid False h(2) by (auto simp: new split: if_splits)
  moreover have "distinct (map fst (AList.update sid h hs))" using dhs by (simp add: distinct_update)
  ultimately show ?thesis unfolding humans_ok_def h(1) by simp
qed (use ok in \<open>simp add: ObserveHuman_def\<close>)

lemma set_update_sub: "set (AList.update k v al) \<subseteq> insert (k, v) (set al)"
  by (induction al) auto

lemma bots_ok_ObserveBot: "bots_ok r \<Longrightarrow> bots_ok (ObserveBot u name team r)"
  using set_update_sub [of u _ "rg_bots r"]
  by (fastforce simp: bots_ok_def ObserveBot_def Let_def distinct_update)

lemma bots_ok_keeps [simp]:
  "bots_ok (ObserveSlotIdentity s k n r) = bots_ok r" "bots_ok (ObserveHuman now u k n t r) = bots_ok r"
  "bots_ok (ForgetHuman k r) = bots_ok r" "bots_ok (ForgetSlotIdentitiesForSteam k r) = bots_ok r"
  "bots_ok (ResetHumanTeams now r) = bots_ok r" "bots_ok (snd (AcceptHumanLogLine k l c r)) = bots_ok r"
  "bots_ok (ObserveHumanSlot k s r) = bots_ok r" "bots_ok (snd (ObserveHumanTeamFromEvent now k s t r)) = bots_ok r"
  by (simp_all add: bots_ok_def ObserveSlotIdentity_def ObserveHuman_def ForgetHuman_def ForgetSlotIdentitiesForSteam_def
      ResetHumanTeams_def AcceptHumanLogLine_def ObserveHumanSlot_def ObserveHumanTeamFromEvent_def Let_def split: option.splits)

lemma delete_set_sub: "x \<in> set (AList.delete k al) \<Longrightarrow> x \<in> set al"
  by (induction al) (auto split: if_splits)

lemma bots_ok_bot_line: "bots_ok r \<Longrightarrow> bots_ok (bot_line line header name slot r)"
proof -
  assume ok: "bots_ok r"
  then have "bots_ok (ForgetBot slot r)"
    by (auto simp: bots_ok_def ForgetBot_def distinct_delete dest!: delete_set_sub)
  with ok show ?thesis by (simp add: bot_line_def bots_ok_ObserveBot)
qed

lemma humans_ok_cong:
  "rg_humans r' = rg_humans r \<Longrightarrow> rg_departed r' = rg_departed r \<Longrightarrow> humans_ok r' = humans_ok r"
  by (simp add: humans_ok_def humans_def)

lemma slots_ok_cong:
  "rg_slotToId r' = rg_slotToId r \<Longrightarrow> rg_departed r' = rg_departed r \<Longrightarrow> slots_ok r' = slots_ok r"
  by (simp add: slots_ok_def)

definition people_ok :: "Registry \<Rightarrow> bool" where
  "people_ok r \<longleftrightarrow> humans_ok r \<and> slots_ok r"

lemma map_of_map_values: "map_of (map (\<lambda>kv. (fst kv, f (snd kv))) xs) k = map_option f (map_of xs k)"
  by (induction xs) auto

lemma people_ok_reset: "people_ok r \<Longrightarrow> people_ok (ResetHumanTeams now r)"
proof -
  assume ok: "people_ok r"
  have m: "humans (ResetHumanTeams now r) k = map_option (\<lambda>h. h\<lparr>hu_team := 0, hu_teamSource := Source_None, hu_teamAt := now\<rparr>) (humans r k)" for k
    unfolding humans_def ResetHumanTeams_def
    using map_of_map_values [of "\<lambda>h. h\<lparr>hu_team := 0, hu_teamSource := Source_None, hu_teamAt := now\<rparr>" "rg_humans r" k] by simp
  have "distinct (map fst (rg_humans (ResetHumanTeams now r)))"
    using ok by (simp add: people_ok_def humans_ok_def ResetHumanTeams_def comp_def)
  moreover have "rg_departed (ResetHumanTeams now r) = rg_departed r" "rg_slotToId (ResetHumanTeams now r) = rg_slotToId r"
    by (simp_all add: ResetHumanTeams_def)
  ultimately show ?thesis using ok unfolding people_ok_def humans_ok_def slots_ok_def m by (auto simp: map_option_eq_Some)
qed

lemma bot_line_sel [simp]:
  "rg_humans (bot_line line header name slot r) = rg_humans r"
  "rg_departed (bot_line line header name slot r) = rg_departed r"
  "rg_slotToId (bot_line line header name slot r) = rg_slotToId r"
proof -
  have "bot_line line header name slot r \<in> {ForgetBot slot r, ObserveBot slot name (line_team header line) r}"
    by (simp add: bot_line_def)
  moreover have "rg_humans (ForgetBot slot r) = rg_humans r \<and> rg_departed (ForgetBot slot r) = rg_departed r
      \<and> rg_slotToId (ForgetBot slot r) = rg_slotToId r" by (simp add: ForgetBot_def)
  moreover have "rg_humans (ObserveBot slot name t r) = rg_humans r \<and> rg_departed (ObserveBot slot name t r) = rg_departed r
      \<and> rg_slotToId (ObserveBot slot name t r) = rg_slotToId r" for t by (simp add: ObserveBot_def Let_def)
  ultimately show "rg_humans (bot_line line header name slot r) = rg_humans r"
    "rg_departed (bot_line line header name slot r) = rg_departed r"
    "rg_slotToId (bot_line line header name slot r) = rg_slotToId r" by auto
qed

lemma people_ok_cong:
  "rg_humans r' = rg_humans r \<Longrightarrow> rg_departed r' = rg_departed r \<Longrightarrow> rg_slotToId r' = rg_slotToId r \<Longrightarrow>
   people_ok r' = people_ok r"
  using humans_ok_cong [of r' r] slots_ok_cong [of r' r] by (simp add: people_ok_def)

lemma people_ok_bots:
  "people_ok (ClearBots r) = people_ok r" "people_ok (bot_line line header name slot r) = people_ok r"
  by (rule people_ok_cong; simp add: ClearBots_def)+

lemma people_ok_accept: "people_ok r \<Longrightarrow> people_ok (snd (AcceptHumanLogLine k l c r))"
  by (auto simp: people_ok_def AcceptHumanLogLine_def humans_ok_def humans_def slots_ok_def)

lemma accept_here: "fst (AcceptHumanLogLine k l c r) \<Longrightarrow> \<not> l \<Longrightarrow> k \<notin> rg_departed (snd (AcceptHumanLogLine k l c r))"
  by (simp add: AcceptHumanLogLine_def split: if_splits)

lemma ObserveSlotIdentity_sel [simp]:
  "rg_humans (ObserveSlotIdentity s k n r) = rg_humans r" "rg_departed (ObserveSlotIdentity s k n r) = rg_departed r"
  by (simp_all add: ObserveSlotIdentity_def)

lemma slots_of_observe: "snd ` set (rg_slotToId (ObserveSlotIdentity s k n r)) \<subseteq> insert \<lparr>si_slot = s, si_steamid64 = k, si_name = n\<rparr> (snd ` set (rg_slotToId r))"
proof (cases "s < 0 \<or> k = 0 \<or> n = []")
  case False
  then have "rg_slotToId (ObserveSlotIdentity s k n r) = AList.update s \<lparr>si_slot = s, si_steamid64 = k, si_name = n\<rparr> (rg_slotToId r)"
    by (auto simp: ObserveSlotIdentity_def)
  then show ?thesis using image_mono [OF set_update_sub, of snd] by (metis image_insert snd_conv)
qed (auto simp: ObserveSlotIdentity_def)

lemma people_ok_stay:
  assumes ok: "people_ok r" and here: "k \<notin> rg_departed r"
  shows "people_ok (ObserveHuman now s k n t (ObserveSlotIdentity s k n r))"
proof -
  have h: "humans_ok (ObserveSlotIdentity s k n r)" using ok humans_ok_cong [of "ObserveSlotIdentity s k n r" r] by (simp add: people_ok_def)
  have "rg_slotToId (ObserveHuman now s k n t (ObserveSlotIdentity s k n r)) = rg_slotToId (ObserveSlotIdentity s k n r)"
    "rg_departed (ObserveHuman now s k n t (ObserveSlotIdentity s k n r)) = rg_departed r"
    by (simp_all add: ObserveHuman_def Let_def)
  moreover have "slots_ok (ObserveSlotIdentity s k n r)"
    using ok here slots_of_observe [of s k n r] by (fastforce simp: people_ok_def slots_ok_def)
  ultimately show ?thesis
    using humans_ok_ObserveHuman [OF h, of k now s n t] here by (simp add: people_ok_def slots_ok_def)
qed

lemma people_ok_leave:
  assumes ok: "people_ok r" and k: "k \<noteq> 0"
  shows "people_ok (ForgetSlotIdentitiesForSteam k (ForgetHuman k (ObserveSlotIdentity s k n r)))"
proof -
  let ?r = "ForgetSlotIdentitiesForSteam k (ForgetHuman k (ObserveSlotIdentity s k n r))"
  have dep: "rg_departed ?r = insert k (rg_departed r)" "rg_humans ?r = AList.delete k (rg_humans r)"
    and sl: "rg_slotToId ?r = filter (\<lambda>kv. si_steamid64 (snd kv) \<noteq> k) (rg_slotToId (ObserveSlotIdentity s k n r))"
    using k by (simp_all add: ForgetSlotIdentitiesForSteam_def ForgetHuman_def)
  have "humans ?r k' = (if k' = k then None else humans r k')" for k'
    by (simp add: humans_def dep delete_conv')
  then have "humans_ok ?r" using ok by (simp add: people_ok_def humans_ok_def dep distinct_delete)
  moreover have "slots_ok ?r"
    using ok slots_of_observe [of s k n r] by (fastforce simp: people_ok_def slots_ok_def dep sl)
  ultimately show ?thesis by (simp add: people_ok_def)
qed

section \<open>Runs\<close>

datatype registry_op =
  LogLine bool seconds string
| TeamEvent seconds u64 int int
| SlotEvent u64 int
| Reconcile seconds "int \<Rightarrow> int"

fun registry_step :: "registry_op \<Rightarrow> Registry \<Rightarrow> Registry" where
  "registry_step (LogLine events now line) r = snd (HandleLogLine events now line r)"
| "registry_step (TeamEvent now sid slot team) r = snd (ObserveHumanTeamFromEvent now sid slot team r)"
| "registry_step (SlotEvent sid slot) r = ObserveHumanSlot sid slot r"
| "registry_step (Reconcile now engineTeam) r = snd (ReconcileHumanTeams now engineTeam r)"

definition registry_ok :: "Registry \<Rightarrow> bool" where
  "registry_ok r \<longleftrightarrow> people_ok r \<and> bots_ok r"

lemma registry_ok_map_line: "registry_ok r \<Longrightarrow> registry_ok (map_line now line r)"
  by (simp add: registry_ok_def map_line_def people_ok_reset people_ok_bots) (simp add: bots_ok_def ClearBots_def)

lemma registry_ok_player_line:
  assumes ok: "registry_ok r" and sid: "sid \<noteq> 0" and here: "is_chat line \<or> \<not> is_leaving line \<Longrightarrow> sid \<notin> rg_departed r"
  shows "registry_ok (snd (player_line ev now line header name slot sid r))"
proof (cases "\<not> is_chat line \<and> is_leaving line")
  case True
  then have "snd (player_line ev now line header name slot sid r)
      = ForgetSlotIdentitiesForSteam sid (ForgetHuman sid (ObserveSlotIdentity slot sid name r))"
    by (simp add: player_line_def Let_def)
  then show ?thesis using ok people_ok_leave [OF _ sid] by (simp add: registry_ok_def)
next
  case False
  then have "snd (player_line ev now line header name slot sid r)
      = ObserveHuman now slot sid name (line_team header line) (ObserveSlotIdentity slot sid name r)"
    by (auto simp: player_line_def Let_def)
  then show ?thesis using ok people_ok_stay here False by (auto simp: registry_ok_def)
qed

text \<open>What a log line does to the registry, by the kind of its header.\<close>

lemma HandleLogLine_cases:
  obtains (quiet) "snd (HandleLogLine ev now line r) = r"
  | (no_player) "snd (HandleLogLine ev now line r) = map_line now line r"
  | (robot) header name slot where "snd (HandleLogLine ev now line r) = bot_line line header name slot (map_line now line r)"
  | (player) header k name slot sid r1 where "ExtractQuoted line 0 = Some (header, k)" "ParseHeader header = (name, slot, sid)" "sid \<noteq> 0"
      "r1 = snd (AcceptHumanLogLine sid (\<not> is_chat line \<and> is_leaving line) (\<not> is_chat line \<and> IsConnectLine line) (map_line now line r))"
      "fst (AcceptHumanLogLine sid (\<not> is_chat line \<and> is_leaving line) (\<not> is_chat line \<and> IsConnectLine line) (map_line now line r))"
      "snd (HandleLogLine ev now line r) = snd (player_line ev now line header name slot sid r1)"
proof -
  define r0 where "r0 = map_line now line r"
  show thesis
  proof (cases "line = [] \<or> contains kLogPrefix line")
    case True
    then show thesis by (intro quiet) (auto simp: HandleLogLine_def)
  next
    case line: False
    show thesis
    proof (cases "ExtractQuoted line 0")
      case None
      then show thesis using line by (intro no_player) (auto simp: HandleLogLine_def)
    next
      case (Some hk)
      obtain header k where hk: "hk = (header, k)" by force
      obtain name slot sid where ph: "ParseHeader header = (name, slot, sid)" by (cases "ParseHeader header") auto
      let ?acc = "AcceptHumanLogLine sid (\<not> is_chat line \<and> is_leaving line) (\<not> is_chat line \<and> IsConnectLine line) r0"
      show thesis
      proof (cases "sid = 0")
        case True
        then have "snd (HandleLogLine ev now line r) \<in> {bot_line line header name slot r0, r0}"
          using line Some by (auto simp: HandleLogLine_def hk ph r0_def Let_def)
        then show thesis using robot no_player by (auto simp: r0_def)
      next
        case sid: False
        show thesis
        proof (cases "contains ''<'' header \<and> fst ?acc")
          case True
          then show thesis
            using line Some sid by (intro player [OF _ ph sid, of k]) (auto simp: HandleLogLine_def hk ph Let_def r0_def split: prod.splits)
        next
          case False
          then have "snd (HandleLogLine ev now line r) = r0"
            using line Some sid
            by (auto simp: HandleLogLine_def hk ph Let_def r0_def AcceptHumanLogLine_def split: prod.splits if_splits)
          then show thesis by (intro no_player) (simp add: r0_def)
        qed
      qed
    qed
  qed
qed

lemma registry_ok_log:
  assumes "registry_ok r"
  shows "registry_ok (snd (HandleLogLine ev now line r))"
proof -
  have r0: "registry_ok (map_line now line r)" using assms by (rule registry_ok_map_line)
  show ?thesis
  proof (cases rule: HandleLogLine_cases [of ev now line r])
    case (player header k name slot sid r1)
    have "registry_ok r1" using r0 by (simp add: registry_ok_def people_ok_accept player(4))
    moreover have "sid \<notin> rg_departed r1" if "is_chat line \<or> \<not> is_leaving line"
      using accept_here player(4,5) that by blast
    ultimately show ?thesis using player(3,6) by (simp add: registry_ok_player_line)
  qed (use assms r0 in \<open>simp_all add: registry_ok_def people_ok_bots bots_ok_bot_line\<close>)
qed

lemma registry_ok_event:
  assumes "registry_ok r"
  shows "registry_ok (snd (ObserveHumanTeamFromEvent now sid slot team r))" "registry_ok (ObserveHumanSlot sid slot r)"
proof -
  have upd: "registry_ok (r\<lparr>rg_humans := AList.update sid h' (rg_humans r)\<rparr>)"
    if "map_of (rg_humans r) sid = Some h" "hu_userid h' = hu_userid h" "hu_steamid64 h' = hu_steamid64 h" for h h'
    using assms that humans_ok_update [of r sid h h'] by (simp add: registry_ok_def people_ok_def humans_def slots_ok_def bots_ok_def)
  show "registry_ok (snd (ObserveHumanTeamFromEvent now sid slot team r))"
    using assms by (auto simp: ObserveHumanTeamFromEvent_def Let_def intro: upd split: option.splits)
  show "registry_ok (ObserveHumanSlot sid slot r)"
    using assms by (auto simp: ObserveHumanSlot_def intro: upd split: option.splits)
qed

lemma reconcile_keeps:
  assumes "P (snd st)" and "\<And>sid slot t r. P r \<Longrightarrow> P (snd (ObserveHumanTeamFromEvent now sid slot t r))"
  shows "P (snd (fold (reconcile_one now engineTeam) kvs st))"
  using assms(1)
proof (induction kvs arbitrary: st)
  case (Cons kv kvs)
  have "P (snd (reconcile_one now engineTeam kv st))"
    using Cons.prems assms(2) by (auto simp: reconcile_one_def Let_def split: prod.splits) (metis snd_conv)
  then show ?case using Cons.IH by simp
qed simp

lemma registry_ok_step: "registry_ok r \<Longrightarrow> registry_ok (registry_step op r)"
  using reconcile_keeps [where P = registry_ok, OF _ registry_ok_event(1)]
  by (cases op) (simp_all add: registry_ok_log registry_ok_event ReconcileHumanTeams_def)

interpretation registry: machine registry_step "\<lambda>_. True" registry_ok
  by unfold_locales (rule registry_ok_step)

lemma registry_ok_empty: "registry_ok empty_registry"
  by (simp add: registry_ok_def people_ok_def humans_ok_def humans_def slots_ok_def bots_ok_def empty_registry_def)

lemma registry_ok_run: "registry_ok (fold registry_step ops empty_registry)"
  using registry.inv_run [OF registry_ok_empty] by (simp add: list_all_iff)

text \<open>Whether a line brings a player back: a connect line whose header carries the player's Steam id.\<close>

definition connects :: "u64 \<Rightarrow> registry_op \<Rightarrow> bool" where
  "connects sid op \<longleftrightarrow>
     (case op of
        LogLine _ _ line \<Rightarrow>
          \<not> is_chat line \<and> IsConnectLine line
          \<and> (case ExtractQuoted line 0 of None \<Rightarrow> False | Some (header, _) \<Rightarrow> snd (snd (ParseHeader header)) = sid)
      | _ \<Rightarrow> False)"

lemma departed_keeps [simp]:
  "rg_departed (map_line now line r) = rg_departed r" "rg_departed (ObserveHuman now u k n t r) = rg_departed r"
  "rg_departed (ForgetSlotIdentitiesForSteam k r) = rg_departed r"
  "rg_departed (snd (ObserveHumanTeamFromEvent now k s t r)) = rg_departed r" "rg_departed (ObserveHumanSlot k s r) = rg_departed r"
  by (simp_all add: map_line_def ResetHumanTeams_def ClearBots_def ObserveHuman_def ForgetSlotIdentitiesForSteam_def
      ObserveHumanTeamFromEvent_def ObserveHumanSlot_def Let_def split: option.splits)

lemma departed_player_line: "rg_departed r \<subseteq> rg_departed (snd (player_line ev now line header name slot sid r))"
  by (auto simp: player_line_def Let_def ForgetHuman_def)

lemma departed_step:
  assumes "sid \<in> rg_departed r" and "\<not> connects sid op"
  shows "sid \<in> rg_departed (registry_step op r)"
proof (cases op)
  case (LogLine ev now line)
  show ?thesis
  proof (cases rule: HandleLogLine_cases [of ev now line r])
    case (player header k name slot sid' r1)
    have "sid \<in> rg_departed r1"
      using assms player(1,2) unfolding player(4)
      by (auto simp: LogLine connects_def AcceptHumanLogLine_def)
    then show ?thesis using subsetD [OF departed_player_line] player(6) by (simp add: LogLine)
  qed (use assms in \<open>simp_all add: LogLine\<close>)
next
  case (Reconcile now engineTeam)
  then show ?thesis
    using assms(1) reconcile_keeps [where P = "\<lambda>r. sid \<in> rg_departed r" and st = "(0, r)"]
    by (simp add: ReconcileHumanTeams_def)
qed (use assms in simp_all)

section \<open>Properties\<close>


text \<open>
  Who left stays away: once a player is remembered as departed, no log line and no engine event
  brings the player back into the tables until a connect line of that player arrives.
\<close>

theorem departed_stay_away:
  assumes "r = fold registry_step before empty_registry" and "sid \<in> rg_departed r"
    and "list_all (\<lambda>op. \<not> connects sid op) later"
  defines "r' \<equiv> fold registry_step later r"
  shows "sid \<notin> fst ` set (rg_humans r') \<and> sid \<notin> si_steamid64 ` set (ListSlotIdentities r')"
proof -
  have dep: "sid \<in> rg_departed (fold registry_step ops r)" if "list_all (\<lambda>op. \<not> connects sid op) ops" "sid \<in> rg_departed r" for ops r
    using that by (induction ops arbitrary: r) (auto intro: departed_step)
  have "registry_ok r'"
    using registry.inv_run [of r later] registry_ok_run [of before] assms(1) by (simp add: r'_def list_all_iff)
  then have ok: "humans_ok r'" "slots_ok r'" by (simp_all add: registry_ok_def people_ok_def)
  have d: "sid \<in> rg_departed r'" using dep assms(2,3) by (simp add: r'_def)
  have "sid \<notin> fst ` set (rg_humans r')"
  proof
    assume "sid \<in> fst ` set (rg_humans r')"
    then obtain h where "humans r' sid = Some h" by (auto simp: humans_def dest!: weak_map_of_SomeI)
    then show False using ok(1) d by (auto simp: humans_ok_def)
  qed
  moreover have "sid \<notin> si_steamid64 ` set (ListSlotIdentities r')"
    using ok(2) d by (auto simp: slots_ok_def ListSlotIdentities_def)
  ultimately show ?thesis by blast
qed

text \<open>Two log lines of a player, for the examples.\<close>

definition sample_header :: string where
  "sample_header = ''A<2><[U:1:7]><CT>''"

definition sample_line :: "string \<Rightarrow> string" where
  "sample_line rest = [quote_char] @ sample_header @ [quote_char] @ rest"

lemma sample_header_parsed: "ParseHeader sample_header = (''A'', 2, steam64_base + 7)" "contains ''<'' sample_header"
proof -
  have seven: "dec_nat 7 = ''7''" by code_simp
  have "ParseSteamId64Loose ''[U:1:7]'' = steam64_base + 7"
    using steam_forms_dispatch [of 7] Steam3_parse [of 7] seven by (simp add: steam3_string_def u64_string_def)
  moreover have "ParseHeader sample_header = (''A'', 2, ParseSteamId64Loose ''[U:1:7]'')"
    by (simp add: ParseHeader_def sample_header_def find_from_def starts_with_def between_def atoi_def isdigit_def isspace_def dec_value_def)
  ultimately show "ParseHeader sample_header = (''A'', 2, steam64_base + 7)" by simp
qed code_simp

lemma sample_line_parsed: "ExtractQuoted (sample_line rest) 0 = Some (sample_header, 19)" "sample_line rest \<noteq> []"
  by (simp_all add: ExtractQuoted_def sample_line_def sample_header_def find_from_def starts_with_def between_def)

definition map_load :: "string \<Rightarrow> bool" where
  "map_load line \<longleftrightarrow> contains (''Loading map '' @ [quote_char]) line \<or> contains (''Started map '' @ [quote_char]) line"

lemma sample_lines:
  "\<not> contains kLogPrefix (sample_line '' entered the game'')" "\<not> is_chat (sample_line '' entered the game'')"
  "\<not> is_leaving (sample_line '' entered the game'')" "\<not> map_load (sample_line '' entered the game'')"
  "\<not> contains kLogPrefix (sample_line '' disconnected (reason 1)'')" "\<not> is_chat (sample_line '' disconnected (reason 1)'')"
  "is_leaving (sample_line '' disconnected (reason 1)'')" "\<not> map_load (sample_line '' disconnected (reason 1)'')"
  "\<not> IsConnectLine (sample_line '' committed suicide'')"
  by code_simp+

definition joined :: Registry where
  "joined = registry_step (LogLine True 1 (sample_line '' entered the game'')) empty_registry"

definition left :: Registry where
  "left = registry_step (LogLine True 1 (sample_line '' disconnected (reason 1)'')) empty_registry"

lemma sample_step:
  assumes "\<not> contains kLogPrefix (sample_line rest)" "\<not> is_chat (sample_line rest)" "\<not> map_load (sample_line rest)"
  shows "registry_step (LogLine True 1 (sample_line rest)) empty_registry =
    snd (player_line True 1 (sample_line rest) sample_header ''A'' 2 (steam64_base + 7) empty_registry)"
proof -
  have "map_line 1 (sample_line rest) empty_registry = empty_registry" using assms(3) by (simp add: map_line_def map_load_def)
  moreover have "AcceptHumanLogLine sid l c empty_registry = (True, empty_registry)" for sid l c
    by (simp add: AcceptHumanLogLine_def empty_registry_def)
  ultimately show ?thesis
    using assms by (simp add: HandleLogLine_def sample_line_parsed sample_header_parsed split: prod.splits)
qed

lemma joined_humans: "\<exists>h. rg_humans joined = [(steam64_base + 7, h)] \<and> hu_userid h = 2"
  using sample_lines sample_step [of "'' entered the game''"]
  by (simp add: joined_def player_line_def ObserveHuman_def ObserveSlotIdentity_def drop_holders_def empty_registry_def Let_def)

lemma left_departed: "steam64_base + 7 \<in> rg_departed left"
  using sample_lines sample_step [of "'' disconnected (reason 1)''"]
  by (simp add: left_def player_line_def ForgetHuman_def Let_def)


lemma departed_stay_away_witness:
  "steam64_base + 7 \<notin> fst ` set (rg_humans (registry_step (LogLine True 1 (sample_line '' committed suicide'')) left))"
proof -
  have "\<not> connects (steam64_base + 7) (LogLine True 1 (sample_line '' committed suicide''))"
    using sample_lines by (simp add: connects_def)
  then show ?thesis
    using departed_stay_away [of left "[LogLine True 1 (sample_line '' disconnected (reason 1)'')]" "steam64_base + 7"
        "[LogLine True 1 (sample_line '' committed suicide'')]"] left_departed by (simp add: left_def)
qed

subsection \<open>Ids of bots\<close>

lemma bot_bits:
  fixes b :: u64 and y :: "32 word"
  shows "(push_bit 48 b OR ucast y) AND push_bit 48 (mask 16) = push_bit 48 b" "take_bit 32 (push_bit 48 b OR ucast y) = ucast y"
  by (rule bit_word_eqI; auto simp: bit_simps dest: bit_imp_le_length)+

lemma bot_base: "kDevBotIdBase = push_bit 48 0xB0B0" "(0xFFFF000000000000 :: u64) = push_bit 48 (mask 16)"
  by (simp_all add: kDevBotIdBase_def mask_eq_exp_minus_1 push_bit_eq_mult)

lemma ucast_uint: "uint (ucast (x :: 32 word) :: u64) = uint x"
proof -
  have "uint x < 2 ^ 32" using uint_lt2p [of x] by simp
  then have "take_bit 64 (uint x) = uint x" by (intro take_bit_int_eq_self) simp_all
  then show ?thesis by (simp add: unsigned_ucast_eq)
qed

text \<open>
  Ids of bots are their own: an id made from a userid is recognised as one, different userids get
  different ids, and no Steam id, whose universe byte is 1, is taken for one.
\<close>

theorem bot_ids_distinct:
  assumes "0 \<le> u" "u < 2 ^ 32" "0 \<le> v" "v < 2 ^ 32" and sid: "drop_bit 56 sid = (1 :: u64)"
  shows "IsDevBotId (DevBotIdForUserid u) \<and> (DevBotIdForUserid u = DevBotIdForUserid v \<longleftrightarrow> u = v) \<and> \<not> IsDevBotId sid"
proof (intro conjI)
  show "IsDevBotId (DevBotIdForUserid u)"
    unfolding IsDevBotId_def DevBotIdForUserid_def bot_base by (rule bot_bits)
  have low: "take_bit 32 (DevBotIdForUserid w) = ucast (word_of_int w :: 32 word)" for w
    unfolding DevBotIdForUserid_def bot_base by (rule bot_bits)
  have "u = v" if "DevBotIdForUserid u = DevBotIdForUserid v"
  proof -
    have "(ucast (word_of_int u :: 32 word) :: u64) = ucast (word_of_int v :: 32 word)" using low [of u] low [of v] that by simp
    then have "uint (word_of_int u :: 32 word) = uint (word_of_int v :: 32 word)"
      using ucast_uint by metis
    then show ?thesis using assms by (simp add: uint_word_of_int take_bit_int_eq_self)
  qed
  then show "DevBotIdForUserid u = DevBotIdForUserid v \<longleftrightarrow> u = v" by blast
  show "\<not> IsDevBotId sid"
  proof
    assume "IsDevBotId sid"
    then have "drop_bit 63 (sid AND 0xFFFF000000000000) = drop_bit 63 kDevBotIdBase" unfolding IsDevBotId_def by simp
    then have "bit (sid AND 0xFFFF000000000000) 63 = bit kDevBotIdBase 63" by (simp add: bit_iff_odd_drop_bit)
    moreover have "bit kDevBotIdBase 63" by (simp add: kDevBotIdBase_def)
    ultimately have "bit sid 63" by (simp add: bit_and_iff)
    moreover have "bit (drop_bit 56 sid) 7 = bit (1 :: u64) 7" using sid by simp
    ultimately show False by (simp add: bit_simps)
  qed
qed

lemma bot_ids_distinct_witness:
  "IsDevBotId (DevBotIdForUserid 3) \<and> DevBotIdForUserid 3 \<noteq> DevBotIdForUserid 4 \<and> \<not> IsDevBotId (steam64_base + 7)"
  using bot_ids_distinct [of 3 4 "steam64_base + 7"] by (simp add: drop_bit_eq_div)

section \<open>Where the header parser goes wrong\<close>

text \<open>
  \<open>TeamFromHeader\<close> takes the fourth group, and a header \<open>name<userid><steamid><team>\<close> has three: the
  team in a header is never read, unless the name itself brings a group.
\<close>

definition opens :: "string \<Rightarrow> nat" where
  "opens s = length (filter (\<lambda>c. c = CHR ''<'') s)"

lemma opens_drop_le: "i \<le> j \<Longrightarrow> opens (drop j s) \<le> opens (drop i s)"
proof -
  assume "i \<le> j"
  then have "drop i s = take (j - i) (drop i s) @ drop j s"
    by (metis append_take_drop_id drop_drop le_add_diff_inverse2)
  then show ?thesis by (metis opens_def filter_append length_append le_add2)
qed

lemma find_from_open:
  assumes "find_from ''<'' s i = Some a"
  shows "opens (drop (a + 1) s) < opens (drop i s)"
proof -
  obtain k where k: "find_sub ''<'' (drop i s) = Some k" "a = i + k" using assms by (auto simp: find_from_def split: if_splits)
  then have "starts_with ''<'' (drop a s)" using find_sub_Some [OF k(1)] by (simp add: add.commute)
  then have "drop a s = CHR ''<'' # drop (a + 1) s"
    by (cases "drop a s") (auto simp: starts_with_def drop_Suc tl_drop dest: arg_cong [where f = tl])
  then have "opens (drop (a + 1) s) < opens (drop a s)" by (simp add: opens_def)
  with opens_drop_le [of i a s] k(2) show ?thesis by simp
qed

lemma find_from_ge: "find_from p s i = Some a \<Longrightarrow> i \<le> a"
  by (auto simp: find_from_def split: if_splits)

lemma team_loop_groups: "opens (drop pos header) \<le> skip \<Longrightarrow> team_loop skip pos header = - 1"
proof (induction skip pos header rule: team_loop.induct)
  case (1 skip pos header)
  show ?case
  proof (cases "find_from ''<'' header pos")
    case (Some a)
    note less = find_from_open [OF Some]
    show ?thesis
    proof (cases "find_from ''>'' header (a + 1)")
      case gt: (Some b)
      have "opens (drop (b + 1) header) \<le> opens (drop (a + 1) header)"
        using find_from_ge [OF gt] by (intro opens_drop_le) simp
      with less "1.prems" have "skip \<noteq> 0" "opens (drop (b + 1) header) \<le> skip - 1" by simp_all
      then show ?thesis using "1.IH" [OF Some gt] Some gt by (simp add: team_loop.simps [of skip])
    qed (simp add: team_loop.simps [of skip] Some)
  qed (simp add: team_loop.simps [of skip])
qed

lemma header_team_never_read: "opens header \<le> 3 \<Longrightarrow> TeamFromHeader header = - 1"
  by (simp add: TeamFromHeader_def team_loop_groups)

text \<open>
  The parser takes the first groups of a header, so a name with groups of its own decides which
  Steam id the line, and a chat command in it, belongs to.
\<close>

lemma name_chooses_steamid:
  assumes "CHR ''<'' \<notin> set n" "CHR ''>'' \<notin> set u" "CHR ''>'' \<notin> set i"
  shows "ParseHeader (n @ ''<'' @ u @ ''><'' @ i @ ''>'' @ rest) = (n, atoi u, ParseSteamId64Loose i)"
proof -
  have open1: "find_from ''<'' (n @ ''<'' @ t) 0 = Some (length n)" for t
    using find_sub_char [of "CHR ''<''" n t] assms(1) by (simp add: find_from_def)
  have skip: "find_from p (s @ t) (length s) = map_option ((+) (length s)) (find_sub p t)" for p s t
    by (simp add: find_from_def)
  let ?h = "n @ ''<'' @ u @ ''><'' @ i @ ''>'' @ rest"
  have b: "find_from ''>'' ?h (length n + 1) = Some (length n + 1 + length u)"
    using skip [of "''>''" "n @ ''<''" "u @ ''><'' @ i @ ''>'' @ rest"] find_sub_char [of "CHR ''>''" u] assms(2) by simp
  have c: "find_from ''<'' ?h (length n + 1 + length u + 1) = Some (length n + 1 + length u + 1)"
    using skip [of "''<''" "n @ ''<'' @ u @ ''>''" "''<'' @ i @ ''>'' @ rest"] by (simp add: starts_with_def)
  have d: "find_from ''>'' ?h (length n + 1 + length u + 1 + 1) = Some (length n + 1 + length u + 1 + 1 + length i)"
    using skip [of "''>''" "n @ ''<'' @ u @ ''><''" "i @ ''>'' @ rest"] find_sub_char [of "CHR ''>''" i] assms(3) by simp
  show ?thesis using open1 b c d unfolding ParseHeader_def by (simp add: between_def numeral_3_eq_3)
qed

end
