(* ===== verification/Knife_Round.thy ===== *)
theory Knife_Round
  imports Match_End Slot_Registry
begin

text \<open>
  The knife round: the tracker that reads deaths and health from log lines
  (plugins/match/readyup/knife_tracker.cpp) and the phases from the start of the round to the side
  pick (the knife functions of plugins/match/readyup/modes.cpp). The state is that of \<open>Match_End\<close> with
  the tracker; what a handler reads from other modules is in the record \<open>KnifeEnv\<close>, and what it sends
  (commands, webhooks, chat) is a list of outputs. A command counts as sent when the command buffer
  takes it. Log output and HUD notices are left out.
\<close>

section \<open>The tracker (knife_tracker.cpp)\<close>

record Member =
  mb_team :: int
  mb_dead :: bool
  mb_health :: int

record Tracker =
  kt_active :: bool
  kt_members :: "(int \<times> Member) list"

definition new_member :: Member where
  "new_member = \<lparr>mb_team = 0, mb_dead = False, mb_health = 100\<rparr>"

text \<open>The trailing \<open><..>\<close> groups of a header, from the right.\<close>

fun header_groups :: "nat \<Rightarrow> string \<Rightarrow> string list" where
  "header_groups 0 h = []"
| "header_groups (Suc n) h =
     (if h = [] \<or> last h \<noteq> CHR ''>'' \<or> CHR ''<'' \<notin> set (butlast h) then []
      else
        let body = rev (butlast h)
        in rev (takeWhile (\<lambda>c. c \<noteq> CHR ''<'') body)
           # header_groups n (rev (drop 1 (dropWhile (\<lambda>c. c \<noteq> CHR ''<'') body))))"

definition member_header :: "string \<Rightarrow> (int \<times> int) option" where
  "member_header header =
     (if header = [] \<or> last header \<noteq> CHR ''>'' then None
      else
        let gs = header_groups 3 header
        in if length gs < 3 then None
           else if \<not> IsDigits (gs ! 2) then None
           else Some (atoi (gs ! 2), if gs ! 0 = ''CT'' then 3 else if gs ! 0 = ''TERRORIST'' then 2 else 0))"

definition NextQuoted :: "string \<Rightarrow> nat \<Rightarrow> (string \<times> nat) option" where
  "NextQuoted s i = ExtractQuoted s i"

definition KnifeTrackerReset :: "bool \<Rightarrow> Tracker" where
  "KnifeTrackerReset active = \<lparr>kt_active = active, kt_members = []\<rparr>"

definition member_of :: "int \<Rightarrow> Tracker \<Rightarrow> Member" where
  "member_of uid t = (case map_of (kt_members t) uid of None \<Rightarrow> new_member | Some m \<Rightarrow> m)"

definition put_member :: "int \<Rightarrow> Member \<Rightarrow> Tracker \<Rightarrow> Tracker" where
  "put_member uid m t = t\<lparr>kt_members := AList.update uid m (kt_members t)\<rparr>"

definition kill_member :: "int \<Rightarrow> int \<Rightarrow> Tracker \<Rightarrow> Tracker" where
  "kill_member uid team t =
     (let m = member_of uid t
      in put_member uid (m\<lparr>mb_team := (if team \<noteq> 0 then team else mb_team m), mb_dead := True, mb_health := 0\<rparr>) t)"

definition hurt_member :: "int \<Rightarrow> int \<Rightarrow> string \<Rightarrow> nat \<Rightarrow> Tracker \<Rightarrow> Tracker" where
  "hurt_member uid team line after t =
     (let m = member_of uid t; m1 = m\<lparr>mb_team := (if team \<noteq> 0 then team else mb_team m)\<rparr>
      in case find_from (''(health '' @ [quote_char]) line after of
           None \<Rightarrow> put_member uid m1 t
         | Some h \<Rightarrow>
             let hp = max 0 (min 100 (atoi (drop (h + 9) line)))
             in put_member uid (m1\<lparr>mb_health := hp, mb_dead := (mb_dead m1 \<or> hp = 0)\<rparr>) t)"

definition victim_line :: "bool \<Rightarrow> nat \<Rightarrow> string \<Rightarrow> Tracker \<Rightarrow> Tracker" where
  "victim_line killed verb line t =
     (case NextQuoted line (verb + 1) of
        None \<Rightarrow> t
      | Some (victim, after) \<Rightarrow>
          (case member_header victim of
             None \<Rightarrow> t
           | Some (uid, team) \<Rightarrow> if killed then kill_member uid team t else hurt_member uid team line after t))"

definition killed_at :: "string \<Rightarrow> nat option" where
  "killed_at line = find_sub ('' killed '' @ [quote_char]) line"

definition attacked_at :: "string \<Rightarrow> nat option" where
  "attacked_at line = find_sub ('' attacked '' @ [quote_char]) line"

definition suicide_at :: "string \<Rightarrow> nat option" where
  "suicide_at line = find_sub '' committed suicide'' line"

definition KnifeTrackerObserveLine :: "string \<Rightarrow> Tracker \<Rightarrow> Tracker" where
  "KnifeTrackerObserveLine line t =
     (if \<not> kt_active t then t
      else if killed_at line = None \<and> attacked_at line = None \<and> suicide_at line = None then t
      else
        case NextQuoted line 0 of
          None \<Rightarrow> t
        | Some (first, _) \<Rightarrow>
            (case killed_at line of
               Some k \<Rightarrow> victim_line True k line t
             | None \<Rightarrow>
                 (case attacked_at line of
                    Some a \<Rightarrow> victim_line False a line t
                  | None \<Rightarrow>
                      (case member_header first of
                         None \<Rightarrow> t
                       | Some (uid, team) \<Rightarrow> kill_member uid team t))))"

record KnifeTrackerMember =
  km_userid :: int
  km_team :: int
  km_dead :: bool
  km_health :: int

definition KnifeTrackerSave :: "Tracker \<Rightarrow> KnifeTrackerMember list" where
  "KnifeTrackerSave t =
     map (\<lambda>kv. \<lparr>km_userid = fst kv, km_team = mb_team (snd kv), km_dead = mb_dead (snd kv), km_health = mb_health (snd kv)\<rparr>)
       (kt_members t)"

definition KnifeTrackerRestore :: "bool \<Rightarrow> KnifeTrackerMember list \<Rightarrow> Tracker" where
  "KnifeTrackerRestore active ms =
     \<lparr>kt_active = active,
      kt_members =
        fold (\<lambda>m. AList.update (km_userid m) \<lparr>mb_team = km_team m, mb_dead = km_dead m, mb_health = km_health m\<rparr>) ms []\<rparr>"

record KnifeSideStats =
  ks_members :: int
  ks_alive :: int
  ks_hp :: int

definition side_uids :: "int \<Rightarrow> Registry \<Rightarrow> int list" where
  "side_uids csTeam r =
     map hu_userid (filter (\<lambda>h. hu_team h = csTeam \<and> hu_userid h \<ge> 0) (ListHumans r))
     @ map bi_userid (filter (\<lambda>b. bi_team b = csTeam \<and> bi_userid b \<ge> 0) (ListBots r))"

definition count_member :: "Tracker \<Rightarrow> int \<Rightarrow> KnifeSideStats \<Rightarrow> KnifeSideStats" where
  "count_member t uid s =
     (let s1 = s\<lparr>ks_members := ks_members s + 1\<rparr>
      in case map_of (kt_members t) uid of
           None \<Rightarrow> s1\<lparr>ks_alive := ks_alive s + 1, ks_hp := ks_hp s + 100\<rparr>
         | Some m \<Rightarrow> if mb_dead m then s1 else s1\<lparr>ks_alive := ks_alive s + 1, ks_hp := ks_hp s + mb_health m\<rparr>)"

definition KnifeTrackerStats :: "int \<Rightarrow> Registry \<Rightarrow> Tracker \<Rightarrow> KnifeSideStats" where
  "KnifeTrackerStats csTeam r t =
     fold (count_member t) (side_uids csTeam r) \<lparr>ks_members = 0, ks_alive = 0, ks_hp = 0\<rparr>"

section \<open>The phases (modes.cpp)\<close>

record KnifeContext =
  kc_slug :: string
  kc_team1_name :: string
  kc_team2_name :: string
  kc_map_sides :: "string list"
  kc_matchid :: int
  kc_knifeDecisionSeconds :: int

record KnifeEnv =
  kv_ctx :: "KnifeContext option"
  kv_map_number :: int
  kv_featureKnife :: bool
  kv_accepts :: "string \<Rightarrow> bool"
  kv_now :: seconds
  kv_hudReplacesChat :: bool
  kv_knife_pick_seconds :: int
  kv_liveCfgCommand :: string
  kv_devBots :: bool
  kv_registry :: Registry

datatype KnifeOut =
  Command string
| CommandsAfterCfg "string list"
| KnifeRoundStarted int
| KnifeRoundEnded int WebhookTeam
| UpdateMapSide int string
| SidePicked int string string string
| MatchCvars
| EnableRoundBackups int int
| KnifeChat string

record KnifeGame =
  kg_st :: SeriesState
  kg_lastGateCmd :: seconds
  kg_matchLoadedChatSent :: bool
  kg_tracker :: Tracker

definition sent :: "KnifeEnv \<Rightarrow> string list \<Rightarrow> KnifeOut list" where
  "sent v cmds = map Command (filter (kv_accepts v) cmds)"

definition chat :: "KnifeEnv \<Rightarrow> string \<Rightarrow> KnifeOut list" where
  "chat v key = (if kv_hudReplacesChat v then [] else [KnifeChat key])"

definition map_or_first :: "int \<Rightarrow> int" where
  "map_or_first n = (if n \<le> 0 then 1 else n)"

definition IsKnifeForMap :: "KnifeEnv \<Rightarrow> KnifeContext \<Rightarrow> int \<Rightarrow> bool" where
  "IsKnifeForMap v ctx mapNumber \<longleftrightarrow>
     mapNumber > 0 \<and> nat (mapNumber - 1) < length (kc_map_sides ctx)
     \<and> kc_map_sides ctx ! nat (mapNumber - 1) = ''knife'' \<and> kv_featureKnife v"

definition ResetKnifeStateForMapLocked :: "KnifeEnv \<Rightarrow> int \<Rightarrow> KnifeGame \<Rightarrow> KnifeOut list \<times> KnifeGame" where
  "ResetKnifeStateForMapLocked v mapNumber g =
     (let (cmds, k) = ResetKnifeState mapNumber (st_knife (kg_st g))
      in (sent v cmds, g\<lparr>kg_st := (kg_st g)\<lparr>st_knife := k\<rparr>, kg_tracker := KnifeTrackerReset False\<rparr>))"

definition CsSideName :: "int \<Rightarrow> string" where
  "CsSideName cs = (if cs = 3 then ''CT'' else if cs = 2 then ''T'' else ''?'')"

definition KnifeWinnerName :: "KnifeContext \<Rightarrow> KnifeState \<Rightarrow> string" where
  "KnifeWinnerName ctx k =
     (if kc_slug ctx = ''scrim'' then CsSideName (kn_winnerCs k)
      else
        let n = (if kn_winner k = Team2 then kc_team2_name ctx else kc_team1_name ctx)
        in if n = [] then CsSideName (kn_winnerCs k) else n)"

definition AnyHumanOnCtOrT :: "Registry \<Rightarrow> bool" where
  "AnyHumanOnCtOrT r = list_ex (\<lambda>h. hu_team h = 2 \<or> hu_team h = 3) (ListHumans r)"

definition no_items :: string where
  "no_items = [quote_char, quote_char]"

definition knife_commands :: "string list" where
  "knife_commands =
     [''mp_warmup_pausetimer 0'', ''mp_ignore_round_win_conditions 0'', ''mp_respawn_on_death_ct 0'',
      ''mp_respawn_on_death_t 0'', ''mp_buy_anywhere 0'', ''mp_respawn_immunitytime 0'', ''mp_buy_during_immunity 0'',
      ''mp_buytime 0'', ''mp_startmoney 0'', ''mp_maxmoney 0'', ''mp_give_player_c4 0'',
      ''mp_ct_default_primary '' @ no_items, ''mp_t_default_primary '' @ no_items,
      ''mp_ct_default_secondary '' @ no_items, ''mp_t_default_secondary '' @ no_items,
      ''mp_ct_default_grenades '' @ no_items, ''mp_t_default_grenades '' @ no_items,
      ''mp_ct_default_melee weapon_knife'', ''mp_t_default_melee weapon_knife'', ''mp_team_intro_time 0'',
      ''mp_logdetail 3'', ''mp_warmup_end'', ''mp_restartgame 1'']"

definition ApplyKnifeRulesLocked :: "KnifeEnv \<Rightarrow> KnifeState \<Rightarrow> KnifeOut list \<times> KnifeState" where
  "ApplyKnifeRulesLocked v k =
     (let cmds = ''exec ReadyUp/knife.cfg'' # knife_commands;
          short = (if kv_devBots v \<and> \<not> AnyHumanOnCtOrT (kv_registry v)
                   then [CommandsAfterCfg [''mp_roundtime 0.5'', ''mp_roundtime_defuse 0.5'', ''mp_roundtime_hostage 0.5'']]
                   else [])
      in (sent v [''exec ReadyUp/knife.cfg''] @ short @ sent v knife_commands,
          if list_ex (kv_accepts v) cmds then k\<lparr>kn_rulesApplied := True, kn_logdetailSet := True\<rparr> else k))"

definition StartKnifeLocked :: "KnifeEnv \<Rightarrow> KnifeGame \<Rightarrow> bool \<times> KnifeOut list \<times> KnifeGame" where
  "StartKnifeLocked v g =
     (if st_mode (kg_st g) \<noteq> Mode_MatchWarmup \<or> \<not> kv_featureKnife v then (False, [], g)
      else
        let (out0, g0) = ResetKnifeStateForMapLocked v (map_or_first (kv_map_number v)) g;
            st0 = (kg_st g0)\<lparr>st_startTriggered := False, st_lastUi := Map.empty\<rparr>;
            (out1, k1) = ApplyKnifeRulesLocked v (st_knife st0)
        in if \<not> kn_rulesApplied k1
           then (False, out0 @ out1, g0\<lparr>kg_st := st0\<lparr>st_knife := k1\<rparr>, kg_lastGateCmd := kv_now v\<rparr>)
           else (True, out0 @ out1 @ chat v ''knife.after_restart'',
                 g0\<lparr>kg_st := st0\<lparr>st_mode := Mode_MatchKnife,
                                 st_knife := k1\<lparr>kn_phase := Knife_Starting, kn_triggeredAt := kv_now v\<rparr>\<rparr>,
                    kg_lastGateCmd := kv_now v\<rparr>))"

definition StartKnifeRound :: "KnifeEnv \<Rightarrow> KnifeGame \<Rightarrow> bool \<times> KnifeOut list \<times> KnifeGame" where
  "StartKnifeRound v g = (if kv_ctx v = None then (False, [], g) else StartKnifeLocked v g)"

text \<open>\<open>warmupEnabled\<close>, the ready roster and the esports check come from elsewhere.\<close>

definition MaybeEnterKnifeModeLocked :: "bool \<Rightarrow> bool \<Rightarrow> bool \<Rightarrow> KnifeEnv \<Rightarrow> KnifeGame \<Rightarrow> KnifeOut list \<times> KnifeGame" where
  "MaybeEnterKnifeModeLocked warmupEnabled allReady goLiveAllowed v g =
     (let st = kg_st g
      in if st_mode st \<noteq> Mode_MatchWarmup \<or> \<not> warmupEnabled \<or> st_recoveryGate st \<or> st_startTriggered st
            \<or> \<not> st_warmupRulesApplied st then ([], g)
         else
           case kv_ctx v of
             None \<Rightarrow> ([], g)
           | Some ctx \<Rightarrow>
               if \<not> IsKnifeForMap v ctx (map_or_first (kv_map_number v)) then ([], g)
               else if kg_lastGateCmd g \<noteq> 0 \<and> kv_now v - kg_lastGateCmd g < 8 / 10 then ([], g)
               else if \<not> allReady then ([], g)
               else if \<not> goLiveAllowed then ([], g\<lparr>kg_lastGateCmd := kv_now v\<rparr>)
               else snd (StartKnifeLocked v g))"

definition KnifeOnRoundStart :: "KnifeEnv \<Rightarrow> int \<Rightarrow> KnifeGame \<Rightarrow> KnifeOut list \<times> KnifeGame" where
  "KnifeOnRoundStart v map_number g =
     (let st = kg_st g; k = st_knife st; n = map_or_first map_number
      in if kv_ctx v = None \<or> st_mode st \<noteq> Mode_MatchKnife \<or> kn_phase k \<noteq> Knife_Starting then ([], g)
         else if kv_now v - kn_triggeredAt k < 8 / 10 then ([], g)
         else
           ((if \<not> kn_startedSent k then [KnifeRoundStarted n] else []) @ chat v ''knife.started'',
            g\<lparr>kg_st := st\<lparr>st_knife := k\<lparr>kn_mapNumber := n, kn_phase := Knife_Running, kn_startedSent := True\<rparr>\<rparr>,
              kg_tracker := KnifeTrackerReset True\<rparr>))"

text \<open>Who won, with the short reason and the chat key; \<open>coin\<close> is the random pick.\<close>

definition knife_winner :: "KnifeEnv \<Rightarrow> int \<Rightarrow> bool \<Rightarrow> bool \<Rightarrow> Tracker \<Rightarrow> int \<times> string \<times> string" where
  "knife_winner v csWinner elimination coin t =
     (if elimination \<and> (csWinner = 2 \<or> csWinner = 3) then (csWinner, ''elimination'', ''knife.won_elimination'')
      else
        let ct = KnifeTrackerStats 3 (kv_registry v) t; tt = KnifeTrackerStats 2 (kv_registry v) t
        in if ks_alive ct \<noteq> ks_alive tt
           then (if ks_alive ct > ks_alive tt then 3 else 2, ''more alive'', ''knife.won_more_alive'')
           else if ks_hp ct \<noteq> ks_hp tt then (if ks_hp ct > ks_hp tt then 3 else 2, ''more HP'', ''knife.won_more_hp'')
           else (if coin then 3 else 2, ''coin flip'', ''knife.won_coin_flip''))"

definition humans_on :: "int \<Rightarrow> Registry \<Rightarrow> nat" where
  "humans_on cs r = length (filter (\<lambda>h. hu_team h = cs) (ListHumans r))"

definition pick_seconds :: "KnifeEnv \<Rightarrow> KnifeContext \<Rightarrow> int \<Rightarrow> int" where
  "pick_seconds v ctx winnerCs =
     (if humans_on winnerCs (kv_registry v) = 0 then 3
      else max 5 (min 300 (if kc_slug ctx = ''scrim'' then kv_knife_pick_seconds v else kc_knifeDecisionSeconds ctx)))"

definition KnifeOnRoundEnd :: "KnifeEnv \<Rightarrow> int \<Rightarrow> int \<Rightarrow> bool \<Rightarrow> bool \<Rightarrow> KnifeGame \<Rightarrow> KnifeOut list \<times> KnifeGame" where
  "KnifeOnRoundEnd v map_number csWinner elimination coin g =
     (case kv_ctx v of
        None \<Rightarrow> ([], g)
      | Some ctx \<Rightarrow>
          let st = kg_st g; k = st_knife st
          in if st_mode st \<noteq> Mode_MatchKnife \<or> kn_phase k \<noteq> Knife_Running then ([], g)
             else
               let (winnerCs, short, key) = knife_winner v csWinner elimination coin (kg_tracker g);
                   winner = (if winnerCs = 3 then Team1 else Team2);
                   sec = pick_seconds v ctx winnerCs;
                   k1 = k\<lparr>kn_reasonShort := short, kn_winnerCs := winnerCs, kn_winner := winner, kn_endedSent := True,
                          kn_phase := Knife_Picking, kn_awaitingPick := True, kn_reminderSent := False,
                          kn_logdetailSet := False, kn_pickDeadline := kv_now v + of_int sec\<rparr>
               in (KnifeRoundEnded (map_or_first map_number) winner
                   # sent v [''mp_ignore_round_win_conditions 1'', ''mp_respawn_on_death_ct 1'', ''mp_respawn_on_death_t 1'']
                   @ (if kn_logdetailSet k then sent v [''mp_logdetail 0''] else [])
                   @ chat v key
                   @ (if humans_on winnerCs (kv_registry v) = 0 then [KnifeChat ''knife.bots_only'']
                      else chat v ''knife.pick_prompt''),
                   g\<lparr>kg_st := st\<lparr>st_knife := k1\<rparr>, kg_tracker := KnifeTrackerReset False\<rparr>))"

definition wanted_side :: "string \<Rightarrow> bool \<Rightarrow> bool option" where
  "wanted_side c winnerIsTeam1 =
     (if c = ''ct'' then Some True else if c = ''t'' then Some False
      else if c = ''stay'' then Some winnerIsTeam1 else if c = ''switch'' then Some (\<not> winnerIsTeam1) else None)"

definition picked_by :: "u64 \<Rightarrow> string \<Rightarrow> string" where
  "picked_by sid name = (if name \<noteq> [] then name else if sid \<noteq> 0 then u64_string sid else ''server'')"

definition picked_chat :: "string \<Rightarrow> bool \<Rightarrow> string" where
  "picked_chat name stayed =
     (if name = ''timeout'' then ''knife.picked_timeout'' else ''knife.picked'') @ (if stayed then ''_stay'' else ''_swap'')"

definition starts_ct :: "bool \<Rightarrow> bool \<Rightarrow> bool" where
  "starts_ct wantsCt winnerIsTeam1 = (if wantsCt then winnerIsTeam1 else \<not> winnerIsTeam1)"

definition pick_outputs ::
  "KnifeEnv \<Rightarrow> KnifeContext \<Rightarrow> int \<Rightarrow> bool \<Rightarrow> bool \<Rightarrow> u64 \<Rightarrow> string \<Rightarrow> KnifeOut list \<Rightarrow> KnifeOut list" where
  "pick_outputs v ctx mapNumber wantsCt winnerIsTeam1 sid name reset =
     (let team1StartsCt = starts_ct wantsCt winnerIsTeam1
      in UpdateMapSide mapNumber (if team1StartsCt then ''team1_ct'' else ''team2_ct'')
         # (if team1StartsCt then [] else sent v [''mp_swapteams''])
         @ [SidePicked mapNumber (if wantsCt then ''ct'' else ''t'') (picked_by sid name)
              (if winnerIsTeam1 then ''team1'' else ''team2'')]
         @ reset @ sent v [kv_liveCfgCommand v] @ [MatchCvars]
         @ sent v [''mp_warmup_pausetimer 0'', ''mp_warmup_end'']
         @ [EnableRoundBackups (kc_matchid ctx) (max 1 mapNumber)] @ sent v [''mp_restartgame 1'']
         @ [KnifeChat (picked_chat name team1StartsCt)])"

definition after_pick :: "KnifeEnv \<Rightarrow> KnifeGame \<Rightarrow> KnifeGame" where
  "after_pick v g =
     g\<lparr>kg_st := (kg_st g)\<lparr>st_mode := Mode_MatchWarmup, st_lastUi := Map.empty, st_warmupRulesApplied := True,
                         st_startTriggered :=
                           list_ex (kv_accepts v)
                             [kv_liveCfgCommand v, ''mp_warmup_pausetimer 0'', ''mp_warmup_end'', ''mp_restartgame 1'']\<rparr>,
       kg_matchLoadedChatSent := True, kg_lastGateCmd := kv_now v\<rparr>"

definition ApplyKnifeSideChoiceLocked ::
  "KnifeEnv \<Rightarrow> KnifeContext \<Rightarrow> int \<Rightarrow> string \<Rightarrow> u64 \<Rightarrow> string \<Rightarrow> KnifeGame \<Rightarrow> bool \<times> KnifeOut list \<times> KnifeGame" where
  "ApplyKnifeSideChoiceLocked v ctx mapNumber choice sid name g =
     (let k = st_knife (kg_st g); winnerIsTeam1 = (kn_winner k = Team1)
      in if kn_winner k = Team_Unknown \<or> \<not> kn_awaitingPick k then (False, [], g)
         else
           case wanted_side (Lower choice) winnerIsTeam1 of
             None \<Rightarrow> (False, [], g)
           | Some wantsCt \<Rightarrow>
               let (reset, g0) = ResetKnifeStateForMapLocked v mapNumber g
               in (True, pick_outputs v ctx mapNumber wantsCt winnerIsTeam1 sid name reset, after_pick v g0))"

definition KnifeApplySideChoice :: "KnifeEnv \<Rightarrow> string \<Rightarrow> u64 \<Rightarrow> string \<Rightarrow> KnifeGame \<Rightarrow> bool \<times> KnifeOut list \<times> KnifeGame" where
  "KnifeApplySideChoice v choice sid name g =
     (case kv_ctx v of
        None \<Rightarrow> (False, [], g)
      | Some ctx \<Rightarrow>
          if st_mode (kg_st g) \<noteq> Mode_MatchKnife then (False, [], g)
          else ApplyKnifeSideChoiceLocked v ctx (map_or_first (kn_mapNumber (st_knife (kg_st g)))) choice sid name g)"

definition MaybeAutoPickKnifeSideLocked :: "KnifeEnv \<Rightarrow> KnifeGame \<Rightarrow> KnifeOut list \<times> KnifeGame" where
  "MaybeAutoPickKnifeSideLocked v g =
     (let st = kg_st g; k = st_knife st
      in if st_mode st \<noteq> Mode_MatchKnife \<or> \<not> kn_awaitingPick k \<or> kn_winner k = Team_Unknown \<or> kn_pickDeadline k = 0
         then ([], g)
         else
           case kv_ctx v of
             None \<Rightarrow> ([], g)
           | Some ctx \<Rightarrow>
               if kv_now v < kn_pickDeadline k
               then (let left = \<lfloor>kn_pickDeadline k - kv_now v\<rfloor>
                     in if \<not> kn_reminderSent k \<and> left \<le> 15 \<and> left \<ge> 5
                        then (chat v ''knife.pick_reminder'', g\<lparr>kg_st := st\<lparr>st_knife := k\<lparr>kn_reminderSent := True\<rparr>\<rparr>\<rparr>)
                        else ([], g))
               else snd (ApplyKnifeSideChoiceLocked v ctx (map_or_first (kv_map_number v)) ''stay'' 0 ''timeout'' g))"

definition GetKnifePhase :: "KnifeGame \<Rightarrow> KnifePhase" where
  "GetKnifePhase g = (if st_mode (kg_st g) = Mode_MatchKnife then kn_phase (st_knife (kg_st g)) else Knife_None)"

definition KnifeIsAwaitingPick :: "KnifeGame \<Rightarrow> bool" where
  "KnifeIsAwaitingPick g \<longleftrightarrow> st_mode (kg_st g) = Mode_MatchKnife \<and> kn_awaitingPick (st_knife (kg_st g))"

section \<open>The tracker follows the log\<close>

text \<open>
  What a line says about a player: the userid, and the health it reports (0 for a death; \<open>None\<close> for
  an attack without a health field).
\<close>

definition victim_hit :: "bool \<Rightarrow> nat \<Rightarrow> string \<Rightarrow> (int \<times> int \<times> int option) option" where
  "victim_hit killed verb line =
     (case NextQuoted line (verb + 1) of
        None \<Rightarrow> None
      | Some (victim, after) \<Rightarrow>
          map_option (\<lambda>(uid, team).
              (uid, team, if killed then Some 0
                          else map_option (\<lambda>h. max 0 (min 100 (atoi (drop (h + 9) line))))
                                 (find_from (''(health '' @ [quote_char]) line after)))
            (member_header victim))"

definition line_hit :: "string \<Rightarrow> (int \<times> int \<times> int option) option" where
  "line_hit line =
     (case (NextQuoted line 0, killed_at line, attacked_at line, suicide_at line) of
        (None, _) \<Rightarrow> None
      | (Some _, Some k, _) \<Rightarrow> victim_hit True k line
      | (Some _, None, Some a, _) \<Rightarrow> victim_hit False a line
      | (Some (first, _), None, None, Some _) \<Rightarrow> map_option (\<lambda>(uid, team). (uid, team, Some 0)) (member_header first)
      | _ \<Rightarrow> None)"

definition hit_member :: "int \<Rightarrow> int option \<Rightarrow> Member \<Rightarrow> Member" where
  "hit_member team hp m =
     (let m1 = m\<lparr>mb_team := (if team \<noteq> 0 then team else mb_team m)\<rparr>
      in case hp of None \<Rightarrow> m1 | Some h \<Rightarrow> m1\<lparr>mb_health := h, mb_dead := (mb_dead m \<or> h = 0)\<rparr>)"

definition apply_hit :: "(int \<times> int \<times> int option) option \<Rightarrow> Tracker \<Rightarrow> Tracker" where
  "apply_hit x t = (case x of None \<Rightarrow> t | Some (uid, team, hp) \<Rightarrow> put_member uid (hit_member team hp (member_of uid t)) t)"

lemma kill_hit: "kill_member uid team t = apply_hit (Some (uid, team, Some 0)) t"
  by (cases "member_of uid t") (simp add: kill_member_def apply_hit_def hit_member_def Let_def)

lemma hurt_hit:
  "hurt_member uid team line after t =
   apply_hit (Some (uid, team, map_option (\<lambda>h. max 0 (min 100 (atoi (drop (h + 9) line)))) (find_from (''(health '' @ [quote_char]) line after))) t"
  by (simp add: hurt_member_def apply_hit_def hit_member_def Let_def split: option.split)

lemma victim_line_hit: "victim_line killed verb line t = apply_hit (victim_hit killed verb line) t"
proof (cases "NextQuoted line (verb + 1)")
  case (Some p)
  then show ?thesis
    by (cases p; cases "member_header (fst p)") (auto simp: victim_line_def victim_hit_def kill_hit hurt_hit, simp_all add: apply_hit_def)
qed (simp add: victim_line_def victim_hit_def apply_hit_def)

lemma ObserveLine_hit: "kt_active t \<Longrightarrow> KnifeTrackerObserveLine line t = apply_hit (line_hit line) t"
  by (auto simp: KnifeTrackerObserveLine_def line_hit_def victim_line_hit kill_hit split: option.splits)
    (simp_all add: apply_hit_def)

lemma apply_hit_sel [simp]: "kt_active (apply_hit x t) = kt_active t"
  by (simp add: apply_hit_def put_member_def split: option.splits)

lemma member_of_put: "member_of uid (put_member uid' m t) = (if uid = uid' then m else member_of uid t)"
  by (simp add: member_of_def put_member_def update_conv')

text \<open>The health reports about a player, in the order of the lines.\<close>

definition reports :: "string list \<Rightarrow> int \<Rightarrow> int list" where
  "reports lines uid = concat (map (\<lambda>l. case line_hit l of Some (u, _, Some h) \<Rightarrow> if u = uid then [h] else [] | _ \<Rightarrow> []) lines)"

lemma tracker_after_lines:
  assumes "t = fold KnifeTrackerObserveLine lines (KnifeTrackerReset True)"
  shows "kt_active t" and "mb_dead (member_of uid t) \<longleftrightarrow> 0 \<in> set (reports lines uid)"
    and "mb_health (member_of uid t) = (if reports lines uid = [] then 100 else last (reports lines uid))"
proof -
  have "kt_active (fold KnifeTrackerObserveLine lines (KnifeTrackerReset True))
    \<and> (mb_dead (member_of uid (fold KnifeTrackerObserveLine lines (KnifeTrackerReset True))) \<longleftrightarrow> 0 \<in> set (reports lines uid))
    \<and> mb_health (member_of uid (fold KnifeTrackerObserveLine lines (KnifeTrackerReset True)))
        = (if reports lines uid = [] then 100 else last (reports lines uid))"
  proof (induction lines rule: rev_induct)
    case Nil
    show ?case by (simp add: KnifeTrackerReset_def member_of_def new_member_def reports_def)
  next
    case (snoc l ls)
    let ?t = "fold KnifeTrackerObserveLine ls (KnifeTrackerReset True)"
    have rep: "reports (ls @ [l]) uid = reports ls uid @ (case line_hit l of Some (u, _, Some h) \<Rightarrow> if u = uid then [h] else [] | _ \<Rightarrow> [])"
      by (simp add: reports_def)
    have "fold KnifeTrackerObserveLine (ls @ [l]) (KnifeTrackerReset True) = apply_hit (line_hit l) ?t"
      using snoc ObserveLine_hit by simp
    moreover have "member_of uid (apply_hit (line_hit l) ?t) =
        (case line_hit l of Some (u, team, hp) \<Rightarrow> if u = uid then hit_member team hp (member_of uid ?t) else member_of uid ?t | None \<Rightarrow> member_of uid ?t)"
      by (auto simp: apply_hit_def member_of_put split: option.splits)
    ultimately show ?case using snoc unfolding rep
      by (auto simp: hit_member_def Let_def split: option.splits)
  qed
  then show "kt_active t" "mb_dead (member_of uid t) \<longleftrightarrow> 0 \<in> set (reports lines uid)"
    "mb_health (member_of uid t) = (if reports lines uid = [] then 100 else last (reports lines uid))"
    by (simp_all add: assms)
qed

section \<open>Counting a side\<close>

lemma count_member_of:
  "count_member t uid s =
   (let m = member_of uid t; s1 = s\<lparr>ks_members := ks_members s + 1\<rparr>
    in if mb_dead m then s1 else s1\<lparr>ks_alive := ks_alive s + 1, ks_hp := ks_hp s + mb_health m\<rparr>)"
  by (simp add: count_member_def member_of_def new_member_def Let_def split: option.split)

lemma count_members:
  "ks_alive (fold (count_member t) us s) = ks_alive s + int (length (filter (\<lambda>u. \<not> mb_dead (member_of u t)) us))"
  "ks_hp (fold (count_member t) us s) = ks_hp s + sum_list (map (\<lambda>u. mb_health (member_of u t)) (filter (\<lambda>u. \<not> mb_dead (member_of u t)) us))"
  by (induction us arbitrary: s) (auto simp: count_member_of Let_def)

text \<open>The players of a side who are alive by the log, and their health.\<close>

definition alive_by_log :: "string list \<Rightarrow> int \<Rightarrow> Registry \<Rightarrow> int list" where
  "alive_by_log lines cs r = filter (\<lambda>u. 0 \<notin> set (reports lines u)) (side_uids cs r)"

definition health_by_log :: "string list \<Rightarrow> int \<Rightarrow> Registry \<Rightarrow> int" where
  "health_by_log lines cs r =
     sum_list (map (\<lambda>u. if reports lines u = [] then 100 else last (reports lines u)) (alive_by_log lines cs r))"

lemma stats_by_log:
  assumes "t = fold KnifeTrackerObserveLine lines (KnifeTrackerReset True)"
  shows "ks_alive (KnifeTrackerStats cs r t) = int (length (alive_by_log lines cs r))"
    and "ks_hp (KnifeTrackerStats cs r t) = health_by_log lines cs r"
  by (simp_all add: KnifeTrackerStats_def count_members alive_by_log_def health_by_log_def tracker_after_lines [OF assms])

section \<open>Runs of the knife round\<close>

datatype knife_op =
  StartOp KnifeEnv
| GateOp bool bool bool KnifeEnv
| RoundStartOp KnifeEnv int
| RoundEndOp KnifeEnv int int bool bool
| ChoiceOp KnifeEnv string u64 string
| TickOp KnifeEnv
| LineOp string

fun knife_do :: "knife_op \<Rightarrow> KnifeGame \<Rightarrow> KnifeOut list \<times> KnifeGame" where
  "knife_do (StartOp v) g = snd (StartKnifeRound v g)"
| "knife_do (GateOp w a l v) g = MaybeEnterKnifeModeLocked w a l v g"
| "knife_do (RoundStartOp v n) g = KnifeOnRoundStart v n g"
| "knife_do (RoundEndOp v n cs el coin) g = KnifeOnRoundEnd v n cs el coin g"
| "knife_do (ChoiceOp v c sid name) g = snd (KnifeApplySideChoice v c sid name g)"
| "knife_do (TickOp v) g = MaybeAutoPickKnifeSideLocked v g"
| "knife_do (LineOp l) g = ([], g\<lparr>kg_tracker := KnifeTrackerObserveLine l (kg_tracker g)\<rparr>)"

fun knife_step :: "knife_op \<Rightarrow> KnifeOut list \<times> KnifeGame \<Rightarrow> KnifeOut list \<times> KnifeGame" where
  "knife_step e (outs, g) = (outs @ fst (knife_do e g), snd (knife_do e g))"

text \<open>The three webhooks of a knife round.\<close>

datatype knife_mark = Mark_Started | Mark_Ended | Mark_Picked

fun mark :: "KnifeOut \<Rightarrow> knife_mark list" where
  "mark (KnifeRoundStarted n) = [Mark_Started]"
| "mark (KnifeRoundEnded n w) = [Mark_Ended]"
| "mark (SidePicked n s b t) = [Mark_Picked]"
| "mark _ = []"

definition marks :: "KnifeOut list \<Rightarrow> knife_mark list" where
  "marks outs = concat (map mark outs)"

definition whole_rounds :: "nat \<Rightarrow> knife_mark list" where
  "whole_rounds n = concat (replicate n [Mark_Started, Mark_Ended, Mark_Picked])"

fun marks_in :: "KnifePhase \<Rightarrow> knife_mark list" where
  "marks_in Knife_Running = [Mark_Started]"
| "marks_in Knife_Picking = [Mark_Started, Mark_Ended]"
| "marks_in _ = []"

lemma marks_simps [simp]:
  "marks [] = []" "marks (x # xs) = mark x @ marks xs" "marks (xs @ ys) = marks xs @ marks ys"
  "marks (sent v cmds) = []" "marks (chat v key) = []"
  by (simp_all add: marks_def sent_def chat_def)

definition knife_ok :: "KnifeGame \<Rightarrow> bool" where
  "knife_ok g \<longleftrightarrow>
     (let k = st_knife (kg_st g); p = kn_phase k
      in (kn_awaitingPick k \<longleftrightarrow> p = Knife_Picking) \<and> (kn_winner k = Team_Unknown \<longleftrightarrow> p \<noteq> Knife_Picking)
         \<and> (kt_active (kg_tracker g) \<longleftrightarrow> p = Knife_Running) \<and> (p \<noteq> Knife_None \<longleftrightarrow> st_mode (kg_st g) = Mode_MatchKnife)
         \<and> (p = Knife_Starting \<longrightarrow> \<not> kn_startedSent k))"

definition run_ok :: "KnifeOut list \<times> KnifeGame \<Rightarrow> bool" where
  "run_ok s \<longleftrightarrow> knife_ok (snd s) \<and> (\<exists>n. marks (fst s) = whole_rounds n @ marks_in (kn_phase (st_knife (kg_st (snd s)))))"

lemma reset_knife:
  "ResetKnifeStateForMapLocked v n g =
   (sent v (if kn_logdetailSet (st_knife (kg_st g)) then [''mp_logdetail 0''] else []),
    g\<lparr>kg_st := (kg_st g)\<lparr>st_knife := knife_clear n\<rparr>, kg_tracker := KnifeTrackerReset False\<rparr>)"
  by (simp add: ResetKnifeStateForMapLocked_def ResetKnifeState_def)

lemma start_effect:
  assumes "knife_ok g"
  shows "knife_ok (snd (snd (StartKnifeLocked v g))) \<and> marks (fst (snd (StartKnifeLocked v g))) = []
    \<and> marks_in (kn_phase (st_knife (kg_st (snd (snd (StartKnifeLocked v g)))))) = marks_in (kn_phase (st_knife (kg_st g)))"
proof (cases "st_mode (kg_st g) \<noteq> Mode_MatchWarmup \<or> \<not> kv_featureKnife v")
  case True
  then have "StartKnifeLocked v g = (False, [], g)" by (auto simp: StartKnifeLocked_def)
  with assms show ?thesis by simp
next
  case False
  then have "kn_phase (st_knife (kg_st g)) = Knife_None" using assms by (auto simp: knife_ok_def Let_def)
  with False show ?thesis
    by (auto simp: StartKnifeLocked_def reset_knife ApplyKnifeRulesLocked_def Let_def knife_ok_def knife_clear_def
        KnifeTrackerReset_def)
qed

lemma choice_effect:
  assumes "knife_ok g" "st_mode (kg_st g) = Mode_MatchKnife"
  shows "let (ok, out, g') = ApplyKnifeSideChoiceLocked v ctx n c sid name g
         in if ok then knife_ok g' \<and> marks out = [Mark_Picked] \<and> kn_phase (st_knife (kg_st g')) = Knife_None
              \<and> kn_phase (st_knife (kg_st g)) = Knife_Picking
            else out = [] \<and> g' = g"
  using assms
  by (auto simp: ApplyKnifeSideChoiceLocked_def reset_knife Let_def knife_ok_def knife_clear_def KnifeTrackerReset_def
      pick_outputs_def after_pick_def split: option.split)

lemma run_ok_quiet:
  assumes "run_ok (outs, g)" and "marks out = []" and "knife_ok g'"
    and "marks_in (kn_phase (st_knife (kg_st g'))) = marks_in (kn_phase (st_knife (kg_st g)))"
  shows "run_ok (outs @ out, g')"
  using assms by (simp add: run_ok_def)

lemma run_ok_next:
  assumes "run_ok (outs, g)" and "knife_ok g'" and "marks out = [m]"
    and "marks_in (kn_phase (st_knife (kg_st g))) @ [m] = marks_in (kn_phase (st_knife (kg_st g')))"
  shows "run_ok (outs @ out, g')"
proof -
  obtain n where "marks outs = whole_rounds n @ marks_in (kn_phase (st_knife (kg_st g)))" using assms(1) by (auto simp: run_ok_def)
  then have "marks (outs @ out) = whole_rounds n @ marks_in (kn_phase (st_knife (kg_st g')))"
    using assms(3,4) by (simp flip: assms(4))
  with assms(2) show ?thesis by (auto simp: run_ok_def)
qed

lemma run_ok_picked:
  assumes "run_ok (outs, g)" and "knife_ok g'" and "marks out = [Mark_Picked]"
    and "kn_phase (st_knife (kg_st g)) = Knife_Picking" "kn_phase (st_knife (kg_st g')) = Knife_None"
  shows "run_ok (outs @ out, g')"
proof -
  obtain n where "marks outs = whole_rounds n @ [Mark_Started, Mark_Ended]" using assms(1,4) by (auto simp: run_ok_def)
  moreover have "whole_rounds (Suc n) = whole_rounds n @ [Mark_Started, Mark_Ended, Mark_Picked]"
    by (induction n) (simp_all add: whole_rounds_def)
  ultimately have "marks (outs @ out) = whole_rounds (Suc n) @ marks_in (kn_phase (st_knife (kg_st g')))"
    using assms(3,5) by simp
  with assms(2) show ?thesis unfolding run_ok_def by (metis fst_conv snd_conv)
qed

lemma run_ok_choice:
  assumes run: "run_ok (outs, g)" and mode: "st_mode (kg_st g) = Mode_MatchKnife"
  shows "run_ok (outs @ fst (snd (ApplyKnifeSideChoiceLocked v ctx n c sid name g)),
    snd (snd (ApplyKnifeSideChoiceLocked v ctx n c sid name g)))"
proof -
  have ok: "knife_ok g" using run by (simp add: run_ok_def)
  obtain b out g' where r: "ApplyKnifeSideChoiceLocked v ctx n c sid name g = (b, out, g')" by (metis prod_cases3)
  show ?thesis using choice_effect [OF ok mode, of v ctx n c sid name] run run_ok_picked by (auto simp: r split: if_splits)
qed

lemma run_ok_round_start:
  assumes run: "run_ok (outs, g)"
  shows "run_ok (outs @ fst (KnifeOnRoundStart v n g), snd (KnifeOnRoundStart v n g))"
proof -
  have ok: "knife_ok g" using run by (simp add: run_ok_def)
  show ?thesis
  proof (cases "kv_ctx v = None \<or> st_mode (kg_st g) \<noteq> Mode_MatchKnife \<or> kn_phase (st_knife (kg_st g)) \<noteq> Knife_Starting
      \<or> kv_now v - kn_triggeredAt (st_knife (kg_st g)) < 8 / 10")
    case True
    then have "KnifeOnRoundStart v n g = ([], g)" unfolding KnifeOnRoundStart_def Let_def by argo
    with run show ?thesis by simp
  next
    case False
    then have "\<not> kn_startedSent (st_knife (kg_st g))" using ok by (simp add: knife_ok_def Let_def)
    then show ?thesis
      using ok False by (intro run_ok_next [OF run, where m = Mark_Started])
        (auto simp: KnifeOnRoundStart_def knife_ok_def Let_def KnifeTrackerReset_def)
  qed
qed

lemma run_ok_round_end:
  assumes run: "run_ok (outs, g)"
  shows "run_ok (outs @ fst (KnifeOnRoundEnd v n cs el coin g), snd (KnifeOnRoundEnd v n cs el coin g))"
proof -
  have ok: "knife_ok g" using run by (simp add: run_ok_def)
  show ?thesis
  proof (cases "kv_ctx v = None \<or> st_mode (kg_st g) \<noteq> Mode_MatchKnife \<or> kn_phase (st_knife (kg_st g)) \<noteq> Knife_Running")
    case True
    then have "KnifeOnRoundEnd v n cs el coin g = ([], g)" by (auto simp: KnifeOnRoundEnd_def Let_def split: option.splits)
    with run show ?thesis by simp
  next
    case False
    then obtain ctx where ctx: "kv_ctx v = Some ctx" by auto
    obtain w short key where kw: "knife_winner v cs el coin (kg_tracker g) = (w, short, key)" by (metis prod_cases3)
    show ?thesis
      using ok False by (intro run_ok_next [OF run, where m = Mark_Ended])
        (auto simp: KnifeOnRoundEnd_def ctx kw Let_def knife_ok_def KnifeTrackerReset_def)
  qed
qed

lemma run_ok_step: "run_ok s \<Longrightarrow> run_ok (knife_step e s)"
proof (induction e s rule: knife_step.induct)
  case (1 e outs g)
  then have ok: "knife_ok g" by (simp add: run_ok_def)
  show ?case
  proof (cases e)
    case (StartOp v)
    then show ?thesis
      using 1 start_effect [OF ok, of v] by (auto simp: StartKnifeRound_def intro: run_ok_quiet)
  next
    case (GateOp w a l v)
    have "MaybeEnterKnifeModeLocked w a l v g \<in> {([], g), ([], g\<lparr>kg_lastGateCmd := kv_now v\<rparr>), snd (StartKnifeLocked v g)}"
      by (simp add: MaybeEnterKnifeModeLocked_def Let_def split: option.split)
    moreover have "run_ok (outs, g\<lparr>kg_lastGateCmd := t\<rparr>)" for t using 1 by (simp add: run_ok_def knife_ok_def Let_def)
    moreover have "run_ok (outs @ fst (snd (StartKnifeLocked v g)), snd (snd (StartKnifeLocked v g)))"
      using start_effect [OF ok, of v] by (intro run_ok_quiet [OF 1]) auto
    ultimately show ?thesis using 1 by (auto simp: GateOp)
  next
    case (RoundStartOp v n)
    then show ?thesis using run_ok_round_start [OF 1] by simp
  next
    case (RoundEndOp v n cs el coin)
    then show ?thesis using run_ok_round_end [OF 1] by simp
  next
    case (ChoiceOp v c sid name)
    then show ?thesis using 1 run_ok_choice [OF 1] by (auto simp: KnifeApplySideChoice_def split: option.split)
  next
    case (TickOp v)
    define k where "k = st_knife (kg_st g)"
    have remind: "run_ok (outs @ chat v key, g\<lparr>kg_st := (kg_st g)\<lparr>st_knife := k\<lparr>kn_reminderSent := True\<rparr>\<rparr>\<rparr>)" for key
      using ok by (intro run_ok_quiet [OF 1]) (auto simp: knife_ok_def Let_def k_def)
    show ?thesis
      using 1 remind run_ok_choice [OF 1]
      by (auto simp: TickOp MaybeAutoPickKnifeSideLocked_def Let_def k_def [symmetric] split: option.split)
  next
    case (LineOp l)
    have "kt_active (KnifeTrackerObserveLine l t) = kt_active t" for t
      using ObserveLine_hit [of t l] by (cases "kt_active t") (auto simp: KnifeTrackerObserveLine_def)
    then show ?thesis using 1 by (simp add: LineOp run_ok_def knife_ok_def Let_def)
  qed
qed

interpretation knife: machine knife_step "\<lambda>_. True" run_ok
  by unfold_locales (rule run_ok_step)

section \<open>A saved tracker\<close>

lemma map_of_fold_update:
  "distinct (map fst kvs) \<Longrightarrow> map_of (fold (\<lambda>kv. AList.update (fst kv) (snd kv)) kvs m) = map_of m ++ map_of kvs"
proof (induction kvs arbitrary: m)
  case (Cons kv kvs)
  then have "map_of kvs (fst kv) = None" by (simp add: map_of_eq_None_iff)
  then have "(map_of m)(fst kv \<mapsto> snd kv) ++ map_of kvs = map_of m ++ map_of (kv # kvs)"
    by (auto simp: fun_eq_iff map_add_def split: option.splits)
  moreover have "map_of (fold (\<lambda>kv. AList.update (fst kv) (snd kv)) kvs (AList.update (fst kv) (snd kv) m))
      = (map_of m)(fst kv \<mapsto> snd kv) ++ map_of kvs"
    using Cons by (simp only: update_conv' list.map distinct.simps simp_thms)
  ultimately show ?case by (simp only: fold_Cons comp_apply)
qed simp

definition tracker_ok :: "Tracker \<Rightarrow> bool" where
  "tracker_ok t \<longleftrightarrow> distinct (map fst (kt_members t))"

lemma tracker_ok_line: "tracker_ok t \<Longrightarrow> tracker_ok (KnifeTrackerObserveLine l t)"
  using ObserveLine_hit [of t l]
  by (cases "kt_active t")
    (auto simp: tracker_ok_def KnifeTrackerObserveLine_def apply_hit_def put_member_def distinct_update split: option.splits)

interpretation tracker: machine KnifeTrackerObserveLine "\<lambda>_. True" tracker_ok
  by unfold_locales (rule tracker_ok_line)

definition same_tracker :: "Tracker \<Rightarrow> Tracker \<Rightarrow> bool" where
  "same_tracker t u \<longleftrightarrow> kt_active t = kt_active u \<and> map_of (kt_members t) = map_of (kt_members u)"

lemma same_tracker_hit: "same_tracker t u \<Longrightarrow> same_tracker (apply_hit x t) (apply_hit x u)"
  by (simp add: same_tracker_def apply_hit_def put_member_def member_of_def update_conv' split: option.split)

lemma same_tracker_line: "same_tracker t u \<Longrightarrow> same_tracker (KnifeTrackerObserveLine l t) (KnifeTrackerObserveLine l u)"
proof (cases "kt_active t")
  case True
  assume *: "same_tracker t u"
  with True have "kt_active u" by (simp add: same_tracker_def)
  with True * show ?thesis by (simp add: ObserveLine_hit same_tracker_hit)
qed (simp add: same_tracker_def KnifeTrackerObserveLine_def)

lemma same_tracker_lines:
  "same_tracker t u \<Longrightarrow> same_tracker (fold KnifeTrackerObserveLine ls t) (fold KnifeTrackerObserveLine ls u)"
  by (induction ls arbitrary: t u) (simp_all add: same_tracker_line)

lemma same_tracker_stats:
  assumes "same_tracker t u"
  shows "KnifeTrackerStats cs r t = KnifeTrackerStats cs r u"
proof -
  have "count_member t = count_member u" using assms by (simp add: fun_eq_iff count_member_def same_tracker_def)
  then show ?thesis by (simp add: KnifeTrackerStats_def)
qed

lemma restore_saved:
  assumes "tracker_ok t"
  shows "same_tracker (KnifeTrackerRestore (kt_active t) (KnifeTrackerSave t)) t"
proof -
  have eta: "\<lparr>mb_team = mb_team m, mb_dead = mb_dead m, mb_health = mb_health m\<rparr> = m" for m :: Member by simp
  show ?thesis
    using assms map_of_fold_update [of "kt_members t" "[]"]
    by (simp add: eta same_tracker_def tracker_ok_def KnifeTrackerRestore_def KnifeTrackerSave_def fold_map comp_def)
qed

section \<open>Properties\<close>


text \<open>
  C19: A knife round that is not an elimination goes to the better side: with the deaths and health
  reports of the round's log lines, the winning side has at least as many players alive as the other,
  and with as many alive at least as much health; team 1, which plays it on CT, wins with CT.
\<close>

theorem knife_winner_best:
  fixes n cs :: int and coin :: bool
  assumes ctx: "kv_ctx v = Some ctx" and g: "st_mode (kg_st g) = Mode_MatchKnife" "kn_phase (st_knife (kg_st g)) = Knife_Running"
    and lines: "kg_tracker g = fold KnifeTrackerObserveLine lines (KnifeTrackerReset True)"
  defines "k \<equiv> st_knife (kg_st (snd (KnifeOnRoundEnd v n cs False coin g)))"
    and "alive \<equiv> \<lambda>side. length (alive_by_log lines side (kv_registry v))"
    and "health \<equiv> \<lambda>side. health_by_log lines side (kv_registry v)"
  shows "\<exists>w l. {w, l} = {2, 3} \<and> kn_winnerCs k = w \<and> kn_winner k = (if w = 3 then Team1 else Team2)
    \<and> alive l \<le> alive w \<and> (alive l = alive w \<longrightarrow> health l \<le> health w)"
proof -
  obtain w short key where kw: "knife_winner v cs False coin (kg_tracker g) = (w, short, key)" by (metis prod_cases3)
  have k: "kn_winnerCs k = w" "kn_winner k = (if w = 3 then Team1 else Team2)"
    using ctx g by (simp_all add: k_def KnifeOnRoundEnd_def kw Let_def)
  have "(w = 3 \<and> alive 2 \<le> alive 3 \<and> (alive 2 = alive 3 \<longrightarrow> health 2 \<le> health 3))
      \<or> (w = 2 \<and> alive 3 \<le> alive 2 \<and> (alive 3 = alive 2 \<longrightarrow> health 3 \<le> health 2))"
    using kw by (auto simp: knife_winner_def Let_def stats_by_log [OF lines] alive_def health_def split: if_splits)
  then show ?thesis using k by (metis insert_commute)
qed

definition ct_team :: "string \<Rightarrow> WebhookTeam" where
  "ct_team side = (if side = ''team1_ct'' then Team1 else Team2)"

lemma Command_sent: "Command c \<in> set (sent v cmds) \<longleftrightarrow> kv_accepts v c \<and> c \<in> set cmds"
  by (auto simp: sent_def)

lemma swap_sent:
  assumes "kv_accepts v ''mp_swapteams''" "kv_liveCfgCommand v \<noteq> ''mp_swapteams''"
  shows "Command ''mp_swapteams'' \<in> set (pick_outputs v ctx n wantsCt t1 sid name (sent v (if b then [''mp_logdetail 0''] else [])))
    \<longleftrightarrow> \<not> starts_ct wantsCt t1"
  using assms by (simp add: pick_outputs_def Let_def Command_sent)

text \<open>
  C20: The winner gets the side it asked for: an accepted choice stores a map side on which the winner
  starts as CT for \<open>ct\<close>, as T for \<open>t\<close>, where it knifed for \<open>stay\<close> and opposite for \<open>switch\<close>; the teams
  are swapped exactly when team 1 leaves CT, and the match goes back to warmup with the knife state clear.
\<close>

theorem choice_grants_side:
  assumes acc: "KnifeApplySideChoice v choice sid name g = (True, out, g')"
    and cmds: "kv_accepts v ''mp_swapteams''" "kv_liveCfgCommand v \<noteq> ''mp_swapteams''"
  defines "w \<equiv> kn_winner (st_knife (kg_st g))"
  shows "\<exists>n side. UpdateMapSide n side \<in> set out \<and> side \<in> {''team1_ct'', ''team2_ct''}
    \<and> (Lower choice = ''ct'' \<longrightarrow> ct_team side = w) \<and> (Lower choice = ''t'' \<longrightarrow> ct_team side \<noteq> w)
    \<and> (Lower choice = ''stay'' \<longrightarrow> side = ''team1_ct'') \<and> (Lower choice = ''switch'' \<longrightarrow> side = ''team2_ct'')
    \<and> (Command ''mp_swapteams'' \<in> set out \<longleftrightarrow> side = ''team2_ct'')
    \<and> st_mode (kg_st g') = Mode_MatchWarmup \<and> st_knife (kg_st g') = knife_clear n"
proof -
  obtain ctx where ctx: "kv_ctx v = Some ctx" using acc by (auto simp: KnifeApplySideChoice_def split: option.splits)
  define n where "n = map_or_first (kn_mapNumber (st_knife (kg_st g)))"
  have "ApplyKnifeSideChoiceLocked v ctx n choice sid name g = (True, out, g')"
    using acc by (auto simp: KnifeApplySideChoice_def ctx n_def split: if_splits)
  then obtain b where w: "w \<noteq> Team_Unknown" and b: "wanted_side (Lower choice) (w = Team1) = Some b"
    and out: "out = pick_outputs v ctx n b (w = Team1) sid name (sent v (if kn_logdetailSet (st_knife (kg_st g)) then [''mp_logdetail 0''] else []))"
    and g': "g' = after_pick v (snd (ResetKnifeStateForMapLocked v n g))"
    by (auto simp: ApplyKnifeSideChoiceLocked_def reset_knife w_def Let_def split: if_splits option.splits)
  define t1 where "t1 \<longleftrightarrow> starts_ct b (w = Team1)"
  define side where "side = (if t1 then ''team1_ct'' else ''team2_ct'')"
  have swap: "Command ''mp_swapteams'' \<in> set out \<longleftrightarrow> \<not> t1" unfolding out t1_def by (rule swap_sent [OF cmds])
  have side: "UpdateMapSide n side \<in> set out" by (simp add: out pick_outputs_def Let_def side_def t1_def)
  have end_state: "st_mode (kg_st g') = Mode_MatchWarmup" "st_knife (kg_st g') = knife_clear n"
    by (simp_all add: g' after_pick_def reset_knife)
  have teams: "x = Team1 \<or> x = Team2 \<or> x = Team_Unknown" for x by (cases x) auto
  have "(Lower choice = ''ct'' \<longrightarrow> ct_team side = w) \<and> (Lower choice = ''t'' \<longrightarrow> ct_team side \<noteq> w)
      \<and> (Lower choice = ''stay'' \<longrightarrow> t1) \<and> (Lower choice = ''switch'' \<longrightarrow> \<not> t1)"
    using b w teams [of w] by (auto simp: wanted_side_def t1_def starts_ct_def side_def ct_team_def)
  with side swap end_state show ?thesis by (intro exI [of _ n] exI [of _ side]) (auto simp: side_def)
qed


text \<open>
  A plugin reload in the knife round loses nothing: with the tracker restored from what was saved
  between two log lines, every later count of a side is what it would have been.
\<close>

theorem tracker_survives_reload:
  assumes t: "t = fold KnifeTrackerObserveLine ls (KnifeTrackerReset active)"
  shows "KnifeTrackerStats cs r (fold KnifeTrackerObserveLine later (KnifeTrackerRestore (kt_active t) (KnifeTrackerSave t)))
    = KnifeTrackerStats cs r (fold KnifeTrackerObserveLine later t)"
proof -
  have "tracker_ok t"
    unfolding t by (rule tracker.inv_run) (simp_all add: tracker_ok_def KnifeTrackerReset_def list_all_iff)
  then show ?thesis by (intro same_tracker_stats same_tracker_lines restore_saved)
qed

section \<open>Instances\<close>

definition sample_ctx :: KnifeContext where
  "sample_ctx =
     \<lparr>kc_slug = ''cup'', kc_team1_name = ''Red'', kc_team2_name = ''Blue'', kc_map_sides = [''knife''], kc_matchid = 7,
      kc_knifeDecisionSeconds = 60\<rparr>"

definition sample_env :: "seconds \<Rightarrow> KnifeEnv" where
  "sample_env now =
     \<lparr>kv_ctx = Some sample_ctx, kv_map_number = 1, kv_featureKnife = True, kv_accepts = \<lambda>_. True, kv_now = now,
      kv_hudReplacesChat = False, kv_knife_pick_seconds = 45, kv_liveCfgCommand = ''exec live.cfg'', kv_devBots = False,
      kv_registry = empty_registry\<rparr>"

definition sample_game :: "ReadyUpMode \<Rightarrow> KnifeState \<Rightarrow> bool \<Rightarrow> KnifeGame" where
  "sample_game m k active =
     \<lparr>kg_st = fresh_series\<lparr>st_mode := m, st_knife := k\<rparr>, kg_lastGateCmd = 0, kg_matchLoadedChatSent = False,
      kg_tracker = KnifeTrackerReset active\<rparr>"

definition running_game :: KnifeGame where
  "running_game = sample_game Mode_MatchKnife ((knife_clear 1)\<lparr>kn_phase := Knife_Running, kn_startedSent := True\<rparr>) True"

lemmas sample_defs = sample_ctx_def sample_env_def sample_game_def running_game_def


theorem knife_winner_best_witness:
  "\<exists>w l. {w, l} = {2, 3}
    \<and> kn_winnerCs (st_knife (kg_st (snd (KnifeOnRoundEnd (sample_env 90) 1 0 False True running_game)))) = w
    \<and> kn_winner (st_knife (kg_st (snd (KnifeOnRoundEnd (sample_env 90) 1 0 False True running_game)))) = (if w = 3 then Team1 else Team2)
    \<and> length (alive_by_log [] l empty_registry) \<le> length (alive_by_log [] w empty_registry)
    \<and> (length (alive_by_log [] l empty_registry) = length (alive_by_log [] w empty_registry) \<longrightarrow>
         health_by_log [] l empty_registry \<le> health_by_log [] w empty_registry)"
  using knife_winner_best [of "sample_env 90" sample_ctx running_game "[]" 1 0 True] by (simp add: sample_defs)

theorem choice_grants_side_witness:
  "\<exists>out g'. KnifeApplySideChoice (sample_env 90) ''t'' 5 ''Ann''
       (sample_game Mode_MatchKnife ((knife_clear 1)\<lparr>kn_phase := Knife_Picking, kn_winner := Team1, kn_awaitingPick := True\<rparr>) False) = (True, out, g')
     \<and> (\<exists>n side. UpdateMapSide n side \<in> set out \<and> ct_team side \<noteq> Team1)"
proof -
  let ?g = "sample_game Mode_MatchKnife ((knife_clear 1)\<lparr>kn_phase := Knife_Picking, kn_winner := Team1, kn_awaitingPick := True\<rparr>) False"
  have low: "Lower ''t'' = ''t''" by code_simp
  obtain out g' where acc: "KnifeApplySideChoice (sample_env 90) ''t'' 5 ''Ann'' ?g = (True, out, g')"
    by (simp add: KnifeApplySideChoice_def ApplyKnifeSideChoiceLocked_def wanted_side_def low reset_knife sample_defs Let_def)
  have w: "kn_winner (st_knife (kg_st ?g)) = Team1" by (simp add: sample_game_def)
  show ?thesis
    using choice_grants_side [OF acc] acc low w by (auto simp: sample_env_def)
qed


theorem tracker_survives_reload_witness:
  "KnifeTrackerStats 3 empty_registry (fold KnifeTrackerObserveLine [''x''] (KnifeTrackerRestore (kt_active (KnifeTrackerReset True)) (KnifeTrackerSave (KnifeTrackerReset True))))
   = KnifeTrackerStats 3 empty_registry (fold KnifeTrackerObserveLine [''x''] (KnifeTrackerReset True))"
  using tracker_survives_reload [of "KnifeTrackerReset True" "[]" True 3 empty_registry "[''x'']"] by simp

end
