(* ===== verification/Minijson.thy ===== *)
theory Minijson
  imports Json
begin

text \<open>
  The reader of match configs and settings (libs/readyup/minijson.h and minijson.cpp), the third JSON
  reader of the program. Every number is a double, a \<open>\u\<close> escape beyond ASCII becomes a question mark,
  the first of two equal keys wins, and there is no limit of the nesting.

  The position in the text is the rest that is not read yet. A reader gives \<open>Inl\<close> with the rest where it
  stopped, or \<open>Inr\<close> with the value and the rest behind it. The recursion of the source has no bound, so
  the readers here take a number of turns; \<open>mini_turns_enough\<close> shows that the number that \<open>mini_Parse\<close>
  uses is never reached.
\<close>

section \<open>Values\<close>

datatype mvalue =
  MNull
| MBool bool
| MNumber real
| MString string
| MObject "(string \<times> mvalue) list"
| MArray "mvalue list"

fun mini_get :: "mvalue \<Rightarrow> string \<Rightarrow> mvalue option" where
  "mini_get (MObject kvs) key = map_of kvs key"
| "mini_get _ key = None"

fun mini_IsObject :: "mvalue option \<Rightarrow> bool" where
  "mini_IsObject (Some (MObject kvs)) = True"
| "mini_IsObject _ = False"

fun mini_AsString :: "mvalue option \<Rightarrow> string option" where
  "mini_AsString (Some (MString s)) = Some s"
| "mini_AsString _ = None"

text \<open>A cast to an integer drops the fraction. Outside 64 bits it is undefined in C++; the model leaves the value as it is.\<close>

definition trunc_int :: "real \<Rightarrow> int" where
  "trunc_int d = (if 0 \<le> d then \<lfloor>d\<rfloor> else \<lceil>d\<rceil>)"

fun mini_AsInt :: "mvalue option \<Rightarrow> int option" where
  "mini_AsInt (Some (MNumber d)) = Some (trunc_int d)"
| "mini_AsInt _ = None"

section \<open>Reading\<close>

type_synonym 'a mini = "string + ('a \<times> string)"

fun mini_hex :: "nat \<Rightarrow> nat \<Rightarrow> string \<Rightarrow> nat mini" where
  "mini_hex 0 v s = Inr (v, s)"
| "mini_hex (Suc k) v [] = Inl []"
| "mini_hex (Suc k) v (c # cs) = (if isxdigit c then mini_hex k (v * 16 + digit_value c) cs else Inl cs)"

lemma mini_hex_rest: "mini_hex k v s = Inr (u, r) \<Longrightarrow> length s = length r + k"
  by (induction k v s rule: mini_hex.induct) (auto split: if_splits)

function mini_str_loop :: "string \<Rightarrow> string \<Rightarrow> string mini" where
  "mini_str_loop out [] = Inl []"
| "mini_str_loop out (c # cs) =
     (if c = quote_char then Inr (out, cs)
      else if c \<noteq> backslash then mini_str_loop (out @ [c]) cs
      else case cs of
             [] \<Rightarrow> Inl []
           | e # r \<Rightarrow>
               (case simple_escape e of
                  Some d \<Rightarrow> mini_str_loop (out @ [d]) r
                | None \<Rightarrow>
                    if e \<noteq> CHR ''u'' then Inl r
                    else case mini_hex 4 0 r of
                           Inl f \<Rightarrow> Inl f
                         | Inr (code, r1) \<Rightarrow>
                             mini_str_loop (out @ [if code \<le> 0x7F then char_of code else CHR ''?'']) r1))"
  by pat_completeness auto
termination
  by (relation "measure (\<lambda>(out, s). length s)") (auto dest: mini_hex_rest)

definition mini_parseString :: "string \<Rightarrow> string mini" where
  "mini_parseString s =
     (case s of [] \<Rightarrow> Inl [] | c # cs \<Rightarrow> if c = quote_char then mini_str_loop [] cs else Inl cs)"

definition mini_parseLiteral :: "string \<Rightarrow> mvalue \<Rightarrow> string \<Rightarrow> mvalue mini" where
  "mini_parseLiteral lit v s = (if take (length lit) s = lit then Inr (v, drop (length lit) s) else Inl s)"

text \<open>
  \<open>strtod\<close> sets \<open>errno\<close> for a value whose size is beyond the largest double (after rounding) or below
  the smallest normal one.
\<close>

definition double_range :: "real \<Rightarrow> bool" where
  "double_range d \<longleftrightarrow> d = 0 \<or> (1 / 2 ^ 1022 \<le> \<bar>d\<bar> \<and> \<bar>d\<bar> < 2 ^ 1024 - 2 ^ 970)"

definition take_fraction :: "string \<Rightarrow> string \<times> string" where
  "take_fraction r =
     (if take 1 r = ''.'' then (CHR ''.'' # takeWhile isdigit (drop 1 r), dropWhile isdigit (drop 1 r)) else ([], r))"

definition take_power :: "string \<Rightarrow> string \<times> string" where
  "take_power r =
     (if take 1 r \<in> {''e'', ''E''}
      then let n = (if take 1 (drop 1 r) \<in> {''+'', ''-''} then 2 else 1)
           in (take n r @ takeWhile isdigit (drop n r), dropWhile isdigit (drop n r))
      else ([], r))"

definition mini_parseNumber :: "string \<Rightarrow> real mini" where
  "mini_parseNumber s =
     (let (sign, s1) = (if take 1 s = ''-'' then (''-'', drop 1 s) else ([], s));
          ds = takeWhile isdigit s1;
          (fr, r2) = take_fraction (dropWhile isdigit s1);
          (ex, r3) = take_power r2;
          d = fst (strtod (sign @ ds @ fr @ ex))
      in if ds = [] \<or> \<not> double_range d then Inl s else Inr (d, r3))"

text \<open>\<open>obj.emplace\<close>: a key that is there already keeps its value.\<close>

definition emplace :: "(string \<times> mvalue) list \<Rightarrow> string \<Rightarrow> mvalue \<Rightarrow> (string \<times> mvalue) list" where
  "emplace kvs k v = (if k \<in> fst ` set kvs then kvs else kvs @ [(k, v)])"

text \<open>After a member or an item: \<open>p.get()\<close> is a comma (go on), the closing bracket, or an error.\<close>

definition mini_more :: "char \<Rightarrow> string \<Rightarrow> bool mini" where
  "mini_more close s =
     (case Ws s of
        [] \<Rightarrow> Inl []
      | c # r \<Rightarrow> if c = close then Inr (False, r) else if c = CHR '','' then Inr (True, r) else Inl r)"

definition mini_colon :: "string \<Rightarrow> unit mini" where
  "mini_colon s = (case Ws s of [] \<Rightarrow> Inl [] | c # r \<Rightarrow> if c = CHR '':'' then Inr ((), r) else Inl r)"

fun mini_then :: "'a mini \<Rightarrow> ('a \<Rightarrow> string \<Rightarrow> 'b mini) \<Rightarrow> 'b mini" where
  "mini_then (Inl r) f = Inl r"
| "mini_then (Inr (x, r)) f = f x r"

definition mini_key :: "string \<Rightarrow> string mini" where
  "mini_key s = (if take 1 s \<noteq> [quote_char] then Inl s else mini_parseString s)"

fun mini_parseValue :: "nat \<Rightarrow> string \<Rightarrow> mvalue mini"
  and mini_parseArray :: "nat \<Rightarrow> mvalue list \<Rightarrow> string \<Rightarrow> mvalue mini"
  and mini_parseObject :: "nat \<Rightarrow> (string \<times> mvalue) list \<Rightarrow> string \<Rightarrow> mvalue mini" where
  "mini_parseValue 0 s = Inl s"
| "mini_parseValue (Suc f) s =
     (case Ws s of
        [] \<Rightarrow> Inl []
      | c # r \<Rightarrow>
          if c = CHR 0x00 then Inl (c # r)
          else if c = quote_char then mini_then (mini_parseString (c # r)) (\<lambda>t r2. Inr (MString t, r2))
          else if c = CHR ''{'' then
            (if take 1 (Ws r) = ''}'' then Inr (MObject [], drop 1 (Ws r)) else mini_parseObject f [] r)
          else if c = CHR ''['' then
            (if take 1 (Ws r) = '']'' then Inr (MArray [], drop 1 (Ws r)) else mini_parseArray f [] r)
          else if c = CHR ''t'' then mini_parseLiteral ''true'' (MBool True) (c # r)
          else if c = CHR ''f'' then mini_parseLiteral ''false'' (MBool False) (c # r)
          else if c = CHR ''n'' then mini_parseLiteral ''null'' MNull (c # r)
          else mini_then (mini_parseNumber (c # r)) (\<lambda>d r2. Inr (MNumber d, r2)))"
| "mini_parseArray 0 xs s = Inl s"
| "mini_parseArray (Suc f) xs s =
     mini_then (mini_parseValue f (Ws s)) (\<lambda>v r.
       mini_then (mini_more (CHR '']'') r) (\<lambda>go r2.
         if go then mini_parseArray f (xs @ [v]) r2 else Inr (MArray (xs @ [v]), r2)))"
| "mini_parseObject 0 kvs s = Inl s"
| "mini_parseObject (Suc f) kvs s =
     mini_then (mini_key (Ws s)) (\<lambda>k r.
       mini_then (mini_colon r) (\<lambda>_ r2.
         mini_then (mini_parseValue f (Ws r2)) (\<lambda>v r3.
           mini_then (mini_more (CHR ''}'') r3) (\<lambda>go r4.
             if go then mini_parseObject f (emplace kvs k v) r4 else Inr (MObject (emplace kvs k v), r4)))))"

text \<open>\<open>Parse\<close>, with the message and the offset of the error.\<close>

definition mini_Parse :: "string \<Rightarrow> (string \<times> nat) + mvalue" where
  "mini_Parse s =
     (case mini_parseValue (2 * length s + 1) s of
        Inl r \<Rightarrow> Inl (''parse error'', length s - length r)
      | Inr (v, r) \<Rightarrow>
          if Ws r \<noteq> [] then Inl (''trailing characters'', length s - length (Ws r)) else Inr v)"

section \<open>Enough turns\<close>

definition shorter :: "nat \<Rightarrow> 'a mini \<Rightarrow> bool" where
  "shorter n p \<longleftrightarrow> (case p of Inl r \<Rightarrow> True | Inr (x, r) \<Rightarrow> length r < n)"

lemma shorter_simps [simp]: "shorter n (Inl r)" "shorter n (Inr (x, r)) \<longleftrightarrow> length r < n"
  by (simp_all add: shorter_def)

lemma shorter_then:
  assumes "shorter n p" and "\<And>x r. p = Inr (x, r) \<Longrightarrow> length r < n \<Longrightarrow> shorter n (f x r)"
  shows "shorter n (mini_then p f)"
  using assms by (cases p) auto

lemma shorter_if: "shorter n p \<Longrightarrow> shorter n q \<Longrightarrow> shorter n (if b then p else q)"
  by simp

lemma shorter_mono: "shorter n p \<Longrightarrow> n \<le> m \<Longrightarrow> shorter m p"
  by (auto simp: shorter_def split: sum.splits)

lemma str_loop_shorter: "shorter (Suc (length s)) (mini_str_loop out s)"
proof (induction s arbitrary: out rule: length_induct)
  case (1 s)
  have rest: "shorter (Suc (length s)) (mini_str_loop o' t)" if "length t < length s" for o' t
    using 1 that by (fastforce intro: shorter_mono)
  show ?case
  proof (cases s)
    case (Cons c cs)
    show ?thesis
    proof (cases "c = backslash")
      case True
      show ?thesis
      proof (cases cs)
        case (Cons e r)
        have tail: "shorter (Suc (length s)) (mini_str_loop o' r1)" if "mini_hex 4 0 r = Inr (cp, r1)" for cp r1 o'
          using mini_hex_rest [OF that] by (intro rest) (simp add: \<open>s = c # cs\<close> Cons)
        have "shorter (Suc (length s)) (mini_str_loop o' r)" for o'
          by (intro rest) (simp add: \<open>s = c # cs\<close> Cons)
        then show ?thesis
          using tail True by (auto simp: \<open>s = c # cs\<close> Cons simp del: simple_escape.simps split: option.splits sum.splits)
      qed (simp add: \<open>s = c # cs\<close> True)
    next
      case False
      then show ?thesis using rest [of cs] by (simp add: Cons)
    qed
  qed simp
qed

lemma parseString_shorter: "shorter (length s) (mini_parseString s)"
  using str_loop_shorter by (auto simp: mini_parseString_def split: list.split)

lemma key_shorter: "shorter (length s) (mini_key s)"
  by (simp add: mini_key_def parseString_shorter)

lemma more_shorter: "shorter (length s) (mini_more c s)"
  using length_Ws [of s] by (auto simp: mini_more_def split: list.split dest: Ws_Cons)

lemma colon_shorter: "shorter (length s) (mini_colon s)"
  by (auto simp: mini_colon_def split: list.split dest: Ws_Cons)

lemma literal_shorter: "lit \<noteq> [] \<Longrightarrow> shorter (length s) (mini_parseLiteral lit v s)"
  by (cases s; cases lit) (auto simp: mini_parseLiteral_def)

lemma drop_digits: "length (dropWhile isdigit (drop n r)) \<le> length r"
  using length_dropWhile_le [of isdigit "drop n r"] by simp

lemma number_shorter: "shorter (length s) (mini_parseNumber s)"
proof -
  define s1 where "s1 = (if take 1 s = ''-'' then drop 1 s else s)"
  have fr: "length (snd (take_fraction r)) \<le> length r" for r
    using drop_digits [of 1 r] by (simp add: take_fraction_def)
  have ex: "length (snd (take_power r)) \<le> length r" for r
    using drop_digits [of 1 r] drop_digits [of 2 r] by (auto simp: take_power_def Let_def numeral_2_eq_2)
  have "length (snd (take_power (snd (take_fraction (dropWhile isdigit s1))))) < length s" if "takeWhile isdigit s1 \<noteq> []"
  proof -
    have "length (dropWhile isdigit s1) < length s1" using that by (cases s1) (auto simp: le_imp_less_Suc length_dropWhile_le split: if_splits)
    moreover have "length s1 \<le> length s" by (simp add: s1_def)
    ultimately show ?thesis
      using ex [of "snd (take_fraction (dropWhile isdigit s1))"] fr [of "dropWhile isdigit s1"] by linarith
  qed
  then show ?thesis by (auto simp: mini_parseNumber_def s1_def Let_def split: prod.split)
qed

lemma Ws_shorter: "shorter (length (Ws s)) p \<Longrightarrow> shorter (length s) p"
  by (erule shorter_mono) (rule length_Ws)

definition reads :: "nat \<Rightarrow> bool" where
  "reads f \<longleftrightarrow>
     (\<forall>s. shorter (length s) (mini_parseValue f s)) \<and> (\<forall>xs s. shorter (length s) (mini_parseArray f xs s))
     \<and> (\<forall>kvs s. shorter (length s) (mini_parseObject f kvs s))"

lemma reads_at:
  assumes "reads f" and "length s \<le> n"
  shows "shorter n (mini_parseValue f s)" "shorter n (mini_parseArray f xs s)" "shorter n (mini_parseObject f kvs s)"
  using assms by (auto simp: reads_def intro: shorter_mono [of "length s"])

lemma value_shorter:
  assumes "reads f"
  shows "shorter (length s) (mini_parseValue (Suc f) s)"
proof (cases "Ws s")
  case (Cons c r)
  then have len: "length r < length s" by (rule Ws_Cons)
  have nested: "shorter (length s) (mini_parseArray f [] r)" "shorter (length s) (mini_parseObject f [] r)"
    using len by (auto intro: reads_at [OF assms])
  have lit: "shorter (length s) (mini_parseLiteral (d # lit) v (c # r))" for d lit v
    using len by (intro shorter_mono [OF literal_shorter]) auto
  have leaf: "shorter (length s) (mini_then (mini_parseString (c # r)) (\<lambda>t r2. Inr (MString t, r2)))"
    "shorter (length s) (mini_then (mini_parseNumber (c # r)) (\<lambda>d r2. Inr (MNumber d, r2)))"
    using len by (intro shorter_then shorter_mono [OF parseString_shorter] shorter_mono [OF number_shorter]; simp)+
  have empty: "shorter (length s) (Inr (v, drop 1 (Ws r)))" for v :: mvalue using len length_Ws [of r] by simp
  show ?thesis
    unfolding mini_parseValue.simps Cons list.case by (intro shorter_if shorter_simps nested lit leaf empty)
qed simp

lemma array_shorter:
  assumes "reads f"
  shows "shorter (length s) (mini_parseArray (Suc f) xs s)"
  unfolding mini_parseArray.simps
proof (rule shorter_then)
  show "shorter (length s) (mini_parseValue f (Ws s))"
    using length_Ws by (intro reads_at [OF assms])
  fix v and r :: string
  assume r: "length r < length s"
  then have "shorter (length s) (mini_more (CHR '']'') r)" by (intro shorter_mono [OF more_shorter]) simp
  then show "shorter (length s) (mini_then (mini_more (CHR '']'') r) (\<lambda>go r2.
      if go then mini_parseArray f (xs @ [v]) r2 else Inr (MArray (xs @ [v]), r2)))"
    by (rule shorter_then) (simp add: reads_at [OF assms])
qed

lemma object_shorter:
  assumes "reads f"
  shows "shorter (length s) (mini_parseObject (Suc f) kvs s)"
  unfolding mini_parseObject.simps
proof (rule shorter_then [OF Ws_shorter [OF key_shorter]], rule shorter_then, goal_cases)
  case (1 k r)
  then show ?case by (intro shorter_mono [OF colon_shorter]) simp
next
  case (2 k r u r2)
  then have "shorter (length s) (mini_parseValue f (Ws r2))"
    using length_Ws [of r2] by (intro reads_at [OF assms]) simp
  then show ?case
  proof (rule shorter_then, goal_cases)
    case (1 v r3)
    then have "shorter (length s) (mini_more (CHR ''}'') r3)" by (intro shorter_mono [OF more_shorter]) simp
    then show ?case by (rule shorter_then) (simp add: reads_at [OF assms])
  qed
qed

lemma readers_shorter: "reads f"
proof (induction f)
  case (Suc f)
  then show ?case by (simp only: reads_def [of "Suc f"] value_shorter array_shorter object_shorter simp_thms)
qed (simp add: reads_def)

lemma reads_shorter:
  "shorter (length s) (mini_parseValue f s)" "shorter (length s) (mini_parseArray f xs s)"
  "shorter (length s) (mini_parseObject f kvs s)"
  using readers_shorter [of f] by (simp_all add: reads_def)

lemma then_cong:
  assumes "p = q" and "\<And>x r. q = Inr (x, r) \<Longrightarrow> f x r = g x r"
  shows "mini_then p f = mini_then q g"
  using assms by (cases q) auto

text \<open>More turns than bytes, twice over, change nothing.\<close>

definition settled :: "nat \<Rightarrow> bool" where
  "settled f \<longleftrightarrow>
     (\<forall>g s. f \<le> g \<longrightarrow> 2 * length s < f \<longrightarrow> mini_parseValue g s = mini_parseValue f s)
     \<and> (\<forall>g xs s. f \<le> g \<longrightarrow> 2 * length s + 1 < f \<longrightarrow> mini_parseArray g xs s = mini_parseArray f xs s)
     \<and> (\<forall>g kvs s. f \<le> g \<longrightarrow> 2 * length s + 1 < f \<longrightarrow> mini_parseObject g kvs s = mini_parseObject f kvs s)"

lemma settled_at:
  assumes "settled f" "f \<le> g"
  shows "2 * length s < f \<Longrightarrow> mini_parseValue g s = mini_parseValue f s"
    "2 * length s + 1 < f \<Longrightarrow> mini_parseArray g xs s = mini_parseArray f xs s"
    "2 * length s + 1 < f \<Longrightarrow> mini_parseObject g kvs s = mini_parseObject f kvs s"
  using assms unfolding settled_def by blast+

lemma settled_value:
  assumes "settled f" "f \<le> g" "2 * length s < Suc f"
  shows "mini_parseValue (Suc g) s = mini_parseValue (Suc f) s"
proof (cases "Ws s")
  case (Cons c r)
  then have "2 * length r + 1 < f" using Ws_Cons [OF Cons] assms(3) by simp
  then have "mini_parseArray g [] r = mini_parseArray f [] r" "mini_parseObject g [] r = mini_parseObject f [] r"
    by (simp_all add: settled_at [OF assms(1,2)])
  then show ?thesis by (simp add: Cons)
qed simp

lemma settled_array:
  assumes "settled f" "f \<le> g" "2 * length s + 1 < Suc f"
  shows "mini_parseArray (Suc g) xs s = mini_parseArray (Suc f) xs s"
  unfolding mini_parseArray.simps
proof (intro then_cong)
  show "mini_parseValue g (Ws s) = mini_parseValue f (Ws s)"
    using assms(3) length_Ws [of s] by (intro settled_at [OF assms(1,2)]) simp
  fix v r go r2
  assume v: "mini_parseValue f (Ws s) = Inr (v, r)" and m: "mini_more (CHR '']'') r = Inr (go, r2)"
  have "length r < length s" using reads_shorter(1) [of "Ws s" f] length_Ws [of s] by (simp add: v)
  moreover have "length r2 < length r" using more_shorter [of r "CHR '']''"] by (simp add: m)
  ultimately have "mini_parseArray g (xs @ [v]) r2 = mini_parseArray f (xs @ [v]) r2"
    using assms(3) by (intro settled_at [OF assms(1,2)]) simp
  then show "(if go then mini_parseArray g (xs @ [v]) r2 else Inr (MArray (xs @ [v]), r2))
    = (if go then mini_parseArray f (xs @ [v]) r2 else Inr (MArray (xs @ [v]), r2))" by simp
qed simp

lemma settled_object:
  assumes "settled f" "f \<le> g" "2 * length s + 1 < Suc f"
  shows "mini_parseObject (Suc g) kvs s = mini_parseObject (Suc f) kvs s"
  unfolding mini_parseObject.simps
proof (intro then_cong, simp, simp)
  fix k r u r2
  assume k: "mini_key (Ws s) = Inr (k, r)" and u: "mini_colon r = Inr (u, r2)"
  have r2: "length r2 < length s"
    using key_shorter [of "Ws s"] colon_shorter [of r] length_Ws [of s] by (simp add: k u)
  then show "mini_parseValue g (Ws r2) = mini_parseValue f (Ws r2)"
    using assms(3) length_Ws [of r2] by (intro settled_at [OF assms(1,2)]) simp
  fix v r3 go r4
  assume v: "mini_parseValue f (Ws r2) = Inr (v, r3)" and m: "mini_more (CHR ''}'') r3 = Inr (go, r4)"
  have "length r3 < length s" using reads_shorter(1) [of "Ws r2" f] length_Ws [of r2] r2 by (simp add: v)
  moreover have "length r4 < length r3" using more_shorter [of r3 "CHR ''}''"] by (simp add: m)
  ultimately have "mini_parseObject g (emplace kvs k v) r4 = mini_parseObject f (emplace kvs k v) r4"
    using assms(3) by (intro settled_at [OF assms(1,2)]) simp
  then show "(if go then mini_parseObject g (emplace kvs k v) r4 else Inr (MObject (emplace kvs k v), r4))
    = (if go then mini_parseObject f (emplace kvs k v) r4 else Inr (MObject (emplace kvs k v), r4))" by simp
qed simp

lemma settled_all: "settled f"
proof (induction f)
  case (Suc f)
  have g: "\<exists>g'. g = Suc g' \<and> f \<le> g'" if "Suc f \<le> g" for g using that by (cases g) auto
  show ?case
    unfolding settled_def [of "Suc f"]
    using settled_value [OF Suc] settled_array [OF Suc] settled_object [OF Suc] by (blast dest: g)
qed (simp add: settled_def)

section \<open>Texts that the program wrote\<close>

text \<open>The value that this reader gives for a value of \<open>Json\<close>: every number is a double.\<close>

primrec mini_of :: "json \<Rightarrow> mvalue" where
  "mini_of JNull = MNull"
| "mini_of (JBool b) = MBool b"
| "mini_of (JInt i) = MNumber (of_int i)"
| "mini_of (JDouble d) = MNumber d"
| "mini_of (JString s) = MString s"
| "mini_of (JObject kvs) = MObject (map (map_prod (\<lambda>k. k) mini_of) kvs)"
| "mini_of (JArray xs) = MArray (map mini_of xs)"

lemma mini_hex_byte:
  assumes "n < 256"
  shows "mini_hex 4 0 (CHR ''0'' # CHR ''0'' # hex_digit (n div 16) # hex_digit n # r) = Inr (n, r)"
proof -
  have four: "(4 :: nat) = Suc (Suc (Suc (Suc 0)))" by simp
  have "n div 16 mod 16 * 16 + n mod 16 = n" using assms by simp
  then show ?thesis
    using hex_digit_value [of n] hex_digit_value [of "n div 16"] by (simp add: four zero_digit)
qed

lemma mini_str_byte: "mini_str_loop out (quoted_byte c @ r) = mini_str_loop (out @ [c]) r"
proof -
  consider (quote) "c = quote_char" | (slash) "c = backslash"
    | (simple) "byte c \<in> {10, 13, 9, 8, 12}"
    | (hex) "byte c < 0x20 \<or> byte c = 0x7F" "byte c \<notin> {10, 13, 9, 8, 12}" "c \<noteq> quote_char" "c \<noteq> backslash"
    | (plain) "c \<noteq> quote_char" "c \<noteq> backslash" "byte c \<ge> 0x20" "byte c \<noteq> 0x7F"
    by fastforce
  then show ?thesis
  proof cases
    case simple
    then have "c \<in> {CHR 0x0A, CHR 0x0D, CHR 0x09, CHR 0x08, CHR 0x0C}" by (auto simp: control_chars dest!: byte_is)
    then show ?thesis by (auto simp: quoted_byte_def)
  next
    case hex
    then have b: "byte c < 128" by auto
    have "quoted_byte c = [backslash, CHR ''u'', CHR ''0'', CHR ''0'', hex_digit (byte c div 16), hex_digit (byte c)]"
      using hex by (simp add: quoted_byte_def)
    then show ?thesis using b by (simp add: mini_hex_byte simple_escape_u del: simple_escape.simps)
  next
    case plain
    then show ?thesis by (simp add: quoted_byte_def)
  qed (simp_all add: quoted_byte_def)
qed

lemma mini_str_bytes: "mini_str_loop out (concat (map quoted_byte s) @ quote_char # r) = Inr (out @ s, r)"
  by (induction s arbitrary: out) (simp_all add: mini_str_byte)

lemma mini_str_escaped: "mini_parseString (JsonEscapeTo s @ r) = Inr (s, r)"
  by (simp add: mini_parseString_def JsonEscapeTo_def mini_str_bytes)

lemma strtod_digits:
  assumes "list_all isdigit ds" "ds \<noteq> []"
  shows "strtod ds = (real (dec_value ds), [])" "strtod (CHR ''-'' # ds) = (- real (dec_value ds), [])"
proof -
  have nul: "c_str ds = ds" using assms(1) by (rule c_str_digits)
  obtain c cs where ds: "ds = c # cs" using assms by (cases ds) auto
  with assms have "isdigit c" by simp
  then have sign: "take_sign (dropWhile isspace ds) = (False, ds)" using digit_not_sign [of c] by (simp add: ds take_sign_def)
  have "tolower d \<noteq> CHR ''x''" if "d \<in> set ds" for d
  proof -
    have "byte d \<le> 57" using that assms(1) by (auto simp: list_all_iff isdigit_def)
    then have "byte (tolower d) \<noteq> 120" by (simp add: byte_tolower isupper_def)
    then show ?thesis by auto
  qed
  then have low: "tolower d \<noteq> CHR ''x''" if "d \<in> set (take 2 ds)" for d using that by (blast dest: in_set_takeD)
  have hex: "Lower (take 2 ds) \<noteq> ''0x''"
  proof
    assume "Lower (take 2 ds) = ''0x''"
    then obtain z d where t: "take 2 ds = [z, d]" "tolower d = CHR ''x''" by (auto simp: Lower_def map_eq_Cons_conv)
    then show False using low [of d] unfolding t(1) by simp
  qed
  have body: "float_body 10 isdigit (CHR ''e'') 10 ds = Some (real (dec_value ds), [])"
    using assms by (simp add: float_body_def take_exponent_def base_value_digits takeWhile_isdigit_all dropWhile_isdigit_all)
  show "strtod ds = (real (dec_value ds), [])" using hex body by (simp add: strtod_def nul sign)
  have "take_sign (dropWhile isspace (CHR ''-'' # ds)) = (True, ds)" by (simp add: isspace_def take_sign_def)
  moreover have "c_str (CHR ''-'' # ds) = CHR ''-'' # ds" using nul by (simp only: c_str_def takeWhile.simps) simp
  ultimately show "strtod (CHR ''-'' # ds) = (- real (dec_value ds), [])"
    using hex body by (simp only: strtod_def Let_def split_conv) simp
qed

lemma in_int64_double: "in_int64 i \<Longrightarrow> double_range (of_int i)"
proof -
  assume i: "in_int64 i"
  have "\<bar>i\<bar> \<le> 2 ^ 63" using i by (auto simp: in_int64_def)
  then have "\<bar>of_int i :: real\<bar> \<le> 2 ^ 63" by (metis of_int_abs of_int_le_iff of_int_numeral of_int_power)
  moreover have "(1 :: real) \<le> \<bar>of_int i\<bar>" if "i \<noteq> 0" using that by (simp flip: of_int_abs)
  moreover have "(1 :: real) / 2 ^ 1022 \<le> 1" by simp
  ultimately show ?thesis by (auto simp: double_range_def)
qed

lemma mini_number_int:
  assumes i: "in_int64 i" and r: "delimited r"
  shows "mini_parseNumber (to_string i @ r) = Inr (of_int i, r)"
proof -
  let ?ds = "dec_nat (nat \<bar>i\<bar>)"
  note cut = take_digits [OF list_all_isdigit_dec_nat [of "nat \<bar>i\<bar>"] r]
  note strt = strtod_digits [OF list_all_isdigit_dec_nat [of "nat \<bar>i\<bar>"]]
  have rest: "take_fraction r = ([], r)" "take_power r = ([], r)"
    using delimited_take1 [OF r] by (simp_all add: take_fraction_def take_power_def)
  obtain c cs where ds: "?ds = c # cs" by (cases ?ds) auto
  then have c: "isdigit c" using list_all_isdigit_dec_nat [of "nat \<bar>i\<bar>"] by simp
  show ?thesis
  proof (cases "i < 0")
    case True
    then have "to_string i = CHR ''-'' # ?ds" by (simp add: to_string_def)
    with cut strt rest True in_int64_double [OF i] show ?thesis by (simp add: mini_parseNumber_def)
  next
    case False
    then have "to_string i = ?ds" by (simp add: to_string_def)
    moreover have "take 1 (?ds @ r) \<noteq> ''-''" using ds c by (auto simp: isdigit_def)
    ultimately show ?thesis
      using cut strt rest False in_int64_double [OF i] by (simp add: mini_parseNumber_def)
  qed
qed

lemma Ws_dump: "json_ok j n \<Longrightarrow> Ws (dump_g p j @ r) = dump_g p j @ r"
  using dump_head [of j n p] by auto

text \<open>What a reader of values has to do for the members and items of a list.\<close>

definition reads_back :: "nat \<Rightarrow> json \<Rightarrow> bool" where
  "reads_back p v \<longleftrightarrow>
     (\<forall>f r. delimited r \<longrightarrow> 2 * length (dump_g p v @ r) < f \<longrightarrow> mini_parseValue f (dump_g p v @ r) = Inr (mini_of v, r))"

lemma mini_array_text:
  assumes "ys \<noteq> []" "\<And>v. v \<in> set ys \<Longrightarrow> reads_back p v \<and> json_ok v n"
    and "2 * length (join_by (CHR '','') (map (dump_g p) ys) @ CHR '']'' # r) + 1 < f"
  shows "mini_parseArray f xs (join_by (CHR '','') (map (dump_g p) ys) @ CHR '']'' # r) = Inr (MArray (xs @ map mini_of ys), r)"
  using assms
proof (induction ys arbitrary: xs f)
  case (Cons y ys)
  then obtain g where f: "f = Suc g" by (cases f) auto
  define t where "t = (if ys = [] then CHR '']'' # r else CHR '','' # join_by (CHR '','') (map (dump_g p) ys) @ CHR '']'' # r)"
  have s: "join_by (CHR '','') (map (dump_g p) (y # ys)) @ CHR '']'' # r = dump_g p y @ t"
    by (simp add: t_def join_by_Cons)
  have len: "2 * length (dump_g p y @ t) + 1 < Suc g" using Cons.prems(3) unfolding s f .
  have val: "mini_parseValue g (Ws (dump_g p y @ t)) = Inr (mini_of y, t)"
    using Cons.prems(2) [of y] len Ws_dump [of y n p t] by (simp add: reads_back_def t_def)
  show ?case
  proof (cases "ys = []")
    case True
    with val show ?thesis unfolding s f by (simp add: t_def mini_more_def)
  next
    case False
    have "2 * length (join_by (CHR '','') (map (dump_g p) ys) @ CHR '']'' # r) + 1 < g" using len False by (simp add: t_def)
    with Cons.IH [OF False, of g "xs @ [mini_of y]"] Cons.prems(2) False val show ?thesis
      unfolding s f by (simp add: t_def mini_more_def)
  qed
qed simp

definition member_text :: "nat \<Rightarrow> string \<times> json \<Rightarrow> string" where
  "member_text p kv = JsonEscapeTo (fst kv) @ CHR '':'' # dump_g p (snd kv)"

lemma mini_object_text:
  assumes "ys \<noteq> []" "\<And>kv. kv \<in> set ys \<Longrightarrow> reads_back p (snd kv) \<and> json_ok (snd kv) n"
    and "2 * length (join_by (CHR '','') (map (member_text p) ys) @ CHR ''}'' # r) + 1 < f"
    and "distinct (map fst (kvs @ map (map_prod (\<lambda>k. k) mini_of) ys))"
  shows "mini_parseObject f kvs (join_by (CHR '','') (map (member_text p) ys) @ CHR ''}'' # r)
    = Inr (MObject (kvs @ map (map_prod (\<lambda>k. k) mini_of) ys), r)"
  using assms
proof (induction ys arbitrary: kvs f)
  case (Cons y ys)
  then obtain g where f: "f = Suc g" by (cases f) auto
  obtain k v where y: "y = (k, v)" by (cases y)
  define t where "t = (if ys = [] then CHR ''}'' # r else CHR '','' # join_by (CHR '','') (map (member_text p) ys) @ CHR ''}'' # r)"
  have s: "join_by (CHR '','') (map (member_text p) (y # ys)) @ CHR ''}'' # r = JsonEscapeTo k @ CHR '':'' # dump_g p v @ t"
    by (simp add: t_def join_by_Cons member_text_def y)
  have len: "2 * length (JsonEscapeTo k @ CHR '':'' # dump_g p v @ t) + 1 < Suc g" using Cons.prems(3) unfolding s f .
  have val: "mini_parseValue g (Ws (dump_g p v @ t)) = Inr (mini_of v, t)"
    using Cons.prems(2) [of y] len Ws_dump [of v n p t] by (simp add: reads_back_def t_def y)
  have key: "mini_key (Ws (JsonEscapeTo k @ CHR '':'' # dump_g p v @ t)) = Inr (k, CHR '':'' # dump_g p v @ t)"
    using mini_str_escaped [of k "CHR '':'' # dump_g p v @ t"] by (simp add: mini_key_def JsonEscapeTo_def)
  have new: "emplace kvs k (mini_of v) = kvs @ [(k, mini_of v)]" using Cons.prems(4) by (force simp: emplace_def y)
  show ?case
  proof (cases "ys = []")
    case True
    with val key new show ?thesis unfolding s f by (simp add: t_def mini_more_def mini_colon_def y)
  next
    case False
    have "2 * length (join_by (CHR '','') (map (member_text p) ys) @ CHR ''}'' # r) + 1 < g" using len False by (simp add: t_def)
    with Cons.IH [OF False, of g "kvs @ [(k, mini_of v)]"] Cons.prems(2,4) False val key new show ?thesis
      unfolding s f by (simp add: t_def mini_more_def mini_colon_def y)
  qed
qed simp

lemma dump_members: "dump_g p (JObject kvs) = CHR ''{'' # join_by (CHR '','') (map (member_text p) kvs) @ ''}''"
proof -
  have "map (\<lambda>(k, v). [] @ JsonEscapeTo k @ CHR '':'' # dump_g p v) kvs = map (member_text p) kvs"
    by (simp add: member_text_def split_beta)
  then show ?thesis unfolding dump_object by (simp only: append_Nil)
qed

lemma joined_head: "\<not> is_ws c \<Longrightarrow> take 1 (Ws (join_by d ((c # cs) # ys) @ r)) = [c]"
  by (cases ys) simp_all

lemma mini_reads_back: "json_ok j n \<Longrightarrow> reads_back p j"
proof (induction j arbitrary: n)
  case (JObject kvs)
  then obtain m where n: "n = Suc m" using json_ok_levels by blast
  have vals: "reads_back p (snd kv) \<and> json_ok (snd kv) m" if "kv \<in> set kvs" for kv
  proof -
    have ok: "json_ok (snd kv) m" using JObject.prems that json_ok_member [of kvs m "fst kv" "snd kv"] by (simp add: n)
    with JObject.IH [OF that, of "snd kv" m] show ?thesis by (cases kv) auto
  qed
  have keys: "distinct (map fst ([] @ map (map_prod (\<lambda>k. k) mini_of) kvs))" using JObject.prems by (simp add: comp_def)
  show ?case
    unfolding reads_back_def
  proof (intro allI impI)
    fix f r
    assume len: "2 * length (dump_g p (JObject kvs) @ r) < f"
    then obtain g where f: "f = Suc g" by (cases f) auto
    let ?t = "join_by (CHR '','') (map (member_text p) kvs) @ CHR ''}'' # r"
    have s: "dump_g p (JObject kvs) @ r = CHR ''{'' # ?t" by (simp only: dump_members) simp
    have "2 * length ?t + 1 < g" using len unfolding s f by simp
    then have obj: "mini_parseObject g [] ?t = Inr (mini_of (JObject kvs), r)" if "kvs \<noteq> []"
      using mini_object_text [OF that vals _ keys, of r g] by simp
    have head: "take 1 (Ws ?t) \<noteq> ''}''" if "kvs \<noteq> []"
      using that by (cases kvs) (simp_all add: member_text_def JsonEscapeTo_def joined_head [simplified])
    show "mini_parseValue f (dump_g p (JObject kvs) @ r) = Inr (mini_of (JObject kvs), r)"
      using obj head unfolding s f by (cases "kvs = []") auto
  qed
next
  case (JArray xs)
  then obtain m where n: "n = Suc m" using json_ok_levels by blast
  have vals: "reads_back p v \<and> json_ok v m" if "v \<in> set xs" for v
    using JArray.IH [OF that, of m] json_ok_item [of xs m v] JArray.prems that by (simp add: n)
  show ?case
    unfolding reads_back_def
  proof (intro allI impI)
    fix f r
    assume len: "2 * length (dump_g p (JArray xs) @ r) < f"
    then obtain g where f: "f = Suc g" by (cases f) auto
    let ?t = "join_by (CHR '','') (map (dump_g p) xs) @ CHR '']'' # r"
    have s: "dump_g p (JArray xs) @ r = CHR ''['' # ?t" by simp
    have "2 * length ?t + 1 < g" using len unfolding s f by simp
    then have arr: "mini_parseArray g [] ?t = Inr (mini_of (JArray xs), r)" if "xs \<noteq> []"
      using mini_array_text [OF that vals, of r g "[]"] by simp
    have head: "take 1 (Ws ?t) \<noteq> '']''" if ne: "xs \<noteq> []"
    proof -
      obtain c cs where c: "dump_g p (hd xs) = c # cs" "\<not> is_ws c" "c \<noteq> CHR '']''"
        using dump_head [of "hd xs" m p] vals [of "hd xs"] hd_in_set [OF ne] by blast
      with ne show ?thesis by (cases xs) (simp_all add: joined_head [simplified])
    qed
    show "mini_parseValue f (dump_g p (JArray xs) @ r) = Inr (mini_of (JArray xs), r)"
      using arr head unfolding s f by (cases "xs = []") auto
  qed
next
  case (JString t)
  have "mini_parseValue (Suc g) (JsonEscapeTo t @ r) = Inr (MString t, r)" for g r
    using mini_str_escaped [of t r] by (simp add: JsonEscapeTo_def)
  then show ?case by (auto simp: reads_back_def gr0_conv_Suc dest!: less_imp_Suc_add)
next
  case (JInt i)
  then have i: "in_int64 i" by simp
  have "mini_parseValue (Suc g) (to_string i @ r) = Inr (MNumber (of_int i), r)" if "delimited r" for g r
  proof -
    obtain c cs where s: "to_string i = c # cs" and c: "isdigit c \<or> c = CHR ''-''" by (rule to_string_head)
    have "\<not> is_ws c" "c \<notin> set (quote_char # CHR 0x00 # ''{[tfn'')" using c by (auto simp: is_ws_def isdigit_def)
    then show ?thesis using mini_number_int [OF i that] by (simp add: s)
  qed
  then show ?case by (auto simp: reads_back_def dest!: less_imp_Suc_add)
next
  case (JBool b)
  then show ?case by (cases b) (auto simp: reads_back_def mini_parseLiteral_def Ws_def is_ws_def dest!: less_imp_Suc_add)
qed (auto simp: reads_back_def mini_parseLiteral_def Ws_def is_ws_def dest!: less_imp_Suc_add)

lemma mini_Parse_Dump:
  assumes "json_ok j n"
  shows "mini_Parse (Dump j) = Inr (mini_of j)"
proof -
  have "mini_parseValue f (Dump j @ []) = Inr (mini_of j, [])" if "2 * length (Dump j @ []) < f" for f
    using mini_reads_back [OF assms, of 10] that delimited_simps(1) unfolding reads_back_def Dump_def by blast
  from this [of "2 * length (Dump j) + 1"] have "mini_parseValue (2 * length (Dump j) + 1) (Dump j) = Inr (mini_of j, [])"
    by (simp only: append_Nil2 less_add_one)
  then show ?thesis unfolding mini_Parse_def by (simp only: sum.case split_conv) (simp add: Ws_def)
qed

section \<open>Properties\<close>

text \<open>
  The reader always comes to an end: every text is read to a value or an error with a number of
  turns that grows with its length, and more turns give the same result.
\<close>

theorem mini_turns_enough:
  assumes "2 * length s < turns"
  shows "mini_parseValue turns s = mini_parseValue (2 * length s + 1) s"
  using assms by (intro settled_at(1) [OF settled_all]) simp_all

lemma mini_turns_enough_witness: "mini_parseValue 100 ''[true]'' = mini_parseValue (2 * length ''[true]'' + 1) ''[true]''"
  by (rule mini_turns_enough) simp



text \<open>
  On texts from elsewhere they do not: of two equal keys this reader keeps the first and the other one the
  last. The match config parser reads the same text with both.
\<close>

definition twice :: string where
  "twice = ''{'' @ [quote_char] @ ''a'' @ [quote_char] @ '':true,'' @ [quote_char] @ ''a'' @ [quote_char] @ '':false}''"

lemma first_key_wins: "mini_Parse twice = Inr (MObject [(''a'', MBool True)])"
  by (simp add: mini_Parse_def twice_def mini_key_def mini_parseString_def mini_colon_def mini_more_def mini_parseLiteral_def
      emplace_def numeral_eq_Suc Ws_def is_ws_def)

lemma last_key_wins: "Parse twice = Inr (JObject [(''a'', JBool False)])"
  by (simp add: Parse_def parse_text_def twice_def Str_def expect_def more_def Lit_def max_depth_def numeral_eq_Suc
      Ws_def is_ws_def)

end
