(* ===== verification/Simulation.thy ===== *)
theory Simulation
  imports Text_Input "HOL-Library.AList"
begin

text \<open>
  Simulated and filled matches (plugins/match/readyup/simulation_rules.h, simulation_rules.cpp and
  wingman.cpp): which roster player a bot plays as, how many bots each side wants, when the next bot is
  added, and whose seat is held. A \<open>std::map\<close> is an association list that is read in the order of its
  keys. Infinities and NaN are not values of the model.
\<close>

section \<open>Time scale\<close>

definition ClampTimescale :: "real \<Rightarrow> real" where
  "ClampTimescale ts = (if ts \<le> 0 then 1 else if ts < 1 / 10 then 1 / 10 else if ts > 4 then 4 else ts)"

text \<open>\<open>%.nf\<close>: rounded to nearest with ties to even.\<close>

definition fixed :: "nat \<Rightarrow> real \<Rightarrow> string" where
  "fixed n x =
     (let m = nat (round_even (\<bar>x\<bar> * 10 ^ n))
      in (if x < 0 then ''-'' else []) @ dec_nat (m div 10 ^ n) @ ''.'' @ pad0 n (dec_nat (m mod 10 ^ n)))"

text \<open>Trailing zeros go, and then a point at the end.\<close>

definition drop_zeros :: "string \<Rightarrow> string" where
  "drop_zeros s =
     (let t = rev (dropWhile (\<lambda>c. c = CHR ''0'') (rev s)) in if t \<noteq> [] \<and> last t = CHR ''.'' then butlast t else t)"

definition TimescaleText :: "real \<Rightarrow> string" where
  "TimescaleText ts = drop_zeros (fixed 2 (ClampTimescale ts))"

definition TimescaleCommands :: "real \<Rightarrow> string list" where
  "TimescaleCommands ts =
     (let v = ClampTimescale ts in if v = 1 then [] else [''sv_cheats 1'', ''host_timescale '' @ TimescaleText v])"

definition RealTimeCommands :: "string list" where
  "RealTimeCommands = [''host_timescale 1'', ''sv_cheats 0'']"

section \<open>Identities\<close>

record Identity =
  id_steamid64 :: u64
  id_name :: string
  id_team :: int

record Bot =
  bt_userid :: int
  bt_side :: int

definition team_identities :: "Identity list \<Rightarrow> int \<Rightarrow> int \<Rightarrow> Identity list" where
  "team_identities roster fillPerTeam team =
     (let mine = sort_key id_steamid64 (filter (\<lambda>r. id_team r = team \<and> id_steamid64 r \<noteq> 0) roster)
      in if mine = [] then replicate (nat fillPerTeam) \<lparr>id_steamid64 = 0, id_name = [], id_team = team\<rparr> else mine)"

definition PlanIdentities :: "Identity list \<Rightarrow> int \<Rightarrow> Identity list" where
  "PlanIdentities roster fillPerTeam = team_identities roster fillPerTeam 1 @ team_identities roster fillPerTeam 2"

definition SideOfTeam :: "int \<Rightarrow> bool \<Rightarrow> int" where
  "SideOfTeam team team1IsCt =
     (if team = 1 then (if team1IsCt then 3 else 2) else if team = 2 then (if team1IsCt then 2 else 3) else 0)"

text \<open>\<open>std::map<int, int>\<close>: the userid of a bot and the index of its identity.\<close>

type_synonym Assignment = "(int \<times> int) list"

text \<open>A taken identity is one that is in the result.\<close>

definition used :: "Assignment \<Rightarrow> int \<Rightarrow> bool" where
  "used m i \<longleftrightarrow> i \<in> snd ` set m"

definition keep_identity :: "int list \<Rightarrow> nat \<Rightarrow> int \<times> int \<Rightarrow> Assignment \<Rightarrow> Assignment" where
  "keep_identity present n kv m =
     (if fst kv \<notin> set present \<or> snd kv < 0 \<or> nat (snd kv) \<ge> n then m
      else if used m (snd kv) then m
      else AList.update (fst kv) (snd kv) m)"

definition free_identity :: "Identity list \<Rightarrow> bool \<Rightarrow> int \<Rightarrow> Assignment \<Rightarrow> nat option" where
  "free_identity ids team1IsCt side m =
     find (\<lambda>i. \<not> used m (int i) \<and> SideOfTeam (id_team (ids ! i)) team1IsCt = side) [0..<length ids]"

definition give_identity :: "Identity list \<Rightarrow> bool \<Rightarrow> Bot \<Rightarrow> Assignment \<Rightarrow> Assignment" where
  "give_identity ids team1IsCt b m =
     (if bt_userid b < 0 \<or> map_of m (bt_userid b) \<noteq> None \<or> (bt_side b \<noteq> 2 \<and> bt_side b \<noteq> 3) then m
      else case free_identity ids team1IsCt (bt_side b) m of
             None \<Rightarrow> m
           | Some i \<Rightarrow> AList.update (bt_userid b) (int i) m)"

definition Assign :: "Assignment \<Rightarrow> Bot list \<Rightarrow> Identity list \<Rightarrow> bool \<Rightarrow> Assignment" where
  "Assign prev bots ids team1IsCt =
     fold (give_identity ids team1IsCt) (sort_key bt_userid bots)
       (fold (keep_identity (map bt_userid bots) (length ids)) (sort_key fst prev) [])"

definition WantedPerSide :: "Identity list \<Rightarrow> bool \<Rightarrow> int \<times> int" where
  "WantedPerSide ids team1IsCt =
     (int (length (filter (\<lambda>i. SideOfTeam (id_team i) team1IsCt = 3) ids)),
      int (length (filter (\<lambda>i. SideOfTeam (id_team i) team1IsCt = 2) ids)))"

section \<open>Filling up\<close>

record FillPlan =
  fp_ctWanted :: int
  fp_tWanted :: int
  fp_removeUserids :: "int list"

fun fill_loop :: "int \<Rightarrow> int \<Rightarrow> int \<Rightarrow> int \<Rightarrow> Bot list \<Rightarrow> int list" where
  "fill_loop ctWanted tWanted ct t [] = []"
| "fill_loop ctWanted tWanted ct t (b # bs) =
     (let ct1 = (if bt_side b = 3 then ct + 1 else ct); t1 = (if bt_side b = 2 then t + 1 else t)
      in (if bt_side b = 3 \<and> ct1 > ctWanted then [bt_userid b] else [])
         @ (if bt_side b = 2 \<and> t1 > tWanted then [bt_userid b] else [])
         @ fill_loop ctWanted tWanted ct1 t1 bs)"

definition PlanFill :: "int \<Rightarrow> int \<Rightarrow> int \<Rightarrow> Bot list \<Rightarrow> FillPlan" where
  "PlanFill playersPerTeam humansCt humansT bots =
     (let size = max 1 (min 32 playersPerTeam);
          ctWanted = max 0 (size - max 0 humansCt);
          tWanted = max 0 (size - max 0 humansT)
      in \<lparr>fp_ctWanted = ctWanted, fp_tWanted = tWanted, fp_removeUserids = fill_loop ctWanted tWanted 0 0 bots\<rparr>)"

text \<open>One player: the seat that is held, if it is, and the entry that stays, if it does.\<close>

definition seat_step :: "u64 list \<Rightarrow> seconds \<Rightarrow> int \<Rightarrow> u64 \<times> seconds \<Rightarrow> bool \<times> (u64 \<times> seconds) option" where
  "seat_step here now holdSeconds kv =
     (if fst kv \<in> set here then (False, Some (fst kv, 0))
      else
        let since = (if snd kv = 0 then now else snd kv)
        in if holdSeconds \<le> 0 \<or> now - since > of_int holdSeconds then (False, None) else (True, Some (fst kv, since)))"

definition HeldSeats :: "(u64 \<times> seconds) list \<Rightarrow> u64 list \<Rightarrow> seconds \<Rightarrow> int \<Rightarrow> u64 list \<times> (u64 \<times> seconds) list" where
  "HeldSeats missingSince here now holdSeconds =
     (let m = sort_key fst missingSince
      in (map fst (filter (\<lambda>kv. fst (seat_step here now holdSeconds kv)) m),
          List.map_filter (\<lambda>kv. snd (seat_step here now holdSeconds kv)) m))"

section \<open>The feeder\<close>

record BotFeeder =
  bf_sent :: int
  bf_lastAdd :: seconds
  bf_unsettledSince :: seconds
  bf_lastTrim :: seconds

definition new_feeder :: BotFeeder where
  "new_feeder = \<lparr>bf_sent = 0, bf_lastAdd = - 1000000000, bf_unsettledSince = - 1, bf_lastTrim = - 1000000000\<rparr>"

definition kAddInterval :: seconds where "kAddInterval = 1"
definition kSettleSeconds :: seconds where "kSettleSeconds = 8"

definition side_short :: "int \<Rightarrow> int \<Rightarrow> int \<Rightarrow> int \<Rightarrow> int" where
  "side_short ct t ctWanted tWanted =
     (let ctShort = ctWanted - ct; tShort = tWanted - t
      in if ctShort > 0 \<and> ctShort \<ge> tShort then 3 else if tShort > 0 then 2 else 0)"

text \<open>The side and the quota (0 and 0 for nothing), and the feeder.\<close>

definition Next :: "seconds \<Rightarrow> int \<Rightarrow> int \<Rightarrow> int \<Rightarrow> int \<Rightarrow> int \<Rightarrow> int \<Rightarrow> BotFeeder \<Rightarrow> int \<times> int \<times> BotFeeder" where
  "Next now count ct t ctWanted tWanted maxBots f =
     (let unsettled = (count < bf_sent f \<or> ct + t < count);
          f1 = (if unsettled \<and> bf_unsettledSince f < 0 then f\<lparr>bf_unsettledSince := now\<rparr> else f)
      in if unsettled \<and> now - bf_unsettledSince f1 < kSettleSeconds then (0, 0, f1)
         else
           let f2 = (if unsettled then f1\<lparr>bf_unsettledSince := now, bf_sent := count\<rparr> else f\<lparr>bf_unsettledSince := - 1\<rparr>);
               side = side_short ct t ctWanted tWanted;
               q = max (bf_sent f2) count + 1
           in if now - bf_lastAdd f2 < kAddInterval \<or> count \<ge> maxBots \<or> side = 0 then (0, 0, f2)
              else (side, q, f2\<lparr>bf_sent := q, bf_lastAdd := now\<rparr>))"

definition feeder_Trim :: "seconds \<Rightarrow> int \<Rightarrow> int \<Rightarrow> int \<Rightarrow> int \<Rightarrow> int \<Rightarrow> BotFeeder \<Rightarrow> bool \<times> int \<times> BotFeeder" where
  "feeder_Trim now count ct t ctWanted tWanted f =
     (let wanted = ctWanted + tWanted
      in if wanted \<le> 0 \<or> count \<le> wanted then (False, 0, f)
         else if count < bf_sent f \<or> ct + t < count then (False, 0, f)
         else if now - bf_lastTrim f < kSettleSeconds then (False, 0, f)
         else (True, wanted, f\<lparr>bf_lastTrim := now, bf_sent := wanted\<rparr>))"

definition feeder_Reset :: "BotFeeder \<Rightarrow> BotFeeder" where
  "feeder_Reset f = new_feeder"

definition fmod2 :: "real \<Rightarrow> real" where
  "fmod2 x = x - 2 * of_int \<lfloor>x / 2\<rfloor>"

definition ReadyDelaySeconds :: "int \<Rightarrow> real" where
  "ReadyDelaySeconds index = 3 / 2 + fmod2 (of_int (if index < 0 then 0 else index) * (7 / 10))"

definition WrongSides :: "int \<Rightarrow> int \<Rightarrow> int \<Rightarrow> int \<Rightarrow> bool" where
  "WrongSides ct t ctWanted tWanted \<longleftrightarrow> (ct > ctWanted \<and> t < tWanted) \<or> (t > tWanted \<and> ct < ctWanted)"

section \<open>Commands\<close>

definition SetupCommands :: "string list" where
  "SetupCommands =
     [''bot_quota 0'', ''bot_kick'', ''bot_quota_mode normal'', ''bot_join_after_player 0'', ''mp_autoteambalance 0'',
      ''mp_limitteams 0'', ''mp_autokick 0'', ''bot_stop 0'', ''bot_freeze 0'', ''bot_dont_shoot 0'',
      ''bot_ignore_enemies 0'', ''bot_defer_to_human_goals 0'', ''bot_defer_to_human_items 0'']"

definition TeardownCommands :: "string list" where
  "TeardownCommands = [''bot_quota 0'', ''bot_kick'', ''bot_join_team any'', ''bot_join_after_player 1'']"

definition FillSetupCommands :: "string list" where
  "FillSetupCommands = filter (\<lambda>c. c \<noteq> ''bot_kick'') SetupCommands"

definition FillTeardownCommands :: "string list" where
  "FillTeardownCommands = filter (\<lambda>c. c \<noteq> ''bot_kick'') TeardownCommands"

definition AddBotCommands :: "int \<Rightarrow> int \<Rightarrow> string list" where
  "AddBotCommands side quota =
     [if side = 3 then ''bot_join_team CT'' else ''bot_join_team T'', ''bot_quota '' @ to_string quota]"

text \<open>wingman.cpp: the game mode for the next map, and the numbers of a wingman match.\<close>

definition GameModeCommands :: "bool \<Rightarrow> string list" where
  "GameModeCommands wingman = [''game_type 0'', if wingman then ''game_mode 2'' else ''game_mode 1'']"

definition kMaxRounds :: int where "kMaxRounds = 16"
definition kOvertimeHalf :: int where "kOvertimeHalf = 2"
definition kPlayersPerTeam :: int where "kPlayersPerTeam = 2"

section \<open>Lemmas\<close>

lemma ClampTimescale_bounds [bounds_intro]: "1 / 10 \<le> ClampTimescale ts \<and> ClampTimescale ts \<le> 4"
  by (simp add: ClampTimescale_def)

lemma fmod2_bounds: "0 \<le> fmod2 x \<and> fmod2 x < 2"
proof -
  have "of_int \<lfloor>x / 2\<rfloor> \<le> x / 2" "x / 2 < of_int \<lfloor>x / 2\<rfloor> + 1" using floor_correct [of "x / 2"] by auto
  then show ?thesis unfolding fmod2_def by linarith
qed

text \<open>
  An assignment is proper for the bots and the identities: one identity per bot, one bot per
  identity, and every index is one of the list.
\<close>

definition proper :: "int list \<Rightarrow> nat \<Rightarrow> Assignment \<Rightarrow> bool" where
  "proper present n m \<longleftrightarrow>
     distinct (map fst m) \<and> distinct (map snd m) \<and> fst ` set m \<subseteq> set present \<and> (\<forall>kv \<in> set m. 0 \<le> snd kv \<and> nat (snd kv) < n)"

lemma update_new: "k \<notin> fst ` set m \<Longrightarrow> AList.update k v m = m @ [(k, v)]"
  by (induction m) auto

lemma proper_put:
  assumes "proper present n m" "k \<in> set present" "k \<notin> fst ` set m" "\<not> used m v" "0 \<le> v" "nat v < n"
  shows "proper present n (AList.update k v m)"
  using assms by (auto simp: proper_def update_new used_def)

lemma keep_proper:
  assumes "distinct (map fst kvs)" "proper present n m" "fst ` set m \<inter> fst ` set kvs = {}"
  shows "proper present n (fold (keep_identity present n) kvs m)
    \<and> fst ` set (fold (keep_identity present n) kvs m) \<subseteq> fst ` set m \<union> fst ` set kvs"
  using assms
proof (induction kvs arbitrary: m)
  case (Cons kv kvs)
  have new: "fst kv \<notin> fst ` set m" using Cons.prems(3) by auto
  let ?m = "keep_identity present n kv m"
  have ok: "proper present n ?m"
    using Cons.prems(2) new by (auto simp: keep_identity_def intro!: proper_put)
  have sub: "fst ` set ?m \<subseteq> insert (fst kv) (fst ` set m)" by (auto simp: keep_identity_def update_new [OF new])
  have "(insert (fst kv) (fst ` set m)) \<inter> fst ` set kvs = {}" using Cons.prems(1,3) by auto
  then have "fst ` set ?m \<inter> fst ` set kvs = {}" using sub by blast
  with Cons.IH [OF _ ok] Cons.prems(1)
  have "proper present n (fold (keep_identity present n) kvs ?m)"
    "fst ` set (fold (keep_identity present n) kvs ?m) \<subseteq> fst ` set ?m \<union> fst ` set kvs" by simp_all
  moreover have "fst ` set (kv # kvs) = insert (fst kv) (fst ` set kvs)" by simp
  ultimately show ?case using sub unfolding fold_Cons comp_apply by blast
qed simp

lemma give_proper:
  assumes "proper present n m" "bt_userid b \<in> set present" "n = length ids"
  shows "proper present n (give_identity ids ct b m)"
proof (cases "free_identity ids ct (bt_side b) m")
  case None
  then show ?thesis using assms by (simp add: give_identity_def)
next
  case (Some i)
  then have i: "i < length ids" "\<not> used m (int i)" by (auto simp: free_identity_def find_Some_iff)
  show ?thesis
    using assms i by (auto simp: give_identity_def Some map_of_eq_None_iff intro!: proper_put)
qed

lemma give_proper_all:
  assumes "proper present (length ids) m" "bt_userid ` set bs \<subseteq> set present"
  shows "proper present (length ids) (fold (give_identity ids ct) bs m)"
  using assms by (induction bs arbitrary: m) (auto intro: give_proper)

lemma give_keeps: "map_of m u = Some i \<Longrightarrow> map_of (fold (give_identity ids ct) bs m) u = Some i"
proof (induction bs arbitrary: m)
  case (Cons b bs)
  have "map_of (give_identity ids ct b m) u = Some i"
    using Cons.prems by (auto simp: give_identity_def update_conv' split: option.split)
  with Cons.IH show ?case by simp
qed simp

lemma keep_stays:
  "map_of m u = Some i \<Longrightarrow> u \<notin> fst ` set kvs \<Longrightarrow> map_of (fold (keep_identity present n) kvs m) u = Some i"
proof (induction kvs arbitrary: m)
  case (Cons kv kvs)
  have "map_of (keep_identity present n kv m) u = Some i" using Cons.prems by (simp add: keep_identity_def update_conv')
  with Cons show ?case by simp
qed simp

lemma disjoint_sub: "A \<subseteq> B \<Longrightarrow> B \<inter> C = {} \<Longrightarrow> A \<inter> C = {}"
  by blast

lemma keep_keeps:
  assumes "distinct (map fst kvs)" "distinct (map snd kvs)" "(u, i) \<in> set kvs" "u \<in> set present" "0 \<le> i" "nat i < n"
    and "fst ` set m \<inter> fst ` set kvs = {}" "snd ` set m \<inter> snd ` set kvs = {}"
  shows "map_of (fold (keep_identity present n) kvs m) u = Some i"
  using assms
proof (induction kvs arbitrary: m)
  case (Cons kv kvs)
  let ?m = "keep_identity present n kv m"
  have d: "fst kv \<notin> fst ` set m" "fst ` set m \<inter> fst ` set kvs = {}" "snd kv \<notin> snd ` set m" "snd ` set m \<inter> snd ` set kvs = {}"
    using Cons.prems(7,8) by (simp_all add: Int_insert_right split: if_splits)
  then have new: "fst kv \<notin> fst ` set m" "\<not> used m (snd kv)" by (simp_all add: used_def)
  have sub: "set ?m \<subseteq> insert kv (set m)" unfolding keep_identity_def update_new [OF new(1)] by auto
  show ?case
  proof (cases "kv = (u, i)")
    case True
    have m: "?m = m @ [(u, i)]" using Cons.prems(4-6) new unfolding True by (simp add: keep_identity_def update_new)
    have "map_of m u = None" using new(1) by (simp add: True map_of_eq_None_iff)
    then have "map_of ?m u = Some i" unfolding m by (simp add: map_add_def)
    then show ?thesis using keep_stays [of ?m u i kvs present n] Cons.prems(1) by (simp add: True)
  next
    case False
    have subs: "fst ` set ?m \<subseteq> insert (fst kv) (fst ` set m)" "snd ` set ?m \<subseteq> insert (snd kv) (snd ` set m)"
      using image_mono [OF sub, of fst] image_mono [OF sub, of snd] by simp_all
    have "insert (fst kv) (fst ` set m) \<inter> fst ` set kvs = {}" using Cons.prems(1) d by (simp add: Int_insert_left)
    moreover have "insert (snd kv) (snd ` set m) \<inter> snd ` set kvs = {}" using Cons.prems(2) d by (simp add: Int_insert_left)
    ultimately have "fst ` set ?m \<inter> fst ` set kvs = {}" "snd ` set ?m \<inter> snd ` set kvs = {}"
      by (simp_all add: disjoint_sub [OF subs(1)] disjoint_sub [OF subs(2)])
    moreover have "(u, i) \<in> set kvs" "distinct (map fst kvs)" "distinct (map snd kvs)" using Cons.prems(1-3) False by simp_all
    ultimately show ?thesis
      unfolding fold_Cons comp_apply using Cons.prems(4-6) by (intro Cons.IH)
  qed
qed simp

lemma Assign_proper: "distinct (map fst prev) \<Longrightarrow> proper (map bt_userid bots) (length ids) (Assign prev bots ids ct)"
proof -
  assume "distinct (map fst prev)"
  then have "distinct (map fst (sort_key fst prev))" by (simp add: distinct_map inj_on_def)
  moreover have "proper (map bt_userid bots) (length ids) []" by (simp add: proper_def)
  ultimately have "proper (map bt_userid bots) (length ids)
      (fold (keep_identity (map bt_userid bots) (length ids)) (sort_key fst prev) [])"
    using keep_proper by fastforce
  then show ?thesis unfolding Assign_def by (rule give_proper_all) simp
qed

lemma Assign_keeps:
  assumes "proper present n prev" "(u, i) \<in> set prev" "u \<in> bt_userid ` set bots" "nat i < length ids"
  shows "map_of (Assign prev bots ids ct) u = Some i"
proof -
  have "distinct (map fst (sort_key fst prev))" "distinct (map snd (sort_key fst prev))" "0 \<le> i"
    using assms(1,2) by (auto simp: proper_def distinct_map inj_on_def)
  then have "map_of (fold (keep_identity (map bt_userid bots) (length ids)) (sort_key fst prev) []) u = Some i"
    using assms(2-4) by (intro keep_keeps) auto
  then show ?thesis unfolding Assign_def by (rule give_keeps)
qed

text \<open>A bot that gets a new identity gets one of the team on its side.\<close>

lemma give_side:
  assumes "map_of m u = None" "map_of (give_identity ids ct b m) u = Some i"
  shows "u = bt_userid b \<and> SideOfTeam (id_team (ids ! nat i)) ct = bt_side b"
  using assms by (auto simp: give_identity_def free_identity_def update_conv' find_Some_iff split: if_splits option.splits)

lemma give_sides:
  assumes "map_of m u = None" "map_of (fold (give_identity ids ct) bs m) u = Some i"
  shows "\<exists>b \<in> set bs. bt_userid b = u \<and> SideOfTeam (id_team (ids ! nat i)) ct = bt_side b"
  using assms
proof (induction bs arbitrary: m)
  case (Cons b bs)
  show ?case
  proof (cases "map_of (give_identity ids ct b m) u")
    case None
    with Cons.IH [of "give_identity ids ct b m"] Cons.prems show ?thesis by auto
  next
    case (Some j)
    with give_keeps [OF Some, of ids ct bs] Cons.prems(2) have "i = j" by simp
    with give_side [OF Cons.prems(1) Some] show ?thesis by auto
  qed
qed simp

text \<open>And it gets one whenever there is one.\<close>

lemma give_served:
  assumes "b \<in> set bs" "0 \<le> bt_userid b" "bt_side b \<in> {2, 3}"
    and "map_of (fold (give_identity ids ct) bs m) (bt_userid b) = None" "i < length ids" "SideOfTeam (id_team (ids ! i)) ct = bt_side b"
  shows "used (fold (give_identity ids ct) bs m) (int i)"
  using assms
proof (induction bs arbitrary: m)
  case (Cons a bs)
  have grow: "used m' j \<Longrightarrow> used (fold (give_identity ids ct) xs m') j" for m' j xs
  proof (induction xs arbitrary: m')
    case (Cons x xs)
    have "used (give_identity ids ct x m') j"
      using Cons.prems by (auto simp: give_identity_def used_def map_of_eq_None_iff update_new split: option.split)
    with Cons.IH show ?case by simp
  qed simp
  have none: "map_of m (bt_userid b) = None" "map_of (give_identity ids ct a m) (bt_userid b) = None"
    using Cons.prems(4) give_keeps [of m "bt_userid b" _ ids ct "a # bs"] give_keeps [of "give_identity ids ct a m" "bt_userid b" _ ids ct bs]
    by (cases "map_of m (bt_userid b)"; cases "map_of (give_identity ids ct a m) (bt_userid b)"; auto)+
  show ?case
  proof (cases "a = b")
    case True
    have "free_identity ids ct (bt_side b) m = None"
      using none Cons.prems(2,3) by (cases "free_identity ids ct (bt_side b) m") (auto simp: True give_identity_def update_conv')
    then have "used m (int i)" using Cons.prems(5,6) by (auto simp: free_identity_def find_None_iff)
    then show ?thesis using grow [of m "int i" "a # bs"] by simp
  next
    case False
    with Cons show ?thesis by simp
  qed
qed simp

section \<open>Properties\<close>

text \<open>
  C27: Bots play as the roster: after an assignment no two bots have the same identity and every one is of
  the list; a bot that had one keeps it while it is on the server, also when the sides change; a new one
  gets an identity of the team on its side; and a bot on a side is left without one only when all
  identities of that side are taken.
\<close>

theorem bots_play_roster:
  fixes bots :: "Bot list" and team1IsCt :: bool
  assumes prev: "proper present (length ids) prev"
  defines "m \<equiv> Assign prev bots ids team1IsCt"
  shows "distinct (map fst m) \<and> distinct (map snd m) \<and> (\<forall>kv \<in> set m. 0 \<le> snd kv \<and> nat (snd kv) < length ids)
    \<and> (\<forall>(u, i) \<in> set prev. u \<in> bt_userid ` set bots \<longrightarrow> map_of m u = Some i)
    \<and> (\<forall>u i. u \<notin> fst ` set prev \<longrightarrow> map_of m u = Some i \<longrightarrow>
         (\<exists>b \<in> set bots. bt_userid b = u \<and> SideOfTeam (id_team (ids ! nat i)) team1IsCt = bt_side b))
    \<and> (\<forall>b \<in> set bots. 0 \<le> bt_userid b \<longrightarrow> bt_side b \<in> {2, 3} \<longrightarrow> map_of m (bt_userid b) = None \<longrightarrow>
         (\<forall>i < length ids. SideOfTeam (id_team (ids ! i)) team1IsCt = bt_side b \<longrightarrow> used m (int i)))"
proof -
  have "proper (map bt_userid bots) (length ids) m" unfolding m_def using prev by (intro Assign_proper) (simp add: proper_def)
  moreover have "map_of m u = Some i" if "(u, i) \<in> set prev" "u \<in> bt_userid ` set bots" for u i
    unfolding m_def using prev that by (intro Assign_keeps) (auto simp: proper_def)
  moreover have "\<exists>b \<in> set bots. bt_userid b = u \<and> SideOfTeam (id_team (ids ! nat i)) team1IsCt = bt_side b"
    if "u \<notin> fst ` set prev" "map_of m u = Some i" for u i
  proof -
    let ?k = "fold (keep_identity (map bt_userid bots) (length ids)) (sort_key fst prev) []"
    have "distinct (map fst (sort_key fst prev))" using prev by (simp add: proper_def distinct_map inj_on_def)
    then have "fst ` set ?k \<subseteq> fst ` set prev" using keep_proper [of "sort_key fst prev" "map bt_userid bots" "length ids" "[]"] by (simp add: proper_def)
    then have "map_of ?k u = None" using that(1) by (auto simp: map_of_eq_None_iff)
    then show ?thesis using give_sides [of ?k u ids team1IsCt "sort_key bt_userid bots" i] that(2) by (simp add: m_def Assign_def)
  qed
  moreover have "used m (int i)" if "b \<in> set bots" "0 \<le> bt_userid b" "bt_side b \<in> {2, 3}" "map_of m (bt_userid b) = None"
    "i < length ids" "SideOfTeam (id_team (ids ! i)) team1IsCt = bt_side b" for b i
    using that unfolding m_def Assign_def by (intro give_served) auto
  ultimately show ?thesis by (auto simp: proper_def)
qed

definition sample_ids :: "Identity list" where
  "sample_ids = [\<lparr>id_steamid64 = 11, id_name = ''ann'', id_team = 1\<rparr>, \<lparr>id_steamid64 = 22, id_name = ''bob'', id_team = 2\<rparr>]"

lemma bots_play_roster_witness:
  "map_of (Assign [(4, 1)] [\<lparr>bt_userid = 4, bt_side = 3\<rparr>, \<lparr>bt_userid = 2, bt_side = 3\<rparr>] sample_ids True) 4 = Some 1"
  using bots_play_roster [of "[4]" sample_ids "[(4, 1)]" "[\<lparr>bt_userid = 4, bt_side = 3\<rparr>, \<lparr>bt_userid = 2, bt_side = 3\<rparr>]" True]
  by (simp add: proper_def sample_ids_def)

text \<open>The ticks of a map, with the bots that were asked for: the time, the quota and the limit.\<close>

datatype FeedOp =
  NextOp seconds int int int int int int
| TrimOp seconds int int int int int

fun feed_step :: "FeedOp \<Rightarrow> BotFeeder \<times> (seconds \<times> int \<times> int) list \<Rightarrow> BotFeeder \<times> (seconds \<times> int \<times> int) list" where
  "feed_step (NextOp now n ct t cw tw mx) (f, adds) =
     (let (side, q, f1) = Next now n ct t cw tw mx f in (f1, if side = 0 then adds else adds @ [(now, q, mx)]))"
| "feed_step (TrimOp now n ct t cw tw) (f, adds) = (snd (snd (feeder_Trim now n ct t cw tw f)), adds)"

definition feed_ok :: "BotFeeder \<times> (seconds \<times> int \<times> int) list \<Rightarrow> bool" where
  "feed_ok s \<longleftrightarrow>
     (snd s \<noteq> [] \<longrightarrow> bf_lastAdd (fst s) = fst (last (snd s)))
     \<and> sorted_wrt (\<lambda>a b. fst a + kAddInterval \<le> fst b) (snd s) \<and> list_all (\<lambda>(now, q, mx). q \<le> mx) (snd s)"

lemma Next_add:
  assumes "Next now n ct t cw tw mx f = (side, q, f1)" "side \<noteq> 0"
  shows "kAddInterval \<le> now - bf_lastAdd f \<and> bf_lastAdd f1 = now \<and> q = n + 1 \<and> q \<le> mx
    \<and> (side = 3 \<and> ct < cw \<or> side = 2 \<and> t < tw)"
  using assms by (auto simp: Next_def side_short_def Let_def split: if_splits)

lemma Next_wait: "Next now n ct t cw tw mx f = (0, q, f1) \<Longrightarrow> bf_lastAdd f1 = bf_lastAdd f"
  by (auto simp: Next_def side_short_def Let_def split: if_splits)

lemma sorted_times_last:
  assumes "sorted_wrt (\<lambda>a b. fst a + kAddInterval \<le> fst b) xs" "x \<in> set xs"
  shows "fst x \<le> fst (last xs)"
  using assms
proof (induction xs)
  case (Cons y xs)
  then show ?case by (cases "xs = []") (auto simp: kAddInterval_def dest: bspec [of _ _ "last xs"])
qed simp

lemma feed_ok_step: "feed_ok s \<Longrightarrow> feed_ok (feed_step op s)"
proof (induction op s rule: feed_step.induct)
  case (1 now n ct t cw tw mx f adds)
  obtain side q f1 where r: "Next now n ct t cw tw mx f = (side, q, f1)" by (metis prod_cases3)
  show ?case
  proof (cases "side = 0")
    case True
    then show ?thesis using 1 Next_wait [of now n ct t cw tw mx f q f1] r by (simp add: feed_ok_def)
  next
    case False
    note add = Next_add [OF r False]
    have "fst a + kAddInterval \<le> now" if "a \<in> set adds" for a
    proof -
      have "adds \<noteq> []" using that by auto
      with 1 have "fst a \<le> bf_lastAdd f" using sorted_times_last [of adds a] that by (simp add: feed_ok_def)
      with add show ?thesis by simp
    qed
    with 1 add False show ?thesis by (auto simp: feed_ok_def r sorted_wrt_append)
  qed
next
  case (2 now n ct t cw tw f adds)
  have "bf_lastAdd (snd (snd (feeder_Trim now n ct t cw tw f))) = bf_lastAdd f" by (simp add: feeder_Trim_def Let_def)
  with 2 show ?case by (simp add: feed_ok_def)
qed

interpretation feeder: machine feed_step "\<lambda>_. True" feed_ok
  by unfold_locales (rule feed_ok_step)

text \<open>
  Bots come one at a time and never too many: over any ticks of a map, two requests for a bot are at
  least a second apart, and no request asks for more bots than the limit of its tick.
\<close>

theorem feeder_paces:
  assumes "(f, adds) = fold feed_step ops (new_feeder, [])"
  shows "sorted_wrt (\<lambda>a b. fst a + 1 \<le> fst b) adds \<and> (\<forall>(now, q, mx) \<in> set adds. q \<le> mx)"
proof -
  have "feed_ok (f, adds)" unfolding assms by (rule feeder.inv_run) (simp_all add: feed_ok_def list_all_iff)
  then show ?thesis by (auto simp: feed_ok_def kAddInterval_def list_all_iff)
qed

lemma feeder_paces_witness:
  "sorted_wrt (\<lambda>a b. fst a + 1 \<le> fst b) (snd (fold feed_step [NextOp 1 0 0 0 1 1 2, NextOp (3 / 2) 1 1 0 1 1 2, NextOp 3 1 1 0 1 1 2] (new_feeder, [])))"
  using feeder_paces [of "fst (fold feed_step [NextOp 1 0 0 0 1 1 2, NextOp (3 / 2) 1 1 0 1 1 2, NextOp 3 1 1 0 1 1 2] (new_feeder, []))"
      "snd (fold feed_step [NextOp 1 0 0 0 1 1 2, NextOp (3 / 2) 1 1 0 1 1 2, NextOp 3 1 1 0 1 1 2] (new_feeder, []))"
      "[NextOp 1 0 0 0 1 1 2, NextOp (3 / 2) 1 1 0 1 1 2, NextOp 3 1 1 0 1 1 2]"] by simp

text \<open>What a fill leaves on a side: as many bots as it wants, if there are as many.\<close>

definition left_on :: "int \<Rightarrow> int list \<Rightarrow> Bot list \<Rightarrow> nat" where
  "left_on side gone bots = length (filter (\<lambda>b. bt_side b = side \<and> bt_userid b \<notin> set gone) bots)"

lemma fill_loop_userids: "set (fill_loop cw tw ct t bs) \<subseteq> bt_userid ` set bs"
  by (induction bs arbitrary: ct t) (auto simp: Let_def)

lemma left_on_Cons:
  "left_on s gone (b # bs) = (if bt_side b = s \<and> bt_userid b \<notin> set gone then Suc (left_on s gone bs) else left_on s gone bs)"
  by (simp add: left_on_def)

lemma left_on_skip: "bt_userid b \<notin> bt_userid ` set bs \<Longrightarrow> left_on s (bt_userid b # gone) bs = left_on s gone bs"
  unfolding left_on_def by (intro arg_cong [where f = length] filter_cong) (auto simp: image_iff)

lemma fill_loop_left:
  assumes "distinct (map bt_userid bs)"
  shows "int (left_on 3 (fill_loop cw tw ct t bs) bs) = min (int (length (filter (\<lambda>b. bt_side b = 3) bs))) (max 0 (cw - ct))
    \<and> int (left_on 2 (fill_loop cw tw ct t bs) bs) = min (int (length (filter (\<lambda>b. bt_side b = 2) bs))) (max 0 (tw - t))"
  using assms
proof (induction bs arbitrary: ct t)
  case (Cons b bs)
  have b: "bt_userid b \<notin> bt_userid ` set bs" using Cons.prems by simp
  define gone where "gone = fill_loop cw tw (if bt_side b = 3 then ct + 1 else ct) (if bt_side b = 2 then t + 1 else t) bs"
  have kept: "bt_userid b \<notin> set gone" using b fill_loop_userids unfolding gone_def by blast
  have all: "fill_loop cw tw ct t (b # bs) =
      (if bt_side b = 3 \<and> ct + 1 > cw \<or> bt_side b = 2 \<and> t + 1 > tw then bt_userid b # gone else gone)"
    by (simp add: gone_def)
  have IH: "int (left_on 3 gone bs) = min (int (length (filter (\<lambda>b. bt_side b = 3) bs))) (max 0 (cw - (if bt_side b = 3 then ct + 1 else ct)))"
    "int (left_on 2 gone bs) = min (int (length (filter (\<lambda>b. bt_side b = 2) bs))) (max 0 (tw - (if bt_side b = 2 then t + 1 else t)))"
    unfolding gone_def using Cons.IH Cons.prems by simp_all
  have mn: "1 + min a (w - (c + 1)) = min (1 + a) (w - c)" for a w c :: int by (simp add: min_def)
  show ?case
    unfolding all left_on_Cons using kept IH by (cases "bt_side b = 3"; cases "bt_side b = 2") 
      (simp_all add: left_on_skip [OF b] mn)
qed (simp add: left_on_def)

text \<open>
  A filled match keeps its size: after the bots of the plan are gone, each side has the bots it is
  short of beside its humans, or all it had when there are fewer; no side is overfilled by bots.
\<close>

theorem fill_keeps_size:
  fixes perTeam humansCt humansT :: int
  assumes "distinct (map bt_userid bots)"
  defines "p \<equiv> PlanFill perTeam humansCt humansT bots"
  shows "int (left_on 3 (fp_removeUserids p) bots) = min (int (length (filter (\<lambda>b. bt_side b = 3) bots))) (fp_ctWanted p)
    \<and> int (left_on 2 (fp_removeUserids p) bots) = min (int (length (filter (\<lambda>b. bt_side b = 2) bots))) (fp_tWanted p)
    \<and> fp_ctWanted p \<le> max 0 (32 - humansCt) \<and> fp_tWanted p \<le> max 0 (32 - humansT)"
proof -
  have "max 1 (min 32 perTeam) - max 0 h \<le> max 0 (32 - h)" for h by (auto simp: max_def min_def)
  then show ?thesis using fill_loop_left [OF assms(1)] by (simp add: p_def PlanFill_def Let_def)
qed

lemma fill_keeps_size_witness:
  "int (left_on 3 (fp_removeUserids (PlanFill 2 1 0 [\<lparr>bt_userid = 7, bt_side = 3\<rparr>, \<lparr>bt_userid = 8, bt_side = 3\<rparr>]))
     [\<lparr>bt_userid = 7, bt_side = 3\<rparr>, \<lparr>bt_userid = 8, bt_side = 3\<rparr>]) = 1"
  using fill_keeps_size [of "[\<lparr>bt_userid = 7, bt_side = 3\<rparr>, \<lparr>bt_userid = 8, bt_side = 3\<rparr>]" 2 1 0] by (simp add: PlanFill_def)

text \<open>The seat of a player is held from the first call that misses the player, and no longer than asked.\<close>

lemma seat_held_iff:
  "sid \<in> set (fst (HeldSeats ms here now hold)) \<longleftrightarrow>
   (\<exists>since. (sid, since) \<in> set ms \<and> sid \<notin> set here \<and> 0 < hold \<and> now - (if since = 0 then now else since) \<le> of_int hold)"
proof -
  have "fst (seat_step here now hold (sid, since)) \<longleftrightarrow>
      sid \<notin> set here \<and> 0 < hold \<and> now - (if since = 0 then now else since) \<le> of_int hold" for since
    by (auto simp: seat_step_def Let_def)
  moreover have "sid \<in> set (fst (HeldSeats ms here now hold)) \<longleftrightarrow>
      (\<exists>since. (sid, since) \<in> set ms \<and> fst (seat_step here now hold (sid, since)))"
    by (force simp: HeldSeats_def Let_def)
  ultimately show ?thesis by simp
qed

lemma ready_delay_bounds: "3 / 2 \<le> ReadyDelaySeconds i \<and> ReadyDelaySeconds i < 7 / 2"
  using fmod2_bounds by (simp add: ReadyDelaySeconds_def)

end
