(* ===== verification/Match_Config.thy ===== *)
theory Match_Config
  imports Minijson Ruleset Simulation Coach_Rules Pause_State
begin

text \<open>
  The match config (plugins/match/readyup/match_config_parser.cpp): the JSON a match is loaded from, as
  the context that the match flow reads. The context has every field of \<open>WebhookMatchContext\<close>. A
  \<open>std::unordered_map\<close> is visited in an order of its own: \<open>order\<close> of the environment is that order for the
  members of a JSON object. Ids are sets; maps are association lists.
\<close>

section \<open>The context\<close>

record WebhookMatchContext =
  wm_matchid :: u64
  wm_slug :: string
  wm_num_maps :: int
  wm_team1_name :: string
  wm_team2_name :: string
  wm_team1_id :: string
  wm_team2_id :: string
  wm_team1_captain_steamid64 :: u64
  wm_team2_captain_steamid64 :: u64
  wm_knifeDecisionSeconds :: int
  wm_maxRounds :: int
  wm_overtime_enabled :: bool
  wm_overtimeSegments :: int
  wm_maxOvertimes :: int
  wm_damageTiebreakEnabled :: bool
  wm_suddenDeathOnDamageTie :: bool
  wm_map_sides :: "string list"
  wm_clinch_series :: bool
  wm_maplist :: "string list"
  wm_spectators :: "u64 set"
  wm_admins :: "u64 set"
  wm_cvars :: "(string \<times> string) list"
  wm_roster_team :: "(u64 \<times> WebhookTeam) list"
  wm_substitutes :: "u64 set"
  wm_team1_flag :: string
  wm_team2_flag :: string
  wm_rules :: MatchRules
  wm_ruleset :: string
  wm_overrides_json :: string
  wm_coaches :: "u64 set"
  wm_coach_team :: "(u64 \<times> WebhookTeam) list"
  wm_coaches_per_team :: int
  wm_players_per_team :: int
  wm_playout :: int
  wm_whitelist :: int
  wm_autoready :: int
  wm_ruleset_notes :: "string list"
  wm_roster_names :: "(u64 \<times> string) list"
  wm_roster_names_rule :: int
  wm_wingman :: bool
  wm_demo_record :: int
  wm_demo_upload :: int
  wm_bot_fill :: bool
  wm_full_team_deadline_ms :: int
  wm_walkover_short :: WebhookTeam
  wm_walkover_expires_ms :: int
  wm_walkover_choosers :: "u64 set"
  wm_simulation :: bool
  wm_simulation_timescale :: real

definition new_context :: WebhookMatchContext where
  "new_context =
     \<lparr>wm_matchid = 0, wm_slug = [], wm_num_maps = 0, wm_team1_name = [], wm_team2_name = [], wm_team1_id = [],
      wm_team2_id = [], wm_team1_captain_steamid64 = 0, wm_team2_captain_steamid64 = 0, wm_knifeDecisionSeconds = 60,
      wm_maxRounds = 24, wm_overtime_enabled = False, wm_overtimeSegments = 3, wm_maxOvertimes = - 1,
      wm_damageTiebreakEnabled = False, wm_suddenDeathOnDamageTie = True, wm_map_sides = [], wm_clinch_series = True,
      wm_maplist = [], wm_spectators = {}, wm_admins = {}, wm_cvars = [], wm_roster_team = [], wm_substitutes = {},
      wm_team1_flag = [], wm_team2_flag = [], wm_rules = UnsetRules, wm_ruleset = [], wm_overrides_json = [],
      wm_coaches = {}, wm_coach_team = [], wm_coaches_per_team = 2, wm_players_per_team = 0, wm_playout = - 1,
      wm_whitelist = - 1, wm_autoready = - 1, wm_ruleset_notes = [], wm_roster_names = [], wm_roster_names_rule = - 1,
      wm_wingman = False, wm_demo_record = - 1, wm_demo_upload = - 1, wm_bot_fill = False, wm_full_team_deadline_ms = 0,
      wm_walkover_short = Team_Unknown, wm_walkover_expires_ms = 0, wm_walkover_choosers = {}, wm_simulation = False,
      wm_simulation_timescale = 1\<rparr>"

type_synonym member_order = "(string \<times> mvalue) list \<Rightarrow> (string \<times> mvalue) list"

section \<open>Numbers in text\<close>

text \<open>\<open>std::stoi\<close>, \<open>std::stod\<close> and \<open>std::stoull\<close>, None where they throw: no number at the start, or out of range.\<close>

definition stoi :: "string \<Rightarrow> int option" where
  "stoi s = (let (n, rest) = strtol s in if rest = c_str s \<or> n < - (2 ^ 31) \<or> n \<ge> 2 ^ 31 then None else Some n)"

definition stod :: "string \<Rightarrow> real option" where
  "stod s = (let (d, rest) = strtod s in if rest = c_str s \<or> \<not> double_range d then None else Some d)"

definition stoull :: "string \<Rightarrow> u64 option" where
  "stoull v =
     (let (neg, t) = take_sign (dropWhile isspace (c_str v)); ds = takeWhile isdigit t; n = dec_value ds
      in if ds = [] \<or> 2 ^ 64 \<le> n then None else Some (if neg then - of_nat n else of_nat n))"

text \<open>A cast of a wider integer to \<open>int\<close>.\<close>

definition to_int32 :: "int \<Rightarrow> int" where
  "to_int32 i = (i + 2 ^ 31) mod 2 ^ 32 - 2 ^ 31"

text \<open>\<open>std::round\<close>: halves go away from zero.\<close>

definition c_round :: "real \<Rightarrow> int" where
  "c_round x = (if 0 \<le> x then \<lfloor>x + 1 / 2\<rfloor> else \<lceil>x - 1 / 2\<rceil>)"

definition fmtNum :: "real \<Rightarrow> string" where
  "fmtNum x =
     (let r = c_round x
      in if \<bar>x - of_int r\<bar> < 1 / 10 ^ 9 then to_string r
         else let s = drop_zeros (fixed 6 x) in if s = [] then ''0'' else s)"

definition GgThresholdPctFromText :: "string \<Rightarrow> int" where
  "GgThresholdPctFromText text =
     (let (v, rest) = strtod text; pct = (if v \<le> 1 then v * 100 else v)
      in if text = [] \<or> rest = c_str text \<or> v \<le> 0 \<or> pct > 100 then - 1 else max 1 (c_round pct))"

section \<open>Values\<close>

fun int_where :: "(int \<Rightarrow> bool) \<Rightarrow> mvalue option \<Rightarrow> int option" where
  "int_where P (Some (MNumber d)) = (if P (trunc_int d) \<and> trunc_int d < 10000 then Some (trunc_int d) else None)"
| "int_where P (Some (MString s)) =
     (if s = [] then None
      else case stoi s of None \<Rightarrow> None | Some n \<Rightarrow> if P n \<and> n < 10000 then Some n else None)"
| "int_where P _ = None"

definition parsePositiveInt :: "mvalue option \<Rightarrow> int option" where
  "parsePositiveInt v = int_where (\<lambda>n. n > 0) v"

definition parseNonNegativeInt :: "mvalue option \<Rightarrow> int option" where
  "parseNonNegativeInt v = int_where (\<lambda>n. n \<ge> 0) v"

definition bool_of_text :: "string \<Rightarrow> bool option" where
  "bool_of_text s =
     (if s \<in> {''1'', ''true'', ''TRUE'', ''yes'', ''YES''} then Some True
      else if s \<in> {''0'', ''false'', ''FALSE'', ''no'', ''NO''} then Some False else None)"

fun parseBool :: "mvalue option \<Rightarrow> bool option" where
  "parseBool (Some (MBool b)) = Some b"
| "parseBool (Some (MNumber d)) = Some (d \<noteq> 0)"
| "parseBool (Some (MString s)) = bool_of_text s"
| "parseBool _ = None"

fun str_items :: "mvalue option \<Rightarrow> string list" where
  "str_items (Some (MArray xs)) = concat (map (\<lambda>v. case v of MString s \<Rightarrow> [s] | _ \<Rightarrow> []) xs)"
| "str_items _ = []"

fun obj_members :: "mvalue option \<Rightarrow> (string \<times> mvalue) list" where
  "obj_members (Some (MObject kvs)) = kvs"
| "obj_members _ = []"

fun string_or_empty :: "mvalue \<Rightarrow> string" where
  "string_or_empty (MString s) = s"
| "string_or_empty _ = []"

definition or_old :: "'a option \<Rightarrow> 'a \<Rightarrow> 'a" where
  "or_old new old = (case new of None \<Rightarrow> old | Some v \<Rightarrow> v)"

definition flag :: "bool option \<Rightarrow> int \<Rightarrow> int" where
  "flag new old = (case new of None \<Rightarrow> old | Some b \<Rightarrow> if b then 1 else 0)"

section \<open>The parts of a config\<close>

text \<open>\<open>matchid\<close>: of the config, else the id of the wrapper; as a \<open>uint64_t\<close>.\<close>

definition match_id :: "mvalue \<Rightarrow> mvalue \<Rightarrow> u64" where
  "match_id doc cfg =
     (let own = (case mini_AsInt (mini_get cfg ''matchid'') of None \<Rightarrow> 0 | Some i \<Rightarrow> of_int i)
      in if own = 0 then (case mini_AsInt (mini_get doc ''id'') of None \<Rightarrow> 0 | Some i \<Rightarrow> of_int i) else own)"

definition cvar_text :: "mvalue \<Rightarrow> string option" where
  "cvar_text v =
     (case v of
        MString s \<Rightarrow> if s = [] then None else Some s
      | MNumber d \<Rightarrow> Some (fmtNum d)
      | MBool b \<Rightarrow> Some (if b then ''1'' else ''0'')
      | _ \<Rightarrow> None)"

definition read_cvars :: "member_order \<Rightarrow> mvalue \<Rightarrow> (string \<times> string) list" where
  "read_cvars order cfg =
     fold (\<lambda>kv m. if fst kv = [] then m else case cvar_text (snd kv) of None \<Rightarrow> m | Some t \<Rightarrow> AList.update (fst kv) t m)
       (order (obj_members (mini_get cfg ''cvars''))) []"

definition read_timescale :: "mvalue \<Rightarrow> real \<Rightarrow> real" where
  "read_timescale cfg old =
     (case mini_get cfg ''simulation_timescale'' of
        Some (MNumber d) \<Rightarrow> ClampTimescale d
      | Some (MString s) \<Rightarrow> (case stod s of None \<Rightarrow> old | Some d \<Rightarrow> ClampTimescale d)
      | _ \<Rightarrow> old)"

definition positive_or :: "mvalue option \<Rightarrow> int \<Rightarrow> int" where
  "positive_or v old = (case mini_AsInt v of None \<Rightarrow> old | Some i \<Rightarrow> if i > 0 then i else old)"

definition read_choosers :: "mvalue \<Rightarrow> u64 set" where
  "read_choosers cfg = set (List.map_filter stoull (str_items (mini_get cfg ''walkover_choosers'')))"

text \<open>Rounds, overtime, wingman, demos, simulation and the walkover choice.\<close>

definition read_rounds :: "mvalue \<Rightarrow> WebhookMatchContext \<Rightarrow> WebhookMatchContext" where
  "read_rounds cfg c =
     (let mr = parsePositiveInt (mini_get cfg ''maxRounds'');
          seg = parsePositiveInt (mini_get cfg ''overtimeSegments'');
          wingman = or_old (parseBool (mini_get cfg ''wingman'')) (wm_wingman c);
          fill = or_old (parseBool (mini_get cfg ''bot_fill'')) (wm_bot_fill c)
      in c\<lparr>wm_maxRounds := (case mr of Some n \<Rightarrow> n | None \<Rightarrow> if wingman then kMaxRounds else wm_maxRounds c),
           wm_overtime_enabled :=
             (case mini_AsString (mini_get cfg ''overtimeMode'') of None \<Rightarrow> wm_overtime_enabled c | Some om \<Rightarrow> om = ''enabled''),
           wm_overtimeSegments :=
             (case seg of Some n \<Rightarrow> max 1 (min 60 n) | None \<Rightarrow> if wingman then kOvertimeHalf else wm_overtimeSegments c),
           wm_wingman := wingman,
           wm_demo_record := flag (parseBool (mini_get cfg ''demo_record'')) (wm_demo_record c),
           wm_demo_upload := flag (parseBool (mini_get cfg ''demo_upload'')) (wm_demo_upload c),
           wm_simulation := (if fill then False else or_old (parseBool (mini_get cfg ''simulation'')) (wm_simulation c)),
           wm_simulation_timescale := (if fill then 1 else read_timescale cfg (wm_simulation_timescale c)),
           wm_bot_fill := fill,
           wm_full_team_deadline_ms := positive_or (mini_get cfg ''full_team_deadline_ms'') (wm_full_team_deadline_ms c),
           wm_walkover_short :=
             (case mini_AsString (mini_get cfg ''walkover_short'') of
                None \<Rightarrow> wm_walkover_short c
              | Some s \<Rightarrow> if s = ''team1'' then Team1 else if s = ''team2'' then Team2 else Team_Unknown),
           wm_walkover_expires_ms := positive_or (mini_get cfg ''walkover_expires_ms'') (wm_walkover_expires_ms c),
           wm_walkover_choosers := wm_walkover_choosers c \<union> read_choosers cfg\<rparr>)"

definition read_ties :: "mvalue \<Rightarrow> WebhookMatchContext \<Rightarrow> WebhookMatchContext" where
  "read_ties cfg c =
     c\<lparr>wm_maxOvertimes := or_old (parseNonNegativeInt (mini_get cfg ''maxOvertimes'')) (wm_maxOvertimes c),
       wm_damageTiebreakEnabled := or_old (parseBool (mini_get cfg ''damageTiebreak'')) (wm_damageTiebreakEnabled c),
       wm_suddenDeathOnDamageTie := or_old (parseBool (mini_get cfg ''damageTiebreakSuddenDeath'')) (wm_suddenDeathOnDamageTie c),
       wm_knifeDecisionSeconds :=
         max 5 (min 300 (or_old (parsePositiveInt (mini_get cfg ''knifeDecisionSeconds'')) (wm_knifeDecisionSeconds c)))\<rparr>"

definition gg_threshold_of :: "mvalue \<Rightarrow> int" where
  "gg_threshold_of v =
     (case v of
        MNumber d \<Rightarrow> GgThresholdPctFromText (fixed 6 d)
      | MString s \<Rightarrow> GgThresholdPctFromText s
      | _ \<Rightarrow> - 1)"

definition read_rules :: "mvalue \<Rightarrow> MatchRules \<Rightarrow> MatchRules" where
  "read_rules cfg r =
     (let ruleInt = (\<lambda>key old. or_old (parseNonNegativeInt (mini_get cfg key)) old);
          ruleBool = (\<lambda>key old. flag (parseBool (mini_get cfg key)) old)
      in r\<lparr>tech_pauses_per_team := ruleInt ''max_tech_pauses_per_team'' (tech_pauses_per_team r),
           tech_pause_max_seconds := ruleInt ''tech_pause_max_seconds'' (tech_pause_max_seconds r),
           disconnect_pause_max_seconds := ruleInt ''disconnect_pause_max_seconds'' (disconnect_pause_max_seconds r),
           both_teams_unpause := ruleBool ''both_teams_unpause_required'' (both_teams_unpause r),
           allow_force_ready := ruleBool ''allow_force_ready'' (allow_force_ready r),
           team_ready := ruleBool ''team_ready'' (team_ready r),
           min_players_to_ready := ruleInt ''min_players_to_ready'' (min_players_to_ready r),
           min_spectators_to_ready := ruleInt ''min_spectators_to_ready'' (min_spectators_to_ready r),
           forfeit_after_seconds := ruleInt ''forfeit_after_seconds'' (forfeit_after_seconds r),
           gg_enabled := ruleBool ''gg_enabled'' (gg_enabled r),
           gg_threshold_pct :=
             (case mini_get cfg ''gg_threshold'' of
                None \<Rightarrow> gg_threshold_pct r
              | Some g \<Rightarrow> if gg_threshold_of g > 0 then gg_threshold_of g else gg_threshold_pct r),
           gg_min_score_diff := ruleInt ''gg_min_score_diff'' (gg_min_score_diff r),
           stop_command_available := ruleBool ''stop_command_available'' (stop_command_available r),
           stop_command_no_damage := ruleBool ''stop_command_no_damage'' (stop_command_no_damage r),
           stop_vote_seconds := ruleInt ''stop_vote_seconds'' (stop_vote_seconds r),
           pause_after_restore := ruleBool ''pause_after_restore'' (pause_after_restore r)\<rparr>)"

definition cvar_rounds :: "(string \<times> string) list \<Rightarrow> int \<Rightarrow> int" where
  "cvar_rounds cvars old =
     (case map_of cvars ''mp_maxrounds'' of
        None \<Rightarrow> old
      | Some t \<Rightarrow> (case stoi t of None \<Rightarrow> old | Some n \<Rightarrow> if n > 0 \<and> n < 10000 then n else old))"

text \<open>The server settings a match may set for itself, and the round limit the server will really play.\<close>

definition read_settings :: "mvalue \<Rightarrow> WebhookMatchContext \<Rightarrow> WebhookMatchContext" where
  "read_settings cfg c =
     (let per = (case parseNonNegativeInt (mini_get cfg ''players_per_team'') of None \<Rightarrow> wm_players_per_team c | Some n \<Rightarrow> min n 32);
          per2 = (if wm_wingman c \<and> per = 0 then kPlayersPerTeam else per);
          rounds = (if wm_maxRounds c \<le> 0 then 24 else wm_maxRounds c)
      in c\<lparr>wm_rules := read_rules cfg (wm_rules c),
           wm_players_per_team := per2,
           wm_playout := flag (parseBool (mini_get cfg ''playout'')) (wm_playout c),
           wm_whitelist := flag (parseBool (mini_get cfg ''whitelist'')) (wm_whitelist c),
           wm_autoready := flag (parseBool (mini_get cfg ''autoready'')) (wm_autoready c),
           wm_roster_names_rule := flag (parseBool (mini_get cfg ''roster_names'')) (wm_roster_names_rule c),
           wm_maxRounds := cvar_rounds (wm_cvars c) rounds\<rparr>)"

definition admin_id :: "mvalue \<Rightarrow> u64" where
  "admin_id v =
     (case v of MString s \<Rightarrow> ParseSteamId64Loose s | MNumber d \<Rightarrow> of_int (trunc_int d) | _ \<Rightarrow> 0)"

fun items_of :: "mvalue option \<Rightarrow> mvalue list" where
  "items_of (Some (MArray xs)) = xs"
| "items_of _ = []"

definition non_zero :: "u64 list \<Rightarrow> u64 set" where
  "non_zero xs = set (filter (\<lambda>s. s \<noteq> 0) xs)"

definition read_lists :: "member_order \<Rightarrow> mvalue \<Rightarrow> WebhookMatchContext \<Rightarrow> WebhookMatchContext" where
  "read_lists order cfg c =
     c\<lparr>wm_map_sides := wm_map_sides c @ filter (\<lambda>s. s \<noteq> []) (str_items (mini_get cfg ''map_sides'')),
       wm_maplist := wm_maplist c @ filter (\<lambda>s. s \<noteq> []) (str_items (mini_get cfg ''maplist'')),
       wm_spectators :=
         wm_spectators c \<union>
         (case mini_get cfg ''spectators'' of
            None \<Rightarrow> {}
          | Some spec \<Rightarrow> non_zero (map (\<lambda>kv. ParseSteamId64Loose (fst kv)) (order (obj_members (mini_get spec ''players''))))),
       wm_admins := wm_admins c \<union> non_zero (map admin_id (items_of (mini_get cfg ''admins'')))\<rparr>"

section \<open>Teams\<close>

text \<open>The id of a team: a string as it is, or a number.\<close>

definition team_id :: "mvalue \<Rightarrow> string \<Rightarrow> string" where
  "team_id team old =
     (case mini_AsString (mini_get team ''id'') of
        Some s \<Rightarrow> s
      | None \<Rightarrow> (case mini_AsInt (mini_get team ''id'') of Some i \<Rightarrow> to_string i | None \<Rightarrow> old))"

definition captain_id :: "mvalue \<Rightarrow> u64 \<Rightarrow> u64" where
  "captain_id team old =
     (let sid = (case mini_AsString (mini_get team ''captain_steamid64'') of
                   Some s \<Rightarrow> ParseSteamId64Loose s
                 | None \<Rightarrow> (case mini_AsInt (mini_get team ''captain_steamid64'') of Some i \<Rightarrow> of_int i | None \<Rightarrow> 0))
      in if sid \<noteq> 0 then sid else old)"

text \<open>A list of people: ids with names (empty for none), from an object or from an array of ids.\<close>

definition people :: "member_order \<Rightarrow> mvalue option \<Rightarrow> (u64 \<times> string) list" where
  "people order v =
     (if mini_IsObject v then map (\<lambda>kv. (ParseSteamId64Loose (fst kv), string_or_empty (snd kv))) (order (obj_members v))
      else map (\<lambda>s. (ParseSteamId64Loose s, [])) (str_items v))"

definition name_person :: "u64 \<times> string \<Rightarrow> (u64 \<times> string) list \<Rightarrow> (u64 \<times> string) list" where
  "name_person p names = (if snd p \<noteq> [] then AList.update (fst p) (snd p) names else names)"

definition add_coach :: "WebhookTeam \<Rightarrow> u64 \<times> string \<Rightarrow> WebhookMatchContext \<Rightarrow> WebhookMatchContext" where
  "add_coach tag p c =
     (if fst p = 0 then c
      else c\<lparr>wm_coach_team := AList.update (fst p) tag (wm_coach_team c), wm_roster_names := name_person p (wm_roster_names c)\<rparr>)"

definition add_player :: "WebhookTeam \<Rightarrow> u64 \<times> string \<Rightarrow> WebhookMatchContext \<Rightarrow> WebhookMatchContext" where
  "add_player tag p c =
     (if fst p = 0 then c
      else c\<lparr>wm_roster_team := AList.update (fst p) tag (wm_roster_team c), wm_roster_names := name_person p (wm_roster_names c)\<rparr>)"

definition add_substitute :: "WebhookTeam \<Rightarrow> u64 \<times> string \<Rightarrow> WebhookMatchContext \<Rightarrow> WebhookMatchContext" where
  "add_substitute tag p c =
     (if fst p = 0 then c else (add_player tag p c)\<lparr>wm_substitutes := insert (fst p) (wm_substitutes c)\<rparr>)"

definition team_header :: "WebhookTeam \<Rightarrow> mvalue \<Rightarrow> WebhookMatchContext \<Rightarrow> WebhookMatchContext" where
  "team_header tag team c =
     (let name = mini_AsString (mini_get team ''name''); fl = mini_AsString (mini_get team ''flag'')
      in if tag = Team1
         then c\<lparr>wm_team1_name := or_old name (wm_team1_name c), wm_team1_id := team_id team (wm_team1_id c),
                wm_team1_flag := or_old fl (wm_team1_flag c),
                wm_team1_captain_steamid64 := captain_id team (wm_team1_captain_steamid64 c)\<rparr>
         else c\<lparr>wm_team2_name := or_old name (wm_team2_name c), wm_team2_id := team_id team (wm_team2_id c),
                wm_team2_flag := or_old fl (wm_team2_flag c),
                wm_team2_captain_steamid64 := captain_id team (wm_team2_captain_steamid64 c)\<rparr>)"

definition readTeam :: "member_order \<Rightarrow> mvalue \<Rightarrow> string \<Rightarrow> WebhookTeam \<Rightarrow> WebhookMatchContext \<Rightarrow> WebhookMatchContext" where
  "readTeam order cfg key tag c =
     (case mini_get cfg key of
        Some (MObject kvs) \<Rightarrow>
          let team = MObject kvs;
              c1 = team_header tag team c;
              c2 = fold (add_coach tag) (people order (mini_get team ''coaches'')) c1;
              c3 = fold (add_substitute tag) (people order (mini_get team ''substitutes'')) c2;
              ps = map (\<lambda>kv. (ParseSteamId64Loose (fst kv), string_or_empty (snd kv))) (order (obj_members (mini_get team ''players'')))
          in fold (add_player tag) ps c3
      | _ \<Rightarrow> c)"

definition starters :: "bool \<Rightarrow> WebhookMatchContext \<Rightarrow> int" where
  "starters second c =
     int (length (filter (\<lambda>kv. fst kv \<notin> wm_substitutes c \<and> (snd kv = Team2) = second) (wm_roster_team c)))"

definition count_starters :: "WebhookMatchContext \<Rightarrow> WebhookMatchContext" where
  "count_starters c =
     (if wm_substitutes c \<noteq> {} \<and> wm_players_per_team c = 0
      then c\<lparr>wm_players_per_team := min 32 (max (starters False c) (starters True c))\<rparr> else c)"

text \<open>Coaches of the match, and the end of coaches who are on a roster.\<close>

definition read_coaches :: "mvalue \<Rightarrow> WebhookMatchContext \<Rightarrow> WebhookMatchContext" where
  "read_coaches cfg c =
     (let listed = non_zero (map ParseSteamId64Loose (str_items (mini_get cfg ''coaches'')));
          stay = filter (\<lambda>kv. fst kv \<notin> fst ` set (wm_roster_team c)) (wm_coach_team c)
      in c\<lparr>wm_coach_team := stay, wm_coaches := wm_coaches c \<union> listed \<union> fst ` set stay,
           wm_coaches_per_team :=
             (case mini_AsInt (mini_get cfg ''coaches_per_team'') of None \<Rightarrow> wm_coaches_per_team c | Some n \<Rightarrow> to_int32 n)\<rparr>)"

section \<open>The ruleset\<close>

definition in_dq :: "string \<Rightarrow> string" where
  "in_dq s = [quote_char] @ s @ [quote_char]"

definition ruleset_error :: string where
  "ruleset_error = ''ruleset must be '' @ in_dq ''default'' @ '' or '' @ in_dq ''valve''"

text \<open>The config object of the other JSON reader.\<close>

definition json_config :: "json \<Rightarrow> json" where
  "json_config doc = (case Find doc ''config'' of Some c \<Rightarrow> if IsObject c then c else doc | None \<Rightarrow> doc)"

text \<open>The ruleset that the config names; \<open>Inr None\<close> when it names none.\<close>

definition named_ruleset :: "json \<Rightarrow> string + Ruleset option" where
  "named_ruleset cfg =
     (case Find cfg ''ruleset'' of
        None \<Rightarrow> Inr None
      | Some (JString s) \<Rightarrow> (case ParseRuleset s of None \<Rightarrow> Inl ruleset_error | Some rs \<Rightarrow> Inr (Some rs))
      | Some _ \<Rightarrow> Inl ruleset_error)"

definition wingman_error :: string where
  "wingman_error = ''wingman needs ruleset '' @ in_dq ''default'' @ '' (the valve ruleset is 5v5)''"

definition wingman_note :: string where
  "wingman_note = ''wingman: ruleset default for this match (readyup.cfg sets valve, which is 5v5)''"

definition overtime_note :: string where
  "overtime_note =
     ''maxOvertimes / damageTiebreak ignored (ruleset valve: overtime is the engine'' @ [CHR 0x27] @ ''s, mp_overtime_limit)''"

definition coach_note :: "nat \<Rightarrow> string" where
  "coach_note n = dec_nat n @ '' coach(es) not admitted (online match: lan false, coaches_online false)''"

definition named_overrides :: "json \<Rightarrow> string + RuleMap option" where
  "named_overrides cfg =
     (case Find cfg ''overrides'' of
        None \<Rightarrow> Inr None
      | Some j \<Rightarrow> (case ParseOverrides j of Inl e \<Rightarrow> Inl e | Inr m \<Rightarrow> Inr (Some m)))"

text \<open>The ruleset of the match with the context that notes it.\<close>

definition choose_ruleset :: "Ruleset \<Rightarrow> Ruleset option \<Rightarrow> WebhookMatchContext \<Rightarrow> string + Ruleset \<times> WebhookMatchContext" where
  "choose_ruleset server named c =
     (let rs = or_old named server;
          c1 = (case named of None \<Rightarrow> c | Some r \<Rightarrow> c\<lparr>wm_ruleset := RulesetName r\<rparr>)
      in if wm_wingman c \<and> rs = Valve
         then if named \<noteq> None then Inl wingman_error
              else Inr (Default_rules, c1\<lparr>wm_ruleset := RulesetName Default_rules, wm_ruleset_notes := wm_ruleset_notes c1 @ [wingman_note]\<rparr>)
         else Inr (rs, c1))"

definition context_rules :: "Ruleset \<Rightarrow> RuleMap \<Rightarrow> WebhookMatchContext \<Rightarrow> EffectiveRuleSet" where
  "context_rules rs overrides c =
     ResolveEffective \<lparr>in_ruleset = rs, in_overrides = overrides, in_match = wm_rules c, in_cfg = UnsetRules, in_cvars = wm_cvars c\<rparr>"

definition apply_overtime :: "Ruleset \<Rightarrow> RuleMap \<Rightarrow> EffectiveRuleSet \<Rightarrow> WebhookMatchContext \<Rightarrow> WebhookMatchContext" where
  "apply_overtime rs overrides e c =
     (let c1 = (if rs = Valve \<and> (wm_maxOvertimes c \<ge> 0 \<or> wm_damageTiebreakEnabled c)
                then c\<lparr>wm_ruleset_notes := wm_ruleset_notes c @ [overtime_note], wm_maxOvertimes := - 1, wm_damageTiebreakEnabled := False\<rparr>
                else c);
          c2 = (if rs = Valve \<or> map_of overrides ''overtime.enabled'' \<noteq> None
                then c1\<lparr>wm_overtime_enabled := Bool_rule e ''overtime.enabled'' True\<rparr> else c1)
      in if rs = Valve \<or> map_of overrides ''overtime.maxrounds'' \<noteq> None
         then c2\<lparr>wm_overtimeSegments := max 1 (to_int32 (cdiv (Int_rule e ''overtime.maxrounds'' 6) 2))\<rparr> else c2)"

definition admit_coaches :: "EffectiveRuleSet \<Rightarrow> WebhookMatchContext \<Rightarrow> WebhookMatchContext" where
  "admit_coaches e c =
     (if wm_coaches c = {} then c
      else if CoachesAdmitted e then c\<lparr>wm_spectators := wm_spectators c \<union> wm_coaches c\<rparr>
      else c\<lparr>wm_spectators := wm_spectators c - wm_coaches c, wm_ruleset_notes := wm_ruleset_notes c @ [coach_note (card (wm_coaches c))]\<rparr>)"

definition ApplyRulesetToContext :: "Ruleset \<Rightarrow> string \<Rightarrow> WebhookMatchContext \<Rightarrow> string + WebhookMatchContext" where
  "ApplyRulesetToContext server text c =
     (case Parse text of
        Inl _ \<Rightarrow> Inr c
      | Inr doc \<Rightarrow>
          if \<not> IsObject doc then Inr c
          else
            let cfg = json_config doc
            in case named_ruleset cfg of
                 Inl e \<Rightarrow> Inl e
               | Inr named \<Rightarrow>
                   (case choose_ruleset server named c of
                      Inl e \<Rightarrow> Inl e
                    | Inr (rs, c1) \<Rightarrow>
                        (case named_overrides cfg of
                           Inl e \<Rightarrow> Inl e
                         | Inr given \<Rightarrow>
                             let overrides = or_old given [];
                                 c2 = (if given = None then c1 else c1\<lparr>wm_overrides_json := OverridesToText overrides\<rparr>);
                                 e = context_rules rs overrides c2
                             in case (if wm_slug c2 \<noteq> ''scrim'' then CheckMapSides e (wm_map_sides c2) else None) of
                                  Some err \<Rightarrow> Inl err
                                | None \<Rightarrow> Inr (admit_coaches e (apply_overtime rs overrides e c2)))))"

text \<open>The context before the ruleset, or the error.\<close>

definition start_context :: "member_order \<Rightarrow> string \<Rightarrow> u64 \<Rightarrow> mvalue \<Rightarrow> WebhookMatchContext" where
  "start_context order slug mid cfg =
     new_context\<lparr>wm_slug := slug, wm_matchid := mid,
       wm_num_maps := (case mini_AsInt (mini_get cfg ''num_maps'') of None \<Rightarrow> 0 | Some n \<Rightarrow> to_int32 n),
       wm_clinch_series := (case mini_get cfg ''clinch_series'' of Some (MBool b) \<Rightarrow> b | _ \<Rightarrow> True),
       wm_cvars := read_cvars order cfg\<rparr>"

definition read_parts :: "member_order \<Rightarrow> mvalue \<Rightarrow> WebhookMatchContext \<Rightarrow> WebhookMatchContext" where
  "read_parts order cfg c =
     (let c1 = read_lists order cfg (read_settings cfg (read_ties cfg (read_rounds cfg c)));
          c2 = readTeam order cfg ''team2'' Team2 (readTeam order cfg ''team1'' Team1 c1)
      in read_coaches cfg (count_starters c2))"

definition read_context :: "member_order \<Rightarrow> mvalue \<Rightarrow> string + WebhookMatchContext" where
  "read_context order doc =
     (let wrapped = mini_IsObject (mini_get doc ''config'');
          cfg = (case mini_get doc ''config'' of Some c \<Rightarrow> if wrapped then c else doc | None \<Rightarrow> doc);
          slug = (if wrapped then or_old (mini_AsString (mini_get doc ''slug'')) [] else []);
          mid = match_id doc cfg
      in if mid = 0 then Inl ''missing matchid'' else Inr (read_parts order cfg (start_context order slug mid cfg)))"

definition ParseWebhookMatchContextFromJson :: "member_order \<Rightarrow> Ruleset \<Rightarrow> string \<Rightarrow> string + WebhookMatchContext" where
  "ParseWebhookMatchContextFromJson order server text =
     (case mini_Parse text of
        Inl (msg, offset) \<Rightarrow> Inl (msg @ '' at offset '' @ dec_nat offset)
      | Inr doc \<Rightarrow>
          (case read_context order doc of
             Inl e \<Rightarrow> Inl e
           | Inr c \<Rightarrow> ApplyRulesetToContext server text c))"

section \<open>Bounds of the values\<close>

lemma int_where_bounds: "int_where P v = Some n \<Longrightarrow> P n \<and> n < 10000"
  by (induction P v rule: int_where.induct) (auto split: if_splits option.splits)

lemma parse_int_bounds [bounds_intro]:
  "parsePositiveInt v = Some n \<Longrightarrow> 0 < n \<and> n < 10000"
  "parseNonNegativeInt v = Some n \<Longrightarrow> 0 \<le> n \<and> n < 10000"
  using int_where_bounds [of "\<lambda>n. n > 0" v n] int_where_bounds [of "\<lambda>n. n \<ge> 0" v n]
  by (simp_all add: parsePositiveInt_def parseNonNegativeInt_def)

lemma or_old_cases: "P old \<Longrightarrow> (\<And>v. new = Some v \<Longrightarrow> P v) \<Longrightarrow> P (or_old new old)"
  by (cases new) (simp_all add: or_old_def)

lemma flag_bounds: "- 1 \<le> old \<Longrightarrow> old \<le> 1 \<Longrightarrow> - 1 \<le> flag new old \<and> flag new old \<le> 1"
  by (auto simp: flag_def split: option.split)

definition setting_ok :: "int \<Rightarrow> bool" where
  "setting_ok n \<longleftrightarrow> - 1 \<le> n \<and> n < 10000"

lemma setting_int: "setting_ok old \<Longrightarrow> setting_ok (or_old (parseNonNegativeInt v) old)"
  by (auto simp: setting_ok_def or_old_def split: option.split dest: parse_int_bounds)

lemma setting_flag: "setting_ok old \<Longrightarrow> setting_ok (flag b old)"
  by (auto simp: setting_ok_def flag_def split: option.split)

lemma gg_pct_bounds: "GgThresholdPctFromText t \<le> 100 \<and> (GgThresholdPctFromText t = - 1 \<or> 1 \<le> GgThresholdPctFromText t)"
proof -
  have "c_round p \<le> 100" if "p \<le> 100" for p using that by (auto simp: c_round_def floor_le_iff ceiling_le_iff)
  then show ?thesis by (auto simp: GgThresholdPctFromText_def Let_def split: prod.split)
qed

definition rules_in_range :: "MatchRules \<Rightarrow> bool" where
  "rules_in_range r \<longleftrightarrow>
     list_all setting_ok
       [tech_pauses_per_team r, tech_pause_max_seconds r, disconnect_pause_max_seconds r, both_teams_unpause r,
        allow_force_ready r, team_ready r, min_players_to_ready r, min_spectators_to_ready r, forfeit_after_seconds r,
        gg_enabled r, gg_threshold_pct r, gg_min_score_diff r, stop_command_available r, stop_command_no_damage r,
        stop_vote_seconds r, pause_after_restore r]"

lemma read_rules_range: "rules_in_range r \<Longrightarrow> rules_in_range (read_rules cfg r)"
proof -
  assume r: "rules_in_range r"
  have gg: "setting_ok (case mini_get cfg ''gg_threshold'' of None \<Rightarrow> gg_threshold_pct r
      | Some g \<Rightarrow> if gg_threshold_of g > 0 then gg_threshold_of g else gg_threshold_pct r)"
  proof -
    have "gg_threshold_of g \<le> 100" for g using gg_pct_bounds by (cases g) (auto simp: gg_threshold_of_def)
    then have "setting_ok (gg_threshold_of g)" if "gg_threshold_of g > 0" for g using that by (simp add: setting_ok_def le_less_trans [of _ 100])
    with r show ?thesis by (auto simp: rules_in_range_def split: option.split)
  qed
  from r show ?thesis
    using gg by (simp add: rules_in_range_def read_rules_def Let_def setting_int setting_flag)
qed

section \<open>A context in bounds\<close>

definition bounds_ok :: "WebhookMatchContext \<Rightarrow> bool" where
  "bounds_ok c \<longleftrightarrow>
     wm_matchid c \<noteq> 0 \<and> 0 < wm_maxRounds c \<and> wm_maxRounds c < 10000 \<and> 1 \<le> wm_overtimeSegments c
     \<and> 5 \<le> wm_knifeDecisionSeconds c \<and> wm_knifeDecisionSeconds c \<le> 300 \<and> setting_ok (wm_maxOvertimes c)
     \<and> 0 \<le> wm_players_per_team c \<and> wm_players_per_team c \<le> 32
     \<and> 1 / 10 \<le> wm_simulation_timescale c \<and> wm_simulation_timescale c \<le> 4 \<and> rules_in_range (wm_rules c)"

lemma bounds_new: "mid \<noteq> 0 \<Longrightarrow> bounds_ok (start_context order slug mid cfg)"
  by (simp add: bounds_ok_def start_context_def new_context_def setting_ok_def rules_in_range_def UnsetRules_def)

lemma read_context_parts:
  "read_context order doc = Inr c \<Longrightarrow> \<exists>cfg slug mid. mid \<noteq> 0 \<and> c = read_parts order cfg (start_context order slug mid cfg)"
  unfolding read_context_def Let_def by (force split: if_splits)

lemma timescale_bounds: "1 / 10 \<le> old \<and> old \<le> 4 \<Longrightarrow> 1 / 10 \<le> read_timescale cfg old \<and> read_timescale cfg old \<le> 4"
  using ClampTimescale_bounds by (auto simp: read_timescale_def split: option.splits mvalue.splits)

lemma bounds_read_rounds: "bounds_ok c \<Longrightarrow> bounds_ok (read_rounds cfg c)"
  using timescale_bounds [of "wm_simulation_timescale c" cfg]
  by (auto simp: bounds_ok_def read_rounds_def Let_def kMaxRounds_def kOvertimeHalf_def split: option.split dest: parse_int_bounds)

lemma bounds_read_ties: "bounds_ok c \<Longrightarrow> bounds_ok (read_ties cfg c)"
  by (simp add: bounds_ok_def read_ties_def setting_int)

lemma cvar_rounds_bounds: "0 < old \<Longrightarrow> old < 10000 \<Longrightarrow> 0 < cvar_rounds m old \<and> cvar_rounds m old < 10000"
  by (auto simp: cvar_rounds_def split: option.split)

lemma bounds_read_settings: "bounds_ok c \<Longrightarrow> bounds_ok (read_settings cfg c)"
proof -
  assume c: "bounds_ok c"
  have "0 \<le> x \<and> x \<le> 32" if "x = (case parseNonNegativeInt v of None \<Rightarrow> wm_players_per_team c | Some n \<Rightarrow> min n 32)" for x v
    using that c by (auto simp: bounds_ok_def split: option.splits dest: parse_int_bounds)
  with c cvar_rounds_bounds [of "wm_maxRounds c" "wm_cvars c"] show ?thesis
    by (auto simp: bounds_ok_def read_settings_def Let_def kPlayersPerTeam_def read_rules_range)
qed

lemma bounds_same:
  assumes "bounds_ok c" "wm_matchid d = wm_matchid c" "wm_maxRounds d = wm_maxRounds c" "wm_overtimeSegments d = wm_overtimeSegments c"
    "wm_knifeDecisionSeconds d = wm_knifeDecisionSeconds c" "wm_maxOvertimes d = wm_maxOvertimes c"
    "wm_players_per_team d = wm_players_per_team c" "wm_simulation_timescale d = wm_simulation_timescale c" "wm_rules d = wm_rules c"
  shows "bounds_ok d"
  using assms by (simp add: bounds_ok_def)

lemma bounds_fold: "(\<And>x c. bounds_ok c \<Longrightarrow> bounds_ok (f x c)) \<Longrightarrow> bounds_ok c \<Longrightarrow> bounds_ok (fold f xs c)"
  by (induction xs arbitrary: c) auto

lemma bounds_people:
  "bounds_ok c \<Longrightarrow> bounds_ok (add_coach tag p c)" "bounds_ok c \<Longrightarrow> bounds_ok (add_player tag p c)"
  "bounds_ok c \<Longrightarrow> bounds_ok (add_substitute tag p c)"
  by (erule bounds_same; simp add: add_coach_def add_player_def add_substitute_def)+

lemma bounds_readTeam: "bounds_ok c \<Longrightarrow> bounds_ok (readTeam order cfg key tag c)"
proof -
  assume c: "bounds_ok c"
  have "bounds_ok (team_header tag team c)" for team by (rule bounds_same [OF c]) (simp_all add: team_header_def Let_def)
  then show ?thesis
    using c by (auto simp: readTeam_def Let_def intro!: bounds_fold bounds_people split: option.split mvalue.split)
qed

lemma bounds_count_starters: "bounds_ok c \<Longrightarrow> bounds_ok (count_starters c)"
  by (auto simp: bounds_ok_def count_starters_def starters_def)

lemma bounds_read_parts: "bounds_ok c \<Longrightarrow> bounds_ok (read_parts order cfg c)"
proof -
  have lists: "bounds_ok (read_lists order cfg c)" "bounds_ok (read_coaches cfg c)" if "bounds_ok c" for cfg c
    by (rule bounds_same [OF that]; simp add: read_lists_def read_coaches_def Let_def)+
  assume "bounds_ok c"
  then show ?thesis
    unfolding read_parts_def Let_def
    by (intro lists bounds_count_starters bounds_readTeam bounds_read_settings bounds_read_ties bounds_read_rounds)
qed

lemma bounds_ruleset:
  assumes "bounds_ok c" "ApplyRulesetToContext server text c = Inr d"
  shows "bounds_ok d"
proof -
  have ot: "bounds_ok (apply_overtime rs m e x)" if "bounds_ok x" for rs m e x
    using that by (auto simp: bounds_ok_def apply_overtime_def Let_def setting_ok_def)
  have adm: "bounds_ok (admit_coaches e x)" if "bounds_ok x" for e x
    by (rule bounds_same [OF that]) (simp_all add: admit_coaches_def)
  have ch: "bounds_ok x" if "choose_ruleset server named c = Inr (rs, x)" for rs x named
    by (rule bounds_same [OF assms(1)]) (use that in \<open>auto simp: choose_ruleset_def Let_def split: if_splits option.splits\<close>)
  have js: "bounds_ok (x\<lparr>wm_overrides_json := j\<rparr>)" if "bounds_ok x" for x j
    by (rule bounds_same [OF that]) simp_all
  show ?thesis
    using assms unfolding ApplyRulesetToContext_def Let_def
    by (auto split: sum.splits if_splits prod.splits option.splits intro!: adm ot js dest!: ch)
qed

section \<open>Who is who\<close>

abbreviation roster_ids :: "WebhookMatchContext \<Rightarrow> u64 set" where
  "roster_ids c \<equiv> fst ` set (wm_roster_team c)"

definition roster_ok :: "WebhookMatchContext \<Rightarrow> bool" where
  "roster_ok c \<longleftrightarrow> wm_substitutes c \<subseteq> roster_ids c \<and> 0 \<notin> roster_ids c"

lemma roster_same:
  "roster_ok c \<Longrightarrow> wm_substitutes d = wm_substitutes c \<Longrightarrow> wm_roster_team d = wm_roster_team c \<Longrightarrow> roster_ok d"
  by (simp add: roster_ok_def)

lemma roster_people:
  "roster_ok c \<Longrightarrow> roster_ok (add_coach tag p c)" "roster_ok c \<Longrightarrow> roster_ok (add_player tag p c)"
  "roster_ok c \<Longrightarrow> roster_ok (add_substitute tag p c)"
  by (auto simp: roster_ok_def add_coach_def add_player_def add_substitute_def dom_update)

lemma roster_fold: "(\<And>x c. roster_ok c \<Longrightarrow> roster_ok (f x c)) \<Longrightarrow> roster_ok c \<Longrightarrow> roster_ok (fold f xs c)"
  by (induction xs arbitrary: c) auto

lemma roster_readTeam: "roster_ok c \<Longrightarrow> roster_ok (readTeam order cfg key tag c)"
proof -
  assume c: "roster_ok c"
  have "roster_ok (team_header tag team c)" for team by (rule roster_same [OF c]) (simp_all add: team_header_def Let_def)
  then show ?thesis
    using c by (auto simp: readTeam_def Let_def intro!: roster_fold roster_people split: option.split mvalue.split)
qed

definition roles_ok :: "WebhookMatchContext \<Rightarrow> bool" where
  "roles_ok c \<longleftrightarrow>
     roster_ok c \<and> fst ` set (wm_coach_team c) \<inter> roster_ids c = {} \<and> fst ` set (wm_coach_team c) \<subseteq> wm_coaches c
     \<and> wm_ruleset c = []"

lemma roles_read_coaches: "roster_ok c \<Longrightarrow> wm_ruleset c = [] \<Longrightarrow> roles_ok (read_coaches cfg c)"
  by (auto simp: roles_ok_def roster_ok_def read_coaches_def Let_def)

text \<open>What the stages leave alone.\<close>

lemma people_keep:
  "wm_ruleset (fold (add_coach tag) ps c) = wm_ruleset c" "wm_cvars (fold (add_coach tag) ps c) = wm_cvars c"
  "wm_maxRounds (fold (add_coach tag) ps c) = wm_maxRounds c"
  "wm_ruleset (fold (add_player tag) ps c) = wm_ruleset c" "wm_cvars (fold (add_player tag) ps c) = wm_cvars c"
  "wm_maxRounds (fold (add_player tag) ps c) = wm_maxRounds c"
  "wm_ruleset (fold (add_substitute tag) ps c) = wm_ruleset c" "wm_cvars (fold (add_substitute tag) ps c) = wm_cvars c"
  "wm_maxRounds (fold (add_substitute tag) ps c) = wm_maxRounds c"
  by (induction ps arbitrary: c; simp add: add_coach_def add_player_def add_substitute_def)+

lemma readTeam_keep:
  "wm_ruleset (readTeam order cfg key tag c) = wm_ruleset c" "wm_cvars (readTeam order cfg key tag c) = wm_cvars c"
  "wm_maxRounds (readTeam order cfg key tag c) = wm_maxRounds c"
  by (simp_all add: readTeam_def Let_def people_keep team_header_def split: option.split mvalue.split)

lemma stages_keep:
  "wm_ruleset (read_rounds cfg c) = wm_ruleset c" "wm_ruleset (read_ties cfg c) = wm_ruleset c"
  "wm_ruleset (read_settings cfg c) = wm_ruleset c" "wm_ruleset (read_lists order cfg c) = wm_ruleset c"
  "wm_ruleset (count_starters c) = wm_ruleset c"
  "wm_cvars (read_rounds cfg c) = wm_cvars c" "wm_cvars (read_ties cfg c) = wm_cvars c"
  "wm_cvars (read_settings cfg c) = wm_cvars c" "wm_cvars (read_lists order cfg c) = wm_cvars c"
  "wm_cvars (count_starters c) = wm_cvars c" "wm_cvars (read_coaches cfg c) = wm_cvars c"
  "wm_maxRounds (read_lists order cfg c) = wm_maxRounds c" "wm_maxRounds (count_starters c) = wm_maxRounds c"
  "wm_maxRounds (read_coaches cfg c) = wm_maxRounds c"
  "wm_maxRounds (read_settings cfg c) = cvar_rounds (wm_cvars c) (if wm_maxRounds c \<le> 0 then 24 else wm_maxRounds c)"
  "wm_roster_team (read_rounds cfg c) = wm_roster_team c" "wm_roster_team (read_ties cfg c) = wm_roster_team c"
  "wm_roster_team (read_settings cfg c) = wm_roster_team c" "wm_roster_team (read_lists order cfg c) = wm_roster_team c"
  "wm_substitutes (read_rounds cfg c) = wm_substitutes c" "wm_substitutes (read_ties cfg c) = wm_substitutes c"
  "wm_substitutes (read_settings cfg c) = wm_substitutes c" "wm_substitutes (read_lists order cfg c) = wm_substitutes c"
  "wm_roster_team (count_starters c) = wm_roster_team c" "wm_substitutes (count_starters c) = wm_substitutes c"
  by (simp_all add: read_rounds_def read_ties_def read_settings_def read_lists_def count_starters_def read_coaches_def Let_def)

lemma read_parts_roles:
  assumes "wm_substitutes c = {}" "wm_roster_team c = []" "wm_ruleset c = []"
  shows "roles_ok (read_parts order cfg c)"
proof -
  let ?c = "read_lists order cfg (read_settings cfg (read_ties cfg (read_rounds cfg c)))"
  have "roster_ok ?c" by (simp add: roster_ok_def stages_keep assms)
  then have "roster_ok (readTeam order cfg ''team2'' Team2 (readTeam order cfg ''team1'' Team1 ?c))" by (intro roster_readTeam)
  then have "roster_ok (count_starters (readTeam order cfg ''team2'' Team2 (readTeam order cfg ''team1'' Team1 ?c)))"
    by (rule roster_same) (simp_all add: stages_keep)
  then show ?thesis unfolding read_parts_def Let_def by (rule roles_read_coaches) (simp add: stages_keep readTeam_keep assms)
qed

lemma read_parts_rounds:
  "wm_cvars (read_parts order cfg c) = wm_cvars c"
  "\<exists>old. wm_maxRounds (read_parts order cfg c) = cvar_rounds (wm_cvars c) old"
  unfolding read_parts_def Let_def by (auto simp: stages_keep readTeam_keep)

section \<open>The ruleset of a context\<close>

lemma ruleset_shape:
  assumes app: "ApplyRulesetToContext server text c = Inr d"
  obtains "d = c" "\<forall>doc. Parse text = Inr doc \<longrightarrow> \<not> IsObject doc"
  | rs named m c1 c2 e where "choose_ruleset server named c = Inr (rs, c1)" "c2 = c1 \<or> (\<exists>j. c2 = c1\<lparr>wm_overrides_json := j\<rparr>)"
    "e = context_rules rs m c2" "wm_slug c2 = ''scrim'' \<or> CheckMapSides e (wm_map_sides c2) = None"
    "d = admit_coaches e (apply_overtime rs m e c2)"
proof (cases "\<exists>doc. Parse text = Inr doc \<and> IsObject doc")
  case False
  then have "d = c" using app by (auto simp: ApplyRulesetToContext_def split: sum.splits if_splits)
  with False that(1) show thesis by blast
next
  case True
  then obtain doc where doc: "Parse text = Inr doc" "IsObject doc" by blast
  obtain named where n: "named_ruleset (json_config doc) = Inr named"
    using app doc by (cases "named_ruleset (json_config doc)") (auto simp: ApplyRulesetToContext_def)
  obtain rs c1 where ch: "choose_ruleset server named c = Inr (rs, c1)"
    using app doc n by (cases "choose_ruleset server named c") (auto simp: ApplyRulesetToContext_def)
  obtain given where g: "named_overrides (json_config doc) = Inr given"
    using app doc n ch by (cases "named_overrides (json_config doc)") (auto simp: ApplyRulesetToContext_def)
  define m where "m = or_old given []"
  define c2 where "c2 = (if given = None then c1 else c1\<lparr>wm_overrides_json := OverridesToText m\<rparr>)"
  define e where "e = context_rules rs m c2"
  have "(case (if wm_slug c2 \<noteq> ''scrim'' then CheckMapSides e (wm_map_sides c2) else None) of
      Some err \<Rightarrow> Inl err | None \<Rightarrow> Inr (admit_coaches e (apply_overtime rs m e c2))) = Inr d"
    using app doc n ch g unfolding ApplyRulesetToContext_def Let_def by (simp only: sum.case split_conv simp_thms if_False m_def c2_def e_def)
  then have "wm_slug c2 = ''scrim'' \<or> CheckMapSides e (wm_map_sides c2) = None" "d = admit_coaches e (apply_overtime rs m e c2)"
    by (auto split: option.splits if_splits)
  moreover have "c2 = c1 \<or> (\<exists>j. c2 = c1\<lparr>wm_overrides_json := j\<rparr>)" by (auto simp: c2_def)
  ultimately show thesis using that(2) [OF ch _ e_def] by blast
qed

lemma overtime_keep:
  "wm_roster_team (apply_overtime rs m e c) = wm_roster_team c" "wm_substitutes (apply_overtime rs m e c) = wm_substitutes c"
  "wm_coach_team (apply_overtime rs m e c) = wm_coach_team c" "wm_coaches (apply_overtime rs m e c) = wm_coaches c"
  "wm_cvars (apply_overtime rs m e c) = wm_cvars c" "wm_maxRounds (apply_overtime rs m e c) = wm_maxRounds c"
  "wm_wingman (apply_overtime rs m e c) = wm_wingman c" "wm_ruleset (apply_overtime rs m e c) = wm_ruleset c"
  "wm_spectators (apply_overtime rs m e c) = wm_spectators c"
  by (simp_all add: apply_overtime_def Let_def)

lemma coaches_keep:
  "wm_roster_team (admit_coaches e c) = wm_roster_team c" "wm_substitutes (admit_coaches e c) = wm_substitutes c"
  "wm_coach_team (admit_coaches e c) = wm_coach_team c" "wm_coaches (admit_coaches e c) = wm_coaches c"
  "wm_cvars (admit_coaches e c) = wm_cvars c" "wm_maxRounds (admit_coaches e c) = wm_maxRounds c"
  "wm_wingman (admit_coaches e c) = wm_wingman c" "wm_ruleset (admit_coaches e c) = wm_ruleset c"
  "wm_maxOvertimes (admit_coaches e c) = wm_maxOvertimes c" "wm_damageTiebreakEnabled (admit_coaches e c) = wm_damageTiebreakEnabled c"
  by (simp_all add: admit_coaches_def)

lemma choose_keep:
  assumes "choose_ruleset server named c = Inr (rs, d)"
  shows "wm_roster_team d = wm_roster_team c" "wm_substitutes d = wm_substitutes c" "wm_coach_team d = wm_coach_team c"
    "wm_coaches d = wm_coaches c" "wm_cvars d = wm_cvars c" "wm_maxRounds d = wm_maxRounds c" "wm_wingman d = wm_wingman c"
    "wm_ruleset c = [] \<Longrightarrow> wm_ruleset d = ''valve'' \<Longrightarrow> rs = Valve" "wm_wingman d \<Longrightarrow> rs \<noteq> Valve"
  using assms by (auto simp: choose_ruleset_def or_old_def RulesetName_def Let_def split: if_splits option.splits)

lemma config_stages:
  assumes "ParseWebhookMatchContextFromJson order server text = Inr d"
  obtains cfg slug mid c where "mid \<noteq> 0" "c = read_parts order cfg (start_context order slug mid cfg)"
    "ApplyRulesetToContext server text c = Inr d"
proof -
  obtain doc c where c: "read_context order doc = Inr c" and d: "ApplyRulesetToContext server text c = Inr d"
    using assms by (auto simp: ParseWebhookMatchContextFromJson_def split: sum.splits)
  from read_context_parts [OF c] d that show ?thesis by blast
qed

lemma admit_coaches_all:
  "wm_coaches (admit_coaches e x) \<subseteq> wm_spectators (admit_coaches e x) \<or> wm_coaches (admit_coaches e x) \<inter> wm_spectators (admit_coaches e x) = {}"
  by (cases "wm_coaches x = {}"; cases "CoachesAdmitted e") (simp_all add: admit_coaches_def)

lemma ruleset_admits:
  assumes "ApplyRulesetToContext server text c = Inr d" "\<exists>doc. Parse text = Inr doc \<and> IsObject doc"
  shows "wm_coaches d \<subseteq> wm_spectators d \<or> wm_coaches d \<inter> wm_spectators d = {}"
  using assms(1)
proof (cases rule: ruleset_shape)
  case 1
  with assms(2) show ?thesis by blast
next
  case 2
  then show ?thesis using admit_coaches_all by simp
qed

lemma ruleset_keeps_people:
  assumes "ApplyRulesetToContext server text c = Inr d"
  shows "wm_substitutes d = wm_substitutes c" "wm_roster_team d = wm_roster_team c" "wm_coach_team d = wm_coach_team c" "wm_coaches d = wm_coaches c"
proof -
  from assms have "wm_substitutes d = wm_substitutes c \<and> wm_roster_team d = wm_roster_team c \<and> wm_coach_team d = wm_coach_team c \<and> wm_coaches d = wm_coaches c"
  proof (cases rule: ruleset_shape)
    case (2 rs named m c1 c2 e)
    have "wm_substitutes c2 = wm_substitutes c1 \<and> wm_roster_team c2 = wm_roster_team c1 \<and> wm_coach_team c2 = wm_coach_team c1 \<and> wm_coaches c2 = wm_coaches c1"
      using 2(2) by auto
    then show ?thesis unfolding 2(5) by (simp only: overtime_keep coaches_keep choose_keep(1-4) [OF 2(1)] simp_thms)
  qed simp
  then show "wm_substitutes d = wm_substitutes c" "wm_roster_team d = wm_roster_team c" "wm_coach_team d = wm_coach_team c" "wm_coaches d = wm_coaches c"
    by blast+
qed

lemma start_people:
  "wm_substitutes (start_context order slug mid cfg) = {}" "wm_roster_team (start_context order slug mid cfg) = []"
  "wm_ruleset (start_context order slug mid cfg) = []"
  by (simp_all add: start_context_def new_context_def)

section \<open>A config\<close>

lemma ruleset_applies:
  assumes "Parse text = Inr doc" "IsObject doc" "named_ruleset (json_config doc) = Inr named"
    "choose_ruleset server named c = Inr (rs, d)" "named_overrides (json_config doc) = Inr None"
    "CheckMapSides (context_rules rs [] d) (wm_map_sides d) = None"
  shows "ApplyRulesetToContext server text c
    = Inr (admit_coaches (context_rules rs [] d) (apply_overtime rs [] (context_rules rs [] d) d))"
  using assms by (simp add: ApplyRulesetToContext_def or_old_def Let_def)

text \<open>A small config, read by both readers: a match of 16 rounds under the valve ruleset, with the tie rules of Ready Up's own.\<close>

definition sample_doc :: json where
  "sample_doc =
     JObject [(''matchid'', JInt 7), (''cvars'', JObject [(''mp_maxrounds'', JString ''16'')]), (''ruleset'', JString ''valve''),
       (''maxOvertimes'', JInt 2)]"

lemma sample_read:
  "Parse (Dump sample_doc) = Inr sample_doc"
  "mini_Parse (Dump sample_doc) = Inr (MObject [(''matchid'', MNumber 7), (''cvars'', MObject [(''mp_maxrounds'', MString ''16'')]),
     (''ruleset'', MString ''valve''), (''maxOvertimes'', MNumber 2)])"
proof -
  have ok: "json_ok sample_doc (Suc max_depth)" by (simp add: sample_doc_def max_depth_def in_int64_def)
  show "Parse (Dump sample_doc) = Inr sample_doc" by (rule Parse_Dump [OF ok])
  show "mini_Parse (Dump sample_doc) = Inr (MObject [(''matchid'', MNumber 7), (''cvars'', MObject [(''mp_maxrounds'', MString ''16'')]),
     (''ruleset'', MString ''valve''), (''maxOvertimes'', MNumber 2)])"
    unfolding mini_Parse_Dump [OF ok] by (simp add: sample_doc_def)
qed

lemma sample_loads:
  "\<exists>c. ParseWebhookMatchContextFromJson (\<lambda>kvs. kvs) Default_rules (Dump sample_doc) = Inr c \<and> wm_ruleset c = ''valve''
     \<and> map_of (wm_cvars c) ''mp_maxrounds'' = Some ''16''"
proof -
  let ?cfg = "MObject [(''matchid'', MNumber 7), (''cvars'', MObject [(''mp_maxrounds'', MString ''16'')]),
     (''ruleset'', MString ''valve''), (''maxOvertimes'', MNumber 2)]"
  let ?c = "read_parts (\<lambda>kvs. kvs) ?cfg (start_context (\<lambda>kvs. kvs) [] 7 ?cfg)"
  have rd: "read_context (\<lambda>kvs. kvs) ?cfg = Inr ?c"
    by (simp add: read_context_def match_id_def trunc_int_def Let_def)
  have cv: "wm_cvars ?c = [(''mp_maxrounds'', ''16'')]"
    unfolding read_parts_rounds(1) by (simp add: start_context_def read_cvars_def cvar_text_def)
  have free: "wm_map_sides ?c = []" "\<not> wm_wingman ?c" "wm_slug ?c = []"
    by (simp_all add: read_parts_def readTeam_def read_coaches_def count_starters_def read_lists_def read_settings_def
        read_ties_def read_rounds_def start_context_def new_context_def Let_def or_old_def)
  have valve: "ParseRuleset ''valve'' = Some Valve" by code_simp
  have named: "named_ruleset (json_config sample_doc) = Inr (Some Valve)" "named_overrides (json_config sample_doc) = Inr None"
    by (simp_all add: json_config_def sample_doc_def named_ruleset_def named_overrides_def Find_def valve)
  have ch: "choose_ruleset Default_rules (Some Valve) ?c = Inr (Valve, ?c\<lparr>wm_ruleset := ''valve''\<rparr>)"
    using free(2) by (simp add: choose_ruleset_def or_old_def RulesetName_def)
  have "CheckMapSides e (wm_map_sides (?c\<lparr>wm_ruleset := ''valve''\<rparr>)) = None" for e
    unfolding CheckMapSides_def by (simp add: free(1))
  then obtain e where "ApplyRulesetToContext Default_rules (Dump sample_doc) ?c
      = Inr (admit_coaches e (apply_overtime Valve [] e (?c\<lparr>wm_ruleset := ''valve''\<rparr>)))"
    using ruleset_applies [OF sample_read(1) _ named(1) ch named(2)] by (simp add: sample_doc_def)
  then show ?thesis
    unfolding ParseWebhookMatchContextFromJson_def sample_read(2) sum.case rd using cv by (auto simp: overtime_keep coaches_keep)
qed

section \<open>Properties\<close>

text \<open>
  C15: Whatever text a match is loaded from, an accepted config has a match id and numbers that the match
  flow can work with: 1 to 9999 rounds, at least one round per overtime half, 5 to 300 seconds for the
  side pick, at most 32 players per team, a time scale between 0.1 and 4, and rules that are unset or
  below 10000.
\<close>

theorem config_in_bounds:
  assumes "ParseWebhookMatchContextFromJson order server text = Inr c"
  shows "wm_matchid c \<noteq> 0 \<and> 1 \<le> wm_maxRounds c \<and> wm_maxRounds c \<le> 9999 \<and> 1 \<le> wm_overtimeSegments c
     \<and> 5 \<le> wm_knifeDecisionSeconds c \<and> wm_knifeDecisionSeconds c \<le> 300 \<and> - 1 \<le> wm_maxOvertimes c
     \<and> 0 \<le> wm_players_per_team c \<and> wm_players_per_team c \<le> 32
     \<and> 1 / 10 \<le> wm_simulation_timescale c \<and> wm_simulation_timescale c \<le> 4 \<and> rules_in_range (wm_rules c)"
proof -
  obtain cfg slug mid c0 where mid: "mid \<noteq> 0" and c0: "c0 = read_parts order cfg (start_context order slug mid cfg)"
    and app: "ApplyRulesetToContext server text c0 = Inr c" using assms by (rule config_stages)
  have "bounds_ok c0" unfolding c0 by (intro bounds_read_parts bounds_new mid)
  then have "bounds_ok c" using app by (rule bounds_ruleset)
  then show ?thesis unfolding bounds_ok_def setting_ok_def by (elim conjE) (intro conjI; simp)
qed

lemma config_in_bounds_witness:
  "\<exists>c. ParseWebhookMatchContextFromJson (\<lambda>kvs. kvs) Default_rules (Dump sample_doc) = Inr c
     \<and> 1 \<le> wm_maxRounds c \<and> wm_maxRounds c \<le> 9999 \<and> wm_matchid c \<noteq> 0"
  using sample_loads config_in_bounds [of "\<lambda>kvs. kvs" Default_rules "Dump sample_doc"] by blast





text \<open>
  The round limit is the one the server plays: when the cvars of an accepted config set
  \<open>mp_maxrounds\<close> to a number from 1 to 9999, maps are decided on that number, whatever \<open>maxRounds\<close> says.
\<close>

theorem server_rounds_win:
  assumes "ParseWebhookMatchContextFromJson order server text = Inr c"
    and "map_of (wm_cvars c) ''mp_maxrounds'' = Some t" "stoi t = Some n" "0 < n" "n < 10000"
  shows "wm_maxRounds c = n"
proof -
  obtain cfg slug mid c0 where c0: "c0 = read_parts order cfg (start_context order slug mid cfg)"
    and app: "ApplyRulesetToContext server text c0 = Inr c" using assms(1) by (rule config_stages)
  from app have same: "wm_cvars c = wm_cvars c0 \<and> wm_maxRounds c = wm_maxRounds c0"
  proof (cases rule: ruleset_shape)
    case (2 rs named m c1 c2 e)
    then show ?thesis using choose_keep [OF 2(1)] by (auto simp: overtime_keep coaches_keep)
  qed simp
  obtain old where "wm_maxRounds c0 = cvar_rounds (wm_cvars c0) old"
    unfolding c0 using read_parts_rounds by metis
  then show ?thesis using same assms(2-5) by (simp add: cvar_rounds_def)
qed

lemma server_rounds_win_witness:
  "\<exists>c. ParseWebhookMatchContextFromJson (\<lambda>kvs. kvs) Default_rules (Dump sample_doc) = Inr c \<and> wm_maxRounds c = 16"
proof -
  obtain c where c: "ParseWebhookMatchContextFromJson (\<lambda>kvs. kvs) Default_rules (Dump sample_doc) = Inr c"
    and m: "map_of (wm_cvars c) ''mp_maxrounds'' = Some ''16''" using sample_loads by blast
  have "stoi ''16'' = Some 16" by code_simp
  with c m server_rounds_win [OF c m, of 16] show ?thesis by simp
qed

section \<open>A text only one reader takes\<close>

text \<open>
  The ruleset is read with the other reader, which refuses a raw control character in a string where the
  first one takes it: then the match loads with no ruleset checked, an unknown name included.
\<close>

definition tabbed :: string where
  "tabbed = ''{'' @ in_dq ''ruleset'' @ '':'' @ in_dq (CHR 0x09 # ''x'') @ '','' @ in_dq ''matchid'' @ '':7}''"

lemma tabbed_refused: "\<exists>e. Parse tabbed = Inl e"
  by (simp add: Parse_def parse_text_def tabbed_def in_dq_def Str_def expect_def more_def Lit_def max_depth_def numeral_eq_Suc
      Ws_def is_ws_def)

lemma tabbed_read: "mini_Parse tabbed = Inr (MObject [(''ruleset'', MString (CHR 0x09 # ''x'')), (''matchid'', MNumber 7)])"
proof -
  have seven: "mini_parseNumber ''7}'' = Inr (7, ''}'')"
  proof -
    have "to_string 7 = ''7''" "delimited ''}''" by code_simp+
    then show ?thesis using mini_number_int [of 7 "''}''"] by (simp add: in_int64_def)
  qed
  show ?thesis
    by (simp add: mini_Parse_def tabbed_def in_dq_def mini_key_def mini_parseString_def mini_colon_def mini_more_def mini_parseLiteral_def
      emplace_def Ws_def is_ws_def seven numeral_eq_Suc)
qed

lemma unread_ruleset_ignored: "\<exists>c. ParseWebhookMatchContextFromJson order server tabbed = Inr c \<and> wm_ruleset c = []"
proof -
  let ?cfg = "MObject [(''ruleset'', MString (CHR 0x09 # ''x'')), (''matchid'', MNumber 7)]"
  obtain e where "Parse tabbed = Inl e" using tabbed_refused by blast
  then have "ApplyRulesetToContext server tabbed c = Inr c" for c by (simp add: ApplyRulesetToContext_def)
  moreover have "read_context order ?cfg = Inr (read_parts order ?cfg (start_context order [] 7 ?cfg))"
    by (simp add: read_context_def match_id_def trunc_int_def Let_def)
  moreover have "wm_ruleset (read_parts order ?cfg (start_context order [] 7 ?cfg)) = []"
    using read_parts_roles [OF start_people] by (simp add: roles_ok_def)
  ultimately show ?thesis by (simp add: ParseWebhookMatchContextFromJson_def tabbed_read)
qed

end
