(* ===== verification/Features.thy ===== *)
theory Features
  imports Prelude
begin

text \<open>
  Feature gating on the engine surface (core/src/readyup/features.h and features.cpp). A feature needs
  groups of dependencies, one member of each group is enough, and a dependency is there, missing or not
  known yet. What the engine modules answer is the record \<open>Surface\<close>. The state is the table of settled
  features; the result of an evaluation is the log line, if one is printed, and the new table.
\<close>

section \<open>Dependencies\<close>

datatype DepState = Dep_Ok | Dep_Pending | Dep_Fail

record DepStatus =
  ds_state :: DepState
  ds_detail :: string

datatype Feature =
  ChatCommands | MatchFlow | Pauses | WelcomeHtml | RoundTermSuppression | Events | ClientCommandHook
| PlayerChatPrint | ReadyHud | HudBrand | Knife | Plugins

record FeatureDef =
  fd_id :: Feature
  fd_name :: string
  fd_needs :: "string list list"

definition Defs :: "FeatureDef list" where
  "Defs =
     [\<lparr>fd_id = ChatCommands, fd_name = ''chat_commands'',
       fd_needs = [[''loglistener'', ''hook:ClientCommand''], [''fn:UTIL_ClientPrintAll'', ''cmdbuf'']]\<rparr>,
      \<lparr>fd_id = MatchFlow, fd_name = ''match_flow'', fd_needs = [[''hook:GameFrame''], [''cmdbuf'']]\<rparr>,
      \<lparr>fd_id = Pauses, fd_name = ''pauses'', fd_needs = [[''cmdbuf''], [''loglistener'', ''hook:ClientCommand'']]\<rparr>,
      \<lparr>fd_id = WelcomeHtml, fd_name = ''welcome_html'',
       fd_needs = [[''hook:GameFrame''], [''fn:LegacyGameEventListener''], [''eventmgr'']]\<rparr>,
      \<lparr>fd_id = RoundTermSuppression, fd_name = ''round_term_suppression'',
       fd_needs = [[''fn:CCSGameRules_TerminateRound'']]\<rparr>,
      \<lparr>fd_id = Events, fd_name = ''events'', fd_needs = [[''fn:CGameEventManager_Init''], [''eventmgr'']]\<rparr>,
      \<lparr>fd_id = ClientCommandHook, fd_name = ''client_command_hook'',
       fd_needs = [[''hook:ClientCommand''], [''layout:CCommand'']]\<rparr>,
      \<lparr>fd_id = PlayerChatPrint, fd_name = ''player_chat_print'', fd_needs = [[''fn:ClientPrint'']]\<rparr>,
      \<lparr>fd_id = ReadyHud, fd_name = ''ready_hud'',
       fd_needs = [[''hook:GameFrame''], [''fn:LegacyGameEventListener''], [''eventmgr'']]\<rparr>,
      \<lparr>fd_id = HudBrand, fd_name = ''hud_brand'', fd_needs = [[''feature:welcome_html'', ''feature:ready_hud'']]\<rparr>,
      \<lparr>fd_id = Knife, fd_name = ''knife'', fd_needs = [[''feature:match_flow''], [''loglistener''], [''cmdbuf'']]\<rparr>,
      \<lparr>fd_id = Plugins, fd_name = ''plugins'', fd_needs = [[''hook:GameFrame'']]\<rparr>]"

definition DefOf :: "Feature \<Rightarrow> FeatureDef option" where
  "DefOf f = find (\<lambda>d. fd_id d = f) Defs"

definition DefByName :: "string \<Rightarrow> FeatureDef option" where
  "DefByName n = find (\<lambda>d. fd_name d = n) Defs"

definition Ok :: "string \<Rightarrow> DepStatus" where
  "Ok d = \<lparr>ds_state = Dep_Ok, ds_detail = d\<rparr>"

definition Pending :: "string \<Rightarrow> DepStatus" where
  "Pending d = \<lparr>ds_state = Dep_Pending, ds_detail = d\<rparr>"

definition Fail :: "string \<Rightarrow> DepStatus" where
  "Fail d = \<lparr>ds_state = Dep_Fail, ds_detail = d\<rparr>"

definition FromTri :: "int \<times> string \<Rightarrow> DepStatus" where
  "FromTri t = (if fst t = 1 then Ok (snd t) else if fst t = 2 then Fail (snd t) else Pending (snd t))"

text \<open>What the engine modules report: a hook is installed, or has failed with a reason, or neither yet.\<close>

record Hook =
  hk_installed :: bool
  hk_failed :: "string option"

record Surface =
  sf_realServerImage :: bool
  sf_function :: "string \<Rightarrow> bool \<times> string"
  sf_vtable :: "string \<Rightarrow> bool \<times> bool \<times> string"
  sf_layouts :: "(string \<times> bool \<times> string) list"
  sf_gameFrame :: Hook
  sf_clients :: Hook
  sf_cmdbuf :: bool
  sf_loglistener :: bool
  sf_schema :: "int \<times> string"
  sf_entsys :: "int \<times> string"
  sf_eventmgr :: "int \<times> string"
  sf_eventsLive :: bool

definition hook_status :: "Hook \<Rightarrow> DepStatus" where
  "hook_status h =
     (if hk_installed h then Ok ''patched''
      else case hk_failed h of Some why \<Rightarrow> Fail why | None \<Rightarrow> Pending ''not installed yet'')"

definition function_status :: "Surface \<Rightarrow> string \<Rightarrow> DepStatus" where
  "function_status e name =
     (if \<not> sf_realServerImage e then Pending ''real libserver.so not loaded''
      else let (ok, detail) = sf_function e name in if ok then Ok detail else Fail detail)"

definition vtable_status :: "Surface \<Rightarrow> string \<Rightarrow> DepStatus" where
  "vtable_status e name =
     (let (checked, ok, detail) = sf_vtable e name
      in if \<not> checked then Pending (if detail = [] then ''not verified yet'' else detail)
         else if ok then Ok detail else Fail detail)"

definition layout_status :: "Surface \<Rightarrow> string \<Rightarrow> DepStatus" where
  "layout_status e name =
     (case find (\<lambda>l. fst l = name) (sf_layouts e) of
        None \<Rightarrow> Fail ''not listed in engine-surface.json''
      | Some (_, ok, by) \<Rightarrow> if ok then Ok (''verified by '' @ by) else Fail (by @ '' unverified''))"

text \<open>The dependencies that the engine answers; None for a \<open>feature:\<close> name.\<close>

definition engine_status :: "Surface \<Rightarrow> string \<Rightarrow> DepStatus" where
  "engine_status e dep =
     (if starts_with ''fn:'' dep then function_status e (drop 3 dep)
      else if starts_with ''vtable:'' dep then vtable_status e (drop 7 dep)
      else if starts_with ''layout:'' dep then layout_status e (drop 7 dep)
      else if dep = ''hook:GameFrame'' then hook_status (sf_gameFrame e)
      else if dep = ''hook:ClientCommand'' then hook_status (sf_clients e)
      else if dep = ''cmdbuf'' then
        (if sf_cmdbuf e then Ok ''CCommandBuffer::AddText hooked'' else Fail ''CCommandBuffer::AddText import not found/patched'')
      else if dep = ''loglistener'' then
        (if sf_loglistener e then Ok ''registered'' else Fail ''LoggingSystem_RegisterLoggingListener unavailable'')
      else if dep = ''schema'' then FromTri (sf_schema e)
      else if dep = ''entsys'' then FromTri (sf_entsys e)
      else if dep = ''eventmgr'' then FromTri (sf_eventmgr e)
      else if dep = ''events_live'' then
        (if sf_eventsLive e then Ok ''engine events delivered'' else Pending ''round lifecycle from log lines'')
      else Fail ''unknown dependency'')"

section \<open>Evaluation\<close>

record Eval =
  ev_state :: DepState
  ev_missing :: string

text \<open>One group: whether a member is there, whether all failed, and why.\<close>

fun group_loop :: "(string \<Rightarrow> DepStatus) \<Rightarrow> bool \<Rightarrow> string \<Rightarrow> string list \<Rightarrow> bool \<times> bool \<times> string" where
  "group_loop st allFail why [] = (False, allFail, why)"
| "group_loop st allFail why (dep # deps) =
     (let s = st dep
      in if ds_state s = Dep_Ok then (True, allFail, why)
         else group_loop st (allFail \<and> ds_state s = Dep_Fail)
                (why @ (if why \<noteq> [] then '' | '' else []) @ dep @ '' ('' @ ds_detail s @ '')'') deps)"

fun needs_loop :: "(string \<Rightarrow> DepStatus) \<Rightarrow> Eval \<Rightarrow> string list list \<Rightarrow> Eval" where
  "needs_loop st out [] = out"
| "needs_loop st out (g # gs) =
     (let (anyOk, allFail, why) = group_loop st True [] g
      in if anyOk then needs_loop st out gs
         else if allFail then \<lparr>ev_state = Dep_Fail, ev_missing = why\<rparr>
         else needs_loop st (if ev_state out = Dep_Ok then \<lparr>ev_state = Dep_Pending, ev_missing = why\<rparr> else out) gs)"

definition evaluate_with :: "(string \<Rightarrow> DepStatus) \<Rightarrow> FeatureDef \<Rightarrow> Eval" where
  "evaluate_with st d = needs_loop st \<lparr>ev_state = Dep_Ok, ev_missing = []\<rparr> (fd_needs d)"

definition feature_prefix :: string where
  "feature_prefix = ''feature:''"

definition of_eval :: "Eval \<Rightarrow> DepStatus" where
  "of_eval v =
     (case ev_state v of
        Dep_Ok \<Rightarrow> Ok ''on''
      | Dep_Fail \<Rightarrow> Fail (''off ('' @ ev_missing v @ '')'')
      | Dep_Pending \<Rightarrow> Pending (''pending ('' @ ev_missing v @ '')''))"

text \<open>
  The source counts the depth up to 4; the first argument here is the number of levels left, so 5 is
  the source's depth 0 and 0 is \<open>depth > 4\<close>.
\<close>

primrec DependencyStatusImpl :: "nat \<Rightarrow> Surface \<Rightarrow> string \<Rightarrow> DepStatus" where
  "DependencyStatusImpl 0 e dep =
     (if starts_with feature_prefix dep then Fail ''unknown feature'' else engine_status e dep)"
| "DependencyStatusImpl (Suc n) e dep =
     (if starts_with feature_prefix dep
      then case DefByName (drop (length feature_prefix) dep) of
             None \<Rightarrow> Fail ''unknown feature''
           | Some d \<Rightarrow> of_eval (evaluate_with (DependencyStatusImpl n e) d)
      else engine_status e dep)"

definition Evaluate :: "nat \<Rightarrow> Surface \<Rightarrow> FeatureDef \<Rightarrow> Eval" where
  "Evaluate levels e d = evaluate_with (DependencyStatusImpl levels e) d"

definition DependencyStatus :: "Surface \<Rightarrow> string \<Rightarrow> DepStatus" where
  "DependencyStatus e dep = DependencyStatusImpl 5 e dep"

definition FeatureName :: "Feature \<Rightarrow> string" where
  "FeatureName f = (case DefOf f of None \<Rightarrow> ''?'' | Some d \<Rightarrow> fd_name d)"

section \<open>The table\<close>

record FeatureTable =
  ft_settled :: "Feature \<Rightarrow> int"
  ft_lastEvalMs :: "Feature \<Rightarrow> int"

definition empty_table :: FeatureTable where
  "empty_table = \<lparr>ft_settled = (\<lambda>_. 0), ft_lastEvalMs = (\<lambda>_. 0)\<rparr>"

definition FeatureEnabled :: "int \<Rightarrow> Surface \<Rightarrow> Feature \<Rightarrow> FeatureTable \<Rightarrow> bool \<times> string option \<times> FeatureTable" where
  "FeatureEnabled now e f t =
     (if ft_settled t f = 1 then (True, None, t)
      else if ft_settled t f = 2 then (False, None, t)
      else if ft_lastEvalMs t f \<noteq> 0 \<and> now - ft_lastEvalMs t f < 250 then (False, None, t)
      else
        let t1 = t\<lparr>ft_lastEvalMs := (ft_lastEvalMs t)(f := now)\<rparr>
        in case DefOf f of
             None \<Rightarrow> (False, None, t1)
           | Some d \<Rightarrow>
               let v = Evaluate 5 e d
               in if ev_state v = Dep_Pending then (False, None, t1)
                  else if ev_state v = Dep_Ok then (True, None, t1\<lparr>ft_settled := (ft_settled t1)(f := 1)\<rparr>)
                  else (False,
                        Some (''feature '' @ fd_name d @ '' DISABLED: needs '' @ ev_missing v @ ''. Everything else keeps working.''),
                        t1\<lparr>ft_settled := (ft_settled t1)(f := 2)\<rparr>))"

definition FeatureStateByName :: "int \<Rightarrow> Surface \<Rightarrow> string \<Rightarrow> FeatureTable \<Rightarrow> int \<times> string option \<times> FeatureTable" where
  "FeatureStateByName now e name t =
     (case DefByName name of
        Some d \<Rightarrow>
          let (on, line, t1) = FeatureEnabled now e (fd_id d) t
          in (if on then 1 else if ft_settled t1 (fd_id d) = 2 then - 1 else 0, line, t1)
      | None \<Rightarrow>
          (case ds_state (DependencyStatus e name) of Dep_Ok \<Rightarrow> 1 | Dep_Fail \<Rightarrow> - 1 | Dep_Pending \<Rightarrow> 0, None, t))"

record FeatureReport =
  fr_name :: string
  fr_state :: string
  fr_needs :: "string list list"
  fr_missing :: string

definition feature_report :: "int \<Rightarrow> Surface \<Rightarrow> FeatureDef \<Rightarrow> FeatureTable \<Rightarrow> FeatureReport \<times> string option \<times> FeatureTable" where
  "feature_report now e d t =
     (let (_, line, t1) = FeatureEnabled now e (fd_id d) t; st = ft_settled t1 (fd_id d)
      in (\<lparr>fr_name = fd_name d, fr_state = (if st = 1 then ''on'' else if st = 2 then ''off'' else ''pending''),
           fr_needs = fd_needs d, fr_missing = ev_missing (Evaluate 5 e d)\<rparr>, line, t1))"

fun report_loop ::
  "int \<Rightarrow> Surface \<Rightarrow> FeatureDef list \<Rightarrow> FeatureTable \<Rightarrow> FeatureReport list \<times> string list \<times> FeatureTable" where
  "report_loop now e [] t = ([], [], t)"
| "report_loop now e (d # ds) t =
     (let (r, line, t1) = feature_report now e d t; (rs, lines, t2) = report_loop now e ds t1
      in (r # rs, (case line of None \<Rightarrow> [] | Some l \<Rightarrow> [l]) @ lines, t2))"

definition FeatureReports :: "int \<Rightarrow> Surface \<Rightarrow> FeatureTable \<Rightarrow> FeatureReport list \<times> string list \<times> FeatureTable" where
  "FeatureReports now e t = report_loop now e Defs t"

section \<open>Three-valued logic\<close>

text \<open>The states in the order of certainty; a group is the best of its members, a feature the worst of its groups.\<close>

fun dep_rank :: "DepState \<Rightarrow> nat" where
  "dep_rank Dep_Fail = 0"
| "dep_rank Dep_Pending = 1"
| "dep_rank Dep_Ok = 2"

instantiation DepState :: linorder
begin

definition less_eq_DepState :: "DepState \<Rightarrow> DepState \<Rightarrow> bool" where
  "less_eq_DepState a b \<longleftrightarrow> dep_rank a \<le> dep_rank b"

definition less_DepState :: "DepState \<Rightarrow> DepState \<Rightarrow> bool" where
  "less_DepState a b \<longleftrightarrow> dep_rank a < dep_rank b"

instance
proof
  fix x y :: DepState
  show "x \<le> y \<Longrightarrow> y \<le> x \<Longrightarrow> x = y" by (cases x; cases y) (auto simp: less_eq_DepState_def)
qed (auto simp: less_eq_DepState_def less_DepState_def)

end

definition any_of :: "DepState list \<Rightarrow> DepState" where
  "any_of xs = foldr max xs Dep_Fail"

definition all_of :: "DepState list \<Rightarrow> DepState" where
  "all_of xs = foldr min xs Dep_Ok"

lemma dep_max_min [simp]:
  "max Dep_Ok x = Dep_Ok" "max x Dep_Ok = Dep_Ok" "max Dep_Fail x = x" "max x Dep_Fail = x"
  "min Dep_Ok x = x" "min x Dep_Ok = x" "min Dep_Fail x = Dep_Fail" "min x Dep_Fail = Dep_Fail"
  by (cases x; simp add: max_def min_def less_eq_DepState_def)+

lemma group_loop_state:
  "group_loop st allFail why deps = (anyOk, af, why') \<Longrightarrow>
   (anyOk \<longleftrightarrow> any_of (map (\<lambda>d. ds_state (st d)) deps) = Dep_Ok)
   \<and> (\<not> anyOk \<longrightarrow> (af \<longleftrightarrow> allFail \<and> any_of (map (\<lambda>d. ds_state (st d)) deps) = Dep_Fail))"
proof (induction st allFail why deps arbitrary: anyOk af why' rule: group_loop.induct)
  case (2 st allFail why dep deps)
  show ?case
  proof (cases "ds_state (st dep)")
    case Dep_Pending
    have ok: "max Dep_Pending x = Dep_Ok \<longleftrightarrow> x = Dep_Ok" "max Dep_Pending x \<noteq> Dep_Fail" for x
      by (cases x; simp add: max_def less_eq_DepState_def)+
    from 2 Dep_Pending show ?thesis by (auto simp: any_of_def Let_def ok)
  qed (use 2 in \<open>auto simp: any_of_def Let_def\<close>)
qed (auto simp: any_of_def)

lemma needs_loop_state:
  "ev_state out \<noteq> Dep_Fail \<Longrightarrow>
   ev_state (needs_loop st out gs) =
     min (ev_state out) (all_of (map (\<lambda>g. any_of (map (\<lambda>d. ds_state (st d)) g)) gs))"
proof (induction st out gs rule: needs_loop.induct)
  case (2 st out g gs)
  obtain anyOk af why where g: "group_loop st True [] g = (anyOk, af, why)" by (metis prod_cases3)
  note st = group_loop_state [OF g]
  have pend: "min Dep_Pending x = (if x = Dep_Fail then Dep_Fail else Dep_Pending)" for x
    by (cases x) (simp_all add: min_def less_eq_DepState_def)
  show ?case
    using 2 st by (cases "any_of (map (\<lambda>d. ds_state (st d)) g)"; cases "ev_state out") (auto simp: g all_of_def pend)
qed (simp add: all_of_def)

lemma evaluate_with_state:
  "ev_state (evaluate_with st d) = all_of (map (\<lambda>g. any_of (map (\<lambda>dep. ds_state (st dep)) g)) (fd_needs d))"
  by (simp add: evaluate_with_def needs_loop_state)

section \<open>Runs\<close>

record FeatureCall =
  fc_surface :: Surface
  fc_feature :: Feature
  fc_on :: bool
  fc_line :: "string option"

fun feature_step :: "int \<times> Surface \<times> Feature \<Rightarrow> FeatureTable \<times> FeatureCall list \<Rightarrow> FeatureTable \<times> FeatureCall list" where
  "feature_step (now, e, f) (t, calls) =
     (let (on, line, t1) = FeatureEnabled now e f t
      in (t1, calls @ [\<lparr>fc_surface = e, fc_feature = f, fc_on = on, fc_line = line\<rparr>]))"

definition satisfied :: "Surface \<Rightarrow> Feature \<Rightarrow> bool" where
  "satisfied e f \<longleftrightarrow> (\<exists>d. DefOf f = Some d \<and> ev_state (Evaluate 5 e d) = Dep_Ok)"

definition lines_of :: "Feature \<Rightarrow> FeatureCall list \<Rightarrow> FeatureCall list" where
  "lines_of f calls = filter (\<lambda>c. fc_feature c = f \<and> fc_line c \<noteq> None) calls"

definition on_of :: "Feature \<Rightarrow> FeatureCall list \<Rightarrow> FeatureCall list" where
  "on_of f calls = filter (\<lambda>c. fc_feature c = f \<and> fc_on c) calls"

definition table_ok :: "FeatureTable \<times> FeatureCall list \<Rightarrow> bool" where
  "table_ok s \<longleftrightarrow>
     (\<forall>f. case s of (t, calls) \<Rightarrow>
        if ft_settled t f = 1 then lines_of f calls = [] \<and> on_of f calls \<noteq> [] \<and> satisfied (fc_surface (hd (on_of f calls))) f
        else if ft_settled t f = 2 then length (lines_of f calls) = 1 \<and> on_of f calls = []
        else lines_of f calls = [] \<and> on_of f calls = [])
     \<and> sorted_wrt (\<lambda>c c'. fc_feature c = fc_feature c' \<longrightarrow> fc_on c \<longrightarrow> fc_on c') (snd s)"

text \<open>What a call does: nothing to the table but the time, or it settles the feature.\<close>

lemma FeatureEnabled_cases:
  assumes "FeatureEnabled now e f t = (on, line, t1)"
  obtains "ft_settled t f = 1" "on" "line = None" "t1 = t"
  | "ft_settled t f \<noteq> 1" "\<not> on" "line = None" "ft_settled t1 = ft_settled t"
  | "ft_settled t f \<notin> {1, 2}" "on" "line = None" "satisfied e f" "ft_settled t1 = (ft_settled t)(f := 1)"
  | l where "ft_settled t f \<notin> {1, 2}" "\<not> on" "line = Some l" "ft_settled t1 = (ft_settled t)(f := 2)"
proof -
  have "(ft_settled t f = 1 \<and> on \<and> line = None \<and> t1 = t)
    \<or> (ft_settled t f \<noteq> 1 \<and> \<not> on \<and> line = None \<and> ft_settled t1 = ft_settled t)
    \<or> (ft_settled t f \<notin> {1, 2} \<and> on \<and> line = None \<and> satisfied e f \<and> ft_settled t1 = (ft_settled t)(f := 1))
    \<or> (ft_settled t f \<notin> {1, 2} \<and> \<not> on \<and> line \<noteq> None \<and> ft_settled t1 = (ft_settled t)(f := 2))"
    using assms unfolding FeatureEnabled_def Let_def
    by (cases "DefOf f") (auto simp: satisfied_def split: if_splits)
  then show ?thesis using that by blast
qed

lemma calls_append [simp]:
  "lines_of f (calls @ [c]) = lines_of f calls @ (if fc_feature c = f \<and> fc_line c \<noteq> None then [c] else [])"
  "on_of f (calls @ [c]) = on_of f calls @ (if fc_feature c = f \<and> fc_on c then [c] else [])"
  by (simp_all add: lines_of_def on_of_def)

lemma on_before: "on_of f calls = [] \<Longrightarrow> c \<in> set calls \<Longrightarrow> fc_feature c = f \<Longrightarrow> \<not> fc_on c"
  by (auto simp: on_of_def filter_empty_conv)

lemma table_ok_step: "table_ok s \<Longrightarrow> table_ok (feature_step c s)"
proof (induction c s rule: feature_step.induct)
  case (1 now e f t calls)
  obtain on line t1 where r: "FeatureEnabled now e f t = (on, line, t1)" by (metis prod_cases3)
  have st: "if ft_settled t g = 1 then lines_of g calls = [] \<and> on_of g calls \<noteq> [] \<and> satisfied (fc_surface (hd (on_of g calls))) g
      else if ft_settled t g = 2 then length (lines_of g calls) = 1 \<and> on_of g calls = []
      else lines_of g calls = [] \<and> on_of g calls = []" for g
    using 1 by (simp add: table_ok_def)
  have mono: "sorted_wrt (\<lambda>c c'. fc_feature c = fc_feature c' \<longrightarrow> fc_on c \<longrightarrow> fc_on c') calls" using 1 by (simp add: table_ok_def)
  have off: "c \<in> set calls \<Longrightarrow> fc_feature c = f \<Longrightarrow> \<not> fc_on c" if "ft_settled t f \<noteq> 1" for c
    using st [of f] that on_before [of f calls c] by (auto split: if_splits)
  from r show ?case
  proof (cases rule: FeatureEnabled_cases)
    case 1
    with st [of f] st mono show ?thesis by (auto simp: table_ok_def r sorted_wrt_append)
  next
    case 2
    with st [of f] st mono off show ?thesis by (auto simp: table_ok_def r sorted_wrt_append)
  next
    case 3
    with st [of f] st mono show ?thesis by (auto simp: table_ok_def r sorted_wrt_append)
  next
    case (4 l)
    with st [of f] st mono off show ?thesis by (auto simp: table_ok_def r sorted_wrt_append)
  qed
qed

interpretation features: machine feature_step "\<lambda>_. True" table_ok
  by unfold_locales (rule table_ok_step)

section \<open>Properties\<close>

text \<open>
  C24: A feature's state is the conjunction of its groups and a group the disjunction of its members,
  in three-valued logic: there only when every group has a member that is there, off only when some
  group has none left that could come.
\<close>

theorem feature_is_and_of_ors:
  "ev_state (Evaluate n e d) = all_of (map (\<lambda>g. any_of (map (\<lambda>dep. ds_state (DependencyStatusImpl n e dep)) g)) (fd_needs d))"
  by (simp add: Evaluate_def evaluate_with_state)


definition full_surface :: Surface where
  "full_surface =
     \<lparr>sf_realServerImage = True, sf_function = \<lambda>_. (True, ''unique''), sf_vtable = \<lambda>_. (True, True, ''slot''),
      sf_layouts = [(''CCommand'', True, ''vtable'')], sf_gameFrame = \<lparr>hk_installed = True, hk_failed = None\<rparr>,
      sf_clients = \<lparr>hk_installed = True, hk_failed = None\<rparr>, sf_cmdbuf = True, sf_loglistener = True, sf_schema = (1, ''ready''),
      sf_entsys = (1, ''ready''), sf_eventmgr = (1, ''ready''), sf_eventsLive = True\<rparr>"

definition sample_calls :: "(int \<times> Surface \<times> Feature) list" where
  "sample_calls = [(5, full_surface\<lparr>sf_eventmgr := (0, ''waiting'')\<rparr>, Events), (900, full_surface, Events), (1200, full_surface, Events)]"


text \<open>The guard against cycles never cuts off a feature: two levels are enough for all of them.\<close>

definition flat_def :: "FeatureDef \<Rightarrow> bool" where
  "flat_def d \<longleftrightarrow> list_all (list_all (\<lambda>dep. \<not> starts_with feature_prefix dep)) (fd_needs d)"

definition flat_dep :: "string \<Rightarrow> bool" where
  "flat_dep dep \<longleftrightarrow>
     (starts_with feature_prefix dep \<longrightarrow>
       (case DefByName (drop (length feature_prefix) dep) of None \<Rightarrow> False | Some d \<Rightarrow> flat_def d))"

lemma Defs_flat: "list_all (\<lambda>d. list_all (list_all flat_dep) (fd_needs d)) Defs"
  by code_simp

lemma group_loop_cong:
  "(\<And>dep. dep \<in> set deps \<Longrightarrow> st dep = st' dep) \<Longrightarrow> group_loop st af why deps = group_loop st' af why deps"
  by (induction deps arbitrary: af why) (simp_all add: Let_def)

lemma needs_loop_cong:
  "(\<And>g dep. g \<in> set gs \<Longrightarrow> dep \<in> set g \<Longrightarrow> st dep = st' dep) \<Longrightarrow> needs_loop st out gs = needs_loop st' out gs"
proof (induction gs arbitrary: out)
  case (Cons g gs)
  have "group_loop st True [] g = group_loop st' True [] g" by (rule group_loop_cong) (rule Cons.prems [of g], simp_all)
  moreover have "needs_loop st out gs = needs_loop st' out gs" for out
    by (rule Cons.IH) (rule Cons.prems [OF list.set_intros(2)])
  ultimately show ?case by (simp only: needs_loop.simps)
qed simp

lemma evaluate_with_cong:
  "(\<And>g dep. g \<in> set (fd_needs d) \<Longrightarrow> dep \<in> set g \<Longrightarrow> st dep = st' dep) \<Longrightarrow> evaluate_with st d = evaluate_with st' d"
  unfolding evaluate_with_def by (rule needs_loop_cong)

lemma flat_def_levels: "flat_def d \<Longrightarrow> evaluate_with (DependencyStatusImpl a e) d = evaluate_with (DependencyStatusImpl b e) d"
proof (rule evaluate_with_cong)
  fix g dep
  assume "flat_def d" "g \<in> set (fd_needs d)" "dep \<in> set g"
  then have "\<not> starts_with feature_prefix dep" by (auto simp: flat_def_def list_all_iff)
  then show "DependencyStatusImpl a e dep = DependencyStatusImpl b e dep" by (cases a; cases b) simp_all
qed

lemma flat_dep_levels: "flat_dep dep \<Longrightarrow> DependencyStatusImpl (Suc a) e dep = DependencyStatusImpl (Suc b) e dep"
  using flat_def_levels [of _ a e b] by (auto simp: flat_dep_def split: option.splits)

text \<open>
  The depth guard of the evaluation never takes effect: from two levels on, every dependency has the
  same status, so no feature is off because of the guard.
\<close>

theorem depth_guard_unreached:
  assumes "2 \<le> n"
  shows "DependencyStatusImpl n e dep = DependencyStatusImpl 2 e dep"
proof -
  obtain m where n: "n = Suc (Suc m)" using assms by (metis add_2_eq_Suc le_Suc_ex)
  have two: "(2 :: nat) = Suc (Suc 0)" by simp
  have "d \<in> set Defs" if "DefByName x = Some d" for x d using that by (auto simp: DefByName_def find_Some_iff)
  then have "evaluate_with (DependencyStatusImpl (Suc m) e) d = evaluate_with (DependencyStatusImpl (Suc 0) e) d" if "DefByName x = Some d" for x d
    using that Defs_flat by (intro evaluate_with_cong flat_dep_levels) (fastforce simp: list_all_iff)
  then show ?thesis
    unfolding n two DependencyStatusImpl.simps(2) [of "Suc m"] DependencyStatusImpl.simps(2) [of "Suc 0"]
    by (auto split: option.split)
qed

lemma depth_guard_unreached_witness:
  "DependencyStatusImpl 5 full_surface ''feature:knife'' = DependencyStatusImpl 2 full_surface ''feature:knife''"
  by (rule depth_guard_unreached) simp

end
