(* ===== verification/Plugin_Needs.thy ===== *)
theory Plugin_Needs
  imports Minijson
begin

text \<open>
  What a plugin needs from the engine (core/src/readyup/plugin_needs.h and plugin_needs.cpp): the reader
  of a needs.json, and the decision to load the plugin on the running build. The probes are the
  functions of \<open>NeedsProbe\<close>, None where the source has an empty \<open>std::function\<close>; a file is its content,
  None when it is not there.
\<close>

section \<open>The manifest\<close>

record PluginNeeds =
  pn_plugin :: string
  pn_surface :: "string list"
  pn_schema :: "string list"
  pn_schemaOptional :: "string list"
  pn_events :: "string list"

fun is_entry :: "mvalue \<Rightarrow> bool" where
  "is_entry (MString s) = (s \<noteq> [])"
| "is_entry _ = False"

fun entry_text :: "mvalue \<Rightarrow> string" where
  "entry_text (MString s) = s"
| "entry_text _ = []"

definition key_text :: "string \<Rightarrow> string" where
  "key_text key = [quote_char] @ key @ [quote_char]"

definition StringList :: "mvalue \<Rightarrow> string \<Rightarrow> string + string list" where
  "StringList doc key =
     (case mini_get doc key of
        None \<Rightarrow> Inr []
      | Some MNull \<Rightarrow> Inr []
      | Some (MArray xs) \<Rightarrow>
          if list_all is_entry xs then Inr (map entry_text xs) else Inl (key_text key @ '' has a non-string entry'')
      | Some _ \<Rightarrow> Inl (key_text key @ '' is not an array''))"

definition ParseNeeds :: "string \<Rightarrow> string + PluginNeeds" where
  "ParseNeeds text =
     (case mini_Parse text of
        Inl (msg, _) \<Rightarrow> Inl (''invalid JSON: '' @ msg)
      | Inr doc \<Rightarrow>
          if \<not> mini_IsObject (Some doc) then Inl ''not a JSON object''
          else
            case StringList doc ''surface'' of
              Inl e \<Rightarrow> Inl e
            | Inr su \<Rightarrow>
                (case StringList doc ''schema'' of
                   Inl e \<Rightarrow> Inl e
                 | Inr sc \<Rightarrow>
                     (case StringList doc ''schema_optional'' of
                        Inl e \<Rightarrow> Inl e
                      | Inr so \<Rightarrow>
                          (case StringList doc ''events'' of
                             Inl e \<Rightarrow> Inl e
                           | Inr ev \<Rightarrow>
                               Inr \<lparr>pn_plugin = (case mini_AsString (mini_get doc ''plugin'') of None \<Rightarrow> [] | Some p \<Rightarrow> p),
                                    pn_surface = su, pn_schema = sc, pn_schemaOptional = so, pn_events = ev\<rparr>))))"

text \<open>No file: no needs and no error. A file that is there and cannot be opened: an error.\<close>

definition LoadNeedsFile :: "string \<Rightarrow> string option option \<Rightarrow> string + PluginNeeds" where
  "LoadNeedsFile path content =
     (case content of
        None \<Rightarrow> Inl []
      | Some None \<Rightarrow> Inl (''cannot read '' @ path)
      | Some (Some text) \<Rightarrow> ParseNeeds text)"

section \<open>The decision\<close>

record NeedsProbe =
  np_surface :: "(string \<Rightarrow> int) option"
  np_schema :: "(string \<Rightarrow> string \<Rightarrow> int) option"
  np_event :: "(string \<Rightarrow> int) option"
  np_cs2Build :: string

record NeedCheck =
  nc_kind :: string
  nc_entry :: string
  nc_state :: int
  nc_detail :: string

record NeedsVerdict =
  nv_load :: bool
  nv_reason :: string
  nv_checks :: "NeedCheck list"
  nv_warnings :: "string list"

fun Split_loop :: "char \<Rightarrow> string \<Rightarrow> string \<Rightarrow> string list" where
  "Split_loop sep cur [] = [cur]"
| "Split_loop sep cur (c # cs) =
     (if c = sep then cur # Split_loop sep [] cs
      else Split_loop sep (if c \<noteq> space_char then cur @ [c] else cur) cs)"

definition Split :: "string \<Rightarrow> char \<Rightarrow> string list" where
  "Split s sep = Split_loop sep [] s"

fun hex_nat :: "nat \<Rightarrow> string" where
  "hex_nat n = (if n < 16 then [hex_digit n] else hex_nat (n div 16) @ [hex_digit n])"

declare hex_nat.simps [simp del]

text \<open>\<open>%x\<close> prints the bits of a 32 bit integer.\<close>

definition Hex :: "int \<Rightarrow> string" where
  "Hex v = ''0x'' @ hex_nat (nat (v mod 2 ^ 32))"

text \<open>One alternative: class and field, None when it is malformed.\<close>

definition alternative :: "string \<Rightarrow> (string \<times> string) option" where
  "alternative alt =
     (case find_sub ''.'' alt of
        None \<Rightarrow> None
      | Some dot \<Rightarrow> if dot = 0 \<or> dot + 1 \<ge> length alt then None else Some (take dot alt, drop (dot + 1) alt))"

definition schema_offset :: "NeedsProbe \<Rightarrow> string \<times> string \<Rightarrow> int" where
  "schema_offset p cf = (case np_schema p of None \<Rightarrow> - 2 | Some f \<Rightarrow> f (fst cf) (snd cf))"

fun schema_loop :: "NeedsProbe \<Rightarrow> string \<Rightarrow> bool \<Rightarrow> NeedCheck \<Rightarrow> string list \<Rightarrow> NeedCheck" where
  "schema_loop p entry pending c [] =
     (if pending then c\<lparr>nc_state := - 1, nc_detail := ''schema system not ready''\<rparr> else c)"
| "schema_loop p entry pending c (alt # alts) =
     (case alternative alt of
        None \<Rightarrow> schema_loop p entry pending (c\<lparr>nc_detail := ''malformed entry''\<rparr>) alts
      | Some cf \<Rightarrow>
          let off = schema_offset p cf
          in if off \<ge> 0
             then c\<lparr>nc_state := 1, nc_detail := Hex off @ (if alt = entry then [] else '' ('' @ alt @ '')'')\<rparr>
             else schema_loop p entry (pending \<or> off = - 2) c alts)"

definition CheckSchema :: "string \<Rightarrow> string \<Rightarrow> NeedsProbe \<Rightarrow> NeedCheck" where
  "CheckSchema kind entry p =
     schema_loop p entry False \<lparr>nc_kind = kind, nc_entry = entry, nc_state = 0, nc_detail = ''not found''\<rparr>
       (Split entry (CHR ''|''))"

definition probe_or :: "(string \<Rightarrow> int) option \<Rightarrow> string \<Rightarrow> int" where
  "probe_or f s = (case f of None \<Rightarrow> - 1 | Some g \<Rightarrow> g s)"

definition surface_check :: "NeedsProbe \<Rightarrow> string \<Rightarrow> NeedCheck" where
  "surface_check p s =
     (let st = probe_or (np_surface p) s
      in \<lparr>nc_kind = ''surface'', nc_entry = s, nc_state = st,
          nc_detail = (if st = 1 then ''resolved'' else if st = 0 then ''unresolved on this build'' else ''not checked yet'')\<rparr>)"

definition event_check :: "NeedsProbe \<Rightarrow> string \<Rightarrow> NeedCheck" where
  "event_check p s =
     (let st = probe_or (np_event p) s
      in \<lparr>nc_kind = ''event'', nc_entry = s, nc_state = st,
          nc_detail = (if st = 1 then ''known'' else if st = 0 then ''unknown to this CS2 build'' else ''event manager not ready'')\<rparr>)"

fun comma_list :: "string list \<Rightarrow> string" where
  "comma_list [] = []"
| "comma_list [x] = x"
| "comma_list (x # y # xs) = x @ '', '' @ comma_list (y # xs)"

definition missing_reason :: "string list \<Rightarrow> string \<Rightarrow> string" where
  "missing_reason missing build =
     ''missing '' @ comma_list (take 3 missing)
     @ (if length missing > 3 then '' (+'' @ dec_nat (length missing - 3) @ '' more)'' else [])
     @ '' after CS2 build '' @ (if build = [] then ''?'' else build)"

definition EvaluateNeeds :: "PluginNeeds \<Rightarrow> NeedsProbe \<Rightarrow> NeedsVerdict" where
  "EvaluateNeeds needs probe =
     (let su = map (surface_check probe) (pn_surface needs);
          sc = map (\<lambda>s. CheckSchema ''schema'' s probe) (pn_schema needs);
          so = map (\<lambda>s. CheckSchema ''schema_optional'' s probe) (pn_schemaOptional needs);
          ev = map (event_check probe) (pn_events needs);
          gone = (\<lambda>cs. map nc_entry (filter (\<lambda>c. nc_state c = 0) cs));
          missing = gone su @ gone sc
      in \<lparr>nv_load = (missing = []),
          nv_reason = (if missing = [] then [] else missing_reason missing (np_cs2Build probe)),
          nv_checks = su @ sc @ so @ ev,
          nv_warnings = map (\<lambda>s. ''optional schema field '' @ s @ '' not found'') (gone so)
                        @ map (\<lambda>e. ''game event '' @ e @ '' unknown to this CS2 build'') (gone ev)\<rparr>)"

definition NeedsDisabledLine :: "string \<Rightarrow> string \<Rightarrow> string" where
  "NeedsDisabledLine plugin reason = ''plugin['' @ plugin @ ''] disabled: '' @ reason"

section \<open>Lemmas\<close>

text \<open>The fields an entry names: the parts between bars, without blanks, that have a class and a field.\<close>

definition schema_fields :: "string \<Rightarrow> (string \<times> string) list" where
  "schema_fields entry = List.map_filter alternative (Split entry (CHR ''|''))"

lemma map_filter_Cons: "List.map_filter f (x # xs) = (case f x of None \<Rightarrow> List.map_filter f xs | Some y \<Rightarrow> y # List.map_filter f xs)"
  by (simp add: List.map_filter_def split: option.split)

lemma schema_loop_entry: "nc_entry (schema_loop p entry pend c alts) = nc_entry c"
  by (induction p entry pend c alts rule: schema_loop.induct) (auto simp: Let_def split: option.split)

lemma schema_loop_state:
  assumes "nc_state c = 0"
  shows "nc_state (schema_loop p entry pend c alts) =
    (if \<exists>cf \<in> set (List.map_filter alternative alts). schema_offset p cf \<ge> 0 then 1
     else if pend \<or> (\<exists>cf \<in> set (List.map_filter alternative alts). schema_offset p cf = - 2) then - 1 else 0)"
  using assms
proof (induction p entry pend c alts rule: schema_loop.induct)
  case (2 p entry pend c alt alts)
  then show ?case by (cases "alternative alt") (auto simp: map_filter_Cons Let_def)
qed (simp add: List.map_filter_def)

lemma CheckSchema_state:
  "nc_state (CheckSchema kind entry p) =
    (if \<exists>cf \<in> set (schema_fields entry). schema_offset p cf \<ge> 0 then 1
     else if \<exists>cf \<in> set (schema_fields entry). schema_offset p cf = - 2 then - 1 else 0)"
  by (simp add: CheckSchema_def schema_loop_state schema_fields_def)

lemma CheckSchema_entry [simp]: "nc_entry (CheckSchema kind entry p) = entry"
  by (simp add: CheckSchema_def schema_loop_entry)

lemma check_sel [simp]:
  "nc_entry (surface_check p s) = s" "nc_state (surface_check p s) = probe_or (np_surface p) s"
  "nc_entry (event_check p s) = s" "nc_state (event_check p s) = probe_or (np_event p) s"
  by (simp_all add: surface_check_def event_check_def Let_def)

section \<open>Properties\<close>

definition schema_missing :: "NeedsProbe \<Rightarrow> string \<Rightarrow> bool" where
  "schema_missing p entry \<longleftrightarrow> (\<forall>cf \<in> set (schema_fields entry). schema_offset p cf < 0 \<and> schema_offset p cf \<noteq> - 2)"

lemma schema_missing_iff: "nc_state (CheckSchema kind entry p) = 0 \<longleftrightarrow> schema_missing p entry"
proof -
  have "x < 0 \<and> x \<noteq> - 2 \<longleftrightarrow> \<not> 0 \<le> x \<and> x \<noteq> - 2" for x :: int by auto
  then show ?thesis by (auto simp: CheckSchema_state schema_missing_def)
qed

lemma gone_entries:
  "map nc_entry (filter (\<lambda>c. nc_state c = 0) (map (\<lambda>s. CheckSchema k s p) xs)) = filter (schema_missing p) xs"
  "map nc_entry (filter (\<lambda>c. nc_state c = 0) (map (surface_check p) xs)) = filter (\<lambda>s. probe_or (np_surface p) s = 0) xs"
  by (induction xs) (simp_all add: schema_missing_iff)

lemma comma_list_first: "xs \<noteq> [] \<Longrightarrow> \<exists>rest. comma_list xs = hd xs @ rest"
  by (cases xs rule: comma_list.cases) auto

text \<open>
  C26: The core refuses a plugin exactly when something it needs is known to be missing: an engine entry
  that did not resolve, or a required schema entry none of whose fields was found or may still be. What
  cannot be checked yet, optional fields and events never keep a plugin from loading; the refusal names
  the build, and its first words name an entry that is missing.
\<close>

theorem needs_load_iff:
  "(nv_load (EvaluateNeeds n p) \<longleftrightarrow>
      (\<forall>s \<in> set (pn_surface n). probe_or (np_surface p) s \<noteq> 0) \<and> (\<forall>e \<in> set (pn_schema n). \<not> schema_missing p e))
   \<and> (\<not> nv_load (EvaluateNeeds n p) \<longrightarrow>
      (\<exists>m rest. nv_reason (EvaluateNeeds n p) = ''missing '' @ m @ rest @ '' after CS2 build '' @ (if np_cs2Build p = [] then ''?'' else np_cs2Build p)
        \<and> (m \<in> set (pn_surface n) \<and> probe_or (np_surface p) m = 0 \<or> m \<in> set (pn_schema n) \<and> schema_missing p m)))"
proof -
  define gone where "gone = filter (\<lambda>s. probe_or (np_surface p) s = 0) (pn_surface n) @ filter (schema_missing p) (pn_schema n)"
  have load: "nv_load (EvaluateNeeds n p) \<longleftrightarrow> gone = []"
    and reason: "nv_reason (EvaluateNeeds n p) = (if gone = [] then [] else missing_reason gone (np_cs2Build p))"
    by (simp_all only: EvaluateNeeds_def Let_def gone_entries gone_def NeedsVerdict.select_convs)
  have "\<exists>m rest. nv_reason (EvaluateNeeds n p) = ''missing '' @ m @ rest @ '' after CS2 build '' @ (if np_cs2Build p = [] then ''?'' else np_cs2Build p)
        \<and> m \<in> set gone" if ne: "gone \<noteq> []"
  proof -
    obtain rest where "comma_list (take 3 gone) = hd gone @ rest"
      using ne comma_list_first [of "take 3 gone"] by (cases gone) auto
    then show ?thesis
      using ne by (intro exI [of _ "hd gone"] exI [of _ "rest @ (if length gone > 3 then '' (+'' @ dec_nat (length gone - 3) @ '' more)'' else [])"])
        (simp only: reason missing_reason_def if_False append_assoc hd_in_set simp_thms)
  qed
  then show ?thesis unfolding load by (auto simp: gone_def filter_empty_conv)
qed

definition sample_needs :: PluginNeeds where
  "sample_needs = \<lparr>pn_plugin = ''tv'', pn_surface = [''Host_Say''], pn_schema = [], pn_schemaOptional = [], pn_events = []\<rparr>"

definition sample_probe :: NeedsProbe where
  "sample_probe = \<lparr>np_surface = Some (\<lambda>_. 0), np_schema = None, np_event = None, np_cs2Build = ''14080''\<rparr>"

lemma needs_load_iff_witness:
  "\<not> nv_load (EvaluateNeeds sample_needs sample_probe)
   \<and> (\<exists>m rest. nv_reason (EvaluateNeeds sample_needs sample_probe) = ''missing '' @ m @ rest @ '' after CS2 build '' @ ''14080'')"
proof -
  have "\<not> nv_load (EvaluateNeeds sample_needs sample_probe)"
    by (simp add: EvaluateNeeds_def sample_needs_def sample_probe_def probe_or_def)
  then show ?thesis using needs_load_iff [of sample_needs sample_probe] by (simp add: sample_probe_def) blast
qed

text \<open>The manifest as the build writes it.\<close>

definition needs_json :: "PluginNeeds \<Rightarrow> json" where
  "needs_json n =
     JObject [(''plugin'', JString (pn_plugin n)), (''surface'', JArray (map JString (pn_surface n))),
              (''schema'', JArray (map JString (pn_schema n))), (''schema_optional'', JArray (map JString (pn_schemaOptional n))),
              (''events'', JArray (map JString (pn_events n)))]"

lemma StringList_strings:
  "mini_get doc key = Some (MArray (map MString xs)) \<Longrightarrow> [] \<notin> set xs \<Longrightarrow> StringList doc key = Inr xs"
  by (auto simp: StringList_def list_all_iff comp_def intro!: map_idI)

text \<open>
  A manifest with non-empty entries is read back as it was written.
\<close>

theorem needs_roundtrip:
  assumes "[] \<notin> set (pn_surface n @ pn_schema n @ pn_schemaOptional n @ pn_events n)"
  shows "ParseNeeds (Dump (needs_json n)) = Inr n"
proof -
  have "json_ok (needs_json n) (Suc max_depth)" by (simp add: needs_json_def max_depth_def list_all_iff)
  then have doc: "mini_Parse (Dump (needs_json n)) = Inr (mini_of (needs_json n))" by (rule mini_Parse_Dump)
  have get: "mini_get (mini_of (needs_json n)) ''surface'' = Some (MArray (map MString (pn_surface n)))"
    "mini_get (mini_of (needs_json n)) ''schema'' = Some (MArray (map MString (pn_schema n)))"
    "mini_get (mini_of (needs_json n)) ''schema_optional'' = Some (MArray (map MString (pn_schemaOptional n)))"
    "mini_get (mini_of (needs_json n)) ''events'' = Some (MArray (map MString (pn_events n)))"
    "mini_get (mini_of (needs_json n)) ''plugin'' = Some (MString (pn_plugin n))"
    by (simp_all add: needs_json_def)
  have "mini_IsObject (Some (mini_of (needs_json n)))" by (simp add: needs_json_def)
  then show ?thesis
    using assms StringList_strings [OF get(1)] StringList_strings [OF get(2)] StringList_strings [OF get(3)] StringList_strings [OF get(4)]
    by (simp add: ParseNeeds_def doc get(5))
qed

lemma needs_roundtrip_witness: "ParseNeeds (Dump (needs_json sample_needs)) = Inr sample_needs"
  by (rule needs_roundtrip) (simp add: sample_needs_def)

end
