(* ===== verification/Load_Order.thy ===== *)
theory Load_Order
  imports Text_Input
begin

text \<open>
  The load order next to Metamod (core/src/readyup/load_order.h and load_order.cpp): the search paths of
  a gameinfo.gi, what is wrong with their order, and which of two copies of the library may run.
\<close>

section \<open>Search paths\<close>

fun Tokens_loop :: "string \<Rightarrow> string \<Rightarrow> string list" where
  "Tokens_loop cur [] = (if cur = [] then [] else [cur])"
| "Tokens_loop cur (c # cs) =
     (if isspace c then (if cur = [] then Tokens_loop [] cs else cur # Tokens_loop [] cs) else Tokens_loop (cur @ [c]) cs)"

definition Tokens :: "string \<Rightarrow> string list" where
  "Tokens line = Tokens_loop [] line"

definition Unquote :: "string \<Rightarrow> string" where
  "Unquote s =
     (if length s \<ge> 2 \<and> hd s = quote_char \<and> last s = quote_char then take (length s - 2) (drop 1 s) else s)"

record GameSearchPaths =
  gs_readyup :: int
  gs_metamod :: int
  gs_csgo :: int
  gs_readyup_count :: int

record PathScan =
  sc_out :: GameSearchPaths
  sc_sawHeader :: bool
  sc_depth :: int
  sc_gameIndex :: int

definition scan_start :: PathScan where
  "scan_start =
     \<lparr>sc_out = \<lparr>gs_readyup = - 1, gs_metamod = - 1, gs_csgo = - 1, gs_readyup_count = 0\<rparr>,
      sc_sawHeader = False, sc_depth = 0, sc_gameIndex = 0\<rparr>"

definition strip_comment :: "string \<Rightarrow> string" where
  "strip_comment line = (case find_sub ''//'' line of None \<Rightarrow> line | Some i \<Rightarrow> take i line)"

definition note_game :: "string \<Rightarrow> int \<Rightarrow> GameSearchPaths \<Rightarrow> GameSearchPaths" where
  "note_game val i g =
     (if val = ''csgo/readyup''
      then g\<lparr>gs_readyup := (if gs_readyup g < 0 then i else gs_readyup g), gs_readyup_count := gs_readyup_count g + 1\<rparr>
      else if val = ''csgo/addons/metamod'' then g\<lparr>gs_metamod := (if gs_metamod g < 0 then i else gs_metamod g)\<rparr>
      else if val = ''csgo'' then g\<lparr>gs_csgo := (if gs_csgo g < 0 then i else gs_csgo g)\<rparr>
      else g)"

definition game_line :: "string \<Rightarrow> PathScan \<Rightarrow> PathScan" where
  "game_line line s =
     (let tok = Tokens line
      in if length tok < 2 then s
         else if Unquote (tok ! 0) \<notin> {''Game'', ''game'', ''GAME''} then s
         else s\<lparr>sc_out := note_game (Unquote (tok ! 1)) (sc_gameIndex s) (sc_out s), sc_gameIndex := sc_gameIndex s + 1\<rparr>)"

text \<open>One line, without its comment and the blanks around it; \<open>Inl\<close> ends the loop.\<close>

definition scan_line :: "string \<Rightarrow> PathScan \<Rightarrow> GameSearchPaths + PathScan" where
  "scan_line raw s =
     (let line = Trim (strip_comment raw)
      in if line = [] then Inr s
         else if sc_depth s = 0 then
           (if \<not> sc_sawHeader s then Inr (s\<lparr>sc_sawHeader := (Unquote line = ''SearchPaths'')\<rparr>)
            else if hd line = CHR ''{'' then Inr (s\<lparr>sc_depth := 1\<rparr>)
            else Inr (s\<lparr>sc_sawHeader := False\<rparr>))
         else if hd line = CHR ''{'' then Inr (s\<lparr>sc_depth := sc_depth s + 1\<rparr>)
         else if hd line = CHR ''}'' then
           (if sc_depth s - 1 = 0 then Inl (sc_out s) else Inr (s\<lparr>sc_depth := sc_depth s - 1\<rparr>))
         else if sc_depth s \<noteq> 1 then Inr s
         else Inr (game_line line s))"

fun scan_lines :: "PathScan \<Rightarrow> string list \<Rightarrow> GameSearchPaths" where
  "scan_lines s [] = sc_out s"
| "scan_lines s (l # ls) = (case scan_line l s of Inl out \<Rightarrow> out | Inr s1 \<Rightarrow> scan_lines s1 ls)"

definition ParseGameSearchPaths :: "string \<Rightarrow> GameSearchPaths" where
  "ParseGameSearchPaths text = scan_lines scan_start (getlines newline_char text)"

section \<open>Problems\<close>

definition twice_problem :: "int \<Rightarrow> string" where
  "twice_problem n = ''csgo/readyup is listed '' @ to_string n @ '' times in gameinfo.gi; keep exactly one line''"

definition below_problem :: string where
  "below_problem =
     ''Metamod (Game csgo/addons/metamod) is listed BELOW csgo/readyup in gameinfo.gi: the engine ''
     @ ''loads Ready Up first, so Metamod and everything it loads (CounterStrikeSharp, Metamod ''
     @ ''plugins) never start. Put Ready Up'' @ [CHR 0x27] @ ''s line directly below Metamod'' @ [CHR 0x27] @ ''s''"

definition DescribeLoadOrderProblem :: "GameSearchPaths \<Rightarrow> string" where
  "DescribeLoadOrderProblem p =
     (if gs_readyup p < 0 then []
      else if gs_readyup_count p > 1 then twice_problem (gs_readyup_count p)
      else if (gs_metamod p \<ge> 0 \<and> (gs_csgo p < 0 \<or> gs_metamod p < gs_csgo p)) \<and> gs_metamod p > gs_readyup p then below_problem
      else [])"

text \<open>The marker is \<open><pid> <path>\<close>; the result is whether this copy may run, and the path of the other one when not.\<close>

definition ShimInstanceMayRun :: "string \<Rightarrow> int \<Rightarrow> string \<Rightarrow> bool \<times> string option" where
  "ShimInstanceMayRun marker pid ourPath =
     (if marker = [] then (True, None)
      else
        let (markerPid, rest) = strtol marker
        in if rest = c_str marker \<or> markerPid \<noteq> pid then (True, None)
           else
             let path = (case rest of [] \<Rightarrow> [] | c # cs \<Rightarrow> if c = space_char then cs else [])
             in if path = ourPath then (True, None) else (False, Some path))"

definition shim_marker :: "int \<Rightarrow> string \<Rightarrow> string" where
  "shim_marker pid path = to_string pid @ '' '' @ path"

section \<open>Lemmas\<close>

text \<open>The values of the Game lines of a block, as the scan meets them.\<close>

definition note_games :: "string list \<Rightarrow> GameSearchPaths \<times> int \<Rightarrow> GameSearchPaths \<times> int" where
  "note_games vals = fold (\<lambda>v (g, i). (note_game v i g, i + 1)) vals"

definition first_index :: "string \<Rightarrow> string list \<Rightarrow> int" where
  "first_index v vals = (if v \<in> set vals then int (length (takeWhile (\<lambda>x. x \<noteq> v) vals)) else - 1)"

definition paths_of :: "string list \<Rightarrow> GameSearchPaths" where
  "paths_of vals =
     \<lparr>gs_readyup = first_index ''csgo/readyup'' vals, gs_metamod = first_index ''csgo/addons/metamod'' vals,
      gs_csgo = first_index ''csgo'' vals, gs_readyup_count = int (count_list vals ''csgo/readyup'')\<rparr>"

lemma first_index_snoc:
  "first_index v (vals @ [x]) = (if first_index v vals < 0 \<and> x = v then int (length vals) else first_index v vals)"
  by (auto simp: first_index_def takeWhile_append takeWhile_eq_all_conv)

lemma note_games_paths:
  "note_games vals (sc_out scan_start, 0) = (paths_of vals, int (length vals))"
proof (induction vals rule: rev_induct)
  case Nil
  show ?case by (simp add: note_games_def paths_of_def first_index_def scan_start_def)
next
  case (snoc v vals)
  have "note_games (vals @ [v]) (sc_out scan_start, 0) = (note_game v (int (length vals)) (paths_of vals), int (length vals) + 1)"
    using snoc by (simp add: note_games_def)
  also have "note_game v (int (length vals)) (paths_of vals) = paths_of (vals @ [v])"
    by (simp add: note_game_def paths_of_def first_index_snoc count_list_append)
  finally show ?case by simp
qed

definition clean :: "string \<Rightarrow> string" where
  "clean raw = Trim (strip_comment raw)"

definition plain_line :: "string \<Rightarrow> bool" where
  "plain_line raw \<longleftrightarrow> clean raw = [] \<or> hd (clean raw) \<notin> {CHR ''{'', CHR ''}''}"

definition game_value :: "string \<Rightarrow> string option" where
  "game_value raw =
     (let tok = Tokens (clean raw)
      in if length tok < 2 \<or> Unquote (tok ! 0) \<notin> {''Game'', ''game'', ''GAME''} then None else Some (Unquote (tok ! 1)))"

definition game_values :: "string list \<Rightarrow> string list" where
  "game_values body = concat (map (\<lambda>l. case game_value l of None \<Rightarrow> [] | Some v \<Rightarrow> [v]) body)"

lemma scan_body:
  assumes "list_all plain_line body" "sc_depth s = 1"
  shows "scan_lines s (body @ rest) =
    scan_lines (let (g, i) = note_games (game_values body) (sc_out s, sc_gameIndex s) in s\<lparr>sc_out := g, sc_gameIndex := i\<rparr>) rest"
  using assms
proof (induction body arbitrary: s)
  case (Cons l body)
  let ?s = "case game_value l of None \<Rightarrow> s | Some v \<Rightarrow> s\<lparr>sc_out := note_game v (sc_gameIndex s) (sc_out s), sc_gameIndex := sc_gameIndex s + 1\<rparr>"
  have "game_line (clean l) s = ?s" by (simp add: game_line_def game_value_def Let_def)
  moreover have "game_value l = None" if "clean l = []" using that by (simp add: game_value_def Tokens_def)
  ultimately have "scan_line l s = Inr ?s"
    using Cons.prems unfolding scan_line_def clean_def [symmetric] Let_def by (auto simp: plain_line_def)
  moreover have "sc_depth ?s = 1" using Cons.prems(2) by (simp split: option.split)
  ultimately show ?case
    using Cons.IH [of ?s] Cons.prems(1) by (cases "game_value l") (simp_all add: game_values_def note_games_def)
qed (simp add: game_values_def note_games_def)

lemma scan_before:
  assumes "\<And>l. l \<in> set pre \<Longrightarrow> Unquote (clean l) \<noteq> ''SearchPaths''"
  shows "scan_lines scan_start (pre @ rest) = scan_lines scan_start rest"
  using assms
proof (induction pre)
  case (Cons l pre)
  have "scan_line l scan_start = Inr scan_start"
    using Cons.prems [of l] unfolding scan_line_def clean_def [symmetric] Let_def by (simp add: scan_start_def)
  with Cons show ?case by simp
qed simp

lemma scan_block:
  assumes "\<And>l. l \<in> set pre \<Longrightarrow> Unquote (clean l) \<noteq> ''SearchPaths''" and h: "Unquote (clean header) = ''SearchPaths''"
    and o: "take 1 (clean opening) = ''{''" and b: "list_all plain_line body" and c: "take 1 (clean closing) = ''}''"
  shows "scan_lines scan_start (pre @ header # opening # body @ closing # post) = paths_of (game_values body)"
proof -
  let ?s = "scan_start\<lparr>sc_sawHeader := True, sc_depth := 1\<rparr>"
  have "clean header \<noteq> []" using h by (auto simp: Unquote_def)
  then have "scan_line header scan_start = Inr (scan_start\<lparr>sc_sawHeader := True\<rparr>)"
    using h unfolding scan_line_def clean_def [symmetric] by (simp add: scan_start_def)
  moreover have "scan_line opening (scan_start\<lparr>sc_sawHeader := True\<rparr>) = Inr ?s"
    using o unfolding scan_line_def clean_def [symmetric] by (cases "clean opening") (simp_all add: scan_start_def)
  ultimately have "scan_lines scan_start (pre @ header # opening # body @ closing # post) = scan_lines ?s (body @ closing # post)"
    by (simp only: scan_before [OF assms(1)] scan_lines.simps sum.case)
  also have "\<dots> = scan_lines (?s\<lparr>sc_out := paths_of (game_values body), sc_gameIndex := int (length (game_values body))\<rparr>) (closing # post)"
    using note_games_paths [of "game_values body"] by (subst scan_body [OF b]) (simp_all add: scan_start_def)
  also have "\<dots> = paths_of (game_values body)"
    using c unfolding scan_lines.simps scan_line_def clean_def [symmetric] by (cases "clean closing") simp_all
  finally show ?thesis .
qed

text \<open>Which of two values comes first.\<close>

lemma first_index_less:
  "0 \<le> first_index v vals \<Longrightarrow> (first_index w vals < 0 \<or> first_index v vals < first_index w vals) \<longleftrightarrow>
   (v \<noteq> w \<and> (\<exists>a b. vals = a @ v # b \<and> v \<notin> set a \<and> w \<notin> set a))"
proof -
  assume "0 \<le> first_index v vals"
  then have v: "v \<in> set vals" by (auto simp: first_index_def split: if_splits)
  then obtain a b where ab: "vals = a @ v # b" "v \<notin> set a" by (meson split_list_first)
  then have fv: "first_index v vals = int (length a)" by (auto simp: first_index_def takeWhile_append takeWhile_eq_all_conv)
  have "(first_index w vals < 0 \<or> first_index v vals < first_index w vals) \<longleftrightarrow> v \<noteq> w \<and> w \<notin> set a"
  proof (cases "w \<in> set a")
    case True
    then have "takeWhile (\<lambda>x. x \<noteq> w) a \<noteq> a" by (auto simp: takeWhile_eq_all_conv)
    then have "length (takeWhile (\<lambda>x. x \<noteq> w) a) < length a"
      by (metis length_takeWhile_le linorder_not_less nat_less_le take_all takeWhile_eq_take)
    with True show ?thesis by (auto simp: fv) (auto simp: first_index_def ab takeWhile_append split: if_splits)
  next
    case False
    then show ?thesis by (cases "v = w") (auto simp: fv, auto simp: first_index_def ab takeWhile_append takeWhile_eq_all_conv split: if_splits)
  qed
  moreover have "a' = a" if "vals = a' @ v # b'" "v \<notin> set a'" for a' b'
  proof -
    have "takeWhile (\<lambda>x. x \<noteq> v) (c @ v # d) = c" if "v \<notin> set c" for c d using that by (induction c) auto
    from this [OF that(2), of b'] this [OF ab(2), of b] show ?thesis using that(1) ab(1) by simp
  qed
  ultimately show ?thesis using ab by blast
qed

section \<open>Properties\<close>

text \<open>
  The warning about the search paths is right: for a gameinfo.gi whose first SearchPaths block has
  these Game lines, there is a warning exactly when Ready Up is listed more than once, or Metamod comes
  after it and before the game itself, so that the engine would take Ready Up first.
\<close>

theorem load_order_warned:
  assumes lines: "getlines newline_char text = pre @ header # opening # body @ closing # post"
    and "\<forall>l \<in> set pre. Unquote (clean l) \<noteq> ''SearchPaths''" "Unquote (clean header) = ''SearchPaths''"
    and "take 1 (clean opening) = ''{''" "list_all plain_line body" "take 1 (clean closing) = ''}''"
  defines "vals \<equiv> game_values body"
  shows "DescribeLoadOrderProblem (ParseGameSearchPaths text) \<noteq> [] \<longleftrightarrow>
    count_list vals ''csgo/readyup'' > 1
    \<or> (\<exists>a b c. vals = a @ ''csgo/readyup'' # b @ ''csgo/addons/metamod'' # c
        \<and> ''csgo/addons/metamod'' \<notin> set (a @ b) \<and> ''csgo'' \<notin> set (a @ b))"
proof -
  let ?r = "''csgo/readyup''" and ?m = "''csgo/addons/metamod''" and ?c = "''csgo''"
  have p: "ParseGameSearchPaths text = paths_of vals"
    unfolding ParseGameSearchPaths_def lines vals_def using assms(2-6) by (intro scan_block) auto
  have neg: "first_index v vals < 0 \<longleftrightarrow> v \<notin> set vals" for v by (simp add: first_index_def)
  have cnt: "count_list vals ?r > 1 \<Longrightarrow> ?r \<in> set vals" by (metis count_notin less_numeral_extra(3) not_one_less_zero)
  have texts: "twice_problem n \<noteq> []" "below_problem \<noteq> []" for n by (simp_all add: twice_problem_def below_problem_def)
  have order: "0 \<le> first_index ?m vals \<and> (first_index ?c vals < 0 \<or> first_index ?m vals < first_index ?c vals)
      \<and> 0 \<le> first_index ?r vals \<and> first_index ?r vals < first_index ?m vals \<longleftrightarrow>
    (\<exists>a b c. vals = a @ ?r # b @ ?m # c \<and> ?m \<notin> set (a @ b) \<and> ?c \<notin> set (a @ b))"
    (is "?L \<longleftrightarrow> ?R")
  proof
    assume L: ?L
    with first_index_less [of ?m vals ?c] obtain d c where d: "vals = d @ ?m # c" "?m \<notin> set d" "?c \<notin> set d" by auto
    from L first_index_less [of ?r vals ?m] obtain a e where a: "vals = a @ ?r # e" "?m \<notin> set a" by auto
    have "?r \<in> set d"
    proof (rule ccontr)
      assume "?r \<notin> set d"
      then have "length d < first_index ?r vals \<or> first_index ?r vals < 0" by (auto simp: d first_index_def takeWhile_append takeWhile_eq_all_conv)
      moreover have "first_index ?m vals = int (length d)" using d by (auto simp: first_index_def takeWhile_append takeWhile_eq_all_conv)
      ultimately show False using L by auto
    qed
    then obtain a' b where "d = a' @ ?r # b" by (meson split_list)
    with d show ?R by (intro exI [of _ a'] exI [of _ b] exI [of _ c]) auto
  next
    assume ?R
    then obtain a b c where R: "vals = a @ ?r # b @ ?m # c" "?m \<notin> set (a @ b)" "?c \<notin> set (a @ b)" by blast
    have m: "first_index ?m vals = int (length (a @ ?r # b))"
      using R by (auto simp: first_index_def takeWhile_append takeWhile_eq_all_conv)
    have r: "0 \<le> first_index ?r vals" "first_index ?r vals \<le> int (length a)"
      using R(1) length_takeWhile_le [of "\<lambda>x. x \<noteq> ?r" a] by (auto simp: first_index_def takeWhile_append)
    have "vals = (a @ ?r # b) @ ?m # c \<and> ?m \<notin> set (a @ ?r # b) \<and> ?c \<notin> set (a @ ?r # b)" using R by auto
    moreover have "0 \<le> first_index ?m vals" "?m \<noteq> ?c" by (simp_all add: m)
    ultimately have "first_index ?c vals < 0 \<or> first_index ?m vals < first_index ?c vals"
      using first_index_less [of ?m vals ?c] by blast
    with m r show ?L by auto
  qed
  show ?thesis
    unfolding p using cnt neg [of ?r] order texts by (auto simp: DescribeLoadOrderProblem_def paths_of_def)
qed

lemma load_order_warned_witness:
  "DescribeLoadOrderProblem (ParseGameSearchPaths (concat (map (\<lambda>l. l @ [newline_char])
     [''SearchPaths'', ''{'', ''Game csgo/readyup'', ''Game csgo/addons/metamod'', ''Game csgo'', ''}'']))) \<noteq> []"
proof -
  let ?ls = "[''SearchPaths'', ''{'', ''Game csgo/readyup'', ''Game csgo/addons/metamod'', ''Game csgo'', ''}'']"
  have lines: "getlines newline_char (concat (map (\<lambda>l. l @ [newline_char]) ?ls)) = [] @ ''SearchPaths'' # ''{'' # [''Game csgo/readyup'', ''Game csgo/addons/metamod'', ''Game csgo''] @ ''}'' # []"
    by code_simp
  have vals: "game_values [''Game csgo/readyup'', ''Game csgo/addons/metamod'', ''Game csgo''] = [''csgo/readyup'', ''csgo/addons/metamod'', ''csgo'']"
    by code_simp
  have "DescribeLoadOrderProblem (ParseGameSearchPaths (concat (map (\<lambda>l. l @ [newline_char]) ?ls))) \<noteq> [] \<longleftrightarrow>
    count_list [''csgo/readyup'', ''csgo/addons/metamod'', ''csgo''] ''csgo/readyup'' > 1
    \<or> (\<exists>a b c. [''csgo/readyup'', ''csgo/addons/metamod'', ''csgo''] = a @ ''csgo/readyup'' # b @ ''csgo/addons/metamod'' # c
        \<and> ''csgo/addons/metamod'' \<notin> set (a @ b) \<and> ''csgo'' \<notin> set (a @ b))"
    unfolding vals [symmetric] by (rule load_order_warned [OF lines]) (simp_all, code_simp+)
  moreover have "[''csgo/readyup'', ''csgo/addons/metamod'', ''csgo''] = [] @ ''csgo/readyup'' # [] @ ''csgo/addons/metamod'' # [''csgo'']" by simp
  ultimately show ?thesis by (metis append_Nil empty_iff empty_set)
qed

lemma strtol_marker:
  assumes "0 < pid" "pid < 2 ^ 63" "CHR 0x00 \<notin> set path"
  shows "strtol (shim_marker pid path) = (pid, CHR '' '' # path)" "c_str (shim_marker pid path) = shim_marker pid path"
proof -
  let ?ds = "dec_nat (nat pid)"
  have m: "shim_marker pid path = ?ds @ CHR '' '' # path" using assms(1) by (simp add: shim_marker_def to_string_def)
  have ds: "list_all isdigit ?ds" by simp
  then have "CHR 0x00 \<notin> set ?ds" using digit_not_nul by (auto simp: list_all_iff)
  then show nul: "c_str (shim_marker pid path) = shim_marker pid path"
    using assms(3) unfolding m by (intro c_str_no_nul) simp
  obtain c cs where c: "?ds = c # cs" by (cases ?ds) auto
  with ds have "isdigit c" by simp
  then have sign: "take_sign (dropWhile isspace (?ds @ CHR '' '' # path)) = (False, ?ds @ CHR '' '' # path)"
    using digit_not_sign [of c] by (simp add: c take_sign_def)
  have cut: "takeWhile isdigit (?ds @ CHR '' '' # path) = ?ds" "dropWhile isdigit (?ds @ CHR '' '' # path) = CHR '' '' # path"
    using ds by (simp_all add: takeWhile_append dropWhile_append list_all_iff isdigit_def)
  show "strtol (shim_marker pid path) = (pid, CHR '' '' # path)"
    using assms(1,2) unfolding m strtol_def nul [unfolded m] Let_def sign split_conv cut by (simp add: clamp_def)
qed

text \<open>
  Of two copies of the library in a process only the first runs: with the marker the first one left,
  a copy at another path is refused and learns that path, while the same copy and a copy in another
  process go on.
\<close>

theorem one_shim_runs:
  assumes "0 < pid" "pid < 2 ^ 63" "CHR 0x00 \<notin> set path"
  shows "ShimInstanceMayRun (shim_marker pid path) pid' ourPath =
    (if pid' = pid \<and> ourPath \<noteq> path then (False, Some path) else (True, None))"
proof -
  have "shim_marker pid path \<noteq> []" "CHR '' '' # path \<noteq> shim_marker pid path"
    by (auto simp: shim_marker_def to_string_def dest: arg_cong [of _ _ length])
  then show ?thesis by (auto simp: ShimInstanceMayRun_def strtol_marker [OF assms])
qed

lemma one_shim_runs_witness:
  "ShimInstanceMayRun (shim_marker 4242 ''/a/libserver.so'') 4242 ''/b/libserver.so'' = (False, Some ''/a/libserver.so'')"
  using one_shim_runs [of 4242 "''/a/libserver.so''" 4242 "''/b/libserver.so''"] by simp

end
