(* ===== verification/Name_Match.thy ===== *)
theory Name_Match
  imports Text_Input
begin

text \<open>
  Text that players and admins type, as several plugins read it: lists of Steam ids
  (plugins/whitelist/whitelist_rules.cpp, plugins/midas/midas_rules.cpp), and the edit distance behind the
  lookup of player and map names (plugins/midas/midas_rules.cpp, plugins/essentials/essentials_rules.cpp).
  The distance is computed with one row of the table; it is proved to be the least number of edits.
\<close>

section \<open>Lists of ids\<close>

text \<open>The tokens of a text: \<open>cur\<close> is the one being read, an empty one is none.\<close>

fun tokens_by :: "(char \<Rightarrow> bool) \<Rightarrow> string \<Rightarrow> string \<Rightarrow> string list" where
  "tokens_by sep cur [] = (if cur = [] then [] else [cur])"
| "tokens_by sep cur (c # s) =
     (if sep c then (if cur = [] then [] else [cur]) @ tokens_by sep [] s else tokens_by sep (cur @ [c]) s)"

definition ParseSteamId64 :: "string \<Rightarrow> u64" where
  "ParseSteamId64 s =
     (if length s \<noteq> 17 \<or> \<not> starts_with ''7656119'' s then 0
      else if \<not> list_all isdigit s then 0
      else strtoull s)"

text \<open>A key of a saved file as an id: the whole text is a number that is not 0.\<close>

definition key_id :: "string \<Rightarrow> u64 option" where
  "key_id s =
     (let t = c_str s; u = snd (take_sign (dropWhile isspace t)); rest = (if takeWhile isdigit u = [] then t else dropWhile isdigit u)
      in if rest \<noteq> [] \<or> strtoull s = 0 then None else Some (strtoull s))"

text \<open>The ids that have 17 digits and start with 7656119.\<close>

definition steam64 :: "u64 \<Rightarrow> bool" where
  "steam64 w \<longleftrightarrow> 76561190000000000 \<le> unat w \<and> unat w < 76561200000000000"

lemma tokens_by_word: "list_all (\<lambda>c. \<not> sep c) w \<Longrightarrow> tokens_by sep cur (w @ s) = tokens_by sep (cur @ w) s"
  by (induction w arbitrary: cur) auto

lemma tokens_by_only: "w \<noteq> [] \<Longrightarrow> list_all (\<lambda>c. \<not> sep c) w \<Longrightarrow> tokens_by sep [] w = [w]"
  using tokens_by_word [of sep w "[]" "[]"] by simp

lemma tokens_by_clean: "t \<in> set (tokens_by sep cur s) \<Longrightarrow> list_all (\<lambda>c. \<not> sep c) cur \<Longrightarrow> t \<noteq> [] \<and> list_all (\<lambda>c. \<not> sep c) t"
  by (induction sep cur s rule: tokens_by.induct) (auto split: if_splits)

lemma dec_nat_split: "0 < n div 10 ^ k \<Longrightarrow> \<exists>t. length t = k \<and> dec_nat n = dec_nat (n div 10 ^ k) @ t"
proof (induction k)
  case (Suc k)
  have d: "n div 10 ^ Suc k = n div 10 ^ k div 10" by (simp only: power_Suc2 div_mult2_eq)
  with Suc.prems have "10 \<le> n div 10 ^ k" by linarith
  then have "dec_nat (n div 10 ^ k) = dec_nat (n div 10 ^ Suc k) @ [char_of (48 + n div 10 ^ k mod 10)]"
    unfolding d by (subst dec_nat.simps) simp
  moreover obtain t where "length t = k" "dec_nat n = dec_nat (n div 10 ^ k) @ t" using Suc \<open>10 \<le> n div 10 ^ k\<close> by auto
  ultimately show ?case by (intro exI [of _ "char_of (48 + n div 10 ^ k mod 10) # t"]) simp
qed simp

lemma dec_value_prefix: "dec_value ''7656119'' = 7656119"
  by (simp add: dec_value_def)

lemma dec_nat_prefix: "dec_nat 7656119 = ''7656119''"
proof -
  have "char_of (55 :: nat) = CHR ''7''" "char_of (54 :: nat) = CHR ''6''" "char_of (53 :: nat) = CHR ''5''"
    "char_of (49 :: nat) = CHR ''1''" "char_of (57 :: nat) = CHR ''9''" by code_simp+
  then show ?thesis by (simp add: dec_nat.simps)
qed

lemma steam64_text:
  assumes "steam64 w"
  shows "length (u64_string w) = 17 \<and> starts_with ''7656119'' (u64_string w)"
proof -
  have q: "unat w div 10 ^ 10 = 7656119" using assms by (intro div_nat_eqI) (simp_all add: steam64_def)
  then obtain t where "length t = 10" "dec_nat (unat w) = dec_nat 7656119 @ t" using dec_nat_split [of "unat w" 10] by auto
  moreover have "dec_nat 7656119 = ''7656119''" by (rule dec_nat_prefix)
  ultimately show ?thesis by (simp add: u64_string_def starts_with_prefix)
qed

lemma list_all_digits_u64 [simp]: "list_all isdigit (u64_string w)"
  by (simp add: u64_string_def)

lemma key_id_text: "w \<noteq> 0 \<Longrightarrow> key_id (u64_string w) = Some w"
proof -
  have d: "IsDigits (u64_string w)" by (simp add: u64_string_def)
  then have "c_str (u64_string w) = u64_string w" "take_sign (dropWhile isspace (u64_string w)) = (False, u64_string w)"
    using c_str_digits take_sign_digits by (auto simp: IsDigits_def)
  then show "w \<noteq> 0 \<Longrightarrow> ?thesis" using d by (simp add: key_id_def Let_def takeWhile_isdigit_all dropWhile_isdigit_all IsDigits_def)
qed

lemma ParseSteamId64_text: "steam64 w \<Longrightarrow> ParseSteamId64 (u64_string w) = w"
  using steam64_text by (simp add: ParseSteamId64_def)

lemma dec_value_less: "list_all isdigit s \<Longrightarrow> dec_value s < 10 ^ length s"
proof (induction s rule: rev_induct)
  case (snoc c s)
  moreover have "byte c - 48 < 10" using snoc.prems by (auto simp: isdigit_def)
  ultimately show ?case by simp
qed simp

lemma strtoull_digits:
  assumes "IsDigits s" "dec_value s < 2 ^ 64"
  shows "strtoull s = of_nat (dec_value s)"
  using assms by (simp add: strtoull_def take_sign_digits takeWhile_isdigit_all IsDigits_def Let_def c_str_digits)

lemma ParseSteamId64_valid:
  assumes "ParseSteamId64 s \<noteq> 0"
  shows "steam64 (ParseSteamId64 s)"
proof -
  have s: "length s = 17" "prefix ''7656119'' s" "list_all isdigit s"
    using assms by (auto simp: ParseSteamId64_def starts_with_prefix split: if_splits)
  then obtain t where t: "s = ''7656119'' @ t" by (auto simp: prefix_def)
  then have l: "length t = 10" using s(1) by simp
  have "list_all isdigit t" using s(3) unfolding t by simp
  then have "dec_value t < 10 ^ 10" using dec_value_less [of t] l by simp
  moreover have "dec_value ''7656119'' = 7656119" by (rule dec_value_prefix)
  moreover have "dec_value s = dec_value ''7656119'' * 10 ^ 10 + dec_value t" unfolding t dec_value_append l ..
  ultimately have v: "76561190000000000 \<le> dec_value s" "dec_value s < 76561200000000000" by simp_all
  have "s \<noteq> []" unfolding t by simp
  with s(3) v have e: "strtoull s = of_nat (dec_value s)" by (intro strtoull_digits) (simp_all add: IsDigits_def)
  have "unat (of_nat (dec_value s) :: u64) = dec_value s" using v by (simp add: unat_of_nat take_bit_nat_eq_self)
  moreover have "ParseSteamId64 s = strtoull s" using assms by (simp add: ParseSteamId64_def split: if_splits)
  ultimately show ?thesis using v unfolding steam64_def e by simp
qed

section \<open>Edit distance\<close>

text \<open>
  One row of the table is kept. In step \<open>i\<close> the entries of the old row are read one by one: \<open>diag\<close> is the
  old entry to the left, \<open>left\<close> the new one.
\<close>

fun edit_row :: "char \<Rightarrow> nat \<Rightarrow> nat \<Rightarrow> string \<Rightarrow> nat list \<Rightarrow> nat list" where
  "edit_row c diag left (x # b) (up # row) =
     (let v = min (up + 1) (min (left + 1) (diag + (if c = x then 0 else 1))) in v # edit_row c up v b row)"
| "edit_row c diag left _ _ = []"

fun edit_rows :: "nat \<Rightarrow> string \<Rightarrow> string \<Rightarrow> nat list \<Rightarrow> nat list" where
  "edit_rows i [] b row = row"
| "edit_rows i (c # a) b row = edit_rows (i + 1) a b (i # edit_row c (hd row) i b (tl row))"

definition EditDistance :: "string \<Rightarrow> string \<Rightarrow> nat" where
  "EditDistance a b = last (edit_rows 1 a b [0..<length b + 1])"

text \<open>The specification: \<open>n\<close> single insertions, deletions and replacements turn one text into the other.\<close>

inductive edits :: "string \<Rightarrow> string \<Rightarrow> nat \<Rightarrow> bool" where
  Empty: "edits [] [] 0"
| Keep: "edits a b n \<Longrightarrow> edits (x # a) (x # b) n"
| Replace: "edits a b n \<Longrightarrow> edits (x # a) (y # b) (Suc n)"
| Delete: "edits a b n \<Longrightarrow> edits (x # a) b (Suc n)"
| Insert: "edits a b n \<Longrightarrow> edits a (y # b) (Suc n)"

inductive_cases edits_Nil: "edits [] b n"

text \<open>The table, over reversed texts: an entry from its three neighbours.\<close>

fun table :: "string \<Rightarrow> string \<Rightarrow> nat" where
  "table [] ys = length ys"
| "table (x # xs) [] = Suc (length xs)"
| "table (x # xs) (y # ys) =
     min (table xs (y # ys) + 1) (min (table (x # xs) ys + 1) (table xs ys + (if x = y then 0 else 1)))"

primrec row_of :: "string \<Rightarrow> string \<Rightarrow> string \<Rightarrow> nat list" where
  "row_of xs p [] = [table xs p]"
| "row_of xs p (y # b) = table xs p # row_of xs (y # p) b"

lemma row_of_split: "row_of xs p b = table xs p # tl (row_of xs p b)"
  by (cases b) simp_all

lemma hd_row_of: "hd (row_of xs p b) = table xs p"
  by (subst row_of_split) simp

lemma table_Nil [simp]: "table xs [] = length xs"
  by (cases xs) simp_all

lemma edit_row_next: "edit_row x (table xs p) (table (x # xs) p) b (tl (row_of xs p b)) = tl (row_of (x # xs) p b)"
proof (induction b arbitrary: p)
  case (Cons y b)
  let ?v = "table (x # xs) (y # p)"
  have "edit_row x (table xs p) (table (x # xs) p) (y # b) (row_of xs (y # p) b) = ?v # edit_row x (table xs (y # p)) ?v b (tl (row_of xs (y # p) b))"
    by (subst row_of_split) (simp add: Let_def)
  also have "\<dots> = row_of (x # xs) (y # p) b" unfolding Cons.IH by (rule row_of_split [symmetric])
  finally show ?case by simp
qed simp

lemma edit_rows_table: "edit_rows (Suc (length xs)) a b (row_of xs [] b) = row_of (rev a @ xs) [] b"
proof (induction a arbitrary: xs)
  case (Cons x a)
  have "Suc (length xs) # edit_row x (hd (row_of xs [] b)) (Suc (length xs)) b (tl (row_of xs [] b)) = row_of (x # xs) [] b"
    using edit_row_next [of x xs "[]" b] by (subst (3) row_of_split) (simp add: hd_row_of)
  then show ?case using Cons.IH [of "x # xs"] by simp
qed simp

lemma row_of_first: "row_of [] p b = [length p..<Suc (length p + length b)]"
proof (induction b arbitrary: p)
  case (Cons y b)
  show ?case by (subst upt_conv_Cons) (simp_all add: Cons.IH)
qed simp

lemma last_row_of: "last (row_of xs p b) = table xs (rev b @ p)"
  by (induction b arbitrary: p) (simp, simp, metis row_of_split list.distinct(1))

lemma EditDistance_table: "EditDistance a b = table (rev a) (rev b)"
  using edit_rows_table [of "[]" a b] row_of_first [of "[]" b] by (simp add: EditDistance_def last_row_of)

lemma table_step: "table (x # xs) ys \<le> Suc (table xs ys)" "table xs (y # ys) \<le> Suc (table xs ys)"
  by (cases ys; simp) (cases xs; simp)

lemma table_least: "edits xs ys n \<Longrightarrow> table xs ys \<le> n"
proof (induction rule: edits.induct)
  case (Delete a b n x)
  then show ?case using table_step(1) [of x a b] by linarith
next
  case (Insert a b n y)
  then show ?case using table_step(2) [of a y b] by linarith
qed (auto simp: min_def)

lemma edits_delete_all: "edits a [] (length a)"
  by (induction a) (auto intro: edits.intros)

lemma edits_insert_all: "edits [] b (length b)"
  by (induction b) (auto intro: edits.intros)

lemma table_reached: "edits xs ys (table xs ys)"
proof (induction xs ys rule: table.induct)
  case (1 ys)
  show ?case by (simp add: edits_insert_all)
next
  case (2 x xs)
  show ?case using edits_delete_all [of "x # xs"] by simp
next
  case (3 x xs y ys)
  from 3 have "edits (x # xs) (y # ys) (Suc (table xs (y # ys)))" "edits (x # xs) (y # ys) (Suc (table (x # xs) ys))"
    "edits (x # xs) (y # ys) (table xs ys + (if x = y then 0 else 1))" by (auto intro: edits.intros)
  then show ?case by (simp add: min_def)
qed

lemma edits_append: "edits a b n \<Longrightarrow> edits c d m \<Longrightarrow> edits (a @ c) (b @ d) (n + m)"
  by (induction rule: edits.induct) (auto intro: edits.intros)

lemma edits_rev: "edits a b n \<Longrightarrow> edits (rev a) (rev b) n"
proof (induction rule: edits.induct)
  case (Keep a b n x)
  then show ?case using edits_append [OF Keep.IH edits.Keep [OF edits.Empty]] by simp
next
  case (Replace a b n x y)
  then show ?case using edits_append [OF Replace.IH edits.Replace [OF edits.Empty]] by simp
next
  case (Delete a b n x)
  then show ?case using edits_append [OF Delete.IH edits.Delete [OF edits.Empty]] by simp
next
  case (Insert a b n y)
  then show ?case using edits_append [OF Insert.IH edits.Insert [OF edits.Empty]] by simp
qed (simp add: edits.Empty)

text \<open>
  C30: The one-row computation behind the lookup of names is the edit distance: that many insertions,
  deletions and replacements turn one text into the other, and fewer do not.
\<close>

theorem edit_distance_least:
  "edits a b (EditDistance a b) \<and> \<not> (\<exists>n < EditDistance a b. edits a b n)"
proof -
  have "edits a b (EditDistance a b)" unfolding EditDistance_table using edits_rev [OF table_reached [of "rev a" "rev b"]] by simp
  moreover have "EditDistance a b \<le> n" if "edits a b n" for n
    unfolding EditDistance_table by (rule table_least) (rule edits_rev [OF that])
  ultimately show ?thesis by fastforce
qed

lemma EditDistance_same: "EditDistance a b = 0 \<longleftrightarrow> a = b"
proof -
  have "table xs ys = 0 \<longleftrightarrow> xs = ys" for xs ys by (induction xs ys rule: table.induct) (auto simp: min_def)
  then show ?thesis by (simp add: EditDistance_table)
qed

section \<open>Names that match\<close>

definition matching :: "(string \<Rightarrow> bool) \<Rightarrow> string list \<Rightarrow> nat list" where
  "matching P names = filter (\<lambda>i. P (names ! i)) [0..<length names]"

text \<open>The closest names, with their distance.\<close>

definition closer :: "string \<Rightarrow> string list \<Rightarrow> nat \<Rightarrow> nat option \<times> nat list \<Rightarrow> nat option \<times> nat list" where
  "closer q names i st =
     (let d = EditDistance q (names ! i)
      in case fst st of
           None \<Rightarrow> (Some d, [i])
         | Some best \<Rightarrow> if d < best then (Some d, [i]) else if d = best then (Some best, snd st @ [i]) else st)"

definition closest :: "string \<Rightarrow> string list \<Rightarrow> nat option \<times> nat list" where
  "closest q names = fold (closer q names) [0..<length names] (None, [])"

lemma matching_set: "set (matching P names) = {i. i < length names \<and> P (names ! i)}"
  by (auto simp: matching_def)

lemma closer_Some:
  "closer q names n (Some best, idx) =
     (let d = EditDistance q (names ! n) in if d < best then (Some d, [n]) else if d = best then (Some best, idx @ [n]) else (Some best, idx))"
  by (simp add: closer_def Let_def)

lemma closest_upto:
  assumes "0 < n"
  shows "\<exists>best. fold (closer q names) [0..<n] (None, []) = (Some best, filter (\<lambda>i. EditDistance q (names ! i) = best) [0..<n])
    \<and> (\<forall>i < n. best \<le> EditDistance q (names ! i))"
  using assms
proof (induction n rule: nat_induct_non_zero)
  case 1
  show ?case by (simp add: closer_def Let_def)
next
  case (Suc n)
  let ?d = "\<lambda>i. EditDistance q (names ! i)"
  from Suc obtain best where f: "fold (closer q names) [0..<n] (None, []) = (Some best, filter (\<lambda>i. ?d i = best) [0..<n])"
    and le: "\<forall>i < n. best \<le> ?d i" by blast
  have step: "fold (closer q names) [0..<Suc n] (None, []) = closer q names n (Some best, filter (\<lambda>i. ?d i = best) [0..<n])"
    by (simp add: f)
  show ?case
  proof (cases "?d n < best")
    case True
    then have "\<forall>i < n. ?d i \<noteq> ?d n" using le by (metis leD)
    then have "filter (\<lambda>i. ?d i = ?d n) [0..<Suc n] = [n]" by (simp add: filter_empty_conv)
    moreover have "\<forall>i < Suc n. ?d n \<le> ?d i" using True le by (auto simp: less_Suc_eq)
    ultimately show ?thesis unfolding step closer_Some Let_def using True by simp
  next
    case False
    then show ?thesis unfolding step closer_Some Let_def using le by (intro exI [of _ best]) (auto simp: less_Suc_eq)
  qed
qed

end
