(* ===== verification/Midas.thy ===== *)
theory Midas
  imports Name_Match
begin

unbundle bit_operations_syntax

text \<open>
  The Midas plugin's rules (plugins/midas/midas_rules.cpp): config values, whose weapons turn to gold, the
  best player, the players an admin gave it to and the file that keeps them, player names as admins type
  them, and the cards. A \<open>std::set\<close> is a set; where its order shows it is sorted. A \<open>float\<close> is a real.
\<close>

section \<open>Config values\<close>

record Rgba =
  rgba_r :: "8 word"
  rgba_g :: "8 word"
  rgba_b :: "8 word"
  rgba_a :: "8 word"

definition id_separator :: "char \<Rightarrow> bool" where
  "id_separator c \<longleftrightarrow> c = CHR '','' \<or> c = CHR '';'' \<or> isspace c"

definition id_token :: "string \<Rightarrow> bool" where
  "id_token t \<longleftrightarrow> length t = 17 \<and> starts_with ''7656119'' t \<and> list_all isdigit t"

definition ParseSteamIds :: "string \<Rightarrow> u64 set \<times> nat" where
  "ParseSteamIds text =
     (let ts = tokens_by id_separator [] text
      in (set (map strtoull (filter id_token ts)), length (filter (\<lambda>t. \<not> id_token t) ts)))"

text \<open>The parts of a colour: each at most three digits and at most 255.\<close>

definition colour_part :: "string \<Rightarrow> nat option" where
  "colour_part cur =
     (let p = Trim cur
      in if p = [] \<or> length p > 3 \<or> \<not> list_all isdigit p then None
         else if dec_value p > 255 then None else Some (dec_value p))"

definition ParseColor :: "string \<Rightarrow> Rgba option" where
  "ParseColor text =
     (let ps = map colour_part (split_fields (CHR '','') (Trim text))
      in if None \<in> set ps then None
         else case map the ps of
                [r, g, b] \<Rightarrow> Some \<lparr>rgba_r = of_nat r, rgba_g = of_nat g, rgba_b = of_nat b, rgba_a = 255\<rparr>
              | [r, g, b, a] \<Rightarrow> Some \<lparr>rgba_r = of_nat r, rgba_g = of_nat g, rgba_b = of_nat b, rgba_a = of_nat a\<rparr>
              | _ \<Rightarrow> None)"

definition midas_ParseBool :: "string \<Rightarrow> bool \<Rightarrow> bool" where
  "midas_ParseBool text def =
     (let t = Lower (Trim text)
      in if t \<in> {''1'', ''true'', ''yes'', ''on''} then True
         else if t \<in> {''0'', ''false'', ''no'', ''off''} then False else def)"

definition Active :: "bool \<Rightarrow> string \<Rightarrow> bool" where
  "Active enabled ruleset \<longleftrightarrow> enabled \<and> Lower (Trim ruleset) \<noteq> ''valve''"

definition ShouldTint :: "bool \<Rightarrow> u64 set \<Rightarrow> u64 \<Rightarrow> bool" where
  "ShouldTint active midas owner \<longleftrightarrow> active \<and> owner \<noteq> 0 \<and> owner \<in> midas"

definition midas_ParseInt :: "string \<Rightarrow> int \<Rightarrow> int \<Rightarrow> int \<Rightarrow> int" where
  "midas_ParseInt text def lo hi =
     (let t = Trim text; (v, rest) = strtol t
      in if t = [] \<or> length t > 10 then def
         else if rest \<noteq> [] \<or> v < lo \<or> v > hi then def else v)"

definition midas_ParseFloat :: "string \<Rightarrow> real \<Rightarrow> real \<Rightarrow> real \<Rightarrow> real" where
  "midas_ParseFloat text def lo hi =
     (let t = Trim text; (v, rest) = strtod t
      in if t = [] then def else if rest \<noteq> [] \<or> v < lo \<or> v > hi then def else v)"

datatype Finish = Finish_Auto | Finish_Tint

definition ParseFinish :: "string \<Rightarrow> Finish option" where
  "ParseFinish text =
     (let t = Lower (Trim text)
      in if t = ''auto'' \<or> t = ''paint'' then Some Finish_Auto else if t = ''tint'' then Some Finish_Tint else None)"

section \<open>Weapons\<close>

definition kNoPaint :: "string list" where
  "kNoPaint =
     [''weapon_c4'', ''weapon_hegrenade'', ''weapon_flashbang'', ''weapon_smokegrenade'', ''weapon_molotov'',
      ''weapon_incgrenade'', ''weapon_decoy'', ''weapon_tagrenade'', ''weapon_healthshot'', ''weapon_breachcharge'',
      ''weapon_shield'', ''weapon_snowball'']"

definition Paintable :: "string \<Rightarrow> bool" where
  "Paintable classname \<longleftrightarrow> starts_with ''weapon_'' (Lower classname) \<and> Lower classname \<notin> set kNoPaint"

definition StatTrakable :: "string \<Rightarrow> bool" where
  "StatTrakable classname \<longleftrightarrow> Paintable classname \<and> Lower classname \<noteq> ''weapon_taser''"

definition CountsAsKill :: "int \<Rightarrow> int \<Rightarrow> int \<Rightarrow> int \<Rightarrow> bool" where
  "CountsAsKill attackerSlot victimSlot attackerTeam victimTeam =
     (if attackerSlot < 0 \<or> attackerSlot \<ge> 64 \<or> attackerSlot = victimSlot then False
      else let known = (attackerTeam = 2 \<or> attackerTeam = 3) \<and> (victimTeam = 2 \<or> victimTeam = 3)
           in \<not> known \<or> attackerTeam \<noteq> victimTeam)"

definition StatTrakKills :: "bool \<Rightarrow> bool \<Rightarrow> int \<Rightarrow> int \<Rightarrow> int" where
  "StatTrakKills statsLive statsHavePlayer statsKills ownKills =
     max 0 (if statsLive \<and> statsHavePlayer then statsKills else ownKills)"

text \<open>The bits of the float that carries the counter.\<close>

definition KillEaterBits :: "int \<Rightarrow> 32 word" where
  "KillEaterBits kills = (if kills < 0 then 0 else of_int kills)"

record EquipmentItem =
  eq_defindex :: int
  eq_classname :: string

definition EquipmentItemFor :: "string \<Rightarrow> bool \<Rightarrow> EquipmentItem" where
  "EquipmentItemFor entityClass incendiary =
     (let c = Lower entityClass; item = (\<lambda>d n. \<lparr>eq_defindex = d, eq_classname = n\<rparr>)
      in if c = ''hegrenade_projectile'' then item 44 ''weapon_hegrenade''
         else if c = ''flashbang_projectile'' then item 43 ''weapon_flashbang''
         else if c = ''smokegrenade_projectile'' then item 45 ''weapon_smokegrenade''
         else if c = ''decoy_projectile'' then item 47 ''weapon_decoy''
         else if c = ''molotov_projectile'' then (if incendiary then item 48 ''weapon_incgrenade'' else item 46 ''weapon_molotov'')
         else if c = ''planted_c4'' then item 49 ''weapon_c4''
         else item 0 [])"

section \<open>The best player\<close>

datatype BestStat = Best_Adr | Best_Kills
datatype BestWhen = Best_Round | Best_Half

definition ParseBestStat :: "string \<Rightarrow> BestStat option" where
  "ParseBestStat text =
     (let t = Lower (Trim text) in if t = ''adr'' then Some Best_Adr else if t = ''kills'' then Some Best_Kills else None)"

definition ParseBestWhen :: "string \<Rightarrow> BestWhen option" where
  "ParseBestWhen text =
     (let t = Lower (Trim text) in if t = ''round'' then Some Best_Round else if t = ''half'' then Some Best_Half else None)"

record PlayerTotals =
  pt_steamid64 :: u64
  pt_kills :: int
  pt_deaths :: int
  pt_damage :: int
  pt_rounds :: int

definition Adr :: "PlayerTotals \<Rightarrow> real" where
  "Adr p = (if pt_rounds p > 0 then of_int (pt_damage p) / of_int (pt_rounds p) else 0)"

definition BestPlayerAllowed :: "bool \<Rightarrow> bool \<Rightarrow> bool \<Rightarrow> bool \<Rightarrow> string \<Rightarrow> bool" where
  "BestPlayerAllowed enabled inMatches live scrim ruleset \<longleftrightarrow> enabled \<and> live \<and> Active True ruleset \<and> (scrim \<or> inMatches)"

definition PickNow :: "BestWhen \<Rightarrow> int \<Rightarrow> int \<Rightarrow> int \<Rightarrow> int \<Rightarrow> bool" where
  "PickNow moment roundsPlayed minRounds half lastPickHalf =
     (if moment = Best_Half then half \<ge> 2 \<and> half \<noteq> lastPickHalf else roundsPlayed \<ge> max 1 minRounds)"

definition better_player :: "BestStat \<Rightarrow> u64 \<Rightarrow> PlayerTotals \<Rightarrow> PlayerTotals \<Rightarrow> bool" where
  "better_player stat current a b =
     (let rest = (if pt_deaths a \<noteq> pt_deaths b then pt_deaths a < pt_deaths b
                  else if (pt_steamid64 a = current) \<noteq> (pt_steamid64 b = current) then pt_steamid64 a = current
                  else pt_steamid64 a < pt_steamid64 b)
      in if stat = Best_Adr
         then if Adr a \<noteq> Adr b then Adr a > Adr b else if pt_kills a \<noteq> pt_kills b then pt_kills a > pt_kills b else rest
         else if pt_kills a \<noteq> pt_kills b then pt_kills a > pt_kills b else if Adr a \<noteq> Adr b then Adr a > Adr b else rest)"

definition eligible :: "PlayerTotals \<Rightarrow> bool" where
  "eligible p \<longleftrightarrow> pt_steamid64 p \<noteq> 0 \<and> pt_rounds p > 0"

definition PickBest :: "PlayerTotals list \<Rightarrow> BestStat \<Rightarrow> u64 \<Rightarrow> u64" where
  "PickBest players stat current =
     (case scan_best (better_player stat current) None (filter eligible players) of
        None \<Rightarrow> 0
      | Some best \<Rightarrow> if (if stat = Best_Adr then pt_damage best > 0 else pt_kills best > 0) then pt_steamid64 best else 0)"

section \<open>Who is Midas\<close>

definition PaintOverrideSet :: "bool \<Rightarrow> Finish \<Rightarrow> u64 set \<Rightarrow> u64 \<Rightarrow> u64 set" where
  "PaintOverrideSet active finish midas best =
     (if \<not> active \<or> finish \<noteq> Finish_Auto then {} else (midas - {0}) \<union> (if best \<noteq> 0 then {best} else {}))"

definition kWhyConfig :: "32 word" where "kWhyConfig = 1"

definition kWhyGiven :: "32 word" where "kWhyGiven = 2"

definition kWhyBest :: "32 word" where "kWhyBest = 4"

definition MidasReasons :: "bool \<Rightarrow> u64 set \<Rightarrow> u64 set \<Rightarrow> u64 \<Rightarrow> u64 \<Rightarrow> 32 word" where
  "MidasReasons active config given best sid =
     (if \<not> active \<or> sid = 0 then 0
      else (if sid \<in> config then kWhyConfig else 0) OR (if sid \<in> given then kWhyGiven else 0) OR (if best = sid then kWhyBest else 0))"

definition EffectiveMidas :: "bool \<Rightarrow> u64 set \<Rightarrow> u64 set \<Rightarrow> u64 \<Rightarrow> u64 set" where
  "EffectiveMidas active config given best =
     (if \<not> active then {} else (config \<union> given \<union> (if best \<noteq> 0 then {best} else {})) - {0})"

definition add_reason :: "32 word \<Rightarrow> 32 word \<Rightarrow> string \<Rightarrow> string \<Rightarrow> string" where
  "add_reason why bitmask text out = (if why AND bitmask = 0 then out else (if out = [] then [] else out @ '', '') @ text)"

definition DescribeReasons :: "32 word \<Rightarrow> string" where
  "DescribeReasons why =
     add_reason why kWhyBest ''best player''
       (add_reason why kWhyGiven ''given by an admin'' (add_reason why kWhyConfig ''midas_steamids'' []))"

definition ToggleGiven :: "u64 \<Rightarrow> u64 set \<Rightarrow> bool \<times> u64 set" where
  "ToggleGiven sid given = (if sid \<in> given then (False, given - {sid}) else (True, insert sid given))"

text \<open>The file of the players it was given to.\<close>

definition given_line :: "string \<Rightarrow> u64 set" where
  "given_line raw = (let line = Trim raw in if line = [] \<or> hd line = CHR ''#'' then {} else fst (ParseSteamIds line))"

definition ParseGivenFile :: "string \<Rightarrow> u64 set" where
  "ParseGivenFile text = \<Union> (set (map given_line (split_fields newline_char text)))"

definition given_head :: string where
  "given_head = ''# Midas given by admins (.ru midas give <player>): one SteamID64 per line''"

definition FormatGivenFile :: "u64 set \<Rightarrow> string" where
  "FormatGivenFile given =
     given_head @ [newline_char] @ concat (map (\<lambda>sid. u64_string sid @ [newline_char]) (sorted_list_of_set given))"

section \<open>Player names\<close>

definition WordStart :: "string \<Rightarrow> nat \<Rightarrow> bool" where
  "WordStart name pos \<longleftrightarrow> pos = 0 \<or> \<not> isalnum (name ! (pos - 1))"

record PlayerMatch =
  pm_index :: int
  pm_ambiguous :: "nat list"

definition pick_of :: "nat list \<Rightarrow> PlayerMatch" where
  "pick_of idx =
     (case idx of [i] \<Rightarrow> \<lparr>pm_index = int i, pm_ambiguous = []\<rparr> | _ \<Rightarrow> \<lparr>pm_index = - 1, pm_ambiguous = take 5 idx\<rparr>)"

definition shortest :: "string list \<Rightarrow> nat list \<Rightarrow> nat list" where
  "shortest names idx =
     (if length idx > 1
      then let s = sort_key (\<lambda>i. length (names ! i)) idx
           in if length (names ! (s ! 0)) < length (names ! (s ! 1)) then take 1 s else s
      else idx)"

definition word_in :: "string \<Rightarrow> string \<Rightarrow> bool" where
  "word_in q name \<longleftrightarrow> list_ex (\<lambda>p. starts_with q (drop p name) \<and> WordStart name p) [0..<length name]"

definition no_match :: PlayerMatch where
  "no_match = \<lparr>pm_index = - 1, pm_ambiguous = []\<rparr>"

definition by_distance :: "string \<Rightarrow> string list \<Rightarrow> PlayerMatch" where
  "by_distance q names =
     (case closest q names of
        (Some best, idx) \<Rightarrow> if best \<le> max 1 (length q div 3) then pick_of idx else no_match
      | (None, _) \<Rightarrow> no_match)"

definition ResolvePlayerName :: "string \<Rightarrow> string list \<Rightarrow> PlayerMatch" where
  "ResolvePlayerName rawQuery rawNames =
     (let q = Lower (Trim rawQuery); names = map (\<lambda>n. Lower (Trim n)) rawNames;
          same = matching (\<lambda>n. Trim n = Trim rawQuery) rawNames;
          alike = matching (\<lambda>n. n = q) names;
          starts = matching (starts_with q) names;
          wordy = matching (word_in q) names;
          inside = matching (contains q) names
      in if q = [] \<or> rawNames = [] then no_match
         else if same \<noteq> [] then pick_of same
         else if alike \<noteq> [] then pick_of alike
         else if starts \<noteq> [] then pick_of (shortest names starts)
         else if length q \<ge> 2 \<and> wordy \<noteq> [] then pick_of (shortest names wordy)
         else if length q \<ge> 2 \<and> inside \<noteq> [] then pick_of (shortest names inside)
         else by_distance q names)"

section \<open>Cards\<close>

record CardTexts =
  ct_title :: string
  ct_best :: string
  ct_given :: string
  ct_config :: string
  ct_lost :: string
  ct_passed :: string

definition card_char :: "char \<Rightarrow> bool" where
  "card_char c \<longleftrightarrow> c \<noteq> CHR ''<'' \<and> c \<noteq> CHR ''>'' \<and> byte c \<ge> 0x20 \<and> byte c \<noteq> 0x7F"

definition CardName :: "string \<Rightarrow> string" where
  "CardName name =
     (let out = filter card_char name in if length out > 32 then take (back_off out 32) out else out)"

function FillCard :: "string \<Rightarrow> string \<Rightarrow> string \<Rightarrow> string \<Rightarrow> string" where
  "FillCard text stat val name =
     (case text of
        [] \<Rightarrow> []
      | c # rest \<Rightarrow>
          if starts_with ''{stat}'' text then stat @ FillCard (drop 6 text) stat val name
          else if starts_with ''{value}'' text then val @ FillCard (drop 7 text) stat val name
          else if starts_with ''{name}'' text then name @ FillCard (drop 6 text) stat val name
          else c # FillCard rest stat val name)"
  by pat_completeness auto
termination
  by (relation "measure (\<lambda>(text, _). length text)") auto

declare FillCard.simps [simp del]

definition Card :: "string \<Rightarrow> string \<Rightarrow> string \<Rightarrow> string" where
  "Card head headColor line =
     ''<font class='' @ [CHR 0x27] @ ''fontSize-l'' @ [CHR 0x27] @ '' color='' @ [CHR 0x27] @ headColor @ [CHR 0x27] @ ''><b>'' @ head @ ''</b></font>''
     @ (if line = [] then []
        else ''<br><font class='' @ [CHR 0x27] @ ''fontSize-m'' @ [CHR 0x27] @ '' color='' @ [CHR 0x27] @ ''#FFFFFF'' @ [CHR 0x27] @ ''>'' @ line @ ''</font>'')"

definition GainCardHtml :: "CardTexts \<Rightarrow> 32 word \<Rightarrow> string \<Rightarrow> string \<Rightarrow> string" where
  "GainCardHtml t why stat val =
     (let line = (if why AND kWhyBest \<noteq> 0 then ct_best t else if why AND kWhyGiven \<noteq> 0 then ct_given t else ct_config t)
      in Card (ct_title t) ''#FFD700'' (FillCard line stat val []))"

definition LostCardHtml :: "CardTexts \<Rightarrow> string \<Rightarrow> string" where
  "LostCardHtml t passedTo =
     (let name = CardName passedTo
      in Card (FillCard (ct_lost t) [] [] name) ''#C9B458'' (if name = [] then [] else FillCard (ct_passed t) [] [] name))"

section \<open>Facts\<close>

lemma id_token_parse: "id_token t \<longleftrightarrow> ParseSteamId64 t = strtoull t \<and> length t = 17 \<and> starts_with ''7656119'' t \<and> list_all isdigit t"
  by (auto simp: id_token_def ParseSteamId64_def)

lemma id_token_text: "steam64 w \<Longrightarrow> id_token (u64_string w)"
  using steam64_text by (simp add: id_token_def)

lemma not_separator_digit: "isdigit c \<Longrightarrow> \<not> id_separator c"
  by (auto simp: id_separator_def isdigit_def isspace_def)

lemma u64_text_plain:
  "list_all (\<lambda>c. \<not> id_separator c) (u64_string w)" "u64_string w \<noteq> []" "newline_char \<notin> set (u64_string w)"
proof -
  have "list_all isdigit (u64_string w)" by simp
  then show "list_all (\<lambda>c. \<not> id_separator c) (u64_string w)" "newline_char \<notin> set (u64_string w)"
    by (auto simp: list_all_iff not_separator_digit) (auto simp: isdigit_def)
  show "u64_string w \<noteq> []" by (simp add: u64_string_def)
qed

lemma Trim_digits: "list_all isdigit s \<Longrightarrow> s \<noteq> [] \<Longrightarrow> Trim s = s"
proof -
  assume "list_all isdigit s" "s \<noteq> []"
  then have "isdigit (hd s)" "isdigit (last s)" by (simp_all add: list_all_iff)
  then show ?thesis unfolding Trim_def using digit_not_sign by (intro trim_by_id) auto
qed

lemma given_line_id: "steam64 w \<Longrightarrow> given_line (u64_string w) = {w}"
proof -
  assume w: "steam64 w"
  have "isdigit (hd (u64_string w))" using u64_text_plain(2) [of w] list_all_digits_u64 [of w] by (simp add: list_all_iff)
  then have "hd (u64_string w) \<noteq> CHR ''#''" by (auto simp: isdigit_def)
  moreover have "filter id_token (tokens_by id_separator [] (u64_string w)) = [u64_string w]"
    by (simp add: tokens_by_only u64_text_plain id_token_text w)
  then have "fst (ParseSteamIds (u64_string w)) = {w}"
    by (simp only: ParseSteamIds_def Let_def fst_conv list.map list.set strtoull_u64_string)
  ultimately show ?thesis by (simp add: given_line_def Trim_digits u64_text_plain)
qed

lemma split_given: "split_fields newline_char (concat (map (\<lambda>w. u64_string w @ [newline_char]) ws)) = map u64_string ws @ [[]]"
  by (induction ws) (simp_all add: split_fields_last split_fields_cut u64_text_plain)

text \<open>
  The players an admin gave Midas to come back after a restart: the file that is written is read back
  to the same set.
\<close>

theorem given_file_roundtrip:
  assumes "finite given" "\<forall>w \<in> given. steam64 w"
  shows "ParseGivenFile (FormatGivenFile given) = given"
proof -
  have h: "given_line given_head = {}" "newline_char \<notin> set given_head" by code_simp+
  then have "split_fields newline_char (FormatGivenFile given) = given_head # map u64_string (sorted_list_of_set given) @ [[]]"
    by (simp add: FormatGivenFile_def split_fields_cut split_given)
  moreover have "given_line [] = {}" by (simp add: given_line_def Trim_def trim_by_def)
  ultimately show ?thesis using h assms by (auto simp: ParseGivenFile_def given_line_id)
qed

lemma given_file_roundtrip_witness:
  "ParseGivenFile (FormatGivenFile {76561198000000001, 76561198000000002}) = {76561198000000001, 76561198000000002}"
  by (rule given_file_roundtrip) (simp_all add: steam64_def)

section \<open>The best player\<close>

interpretation best_player: strict_weak "better_player stat current" for stat current
proof
  fix x y z
  show "\<not> better_player stat current x x" by (simp add: better_player_def)
  show "better_player stat current x y \<Longrightarrow> better_player stat current y z \<Longrightarrow> better_player stat current x z"
    by (auto simp: better_player_def Let_def split: if_splits)
  show "\<not> better_player stat current x y \<Longrightarrow> \<not> better_player stat current y z \<Longrightarrow> \<not> better_player stat current x z"
    by (auto simp: better_player_def Let_def split: if_splits)
qed

text \<open>
  C36: The best player is the best: somebody is picked exactly when somebody who played has scored, it is a
  player of the list, and no player who took part is better by the stat, the other stat, deaths, holding
  Midas already and the id.
\<close>

theorem best_player_is_best:
  "(PickBest players stat current = 0 \<longleftrightarrow>
      (\<forall>p \<in> set players. eligible p \<longrightarrow> (if stat = Best_Adr then pt_damage p \<le> 0 else pt_kills p \<le> 0)))
   \<and> (PickBest players stat current \<noteq> 0 \<longrightarrow>
      (\<exists>b \<in> set players. eligible b \<and> pt_steamid64 b = PickBest players stat current
        \<and> (\<forall>p \<in> set players. eligible p \<longrightarrow> \<not> better_player stat current p b)))"
proof (cases "scan_best (better_player stat current) None (filter eligible players)")
  case None
  then show ?thesis by (simp add: PickBest_def filter_empty_conv)
next
  case (Some b)
  have b: "b \<in> set players" "eligible b" using scan_best_in [OF Some] by auto
  have top: "\<not> better_player stat current p b" if "p \<in> set players" "eligible p" for p
    using best_player.scan_best_top [OF Some] that by simp
  have more: "if stat = Best_Adr then pt_damage p \<le> 0 else pt_kills p \<le> 0"
    if "p \<in> set players" "eligible p" "if stat = Best_Adr then pt_damage b \<le> 0 else pt_kills b \<le> 0" for p
  proof -
    have r: "pt_rounds p > 0" "pt_rounds b > 0" using that b by (simp_all add: eligible_def)
    show ?thesis
    proof (rule ccontr)
      assume "\<not> ?thesis"
      with that r have "if stat = Best_Adr then Adr p > Adr b else pt_kills p > pt_kills b"
        by (auto simp: Adr_def divide_nonpos_pos less_le_trans [of _ 0] intro: le_less_trans [of _ 0] split: if_splits)
      then have "better_player stat current p b" by (auto simp: better_player_def Let_def split: if_splits)
      with top that show False by blast
    qed
  qed
  show ?thesis
  proof (cases "if stat = Best_Adr then pt_damage b \<le> 0 else pt_kills b \<le> 0")
    case True
    then have "PickBest players stat current = 0" using Some by (auto simp: PickBest_def split: if_splits)
    with True more show ?thesis by simp
  next
    case False
    then have "PickBest players stat current = pt_steamid64 b" "pt_steamid64 b \<noteq> 0"
      using Some b by (auto simp: PickBest_def eligible_def split: if_splits)
    with False b top show ?thesis by auto
  qed
qed

definition sample_totals :: "PlayerTotals list" where
  "sample_totals =
     [\<lparr>pt_steamid64 = 7, pt_kills = 3, pt_deaths = 1, pt_damage = 300, pt_rounds = 3\<rparr>,
      \<lparr>pt_steamid64 = 9, pt_kills = 5, pt_deaths = 1, pt_damage = 300, pt_rounds = 3\<rparr>]"

lemma best_player_is_best_witness:
  "\<exists>b \<in> set sample_totals. eligible b \<and> pt_steamid64 b = PickBest sample_totals Best_Adr 7
     \<and> (\<forall>p \<in> set sample_totals. eligible p \<longrightarrow> \<not> better_player Best_Adr 7 p b)"
proof -
  have "\<not> (\<forall>p \<in> set sample_totals. eligible p \<longrightarrow> (if Best_Adr = Best_Adr then pt_damage p \<le> 0 else pt_kills p \<le> 0))"
    by (simp add: sample_totals_def eligible_def)
  with best_player_is_best [of sample_totals Best_Adr 7] show ?thesis by blast
qed

section \<open>Who is Midas\<close>

lemma midas_iff_reason: "sid \<in> EffectiveMidas active config given best \<longleftrightarrow> MidasReasons active config given best sid \<noteq> 0"
  by (auto simp: EffectiveMidas_def MidasReasons_def kWhyConfig_def kWhyGiven_def kWhyBest_def)

lemma valve_has_no_midas: "Lower (Trim ruleset) = ''valve'' \<Longrightarrow> EffectiveMidas (Active enabled ruleset) config given best = {}"
  by (simp add: EffectiveMidas_def Active_def)

lemma toggle_twice: "snd (ToggleGiven sid (snd (ToggleGiven sid given))) = given"
  by (auto simp: ToggleGiven_def)

section \<open>Names\<close>

lemma pick_index: "pm_index (pick_of idx) = int i \<longleftrightarrow> idx = [i]"
  by (auto simp: pick_of_def split: list.splits)

lemma shortest_sub: "set (shortest names idx) \<subseteq> set idx"
proof -
  have "set (take 1 s) \<subseteq> set s" for s :: "nat list" by (rule set_take_subset)
  then show ?thesis by (auto simp: shortest_def Let_def split: if_splits) (metis set_sort subsetD)
qed

lemma word_in_contains: "word_in q name \<Longrightarrow> contains q name"
  by (auto simp: word_in_def list_ex_iff contains_iff_sublist starts_with_prefix sublist_def prefix_def)
    (metis append_take_drop_id)

definition close_enough :: "string \<Rightarrow> string list \<Rightarrow> nat \<Rightarrow> bool" where
  "close_enough q names i \<longleftrightarrow>
     EditDistance q (names ! i) \<le> max 1 (length q div 3)
     \<and> (\<forall>j < length names. j \<noteq> i \<longrightarrow> EditDistance q (names ! i) < EditDistance q (names ! j))"

lemma by_distance_index:
  assumes "pm_index (by_distance q names) = int i"
  shows "i < length names \<and> close_enough q names i"
proof -
  let ?d = "\<lambda>i. EditDistance q (names ! i)" and ?n = "length names"
  have ne: "?n \<noteq> 0" using assms by (auto simp: by_distance_def closest_def no_match_def)
  obtain best where c: "closest q names = (Some best, filter (\<lambda>i. ?d i = best) [0..<?n])" and le: "\<forall>j < ?n. best \<le> ?d j"
    using closest_upto [of ?n q names] ne unfolding closest_def by blast
  have b: "best \<le> max 1 (length q div 3)" "filter (\<lambda>i. ?d i = best) [0..<?n] = [i]"
    using assms by (auto simp: by_distance_def c pick_index no_match_def split: if_splits)
  from b(2) have only: "j < ?n \<and> ?d j = best \<longleftrightarrow> j = i" for j
  proof -
    have "set (filter (\<lambda>i. ?d i = best) [0..<?n]) = {i}" unfolding b(2) by simp
    then show ?thesis by (auto simp: set_eq_iff)
  qed
  with le b(1) show ?thesis unfolding close_enough_def by (metis order_le_less)
qed

text \<open>
  A typed player name finds whom it means: a player whose name is the one typed is found when no other
  has that name; and whoever is found has the typed text as name or inside it, or is the one player whose
  name is within a third of its length in edits and closer than every other name.
\<close>

theorem player_name_resolved:
  fixes query :: string and names :: "string list"
  defines "q \<equiv> Lower (Trim query)" and "r \<equiv> ResolvePlayerName query names" and "ns \<equiv> map (\<lambda>n. Lower (Trim n)) names"
  shows "(Trim query \<noteq> [] \<longrightarrow> matching (\<lambda>n. Trim n = Trim query) names = [i] \<longrightarrow> pm_index r = int i)
    \<and> (pm_index r = int i \<longrightarrow> i < length names \<and> (ns ! i = q \<or> contains q (ns ! i) \<or> close_enough q ns i))"
proof (rule conjI; (intro impI)?)
  assume "Trim query \<noteq> []" "matching (\<lambda>n. Trim n = Trim query) names = [i]"
  then show "pm_index r = int i"
    by (auto simp: r_def ResolvePlayerName_def Let_def pick_index matching_def)
next
  assume r: "pm_index r = int i"
  have len: "length ns = length names" and nth: "j < length names \<Longrightarrow> ns ! j = Lower (Trim (names ! j))" for j by (simp_all add: ns_def)
  have hit: "i < length names \<and> P (xs ! i)" if "pm_index (pick_of (matching P xs)) = int i" "length xs = length names" for P xs
    using that matching_set [of P xs] by (auto simp: pick_index)
  have short: "i < length names \<and> P (ns ! i)" if "pm_index (pick_of (shortest ns (matching P ns))) = int i" for P
    using that matching_set [of P ns] shortest_sub [of ns "matching P ns"] len by (auto simp: pick_index)
  have starts: "contains q n" if "starts_with q n" for n
    using that by (auto simp: starts_with_prefix contains_iff_sublist)
  consider "pm_index (pick_of (matching (\<lambda>n. Trim n = Trim query) names)) = int i"
    | "pm_index (pick_of (matching (\<lambda>n. n = q) ns)) = int i"
    | "pm_index (pick_of (shortest ns (matching (starts_with q) ns))) = int i"
    | "pm_index (pick_of (shortest ns (matching (word_in q) ns))) = int i"
    | "pm_index (pick_of (shortest ns (matching (contains q) ns))) = int i"
    | "pm_index (by_distance q ns) = int i"
    using r unfolding r_def ResolvePlayerName_def Let_def q_def [symmetric] ns_def [symmetric]
    by (auto simp: no_match_def split: if_splits)
  then show "i < length names \<and> (ns ! i = q \<or> contains q (ns ! i) \<or> close_enough q ns i)"
  proof cases
    case 1
    then show ?thesis using hit [OF 1] nth by (simp add: q_def)
  next
    case 2
    then show ?thesis using hit [OF 2 len] by simp
  next
    case 3
    then show ?thesis using short [OF 3] starts by blast
  next
    case 4
    then show ?thesis using short [OF 4] word_in_contains by blast
  next
    case 5
    then show ?thesis using short [OF 5] by blast
  next
    case 6
    then show ?thesis using by_distance_index [OF 6] len by simp
  qed
qed

lemma player_name_resolved_witness:
  "pm_index (ResolvePlayerName ''bob'' [''Alice'', ''bob'']) = int 1"
  using player_name_resolved [of "''bob''" "[''Alice'', ''bob'']" 1]
  by (simp add: matching_def Trim_def trim_by_def isspace_def)

section \<open>Markup of the cards\<close>

definition markup :: "char \<Rightarrow> bool" where
  "markup c \<longleftrightarrow> c = CHR ''<'' \<or> c = CHR ''>''"

lemma FillCard_markup:
  assumes "filter P name = filter P name'"
  shows "filter P (FillCard t stat val name) = filter P (FillCard t stat val name')"
proof (induction "length t" arbitrary: t rule: less_induct)
  case less
  show ?case
  proof (cases t)
    case (Cons c rest)
    then have "length rest < length t" "length (drop 6 t) < length t" "length (drop 7 t) < length t" by simp_all
    note ih = this [THEN less]
    show ?thesis unfolding Cons FillCard.simps [of "c # rest"] list.case using ih [unfolded Cons] assms by simp
  qed (simp add: FillCard.simps)
qed

lemma FillCard_empty:
  assumes "name \<noteq> []" "name' \<noteq> []"
  shows "FillCard t stat val name = [] \<longleftrightarrow> FillCard t stat val name' = []"
proof (induction "length t" arbitrary: t rule: less_induct)
  case less
  show ?case
  proof (cases t)
    case (Cons c rest)
    then have "length (drop 6 t) < length t" "length (drop 7 t) < length t" by simp_all
    note ih = this [THEN less]
    show ?thesis unfolding Cons FillCard.simps [of "c # rest"] list.case using ih [unfolded Cons] assms by simp
  qed (simp add: FillCard.simps)
qed

lemma CardName_plain: "list_all card_char (CardName name) \<and> length (CardName name) \<le> 32"
proof -
  let ?out = "filter card_char name"
  have "list_all card_char (take n ?out)" for n by (auto simp: list_all_iff dest: in_set_takeD)
  moreover have "length (take (back_off ?out 32) ?out) \<le> 32" by (rule order_trans [OF _ back_off_le [of ?out 32]]) simp
  moreover have "list_all card_char ?out" by (simp add: list_all_iff)
  ultimately show ?thesis unfolding CardName_def Let_def by (simp only: not_less split: if_split) blast
qed

lemma no_markup: "list_all card_char s \<Longrightarrow> filter markup s = []"
  by (auto simp: filter_empty_conv list_all_iff card_char_def markup_def)

text \<open>
  A player's name cannot change a card: the card that says where Midas went has the tags of the
  templates, the same for every name, and the name shows at most 32 bytes.
\<close>

theorem card_names_harmless:
  fixes t :: CardTexts
  assumes "CardName a \<noteq> []" "CardName b \<noteq> []"
  shows "filter markup (LostCardHtml t a) = filter markup (LostCardHtml t b) \<and> length (CardName a) \<le> 32"
proof -
  have n: "filter markup (CardName a) = filter markup (CardName b)" using CardName_plain by (simp add: no_markup)
  have fill: "filter markup (FillCard u s v (CardName a)) = filter markup (FillCard u s v (CardName b))" for u s v
    by (rule FillCard_markup [OF n])
  have empty: "FillCard u s v (CardName a) = [] \<longleftrightarrow> FillCard u s v (CardName b) = []" for u s v
    by (rule FillCard_empty [OF assms])
  show ?thesis
    using assms CardName_plain by (simp add: LostCardHtml_def Card_def Let_def fill empty)
qed

definition sample_texts :: CardTexts where
  "sample_texts =
     \<lparr>ct_title = ''Blessed by Midas'', ct_best = ''{stat} {value}'', ct_given = ''given'', ct_config = ''config'',
      ct_lost = ''gone'', ct_passed = ''It passed to {name}.''\<rparr>"

lemma card_names_harmless_witness:
  "filter markup (LostCardHtml sample_texts ''<b>x'') = filter markup (LostCardHtml sample_texts ''bob'')"
proof -
  have "CardName ''<b>x'' \<noteq> []" "CardName ''bob'' \<noteq> []" by code_simp+
  then show ?thesis using card_names_harmless by blast
qed

end
