(* ===== verification/Ordered_Map.thy ===== *)
theory Ordered_Map
  imports Prelude
begin

text \<open>
  \<open>std::map\<close>: an association list whose keys ascend. Several components walk such a map, take its first
  entry, or write it out, so its order shows.
\<close>

fun map_put :: "'k :: linorder \<Rightarrow> 'v \<Rightarrow> ('k \<times> 'v) list \<Rightarrow> ('k \<times> 'v) list" where
  "map_put k v [] = [(k, v)]"
| "map_put k v ((k', v') # m) =
     (if k = k' then (k, v) # m else if k < k' then (k, v) # (k', v') # m else (k', v') # map_put k v m)"

definition map_erase :: "'k :: linorder \<Rightarrow> ('k \<times> 'v) list \<Rightarrow> ('k \<times> 'v) list" where
  "map_erase k m = filter (\<lambda>kv. fst kv \<noteq> k) m"

definition sorted_map :: "('k :: linorder \<times> 'v) list \<Rightarrow> bool" where
  "sorted_map m \<longleftrightarrow> sorted_wrt (<) (map fst m)"

lemma sorted_map_simps [simp]:
  "sorted_map []" "sorted_map (kv # m) \<longleftrightarrow> (\<forall>k \<in> fst ` set m. fst kv < k) \<and> sorted_map m"
  by (auto simp: sorted_map_def)

lemma map_of_put [simp]: "map_of (map_put k v m) = (map_of m)(k \<mapsto> v)"
  by (induction k v m rule: map_put.induct) auto

lemma map_of_put_sorted: "sorted_map m \<Longrightarrow> map_of (map_put k v m) x = (if x = k then Some v else map_of m x)"
  by simp

lemma keys_put [simp]: "fst ` set (map_put k v m) = insert k (fst ` set m)"
  by (induction k v m rule: map_put.induct) auto

lemma sorted_put: "sorted_map m \<Longrightarrow> sorted_map (map_put k v m)"
  by (induction k v m rule: map_put.induct) auto

lemma length_put: "length (map_put k v m) \<le> Suc (length m)"
  by (induction k v m rule: map_put.induct) auto

lemma sorted_erase: "sorted_map m \<Longrightarrow> sorted_map (map_erase k m)"
  by (induction m) (auto simp: map_erase_def)

lemma map_of_erase [simp]: "map_of (map_erase k m) = (map_of m)(k := None)"
  by (induction m) (auto simp: map_erase_def)

lemma sorted_map_distinct: "sorted_map m \<Longrightarrow> distinct (map fst m)"
  by (induction m) auto

lemma sorted_map_iff: "sorted_map m \<Longrightarrow> map_of m k = Some v \<longleftrightarrow> (k, v) \<in> set m"
  using sorted_map_distinct by (intro map_of_eq_Some_iff)

lemma put_last: "\<forall>k' \<in> fst ` set m. k' < k \<Longrightarrow> map_put k v m = m @ [(k, v)]"
  by (induction m) auto

lemma sorted_map_append: "sorted_map (m @ m') \<longleftrightarrow> sorted_map m \<and> sorted_map m' \<and> (\<forall>k \<in> fst ` set m. \<forall>k' \<in> fst ` set m'. k < k')"
  by (auto simp: sorted_map_def sorted_wrt_append)

text \<open>Writing the entries of a map back one by one gives the map.\<close>

lemma fold_put_entries: "sorted_map (m @ m') \<Longrightarrow> fold (\<lambda>kv. map_put (fst kv) (snd kv)) m' m = m @ m'"
proof (induction m' arbitrary: m)
  case (Cons kv m')
  then have "map_put (fst kv) (snd kv) m = m @ [kv]" by (simp add: put_last sorted_map_append)
  with Cons show ?case by simp
qed simp

lemma sorted_map_eqI:
  assumes "sorted_map m" "sorted_map m'" "map_of m = map_of m'"
  shows "m = m'"
proof -
  have "set m = set m'" using assms sorted_map_iff by (metis (no_types, lifting) subset_antisym subrelI)
  moreover have "sorted (map fst m)" "sorted (map fst m')"
    using assms by (auto simp: sorted_map_def intro: sorted_wrt_mono_rel [of _ "(<)" "(\<le>)"])
  moreover have "inj_on fst (set m \<union> set m')" using assms calculation(1) by (auto simp: inj_on_def) (metis sorted_map_iff option.inject)+
  ultimately show ?thesis by (intro map_sorted_distinct_set_unique [of fst]) (auto simp: sorted_map_distinct assms)
qed

end
