(* ===== verification/Map_Names.thy ===== *)
theory Map_Names
  imports Ordered_Map
begin

text \<open>
  Map entries and loaded map names (plugins/match/readyup/map_names.cpp): what an entry of a map list loads,
  whether a loaded map is the one of an entry, and the names that workshop ids are bound to as maps load.
  The mutex is the atomicity of each operation.
\<close>

section \<open>Entries\<close>

record MapRef =
  mr_workshop_id :: string
  mr_name :: string

definition workshop_digits :: "string \<Rightarrow> bool" where
  "workshop_digits s \<longleftrightarrow> s \<noteq> [] \<and> length s \<le> 20 \<and> list_all isdigit s"

definition name_char :: "char \<Rightarrow> bool" where
  "name_char c \<longleftrightarrow> isalnum c \<or> c = CHR ''_'' \<or> c = CHR ''/'' \<or> c = CHR ''.'' \<or> c = CHR ''-''"

definition SafeName :: "string \<Rightarrow> bool" where
  "SafeName s \<longleftrightarrow>
     s \<noteq> [] \<and> length s \<le> 128 \<and> list_all name_char s \<and> \<not> contains ''..'' s \<and> hd s \<noteq> CHR ''/'' \<and> last s \<noteq> CHR ''/''"

definition until_slash :: "string \<Rightarrow> string" where
  "until_slash s = takeWhile (\<lambda>c. c \<noteq> CHR ''/'') s"

definition ParseEntry :: "string \<Rightarrow> MapRef option" where
  "ParseEntry entry =
     (if starts_with ''ws:'' entry
      then let wid = drop 3 entry
           in if workshop_digits wid then Some \<lparr>mr_workshop_id = wid, mr_name = []\<rparr> else None
      else if starts_with ''workshop/'' entry
      then let rest = drop 9 entry; wid = until_slash rest
           in if \<not> workshop_digits wid then None
              else if CHR ''/'' \<notin> set rest then Some \<lparr>mr_workshop_id = wid, mr_name = []\<rparr>
              else let name = drop (length wid + 1) rest
                   in if SafeName name then Some \<lparr>mr_workshop_id = wid, mr_name = name\<rparr> else None
      else if entry \<noteq> [] \<and> list_all isdigit entry
      then if workshop_digits entry then Some \<lparr>mr_workshop_id = entry, mr_name = []\<rparr> else None
      else if SafeName entry then Some \<lparr>mr_workshop_id = [], mr_name = entry\<rparr> else None)"

definition ValidEntry :: "string \<Rightarrow> bool" where
  "ValidEntry entry \<longleftrightarrow> ParseEntry entry \<noteq> None"

definition MakeEntry :: "string \<Rightarrow> string \<Rightarrow> string" where
  "MakeEntry name workshopId =
     (let r = (if name = [] then None else ParseEntry name)
      in if workshopId = [] then (if r \<noteq> None then name else [])
         else if \<not> workshop_digits workshopId then []
         else case r of
                None \<Rightarrow> ''workshop/'' @ workshopId
              | Some ref \<Rightarrow>
                  if mr_name ref = [] then ''workshop/'' @ workshopId else ''workshop/'' @ workshopId @ ''/'' @ mr_name ref)"

definition LoadCommand :: "string \<Rightarrow> string" where
  "LoadCommand entry =
     (case ParseEntry entry of
        None \<Rightarrow> []
      | Some r \<Rightarrow> if mr_workshop_id r \<noteq> [] then ''host_workshop_map '' @ mr_workshop_id r else ''changelevel '' @ mr_name r)"

section \<open>Loaded names\<close>

definition after_last :: "(char \<Rightarrow> bool) \<Rightarrow> string \<Rightarrow> string" where
  "after_last P s = rev (takeWhile (\<lambda>c. \<not> P c) (rev s))"

definition strip_ext :: "string \<Rightarrow> string \<Rightarrow> string" where
  "strip_ext ext s =
     (if length s > length ext \<and> Lower (drop (length s - length ext) s) = ext then take (length s - length ext) s else s)"

definition LoadedBaseName :: "string \<Rightarrow> string" where
  "LoadedBaseName loaded =
     (let s = (if starts_with ''workshop/'' loaded
               then (if CHR ''/'' \<in> set (drop 9 loaded) then drop (length (until_slash (drop 9 loaded)) + 1) (drop 9 loaded) else [])
               else loaded)
      in strip_ext ''.bsp'' (strip_ext ''.vpk'' (after_last (\<lambda>c. c = CHR ''/'' \<or> c = CHR 0x5C) s)))"

definition WorkshopIdOfLoaded :: "string \<Rightarrow> string" where
  "WorkshopIdOfLoaded loaded =
     (if \<not> starts_with ''workshop/'' loaded then []
      else let wid = until_slash (drop 9 loaded) in if workshop_digits wid then wid else [])"

section \<open>Bindings\<close>

record Bindings =
  bd_bound :: "(string \<times> string) list"
  bd_pending :: string

definition ResetBindings :: Bindings where
  "ResetBindings = \<lparr>bd_bound = [], bd_pending = []\<rparr>"

definition BoundName :: "Bindings \<Rightarrow> string \<Rightarrow> string" where
  "BoundName b workshopId = (case map_of (bd_bound b) workshopId of None \<Rightarrow> [] | Some n \<Rightarrow> n)"

definition EntryMatchesLoaded :: "Bindings \<Rightarrow> string \<Rightarrow> string \<Rightarrow> bool" where
  "EntryMatchesLoaded b entry loaded =
     (case ParseEntry entry of
        None \<Rightarrow> False
      | Some r \<Rightarrow>
          if loaded = [] then False
          else let base = Lower (LoadedBaseName loaded)
               in if mr_workshop_id r \<noteq> []
                  then let lid = WorkshopIdOfLoaded loaded
                       in if lid \<noteq> [] then lid = mr_workshop_id r
                          else let name = (if mr_name r = [] then BoundName b (mr_workshop_id r) else mr_name r)
                               in name \<noteq> [] \<and> Lower (LoadedBaseName name) = base
                  else Lower (LoadedBaseName (mr_name r)) = base)"

definition DisplayName :: "Bindings \<Rightarrow> string \<Rightarrow> string" where
  "DisplayName b entry =
     (case ParseEntry entry of
        None \<Rightarrow> entry
      | Some r \<Rightarrow>
          if mr_name r \<noteq> [] then LoadedBaseName (mr_name r)
          else if BoundName b (mr_workshop_id r) = [] then ''workshop/'' @ mr_workshop_id r
          else BoundName b (mr_workshop_id r))"

definition NoteWorkshopLoad :: "string \<Rightarrow> Bindings \<Rightarrow> Bindings" where
  "NoteWorkshopLoad workshopId b = (if workshop_digits workshopId then b\<lparr>bd_pending := workshopId\<rparr> else b)"

definition NoteMapLoaded :: "string \<Rightarrow> Bindings \<Rightarrow> Bindings" where
  "NoteMapLoaded loaded b =
     (let base = LoadedBaseName loaded; lid = WorkshopIdOfLoaded loaded;
          m1 = (if lid \<noteq> [] then map_put lid base (bd_bound b) else bd_bound b);
          m2 = (if bd_pending b \<noteq> [] \<and> (lid = [] \<or> lid = bd_pending b) then map_put (bd_pending b) base m1 else m1)
      in if base = [] then b
         else b\<lparr>bd_bound := (if length m2 > 256 then tl m2 else m2), bd_pending := []\<rparr>)"

text \<open>The id bound to a name; of several the last one in the order of the map.\<close>

definition bound_id :: "Bindings \<Rightarrow> string \<Rightarrow> string" where
  "bound_id b base = fold (\<lambda>kv acc. if snd kv = base then fst kv else acc) (bd_bound b) []"

definition ReloadEntry :: "Bindings \<Rightarrow> string \<Rightarrow> string" where
  "ReloadEntry b loaded =
     (let base = LoadedBaseName loaded; own = WorkshopIdOfLoaded loaded;
          wid = (if own = [] \<and> base \<noteq> [] then bound_id b base else own);
          entry = (if wid = [] then base else MakeEntry base wid)
      in if ValidEntry entry then entry else [])"

section \<open>Facts\<close>

lemma digits_no_slash: "list_all isdigit s \<Longrightarrow> CHR ''/'' \<notin> set s"
  by (auto simp: list_all_iff isdigit_def)

lemma until_slash_append: "CHR ''/'' \<notin> set s \<Longrightarrow> until_slash (s @ CHR ''/'' # t) = s"
  by (induction s) (auto simp: until_slash_def)

lemma until_slash_all: "CHR ''/'' \<notin> set s \<Longrightarrow> until_slash s = s"
  by (induction s) (auto simp: until_slash_def)

lemma starts_workshop: "starts_with ''workshop/'' (''workshop/'' @ s)" "\<not> starts_with ''ws:'' (''workshop/'' @ s)"
  by (simp_all add: starts_with_prefix)

lemma workshop_digits_slash: "workshop_digits w \<Longrightarrow> CHR ''/'' \<notin> set w"
  by (simp add: workshop_digits_def digits_no_slash)

lemma parse_workshop_id: "workshop_digits w \<Longrightarrow> ParseEntry (''workshop/'' @ w) = Some \<lparr>mr_workshop_id = w, mr_name = []\<rparr>"
  using workshop_digits_slash [of w]
  by (simp add: ParseEntry_def starts_workshop [simplified] until_slash_all Let_def)

lemma parse_workshop_name:
  "workshop_digits w \<Longrightarrow> SafeName n \<Longrightarrow> ParseEntry (''workshop/'' @ w @ ''/'' @ n) = Some \<lparr>mr_workshop_id = w, mr_name = n\<rparr>"
  using workshop_digits_slash [of w]
  by (simp add: ParseEntry_def starts_workshop [simplified] until_slash_append Let_def)

lemma parse_safe:
  assumes "ParseEntry e = Some r"
  shows "(mr_workshop_id r = [] \<or> workshop_digits (mr_workshop_id r)) \<and> (mr_name r = [] \<or> SafeName (mr_name r))
    \<and> (mr_workshop_id r \<noteq> [] \<or> mr_name r \<noteq> [])"
  using assms by (auto simp: ParseEntry_def Let_def SafeName_def workshop_digits_def split: if_splits)

lemma workshop_digits_safe: "workshop_digits w \<Longrightarrow> list_all name_char w"
  by (auto simp: workshop_digits_def list_all_iff name_char_def isalnum_def)

section \<open>Properties\<close>


text \<open>
  The entry made from a map name and a workshop id is the entry of that workshop map: it is read back
  to the same id and name, and loads by the id.
\<close>

theorem made_entry_read_back:
  assumes "workshop_digits wid" "ParseEntry name = Some r" "mr_name r = name"
  shows "ParseEntry (MakeEntry name wid) = Some \<lparr>mr_workshop_id = wid, mr_name = name\<rparr>
    \<and> LoadCommand (MakeEntry name wid) = ''host_workshop_map '' @ wid"
proof -
  have ne: "wid \<noteq> []" "name \<noteq> []" using assms(1) parse_safe [OF assms(2)] assms(2,3)
    by (auto simp: workshop_digits_def ParseEntry_def SafeName_def starts_with_def)
  have "SafeName name" using parse_safe [OF assms(2)] ne assms(3) by simp
  moreover have "MakeEntry name wid = ''workshop/'' @ wid @ ''/'' @ name" using ne assms by (simp add: MakeEntry_def)
  ultimately show ?thesis using parse_workshop_name [OF assms(1)] ne by (simp add: LoadCommand_def)
qed

lemma made_entry_read_back_witness:
  "LoadCommand (MakeEntry ''aim_map'' ''3084291314'') = ''host_workshop_map 3084291314''"
proof -
  have "workshop_digits ''3084291314''" "ParseEntry ''aim_map'' = Some \<lparr>mr_workshop_id = [], mr_name = ''aim_map''\<rparr>" by code_simp+
  then show ?thesis using made_entry_read_back [of "''3084291314''" "''aim_map''"] by simp
qed

section \<open>Bindings over a run\<close>

datatype MapEvent = WorkshopLoad string | MapLoaded string

fun map_step :: "MapEvent \<Rightarrow> Bindings \<Rightarrow> Bindings" where
  "map_step (WorkshopLoad wid) b = NoteWorkshopLoad wid b"
| "map_step (MapLoaded l) b = NoteMapLoaded l b"

definition bindings_ok :: "Bindings \<Rightarrow> bool" where
  "bindings_ok b \<longleftrightarrow>
     sorted_map (bd_bound b) \<and> length (bd_bound b) \<le> 256
     \<and> (\<forall>kv \<in> set (bd_bound b). workshop_digits (fst kv) \<and> snd kv \<noteq> [])
     \<and> (bd_pending b = [] \<or> workshop_digits (bd_pending b))"

lemma set_put: "set (map_put k v m) \<subseteq> insert (k, v) (set m)"
  by (induction k v m rule: map_put.induct) auto

lemma loaded_id_digits: "WorkshopIdOfLoaded l = [] \<or> workshop_digits (WorkshopIdOfLoaded l)"
  by (simp add: WorkshopIdOfLoaded_def Let_def)

lemma put_same: "sorted_map m \<Longrightarrow> map_put k v (map_put k v m) = map_put k v m"
  by (intro sorted_map_eqI sorted_put) simp_all

lemma put_ok:
  assumes "sorted_map m" "\<forall>kv \<in> set m. workshop_digits (fst kv) \<and> snd kv \<noteq> []" "workshop_digits k" "v \<noteq> []"
  shows "sorted_map (map_put k v m) \<and> (\<forall>kv \<in> set (map_put k v m). workshop_digits (fst kv) \<and> snd kv \<noteq> [])"
  using assms set_put [of k v m] by (auto intro: sorted_put)

lemma bindings_ok_loaded:
  assumes ok: "bindings_ok b"
  shows "bindings_ok (NoteMapLoaded l b)"
proof -
  let ?base = "LoadedBaseName l" and ?lid = "WorkshopIdOfLoaded l" and ?p = "bd_pending b"
  define m1 where "m1 = (if ?lid \<noteq> [] then map_put ?lid ?base (bd_bound b) else bd_bound b)"
  define m2 where "m2 = (if ?p \<noteq> [] \<and> (?lid = [] \<or> ?lid = ?p) then map_put ?p ?base m1 else m1)"
  have s: "sorted_map (bd_bound b)" "length (bd_bound b) \<le> 256" "\<forall>kv \<in> set (bd_bound b). workshop_digits (fst kv) \<and> snd kv \<noteq> []"
    "?p = [] \<or> workshop_digits ?p" using ok by (simp_all add: bindings_ok_def)
  have "sorted_map m2 \<and> (\<forall>kv \<in> set m2. workshop_digits (fst kv) \<and> snd kv \<noteq> [])" if "?base \<noteq> []"
    unfolding m2_def m1_def using s loaded_id_digits [of l] that by (auto intro!: put_ok [THEN conjunct1] dest!: put_ok [THEN conjunct2, rule_format, rotated -1])
  moreover have "length m2 \<le> 257"
    unfolding m2_def m1_def using s(1,2) length_put [of ?lid ?base "bd_bound b"] length_put [of ?p ?base "bd_bound b"]
    by (auto simp: put_same)
  moreover have "sorted_map (tl m)" "set (tl m) \<subseteq> set m" if "sorted_map m" for m :: "(string \<times> string) list"
    using that by (cases m; auto)+
  moreover have "NoteMapLoaded l b = (if ?base = [] then b else b\<lparr>bd_bound := (if length m2 > 256 then tl m2 else m2), bd_pending := []\<rparr>)"
    by (simp add: NoteMapLoaded_def m1_def m2_def Let_def)
  ultimately show ?thesis using ok by (auto simp: bindings_ok_def)
qed

lemma bindings_ok_step: "bindings_ok b \<Longrightarrow> bindings_ok (map_step e b)"
proof (cases e)
  case (MapLoaded l)
  then show "bindings_ok b \<Longrightarrow> bindings_ok (map_step e b)" by (simp add: bindings_ok_loaded)
qed (auto simp: NoteWorkshopLoad_def bindings_ok_def)

interpretation bindings: machine map_step "\<lambda>_. True" bindings_ok
  by unfold_locales (rule bindings_ok_step)

lemma LoadedBaseName_Nil [simp]: "LoadedBaseName [] = []"
  by code_simp

lemma parse_ws: "workshop_digits wid \<Longrightarrow> ParseEntry (''ws:'' @ wid) = Some \<lparr>mr_workshop_id = wid, mr_name = []\<rparr>"
  by (simp add: ParseEntry_def starts_with_prefix Let_def)

lemma entry_matches:
  assumes "ParseEntry e = Some r" "l \<noteq> []"
  shows "EntryMatchesLoaded b e l \<longleftrightarrow>
    (if mr_workshop_id r = [] then Lower (LoadedBaseName (mr_name r)) = Lower (LoadedBaseName l)
     else if WorkshopIdOfLoaded l \<noteq> [] then WorkshopIdOfLoaded l = mr_workshop_id r
     else let name = (if mr_name r = [] then BoundName b (mr_workshop_id r) else mr_name r)
          in name \<noteq> [] \<and> Lower (LoadedBaseName name) = Lower (LoadedBaseName l))"
  using assms by (simp add: EntryMatchesLoaded_def Let_def)

lemma bindings_ok_run: "bindings_ok (fold map_step es ResetBindings)"
  by (rule bindings.inv_run) (simp_all add: bindings_ok_def ResetBindings_def list_all_iff)

text \<open>
  A workshop map is known once it has loaded: whatever happened before, after the command for a workshop
  id and the load of a map that is not named by another id, an entry with that id matches the loaded map,
  as long as fewer than 256 ids are bound.
\<close>

theorem workshop_map_recognised:
  assumes wid: "workshop_digits wid" and base: "LoadedBaseName l \<noteq> []" "LoadedBaseName (LoadedBaseName l) = LoadedBaseName l"
    and own: "WorkshopIdOfLoaded l = [] \<or> WorkshopIdOfLoaded l = wid"
    and room: "length (bd_bound (fold map_step es ResetBindings)) < 256"
  shows "EntryMatchesLoaded (fold map_step (es @ [WorkshopLoad wid, MapLoaded l]) ResetBindings) (''ws:'' @ wid) l"
proof -
  define b where "b = fold map_step es ResetBindings"
  have s: "sorted_map (bd_bound b)" using bindings_ok_run by (simp add: b_def bindings_ok_def)
  have ne: "wid \<noteq> []" "l \<noteq> []" using wid base(1) by (auto simp: workshop_digits_def)
  let ?m = "map_put wid (LoadedBaseName l) (bd_bound b)"
  have len: "\<not> length ?m > 256" using length_put [of wid "LoadedBaseName l" "bd_bound b"] room by (simp add: b_def)
  have "NoteMapLoaded l (NoteWorkshopLoad wid b) = b\<lparr>bd_bound := ?m, bd_pending := []\<rparr>"
    using own wid ne base(1) len s by (auto simp: NoteMapLoaded_def NoteWorkshopLoad_def Let_def put_same)
  then have bound: "BoundName (fold map_step (es @ [WorkshopLoad wid, MapLoaded l]) ResetBindings) wid = LoadedBaseName l"
    by (simp add: BoundName_def b_def [symmetric])
  show ?thesis unfolding entry_matches [OF parse_ws [OF wid] ne(2)] Let_def using ne own base bound by auto
qed

lemma workshop_map_recognised_witness:
  "EntryMatchesLoaded (fold map_step [WorkshopLoad ''123'', MapLoaded ''aim_map''] ResetBindings) ''ws:123'' ''aim_map''"
proof -
  have "workshop_digits ''123''" "LoadedBaseName ''aim_map'' \<noteq> []" "LoadedBaseName (LoadedBaseName ''aim_map'') = LoadedBaseName ''aim_map''"
    "WorkshopIdOfLoaded ''aim_map'' = []" by code_simp+
  then show ?thesis using workshop_map_recognised [of "''123''" "''aim_map''" "[]"] by (simp add: ResetBindings_def)
qed

text \<open>
  With 256 ids bound, the first entry in the order of the ids is dropped: when that is the new one, the map
  that has just loaded is not recognised.
\<close>

lemma new_binding_dropped:
  assumes "bindings_ok b" "length (bd_bound b) = 256" "\<forall>k \<in> fst ` set (bd_bound b). wid < k" "workshop_digits wid"
    "LoadedBaseName l \<noteq> []" "WorkshopIdOfLoaded l = []"
  shows "BoundName (NoteMapLoaded l (NoteWorkshopLoad wid b)) wid = []"
proof -
  have first: "map_put wid (LoadedBaseName l) (bd_bound b) = (wid, LoadedBaseName l) # bd_bound b"
    using assms(3) by (cases "bd_bound b") auto
  have "map_of (bd_bound b) wid = None" using assms(3) by (auto simp: map_of_eq_None_iff)
  then show ?thesis
    using assms first by (simp add: NoteMapLoaded_def NoteWorkshopLoad_def BoundName_def Let_def workshop_digits_def)
qed

text \<open>A base name has no slash, so no prefix of a workshop entry.\<close>

lemma no_slash_prefix: "CHR ''/'' \<notin> set s \<Longrightarrow> \<not> starts_with ''workshop/'' s"
  by (auto simp: starts_with_prefix prefix_def)

lemma strip_ext_set: "set (strip_ext e s) \<subseteq> set s"
  by (auto simp: strip_ext_def dest: in_set_takeD)

lemma plain_base: "CHR ''/'' \<notin> set (LoadedBaseName l)"
proof -
  have "CHR ''/'' \<notin> set (after_last (\<lambda>c. c = CHR ''/'' \<or> c = CHR 0x5C) s)" for s
    by (auto simp: after_last_def dest: set_takeWhileD)
  then show ?thesis unfolding LoadedBaseName_def Let_def using strip_ext_set by blast
qed

lemma parse_plain_name:
  assumes "\<not> list_all isdigit s" "CHR ''/'' \<notin> set s" "ParseEntry s = Some r"
  shows "mr_name r = s \<and> mr_workshop_id r = [] \<and> SafeName s \<or> mr_name r = [] \<and> workshop_digits (mr_workshop_id r)"
  using assms no_slash_prefix [OF assms(2)] by (auto simp: ParseEntry_def Let_def split: if_splits)

lemma parse_name:
  assumes "SafeName s" "\<not> list_all isdigit s" "CHR ''/'' \<notin> set s"
  shows "ParseEntry s = Some \<lparr>mr_workshop_id = [], mr_name = s\<rparr>"
proof -
  have "\<not> starts_with ''ws:'' s"
    using assms(1) by (auto simp: SafeName_def starts_with_prefix prefix_def name_char_def isalnum_def isdigit_def isupper_def islower_def)
  then show ?thesis using assms no_slash_prefix by (simp add: ParseEntry_def)
qed

lemma made_entry_cases:
  assumes "workshop_digits wid" "\<not> list_all isdigit s" "CHR ''/'' \<notin> set s"
  shows "\<exists>n. ParseEntry (MakeEntry s wid) = Some \<lparr>mr_workshop_id = wid, mr_name = n\<rparr> \<and> (n = [] \<or> n = s)"
proof (cases "ParseEntry s")
  case None
  then have "MakeEntry s wid = ''workshop/'' @ wid" using assms(1) by (auto simp: MakeEntry_def workshop_digits_def)
  then show ?thesis using parse_workshop_id [OF assms(1)] by simp
next
  case (Some r)
  have ne: "s \<noteq> []" "wid \<noteq> []" using assms by (auto simp: workshop_digits_def)
  from parse_plain_name [OF assms(2,3) Some] show ?thesis
  proof
    assume "mr_name r = s \<and> mr_workshop_id r = [] \<and> SafeName s"
    moreover from this have "MakeEntry s wid = ''workshop/'' @ wid @ ''/'' @ s" using ne assms(1) Some by (simp add: MakeEntry_def)
    ultimately show ?thesis using parse_workshop_name [OF assms(1)] by simp
  next
    assume "mr_name r = [] \<and> workshop_digits (mr_workshop_id r)"
    then have "MakeEntry s wid = ''workshop/'' @ wid" using ne assms(1) Some by (simp add: MakeEntry_def)
    then show ?thesis using parse_workshop_id [OF assms(1)] by simp
  qed
qed

lemma bound_id_cases:
  assumes "bindings_ok b"
  shows "bound_id b v = [] \<or> workshop_digits (bound_id b v) \<and> BoundName b (bound_id b v) = v"
proof -
  have "fold (\<lambda>kv acc. if snd kv = v then fst kv else acc) m a = a \<or> (fold (\<lambda>kv acc. if snd kv = v then fst kv else acc) m a, v) \<in> set m"
    for m :: "(string \<times> string) list" and a
    by (induction m arbitrary: a) (auto, blast)
  then have "bound_id b v = [] \<or> (bound_id b v, v) \<in> set (bd_bound b)" unfolding bound_id_def by blast
  then show ?thesis
  proof
    assume i: "(bound_id b v, v) \<in> set (bd_bound b)"
    then have "workshop_digits (bound_id b v)" using assms by (auto simp: bindings_ok_def)
    moreover have "map_of (bd_bound b) (bound_id b v) = Some v" using i assms by (simp add: bindings_ok_def sorted_map_iff)
    ultimately show ?thesis by (simp add: BoundName_def)
  qed simp
qed

text \<open>
  Reloading loads the same map: for a loaded map with a plain name, the entry to load it again is
  recognised as the map that is loaded.
\<close>

theorem reload_entry_matches:
  assumes ok: "bindings_ok b" and base: "LoadedBaseName (LoadedBaseName l) = LoadedBaseName l" "\<not> list_all isdigit (LoadedBaseName l)"
    and name: "SafeName (LoadedBaseName l)" and some: "ReloadEntry b l \<noteq> []"
  shows "EntryMatchesLoaded b (ReloadEntry b l) l"
proof -
  let ?base = "LoadedBaseName l" and ?own = "WorkshopIdOfLoaded l"
  define wid where "wid = (if ?own = [] \<and> ?base \<noteq> [] then bound_id b ?base else ?own)"
  have ne: "?base \<noteq> []" "l \<noteq> []" using base(2) by auto
  have w: "wid = [] \<or> workshop_digits wid" "?own = [] \<Longrightarrow> wid \<noteq> [] \<Longrightarrow> BoundName b wid = ?base" "?own \<noteq> [] \<Longrightarrow> wid = ?own"
    using bound_id_cases [OF ok, of ?base] loaded_id_digits [of l] ne(1) by (auto simp: wid_def)
  have entry: "ReloadEntry b l = (if wid = [] then ?base else MakeEntry ?base wid)"
    using some by (auto simp: ReloadEntry_def wid_def Let_def split: if_splits)
  show ?thesis
  proof (cases "wid = []")
    case True
    then have e: "ReloadEntry b l = ?base" using entry by simp
    show ?thesis unfolding e entry_matches [OF parse_name [OF name base(2) plain_base] ne(2)] using base(1) by simp
  next
    case False
    then have wd: "workshop_digits wid" and e: "ReloadEntry b l = MakeEntry ?base wid" using w(1) entry by auto
    obtain n where p: "ParseEntry (MakeEntry ?base wid) = Some \<lparr>mr_workshop_id = wid, mr_name = n\<rparr>" and n: "n = [] \<or> n = ?base"
      using made_entry_cases [OF wd base(2) plain_base] by blast
    show ?thesis unfolding e entry_matches [OF p ne(2)] Let_def using w n False ne(1) base(1) by (auto split: if_splits)
  qed
qed

lemma reload_entry_matches_witness:
  "EntryMatchesLoaded ResetBindings (ReloadEntry ResetBindings ''maps/de_nuke.vpk'') ''maps/de_nuke.vpk''"
proof -
  have "LoadedBaseName (LoadedBaseName ''maps/de_nuke.vpk'') = LoadedBaseName ''maps/de_nuke.vpk''"
    "\<not> list_all isdigit (LoadedBaseName ''maps/de_nuke.vpk'')" "SafeName (LoadedBaseName ''maps/de_nuke.vpk'')"
    "ReloadEntry ResetBindings ''maps/de_nuke.vpk'' \<noteq> []" by code_simp+
  then show ?thesis by (intro reload_entry_matches) (simp_all add: bindings_ok_def ResetBindings_def)
qed

end
