(* ===== verification/Essentials.thy ===== *)
theory Essentials
  imports Name_Match Map_Names Json Simulation
begin

text \<open>
  The essentials plugin's rules (plugins/essentials/essentials_rules.cpp): console commands over chat, the
  list of admins and its file, players and maps by name, the default map per mode and its file, and the
  panels around a map change. \<open>DefaultMaps\<close> is a \<open>std::map\<close>. The translator of the panels is a parameter.
\<close>

section \<open>Console commands\<close>

definition kRefused :: "string list" where
  "kRefused =
     [''quit'', ''exit'', ''_restart'', ''restart'', ''killserver'', ''shutdown'', ''sv_setsteamaccount'', ''rcon_password'',
      ''rcon'', ''readyup_license_key'', ''alias'']"

definition word_gap :: "char \<Rightarrow> bool" where
  "word_gap c \<longleftrightarrow> c = space_char \<or> c = CHR 0x09 \<or> c = quote_char"

definition first_word :: "string \<Rightarrow> string" where
  "first_word part = takeWhile (\<lambda>c. \<not> word_gap c) (dropWhile word_gap part)"

definition fleet_command :: "string \<Rightarrow> string \<Rightarrow> bool" where
  "fleet_command word part \<longleftrightarrow>
     word = ''fleet'' \<or> starts_with ''ru_fleet'' word \<or> word = ''ru'' \<and> contains ''fleet'' part"

definition part_refusal :: "string \<Rightarrow> string" where
  "part_refusal raw =
     (let part = Lower raw; word = first_word part
      in if dropWhile word_gap part = [] then []
         else if word \<in> set kRefused then ''`'' @ word @ ''` is not allowed over .rcon''
         else if fleet_command word part then ''the fleet link'' @ [CHR 0x27] @ ''s own commands are not allowed over .rcon''
         else [])"

fun parts_refusal :: "string list \<Rightarrow> string" where
  "parts_refusal [] = []"
| "parts_refusal (p # ps) = (if part_refusal p \<noteq> [] then part_refusal p else parts_refusal ps)"

definition RconRefusal :: "string \<Rightarrow> string" where
  "RconRefusal command =
     (if list_all (\<lambda>c. c = space_char \<or> c = CHR 0x09) command then ''usage: .rcon <command>''
      else if length command > 512 then ''the command is longer than 512 bytes''
      else if list_ex (\<lambda>c. c = newline_char \<or> c = CHR 0x0D \<or> c = CHR 0x00) command then ''one line only''
      else parts_refusal (split_fields (CHR '';'') command))"

section \<open>Admins\<close>

record Admin =
  ad_steamid64 :: u64
  ad_name :: string

definition IsAdmin :: "Admin list \<Rightarrow> u64 \<Rightarrow> bool" where
  "IsAdmin admins sid \<longleftrightarrow> sid \<noteq> 0 \<and> list_ex (\<lambda>a. ad_steamid64 a = sid) admins"

definition AddAdmin :: "Admin list \<Rightarrow> u64 \<Rightarrow> string \<Rightarrow> bool \<times> Admin list" where
  "AddAdmin admins sid name =
     (if sid = 0 \<or> IsAdmin admins sid then (False, admins) else (True, admins @ [\<lparr>ad_steamid64 = sid, ad_name = name\<rparr>]))"

definition RemoveAdmin :: "Admin list \<Rightarrow> u64 \<Rightarrow> bool \<times> Admin list" where
  "RemoveAdmin admins sid =
     (if list_ex (\<lambda>a. ad_steamid64 a = sid) admins then (True, filter (\<lambda>a. ad_steamid64 a \<noteq> sid) admins) else (False, admins))"

definition blank_text :: "string \<Rightarrow> bool" where
  "blank_text s \<longleftrightarrow> list_all (\<lambda>c. c = space_char \<or> c = CHR 0x09 \<or> c = CHR 0x0D \<or> c = newline_char) s"

fun id_of_json :: "json \<Rightarrow> u64" where
  "id_of_json (JString s) = ParseSteamId64 s"
| "id_of_json (JInt i) = (if i > 0 then ParseSteamId64 (to_string i) else 0)"
| "id_of_json _ = 0"

definition admin_of_json :: "json \<Rightarrow> Admin" where
  "admin_of_json a =
     \<lparr>ad_steamid64 = (case (if IsObject a then Find a ''steamid64'' else Some a) of None \<Rightarrow> 0 | Some j \<Rightarrow> id_of_json j),
      ad_name = (case (if IsObject a then Find a ''name'' else None) of Some (JString n) \<Rightarrow> n | _ \<Rightarrow> [])\<rparr>"

definition take_admin :: "json \<Rightarrow> Admin list \<Rightarrow> Admin list" where
  "take_admin a out =
     (let e = admin_of_json a in if ad_steamid64 e \<noteq> 0 \<and> \<not> IsAdmin out (ad_steamid64 e) then out @ [e] else out)"

definition ParseAdmins :: "string \<Rightarrow> Admin list \<times> bool" where
  "ParseAdmins text =
     (if blank_text text then ([], True)
      else case Parse text of
             Inl _ \<Rightarrow> ([], False)
           | Inr doc \<Rightarrow>
               if \<not> IsObject doc then ([], False)
               else (case Find doc ''admins'' of Some (JArray xs) \<Rightarrow> (fold take_admin xs [], True) | _ \<Rightarrow> ([], True)))"

definition admin_json :: "Admin \<Rightarrow> json" where
  "admin_json a = JObject [(''steamid64'', JString (u64_string (ad_steamid64 a))), (''name'', JString (ad_name a))]"

definition AdminsJson :: "Admin list \<Rightarrow> string" where
  "AdminsJson admins =
     Dump (JObject [(''version'', JInt 1), (''admins'', JArray (map admin_json admins))]) @ [newline_char]"

section \<open>Players\<close>

record Player =
  pl_steamid64 :: u64
  pl_name :: string

fun find_player :: "string \<Rightarrow> Player list \<Rightarrow> Player list \<Rightarrow> Player option \<times> Player list" where
  "find_player f hits [] = (None, hits)"
| "find_player f hits (p # ps) =
     (if Lower (pl_name p) = f then (Some p, hits)
      else find_player f (if contains f (Lower (pl_name p)) then hits @ [p] else hits) ps)"

definition FindPlayer :: "Player list \<Rightarrow> string \<Rightarrow> string + Player" where
  "FindPlayer players fragment =
     (if fragment = [] then Inl (''give a SteamID64 or part of a connected player'' @ [CHR 0x27] @ ''s name'')
      else case find_player (Lower fragment) [] players of
             (Some p, _) \<Rightarrow> Inr p
           | (None, [p]) \<Rightarrow> Inr p
           | (None, []) \<Rightarrow> Inl (''no connected player matches '' @ [quote_char] @ fragment @ [quote_char])
           | (None, hits) \<Rightarrow>
               Inl (dec_nat (length hits) @ '' players match '' @ [quote_char] @ fragment @ [quote_char] @ ''; be more specific''))"

section \<open>Maps\<close>

definition MapArgToEntry :: "string \<Rightarrow> string" where
  "MapArgToEntry arg =
     (let l = Lower arg
      in if \<not> contains ''steamcommunity.com/'' l then arg
         else case (case find_sub ''?id='' l of Some p \<Rightarrow> Some p | None \<Rightarrow> find_sub ''&id='' l) of
                None \<Rightarrow> arg
              | Some p0 \<Rightarrow>
                  let n = length (takeWhile isdigit (drop (p0 + 4) l))
                  in if n > 0 then take n (drop (p0 + 4) arg) else arg)"

definition MapCommandBlocked :: "string \<Rightarrow> bool" where
  "MapCommandBlocked ruMode \<longleftrightarrow> ruMode = ''match_live'' \<or> ruMode = ''match_knife'' \<or> ruMode = ''knife''"

definition KnownDefaultMapModes :: "string list" where
  "KnownDefaultMapModes = [''ffa'', ''tdm'', ''practice'', ''warmup'', ''retakes'']"

definition ValidModeName :: "string \<Rightarrow> bool" where
  "ValidModeName mode \<longleftrightarrow> mode \<noteq> [] \<and> length mode \<le> 32 \<and> list_all (\<lambda>c. islower c \<or> isdigit c \<or> c = CHR ''_'') mode"

type_synonym DefaultMaps = "(string \<times> string) list"

definition SetDefaultMap :: "string \<Rightarrow> string \<Rightarrow> DefaultMaps \<Rightarrow> string + DefaultMaps" where
  "SetDefaultMap mode mapArg maps =
     (let m = Lower mode; entry = MapArgToEntry mapArg
      in if \<not> ValidModeName m
         then Inl ([quote_char] @ take 40 mode @ [quote_char] @ '' is not a mode name (a-z, 0-9, _)'')
         else if mapArg = [] \<or> Lower mapArg = ''clear'' then Inr (map_erase m maps)
         else if \<not> ValidEntry entry
         then Inl ([quote_char] @ take 64 mapArg @ [quote_char] @ '' is not a map name, workshop id or workshop link'')
         else Inr (map_put m entry maps))"

definition set_or_keep :: "string \<times> json \<Rightarrow> DefaultMaps \<Rightarrow> DefaultMaps" where
  "set_or_keep kv maps =
     (case snd kv of
        JString s \<Rightarrow> (case SetDefaultMap (fst kv) s maps of Inl _ \<Rightarrow> maps | Inr m \<Rightarrow> m)
      | _ \<Rightarrow> maps)"

definition ParseDefaultMaps :: "string \<Rightarrow> DefaultMaps \<times> bool" where
  "ParseDefaultMaps text =
     (if blank_text text then ([], True)
      else case Parse text of
             Inl _ \<Rightarrow> ([], False)
           | Inr doc \<Rightarrow>
               if \<not> IsObject doc then ([], False)
               else (case Find doc ''maps'' of Some (JObject kvs) \<Rightarrow> (fold set_or_keep kvs [], True) | _ \<Rightarrow> ([], True)))"

definition DefaultMapsJson :: "DefaultMaps \<Rightarrow> string" where
  "DefaultMapsJson maps =
     Dump (JObject [(''version'', JInt 1), (''maps'', JObject (map (\<lambda>kv. (fst kv, JString (snd kv))) maps))]) @ [newline_char]"

definition DefaultMapFor :: "DefaultMaps \<Rightarrow> string \<Rightarrow> string" where
  "DefaultMapFor maps mode = (case map_of maps (Lower mode) of None \<Rightarrow> [] | Some e \<Rightarrow> e)"

section \<open>Panels\<close>

type_synonym Tr = "string \<Rightarrow> (string \<times> string) list \<Rightarrow> string"

definition escape_char :: "char \<Rightarrow> string" where
  "escape_char ch =
     (if ch = CHR ''<'' then ''&lt;'' else if ch = CHR ''>'' then ''&gt;'' else if ch = CHR ''&'' then ''&amp;''
      else if ch = quote_char \<or> ch = CHR 0x27 then '' '' else [ch])"

definition EscapeHtml :: "string \<Rightarrow> string" where
  "EscapeHtml s = concat (map escape_char s)"

definition font_l :: string where
  "font_l = ''<font class='' @ [CHR 0x27] @ ''fontSize-l'' @ [CHR 0x27] @ '' color='' @ [CHR 0x27] @ ''#ffffff'' @ [CHR 0x27] @ ''>''"

definition font_m :: string where
  "font_m = ''<font class='' @ [CHR 0x27] @ ''fontSize-m'' @ [CHR 0x27] @ '' color='' @ [CHR 0x27] @ ''#d4d4d8'' @ [CHR 0x27] @ ''>''"

definition MapChangePanelHtml :: "Tr \<Rightarrow> string \<Rightarrow> bool \<Rightarrow> string" where
  "MapChangePanelHtml tr name reload =
     font_l @ tr (if reload then ''panel.reloading'' else ''panel.changing'') [(''map'', EscapeHtml name)]
     @ ''</font><br>'' @ font_m @ tr ''panel.hold_on'' [] @ ''</font>''"

text \<open>The bar: how many of its blocks are filled.\<close>

definition bar_fraction :: "u64 \<Rightarrow> u64 \<Rightarrow> real" where
  "bar_fraction downloaded whole =
     (let d = (if whole > 0 \<and> downloaded > whole then whole else downloaded)
      in if whole > 0 then of_nat (unat d) / of_nat (unat whole) else 0)"

definition kBlock :: string where
  "kBlock = [CHR 0xE2, CHR 0x96, CHR 0x88]"

definition coloured :: "string \<Rightarrow> nat \<Rightarrow> string" where
  "coloured colour n =
     (if n > 0 then ''<font color='' @ [CHR 0x27] @ colour @ [CHR 0x27] @ ''>'' @ concat (replicate n kBlock) @ ''</font>'' else [])"

definition bar_filled :: "u64 \<Rightarrow> u64 \<Rightarrow> int \<Rightarrow> int" where
  "bar_filled downloaded whole segments = \<lfloor>bar_fraction downloaded whole * of_int segments + 1 / 10 ^ 9\<rfloor>"

definition DownloadPanelHtml :: "Tr \<Rightarrow> string \<Rightarrow> u64 \<Rightarrow> u64 \<Rightarrow> int \<Rightarrow> string" where
  "DownloadPanelHtml tr name downloaded whole segments =
     (let segs = max 1 segments; d = (if whole > 0 \<and> downloaded > whole then whole else downloaded);
          filled = bar_filled downloaded whole segs;
          stats = (if whole > 0
                   then fixed 1 (bar_fraction downloaded whole * 100) @ ''% &#183; '' @ fixed 1 (of_nat (unat d) / 1048576) @ '' / ''
                     @ fixed 1 (of_nat (unat whole) / 1048576) @ '' MB''
                   else take 95 (tr ''panel.waiting_steam'' []))
      in font_l @ tr ''panel.downloading'' [(''map'', EscapeHtml name)] @ ''</font><br>''
         @ coloured ''#4ade80'' (nat filled) @ coloured ''#3f3f46'' (nat (segs - filled))
         @ ''<br>'' @ font_m @ stats @ ''</font>'')"

section \<open>Map names\<close>

text \<open>Without a prefix of two or three letters.\<close>

definition StripPrefix :: "string \<Rightarrow> string" where
  "StripPrefix m = (let u = length (takeWhile (\<lambda>c. c \<noteq> CHR ''_'') m) in if u < length m \<and> (u = 2 \<or> u = 3) then drop (u + 1) m else m)"

record MapMatch =
  mm_name :: string
  mm_ambiguous :: "string list"

definition no_map :: MapMatch where
  "no_map = \<lparr>mm_name = [], mm_ambiguous = []\<rparr>"

definition pick_map :: "string list \<Rightarrow> nat list \<Rightarrow> MapMatch" where
  "pick_map rawMaps idx =
     (case idx of
        [i] \<Rightarrow> \<lparr>mm_name = rawMaps ! i, mm_ambiguous = []\<rparr>
      | _ \<Rightarrow> \<lparr>mm_name = [], mm_ambiguous = map ((!) rawMaps) (take 5 idx)\<rparr>)"

definition kPrefixes :: "string list" where
  "kPrefixes = [''de_'', ''cs_'', ''ar_'', ''dz_'', ''gd_'', ''aim_'', ''fy_'', ''awp_'']"

text \<open>The first map with a standard prefix before the query.\<close>

definition prefixed :: "string \<Rightarrow> string list \<Rightarrow> nat list" where
  "prefixed q maps = concat (map (\<lambda>pre. matching (\<lambda>m. m = pre @ q) maps) kPrefixes)"

definition shortest_start :: "string list \<Rightarrow> nat list \<Rightarrow> nat list" where
  "shortest_start maps starts =
     (if length starts > 1
      then let s = sort_key (\<lambda>i. length (maps ! i)) starts
           in if length (maps ! (s ! 0)) < length (maps ! (s ! 1)) then take 1 s else s
      else starts)"

definition ResolveMapName :: "string \<Rightarrow> string list \<Rightarrow> MapMatch" where
  "ResolveMapName rawQuery rawMaps =
     (let q = Lower rawQuery; maps = map Lower rawMaps; qs = StripPrefix q;
          same = matching (\<lambda>m. m = q) maps;
          bare = matching (\<lambda>m. StripPrefix m = qs) maps;
          inside = matching (contains q) maps;
          starts = filter (\<lambda>i. starts_with q (StripPrefix (maps ! i))) inside
      in if q = [] \<or> rawMaps = [] then no_map
         else if same \<noteq> [] then pick_map rawMaps (take 1 same)
         else if prefixed q maps \<noteq> [] then pick_map rawMaps (take 1 (prefixed q maps))
         else if bare \<noteq> [] then pick_map rawMaps bare
         else if length q \<ge> 3 \<and> starts \<noteq> [] then pick_map rawMaps (shortest_start maps starts)
         else if length q \<ge> 3 \<and> inside \<noteq> [] then pick_map rawMaps inside
         else case closest qs (map StripPrefix maps) of
                (Some best, idx) \<Rightarrow> if best \<le> max 1 (length qs div 3) then pick_map rawMaps idx else no_map
              | (None, _) \<Rightarrow> no_map)"

section \<open>Facts\<close>

lemma Parse_line: "json_ok j (Suc max_depth) \<Longrightarrow> Parse (Dump j @ [newline_char]) = Inr j"
proof -
  assume j: "json_ok j (Suc max_depth)"
  have "delimited [newline_char]" "Ws [newline_char] = []" by (simp_all add: delimited_def is_numchar_def isdigit_def Ws_def is_ws_def)
  then show ?thesis using status.Value_dump [OF j] unfolding Parse_def parse_text_def Dump_def by simp
qed

lemma parts_refusal_iff: "parts_refusal ps = [] \<longleftrightarrow> (\<forall>p \<in> set ps. part_refusal p = [])"
  by (induction ps) auto

lemma split_loop_mid: "split_loop d cur (a @ d # s) = split_loop d cur a @ split_loop d [] s"
  by (induction a arbitrary: cur) auto

lemma split_loop_hd: "\<exists>ts. split_loop d cur s = (cur @ takeWhile (\<lambda>c. c \<noteq> d) s) # ts"
  by (induction s arbitrary: cur) (auto, metis append_Cons append_Nil append_assoc)

lemma part_in_split:
  assumes "pre = [] \<or> last pre = d"
  shows "takeWhile (\<lambda>c. c \<noteq> d) s \<in> set (split_fields d (pre @ s))"
proof (cases pre rule: rev_cases)
  case Nil
  then show ?thesis using split_loop_hd [of d "[]" s] by (auto simp: split_fields_def)
next
  case (snoc a c)
  with assms show ?thesis using split_loop_hd [of d "[]" s] by (auto simp: split_fields_def split_loop_mid)
qed

lemma tolower_gap [simp]: "word_gap (tolower c) \<longleftrightarrow> word_gap c"
proof (cases "isupper c")
  case True
  then have "byte (tolower c) = byte c + 32" "65 \<le> byte c" "byte c \<le> 90" by (auto simp: byte_tolower isupper_def)
  then have "tolower c \<notin> {space_char, CHR 0x09, quote_char}" "c \<notin> {space_char, CHR 0x09, quote_char}" by auto
  then show ?thesis by (simp add: word_gap_def)
qed (simp add: tolower_def)

lemma first_word_Lower: "first_word (Lower s) = Lower (first_word s)"
  by (simp add: first_word_def Lower_def dropWhile_map takeWhile_map comp_def)

lemma first_word_is:
  assumes "list_all word_gap gap" "list_all (\<lambda>c. \<not> word_gap c) word" "word \<noteq> []" "rest = [] \<or> word_gap (hd rest)"
  shows "first_word (gap @ word @ rest) = word"
proof -
  have "dropWhile word_gap (gap @ word @ rest) = word @ rest"
    using assms(1-3) by (cases word) (auto simp: dropWhile_append1 dropWhile_append2 list_all_iff)
  moreover have "takeWhile (\<lambda>c. \<not> word_gap c) (word @ rest) = word"
    using assms(2,4) by (cases rest) (auto simp: takeWhile_append2 list_all_iff)
  ultimately show ?thesis by (simp add: first_word_def)
qed

section \<open>Properties\<close>

text \<open>
  C38: No command that stops the server, changes its account or the fleet link runs over chat: when a text is
  let through, no part of it, at its start or after any semicolon, quoted or not and in any case, begins with
  a refused word.
\<close>

theorem rcon_refused_words:
  assumes "RconRefusal command = []" and cmd: "command = pre @ gap @ word @ rest" and "pre = [] \<or> last pre = CHR '';''"
    and "list_all word_gap gap" "word \<noteq> []" "list_all (\<lambda>c. \<not> word_gap c \<and> c \<noteq> CHR '';'') word"
    and "rest = [] \<or> word_gap (hd rest) \<or> hd rest = CHR '';''"
  shows "Lower word \<notin> set kRefused \<and> Lower word \<noteq> ''fleet'' \<and> \<not> starts_with ''ru_fleet'' (Lower word)"
proof -
  let ?tail = "takeWhile (\<lambda>c. c \<noteq> CHR '';'') rest"
  have semi: "\<forall>c \<in> set gap. c \<noteq> CHR '';''" using assms(4) by (auto simp: list_all_iff word_gap_def)
  have part: "takeWhile (\<lambda>c. c \<noteq> CHR '';'') (gap @ word @ rest) = gap @ word @ ?tail"
    using semi assms(6) by (simp add: takeWhile_append2 list_all_iff)
  have tail: "?tail = [] \<or> word_gap (hd ?tail)" using assms(7) by (cases rest) auto
  have w: "first_word (gap @ word @ ?tail) = word" using assms(4-6) tail by (intro first_word_is) (auto simp: list_all_iff)
  have "gap @ word @ ?tail \<in> set (split_fields (CHR '';'') command)" unfolding cmd part [symmetric] by (rule part_in_split [OF assms(3)])
  moreover have "parts_refusal (split_fields (CHR '';'') command) = []" using assms(1) by (auto simp: RconRefusal_def split: if_splits)
  ultimately have r: "part_refusal (gap @ word @ ?tail) = []" by (simp add: parts_refusal_iff)
  have "dropWhile word_gap (Lower (gap @ word @ ?tail)) \<noteq> []"
  proof
    assume "dropWhile word_gap (Lower (gap @ word @ ?tail)) = []"
    then have "first_word (Lower (gap @ word @ ?tail)) = []" by (simp only: first_word_def takeWhile.simps)
    then show False using assms(5) unfolding first_word_Lower w by simp
  qed
  with r show ?thesis unfolding part_refusal_def Let_def first_word_Lower w by (auto simp: fleet_command_def split: if_splits)
qed

lemma rcon_say: "RconRefusal ''say'' = []"
proof -
  have "Lower ''say'' = ''say''" by (simp add: Lower_def tolower_def isupper_def)
  then have "part_refusal ''say'' = []"
    by (simp add: part_refusal_def first_word_def word_gap_def kRefused_def fleet_command_def starts_with_def)
  then show ?thesis by (simp add: RconRefusal_def split_fields_def)
qed

lemma rcon_refused_words_witness: "Lower ''say'' \<notin> set kRefused"
proof -
  have "list_all (\<lambda>c. \<not> word_gap c \<and> c \<noteq> CHR '';'') ''say''" by (simp add: word_gap_def)
  then show ?thesis using rcon_refused_words [OF rcon_say, of "[]" "[]" "''say''" "[]"] by simp
qed

section \<open>The list of admins\<close>

definition admins_ok :: "Admin list \<Rightarrow> bool" where
  "admins_ok as \<longleftrightarrow> distinct (map ad_steamid64 as) \<and> (\<forall>a \<in> set as. ad_steamid64 a \<noteq> 0)"

datatype AdminOp = Add_admin u64 string | Remove_admin u64

fun admin_step :: "AdminOp \<Rightarrow> Admin list \<Rightarrow> Admin list" where
  "admin_step (Add_admin sid name) as = snd (AddAdmin as sid name)"
| "admin_step (Remove_admin sid) as = snd (RemoveAdmin as sid)"

lemma admins_ok_step: "admins_ok as \<Longrightarrow> admins_ok (admin_step op as)"
  by (cases op) (auto simp: admins_ok_def AddAdmin_def RemoveAdmin_def IsAdmin_def list_ex_iff distinct_map inj_on_def)

interpretation admins: machine admin_step "\<lambda>_. True" admins_ok
  by unfold_locales (rule admins_ok_step)

lemma IsAdmin_iff: "IsAdmin as sid \<longleftrightarrow> sid \<noteq> 0 \<and> sid \<in> ad_steamid64 ` set as"
  by (auto simp: IsAdmin_def list_ex_iff)

lemma IsAdmin_step: "IsAdmin (admin_step op as) sid \<longleftrightarrow>
    (case op of Add_admin s n \<Rightarrow> IsAdmin as sid \<or> sid = s \<and> s \<noteq> 0 | Remove_admin s \<Rightarrow> IsAdmin as sid \<and> sid \<noteq> s)"
  by (cases op) (auto simp: AddAdmin_def RemoveAdmin_def IsAdmin_iff list_ex_iff)

lemma admin_json_read: "steam64 (ad_steamid64 a) \<Longrightarrow> admin_of_json (admin_json a) = a"
  by (simp add: admin_of_json_def admin_json_def Find_def ParseSteamId64_text)

lemma take_admins:
  "distinct (map ad_steamid64 (out @ as)) \<Longrightarrow> \<forall>a \<in> set as. steam64 (ad_steamid64 a) \<Longrightarrow> fold take_admin (map admin_json as) out = out @ as"
proof (induction as arbitrary: out)
  case (Cons a as)
  have "ad_steamid64 a \<noteq> 0" using Cons.prems(2) by (auto simp: steam64_def)
  moreover have "\<not> IsAdmin out (ad_steamid64 a)" using Cons.prems(1) by (auto simp: IsAdmin_iff)
  ultimately have "take_admin (admin_json a) out = out @ [a]" using Cons.prems(2) by (simp add: take_admin_def admin_json_read Let_def)
  with Cons show ?case by simp
qed simp

lemma admins_doc_ok: "json_ok (JObject [(''version'', JInt 1), (''admins'', JArray (map admin_json as))]) (Suc max_depth)"
  by (simp add: max_depth_def in_int64_def list_all_iff admin_json_def)

lemma not_blank_Dump: "\<not> blank_text (Dump (JObject kvs) @ s)"
  by (simp add: blank_text_def Dump_def)

text \<open>
  Admins survive a restart: after any additions and removals the file that is written is read back to
  the same list, in the same order, for ids that are Steam ids.
\<close>

theorem admins_read_back:
  assumes "as = fold admin_step ops []" "\<forall>a \<in> set as. steam64 (ad_steamid64 a)"
  shows "ParseAdmins (AdminsJson as) = (as, True)"
proof -
  have "admins_ok as" unfolding assms(1) by (rule admins.inv_run) (simp_all add: admins_ok_def list_all_iff)
  then have "fold take_admin (map admin_json as) [] = as" using take_admins [of "[]" as] assms(2) by (simp add: admins_ok_def)
  then show ?thesis
    unfolding ParseAdmins_def AdminsJson_def Parse_line [OF admins_doc_ok] by (simp add: not_blank_Dump Find_def)
qed

lemma admins_read_back_witness:
  "ParseAdmins (AdminsJson [\<lparr>ad_steamid64 = 76561198000000001, ad_name = ''Ann''\<rparr>]) = ([\<lparr>ad_steamid64 = 76561198000000001, ad_name = ''Ann''\<rparr>], True)"
  by (rule admins_read_back [of _ "[Add_admin 76561198000000001 ''Ann'']"]) (simp_all add: AddAdmin_def IsAdmin_def steam64_def)

section \<open>Default maps\<close>

definition defaults_ok :: "DefaultMaps \<Rightarrow> bool" where
  "defaults_ok m \<longleftrightarrow>
     sorted_map m \<and> (\<forall>kv \<in> set m. ValidModeName (fst kv) \<and> ValidEntry (snd kv) \<and> Lower (snd kv) \<noteq> ''clear'')"

lemma map_arg_cases: "MapArgToEntry arg = arg \<or> MapArgToEntry arg \<noteq> [] \<and> list_all isdigit (Lower (MapArgToEntry arg))"
proof -
  have "list_all isdigit (Lower (take (length (takeWhile isdigit (drop p (Lower arg)))) (drop p arg)))" for p
  proof -
    have "Lower (take n (drop p arg)) = take n (drop p (Lower arg))" for n by (simp add: Lower_def take_map drop_map)
    then show ?thesis by (simp add: takeWhile_eq_take [symmetric] list_all_iff) (meson set_takeWhileD)
  qed
  then show ?thesis by (auto simp: MapArgToEntry_def Let_def split: option.split)
qed

lemma entry_not_clear: "Lower arg \<noteq> ''clear'' \<Longrightarrow> Lower (MapArgToEntry arg) \<noteq> ''clear''"
  using map_arg_cases [of arg] by (auto simp: isdigit_def)

lemma SetDefaultMap_ok:
  assumes "defaults_ok m" "SetDefaultMap mode arg m = Inr m'"
  shows "defaults_ok m'"
proof -
  have erase: "defaults_ok (map_erase k m)" for k
    using assms(1) sorted_erase [of m k] by (auto simp: defaults_ok_def map_erase_def)
  have put: "defaults_ok (map_put k e m)" if "ValidModeName k" "ValidEntry e" "Lower e \<noteq> ''clear''" for k e
    using assms(1) that set_put [of k e m] sorted_put [of m k e] by (auto simp: defaults_ok_def)
  show ?thesis
    using assms(2) erase put entry_not_clear [of arg] by (auto simp: SetDefaultMap_def Let_def split: if_splits)
qed

lemma tolower_mode: "islower c \<or> isdigit c \<or> c = CHR ''_'' \<Longrightarrow> tolower c = c"
  by (auto simp: tolower_def isupper_def islower_def isdigit_def)

lemma Lower_mode: "ValidModeName m \<Longrightarrow> Lower m = m"
  by (auto simp: ValidModeName_def Lower_def list_all_iff tolower_mode intro!: map_idI)

text \<open>A valid entry is no link: it has neither a question mark nor an ampersand.\<close>

definition entry_char :: "char \<Rightarrow> bool" where
  "entry_char c \<longleftrightarrow> name_char c \<or> c = CHR '':''"

lemma slash_split: "CHR ''/'' \<in> set s \<Longrightarrow> s = until_slash s @ CHR ''/'' # drop (length (until_slash s) + 1) s"
proof -
  assume "CHR ''/'' \<in> set s"
  then obtain a b where s: "s = a @ CHR ''/'' # b" and "CHR ''/'' \<notin> set a" by (meson split_list_first)
  then show ?thesis by (simp add: until_slash_append)
qed

lemma entry_chars:
  assumes "ParseEntry e = Some r"
  shows "list_all entry_char e"
proof -
  have dig: "list_all entry_char w" if "workshop_digits w" for w
    using workshop_digits_safe [OF that] by (simp add: list_all_iff entry_char_def)
  have name: "list_all entry_char n" if "SafeName n" for n using that by (simp add: SafeName_def list_all_iff entry_char_def)
  have lit: "list_all entry_char ''ws:''" "list_all entry_char ''workshop/''" by code_simp+
  consider (ws) "starts_with ''ws:'' e" | (shop) "starts_with ''workshop/'' e" "\<not> starts_with ''ws:'' e"
    | (other) "\<not> starts_with ''ws:'' e" "\<not> starts_with ''workshop/'' e" by blast
  then show ?thesis
  proof cases
    case ws
    then have "e = ''ws:'' @ drop 3 e" "workshop_digits (drop 3 e)"
      using assms by (auto simp: starts_with_prefix prefix_def ParseEntry_def Let_def split: if_splits)
    then show ?thesis using lit(1) dig by (metis list_all_append)
  next
    case shop
    then have e: "e = ''workshop/'' @ drop 9 e" by (auto simp: starts_with_prefix prefix_def)
    have w: "workshop_digits (until_slash (drop 9 e))"
      and n: "CHR ''/'' \<in> set (drop 9 e) \<Longrightarrow> SafeName (drop (length (until_slash (drop 9 e)) + 1) (drop 9 e))"
      using assms shop by (auto simp: ParseEntry_def Let_def split: if_splits)
    have "list_all entry_char (drop 9 e)"
    proof (cases "CHR ''/'' \<in> set (drop 9 e)")
      case True
      have "entry_char (CHR ''/'')" by (simp add: entry_char_def name_char_def)
      with dig [OF w] name [OF n [OF True]] show ?thesis by (subst slash_split [OF True]) (simp only: list_all_append list.pred_inject)
    next
      case False
      with dig [OF w] show ?thesis by (simp add: until_slash_all)
    qed
    with e lit(2) show ?thesis by (metis list_all_append)
  next
    case other
    then show ?thesis using assms dig name by (auto simp: ParseEntry_def Let_def split: if_splits)
  qed
qed

lemma not_link: "list_all entry_char e \<Longrightarrow> find_sub (CHR ''?'' # q) (Lower e) = None \<and> find_sub (CHR ''&'' # q) (Lower e) = None"
proof -
  assume e: "list_all entry_char e"
  have "tolower c \<noteq> CHR ''?'' \<and> tolower c \<noteq> CHR ''&''" if "entry_char c" for c
  proof -
    have "65 \<le> byte (tolower c) \<or> tolower c = c" by (auto simp: byte_tolower tolower_def isupper_def)
    then show ?thesis using that
      by (auto simp: entry_char_def name_char_def isalnum_def isdigit_def isupper_def islower_def)
  qed
  then have "\<forall>c \<in> set e. tolower c \<noteq> CHR ''?'' \<and> tolower c \<noteq> CHR ''&''" using e by (simp add: list_all_iff)
  then have "CHR ''?'' \<notin> set (Lower e)" "CHR ''&'' \<notin> set (Lower e)" by (auto simp: Lower_def)
  moreover have "find_sub (c # q) s = None" if "c \<notin> set s" for c and s :: string
    using that by (induction s) (auto simp: starts_with_prefix)
  ultimately show ?thesis by blast
qed

lemma entry_no_link: "ValidEntry e \<Longrightarrow> MapArgToEntry e = e"
  using not_link entry_chars by (auto simp: ValidEntry_def MapArgToEntry_def Let_def)

lemma SetDefaultMap_put:
  assumes "ValidModeName k" "ValidEntry e" "Lower e \<noteq> ''clear''"
  shows "SetDefaultMap k e m = Inr (map_put k e m)"
proof -
  have "e \<noteq> []" using assms(2) by (auto simp: ValidEntry_def ParseEntry_def starts_with_def SafeName_def)
  then show ?thesis using assms by (simp add: SetDefaultMap_def Lower_mode entry_no_link)
qed

lemma defaults_doc_ok:
  "sorted_map m \<Longrightarrow> json_ok (JObject [(''version'', JInt 1), (''maps'', JObject (map (\<lambda>kv. (fst kv, JString (snd kv))) m))]) (Suc max_depth)"
  using sorted_map_distinct [of m] by (simp add: max_depth_def in_int64_def list_all_iff comp_def)

fun default_step :: "string \<times> string \<Rightarrow> DefaultMaps \<Rightarrow> DefaultMaps" where
  "default_step (mode, arg) m = (case SetDefaultMap mode arg m of Inl _ \<Rightarrow> m | Inr m' \<Rightarrow> m')"

interpretation defaults: machine default_step "\<lambda>_. True" defaults_ok
proof
  fix s e
  assume "defaults_ok s"
  then show "defaults_ok (default_step e s)" by (cases e) (auto split: sum.split dest: SetDefaultMap_ok)
qed

text \<open>
  The default maps survive a restart: whatever an admin sets and clears, the file that is written is
  read back to the same maps.
\<close>

theorem default_maps_read_back:
  "ParseDefaultMaps (DefaultMapsJson (fold default_step ops [])) = (fold default_step ops [], True)"
proof -
  define m where "m = fold default_step ops []"
  have ok: "defaults_ok m" unfolding m_def by (rule defaults.inv_run) (simp_all add: defaults_ok_def list_all_iff)
  have step: "set_or_keep (fst kv, JString (snd kv)) out = map_put (fst kv) (snd kv) out" if "kv \<in> set m" for kv out
    using that ok by (simp add: set_or_keep_def defaults_ok_def SetDefaultMap_put)
  have "fold set_or_keep (map (\<lambda>kv. (fst kv, JString (snd kv))) m) [] = fold (\<lambda>kv. map_put (fst kv) (snd kv)) m []"
    unfolding fold_map comp_def by (rule fold_cong) (simp_all add: step fun_eq_iff)
  then have "fold set_or_keep (map (\<lambda>kv. (fst kv, JString (snd kv))) m) [] = m" using fold_put_entries [of "[]" m] ok by (simp add: defaults_ok_def)
  moreover have "sorted_map m" using ok by (simp add: defaults_ok_def)
  ultimately show ?thesis
    unfolding m_def [symmetric] ParseDefaultMaps_def DefaultMapsJson_def Parse_line [OF defaults_doc_ok [OF \<open>sorted_map m\<close>]]
    by (simp add: not_blank_Dump Find_def)
qed

section \<open>Bar and map names\<close>

lemma bar_filled_bounds: "1 \<le> segments \<Longrightarrow> 0 \<le> bar_filled d w segments \<and> bar_filled d w segments \<le> segments"
proof -
  assume s: "1 \<le> segments"
  have f: "0 \<le> bar_fraction d w" "bar_fraction d w \<le> 1"
  proof -
    define a b where "a = unat (if w > 0 \<and> d > w then w else d)" and "b = unat w"
    have "w > 0 \<Longrightarrow> a \<le> b \<and> 0 < b" by (auto simp: a_def b_def word_less_nat_alt not_less)
    moreover have "bar_fraction d w = (if w > 0 then real a / real b else 0)" unfolding bar_fraction_def a_def b_def Let_def ..
    ultimately show "0 \<le> bar_fraction d w" "bar_fraction d w \<le> 1" by simp_all
  qed
  then have "bar_fraction d w * of_int segments \<le> of_int segments" using s by (simp add: mult_left_le_one_le)
  moreover have "0 \<le> bar_fraction d w * of_int segments" using f s by simp
  ultimately show ?thesis unfolding bar_filled_def by (auto simp: floor_le_iff)
qed

lemma pick_map_in:
  assumes "set idx \<subseteq> {..<length ms}"
  shows "(mm_name (pick_map ms idx) = [] \<or> mm_name (pick_map ms idx) \<in> set ms)
    \<and> set (mm_ambiguous (pick_map ms idx)) \<subseteq> set ms \<and> length (mm_ambiguous (pick_map ms idx)) \<le> 5"
proof (cases idx)
  case (Cons i js)
  then show ?thesis
    using assms by (cases js) (auto simp: pick_map_def dest: in_set_takeD)
qed (simp add: pick_map_def)

lemma closest_in: "set (snd (closest q names)) \<subseteq> {..<length names}"
proof (cases "names = []")
  case False
  then show ?thesis using closest_upto [of "length names" q names] by (auto simp: closest_def)
qed (simp add: closest_def)

lemma shortest_start_in: "set (shortest_start ms idx) \<subseteq> set idx"
  using set_sort [of "\<lambda>i. length (ms ! i)" idx] by (auto simp: shortest_start_def Let_def dest: in_set_takeD split: if_splits)

text \<open>
  A typed map name gives a map the server has, or at most five candidates that it has; and a map whose
  name is the one typed, in any case, is always the one found.
\<close>

theorem map_name_resolved:
  fixes query :: string and maps :: "string list"
  defines "r \<equiv> ResolveMapName query maps"
  shows "(mm_name r = [] \<or> mm_name r \<in> set maps) \<and> set (mm_ambiguous r) \<subseteq> set maps \<and> length (mm_ambiguous r) \<le> 5
    \<and> (query \<noteq> [] \<longrightarrow> (\<exists>m \<in> set maps. Lower m = Lower query) \<longrightarrow> Lower (mm_name r) = Lower query)"
proof -
  let ?ms = "map Lower maps" and ?q = "Lower query" and ?in = "\<lambda>r. (mm_name r = [] \<or> mm_name r \<in> set maps) \<and> set (mm_ambiguous r) \<subseteq> set maps \<and> length (mm_ambiguous r) \<le> 5"
  have m: "set (matching P ?ms) \<subseteq> {..<length maps}" for P by (auto simp: matching_set)
  have none: "?in no_map" by (simp add: no_map_def)
  have pre: "set (prefixed ?q ?ms) \<subseteq> {..<length maps}" using m by (auto simp: prefixed_def)
  have cl: "set (snd (closest s (map StripPrefix ?ms))) \<subseteq> {..<length maps}" for s using closest_in [of s "map StripPrefix ?ms"] by simp
  have tk: "?in (pick_map maps (take 1 idx))" if "set idx \<subseteq> {..<length maps}" for idx
    by (rule pick_map_in) (use that in \<open>auto dest: in_set_takeD\<close>)
  have dist: "?in (case closest s (map StripPrefix ?ms) of (Some best, idx) \<Rightarrow> if best \<le> k then pick_map maps idx else no_map | (None, _) \<Rightarrow> no_map)" for s k
    using pick_map_in [OF cl [of s]] none by (cases "closest s (map StripPrefix ?ms)") (auto split: option.split)
  have starts: "?in (pick_map maps (shortest_start ?ms (filter P (matching Q ?ms))))" for P Q
    by (rule pick_map_in) (use shortest_start_in m in \<open>fastforce\<close>)
  have "?in r"
    unfolding r_def ResolveMapName_def Let_def
    using none tk [OF m] tk [OF pre] pick_map_in [OF m] starts dist by (simp only: split: if_split) blast
  moreover have "Lower (mm_name r) = ?q" if "query \<noteq> []" "x \<in> set maps" "Lower x = ?q" for x
  proof -
    obtain j where j: "j < length maps" "maps ! j = x" using \<open>x \<in> set maps\<close> by (auto simp: in_set_conv_nth)
    then have "j \<in> set (matching (\<lambda>m. m = ?q) ?ms)" using that(3) by (simp add: matching_set)
    then obtain i js where same: "matching (\<lambda>m. m = ?q) ?ms = i # js" by (cases "matching (\<lambda>m. m = ?q) ?ms") auto
    then have "i \<in> set (matching (\<lambda>m. m = ?q) ?ms)" by simp
    then have "i < length maps" "Lower (maps ! i) = ?q" by (auto simp: matching_set)
    moreover have "mm_name r = maps ! i" using that(1) j same by (auto simp: r_def ResolveMapName_def Let_def pick_map_def)
    ultimately show ?thesis by simp
  qed
  ultimately show ?thesis by blast
qed

lemma map_name_resolved_witness: "Lower (mm_name (ResolveMapName ''DE_NUKE'' [''de_nuke''])) = Lower ''DE_NUKE''"
proof -
  have "Lower ''de_nuke'' = Lower ''DE_NUKE''" by code_simp
  then show ?thesis using map_name_resolved [of "''DE_NUKE''" "[''de_nuke'']"] by simp
qed

end
