(* ===== verification/Movement.thy ===== *)
theory Movement
  imports Name_Match Ordered_Map Json "HOL-Library.Product_Lexorder"
begin

text \<open>
  The movement plugin's rules (plugins/movement/movement_rules.cpp): modes by map name, the zones and courses
  of a map, times and ranks, and the file of records. \<open>Records\<close> is a map of maps of maps, in the order of
  its keys. Coordinates are reals.
\<close>

section \<open>Modes\<close>

datatype MoveMode = Mode_Off | Mode_Surf | Mode_Bhop | Mode_Kz

fun ModeName :: "MoveMode \<Rightarrow> string" where
  "ModeName Mode_Surf = ''surf''"
| "ModeName Mode_Bhop = ''bhop''"
| "ModeName Mode_Kz = ''kz''"
| "ModeName Mode_Off = ''off''"

definition ParseMode :: "string \<Rightarrow> MoveMode \<times> bool" where
  "ParseMode s =
     (let v = Lower s
      in if v = ''surf'' then (Mode_Surf, True)
         else if v = ''bhop'' then (Mode_Bhop, True)
         else if v = ''kz'' \<or> v = ''climb'' then (Mode_Kz, True)
         else if v = ''off'' \<or> v = ''0'' then (Mode_Off, True)
         else (Mode_Off, False))"

definition last_part :: "string \<Rightarrow> string" where
  "last_part m = rev (takeWhile (\<lambda>c. c \<noteq> CHR ''/'') (rev m))"

definition ModeForMap :: "string \<Rightarrow> MoveMode" where
  "ModeForMap mp =
     (let m = last_part (Lower mp)
      in if starts_with ''surf_'' m then Mode_Surf
         else if starts_with ''bhop_'' m then Mode_Bhop
         else if list_ex (\<lambda>p. starts_with p m) [''kz_'', ''xc_'', ''bkz_'', ''kzpro_'', ''skz_'', ''vnl_''] then Mode_Kz
         else Mode_Off)"

datatype FinishChat = Chat_Records | Chat_Self | Chat_All

definition ParseFinishChat :: "string \<Rightarrow> FinishChat \<times> bool" where
  "ParseFinishChat s =
     (let v = Lower s
      in if v = ''self'' then (Chat_Self, True) else if v = ''all'' then (Chat_All, True) else (Chat_Records, v = ''records''))"

definition FinishToAll :: "FinishChat \<Rightarrow> bool \<Rightarrow> bool" where
  "FinishToAll c serverRecord \<longleftrightarrow> c = Chat_All \<or> c = Chat_Records \<and> serverRecord"

definition shared_cvars :: "string list" where
  "shared_cvars =
     [''mp_ignore_round_win_conditions 1'', ''mp_respawn_on_death_ct 1'', ''mp_respawn_on_death_t 1'', ''mp_roundtime 60'',
      ''mp_roundtime_defuse 60'', ''mp_roundtime_hostage 60'', ''mp_freezetime 0'', ''mp_warmup_end'', ''sv_falldamage_scale 0'',
      ''sv_staminajumpcost 0'', ''sv_staminalandcost 0'', ''sv_staminamax 0'', ''mp_solid_teammates 0'', ''mp_friendlyfire 0'',
      ''mp_autokick 0'', ''mp_death_drop_gun 0'', ''sv_enablebunnyhopping 1'', ''sv_maxvelocity 3500'', ''mp_free_armor 1'',
      ''mp_buy_anywhere 1'', ''mp_buytime 99999'', ''bot_quota 0'', ''bot_kick'', ''mp_join_grace_time 3600'']"

fun ModeCvars :: "MoveMode \<Rightarrow> string list" where
  "ModeCvars Mode_Surf = shared_cvars @ [''sv_airaccelerate 150'', ''sv_accelerate 10'', ''sv_friction 4'', ''sv_autobunnyhopping 1'']"
| "ModeCvars Mode_Bhop = shared_cvars @ [''sv_airaccelerate 1000'', ''sv_accelerate 10'', ''sv_friction 4'', ''sv_autobunnyhopping 1'']"
| "ModeCvars Mode_Kz = shared_cvars @ [''sv_airaccelerate 100'', ''sv_accelerate 6.5'', ''sv_friction 5.2'', ''sv_autobunnyhopping 0'']"
| "ModeCvars Mode_Off = []"

section \<open>Zones and courses\<close>

datatype ZoneKind = Zone_None | Zone_Start | Zone_End

text \<open>The number of a bonus and what follows the underscore; None when the name is no bonus.\<close>

definition BonusPrefix :: "string \<Rightarrow> (nat \<times> string) option" where
  "BonusPrefix n =
     (let s = (if starts_with ''timer_'' n then drop 6 n else n);
          skip = (if starts_with ''bonus'' s then Some 5
                  else if length s > 1 \<and> hd s = CHR ''b'' \<and> isdigit (s ! 1) then Some 1 else None)
      in case skip of
           None \<Rightarrow> None
         | Some i \<Rightarrow>
             let ds = take 2 (takeWhile isdigit (drop i s)); rest = drop (i + length ds) s; num = (if ds = [] then 1 else dec_value ds)
             in if rest = [] \<or> hd rest \<noteq> CHR ''_'' \<or> num < 1 then None else Some (num, tl rest))"

definition kStart :: "string list" where
  "kStart = [''map_start'', ''timer_startzone'', ''start_zone'', ''zone_start'', ''startzone'', ''s1_start'', ''climb_startbutton'',
     ''climb_startzone'', ''timer_start'']"

definition kEnd :: "string list" where
  "kEnd = [''map_end'', ''timer_endzone'', ''end_zone'', ''zone_end'', ''endzone'', ''climb_endbutton'', ''climb_endzone'', ''timer_end'']"

definition ClassifyZone :: "string \<Rightarrow> ZoneKind \<times> nat" where
  "ClassifyZone targetname =
     (let n = Lower targetname
      in if n = [] then (Zone_None, 0)
         else if n \<in> set kStart then (Zone_Start, 0)
         else if n \<in> set kEnd then (Zone_End, 0)
         else case BonusPrefix n of
                None \<Rightarrow> (Zone_None, 0)
              | Some (bonus, rest) \<Rightarrow>
                  if rest \<in> {''end'', ''endzone'', ''end_zone'', ''zone_end''} then (Zone_End, bonus)
                  else if rest \<in> {''start'', ''startzone'', ''start_zone'', ''zone_start''} then (Zone_Start, bonus)
                  else (Zone_None, 0))"

definition CourseKey :: "string \<Rightarrow> int \<Rightarrow> string" where
  "CourseKey mode course = (if course > 0 then mode @ ''.b'' @ to_string course else mode)"

definition CourseName :: "int \<Rightarrow> string" where
  "CourseName course = (if course > 0 then ''bonus '' @ to_string course else ''map'')"

definition ParseCourse :: "string \<Rightarrow> int" where
  "ParseCourse arg =
     (let a = Lower arg;
          b = (if starts_with ''bonus'' a then drop 5 a else if take 1 a = ''b'' then drop 1 a else a)
      in if a = [] \<or> a = ''map'' \<or> a = ''main'' then 0
         else if b = [] \<or> length b > 2 \<or> \<not> list_all isdigit b then - 1
         else if dec_value b \<ge> 1 then int (dec_value b) else - 1)"

record Vec3 =
  vec_x :: real
  vec_y :: real
  vec_z :: real

record Box =
  box_mins :: Vec3
  box_maxs :: Vec3

definition Inside :: "Box \<Rightarrow> Vec3 \<Rightarrow> real \<Rightarrow> bool" where
  "Inside b p pad \<longleftrightarrow>
     vec_x (box_mins b) - pad \<le> vec_x p \<and> vec_x p \<le> vec_x (box_maxs b) + pad
     \<and> vec_y (box_mins b) - pad \<le> vec_y p \<and> vec_y p \<le> vec_y (box_maxs b) + pad
     \<and> vec_z (box_mins b) - pad \<le> vec_z p \<and> vec_z p \<le> vec_z (box_maxs b) + pad"

definition Center :: "Box \<Rightarrow> Vec3" where
  "Center b =
     \<lparr>vec_x = (vec_x (box_mins b) + vec_x (box_maxs b)) / 2, vec_y = (vec_y (box_mins b) + vec_y (box_maxs b)) / 2,
      vec_z = vec_z (box_mins b) + 2\<rparr>"

definition FormatTime :: "int \<Rightarrow> string" where
  "FormatTime ms0 =
     (let ms = max 0 ms0; m = ms div 60000; s = ms div 1000 mod 60; r = ms mod 1000
      in if m > 0 then to_string m @ '':'' @ pad0 2 (to_string s) @ ''.'' @ pad0 3 (to_string r)
         else to_string s @ ''.'' @ pad0 3 (to_string r) @ '' s'')"

section \<open>Records\<close>

record RunRecord =
  rr_name :: string
  rr_ms :: int
  rr_date :: int

type_synonym Times = "(u64 \<times> RunRecord) list"
type_synonym Records = "(string \<times> (string \<times> Times) list) list"

definition modes_of :: "Records \<Rightarrow> string \<Rightarrow> (string \<times> Times) list" where
  "modes_of r mp = (case map_of r mp of None \<Rightarrow> [] | Some md \<Rightarrow> md)"

definition times_of :: "Records \<Rightarrow> string \<Rightarrow> string \<Rightarrow> Times" where
  "times_of r mp mode = (case map_of (modes_of r mp) mode of None \<Rightarrow> [] | Some t \<Rightarrow> t)"

definition put_times :: "string \<Rightarrow> string \<Rightarrow> Times \<Rightarrow> Records \<Rightarrow> Records" where
  "put_times mp mode t r = map_put mp (map_put mode t (modes_of r mp)) r"

definition rank_key :: "u64 \<times> RunRecord \<Rightarrow> int \<times> int \<times> u64" where
  "rank_key kv = (rr_ms (snd kv), rr_date (snd kv), fst kv)"

definition Top :: "Records \<Rightarrow> string \<Rightarrow> string \<Rightarrow> nat \<Rightarrow> Times" where
  "Top r mp mode n = take n (sort_key rank_key (times_of r mp mode))"

record Finish =
  fi_personalBest :: bool
  fi_serverRecord :: bool
  fi_previousMs :: int
  fi_rank :: nat

definition better_run :: "Times \<Rightarrow> u64 \<Rightarrow> int \<Rightarrow> bool" where
  "better_run t sid ms = (case map_of t sid of None \<Rightarrow> True | Some old \<Rightarrow> ms < rr_ms old)"

definition new_times :: "Times \<Rightarrow> u64 \<Rightarrow> string \<Rightarrow> int \<Rightarrow> int \<Rightarrow> Times" where
  "new_times t sid name ms now =
     (if better_run t sid ms then map_put sid \<lparr>rr_name = name, rr_ms = ms, rr_date = now\<rparr> t
      else case map_of t sid of None \<Rightarrow> t | Some old \<Rightarrow> map_put sid (old\<lparr>rr_name := name\<rparr>) t)"

definition rank_in :: "Times \<Rightarrow> u64 \<Rightarrow> nat" where
  "rank_in all sid = fold (\<lambda>i rank. if fst (all ! i) = sid then i + 1 else rank) [0..<length all] 0"

definition AddRun :: "string \<Rightarrow> string \<Rightarrow> u64 \<Rightarrow> string \<Rightarrow> int \<Rightarrow> int \<Rightarrow> Records \<Rightarrow> Finish \<times> Records" where
  "AddRun mp mode sid name ms now r =
     (let t = times_of r mp mode;
          best = Top r mp mode 1;
          serverBest = (if best = [] then 0 else rr_ms (snd (hd best)));
          pb = better_run t sid ms;
          t' = new_times t sid name ms now;
          r' = put_times mp mode t' r
      in (\<lparr>fi_personalBest = pb, fi_serverRecord = pb \<and> (serverBest = 0 \<or> ms < serverBest),
           fi_previousMs = (case map_of t sid of None \<Rightarrow> 0 | Some old \<Rightarrow> rr_ms old),
           fi_rank = rank_in (Top r' mp mode (length t')) sid\<rparr>, r'))"

section \<open>Files and messages\<close>

definition cut_name :: "string \<Rightarrow> string" where
  "cut_name n = (if length n > 64 then take (back_off n 64) n else n)"

definition RecordPayload :: "string \<Rightarrow> string \<Rightarrow> int \<Rightarrow> u64 \<Rightarrow> string \<Rightarrow> int \<Rightarrow> int \<Rightarrow> int \<Rightarrow> string" where
  "RecordPayload mp mode course sid name ms teleports finishedAt =
     Dump (JObject [(''map'', JString mp), (''mode'', JString mode), (''course'', JInt course), (''steamid64'', JString (u64_string sid)),
       (''name'', JString (cut_name name)), (''time_ms'', JInt ms), (''teleports'', JInt teleports), (''finished_at'', JInt finishedAt)])"

definition record_json :: "RunRecord \<Rightarrow> json" where
  "record_json r = JObject [(''name'', JString (rr_name r)), (''ms'', JInt (rr_ms r)), (''date'', JInt (rr_date r))]"

definition players_json :: "Times \<Rightarrow> json" where
  "players_json t = JObject (map (\<lambda>kv. (u64_string (fst kv), record_json (snd kv))) t)"

definition modes_json :: "(string \<times> Times) list \<Rightarrow> json" where
  "modes_json md = JObject (map (\<lambda>kv. (fst kv, players_json (snd kv))) md)"

definition records_json :: "Records \<Rightarrow> json" where
  "records_json r = JObject [(''maps'', JObject (map (\<lambda>kv. (fst kv, modes_json (snd kv))) r))]"

definition Serialize :: "Records \<Rightarrow> string" where
  "Serialize r = Dump (records_json r)"

definition record_of_json :: "json \<Rightarrow> RunRecord" where
  "record_of_json j =
     \<lparr>rr_name = (case Find j ''name'' of None \<Rightarrow> [] | Some n \<Rightarrow> AsString n),
      rr_ms = (case Find j ''ms'' of None \<Rightarrow> 0 | Some v \<Rightarrow> AsInt v),
      rr_date = (case Find j ''date'' of None \<Rightarrow> 0 | Some v \<Rightarrow> AsInt v)\<rparr>"

definition take_player :: "string \<Rightarrow> string \<Rightarrow> string \<times> json \<Rightarrow> Records \<Rightarrow> Records" where
  "take_player mp mode p r =
     (case key_id (fst p) of
        None \<Rightarrow> r
      | Some sid \<Rightarrow>
          if \<not> IsObject (snd p) then r
          else let rec = record_of_json (snd p)
               in if rr_ms rec > 0 then put_times mp mode (map_put sid rec (times_of r mp mode)) r else r)"

definition take_mode :: "string \<Rightarrow> string \<times> json \<Rightarrow> Records \<Rightarrow> Records" where
  "take_mode mp md r = fold (take_player mp (fst md)) (Members (snd md)) r"

definition take_map :: "string \<times> json \<Rightarrow> Records \<Rightarrow> Records" where
  "take_map m r = fold (take_mode (fst m)) (Members (snd m)) r"

definition Deserialize :: "string \<Rightarrow> Records option" where
  "Deserialize text =
     (case Parse text of
        Inl _ \<Rightarrow> None
      | Inr doc \<Rightarrow>
          (case Find doc ''maps'' of
             Some (JObject ms) \<Rightarrow> Some (fold take_map ms [])
           | _ \<Rightarrow> None))"

section \<open>Facts\<close>

lemma times_of_put: "times_of (put_times mp mode t r) mp' mode' = (if mp = mp' \<and> mode = mode' then t else times_of r mp' mode')"
  by (simp add: times_of_def put_times_def modes_of_def)

definition times_ok :: "Times \<Rightarrow> bool" where
  "times_ok t \<longleftrightarrow> sorted_map t \<and> (\<forall>kv \<in> set t. rr_ms (snd kv) > 0)"

record Run =
  run_map :: string
  run_mode :: string
  run_sid :: u64
  run_name :: string
  run_ms :: int
  run_now :: int

definition run_step :: "Run \<Rightarrow> Records \<Rightarrow> Records" where
  "run_step x r = snd (AddRun (run_map x) (run_mode x) (run_sid x) (run_name x) (run_ms x) (run_now x) r)"

lemma run_step_times:
  "times_of (run_step x r) mp mode =
     (if run_map x = mp \<and> run_mode x = mode then new_times (times_of r mp mode) (run_sid x) (run_name x) (run_ms x) (run_now x)
      else times_of r mp mode)"
  by (simp add: run_step_def AddRun_def Let_def times_of_put)

lemma new_times_ms:
  "map_option rr_ms (map_of (new_times t sid name ms now) s) =
     (if s = sid then Some (case map_of t sid of None \<Rightarrow> ms | Some old \<Rightarrow> min ms (rr_ms old)) else map_option rr_ms (map_of t s))"
  by (auto simp: new_times_def better_run_def split: option.split)

lemma put_in: "kv \<in> set (map_put k v m) \<Longrightarrow> kv = (k, v) \<or> kv \<in> set m"
  by (induction k v m rule: map_put.induct) (auto split: if_splits)

lemma new_times_ok: "times_ok t \<Longrightarrow> ms > 0 \<Longrightarrow> times_ok (new_times t sid name ms now)"
  using sorted_put [of t sid]
  by (auto simp: times_ok_def new_times_def sorted_map_iff dest!: put_in split: option.split)

lemma min_snoc: "xs \<noteq> [] \<Longrightarrow> Min (f ` set (xs @ [x])) = min (f x) (Min (f ` set xs) :: 'b :: linorder)"
  by simp

text \<open>
  The records are the best times: after any finished runs, the time kept for a player on a map and mode
  is the least of that player's times there, and there is none without a run.
\<close>

theorem records_keep_best:
  "map_option rr_ms (map_of (times_of (fold run_step runs []) mp mode) sid) =
     (let mine = filter (\<lambda>x. run_map x = mp \<and> run_mode x = mode \<and> run_sid x = sid) runs
      in if mine = [] then None else Some (Min (run_ms ` set mine)))"
proof (induction runs rule: rev_induct)
  case Nil
  show ?case by (simp add: times_of_def modes_of_def)
next
  case (snoc x runs)
  let ?P = "\<lambda>x. run_map x = mp \<and> run_mode x = mode \<and> run_sid x = sid"
  let ?mine = "filter ?P runs" and ?t = "times_of (fold run_step runs []) mp mode"
  show ?case
  proof (cases "?P x")
    case True
    then have "map_option rr_ms (map_of (times_of (fold run_step (runs @ [x]) []) mp mode) sid)
        = Some (case map_of ?t sid of None \<Rightarrow> run_ms x | Some old \<Rightarrow> min (run_ms x) (rr_ms old))"
      by (simp add: run_step_times new_times_ms)
    moreover have "filter ?P (runs @ [x]) = ?mine @ [x]" using True by simp
    ultimately show ?thesis using snoc.IH min_snoc [of ?mine run_ms x]
      by (cases "?mine = []"; cases "map_of ?t sid") (simp_all only: Let_def, simp_all)
  next
    case False
    then have "map_option rr_ms (map_of (times_of (fold run_step (runs @ [x]) []) mp mode) sid) = map_option rr_ms (map_of ?t sid)"
      by (auto simp: run_step_times new_times_ms)
    moreover have "filter ?P (runs @ [x]) = ?mine" using False by simp
    ultimately show ?thesis using snoc.IH by (simp only:)
  qed
qed

section \<open>Ranks\<close>

lemma rank_fold: "fold (\<lambda>i rank. if fst (l ! i) = sid then i + 1 else rank) js k =
    (if filter (\<lambda>i. fst (l ! i) = sid) js = [] then k else Suc (last (filter (\<lambda>i. fst (l ! i) = sid) js)))"
  by (induction js arbitrary: k) auto

lemma rank_in_at:
  assumes "distinct (map fst l)" "i < length l" "fst (l ! i) = sid"
  shows "rank_in l sid = Suc i"
proof -
  have "j = i" if "j < length l" "fst (l ! j) = sid" for j
    using assms that nth_eq_iff_index_eq [of "map fst l" j i] by simp
  then have "\<And>j. j \<in> set (filter (\<lambda>j. fst (l ! j) = sid) [0..<length l]) \<longleftrightarrow> j = i" using assms(2,3) by fastforce
  then have only: "set (filter (\<lambda>j. fst (l ! j) = sid) [0..<length l]) = {i}" by blast
  then have ne: "filter (\<lambda>j. fst (l ! j) = sid) [0..<length l] \<noteq> []" by (metis insert_not_empty set_empty)
  then have "last (filter (\<lambda>j. fst (l ! j) = sid) [0..<length l]) = i" using only last_in_set by blast
  then show ?thesis using ne by (simp only: rank_in_def rank_fold if_False)
qed

lemma card_below:
  assumes "sorted_wrt (<) (map key l)" "i < length l"
  shows "card {x \<in> set l. key x < (key (l ! i) :: 'b :: linorder)} = i"
proof -
  have mono: "key (l ! j) < key (l ! k)" if "j < k" "k < length l" for j k
    using assms(1) that by (auto simp: sorted_wrt_iff_nth_less)
  have "{x \<in> set l. key x < key (l ! i)} = set (take i l)"
  proof (rule set_eqI, rule iffI)
    fix x assume "x \<in> {x \<in> set l. key x < key (l ! i)}"
    then obtain j where j: "j < length l" "x = l ! j" "key (l ! j) < key (l ! i)" by (auto simp: in_set_conv_nth)
    then have "j < i" using mono [of i j] by (metis linorder_neqE_nat not_less_iff_gr_or_eq)
    then show "x \<in> set (take i l)" using j by (auto simp: in_set_conv_nth)
  next
    fix x assume "x \<in> set (take i l)"
    then obtain j where "j < i" "x = l ! j" using assms(2) by (auto simp: in_set_conv_nth)
    then show "x \<in> {x \<in> set l. key x < key (l ! i)}" using mono assms(2) by auto
  qed
  moreover have "distinct l"
    using assms(1) by (metis distinct_map strict_sorted_iff)
  ultimately show ?thesis using assms(2) by (simp add: distinct_card)
qed

lemma rank_keys_distinct:
  assumes "sorted_map t"
  shows "distinct (map rank_key t)"
proof -
  have "map (snd \<circ> snd) (map rank_key t) = map fst t" by (simp add: rank_key_def)
  then show ?thesis using sorted_map_distinct [OF assms] distinct_map by metis
qed

lemma sorted_ranks:
  assumes "sorted_map t"
  shows "sorted_wrt (<) (map rank_key (sort_key rank_key t))"
proof -
  have "distinct (map rank_key (sort_key rank_key t))"
    using rank_keys_distinct [OF assms] by (simp add: distinct_map)
  then show ?thesis by (simp only: strict_sorted_iff sorted_sort_key)
qed

lemma rank_counts:
  assumes "sorted_map t" "(sid, rec) \<in> set t"
  shows "rank_in (sort_key rank_key t) sid = Suc (card {kv \<in> set t. rank_key kv < rank_key (sid, rec)})"
proof -
  let ?l = "sort_key rank_key t"
  obtain i where i: "i < length ?l" "?l ! i = (sid, rec)" using assms(2) by (metis in_set_conv_nth set_sort)
  have "distinct (map fst ?l)" using sorted_map_distinct [OF assms(1)] by (simp add: distinct_map)
  then have "rank_in ?l sid = Suc i" using rank_in_at [of ?l i sid] i by simp
  moreover have "card {kv \<in> set ?l. rank_key kv < rank_key (?l ! i)} = i" by (rule card_below [OF sorted_ranks [OF assms(1)] i(1)])
  ultimately show ?thesis using i by simp
qed

lemma top_best:
  assumes "t \<noteq> []"
  shows "rr_ms (snd (hd (sort_key rank_key t))) \<in> (rr_ms \<circ> snd) ` set t"
    and "kv \<in> set t \<Longrightarrow> rr_ms (snd (hd (sort_key rank_key t))) \<le> rr_ms (snd kv)"
proof -
  obtain h tl where l: "sort_key rank_key t = h # tl" using assms by (metis length_sort length_0_conv list.exhaust)
  then have hs: "set t = insert h (set tl)" by (metis list.simps(15) set_sort)
  then show "rr_ms (snd (hd (sort_key rank_key t))) \<in> (rr_ms \<circ> snd) ` set t" using l by simp
  have "sorted (map rank_key (h # tl))" using l sorted_sort_key by metis
  then have "rank_key h \<le> rank_key kv" if "kv \<in> set t" for kv using that hs by auto
  moreover assume "kv \<in> set t"
  ultimately have "rank_key h \<le> rank_key kv" by blast
  then show "rr_ms (snd (hd (sort_key rank_key t))) \<le> rr_ms (snd kv)"
    unfolding l rank_key_def less_eq_prod_def by simp linarith
qed

lemma server_record:
  assumes "times_ok (times_of r mp mode)" "ms > 0"
  shows "fi_serverRecord (fst (AddRun mp mode sid name ms now r)) \<longleftrightarrow> (\<forall>kv \<in> set (times_of r mp mode). ms < rr_ms (snd kv))"
proof (cases "times_of r mp mode = []")
  case True
  then show ?thesis by (simp add: AddRun_def Top_def Let_def better_run_def)
next
  case False
  let ?t = "times_of r mp mode" and ?b = "rr_ms (snd (hd (sort_key rank_key (times_of r mp mode))))"
  have ne: "sort_key rank_key ?t \<noteq> []" using False by (metis length_0_conv length_sort)
  then have hd1: "hd (take (Suc 0) (sort_key rank_key ?t)) = hd (sort_key rank_key ?t)" by (cases "sort_key rank_key ?t") auto
  note b = top_best [OF False]
  have pos: "?b > 0" using b(1) assms(1) by (force simp: times_ok_def)
  have all: "ms < ?b \<longleftrightarrow> (\<forall>kv \<in> set ?t. ms < rr_ms (snd kv))" using b by force
  have "better_run ?t sid ms" if "\<forall>kv \<in> set ?t. ms < rr_ms (snd kv)"
    using that by (auto simp: better_run_def dest!: map_of_SomeD split: option.split)
  moreover have "fi_serverRecord (fst (AddRun mp mode sid name ms now r)) \<longleftrightarrow> better_run ?t sid ms \<and> ms < ?b"
    using pos False ne by (simp add: AddRun_def Top_def Let_def hd1)
  ultimately show ?thesis using all by blast
qed

text \<open>
  C35: A finished run is placed by the order the ranking names: over records kept in order with positive times,
  the rank a run gets is one more than the number of entries with a better (time, date, id), and it is a server
  record exactly when it beats every time kept before.
\<close>

theorem run_is_ranked:
  assumes "times_ok (times_of r mp mode)" "ms > 0" "AddRun mp mode sid name ms now r = (f, r')"
    "map_of (times_of r' mp mode) sid = Some rec"
  shows "fi_rank f = Suc (card {kv \<in> set (times_of r' mp mode). rank_key kv < rank_key (sid, rec)})
    \<and> (fi_serverRecord f \<longleftrightarrow> (\<forall>kv \<in> set (times_of r mp mode). ms < rr_ms (snd kv)))"
proof
  have r': "times_of r' mp mode = new_times (times_of r mp mode) sid name ms now"
    using assms(3) by (auto simp: AddRun_def Let_def times_of_put)
  then have ok: "sorted_map (times_of r' mp mode)" using new_times_ok [OF assms(1,2)] by (simp add: times_ok_def)
  have "f = fst (AddRun mp mode sid name ms now r)" using assms(3) by simp
  moreover have "fi_rank f = rank_in (sort_key rank_key (times_of r' mp mode)) sid"
    using assms(3) r' by (auto simp: AddRun_def Let_def Top_def times_of_put)
  ultimately show "fi_rank f = Suc (card {kv \<in> set (times_of r' mp mode). rank_key kv < rank_key (sid, rec)})"
    and "fi_serverRecord f \<longleftrightarrow> (\<forall>kv \<in> set (times_of r mp mode). ms < rr_ms (snd kv))"
    using rank_counts [OF ok] assms(4) server_record [OF assms(1,2)] by (auto dest: map_of_SomeD)
qed
lemma run_is_ranked_witness:
  "fi_rank (fst (AddRun ''surf_x'' ''surf'' 5 ''a'' 1200 7 [(''surf_x'', [(''surf'', [(3, \<lparr>rr_name = ''b'', rr_ms = 900, rr_date = 1\<rparr>)])])])) =
     Suc (card {kv \<in> set [(3, \<lparr>rr_name = ''b'', rr_ms = 900, rr_date = 1\<rparr>), (5, \<lparr>rr_name = ''a'', rr_ms = 1200, rr_date = 7\<rparr>)].
       rank_key kv < rank_key (5, \<lparr>rr_name = ''a'', rr_ms = 1200, rr_date = 7\<rparr>)})"
proof -
  let ?r = "[(''surf_x'', [(''surf'', [(3 :: u64, \<lparr>rr_name = ''b'', rr_ms = 900, rr_date = 1\<rparr>)])])] :: Records"
  let ?a = "AddRun ''surf_x'' ''surf'' 5 ''a'' 1200 7 ?r"
  have t: "times_of ?r ''surf_x'' ''surf'' = [(3, \<lparr>rr_name = ''b'', rr_ms = 900, rr_date = 1\<rparr>)]"
    by (simp add: times_of_def modes_of_def)
  have t': "times_of (snd ?a) ''surf_x'' ''surf'' =
      [(3, \<lparr>rr_name = ''b'', rr_ms = 900, rr_date = 1\<rparr>), (5, \<lparr>rr_name = ''a'', rr_ms = 1200, rr_date = 7\<rparr>)]"
    by (simp add: AddRun_def Let_def times_of_put t new_times_def better_run_def)
  have a: "?a = (fst ?a, snd ?a)" by simp
  show ?thesis
    using run_is_ranked [of ?r "''surf_x''" "''surf''" 1200 5 "''a''" 7 "fst ?a" "snd ?a" "\<lparr>rr_name = ''a'', rr_ms = 1200, rr_date = 7\<rparr>", OF _ _ a]
    unfolding t t' by (simp add: times_ok_def)
qed

section \<open>The file of records\<close>

lemma put_put: "map_put k v (map_put k v' m) = map_put k v m"
  by (induction k v' m rule: map_put.induct) auto

lemma put_times_twice: "put_times mp mode t (put_times mp mode t' r) = put_times mp mode t r"
  by (simp add: put_times_def modes_of_def put_put)

definition times_saved :: "Times \<Rightarrow> bool" where
  "times_saved t \<longleftrightarrow> t \<noteq> [] \<and> times_ok t
     \<and> (\<forall>kv \<in> set t. fst kv \<noteq> 0 \<and> in_int64 (rr_ms (snd kv)) \<and> in_int64 (rr_date (snd kv)))"

definition modes_saved :: "(string \<times> Times) list \<Rightarrow> bool" where
  "modes_saved md \<longleftrightarrow> md \<noteq> [] \<and> sorted_map md \<and> (\<forall>kv \<in> set md. times_saved (snd kv))"

definition records_saved :: "Records \<Rightarrow> bool" where
  "records_saved r \<longleftrightarrow> sorted_map r \<and> (\<forall>kv \<in> set r. modes_saved (snd kv))"

abbreviation player_entry :: "u64 \<times> RunRecord \<Rightarrow> string \<times> json" where
  "player_entry kv \<equiv> (u64_string (fst kv), record_json (snd kv))"

abbreviation mode_entry :: "string \<times> Times \<Rightarrow> string \<times> json" where
  "mode_entry kv \<equiv> (fst kv, players_json (snd kv))"

abbreviation map_entry :: "string \<times> (string \<times> Times) list \<Rightarrow> string \<times> json" where
  "map_entry kv \<equiv> (fst kv, modes_json (snd kv))"

lemma record_read: "record_of_json (record_json rec) = rec"
  by (simp add: record_of_json_def record_json_def Find_def)

lemma player_read:
  "fst kv \<noteq> 0 \<Longrightarrow> rr_ms (snd kv) > 0 \<Longrightarrow>
    take_player mp mode (player_entry kv) r = put_times mp mode (map_put (fst kv) (snd kv) (times_of r mp mode)) r"
  by (simp add: take_player_def key_id_text record_read) (simp add: record_json_def)

lemma players_read_on:
  assumes "sorted_map (t0 @ t)" "\<forall>kv \<in> set t. fst kv \<noteq> 0 \<and> rr_ms (snd kv) > 0"
  shows "fold (take_player mp mode) (map player_entry t) (put_times mp mode t0 r) = put_times mp mode (t0 @ t) r"
  using assms
proof (induction t arbitrary: t0)
  case (Cons kv t)
  have "map_put (fst kv) (snd kv) t0 = t0 @ [kv]" using Cons.prems(1) by (simp add: put_last sorted_map_append)
  then have "take_player mp mode (player_entry kv) (put_times mp mode t0 r) = put_times mp mode (t0 @ [kv]) r"
    using Cons.prems(2) by (simp add: player_read times_of_put put_times_twice)
  then show ?case using Cons.IH [of "t0 @ [kv]"] Cons.prems by simp
qed simp

lemma players_read:
  assumes "times_saved t" "times_of r mp mode = []"
  shows "fold (take_player mp mode) (map player_entry t) r = put_times mp mode t r"
proof -
  obtain kv t' where t: "t = kv # t'" using assms(1) by (cases t) (auto simp: times_saved_def)
  have ok: "sorted_map ([kv] @ t')" "\<forall>kv \<in> set t. fst kv \<noteq> 0 \<and> rr_ms (snd kv) > 0"
    using assms(1) by (auto simp: times_saved_def times_ok_def t)
  then have "take_player mp mode (player_entry kv) r = put_times mp mode [kv] r" by (simp add: player_read assms(2) t)
  then show ?thesis using players_read_on [OF ok(1)] ok(2) by (simp add: t)
qed

lemma mode_read:
  assumes "times_saved t" "\<forall>k \<in> fst ` set (modes_of r mp). k < mode"
  shows "take_mode mp (mode, players_json t) r = map_put mp (modes_of r mp @ [(mode, t)]) r"
proof -
  have "map_of (modes_of r mp) mode = None" using assms(2) by (auto simp: map_of_eq_None_iff)
  then have "times_of r mp mode = []" by (simp add: times_of_def)
  from players_read [OF assms(1) this] show ?thesis
    by (simp add: take_mode_def players_json_def put_times_def put_last [OF assms(2)])
qed

lemma modes_read_on:
  assumes "sorted_map (md0 @ md)" "\<forall>kv \<in> set md. times_saved (snd kv)"
  shows "fold (take_mode mp) (map mode_entry md) (map_put mp md0 r) = map_put mp (md0 @ md) r"
  using assms
proof (induction md arbitrary: md0)
  case (Cons kv md)
  have "modes_of (map_put mp md0 r) mp = md0" by (simp add: modes_of_def)
  then have "take_mode mp (mode_entry kv) (map_put mp md0 r) = map_put mp (md0 @ [kv]) r"
    using Cons.prems mode_read [of "snd kv" "map_put mp md0 r" mp "fst kv"] by (simp add: sorted_map_append put_put)
  then show ?case using Cons.IH [of "md0 @ [kv]"] Cons.prems by simp
qed simp

lemma map_read:
  assumes "modes_saved md" "\<forall>k \<in> fst ` set r. k < mp"
  shows "take_map (mp, modes_json md) r = r @ [(mp, md)]"
proof -
  obtain kv md' where md: "md = kv # md'" using assms(1) by (cases md) (auto simp: modes_saved_def)
  have ok: "sorted_map ([kv] @ md')" "\<forall>kv \<in> set md. times_saved (snd kv)" using assms(1) by (auto simp: modes_saved_def md)
  have "map_of r mp = None" using assms(2) by (auto simp: map_of_eq_None_iff)
  then have none: "modes_of r mp = []" by (simp add: modes_of_def)
  have "take_mode mp (mode_entry kv) r = map_put mp [kv] r" using mode_read [of "snd kv" r mp "fst kv"] ok(2) none by (simp add: md)
  then have "take_map (mp, modes_json md) r = map_put mp md r"
    using modes_read_on [OF ok(1), of mp r] ok(2) by (simp add: take_map_def modes_json_def md)
  then show ?thesis by (simp add: put_last [OF assms(2)])
qed

lemma maps_read: "sorted_map (r0 @ r) \<Longrightarrow> \<forall>kv \<in> set r. modes_saved (snd kv) \<Longrightarrow> fold take_map (map map_entry r) r0 = r0 @ r"
proof (induction r arbitrary: r0)
  case (Cons kv r)
  then have "take_map (map_entry kv) r0 = r0 @ [kv]" using map_read [of "snd kv" r0 "fst kv"] by (simp add: sorted_map_append)
  with Cons show ?case by simp
qed simp

lemma players_doc_ok: "times_saved t \<Longrightarrow> json_ok (players_json t) (Suc (Suc (Suc n)))"
proof -
  assume t: "times_saved t"
  then have "distinct (map u64_string (map fst t))"
    using sorted_map_distinct [of t] by (simp add: times_saved_def times_ok_def distinct_map inj_on_def)
  then show ?thesis using t by (auto simp: players_json_def record_json_def list_all_iff times_saved_def comp_def)
qed

lemma records_doc_ok:
  assumes "records_saved r"
  shows "json_ok (records_json r) (Suc max_depth)"
proof -
  have "json_ok (modes_json md) (Suc (Suc (Suc (Suc n))))" if "modes_saved md" for md n
    using that sorted_map_distinct [of md] players_doc_ok by (auto simp: modes_json_def list_all_iff modes_saved_def comp_def)
  then show ?thesis using assms sorted_map_distinct [of r]
    by (auto simp: records_json_def list_all_iff records_saved_def comp_def max_depth_def eval_nat_numeral)
qed

text \<open>
  C28: The records survive a restart: records in the order of their keys, with no empty level, ids other than
  zero and times that are positive, are read back from the file as they were written.
\<close>

theorem records_read_back:
  assumes "records_saved r"
  shows "Deserialize (Serialize r) = Some r"
  using maps_read [of "[]" r] assms
  by (simp add: Deserialize_def Serialize_def Parse_Dump [OF records_doc_ok [OF assms]])
    (simp add: records_json_def Find_def records_saved_def)

lemma records_read_back_witness:
  "Deserialize (Serialize [(''surf_x'', [(''surf'', [(3, \<lparr>rr_name = ''b'', rr_ms = 900, rr_date = 1\<rparr>)])])]) =
     Some [(''surf_x'', [(''surf'', [(3, \<lparr>rr_name = ''b'', rr_ms = 900, rr_date = 1\<rparr>)])])]"
  by (rule records_read_back) (simp add: records_saved_def modes_saved_def times_saved_def times_ok_def in_int64_def)

end
