(* ===== verification/Spec2Isabelle.thy ===== *)
theory Spec2Isabelle
  imports Match_Rules Votes Pause_State Match_End Match_Stats Round_Restore Retention Roster_Names Admin_Call
    Damage_Ledger Cvar_Snapshot Fleet_Spool Spool_Files Fleet_Proto Fleet_Links Status_Stream Mapvote Deathmatch Coach_Rules Coaching
    Ruleset Slot_Registry Knife_Round Match_Config Simulation Features Plugin_Needs Load_Order
    Midas Essentials Movement
begin

text \<open>
  Verification library of Ready Up (\<open>src/\<close>), a plugin framework for CS2 servers that runs scrims and
  tournament matches. This theory joins the library and documents it.

  \<^bold>\<open>The program.\<close> A core (\<open>src/core\<close>) is loaded into the game server, finds the engine's functions
  and loads plugins (\<open>src/plugins\<close>). The match plugin (\<open>src/plugins/match/readyup\<close>) is the largest: it
  takes a match config, gates the start on players being ready, runs knife and live rounds, pauses,
  votes, forfeits and coaches, decides maps and series, restores rounds from backup files and keeps
  statistics. The fleet plugin reports to a controller over a spool that survives restarts; the map
  vote, deathmatch, movement, midas and essentials plugins run public servers and serve admins. In each plugin the decisions are in engine-free
  files (\<open>*_rules.cpp\<close>, \<open>*_logic.cpp\<close> and the like), and the rest calls the engine, sends chat and
  does I/O around them. The library models the decisions and the state machines built from them.

  \<^bold>\<open>Theories and sources\<close> (below \<open>src/plugins/match/readyup\<close> unless a path is given).
  \<^item> \<open>Prelude\<close>, \<open>Text_Input\<close>: the part of C++ and its library that the components share (bytes, UTF-8,
    searching, decimal and floating point numbers, lines and fields), and three contracts as locales:
    \<open>machine\<close> (a step function that keeps an invariant), \<open>codec\<close> (a printer with its parser) and
    \<open>strict_weak\<close> (the comparison of a scan or a sort). Each is interpreted on the model's definitions
    where they are declared, and the components' properties use the interpretations.
  \<^item> \<open>Json\<close>, \<open>Fleet_Json\<close>, \<open>Minijson\<close>: the three JSON readers and two printers of the program
    (\<open>src/libs/readyup/status_snapshot.cpp\<close>, \<open>src/plugins/fleet/fleet_json.cpp\<close>,
    \<open>src/libs/readyup/minijson.cpp\<close>). The first two share their control flow; \<open>json_dialect\<close> and
    \<open>json_reader\<close> are the contracts of what they differ in (escapes and numbers), and reading back and
    coming to an end are proved once inside them.
  \<^item> \<open>Match_Config\<close>: \<open>match_config_parser.cpp\<close>. From the text of a match config to the context the match flow
    reads, over \<open>Minijson\<close>, \<open>Json\<close>, \<open>Ruleset\<close>, \<open>Simulation\<close> and \<open>Coach_Rules\<close>.
  \<^item> \<open>Ruleset\<close>: \<open>ruleset.cpp\<close>. The presets, overrides and the rules a match is played with.
  \<^item> \<open>Knife_Round\<close>: \<open>knife_tracker.cpp\<close> and the knife functions of \<open>modes.cpp\<close>.
  \<^item> \<open>Simulation\<close>: \<open>simulation_rules.cpp\<close>, \<open>wingman.cpp\<close>. Matches of bots, bot fill, the wingman mode.
  \<^item> \<open>Match_Rules\<close>: \<open>match_rules.cpp\<close>. Rule resolution, the go-live gate, automatic pauses, playout, team
    names, the forfeit timer.
  \<^item> \<open>Votes\<close>: \<open>vote_logic.cpp\<close>. The surrender vote and the vote to restore a round.
  \<^item> \<open>Pause_State\<close>: \<open>pause_state.cpp\<close> and the pause commands of \<open>match_features.cpp\<close>.
  \<^item> \<open>Match_End\<close>: \<open>match_end_logic.cpp\<close>, \<open>match_end.cpp\<close> and the part of \<open>modes.cpp\<close> that decides a map,
    counts the series and goes back to warmup or idle, with the timers in between.
  \<^item> \<open>Match_Stats\<close>: \<open>match_stats.cpp\<close>. The accumulator, its snapshot, and the rewind of voided rounds.
  \<^item> \<open>Round_Restore\<close>: \<open>round_restore_rules.cpp\<close>. Backup names, selection, refusals, and recovery after a
    crash; it uses \<open>Match_End\<close> and \<open>Match_Stats\<close>.
  \<^item> \<open>Retention\<close>, \<open>Roster_Names\<close>, \<open>Admin_Call\<close>, \<open>Damage_Ledger\<close>, \<open>Cvar_Snapshot\<close>: the files of these
    names (\<open>retention_rules.cpp\<close>, \<open>roster_names_rules.cpp\<close>, \<open>admin_call_logic.cpp\<close>,
    \<open>damage_ledger.cpp\<close>, \<open>cvar_snapshot.cpp\<close>).
  \<^item> \<open>Coach_Rules\<close>, \<open>Coaching\<close>: \<open>coach_rules.cpp\<close>, \<open>src/libs/readyup/steamid.cpp\<close> and \<open>coach.cpp\<close>. The
    policy, and the module that applies it to the engine.
  \<^item> \<open>Fleet_Spool\<close>, \<open>Spool_Files\<close>: \<open>src/plugins/fleet/fleet_spool.cpp\<close>. The message queue, and the text of its
    two files.
  \<^item> \<open>Fleet_Proto\<close>, \<open>Fleet_Links\<close>: \<open>src/plugins/fleet/fleet_proto.cpp\<close>. Envelopes, ids, backoff, the inbound
    stream; then redaction, close codes, URLs and addresses.
  \<^item> \<open>Status_Stream\<close>: \<open>src/libs/readyup/status_snapshot.cpp\<close>. Merge patches and the hub that streams them.
  \<^item> \<open>Slot_Registry\<close>: \<open>src/core/src/readyup/slot_registry.cpp\<close> and the log lines of
    \<open>client_command_hook.cpp\<close>. \<open>Features\<close>, \<open>Plugin_Needs\<close>, \<open>Load_Order\<close>: the files of these names in
    \<open>src/core/src/readyup\<close>, which decide what runs on a given engine build.
  \<^item> \<open>Mapvote\<close>: \<open>src/plugins/mapvote/mapvote_rules.cpp\<close>. \<open>Deathmatch\<close>: \<open>src/plugins/deathmatch/dm_rules.cpp\<close>.
  \<^item> \<open>Ordered_Map\<close>, \<open>Name_Match\<close>: \<open>std::map\<close>, and what the rules of the smaller plugins share: Steam ids in
    text, the edit distance and the search for the closest name.
  \<^item> \<open>Map_Names\<close>: \<open>map_names.cpp\<close>. Entries of map lists, workshop ids and the names they are bound to.
  \<^item> \<open>Essentials\<close>: \<open>src/plugins/essentials/essentials_rules.cpp\<close>. Console lines over chat, admins, default
    maps, panels, map names as typed; it uses \<open>Map_Names\<close>.
  \<^item> \<open>Midas\<close>: \<open>src/plugins/midas/midas_rules.cpp\<close>. \<open>Movement\<close>: \<open>src/plugins/movement/movement_rules.cpp\<close>.

  \<^bold>\<open>State and operations.\<close> A class or a module's globals is a record; each operation is a function
  from the old state to the new one, with what it returns, prints or sends as further results.
  Definitions keep the source's names; a part of a long C++ function that has its own definition is
  named after what it does, and the manifest gives its lines. Locks are the atomicity of one
  operation. What an operation reads from other modules, the engine, the clock or a random source is
  an argument. \<open>uint64_t\<close> is \<^typ>\<open>u64\<close> and wraps; \<open>int\<close> is \<^typ>\<open>int\<close>, far inside 32 bits in these
  components; \<open>double\<close> is \<^typ>\<open>real\<close> without rounding. Maps whose order shows in the result are
  association lists in that order.

  \<^bold>\<open>What is proved.\<close>
  \<^item> Decisions agree with what they are for: a map is decided exactly when the other team cannot draw
    level, a series ends with the team that won more maps, a winner of a vote or of a deathmatch has
    the most, a ballot is as long as it can be, the restored score is the score of the rewound
    statistics, the best player is the best, a run is ranked by the times kept, the edit distance is
    the least number of edits.
  \<^item> Nothing happens too early or twice: forfeits, surrenders, pauses and unpauses, timers of a cancelled
    flow, the second result of a map. Most are statements over whole runs of events, with the
    invariant of the component (the \<open>machine\<close> interpretations) below them.
  \<^item> State survives: a spool restarted from its files, the pause state and the deathmatch scoreboard over a
    plugin reload, a statistics snapshot; recovery after a crash continues where the flow would have.
  \<^item> What is written is read back: JSON values, envelopes, overrides, plugin needs, admins, records and scoreboards; the
    readers agree on what the program prints, and a client that applies the streamed patches has the
    state of the server.
  \<^item> Messages come once and in order, and players and bots are told apart: the inbound stream, the knife
    webhooks, the holders of user ids, the bots that play a roster.
  \<^item> What is read is usable, whatever the text: the numbers, roles and ruleset of an accepted match config;
    a feature is on exactly when its dependencies are, and is reported off once.
  \<^item> Limits and cleanliness: technical pauses, coaches who are not listed, spool sizes, names, rules, map
    entries and HTML that end up in commands or panels, console lines over chat, tokens in logs.
  \<^item> Where the code departs from its comments or its purpose, a lemma shows it on an input; the manifest
    lists these findings.

  \<^bold>\<open>Fuel and termination.\<close> The JSON readers are mutually recursive over a text they consume; their models
  get a number of turns from the length of the text. \<open>Parse_has_fuel\<close> and \<open>mini_turns_enough\<close> show that
  this number is enough for every text, so running out of turns is never the result. The dependency check
  of \<open>Features\<close> recurs over the depth guard of the code. Every other loop is structural recursion, a fold, or
  a function with a termination proof by a length measure (\<open>getlines\<close>, \<open>mini_str_loop\<close>, \<open>FillCard\<close>), so every
  operation returns.

  \<^bold>\<open>Not modelled.\<close> Code that is only engine access, chat, timers, threads, HTTP, websockets or files
  (\<open>plugin_loader.cpp\<close>, \<open>fleet_client.cpp\<close>, \<open>webhook.cpp\<close>, \<open>hud_plugin.cpp\<close>, \<open>practice_plugin.cpp\<close> and the
  like): its behaviour is in the engine and the operating system. The JSON forms of statistics and of
  the progress record, and the HTML panels of the deathmatch plugin. The warmup and ready phases of
  \<open>modes.cpp\<close>. The rules of some smaller plugins (\<open>tv_rules.cpp\<close>, \<open>whitelist_rules.cpp\<close>,
  \<open>community_rules.cpp\<close>, \<open>practice_rules.cpp\<close>): no other component relies on them.
\<close>

end
